(* ===== verification/Prelude.thy ===== *)
theory Prelude
  imports Main "HOL-Library.Sublist" "HOL-Library.AList"
begin

text \<open>
  Shared vocabulary of the development: Python string operations on character lists, results
  that may be an error, database tables as lists of rows, and two interfaces (locales) every
  component uses: a keyed table and a guarded state machine with an invariant.

  A Python \<open>str\<close> is a HOL \<open>string\<close>, so the model covers code points below 256; \<open>lower\<close> is
  Python's \<open>str.lower\<close> on that range.
\<close>

section \<open>Hint collections\<close>

named_theorems result_simps \<open>unfolding rules for the error monad\<close>
named_theorems table_simps \<open>reading a table after an update\<close>

section \<open>Results with an error\<close>

text \<open>
  A Python function that may raise is a function into \<open>'e + 'a\<close>: \<open>Inl\<close> is the exception,
  \<open>Inr\<close> the returned value. \<open>bindE\<close> is sequencing, \<open>requireE\<close> an early \<open>raise\<close>.
\<close>

definition bindE :: "'e + 'a \<Rightarrow> ('a \<Rightarrow> 'e + 'b) \<Rightarrow> 'e + 'b" where
  "bindE m f = (case m of Inl e \<Rightarrow> Inl e | Inr x \<Rightarrow> f x)"

definition requireE :: "bool \<Rightarrow> 'e \<Rightarrow> 'e + unit" where
  "requireE b e = (if b then Inr () else Inl e)"

definition someE :: "'e \<Rightarrow> 'a option \<Rightarrow> 'e + 'a" where
  "someE e x = (case x of None \<Rightarrow> Inl e | Some y \<Rightarrow> Inr y)"

lemma bindE_simps [simp, result_simps]:
  "bindE (Inl e) f = Inl e"
  "bindE (Inr x) f = f x"
  by (simp_all add: bindE_def)

lemma requireE_simps [simp, result_simps]:
  "requireE True e = Inr ()"
  "requireE False e = Inl e"
  by (simp_all add: requireE_def)

lemma someE_simps [simp, result_simps]:
  "someE e None = Inl e"
  "someE e (Some x) = Inr x"
  by (simp_all add: someE_def)

lemma bindE_Inr_iff [result_simps]: "bindE m f = Inr y \<longleftrightarrow> (\<exists>x. m = Inr x \<and> f x = Inr y)"
  by (cases m) auto

lemma bindE_Inl_iff [result_simps]:
  "bindE m f = Inl e \<longleftrightarrow> m = Inl e \<or> (\<exists>x. m = Inr x \<and> f x = Inl e)"
  by (cases m) auto

lemma requireE_Inr_iff [simp, result_simps]: "requireE b e = Inr u \<longleftrightarrow> b"
  by (simp add: requireE_def)

lemma requireE_Inl_iff [result_simps]: "requireE b e = Inl e' \<longleftrightarrow> \<not> b \<and> e' = e"
  by (auto simp: requireE_def)

lemma someE_Inr_iff [simp, result_simps]: "someE e x = Inr y \<longleftrightarrow> x = Some y"
  by (cases x) auto

lemma someE_Inl_iff [result_simps]: "someE e x = Inl e' \<longleftrightarrow> x = None \<and> e' = e"
  by (cases x) auto

section \<open>Python strings\<close>

fun split_on :: "'a \<Rightarrow> 'a list \<Rightarrow> 'a list list" where
  "split_on c [] = [[]]"
| "split_on c (x # xs) =
     (if x = c then [] # split_on c xs
      else (case split_on c xs of [] \<Rightarrow> [[x]] | y # ys \<Rightarrow> (x # y) # ys))"

fun join_on :: "'a \<Rightarrow> 'a list list \<Rightarrow> 'a list" where
  "join_on c [] = []"
| "join_on c [s] = s"
| "join_on c (s # t # ss) = s @ c # join_on c (t # ss)"

fun join_str :: "'a list \<Rightarrow> 'a list list \<Rightarrow> 'a list" where
  "join_str sep [] = []"
| "join_str sep [s] = s"
| "join_str sep (s # t # ss) = s @ sep @ join_str sep (t # ss)"

text \<open>\<open>str.partition(c)\<close>, keeping the two sides.\<close>

definition partition_on :: "'a \<Rightarrow> 'a list \<Rightarrow> 'a list \<times> 'a list" where
  "partition_on c s = (takeWhile (\<lambda>x. x \<noteq> c) s, drop 1 (dropWhile (\<lambda>x. x \<noteq> c) s))"

text \<open>\<open>sub in s\<close>.\<close>

fun contains :: "'a list \<Rightarrow> 'a list \<Rightarrow> bool" where
  "contains sub [] = (sub = [])"
| "contains sub (x # xs) = (prefix sub (x # xs) \<or> contains sub xs)"

definition replace_char :: "'a \<Rightarrow> 'a \<Rightarrow> 'a list \<Rightarrow> 'a list" where
  "replace_char a b s = map (\<lambda>x. if x = a then b else x) s"

definition lower_char :: "char \<Rightarrow> char" where
  "lower_char c =
     (let n = of_char c :: nat in
      if (65 \<le> n \<and> n \<le> 90) \<or> (192 \<le> n \<and> n \<le> 222 \<and> n \<noteq> 215) then char_of (n + 32) else c)"

definition lower :: "string \<Rightarrow> string" where
  "lower s = map lower_char s"

text \<open>The characters \<open>str.strip()\<close> removes, below code point 256.\<close>

definition is_space :: "char \<Rightarrow> bool" where
  "is_space c =
     (let n = of_char c :: nat in
      (9 \<le> n \<and> n \<le> 13) \<or> (28 \<le> n \<and> n \<le> 32) \<or> n = 133 \<or> n = 160)"

definition lstrip :: "string \<Rightarrow> string" where
  "lstrip s = dropWhile is_space s"

definition rstrip :: "string \<Rightarrow> string" where
  "rstrip s = rev (dropWhile is_space (rev s))"

definition strip :: "string \<Rightarrow> string" where
  "strip s = lstrip (rstrip s)"

lemma split_on_not_Nil [simp]: "split_on c s \<noteq> []"
  by (induction s) (auto split: list.splits)

lemma join_on_Cons: "ss \<noteq> [] \<Longrightarrow> join_on c (s # ss) = s @ c # join_on c ss"
  by (cases ss) auto

lemma join_split [simp]: "join_on c (split_on c s) = s"
proof (induction s)
  case Nil
  then show ?case by simp
next
  case (Cons x xs)
  obtain y ys where *: "split_on c xs = y # ys"
    by (meson neq_Nil_conv split_on_not_Nil)
  with Cons show ?case
    by (cases ys) (auto simp: join_on_Cons)
qed

lemma split_on_pieces: "t \<in> set (split_on c s) \<Longrightarrow> c \<notin> set t"
proof (induction s arbitrary: t)
  case Nil
  then show ?case by simp
next
  case (Cons x xs)
  obtain y ys where *: "split_on c xs = y # ys"
    by (meson neq_Nil_conv split_on_not_Nil)
  from Cons.IH * have "c \<notin> set y" "\<And>t. t \<in> set ys \<Longrightarrow> c \<notin> set t" by auto
  with Cons.prems * show ?case by (auto split: if_splits)
qed

lemma split_on_append:
  "c \<notin> set s \<Longrightarrow> split_on c (s @ c # t) = s # split_on c t"
  by (induction s) auto

lemma split_on_id: "c \<notin> set s \<Longrightarrow> split_on c s = [s]"
  by (induction s) auto

lemma split_join:
  "ss \<noteq> [] \<Longrightarrow> (\<And>s. s \<in> set ss \<Longrightarrow> c \<notin> set s) \<Longrightarrow> split_on c (join_on c ss) = ss"
proof (induction ss rule: join_on.induct)
  case (3 c s t ss)
  then show ?case by (simp add: split_on_append)
qed (auto simp: split_on_id)

lemma split_on_append_gen:
  "split_on c (s @ c # t) = split_on c s @ split_on c t"
proof (induction s)
  case Nil
  then show ?case by simp
next
  case (Cons x xs)
  obtain y ys where *: "split_on c xs = y # ys"
    by (meson neq_Nil_conv split_on_not_Nil)
  with Cons show ?case by auto
qed

lemma join_on_append:
  "ss \<noteq> [] \<Longrightarrow> ts \<noteq> [] \<Longrightarrow> join_on c (ss @ ts) = join_on c ss @ c # join_on c ts"
  by (induction ss rule: join_on.induct) (auto simp: join_on_Cons)

lemma set_join_on: "x \<in> set (join_on c ss) \<Longrightarrow> x = c \<or> (\<exists>s \<in> set ss. x \<in> set s)"
  by (induction c ss rule: join_on.induct) auto

lemma set_join_on_pieces: "s \<in> set ss \<Longrightarrow> set s \<subseteq> set (join_on c ss)"
  by (induction c ss rule: join_on.induct) auto

lemma set_split_on: "t \<in> set (split_on c s) \<Longrightarrow> set t \<subseteq> set s"
  by (metis join_split set_join_on_pieces)

lemma contains_append: "contains sub t \<Longrightarrow> contains sub (s @ t)"
proof (induction s)
  case Nil
  then show ?case by simp
next
  case (Cons a s)
  then show ?case by (cases "s @ t") auto
qed

lemma contains_Cons: "contains sub xs \<Longrightarrow> contains sub (x # xs)"
  by simp

lemma lower_length [simp]: "length (lower s) = length s"
  by (simp add: lower_def)

lemma find_append: "find P (xs @ ys) = (case find P xs of None \<Rightarrow> find P ys | Some x \<Rightarrow> Some x)"
  by (induction xs) auto

lemma found: "find P xs = Some x \<Longrightarrow> x \<in> set xs \<and> P x"
  by (auto simp: find_Some_iff)

section \<open>Tables\<close>

text \<open>
  A table of the database is the list of its rows in rowid order, which is the order an
  unordered SELECT returns them. \<open>tbl_get\<close> is \<open>session.get\<close>, \<open>tbl_put\<close> writes a row back,
  \<open>tbl_del\<close> is \<open>session.delete\<close>.
\<close>

definition tbl_get :: "('r \<Rightarrow> int) \<Rightarrow> int \<Rightarrow> 'r list \<Rightarrow> 'r option" where
  "tbl_get key i rows = find (\<lambda>r. key r = i) rows"

definition tbl_put :: "('r \<Rightarrow> int) \<Rightarrow> 'r \<Rightarrow> 'r list \<Rightarrow> 'r list" where
  "tbl_put key r rows = map (\<lambda>x. if key x = key r then r else x) rows"

definition tbl_del :: "('r \<Rightarrow> int) \<Rightarrow> int \<Rightarrow> 'r list \<Rightarrow> 'r list" where
  "tbl_del key i rows = filter (\<lambda>x. key x \<noteq> i) rows"

text \<open>\<open>SELECT max(id)\<close> with 0 for an empty table: the id SQLite gives next is one more.\<close>

definition tbl_max :: "('r \<Rightarrow> int) \<Rightarrow> 'r list \<Rightarrow> int" where
  "tbl_max key rows = fold (\<lambda>r m. max (key r) m) rows 0"

lemma find_map_same:
  "(\<And>x. key (f x) = key x) \<Longrightarrow> find (\<lambda>r. key r = i) (map f rows) = map_option f (find (\<lambda>r. key r = i) rows)"
  by (induction rows) auto

lemma tbl_get_put [table_simps]:
  "tbl_get key i (tbl_put key r rows) =
     (if i = key r \<and> tbl_get key i rows \<noteq> None then Some r else tbl_get key i rows)"
  by (induction rows) (auto simp: tbl_get_def tbl_put_def)

lemma tbl_get_del [table_simps]:
  "tbl_get key i (tbl_del key j rows) = (if i = j then None else tbl_get key i rows)"
  by (induction rows) (auto simp: tbl_get_def tbl_del_def)

lemma tbl_get_append [table_simps]:
  "tbl_get key i (rows @ [r]) =
     (case tbl_get key i rows of None \<Rightarrow> if key r = i then Some r else None | Some x \<Rightarrow> Some x)"
  by (induction rows) (auto simp: tbl_get_def)

lemma tbl_put_ids [simp]: "map key (tbl_put key r rows) = map key rows"
  by (auto simp: tbl_put_def)

lemma tbl_get_Some: "tbl_get key i rows = Some r \<Longrightarrow> key r = i \<and> r \<in> set rows"
  by (auto simp: tbl_get_def find_Some_iff)

lemma same_id: "distinct (map key rs) \<Longrightarrow> x \<in> set rs \<Longrightarrow> y \<in> set rs \<Longrightarrow> key x = key y \<Longrightarrow> x = y"
  by (metis distinct_map inj_onD)

lemma tbl_get_None: "tbl_get key i rows = None \<longleftrightarrow> (\<forall>r \<in> set rows. key r \<noteq> i)"
  by (auto simp: tbl_get_def find_None_iff)

lemma tbl_get_in: "r \<in> set rows \<Longrightarrow> \<exists>r'. tbl_get key (key r) rows = Some r'"
  by (metis not_Some_eq tbl_get_None)

lemma tbl_max_fold: "(a::int) \<le> fold (\<lambda>r m. max (key r) m) rows a"
proof (induction rows arbitrary: a)
  case (Cons x xs)
  from Cons [of "max (key x) a"] show ?case by simp
qed simp

lemma tbl_max_fold_mem: "r \<in> set rows \<Longrightarrow> (key r :: int) \<le> fold (\<lambda>r m. max (key r) m) rows a"
proof (induction rows arbitrary: a)
  case (Cons x xs)
  then show ?case
    using tbl_max_fold [of "max (key x) a" key xs] by (auto simp: max_def split: if_splits)
qed simp

lemma tbl_max_ge: "r \<in> set rows \<Longrightarrow> key r \<le> tbl_max key rows"
  by (simp add: tbl_max_def tbl_max_fold_mem)

section \<open>Dicts in insertion order\<close>

text \<open>
  Where the order of a dict matters it is an association list: \<open>d[k] = v\<close> is \<^const>\<open>AList.update\<close>
  (a new key goes to the end), \<open>del d[k]\<close> is \<^const>\<open>AList.delete\<close>, \<open>d.get(k)\<close> is \<^const>\<open>map_of\<close>.
\<close>

lemma set_alist_update_sub: "set (AList.update k v xs) \<subseteq> insert (k, v) (set xs)"
  by (induction xs) auto

lemma set_alist_update:
  "distinct (map fst xs) \<Longrightarrow> set (AList.update k v xs) = insert (k, v) {x \<in> set xs. fst x \<noteq> k}"
  by (induction xs) (auto simp: image_iff)

lemma set_alist_delete: "set (AList.delete k xs) = {x \<in> set xs. fst x \<noteq> k}"
  by (auto simp: AList.delete_eq)

lemma alist_update_new: "map_of xs k = None \<Longrightarrow> AList.update k v xs = xs @ [(k, v)]"
  by (induction xs) (auto split: if_splits)

section \<open>Interface: a guarded state machine\<close>

text \<open>
  A component whose operations take a state and an operation and either refuse (the state is
  then the one before: the transaction is rolled back) or return the next state. A client
  relies on one law: a successful operation keeps the invariant.
\<close>

locale guarded_machine =
  fixes exec_op :: "'op \<Rightarrow> 's \<Rightarrow> 'e + 's"
    and inv :: "'s \<Rightarrow> bool"
  assumes exec_inv: "inv s \<Longrightarrow> exec_op x s = Inr s' \<Longrightarrow> inv s'"
begin

fun run_ops :: "'op list \<Rightarrow> 's \<Rightarrow> 's" where
  "run_ops [] s = s"
| "run_ops (x # xs) s = run_ops xs (case exec_op x s of Inl e \<Rightarrow> s | Inr s' \<Rightarrow> s')"

inductive reaches :: "'s \<Rightarrow> 's \<Rightarrow> bool" where
  reaches_refl: "reaches s s"
| reaches_step: "reaches s t \<Longrightarrow> exec_op x t = Inr u \<Longrightarrow> reaches s u"

lemma run_inv: "inv s \<Longrightarrow> inv (run_ops xs s)"
proof (induction xs arbitrary: s)
  case (Cons x xs)
  then show ?case by (cases "exec_op x s") (auto intro: exec_inv)
qed simp

lemma reaches_inv: "reaches s t \<Longrightarrow> inv s \<Longrightarrow> inv t"
  by (induction rule: reaches.induct) (auto intro: exec_inv)

lemma run_reaches: "reaches s t \<Longrightarrow> reaches s (run_ops xs t)"
  by (induction xs arbitrary: t) (auto split: sum.splits intro: reaches_step)

end

section \<open>Interface: a keyed table\<close>

text \<open>What the handlers rely on when they read a row, write it back or delete it.\<close>

locale keyed_table =
  fixes key :: "'r \<Rightarrow> int"
    and lookup :: "int \<Rightarrow> 't \<Rightarrow> 'r option"
    and store :: "'r \<Rightarrow> 't \<Rightarrow> 't"
    and delete :: "int \<Rightarrow> 't \<Rightarrow> 't"
  assumes lookup_key: "lookup i t = Some r \<Longrightarrow> key r = i"
    and lookup_store: "lookup i t = Some r \<Longrightarrow> key r' = i \<Longrightarrow> lookup i (store r' t) = Some r'"
    and lookup_store_other: "i \<noteq> key r' \<Longrightarrow> lookup i (store r' t) = lookup i t"
    and lookup_delete: "lookup i (delete i t) = None"
    and lookup_delete_other: "i \<noteq> j \<Longrightarrow> lookup i (delete j t) = lookup i t"
begin

lemma store_twice:
  "lookup i t = Some r \<Longrightarrow> key r1 = i \<Longrightarrow> key r2 = i \<Longrightarrow>
   lookup j (store r2 (store r1 t)) = lookup j (store r2 t)"
  by (metis lookup_store lookup_store_other)

lemma delete_store: "lookup i (delete i (store r t)) = None"
  by (rule lookup_delete)

end

interpretation tbl: keyed_table key "tbl_get key" "tbl_put key" "tbl_del key" for key
  by unfold_locales (auto simp: table_simps dest: tbl_get_Some)

end
