(* ===== verification/Json.thy ===== *)
theory Json
  imports Prelude "HOL-Library.Char_ord" "HOL-Library.List_Lexorder"
begin

text \<open>
  JSON values as Python holds them after \<open>json.loads\<close> or before \<open>json.dumps\<close> (no floats:
  the program puts none in the values modelled here), and the one encoder the program's hash
  chain relies on: \<open>json.dumps(v, sort_keys=True, separators=(",", ":"))\<close> with the default
  \<open>ensure_ascii\<close>. The main result is that this encoding is unambiguous: two values with the
  same text have the same canonical form (the same value up to the order of dict keys).
\<close>

section \<open>Values\<close>

datatype json =
    JNull
  | JBool bool
  | JInt int
  | JStr string
  | JList "json list"
  | JObj "(string \<times> json) list"

text \<open>\<open>json_values.as_int\<close>: an int, but not a bool.\<close>

definition as_int :: "json \<Rightarrow> int option" where
  "as_int v = (case v of JInt i \<Rightarrow> Some i | _ \<Rightarrow> None)"

text \<open>\<open>d.get(k)\<close> with \<open>None\<close> for a missing key, as an option.\<close>

definition dict_get :: "string \<Rightarrow> (string \<times> json) list \<Rightarrow> json option" where
  "dict_get k d = map_of d k"

text \<open>\<open>{**a, **b}\<close>: the keys of \<open>a\<close> in their order, with the values of \<open>b\<close> winning, then \<open>b\<close>'s own.\<close>

definition dict_merge :: "(string \<times> json) list \<Rightarrow> (string \<times> json) list \<Rightarrow> (string \<times> json) list" where
  "dict_merge a b =
     map (\<lambda>(k, v). (k, case map_of b k of Some w \<Rightarrow> w | None \<Rightarrow> v)) a
     @ filter (\<lambda>(k, v). map_of a k = None) b"

definition json_opt :: "('a \<Rightarrow> json) \<Rightarrow> 'a option \<Rightarrow> json" where
  "json_opt f x = (case x of None \<Rightarrow> JNull | Some y \<Rightarrow> f y)"

lemma map_of_map_val: "map_of (map (\<lambda>(k, v). (k, f k v)) a) k = map_option (f k) (map_of a k)"
  by (induction a) auto

lemma map_of_filter_key:
  "map_of (filter (\<lambda>(k, v). P k) b) k = (if P k then map_of b k else None)"
  by (induction b) auto

lemma dict_merge_get:
  "map_of (dict_merge a b) k = (case map_of b k of Some v \<Rightarrow> Some v | None \<Rightarrow> map_of a k)"
  by (auto simp: dict_merge_def map_add_def map_of_map_val map_of_filter_key split: option.splits)

section \<open>Encoding\<close>

definition hexd :: "nat \<Rightarrow> char" where
  "hexd n = ''0123456789abcdef'' ! n"

text \<open>The \<open>py_encode_basestring_ascii\<close> of the standard library, on one character.\<close>

definition esc :: "char \<Rightarrow> string" where
  "esc c =
     (let n = of_char c :: nat in
      if n = 34 then [CHR 0x5C, CHR 0x22]
      else if n = 92 then [CHR 0x5C, CHR 0x5C]
      else if n = 10 then [CHR 0x5C, CHR ''n'']
      else if n = 13 then [CHR 0x5C, CHR ''r'']
      else if n = 9 then [CHR 0x5C, CHR ''t'']
      else if n = 12 then [CHR 0x5C, CHR ''f'']
      else if n = 8 then [CHR 0x5C, CHR ''b'']
      else if 32 \<le> n \<and> n \<le> 126 then [c]
      else [CHR 0x5C, CHR ''u'', CHR ''0'', CHR ''0'', hexd (n div 16), hexd (n mod 16)])"

definition render_str :: "string \<Rightarrow> string" where
  "render_str s = CHR 0x22 # concat (map esc s) @ [CHR 0x22]"

fun show_nat :: "nat \<Rightarrow> string" where
  "show_nat n = (if n < 10 then [hexd n] else show_nat (n div 10) @ [hexd (n mod 10)])"

declare show_nat.simps [simp del]

definition show_int :: "int \<Rightarrow> string" where
  "show_int i = (if i < 0 then CHR ''-'' # show_nat (nat (- i)) else show_nat (nat i))"

fun render :: "json \<Rightarrow> string" where
  "render JNull = ''null''"
| "render (JBool b) = (if b then ''true'' else ''false'')"
| "render (JInt i) = show_int i"
| "render (JStr s) = render_str s"
| "render (JList vs) = CHR ''['' # join_on CHR '','' (map render vs) @ '']''"
| "render (JObj kvs) =
     CHR 0x7B # join_on CHR '','' (map (\<lambda>kv. render_str (fst kv) @ CHR '':'' # render (snd kv)) kvs) @ [CHR 0x7D]"

text \<open>\<open>sort_keys=True\<close>, at every level.\<close>

fun canon :: "json \<Rightarrow> json" where
  "canon (JList vs) = JList (map canon vs)"
| "canon (JObj kvs) = JObj (sort_key fst (map (\<lambda>kv. (fst kv, canon (snd kv))) kvs))"
| "canon v = v"

definition dumps :: "json \<Rightarrow> string" where
  "dumps v = render (canon v)"

section \<open>The encoding is unambiguous\<close>

subsection \<open>Characters and strings\<close>

definition unhex :: "char \<Rightarrow> nat" where
  "unhex c = (let n = of_char c :: nat in if n \<le> 57 then n - 48 else n - 87)"

lemma unhex_hexd: "n < 16 \<Longrightarrow> unhex (hexd n) = n"
proof -
  have "\<forall>n \<in> set [0..<16]. unhex (hexd n) = n" by code_simp
  then show "n < 16 \<Longrightarrow> unhex (hexd n) = n" by simp
qed

lemma hexd_inj: "m < 16 \<Longrightarrow> n < 16 \<Longrightarrow> hexd m = hexd n \<longleftrightarrow> m = n"
  by (metis unhex_hexd)

definition unesc_short :: "char \<Rightarrow> char" where
  "unesc_short d =
     (if d = CHR ''n'' then CHR 0x0A else if d = CHR ''r'' then CHR 0x0D
      else if d = CHR ''t'' then CHR 0x09 else if d = CHR ''f'' then CHR 0x0C
      else if d = CHR ''b'' then CHR 0x08 else d)"

text \<open>A reader for one escaped character, used only to prove that \<open>esc\<close> can be undone.\<close>

definition unesc :: "string \<Rightarrow> char \<times> string" where
  "unesc s =
     (if hd s \<noteq> CHR 0x5C then (hd s, tl s)
      else if s ! 1 \<noteq> CHR ''u'' then (unesc_short (s ! 1), drop 2 s)
      else (char_of (16 * unhex (s ! 4) + unhex (s ! 5)), drop 6 s))"

lemma char_code_bound: "(of_char c :: nat) < 256"
  by (metis of_char_of nat_of_char_less_256)

lemma unesc_esc: "unesc (esc c @ r) = (c, r)"
proof -
  let ?n = "of_char c :: nat"
  have "?n < 256" by (rule char_code_bound)
  then have "?n div 16 < 16" "?n mod 16 < 16" by linarith+
  then have hex: "char_of (16 * unhex (hexd (?n div 16)) + unhex (hexd (?n mod 16))) = c"
    by (simp add: unhex_hexd)
  consider (esc) "?n \<in> {34, 92, 10, 13, 9, 12, 8}"
    | (plain) "?n \<notin> {34, 92, 10, 13, 9, 12, 8}" "32 \<le> ?n" "?n \<le> 126"
    | (hex) "?n \<notin> {34, 92, 10, 13, 9, 12, 8}" "\<not> (32 \<le> ?n \<and> ?n \<le> 126)"
    by blast
  then show ?thesis
  proof cases
    case esc
    then have "c \<in> {CHR 0x22, CHR 0x5C, CHR 0x0A, CHR 0x0D, CHR 0x09, CHR 0x0C, CHR 0x08}"
      using of_char_eq_iff [of c "CHR 0x22"] of_char_eq_iff [of c "CHR 0x5C"]
        of_char_eq_iff [of c "CHR 0x0A"] of_char_eq_iff [of c "CHR 0x0D"]
        of_char_eq_iff [of c "CHR 0x09"] of_char_eq_iff [of c "CHR 0x0C"]
        of_char_eq_iff [of c "CHR 0x08"] by auto
    then show ?thesis
      by (elim insertE emptyE) (simp_all add: esc_def unesc_def unesc_short_def)
  next
    case plain
    then have "esc c = [c]" by (simp add: esc_def Let_def)
    moreover have "c \<noteq> CHR 0x5C" using plain(1) by auto
    ultimately show ?thesis by (simp add: unesc_def)
  next
    case hex
    then have "esc c = [CHR 0x5C, CHR ''u'', CHR ''0'', CHR ''0'', hexd (?n div 16), hexd (?n mod 16)]"
      by (auto simp: esc_def Let_def)
    then show ?thesis using \<open>char_of _ = c\<close> by (simp add: unesc_def)
  qed
qed

lemma esc_inj: "esc c @ r = esc d @ r' \<Longrightarrow> c = d \<and> r = r'"
  by (metis prod.inject unesc_esc)

lemma esc_not_quote: "\<exists>x xs. esc c = x # xs \<and> x \<noteq> CHR 0x22"
proof (cases "(of_char c :: nat) = 34")
  case True
  then show ?thesis by (simp add: esc_def)
next
  case False
  then have "c \<noteq> CHR 0x22" by auto
  with False show ?thesis by (auto simp: esc_def Let_def)
qed

lemma esc_body_inj:
  "concat (map esc s) @ CHR 0x22 # r = concat (map esc t) @ CHR 0x22 # r' \<Longrightarrow> s = t \<and> r = r'"
proof (induction s arbitrary: t)
  case Nil
  then show ?case
    using esc_not_quote [of "hd t"] by (cases t) auto
next
  case (Cons c s)
  show ?case
  proof (cases t)
    case Nil
    with Cons.prems show ?thesis using esc_not_quote [of c] by auto
  next
    case (Cons d u)
    with Cons.prems have "esc c @ (concat (map esc s) @ CHR 0x22 # r) =
        esc d @ (concat (map esc u) @ CHR 0x22 # r')" by simp
    then have "c = d" "concat (map esc s) @ CHR 0x22 # r = concat (map esc u) @ CHR 0x22 # r'"
      using esc_inj by blast+
    with Cons.IH Cons show ?thesis by blast
  qed
qed

lemma render_str_inj: "render_str s @ r = render_str t @ r' \<Longrightarrow> s = t \<and> r = r'"
  by (simp add: render_str_def) (rule esc_body_inj)

subsection \<open>Numbers\<close>

definition is_digit :: "char \<Rightarrow> bool" where
  "is_digit c \<longleftrightarrow> c \<in> set ''0123456789''"

definition read_nat :: "string \<Rightarrow> nat" where
  "read_nat s = fold (\<lambda>c n. 10 * n + unhex c) s 0"

lemma show_nat_digits: "c \<in> set (show_nat n) \<Longrightarrow> is_digit c"
proof (induction n arbitrary: c rule: show_nat.induct)
  case (1 n)
  have dig: "is_digit (hexd m)" if "m < 10" for m
  proof -
    have "\<forall>m \<in> set [0..<10]. is_digit (hexd m)" by code_simp
    with that show ?thesis by simp
  qed
  show ?case
  proof (cases "n < 10")
    case True
    with 1 show ?thesis by (simp add: show_nat.simps [of n] dig)
  next
    case False
    with 1 show ?thesis by (auto simp: show_nat.simps [of n] dig)
  qed
qed

lemma read_show_nat: "read_nat (show_nat n) = n"
proof (induction n rule: show_nat.induct)
  case (1 n)
  show ?case
  proof (cases "n < 10")
    case True
    then show ?thesis by (simp add: show_nat.simps [of n] unhex_hexd read_nat_def)
  next
    case False
    with 1 show ?thesis by (simp add: show_nat.simps [of n] unhex_hexd read_nat_def)
  qed
qed

lemma show_nat_not_Nil: "show_nat n \<noteq> []"
  by (simp add: show_nat.simps [of n])

definition stops :: "string \<Rightarrow> bool" where
  "stops r \<longleftrightarrow> r = [] \<or> \<not> is_digit (hd r)"

lemma digits_prefix_inj:
  assumes "s @ r = t @ r'" "\<forall>c \<in> set s. is_digit c" "\<forall>c \<in> set t. is_digit c" "stops r" "stops r'"
  shows "s = t \<and> r = r'"
proof -
  have take: "takeWhile is_digit (u @ v) = u" if "\<forall>c \<in> set u. is_digit c" "stops v" for u v
    using that by (cases v) (auto simp: stops_def takeWhile_append2)
  from take [OF assms(2,4)] take [OF assms(3,5)] assms(1) have "s = t" by metis
  with assms(1) show ?thesis by simp
qed

lemma show_int_inj:
  assumes "show_int i @ r = show_int j @ r'" "stops r" "stops r'"
  shows "i = j \<and> r = r'"
proof -
  have nodash: "show_nat n @ u \<noteq> CHR ''-'' # v" for n u v
  proof
    assume "show_nat n @ u = CHR ''-'' # v"
    then have "CHR ''-'' \<in> set (show_nat n)" by (metis append_Cons list.set_intros(1) list.inject show_nat_not_Nil neq_Nil_conv)
    then have "is_digit CHR ''-''" by (rule show_nat_digits)
    then show False by (simp add: is_digit_def)
  qed
  have inj: "m = n \<and> r = r'" if "show_nat m @ r = show_nat n @ r'" for m n
  proof -
    have "show_nat m = show_nat n \<and> r = r'"
      using digits_prefix_inj [OF that _ _ assms(2,3)] show_nat_digits by blast
    then have "read_nat (show_nat m) = read_nat (show_nat n) \<and> r = r'" by simp
    then show ?thesis by (simp only: read_show_nat)
  qed
  show ?thesis
  proof (cases "i < 0"; cases "j < 0")
    assume neg: "i < 0" "j < 0"
    with assms(1) have "show_nat (nat (- i)) @ r = show_nat (nat (- j)) @ r'"
      by (simp add: show_int_def)
    from inj [OF this] have "nat (- i) = nat (- j)" "r = r'" by simp_all
    with neg show ?thesis by arith
  next
    assume "i < 0" "\<not> j < 0"
    with assms(1) have "show_nat (nat j) @ r' = CHR ''-'' # (show_nat (nat (- i)) @ r)"
      by (simp add: show_int_def)
    with nodash show ?thesis by blast
  next
    assume "\<not> i < 0" "j < 0"
    with assms(1) have "show_nat (nat i) @ r = CHR ''-'' # (show_nat (nat (- j)) @ r')"
      by (simp add: show_int_def)
    with nodash show ?thesis by blast
  next
    assume pos: "\<not> i < 0" "\<not> j < 0"
    with assms(1) have "show_nat (nat i) @ r = show_nat (nat j) @ r'"
      by (simp add: show_int_def)
    from inj [OF this] have "nat i = nat j" "r = r'" by simp_all
    with pos show ?thesis by arith
  qed
qed

subsection \<open>Values\<close>

text \<open>What can follow a value inside a larger text: nothing, a comma or a closing bracket.\<close>

definition ends :: "string \<Rightarrow> bool" where
  "ends r \<longleftrightarrow> r = [] \<or> hd r \<in> {CHR '','', CHR '']'', CHR 0x7D}"

lemma ends_stops: "ends r \<Longrightarrow> stops r"
  by (auto simp: ends_def stops_def is_digit_def)

definition unique_text :: "('a \<Rightarrow> string) \<Rightarrow> 'a \<Rightarrow> bool" where
  "unique_text ren x \<longleftrightarrow>
     (\<forall>y r r'. ren x @ r = ren y @ r' \<longrightarrow> ends r \<longrightarrow> ends r' \<longrightarrow> x = y \<and> r = r')"

lemma unique_textD:
  "unique_text ren x \<Longrightarrow> ren x @ r = ren y @ r' \<Longrightarrow> ends r \<Longrightarrow> ends r' \<Longrightarrow> x = y \<and> r = r'"
  by (auto simp: unique_text_def)

lemma join_inj:
  assumes "\<And>x. x \<in> set xs \<Longrightarrow> unique_text ren x"
    and close: "k \<in> {CHR '']'', CHR 0x7D}"
    and start: "\<And>y. ren y \<noteq> [] \<and> hd (ren y) \<noteq> k"
    and eq: "join_on CHR '','' (map ren xs) @ k # r = join_on CHR '','' (map ren ys) @ k # r'"
  shows "xs = ys \<and> r = r'"
  using assms(1) eq
proof (induction xs arbitrary: ys)
  case Nil
  then show ?case
  proof (cases ys)
    case (Cons y zs)
    then have "hd (join_on CHR '','' (map ren ys) @ k # r') = hd (ren y)"
      using start [of y] by (cases zs) auto
    with Nil.prems(2) start [of y] show ?thesis by (metis append_Nil join_on.simps(1) list.map(1) list.sel(1))
  qed simp
next
  case (Cons x xs)
  define tail where "tail zs q = (if zs = [] then k # q else CHR '','' # join_on CHR '','' (map ren zs) @ k # q)"
    for zs q
  have tail: "join_on CHR '','' (map ren (z # zs)) @ k # q = ren z @ tail zs q" for z zs q
    by (cases zs) (auto simp: tail_def)
  have ends: "ends (tail zs q)" for zs q
    using close by (auto simp: tail_def ends_def)
  show ?case
  proof (cases ys)
    case Nil
    with Cons.prems(2) tail [of x xs r] start [of x] show ?thesis
      by (metis append_Nil hd_append2 join_on.simps(1) list.map(1) list.sel(1))
  next
    case (Cons y zs)
    with Cons.prems(2) have "ren x @ tail xs r = ren y @ tail zs r'" by (simp only: tail)
    with Cons.prems(1) [of x] ends have xy: "x = y" and t: "tail xs r = tail zs r'"
      unfolding unique_text_def by auto
    from t close have "xs = [] \<longleftrightarrow> zs = []" by (auto simp: tail_def split: if_splits)
    with t have "join_on CHR '','' (map ren xs) @ k # r = join_on CHR '','' (map ren zs) @ k # r'"
      by (auto simp: tail_def split: if_splits)
    with Cons.IH Cons.prems(1) have "xs = zs \<and> r = r'" by simp
    with xy Cons show ?thesis by simp
  qed
qed

fun json_tag :: "json \<Rightarrow> nat" where
  "json_tag JNull = 0"
| "json_tag (JBool b) = (if b then 1 else 2)"
| "json_tag (JInt i) = 3"
| "json_tag (JStr s) = 4"
| "json_tag (JList vs) = 5"
| "json_tag (JObj kvs) = 6"

definition char_tag :: "char \<Rightarrow> nat" where
  "char_tag c =
     (if c = CHR ''n'' then 0 else if c = CHR ''t'' then 1 else if c = CHR ''f'' then 2
      else if c = CHR 0x22 then 4 else if c = CHR ''['' then 5 else if c = CHR 0x7B then 6 else 3)"

lemma show_int_start: "show_int i \<noteq> [] \<and> (hd (show_int i) = CHR ''-'' \<or> is_digit (hd (show_int i)))"
  using show_nat_digits [OF hd_in_set [OF show_nat_not_Nil]] by (auto simp: show_int_def show_nat_not_Nil)

lemma render_start: "render v \<noteq> [] \<and> char_tag (hd (render v)) = json_tag v \<and> hd (render v) \<notin> {CHR '']'', CHR 0x7D}"
proof (cases v)
  case (JInt i)
  with show_int_start [of i] show ?thesis by (auto simp: char_tag_def is_digit_def)
qed (auto simp: char_tag_def render_str_def)

lemma render_tag_eq: "render v @ r = render w @ r' \<Longrightarrow> json_tag v = json_tag w"
  by (metis hd_append2 render_start)

lemma json_tag_inv:
  "json_tag y = json_tag JNull \<Longrightarrow> y = JNull"
  "json_tag y = json_tag (JBool b) \<Longrightarrow> y = JBool b"
  "json_tag y = json_tag (JInt i) \<Longrightarrow> \<exists>j. y = JInt j"
  "json_tag y = json_tag (JStr s) \<Longrightarrow> \<exists>t. y = JStr t"
  "json_tag y = json_tag (JList vs) \<Longrightarrow> \<exists>ws. y = JList ws"
  "json_tag y = json_tag (JObj kvs) \<Longrightarrow> \<exists>kws. y = JObj kws"
  by (cases y; auto split: if_splits)+

lemma render_inj: "unique_text render v"
proof (induction v)
  case (JList vs)
  show ?case
    unfolding unique_text_def
  proof (intro allI impI)
    fix y r r'
    assume eq: "render (JList vs) @ r = render y @ r'" and "ends r" "ends r'"
    from render_tag_eq [OF eq] obtain ws where y: "y = JList ws"
      using json_tag_inv(5) [of y vs] by metis
    have "vs = ws \<and> r = r'"
    proof (rule join_inj [where ren = render and k = "CHR '']''"])
      show "join_on CHR '','' (map render vs) @ CHR '']'' # r = join_on CHR '','' (map render ws) @ CHR '']'' # r'"
        using eq y by simp
    qed (use JList render_start in auto)
    with y show "JList vs = y \<and> r = r'" by simp
  qed
next
  case (JObj kvs)
  let ?ren = "\<lambda>kv. render_str (fst kv) @ CHR '':'' # render (snd kv)"
  have uniq: "unique_text ?ren kv" if "kv \<in> set kvs" for kv
    unfolding unique_text_def
  proof (intro allI impI)
    fix kw r r'
    assume eq: "?ren kv @ r = ?ren kw @ r'" and e: "ends r" "ends r'"
    then have "render_str (fst kv) @ (CHR '':'' # render (snd kv) @ r) =
        render_str (fst kw) @ (CHR '':'' # render (snd kw) @ r')" by simp
    from render_str_inj [OF this] have "fst kv = fst kw" "render (snd kv) @ r = render (snd kw) @ r'"
      by auto
    moreover have "unique_text render (snd kv)"
      using JObj [OF that] by (cases kv) auto
    ultimately show "kv = kw \<and> r = r'"
      using e unfolding unique_text_def by (metis prod_eq_iff)
  qed
  show ?case
    unfolding unique_text_def
  proof (intro allI impI)
    fix y r r'
    assume eq: "render (JObj kvs) @ r = render y @ r'" and "ends r" "ends r'"
    from render_tag_eq [OF eq] obtain kws where y: "y = JObj kws"
      using json_tag_inv(6) [of y kvs] by metis
    have "kvs = kws \<and> r = r'"
    proof (rule join_inj [where ren = ?ren and k = "CHR 0x7D"])
      show "join_on CHR '','' (map ?ren kvs) @ CHR 0x7D # r = join_on CHR '','' (map ?ren kws) @ CHR 0x7D # r'"
        using eq y by simp
    qed (use uniq in \<open>auto simp: render_str_def\<close>)
    with y show "JObj kvs = y \<and> r = r'" by simp
  qed
next
  case (JInt i)
  show ?case
    unfolding unique_text_def
  proof (intro allI impI)
    fix y r r'
    assume eq: "render (JInt i) @ r = render y @ r'" and e: "ends r" "ends r'"
    from render_tag_eq [OF eq] obtain j where y: "y = JInt j"
      using json_tag_inv(3) [of y i] by metis
    with eq have "show_int i @ r = show_int j @ r'" by simp
    from show_int_inj [OF this] e y show "JInt i = y \<and> r = r'" by (simp add: ends_stops)
  qed
next
  case (JStr s)
  show ?case
    unfolding unique_text_def
  proof (intro allI impI)
    fix y r r'
    assume eq: "render (JStr s) @ r = render y @ r'"
    from render_tag_eq [OF eq] obtain t where y: "y = JStr t"
      using json_tag_inv(4) [of y s] by metis
    with eq have "render_str s @ r = render_str t @ r'" by simp
    from render_str_inj [OF this] y show "JStr s = y \<and> r = r'" by simp
  qed
next
  case (JBool b)
  show ?case
    unfolding unique_text_def
  proof (intro allI impI)
    fix y r r'
    assume eq: "render (JBool b) @ r = render y @ r'"
    from render_tag_eq [OF eq] have "y = JBool b"
      using json_tag_inv(2) [of y b] by metis
    with eq show "JBool b = y \<and> r = r'" by simp
  qed
next
  case JNull
  show ?case
    unfolding unique_text_def
  proof (intro allI impI)
    fix y r r'
    assume eq: "render JNull @ r = render y @ r'"
    from render_tag_eq [OF eq] have "y = JNull"
      using json_tag_inv(1) [of y] by metis
    with eq show "JNull = y \<and> r = r'" by simp
  qed
qed

lemma dumps_canon_iff: "dumps v = dumps w \<longleftrightarrow> canon v = canon w"
proof
  assume "dumps v = dumps w"
  then have eq: "render (canon v) @ [] = render (canon w) @ []" by (simp add: dumps_def)
  have "ends []" by (simp add: ends_def)
  from unique_textD [OF render_inj eq this this] show "canon v = canon w" by simp
qed (simp add: dumps_def)

section \<open>Values in a Boolean or a text context\<close>

type_synonym message = "(string \<times> json) list"

definition json_truthy :: "json option \<Rightarrow> bool" where
  "json_truthy v =
     (case v of None \<Rightarrow> False | Some JNull \<Rightarrow> False | Some (JBool b) \<Rightarrow> b | Some (JInt i) \<Rightarrow> i \<noteq> 0
      | Some (JStr s) \<Rightarrow> s \<noteq> [] | Some (JList l) \<Rightarrow> l \<noteq> [] | Some (JObj l) \<Rightarrow> l \<noteq> [])"

text \<open>\<open>str(v)\<close>; \<open>repr\<close> is the text of a list or a dict, which is not written out.\<close>

definition py_str :: "(json \<Rightarrow> string) \<Rightarrow> json \<Rightarrow> string" where
  "py_str repr v =
     (case v of JNull \<Rightarrow> ''None'' | JBool b \<Rightarrow> if b then ''True'' else ''False'' | JInt i \<Rightarrow> show_int i
      | JStr s \<Rightarrow> s | _ \<Rightarrow> repr v)"

end
