(* ===== verification/Models.thy ===== *)
theory Models
  imports Json
begin

text \<open>
  The data model: the enums and tables of \<open>app/models.py\<close> and \<open>app/auth/models.py\<close> as datatypes
  and records, and the database as one record of tables. A timestamp is an \<open>int\<close>, the naive UTC
  time in microseconds. Ids are \<open>int\<close>. Tables declared with \<open>sqlite_autoincrement\<close> carry the
  highest id ever given (a \<open>seq\<close> field), so a deleted id never comes back; every other table
  gives \<open>max(id) + 1\<close>, as SQLite does. The database enforces no foreign keys.
\<close>

section \<open>Enums\<close>

datatype protocol = Ssh | Smb | Winrm | Local | Agent

datatype rule_type = Include | Exclude

datatype pattern_kind = Glob | Regex

datatype severity_level = LevelError | LevelWarning | LevelInfo | LevelDebug

datatype scope_type = ScopeCustomer | ScopeFolder | ScopeSource

datatype capability = View | Download | ManageRules | RunNow

datatype global_capability =
    ManageUsers | ManageRoles | ManageSso | CreateSource
  | ManageSystemSettings | ViewAuditLog | ManageAlerts

datatype auth_provider_type = AuthLocal | AuthOidc | AuthSaml

datatype sso_protocol = SsoOidc | SsoSaml

text \<open>A \<open>StrEnum\<close> member is its string value wherever it is put into JSON.\<close>

fun protocol_value :: "protocol \<Rightarrow> string" where
  "protocol_value Ssh = ''ssh''"
| "protocol_value Smb = ''smb''"
| "protocol_value Winrm = ''winrm''"
| "protocol_value Local = ''local''"
| "protocol_value Agent = ''agent''"

fun rule_type_value :: "rule_type \<Rightarrow> string" where
  "rule_type_value Include = ''include''"
| "rule_type_value Exclude = ''exclude''"

fun level_value :: "severity_level \<Rightarrow> string" where
  "level_value LevelError = ''error''"
| "level_value LevelWarning = ''warning''"
| "level_value LevelInfo = ''info''"
| "level_value LevelDebug = ''debug''"

fun scope_value :: "scope_type \<Rightarrow> string" where
  "scope_value ScopeCustomer = ''customer''"
| "scope_value ScopeFolder = ''folder''"
| "scope_value ScopeSource = ''source''"

fun capability_value :: "capability \<Rightarrow> string" where
  "capability_value View = ''view''"
| "capability_value Download = ''download''"
| "capability_value ManageRules = ''manage_rules''"
| "capability_value RunNow = ''run_now''"

fun global_capability_value :: "global_capability \<Rightarrow> string" where
  "global_capability_value ManageUsers = ''manage_users''"
| "global_capability_value ManageRoles = ''manage_roles''"
| "global_capability_value ManageSso = ''manage_sso''"
| "global_capability_value CreateSource = ''create_source''"
| "global_capability_value ManageSystemSettings = ''manage_system_settings''"
| "global_capability_value ViewAuditLog = ''view_audit_log''"
| "global_capability_value ManageAlerts = ''manage_alerts''"

section \<open>Rows\<close>

record customer =
  c_id :: int
  c_name :: string

record folder =
  f_id :: int
  f_name :: string
  f_customer_id :: int
  f_parent :: "int option"

record source_root =
  root_label :: string
  root_path :: string

record source =
  s_id :: int
  s_name :: string
  s_customer_id :: "int option"
  s_folder_id :: "int option"
  s_protocol :: protocol
  s_host :: string
  s_port :: "int option"
  s_credential_ref :: "string option"
  s_base_path :: string
  s_roots :: "source_root list option"
  s_winrm_scheme :: "string option"
  s_tls_ca_pem :: "string option"
  s_enabled :: bool
  s_schedule_cron :: "string option"
  s_is_system :: bool
  s_agent_token_hash :: "string option"
  s_agent_last_seen_at :: "int option"
  s_agent_os :: "string option"
  s_search_indexing_enabled :: bool

record rule =
  r_id :: int
  r_source_id :: int
  r_order :: int
  r_type :: rule_type
  r_pattern :: string
  r_kind :: pattern_kind
  r_notes :: "string option"

record severity_pattern =
  sp_id :: int
  sp_source_id :: "int option"
  sp_level :: severity_level
  sp_pattern :: string
  sp_kind :: pattern_kind
  sp_enabled :: bool
  sp_highlight_line :: bool
  sp_include_in_navigation :: bool

record search_index_state =
  si_id :: int
  si_source_id :: int
  si_file_path :: string
  si_size :: int
  si_indexed_at :: int

record fts_row =
  fts_source_id :: int
  fts_file_path :: string
  fts_line_number :: int
  fts_snippet :: string

record alert =
  al_id :: int
  al_user_id :: int
  al_name :: string
  al_query :: string
  al_source_id :: "int option"
  al_webhook_url :: string
  al_enabled :: bool
  al_last_checked_at :: "int option"
  al_created_at :: int

record alert_file_state =
  af_alert_id :: int
  af_source_id :: int
  af_file_path :: string
  af_reported_through_line :: int

record monitoring_token =
  mt_id :: int
  mt_token_hash :: string
  mt_created_at :: int

record role =
  ro_id :: int
  ro_name :: string
  ro_is_builtin :: bool
  ro_is_super_admin :: bool
  ro_global_capabilities :: "global_capability list"

record role_grant =
  g_id :: int
  g_role_id :: int
  g_scope_type :: scope_type
  g_scope_id :: int
  g_capabilities :: "capability list"

record user =
  u_id :: int
  u_username :: string
  u_password_hash :: "string option"
  u_role_id :: int
  u_active :: bool
  u_auth_provider :: auth_provider_type
  u_external_issuer :: "string option"
  u_external_id :: "string option"
  u_last_login_at :: "int option"
  u_must_change_password :: bool
  u_mfa_enabled :: bool
  u_mfa_secret_encrypted :: "string option"
  u_mfa_enrolled_at :: "int option"
  u_mfa_last_used_step :: "int option"

record mfa_backup_code =
  bc_id :: int
  bc_user_id :: int
  bc_code_hash :: string
  bc_created_at :: int
  bc_used_at :: "int option"

record sso_provider_config =
  sc_id :: int
  sc_protocol :: sso_protocol
  sc_name :: string
  sc_config :: string
  sc_enabled :: bool

record sso_group_role_mapping =
  gm_id :: int
  gm_order :: int
  gm_group_name :: string
  gm_role_id :: int

record auth_session =
  as_id :: int
  as_token_hash :: string
  as_user_id :: int
  as_created_at :: int
  as_expires_at :: int
  as_last_seen_at :: "int option"
  as_user_agent :: "string option"

record audit_log =
  a_id :: int
  a_user_id :: "int option"
  a_action :: string
  a_target_type :: "string option"
  a_target_id :: "int option"
  a_timestamp :: int
  a_metadata :: "(string \<times> json) list option"
  a_prev_hash :: "string option"
  a_row_hash :: "string option"

record audit_chain_state =
  cs_anchor_row_id :: "int option"
  cs_anchor_hash :: "string option"
  cs_last_checked_at :: "int option"
  cs_status :: string
  cs_broken_row_id :: "int option"
  cs_known_break_cutoff_row_id :: "int option"
  cs_race_break_count :: int
  cs_known_break_count :: int
  cs_known_breaks_recorded_at :: "int option"

section \<open>The database\<close>

record db =
  customers :: "customer list"
  customer_seq :: int
  folders :: "folder list"
  folder_seq :: int
  sources :: "source list"
  source_seq :: int
  rules :: "rule list"
  severity_patterns :: "severity_pattern list"
  index_states :: "search_index_state list"
  fts_rows :: "fts_row list"
  alerts :: "alert list"
  alert_file_states :: "alert_file_state list"
  settings :: "(string \<times> string) list"
  monitoring_tokens :: "monitoring_token list"
  roles :: "role list"
  role_seq :: int
  role_grants :: "role_grant list"
  users :: "user list"
  backup_codes :: "mfa_backup_code list"
  sso_configs :: "sso_provider_config list"
  group_mappings :: "sso_group_role_mapping list"
  auth_sessions :: "auth_session list"
  audit_rows :: "audit_log list"
  chain_state :: "audit_chain_state option"

definition new_chain_state :: audit_chain_state where
  "new_chain_state =
     \<lparr>cs_anchor_row_id = None, cs_anchor_hash = None, cs_last_checked_at = None,
      cs_status = ''unknown'', cs_broken_row_id = None, cs_known_break_cutoff_row_id = None,
      cs_race_break_count = 0, cs_known_break_count = 0, cs_known_breaks_recorded_at = None\<rparr>"

definition empty_db :: db where
  "empty_db =
     \<lparr>customers = [], customer_seq = 0, folders = [], folder_seq = 0, sources = [], source_seq = 0,
      rules = [], severity_patterns = [], index_states = [], fts_rows = [], alerts = [],
      alert_file_states = [], settings = [], monitoring_tokens = [], roles = [], role_seq = 0,
      role_grants = [], users = [], backup_codes = [], sso_configs = [], group_mappings = [],
      auth_sessions = [], audit_rows = [], chain_state = None\<rparr>"

section \<open>Errors an endpoint can end with\<close>

text \<open>
  \<open>HTTPException\<close> with its status and detail; \<open>IntegrityError\<close> is a UNIQUE constraint of the
  database; \<open>AttributeError\<close> is a read through a row that is not there (\<open>None.x\<close>). The last
  two are answered with a 500. Either way nothing is committed.
\<close>

datatype api_error = HTTPException nat string | IntegrityError | AttributeError

abbreviation (input) not_found :: "string \<Rightarrow> api_error" where
  "not_found what \<equiv> HTTPException 404 what"

abbreviation (input) forbidden :: "string \<Rightarrow> api_error" where
  "forbidden what \<equiv> HTTPException 403 what"

abbreviation (input) conflict :: "string \<Rightarrow> api_error" where
  "conflict what \<equiv> HTTPException 409 what"

section \<open>Reading the tables\<close>

abbreviation get_customer :: "db \<Rightarrow> int \<Rightarrow> customer option" where
  "get_customer d i \<equiv> tbl_get c_id i (customers d)"

abbreviation get_folder :: "db \<Rightarrow> int \<Rightarrow> folder option" where
  "get_folder d i \<equiv> tbl_get f_id i (folders d)"

abbreviation get_source :: "db \<Rightarrow> int \<Rightarrow> source option" where
  "get_source d i \<equiv> tbl_get s_id i (sources d)"

abbreviation get_role :: "db \<Rightarrow> int \<Rightarrow> role option" where
  "get_role d i \<equiv> tbl_get ro_id i (roles d)"

abbreviation get_user :: "db \<Rightarrow> int \<Rightarrow> user option" where
  "get_user d i \<equiv> tbl_get u_id i (users d)"

end
