(* ===== verification/Glob.thy ===== *)
theory Glob
  imports Models
begin

text \<open>
  The glob half of \<open>app/rules.py\<close>: \<open>_compile_glob\<close> translates a pattern into a list of regex
  pieces, and \<open>glob_match\<close> is what \<open>re.match\<close> answers for the anchored regex \<open>^...$\<close> made of
  them, with Python's semantics: \<open>.\<close> does not match a newline, \<open>[^/]\<close> does, and \<open>$\<close> also
  matches before one final newline. The lemmas describe matching segment by segment.
\<close>

section \<open>Compilation\<close>

text \<open>The pieces: \<open>(?:.*/)?\<close>, \<open>.*\<close>, \<open>[^/]*\<close>, \<open>[^/]\<close> and an escaped literal.\<close>

datatype gtok = GDirs | GAny | GStar | GOne | GLit char

function compile_glob :: "string \<Rightarrow> gtok list" where
  "compile_glob s =
     (if s = [] then []
      else if take 3 s = ''**/'' then GDirs # compile_glob (drop 3 s)
      else if take 2 s = ''**'' then GAny # compile_glob (drop 2 s)
      else if hd s = CHR ''*'' then GStar # compile_glob (tl s)
      else if hd s = CHR ''?'' then GOne # compile_glob (tl s)
      else GLit (hd s) # compile_glob (tl s))"
  by pat_completeness auto
termination
  by (relation "measure length") auto

declare compile_glob.simps [simp del]

section \<open>Matching\<close>

text \<open>Literal comparison, exact or with \<open>re.IGNORECASE\<close>.\<close>

definition ch_eq :: "bool \<Rightarrow> char \<Rightarrow> char \<Rightarrow> bool" where
  "ch_eq ic a b = (if ic then lower_char a = lower_char b else a = b)"

fun tok_weight :: "gtok \<Rightarrow> nat" where
  "tok_weight GDirs = 3"
| "tok_weight _ = 1"

function toks_match :: "bool \<Rightarrow> gtok list \<Rightarrow> string \<Rightarrow> bool" where
  "toks_match ic [] s = (s = [] \<or> s = [CHR 0x0A])"
| "toks_match ic (GLit c # ts) s =
     (case s of [] \<Rightarrow> False | x # xs \<Rightarrow> ch_eq ic c x \<and> toks_match ic ts xs)"
| "toks_match ic (GOne # ts) s =
     (case s of [] \<Rightarrow> False | x # xs \<Rightarrow> x \<noteq> CHR ''/'' \<and> toks_match ic ts xs)"
| "toks_match ic (GStar # ts) s =
     (toks_match ic ts s \<or>
      (case s of [] \<Rightarrow> False | x # xs \<Rightarrow> x \<noteq> CHR ''/'' \<and> toks_match ic (GStar # ts) xs))"
| "toks_match ic (GAny # ts) s =
     (toks_match ic ts s \<or>
      (case s of [] \<Rightarrow> False | x # xs \<Rightarrow> x \<noteq> CHR 0x0A \<and> toks_match ic (GAny # ts) xs))"
| "toks_match ic (GDirs # ts) s =
     (toks_match ic ts s \<or> toks_match ic (GAny # GLit CHR ''/'' # ts) s)"
  by pat_completeness auto
termination
  by (relation "measures [\<lambda>(ic, ts, s). sum_list (map tok_weight ts), \<lambda>(ic, ts, s). length s]") auto

lemma toks_match_cases [simp]:
  "toks_match ic (GLit c # ts) [] = False"
  "toks_match ic (GLit c # ts) (x # xs) = (ch_eq ic c x \<and> toks_match ic ts xs)"
  "toks_match ic (GOne # ts) [] = False"
  "toks_match ic (GOne # ts) (x # xs) = (x \<noteq> CHR ''/'' \<and> toks_match ic ts xs)"
  "toks_match ic (GStar # ts) [] = toks_match ic ts []"
  "toks_match ic (GStar # ts) (x # xs) =
     (toks_match ic ts (x # xs) \<or> x \<noteq> CHR ''/'' \<and> toks_match ic (GStar # ts) xs)"
  "toks_match ic (GAny # ts) [] = toks_match ic ts []"
  "toks_match ic (GAny # ts) (x # xs) =
     (toks_match ic ts (x # xs) \<or> x \<noteq> CHR 0x0A \<and> toks_match ic (GAny # ts) xs)"
  by simp_all

declare toks_match.simps(2-6) [simp del]

definition glob_match :: "bool \<Rightarrow> string \<Rightarrow> string \<Rightarrow> bool" where
  "glob_match ic pattern path = toks_match ic (compile_glob pattern) path"

section \<open>Segment-wise facts\<close>

text \<open>
  A newline-free path and tokens that cannot cross a \<open>/\<close> are the usual case: \<open>plain\<close> tokens are
  those of a pattern segment without \<open>**\<close>.
\<close>

definition plain_toks :: "gtok list \<Rightarrow> bool" where
  "plain_toks ts \<longleftrightarrow> (\<forall>t \<in> set ts. t \<noteq> GDirs \<and> t \<noteq> GAny \<and> t \<noteq> GLit CHR ''/'')"

definition plain_seg :: "string \<Rightarrow> bool" where
  "plain_seg p \<longleftrightarrow> CHR ''/'' \<notin> set p \<and> \<not> contains ''**'' p"

lemma lower_code:
  "(of_char (lower_char c) :: nat) =
     (let n = of_char c :: nat in
      if (65 \<le> n \<and> n \<le> 90) \<or> (192 \<le> n \<and> n \<le> 222 \<and> n \<noteq> 215) then n + 32 else n)"
  by (auto simp: lower_char_def Let_def)

lemma slash_code: "(of_char c :: nat) = 47 \<longleftrightarrow> c = CHR ''/''"
proof -
  have "(of_char c :: nat) = of_char CHR ''/'' \<longleftrightarrow> c = CHR ''/''" by (rule of_char_eq_iff)
  then show ?thesis by simp
qed

lemma lower_slash [simp]: "lower_char c = CHR ''/'' \<longleftrightarrow> c = CHR ''/''"
proof -
  have "(of_char (lower_char c) :: nat) = 47 \<longleftrightarrow> (of_char c :: nat) = 47"
    by (auto simp: lower_code Let_def)
  then show ?thesis by (simp only: slash_code)
qed

lemma lower_slash_id [simp]: "lower_char CHR ''/'' = CHR ''/''"
  by simp

lemma ch_eq_slash [simp]: "ch_eq ic CHR ''/'' x \<longleftrightarrow> x = CHR ''/''"
  unfolding ch_eq_def lower_slash_id by (metis lower_slash)

lemma ch_eq_slash2 [simp]: "ch_eq ic c CHR ''/'' \<longleftrightarrow> c = CHR ''/''"
  unfolding ch_eq_def lower_slash_id by (metis lower_slash)

lemma ch_eq_refl [simp]: "ch_eq ic c c"
  by (simp add: ch_eq_def)

definition one_tok :: "char \<Rightarrow> gtok" where
  "one_tok x = (if x = CHR ''*'' then GStar else if x = CHR ''?'' then GOne else GLit x)"

lemma compile_Nil [simp]: "compile_glob [] = []"
  by (simp add: compile_glob.simps)

lemma compile_Cons:
  assumes "\<not> prefix ''**'' (x # s)"
  shows "compile_glob (x # s) = one_tok x # compile_glob s"
proof -
  have "take 2 (x # s) \<noteq> ''**''" "take 3 (x # s) \<noteq> ''**/''"
    using assms by (cases s; auto simp: numeral_eq_Suc)+
  then show ?thesis by (simp add: compile_glob.simps [of "x # s"] one_tok_def)
qed

lemma compile_slash: "compile_glob (CHR ''/'' # r) = GLit CHR ''/'' # compile_glob r"
  by (simp add: compile_Cons one_tok_def)

lemma compile_double: "compile_glob ''**'' = [GAny]"
  by (simp add: compile_glob.simps [of "''**''"])

lemma compile_double_slash: "compile_glob (''**'' @ CHR ''/'' # r) = GDirs # compile_glob r"
  by (simp add: compile_glob.simps [of "CHR ''*'' # CHR ''*'' # CHR ''/'' # r"])

lemma plain_seg_Cons:
  assumes "plain_seg (x # xs)"
  shows "plain_seg xs" "x \<noteq> CHR ''/''" "\<not> prefix ''**'' (x # xs)"
  using assms by (cases xs; auto simp: plain_seg_def)+

lemma plain_seg_slash: "plain_seg (x # xs) \<Longrightarrow> \<not> prefix ''**'' (x # xs @ CHR ''/'' # r)"
  by (cases xs) (auto simp: plain_seg_def)

lemma compile_plain_append:
  "plain_seg p \<Longrightarrow> compile_glob (p @ CHR ''/'' # r) = compile_glob p @ GLit CHR ''/'' # compile_glob r"
proof (induction p)
  case Nil
  then show ?case by (simp add: compile_slash)
next
  case (Cons x xs)
  with plain_seg_Cons [OF Cons.prems] plain_seg_slash [OF Cons.prems, of r]
  show ?case by (simp add: compile_Cons)
qed

lemma plain_compile: "plain_seg p \<Longrightarrow> plain_toks (compile_glob p)"
proof (induction p)
  case Nil
  then show ?case by (simp add: plain_toks_def)
next
  case (Cons x xs)
  with plain_seg_Cons [OF Cons.prems]
  show ?case by (auto simp: compile_Cons plain_toks_def one_tok_def)
qed

abbreviation newline_free :: "string \<Rightarrow> bool" where
  "newline_free s \<equiv> CHR 0x0A \<notin> set s"

lemma toks_Nil [simp]: "newline_free s \<Longrightarrow> toks_match ic [] s \<longleftrightarrow> s = []"
  by auto

lemma plain_cross:
  assumes "plain_toks ts" "CHR ''/'' \<notin> set s" "newline_free s"
  shows "toks_match ic (ts @ GLit CHR ''/'' # us) (s @ CHR ''/'' # t) \<longleftrightarrow>
         toks_match ic ts s \<and> toks_match ic us t"
  using assms
proof (induction ts arbitrary: s)
  case Nil
  then show ?case by (cases s) auto
next
  case (Cons k ts)
  then have IH: "CHR ''/'' \<notin> set s \<Longrightarrow> newline_free s \<Longrightarrow>
      toks_match ic (ts @ GLit CHR ''/'' # us) (s @ CHR ''/'' # t) \<longleftrightarrow> toks_match ic ts s \<and> toks_match ic us t" for s
    by (simp add: plain_toks_def)
  show ?case
  proof (cases k)
    case GStar
    from Cons.prems(2,3) show ?thesis
      unfolding GStar
    proof (induction s)
      case Nil
      then show ?case using IH [of "[]"] by simp
    next
      case (Cons a s)
      then show ?case using IH [of "a # s"] by auto
    qed
  qed (use Cons.prems IH in \<open>cases s; auto simp: plain_toks_def\<close>)+
qed

lemma plain_no_slash:
  assumes "plain_toks ts" "newline_free s" "toks_match ic ts s"
  shows "CHR ''/'' \<notin> set s"
  using assms
proof (induction ts arbitrary: s)
  case (Cons k ts)
  then have IH: "newline_free s \<Longrightarrow> toks_match ic ts s \<Longrightarrow> CHR ''/'' \<notin> set s" for s
    by (simp add: plain_toks_def)
  show ?case
  proof (cases k)
    case GStar
    from Cons.prems(2,3) show ?thesis
      unfolding GStar
    proof (induction s)
      case (Cons a s)
      then show ?case using IH [of "a # s"] by auto
    qed simp
  next
    case (GLit c)
    with Cons.prems IH show ?thesis by (cases s) (auto simp: plain_toks_def)
  next
    case GOne
    with Cons.prems IH show ?thesis by (cases s) auto
  qed (use Cons.prems in \<open>auto simp: plain_toks_def\<close>)
qed auto

lemma toks_GAny:
  "newline_free s \<Longrightarrow> toks_match ic (GAny # ts) s \<longleftrightarrow> (\<exists>u v. s = u @ v \<and> toks_match ic ts v)"
proof (induction s)
  case (Cons x xs)
  have "(\<exists>u v. x # xs = u @ v \<and> toks_match ic ts v) \<longleftrightarrow>
      toks_match ic ts (x # xs) \<or> (\<exists>u v. xs = u @ v \<and> toks_match ic ts v)"
    by (metis Cons_eq_append_conv append_Cons append_Nil)
  moreover have "x \<noteq> CHR 0x0A" using Cons.prems by auto
  ultimately show ?case using Cons by simp
qed simp

lemma toks_GDirs:
  assumes "newline_free s"
  shows "toks_match ic (GDirs # ts) s \<longleftrightarrow>
         toks_match ic ts s \<or> (\<exists>u v. s = u @ CHR ''/'' # v \<and> toks_match ic ts v)"
proof -
  have lit: "toks_match ic (GLit CHR ''/'' # ts) v \<longleftrightarrow> (\<exists>w. v = CHR ''/'' # w \<and> toks_match ic ts w)" for v
    by (cases v) auto
  have "toks_match ic (GAny # GLit CHR ''/'' # ts) s \<longleftrightarrow>
      (\<exists>u v. s = u @ CHR ''/'' # v \<and> toks_match ic ts v)"
    unfolding toks_GAny [OF assms] lit by blast
  then show ?thesis by (simp add: toks_match.simps(6))
qed

lemma dirs_step:
  assumes "CHR ''/'' \<notin> set s" "newline_free (s @ CHR ''/'' # t)"
  shows "toks_match ic (GDirs # ts) (s @ CHR ''/'' # t) \<longleftrightarrow>
         toks_match ic ts (s @ CHR ''/'' # t) \<or> toks_match ic (GDirs # ts) t"
proof -
  have "(\<exists>u v. s @ CHR ''/'' # t = u @ CHR ''/'' # v \<and> toks_match ic ts v) \<longleftrightarrow>
      toks_match ic ts t \<or> (\<exists>u v. t = u @ CHR ''/'' # v \<and> toks_match ic ts v)" (is "?l = ?r")
  proof
    assume ?l
    then obtain u v where uv: "s @ CHR ''/'' # t = u @ CHR ''/'' # v" "toks_match ic ts v" by blast
    from uv(1) assms(1) have "u = s \<and> v = t \<or> (\<exists>w. u = s @ CHR ''/'' # w \<and> t = w @ CHR ''/'' # v)"
      by (auto simp: append_eq_append_conv2 Cons_eq_append_conv append_eq_Cons_conv)
    with uv(2) show ?r by blast
  next
    assume ?r
    then show ?l by (metis append_Cons append_assoc)
  qed
  with assms(2) show ?thesis by (simp add: toks_GDirs)
qed

lemma dirs_seg:
  "CHR ''/'' \<notin> set s \<Longrightarrow> newline_free s \<Longrightarrow> toks_match ic (GDirs # ts) s \<longleftrightarrow> toks_match ic ts s"
  by (auto simp: toks_GDirs)

end
