(* ===== verification/LastMatch.thy ===== *)
theory LastMatch
  imports Models
begin

text \<open>
  The interface behind "evaluated in order, last match wins": a list of entries with an order, a
  test and an outcome, and a decision that keeps the outcome of the last entry whose test holds.
  The rule engine (\<open>rules.is_visible\<close>) is one provider.
\<close>

definition last_match_fold :: "('r \<Rightarrow> int) \<Rightarrow> ('r \<Rightarrow> bool) \<Rightarrow> ('r \<Rightarrow> 'v) \<Rightarrow> 'v \<Rightarrow> 'r list \<Rightarrow> 'v" where
  "last_match_fold order matches outcome dflt rs =
     fold (\<lambda>r v. if matches r then outcome r else v) (sort_key order rs) dflt"

lemma fold_last_match:
  "fold (\<lambda>r v. if matches r then outcome r else v) rs d =
     (case find matches (rev rs) of None \<Rightarrow> d | Some r \<Rightarrow> outcome r)"
  by (induction rs rule: rev_induct) (auto split: option.splits)

lemma find_decompose:
  assumes "find P (rev rs) = Some r"
  shows "\<exists>xs ys. rs = xs @ r # ys \<and> P r \<and> (\<forall>y \<in> set ys. \<not> P y)"
  using assms
proof (induction rs rule: rev_induct)
  case (snoc x xs)
  show ?case
  proof (cases "P x")
    case True
    with snoc.prems have "xs @ [x] = xs @ r # [] \<and> P r \<and> (\<forall>y \<in> set []. \<not> P y)" by simp
    then show ?thesis by blast
  next
    case False
    with snoc.prems have "find P (rev xs) = Some r" by simp
    from snoc.IH [OF this] obtain us vs where
      "xs = us @ r # vs" "P r" "\<forall>y \<in> set vs. \<not> P y" by blast
    with False have "xs @ [x] = us @ r # (vs @ [x]) \<and> P r \<and> (\<forall>y \<in> set (vs @ [x]). \<not> P y)" by auto
    then show ?thesis by blast
  qed
qed simp

lemma find_NoneE: "find P (rev rs) = None \<Longrightarrow> r \<in> set rs \<Longrightarrow> \<not> P r"
  by (auto simp: find_None_iff)

lemma insort_key_append_max:
  "f r \<le> f x \<Longrightarrow> insort_key f r (ys @ [x]) = insort_key f r ys @ [x]" for f :: "'r \<Rightarrow> int"
  by (induction ys) auto

lemma sort_key_snoc_max:
  "(\<And>r. r \<in> set rs \<Longrightarrow> f r \<le> f x) \<Longrightarrow> sort_key f (rs @ [x]) = sort_key f rs @ [x]"
  for f :: "'r \<Rightarrow> int"
  by (induction rs) (auto simp: insort_key_append_max)

lemma sort_key_subset_filter: "set (filter P (sort_key f rs)) = {r \<in> set rs. P r}" for f :: "'r \<Rightarrow> int"
  by auto

locale last_match =
  fixes order :: "'r \<Rightarrow> int"
    and matches :: "'r \<Rightarrow> bool"
    and outcome :: "'r \<Rightarrow> 'v"
    and dflt :: 'v
    and decide :: "'r list \<Rightarrow> 'v"
  assumes decide_eq: "decide rs = last_match_fold order matches outcome dflt rs"
begin

lemma decide_last:
  "decide rs = (case find matches (rev (sort_key order rs)) of None \<Rightarrow> dflt | Some r \<Rightarrow> outcome r)"
  by (simp add: decide_eq last_match_fold_def fold_last_match)

lemma decide_none: "(\<And>r. r \<in> set rs \<Longrightarrow> \<not> matches r) \<Longrightarrow> decide rs = dflt"
proof -
  assume "\<And>r. r \<in> set rs \<Longrightarrow> \<not> matches r"
  then have "find matches (rev (sort_key order rs)) = None" by (auto simp: find_None_iff)
  then show "decide rs = dflt" by (simp add: decide_last)
qed

text \<open>A deciding entry: it matches, and every entry sorted after it does not.\<close>

lemma decide_witness:
  assumes "decide rs \<noteq> dflt"
  obtains xs r ys where "sort_key order rs = xs @ r # ys" "matches r"
    "\<forall>y \<in> set ys. \<not> matches y" "decide rs = outcome r"
proof (cases "find matches (rev (sort_key order rs))")
  case None
  with assms show ?thesis by (simp add: decide_last)
next
  case (Some r)
  from find_decompose [OF Some] obtain xs ys where
    "sort_key order rs = xs @ r # ys" "matches r" "\<forall>y \<in> set ys. \<not> matches y" by blast
  with Some that show ?thesis by (simp add: decide_last)
qed

lemma decide_appended:
  "(\<And>r. r \<in> set rs \<Longrightarrow> order r \<le> order x) \<Longrightarrow>
   decide (rs @ [x]) = (if matches x then outcome x else decide rs)"
  by (simp add: decide_eq last_match_fold_def sort_key_snoc_max)

lemma decide_cong:
  "(\<And>r. r \<in> set rs \<Longrightarrow> matches r \<longleftrightarrow> matches' r) \<Longrightarrow>
   last_match_fold order matches' outcome dflt rs = decide rs"
  by (auto simp: decide_eq last_match_fold_def intro!: fold_cong)

end

end
