(* ===== verification/Rules.thy ===== *)
theory Rules
  imports Glob LastMatch
begin

text \<open>
  \<open>app/rules.py\<close>: pattern parsing, the ordered include/exclude chain, directory visibility and
  the path checks made before a client's path reaches a rule. RE2 is a third-party engine: it is
  the parameter \<open>re2\<close>, which maps a pattern and the ignore-case flag to the compiled object's
  \<open>search\<close> (\<open>None\<close> when it does not compile).
\<close>

type_synonym re2_engine = "string \<Rightarrow> bool \<Rightarrow> (string \<Rightarrow> bool) option"

section \<open>Patterns\<close>

text \<open>
  \<open>parse_pattern\<close>: \<open>Inl\<close> is \<open>InvalidPatternError\<close> for that regex. \<open>re_ok\<close> says whether the
  standard library's \<open>re.compile\<close> accepts a pattern.
\<close>

definition parse_pattern ::
  "re2_engine \<Rightarrow> (string \<Rightarrow> bool) \<Rightarrow> string \<Rightarrow> bool \<Rightarrow> string + (string \<times> pattern_kind)" where
  "parse_pattern re2 re_ok raw linear_time =
     (if prefix ''re:'' raw then
        (let pattern = drop 3 raw in
         if (if linear_time then re2 pattern False \<noteq> None else re_ok pattern)
         then Inr (pattern, Regex) else Inl pattern)
      else Inr (raw, Glob))"

section \<open>The rule chain\<close>

definition rule_matches :: "re2_engine \<Rightarrow> bool \<Rightarrow> string \<Rightarrow> rule \<Rightarrow> bool" where
  "rule_matches re2 ignore_case path r =
     (case r_kind r of
        Regex \<Rightarrow>
          (case re2 (r_pattern r) ignore_case of
             None \<Rightarrow> r_type r = Exclude
           | Some search \<Rightarrow> search path)
      | Glob \<Rightarrow> glob_match ignore_case (r_pattern r) path)"

definition is_visible :: "re2_engine \<Rightarrow> bool \<Rightarrow> string \<Rightarrow> rule list \<Rightarrow> bool" where
  "is_visible re2 case_insensitive path rs =
     fold (\<lambda>r verdict. if rule_matches re2 case_insensitive path r then r_type r = Include else verdict)
       (sort_key r_order rs) False"

section \<open>Directories\<close>

definition segment_matches :: "bool \<Rightarrow> string \<Rightarrow> string \<Rightarrow> bool" where
  "segment_matches ignore_case pattern_segment name = glob_match ignore_case pattern_segment name"

text \<open>The inner \<open>walk(pi, si)\<close>, on the parts and segments that are left.\<close>

fun could_walk :: "bool \<Rightarrow> string list \<Rightarrow> string list \<Rightarrow> bool" where
  "could_walk ic ps [] = (ps \<noteq> [])"
| "could_walk ic [] (s # ss) = False"
| "could_walk ic (p # ps) (s # ss) =
     (if p = ''**'' then could_walk ic ps (s # ss) \<or> could_walk ic (p # ps) ss
      else segment_matches ic p s \<and> could_walk ic ps ss)"

definition spans_segments :: "string \<Rightarrow> bool" where
  "spans_segments p \<longleftrightarrow> contains ''**'' p \<and> p \<noteq> ''**''"

definition glob_could_match_below :: "bool \<Rightarrow> string \<Rightarrow> string list \<Rightarrow> bool" where
  "glob_could_match_below ic pattern dir_segments =
     (let parts = split_on CHR ''/'' pattern in
      if list_ex spans_segments parts then True else could_walk ic parts dir_segments)"

fun exact_walk :: "bool \<Rightarrow> string list \<Rightarrow> string list \<Rightarrow> bool" where
  "exact_walk ic [] ss = (ss = [])"
| "exact_walk ic (p # ps) [] = (p = ''**'' \<and> exact_walk ic ps [])"
| "exact_walk ic (p # ps) (s # ss) =
     (if p = ''**'' then exact_walk ic ps (s # ss) \<or> exact_walk ic (p # ps) ss
      else segment_matches ic p s \<and> exact_walk ic ps ss)"

definition glob_covers_everything_below :: "bool \<Rightarrow> string \<Rightarrow> string list \<Rightarrow> bool" where
  "glob_covers_everything_below ic pattern dir_segments =
     (let parts = split_on CHR ''/'' pattern in
      if last parts \<noteq> ''**'' \<or> list_ex spans_segments parts then False
      else list_ex (\<lambda>k. exact_walk ic (butlast parts) (take k dir_segments)) [0..<Suc (length dir_segments)])"

text \<open>The loop of \<open>is_dir_visible\<close> over the ordered rules; \<open>later\<close> is \<open>ordered[i + 1:]\<close>.\<close>

fun dir_scan :: "bool \<Rightarrow> string list \<Rightarrow> rule list \<Rightarrow> bool" where
  "dir_scan ic segments [] = False"
| "dir_scan ic segments (r # later) =
     (if r_type r \<noteq> Include then dir_scan ic segments later
      else if r_kind r = Glob \<and> \<not> glob_could_match_below ic (r_pattern r) segments
      then dir_scan ic segments later
      else if list_ex (\<lambda>l. r_type l = Exclude \<and> r_kind l = Glob \<and>
                glob_covers_everything_below ic (r_pattern l) segments) later
      then dir_scan ic segments later
      else True)"

definition is_dir_visible :: "bool \<Rightarrow> string \<Rightarrow> rule list \<Rightarrow> bool" where
  "is_dir_visible case_insensitive dir_path rs =
     (if dir_path = '''' then True
      else dir_scan case_insensitive (split_on CHR ''/'' dir_path) (sort_key r_order rs))"

definition is_entry_visible :: "re2_engine \<Rightarrow> bool \<Rightarrow> string \<Rightarrow> bool \<Rightarrow> rule list \<Rightarrow> bool" where
  "is_entry_visible re2 case_insensitive path is_dir rs =
     (if is_dir then is_dir_visible case_insensitive path rs
      else is_visible re2 case_insensitive path rs)"

definition rules_case_insensitive :: "source \<Rightarrow> bool" where
  "rules_case_insensitive s =
     (if s_protocol s = Smb \<or> s_protocol s = Winrm then True
      else s_protocol s = Agent \<and> s_agent_os s = Some ''windows'')"

section \<open>Path checks\<close>

definition is_safe_relative_path :: "string \<Rightarrow> bool" where
  "is_safe_relative_path path =
     (if path = '''' then True
      else if CHR 0x5C \<in> set path \<or> CHR '':'' \<in> set path then False
      else if list_ex (\<lambda>ch. (of_char ch :: nat) < 32 \<or> (of_char ch :: nat) = 127) path then False
      else list_all (\<lambda>segment. segment \<noteq> '''' \<and> segment \<noteq> ''.'' \<and> segment \<noteq> ''..'')
             (split_on CHR ''/'' path))"

text \<open>\<open>_SHORT_NAME_ALIAS\<close>: \<open>^[^~]{1,8}~\d+(\.[^.]*)?$\<close> (its \<open>$\<close> also accepts a final newline).\<close>

definition short_name_alias :: "string \<Rightarrow> bool" where
  "short_name_alias name =
     (let stem = takeWhile (\<lambda>c. c \<noteq> CHR ''~'') name;
          rest = dropWhile (\<lambda>c. c \<noteq> CHR ''~'') name;
          digits = takeWhile is_digit (tl rest);
          tail = dropWhile is_digit (tl rest)
      in 1 \<le> length stem \<and> length stem \<le> 8 \<and> rest \<noteq> [] \<and> digits \<noteq> [] \<and>
         (tail = [] \<or> tail = [CHR 0x0A] \<or> (hd tail = CHR ''.'' \<and> CHR ''.'' \<notin> set (tl tail))))"

definition is_safe_windows_relative_path :: "string \<Rightarrow> bool" where
  "is_safe_windows_relative_path path =
     list_all (\<lambda>segment. \<not> (suffix ''.'' segment \<or> suffix '' '' segment \<or> short_name_alias segment))
       (if path = '''' then [] else split_on CHR ''/'' path)"

section \<open>Segment-wise soundness of the two walks\<close>

text \<open>Pattern parts the walks model, and path segments: free of \<open>/\<close> and of newlines.\<close>

definition part_ok :: "string \<Rightarrow> bool" where
  "part_ok p \<longleftrightarrow> p = ''**'' \<or> plain_seg p"

definition seg_ok :: "string \<Rightarrow> bool" where
  "seg_ok s \<longleftrightarrow> CHR ''/'' \<notin> set s \<and> newline_free s"

lemma parts_ok:
  assumes "\<not> list_ex spans_segments (split_on CHR ''/'' pattern)"
  shows "\<forall>p \<in> set (split_on CHR ''/'' pattern). part_ok p"
  using assms split_on_pieces [of _ "CHR ''/''" pattern]
  by (auto simp: list_ex_iff spans_segments_def part_ok_def plain_seg_def)

lemma segs_ok: "newline_free path \<Longrightarrow> \<forall>s \<in> set (split_on CHR ''/'' path). seg_ok s"
  using split_on_pieces [of _ "CHR ''/''" path] set_split_on [of _ "CHR ''/''" path]
  by (auto simp: seg_ok_def)

lemma join_newline_free: "\<forall>s \<in> set ss. seg_ok s \<Longrightarrow> newline_free (join_on CHR ''/'' ss)"
  using set_join_on [of "CHR 0x0A" "CHR ''/''" ss] by (auto simp: seg_ok_def)

lemma match_anything: "newline_free s \<Longrightarrow> toks_match ic [GAny] s"
  by (induction s) auto

lemma could_walk_any: "could_walk ic [''**''] ss"
  by (induction ss) auto

lemma could_walk_complete:
  assumes "toks_match ic (compile_glob (join_on CHR ''/'' ps)) (join_on CHR ''/'' (ss @ ts))"
    and "ps \<noteq> []" "ts \<noteq> []" "\<forall>p \<in> set ps. part_ok p" "\<forall>s \<in> set (ss @ ts). seg_ok s"
  shows "could_walk ic ps ss"
  using assms
proof (induction ic ps ss rule: could_walk.induct)
  case (3 ic p ps s ss)
  let ?rest = "join_on CHR ''/'' (ss @ ts)"
  have join: "join_on CHR ''/'' ((s # ss) @ ts) = s @ CHR ''/'' # ?rest"
    using "3.prems"(3) by (simp add: join_on_Cons)
  have s: "CHR ''/'' \<notin> set s" "newline_free s" and nl: "newline_free (s @ CHR ''/'' # ?rest)"
    using "3.prems"(5) join_newline_free [of "ss @ ts"] by (auto simp: seg_ok_def)
  have m: "toks_match ic (compile_glob (join_on CHR ''/'' (p # ps))) (s @ CHR ''/'' # ?rest)"
    using "3.prems"(1) join by simp
  show ?case
  proof (cases "p = ''**''")
    case True
    show ?thesis
    proof (cases "ps = []")
      case False
      then have c: "compile_glob (join_on CHR ''/'' (p # ps)) = GDirs # compile_glob (join_on CHR ''/'' ps)"
        using True compile_double_slash by (simp add: join_on_Cons)
      from m have "toks_match ic (compile_glob (join_on CHR ''/'' ps)) (s @ CHR ''/'' # ?rest) \<or>
          toks_match ic (GDirs # compile_glob (join_on CHR ''/'' ps)) ?rest"
        unfolding c by (simp only: dirs_step [OF s(1) nl])
      then show ?thesis
        using "3.IH"(1,2) [OF True] "3.prems"(3-5) False True c join by auto
    qed (use True could_walk_any in simp)
  next
    case False
    with "3.prems"(4) have p: "plain_seg p" by (simp add: part_ok_def)
    show ?thesis
    proof (cases "ps = []")
      case True
      with m have "toks_match ic (compile_glob p) (s @ CHR ''/'' # ?rest)" by simp
      from plain_no_slash [OF plain_compile [OF p] nl this] show ?thesis by simp
    next
      case ps: False
      with m have "toks_match ic (compile_glob p @ GLit CHR ''/'' # compile_glob (join_on CHR ''/'' ps))
          (s @ CHR ''/'' # ?rest)"
        using compile_plain_append [OF p] by (simp add: join_on_Cons)
      then have "toks_match ic (compile_glob p) s \<and> toks_match ic (compile_glob (join_on CHR ''/'' ps)) ?rest"
        by (simp only: plain_cross [OF plain_compile [OF p] s])
      then show ?thesis
        using "3.IH"(3) [OF False] "3.prems"(3-5) ps False
        by (simp add: segment_matches_def glob_match_def)
    qed
  qed
qed auto

lemma exact_walk_covers:
  assumes "exact_walk ic ps ss" "ts \<noteq> []" "\<forall>p \<in> set ps. part_ok p" "\<forall>s \<in> set (ss @ ts). seg_ok s"
  shows "toks_match ic (compile_glob (join_on CHR ''/'' (ps @ [''**'']))) (join_on CHR ''/'' (ss @ ts))"
  using assms
proof (induction ic ps ss rule: exact_walk.induct)
  case (1 ic ss)
  then have "newline_free (join_on CHR ''/'' ts)" using join_newline_free [of ts] by simp
  with 1 show ?case by (simp add: compile_double match_anything)
next
  case (2 ic p ps)
  then have "toks_match ic (compile_glob (join_on CHR ''/'' (ps @ [''**'']))) (join_on CHR ''/'' ts)"
    and p: "p = ''**''" by auto
  then show ?case
    using compile_double_slash [of "join_on CHR ''/'' (ps @ [''**''])"]
    by (simp add: join_on_Cons toks_match.simps(6))
next
  case (3 ic p ps s ss)
  let ?rest = "join_on CHR ''/'' (ss @ ts)" and ?pat = "compile_glob (join_on CHR ''/'' (ps @ [''**'']))"
  have join: "join_on CHR ''/'' ((s # ss) @ ts) = s @ CHR ''/'' # ?rest"
    using "3.prems"(2) by (simp add: join_on_Cons)
  have s: "CHR ''/'' \<notin> set s" "newline_free s" and nl: "newline_free (s @ CHR ''/'' # ?rest)"
    using "3.prems"(4) join_newline_free [of "ss @ ts"] by (auto simp: seg_ok_def)
  show ?case
  proof (cases "p = ''**''")
    case True
    have c: "compile_glob (join_on CHR ''/'' ((p # ps) @ [''**''])) = GDirs # ?pat"
      using True compile_double_slash by (simp add: join_on_Cons)
    from "3.prems"(1) True consider "exact_walk ic ps (s # ss)" | "exact_walk ic (p # ps) ss" by auto
    then have "toks_match ic ?pat (s @ CHR ''/'' # ?rest) \<or> toks_match ic (GDirs # ?pat) ?rest"
    proof cases
      case 1
      from "3.IH"(1) [OF True 1] "3.prems"(2-4) show ?thesis by (simp add: join [symmetric])
    next
      case 2
      from "3.IH"(2) [OF True 2] "3.prems"(2-4) c show ?thesis by simp
    qed
    then show ?thesis unfolding c join by (simp only: dirs_step [OF s(1) nl])
  next
    case False
    with "3.prems"(3) have p: "plain_seg p" by (simp add: part_ok_def)
    have c: "compile_glob (join_on CHR ''/'' ((p # ps) @ [''**''])) = compile_glob p @ GLit CHR ''/'' # ?pat"
      using compile_plain_append [OF p] by (simp add: join_on_Cons)
    from "3.prems"(1) False have w: "segment_matches ic p s" "exact_walk ic ps ss" by auto
    from "3.IH"(3) [OF False w(2)] "3.prems"(2-4) have "toks_match ic ?pat ?rest" by simp
    with w(1) show ?thesis
      unfolding c join by (simp only: plain_cross [OF plain_compile [OF p] s]) (simp add: segment_matches_def glob_match_def)
  qed
qed

lemma glob_below_complete:
  assumes "glob_match ic pattern (d @ CHR ''/'' # r)" "newline_free (d @ CHR ''/'' # r)"
  shows "glob_could_match_below ic pattern (split_on CHR ''/'' d)"
proof (cases "list_ex spans_segments (split_on CHR ''/'' pattern)")
  case False
  have "join_on CHR ''/'' (split_on CHR ''/'' d @ split_on CHR ''/'' r) = d @ CHR ''/'' # r"
    by (metis join_split split_on_append_gen)
  moreover have "\<forall>s \<in> set (split_on CHR ''/'' d @ split_on CHR ''/'' r). seg_ok s"
    using segs_ok [OF assms(2)] by (simp only: split_on_append_gen)
  ultimately have "could_walk ic (split_on CHR ''/'' pattern) (split_on CHR ''/'' d)"
    using assms(1) parts_ok [OF False]
    by (intro could_walk_complete [where ts = "split_on CHR ''/'' r"]) (simp_all add: glob_match_def)
  then show ?thesis by (simp add: glob_could_match_below_def)
qed (simp add: glob_could_match_below_def)

lemma covers_iff:
  "glob_covers_everything_below ic pattern segs \<longleftrightarrow>
     (let parts = split_on CHR ''/'' pattern in
      last parts = ''**'' \<and> \<not> list_ex spans_segments parts \<and>
      (\<exists>k \<le> length segs. exact_walk ic (butlast parts) (take k segs)))"
  unfolding glob_covers_everything_below_def Let_def list_ex_iff set_upt
  by (auto simp: less_Suc_eq_le simp del: upt_Suc)

lemma glob_covers_sound:
  assumes "glob_covers_everything_below ic pattern (split_on CHR ''/'' d)" "newline_free (d @ CHR ''/'' # r)"
  shows "glob_match ic pattern (d @ CHR ''/'' # r)"
proof -
  let ?parts = "split_on CHR ''/'' pattern" and ?ds = "split_on CHR ''/'' d"
  from assms(1) obtain k where no: "\<not> list_ex spans_segments ?parts" and last: "last ?parts = ''**''"
    and k: "exact_walk ic (butlast ?parts) (take k ?ds)"
    by (auto simp: covers_iff Let_def)
  let ?ts = "drop k ?ds @ split_on CHR ''/'' r"
  have path: "take k ?ds @ ?ts = split_on CHR ''/'' (d @ CHR ''/'' # r)"
    by (simp add: split_on_append_gen)
  have pat: "butlast ?parts @ [''**''] = ?parts"
    using last by (metis append_butlast_last_id split_on_not_Nil)
  have "toks_match ic (compile_glob (join_on CHR ''/'' (butlast ?parts @ [''**''])))
      (join_on CHR ''/'' (take k ?ds @ ?ts))"
  proof (rule exact_walk_covers [OF k])
    show "\<forall>p \<in> set (butlast ?parts). part_ok p"
      using parts_ok [OF no] by (auto dest: in_set_butlastD)
    show "\<forall>s \<in> set (take k ?ds @ ?ts). seg_ok s"
      unfolding path by (rule segs_ok [OF assms(2)])
  qed simp
  then show ?thesis unfolding path pat by (simp add: glob_match_def)
qed

section \<open>Directory visibility\<close>

definition keeps_visible :: "bool \<Rightarrow> string list \<Rightarrow> rule \<Rightarrow> bool" where
  "keeps_visible ic segs r \<longleftrightarrow>
     r_type r = Include \<and> (r_kind r = Glob \<longrightarrow> glob_could_match_below ic (r_pattern r) segs)"

definition hides_all :: "bool \<Rightarrow> string list \<Rightarrow> rule \<Rightarrow> bool" where
  "hides_all ic segs l \<longleftrightarrow>
     r_type l = Exclude \<and> r_kind l = Glob \<and> glob_covers_everything_below ic (r_pattern l) segs"

lemma dir_scan_Cons:
  "dir_scan ic segs (r # later) \<longleftrightarrow>
     keeps_visible ic segs r \<and> \<not> list_ex (hides_all ic segs) later \<or> dir_scan ic segs later"
  by (auto simp: keeps_visible_def hides_all_def list_ex_iff)

declare dir_scan.simps(2) [simp del]

lemma dir_scan_iff:
  "dir_scan ic segs rs \<longleftrightarrow>
     (\<exists>xs r ys. rs = xs @ r # ys \<and> keeps_visible ic segs r \<and> \<not> list_ex (hides_all ic segs) ys)"
proof (induction rs)
  case (Cons x rs)
  show ?case
    unfolding dir_scan_Cons Cons by (auto simp: Cons_eq_append_conv)
qed simp

interpretation vis: last_match r_order "rule_matches re2 ic path" "\<lambda>r. r_type r = Include" False
    "is_visible re2 ic path" for re2 ic path
  by unfold_locales (simp add: is_visible_def last_match_fold_def)

lemma visible_below_dir_visible:
  assumes "is_visible re2 ic (d @ CHR ''/'' # r) rs" "newline_free (d @ CHR ''/'' # r)"
  shows "is_dir_visible ic d rs"
proof -
  from assms(1) have "is_visible re2 ic (d @ CHR ''/'' # r) rs \<noteq> False" by simp
  then obtain xs i ys where ord: "sort_key r_order rs = xs @ i # ys"
    and m: "rule_matches re2 ic (d @ CHR ''/'' # r) i"
    and no: "\<forall>y \<in> set ys. \<not> rule_matches re2 ic (d @ CHR ''/'' # r) y"
    and inc: "r_type i = Include"
    using assms(1) by (elim vis.decide_witness) auto
  let ?segs = "split_on CHR ''/'' d"
  have "keeps_visible ic ?segs i"
    using inc m glob_below_complete [OF _ assms(2)]
    by (auto simp: keeps_visible_def rule_matches_def)
  moreover have "\<not> list_ex (hides_all ic ?segs) ys"
    using no glob_covers_sound [OF _ assms(2)]
    by (auto simp: list_ex_iff hides_all_def rule_matches_def)
  ultimately show ?thesis
    using ord by (auto simp: is_dir_visible_def dir_scan_iff)
qed

lemma could_walk_prefix: "could_walk ic ps (ss @ ts) \<Longrightarrow> could_walk ic ps ss"
proof (induction ic ps ss rule: could_walk.induct)
  case (1 ic ps)
  then show ?case by (cases ps; cases ts) auto
qed (auto split: if_splits)

lemma keeps_visible_prefix: "keeps_visible ic (ss @ ts) r \<Longrightarrow> keeps_visible ic ss r"
  by (auto simp: keeps_visible_def glob_could_match_below_def Let_def intro: could_walk_prefix split: if_splits)

lemma hides_all_prefix: "hides_all ic ss r \<Longrightarrow> hides_all ic (ss @ ts) r"
proof -
  have "\<exists>k \<le> length (ss @ ts). P (take k (ss @ ts))" if "\<exists>k \<le> length ss. P (take k ss)" for P
    using that by (metis append_take_drop_id length_append take_append trans_le_add1 diff_is_0_eq take_0 append_Nil2)
  then show "hides_all ic ss r \<Longrightarrow> hides_all ic (ss @ ts) r"
    unfolding hides_all_def covers_iff Let_def by blast
qed

lemma dir_visible_prefix:
  assumes "is_dir_visible ic (d @ CHR ''/'' # e) rs"
  shows "is_dir_visible ic d rs"
  using assms keeps_visible_prefix hides_all_prefix
  by (auto simp: is_dir_visible_def dir_scan_iff split_on_append_gen list_ex_iff) blast

section \<open>Letter case\<close>

lemma lower_newline: "lower_char c = CHR 0x0A \<longleftrightarrow> c = CHR 0x0A"
proof -
  have code: "(of_char c :: nat) = 10 \<longleftrightarrow> c = CHR 0x0A" for c
  proof -
    have "(of_char c :: nat) = of_char CHR 0x0A \<longleftrightarrow> c = CHR 0x0A" by (rule of_char_eq_iff)
    then show ?thesis by simp
  qed
  have "(of_char (lower_char c) :: nat) = 10 \<longleftrightarrow> (of_char c :: nat) = 10"
    by (auto simp: lower_code Let_def)
  then show ?thesis by (simp only: code)
qed

lemma lower_Cons_eq:
  "lower (x # xs) = lower q \<longleftrightarrow> (\<exists>y ys. q = y # ys \<and> lower_char x = lower_char y \<and> lower xs = lower ys)"
  by (cases q) (auto simp: lower_def)

lemma lower_Nil_eq: "lower [] = lower q \<longleftrightarrow> q = []"
  by (auto simp: lower_def)

lemma toks_match_lower: "lower p = lower q \<Longrightarrow> toks_match True ts p = toks_match True ts q"
proof (induction True ts p arbitrary: q rule: toks_match.induct)
  case (1 s)
  have "s = [CHR 0x0A] \<longleftrightarrow> q = [CHR 0x0A]"
  proof (cases s)
    case (Cons x xs)
    with 1 obtain y ys where q: "q = y # ys" "lower_char x = lower_char y" "lower xs = lower ys"
      by (auto simp: lower_Cons_eq)
    have "x = CHR 0x0A \<longleftrightarrow> y = CHR 0x0A" using q(2) lower_newline by metis
    with Cons q show ?thesis by (auto simp: lower_def)
  qed (use 1 in \<open>auto simp: lower_def\<close>)
  moreover have "s = [] \<longleftrightarrow> q = []" using 1 by (auto simp: lower_def)
  ultimately show ?case by simp
next
  case (6 ts s)
  from "6.hyps"(1) [OF "6.prems"] "6.hyps"(2) [OF "6.prems"] show ?case
    by (simp only: toks_match.simps(6))
next
  case (2 c ts s)
  show ?case
  proof (cases s)
    case (Cons x xs)
    with "2.prems" obtain y ys where q: "q = y # ys" "lower_char x = lower_char y" "lower xs = lower ys"
      by (auto simp: lower_Cons_eq)
    with "2.hyps" [OF Cons q(3)] Cons show ?thesis by (simp add: ch_eq_def)
  qed (use 2 in \<open>simp add: lower_def\<close>)
next
  case (3 ts s)
  show ?case
  proof (cases s)
    case (Cons x xs)
    with "3.prems" obtain y ys where q: "q = y # ys" "lower_char x = lower_char y" "lower xs = lower ys"
      by (auto simp: lower_Cons_eq)
    have "x = CHR ''/'' \<longleftrightarrow> y = CHR ''/''" using q(2) lower_slash by metis
    with "3.hyps" [OF Cons q(3)] Cons q(1) show ?thesis by auto
  qed (use 3 in \<open>simp add: lower_def\<close>)
next
  case (4 ts s)
  show ?case
  proof (cases s)
    case (Cons x xs)
    with "4.prems" obtain y ys where q: "q = y # ys" "lower_char x = lower_char y" "lower xs = lower ys"
      by (auto simp: lower_Cons_eq)
    have "x = CHR ''/'' \<longleftrightarrow> y = CHR ''/''" using q(2) lower_slash by metis
    with "4.hyps"(1) [OF "4.prems"] "4.hyps"(2) [OF Cons q(3)] Cons q(1) show ?thesis by auto
  qed (use 4 in \<open>simp add: lower_def\<close>)
next
  case (5 ts s)
  show ?case
  proof (cases s)
    case (Cons x xs)
    with "5.prems" obtain y ys where q: "q = y # ys" "lower_char x = lower_char y" "lower xs = lower ys"
      by (auto simp: lower_Cons_eq)
    have "x = CHR 0x0A \<longleftrightarrow> y = CHR 0x0A" using q(2) lower_newline by metis
    with "5.hyps"(1) [OF "5.prems"] "5.hyps"(2) [OF Cons q(3)] Cons q(1) show ?thesis by auto
  qed (use 5 in \<open>simp add: lower_def\<close>)
qed

text \<open>What the option \<open>case_sensitive=False\<close> promises of RE2.\<close>

definition re2_ignores_case :: "re2_engine \<Rightarrow> bool" where
  "re2_ignores_case re2 \<longleftrightarrow>
     (\<forall>pattern search p q. re2 pattern True = Some search \<longrightarrow> lower p = lower q \<longrightarrow> search p = search q)"

lemma is_visible_lower:
  assumes "re2_ignores_case re2" "lower p = lower q"
  shows "is_visible re2 True p rs = is_visible re2 True q rs"
proof -
  have "rule_matches re2 True p r = rule_matches re2 True q r" for r
    using assms toks_match_lower [OF assms(2)]
    by (auto simp: rule_matches_def glob_match_def re2_ignores_case_def split: pattern_kind.splits option.splits)
  then show ?thesis by (simp add: is_visible_def)
qed

section \<open>Canonical paths\<close>

text \<open>
  A reference for what a path names on the server: the segments left after dropping empty and
  \<open>.\<close> ones and letting \<open>..\<close> remove the one before. On Windows a backslash also separates,
  trailing dots and spaces of a name are dropped, and names differing in case are the same.
\<close>

fun resolve_segs :: "string list \<Rightarrow> string list \<Rightarrow> string list" where
  "resolve_segs acc [] = rev acc"
| "resolve_segs acc (s # ss) =
     (if s = '''' \<or> s = ''.'' then resolve_segs acc ss
      else if s = ''..'' then resolve_segs (drop 1 acc) ss
      else resolve_segs (s # acc) ss)"

definition posix_target :: "string \<Rightarrow> string list" where
  "posix_target p = resolve_segs [] (split_on CHR ''/'' p)"

definition win_trim :: "string \<Rightarrow> string" where
  "win_trim s = rev (dropWhile (\<lambda>c. c = CHR ''.'' \<or> c = CHR '' '') (rev s))"

definition windows_target :: "string \<Rightarrow> string list" where
  "windows_target p = map (\<lambda>s. lower (win_trim s)) (posix_target (replace_char CHR 0x5C CHR ''/'' p))"

lemma resolve_segs_id:
  "list_all (\<lambda>s. s \<noteq> '''' \<and> s \<noteq> ''.'' \<and> s \<noteq> ''..'') ss \<Longrightarrow> resolve_segs acc ss = rev acc @ ss"
  by (induction ss arbitrary: acc) auto

lemma safe_target:
  "is_safe_relative_path p \<Longrightarrow> posix_target p = (if p = '''' then [] else split_on CHR ''/'' p)"
  by (auto simp: is_safe_relative_path_def posix_target_def resolve_segs_id split: if_splits)

lemma safe_no_backslash: "is_safe_relative_path p \<Longrightarrow> replace_char CHR 0x5C CHR ''/'' p = p"
  by (auto simp: is_safe_relative_path_def replace_char_def split: if_splits intro: map_idI)

lemma safe_newline_free: "is_safe_relative_path p \<Longrightarrow> newline_free p"
  by (auto simp: is_safe_relative_path_def list_ex_iff split: if_splits)

lemma target_inj: "split_on c p = split_on c q \<Longrightarrow> p = q"
  by (metis join_split)

lemma win_trim_id: "\<not> suffix ''.'' s \<Longrightarrow> \<not> suffix '' '' s \<Longrightarrow> win_trim s = s"
  by (cases s rule: rev_cases) (auto simp: win_trim_def)

lemma safe_windows_target:
  assumes "is_safe_relative_path p" "is_safe_windows_relative_path p"
  shows "windows_target p = (if p = '''' then [] else map lower (split_on CHR ''/'' p))"
  using assms
  by (auto simp: windows_target_def safe_no_backslash safe_target is_safe_windows_relative_path_def
      list_all_iff win_trim_id)

lemma lower_join: "lower (join_on CHR ''/'' ss) = join_on CHR ''/'' (map lower ss)"
  by (induction "CHR ''/''" ss rule: join_on.induct) (auto simp: lower_def)

lemma windows_target_lower:
  assumes "is_safe_relative_path p" "is_safe_windows_relative_path p"
    and "is_safe_relative_path q" "is_safe_windows_relative_path q"
    and "windows_target p = windows_target q"
  shows "lower p = lower q"
proof -
  have "p = '''' \<longleftrightarrow> q = ''''"
    using assms by (auto simp: safe_windows_target split: if_splits)
  moreover have "lower p = lower q" if "p \<noteq> ''''" "q \<noteq> ''''"
  proof -
    from that assms have "map lower (split_on CHR ''/'' p) = map lower (split_on CHR ''/'' q)"
      by (simp add: safe_windows_target)
    then show ?thesis by (metis join_split lower_join)
  qed
  ultimately show ?thesis by blast
qed

section \<open>Hiding a folder\<close>

definition literal :: "string \<Rightarrow> bool" where
  "literal p \<longleftrightarrow> list_all (\<lambda>c. c \<noteq> CHR ''*'' \<and> c \<noteq> CHR ''?'') p"

lemma compile_literal: "literal p \<Longrightarrow> compile_glob p = map GLit p"
proof (induction p)
  case (Cons c p)
  then show ?case by (subst compile_glob.simps) (auto simp: literal_def take_Cons')
qed (simp add: compile_glob.simps)

lemma literal_match: "literal p \<Longrightarrow> glob_match ic p p"
proof -
  have "toks_match ic (map GLit p) p" for p by (induction p) (auto simp: ch_eq_def)
  then show "literal p \<Longrightarrow> glob_match ic p p" by (simp add: glob_match_def compile_literal)
qed

lemma literal_not_double: "literal p \<Longrightarrow> p \<noteq> ''**''"
  by (auto simp: literal_def)

lemma literal_not_spans: "literal p \<Longrightarrow> \<not> spans_segments p"
proof -
  have "\<not> contains ''**'' p" if "literal p" for p
    using that by (induction p) (auto simp: literal_def)
  then show "literal p \<Longrightarrow> \<not> spans_segments p" by (simp add: spans_segments_def)
qed

lemma literal_segments: "literal d \<Longrightarrow> p \<in> set (split_on CHR ''/'' d) \<Longrightarrow> literal p"
  using set_split_on [of p "CHR ''/''" d] by (auto simp: literal_def list_all_iff)

lemma exact_walk_literal: "list_all literal ss \<Longrightarrow> exact_walk ic ss ss"
  by (induction ss) (auto simp: segment_matches_def literal_match literal_not_double)

lemma folder_glob_covers:
  assumes "literal d"
  shows "glob_covers_everything_below ic (d @ ''/**'') (split_on CHR ''/'' d)"
proof -
  let ?ds = "split_on CHR ''/'' d"
  have parts: "split_on CHR ''/'' (d @ ''/**'') = ?ds @ [''**'']"
    by (simp add: split_on_append_gen)
  have "exact_walk ic ?ds (take (length ?ds) ?ds)"
    using assms literal_segments by (auto simp: list_all_iff intro!: exact_walk_literal)
  moreover have "\<not> list_ex spans_segments (?ds @ [''**''])"
    using assms literal_segments literal_not_spans by (auto simp: list_ex_iff) (auto simp: spans_segments_def)
  ultimately show ?thesis
    unfolding covers_iff parts Let_def by auto
qed

section \<open>Properties\<close>

text \<open>
  C13: A file is visible exactly when, in the rules sorted by their order, some include rule matches
  it and no rule sorted after that one does: the last match wins, and no match (or no rules at
  all) means invisible. A regex that does not compile counts as matching when it is an exclude and
  as not matching when it is an include, so it can only hide.
\<close>

theorem visible_iff_last_match_includes:
  "is_visible re2 ic path rs \<longleftrightarrow>
     (\<exists>xs r ys. sort_key r_order rs = xs @ r # ys \<and> rule_matches re2 ic path r \<and> r_type r = Include \<and>
        list_all (\<lambda>y. \<not> rule_matches re2 ic path y) ys)"
proof
  assume visible: "is_visible re2 ic path rs"
  then have "is_visible re2 ic path rs \<noteq> False" by simp
  then obtain xs r ys where "sort_key r_order rs = xs @ r # ys" "rule_matches re2 ic path r"
    "\<forall>y \<in> set ys. \<not> rule_matches re2 ic path y" "is_visible re2 ic path rs = (r_type r = Include)"
    by (rule vis.decide_witness)
  with visible show "\<exists>xs r ys. sort_key r_order rs = xs @ r # ys \<and> rule_matches re2 ic path r \<and>
        r_type r = Include \<and> list_all (\<lambda>y. \<not> rule_matches re2 ic path y) ys"
    unfolding list_all_iff by blast
next
  assume "\<exists>xs r ys. sort_key r_order rs = xs @ r # ys \<and> rule_matches re2 ic path r \<and> r_type r = Include \<and>
        list_all (\<lambda>y. \<not> rule_matches re2 ic path y) ys"
  then obtain xs r ys where *: "sort_key r_order rs = xs @ r # ys" "rule_matches re2 ic path r"
    "r_type r = Include" "\<forall>y \<in> set ys. \<not> rule_matches re2 ic path y"
    by (auto simp: list_all_iff)
  then have "find (rule_matches re2 ic path) (rev ys) = None" by (auto simp: find_None_iff)
  with * show "is_visible re2 ic path rs" by (simp add: vis.decide_last find_append)
qed

text \<open>
  C14: Listing and reading agree: when a file is visible under the rules, every directory on the way
  to it is shown by the listing, so a visible file can be reached by browsing and a hidden
  directory has no visible file anywhere below it.
\<close>

theorem visible_file_has_visible_ancestors:
  assumes "is_visible re2 ic path rs" "is_safe_relative_path path" "path = d @ CHR ''/'' # rest"
  shows "is_entry_visible re2 ic d True rs"
  using visible_below_dir_visible [of re2 ic d rest rs] safe_newline_free [of path] assms
  by (simp add: is_entry_visible_def)

text \<open>
  A shown directory is reachable: every ancestor of a directory the listing shows is shown too.
\<close>

theorem visible_directory_has_visible_ancestors:
  assumes "is_dir_visible ic (d @ CHR ''/'' # e) rs"
  shows "is_dir_visible ic d rs"
  using assms by (rule dir_visible_prefix)

text \<open>
  An admin's exclude \<open>folder/**\<close> (a literal folder name, placed last in the order) hides that
  folder whatever the rules before it say: neither the folder nor any file below it is visible.
\<close>

theorem exclude_folder_hides_everything_below:
  assumes "literal d" "d \<noteq> ''''" "r_type x = Exclude" "r_kind x = Glob" "r_pattern x = d @ ''/**''"
    and "\<forall>r \<in> set rs. r_order r \<le> r_order x" "is_safe_relative_path (d @ CHR ''/'' # f)"
  shows "\<not> is_dir_visible ic d (rs @ [x]) \<and> \<not> is_visible re2 ic (d @ CHR ''/'' # f) (rs @ [x])"
proof -
  let ?segs = "split_on CHR ''/'' d"
  have cov: "glob_covers_everything_below ic (r_pattern x) ?segs"
    using folder_glob_covers [OF assms(1)] assms(5) by simp
  have sorted: "sort_key r_order (rs @ [x]) = sort_key r_order rs @ [x]"
    using assms(6) by (simp add: sort_key_snoc_max)
  have "\<not> dir_scan ic ?segs (sort_key r_order rs @ [x])"
    using cov assms(3,4)
    by (auto simp: dir_scan_iff keeps_visible_def hides_all_def append_eq_append_conv2
        append_eq_Cons_conv Cons_eq_append_conv list_ex_iff)
  moreover have "rule_matches re2 ic (d @ CHR ''/'' # f) x"
    using glob_covers_sound [OF cov safe_newline_free [OF assms(7)]] assms(4)
    by (simp add: rule_matches_def)
  ultimately show ?thesis
    using assms(2,3,6) by (simp add: is_dir_visible_def sorted vis.decide_appended)
qed

text \<open>
  The check on a client's path leaves one spelling per file: two accepted paths that name the
  same file (empty and \<open>.\<close> segments dropped, \<open>..\<close> followed) are the same string, so a rule cannot be
  dodged by respelling the path.
\<close>

theorem safe_paths_are_canonical:
  assumes "is_safe_relative_path p" "is_safe_relative_path q" "posix_target p = posix_target q"
  shows "p = q"
  using assms target_inj [of "CHR ''/''" p q] split_on_not_Nil [of "CHR ''/''", symmetric]
  by (auto simp: safe_target split: if_splits)

text \<open>
  On a Windows source two accepted spellings of the same file (backslashes, trailing dots and
  spaces, letter case) get the same verdict from the rule chain. RE2's \<open>case_sensitive=False\<close> is
  the one thing relied on.
\<close>

theorem windows_spellings_same_verdict:
  assumes "re2_ignores_case re2" "rules_case_insensitive src"
    and "is_safe_relative_path p \<and> is_safe_windows_relative_path p"
    and "is_safe_relative_path q \<and> is_safe_windows_relative_path q"
    and "windows_target p = windows_target q"
  shows "is_visible re2 (rules_case_insensitive src) p rs = is_visible re2 (rules_case_insensitive src) q rs"
  using assms is_visible_lower [OF assms(1) windows_target_lower] by simp

section \<open>Witnesses\<close>

definition glob_rule :: "int \<Rightarrow> rule_type \<Rightarrow> string \<Rightarrow> rule" where
  "glob_rule n t p =
     \<lparr>r_id = n, r_source_id = 1, r_order = n, r_type = t, r_pattern = p, r_kind = Glob, r_notes = None\<rparr>"

definition smb_source :: source where
  "smb_source =
     \<lparr>s_id = 1, s_name = ''share'', s_customer_id = Some 1, s_folder_id = None, s_protocol = Smb,
      s_host = ''fs'', s_port = None, s_credential_ref = None, s_base_path = '''', s_roots = None,
      s_winrm_scheme = None, s_tls_ca_pem = None, s_enabled = True, s_schedule_cron = None,
      s_is_system = False, s_agent_token_hash = None, s_agent_last_seen_at = None, s_agent_os = None,
      s_search_indexing_enabled = False\<rparr>"

theorem visible_file_has_visible_ancestors_witness:
  "is_entry_visible (\<lambda>_ _. None) False ''var/log'' True
     [glob_rule 2 Exclude ''**/*.gz'', glob_rule 1 Include ''var/**'']"
proof (rule visible_file_has_visible_ancestors)
  show "is_visible (\<lambda>_ _. None) False ''var/log/a.log''
     [glob_rule 2 Exclude ''**/*.gz'', glob_rule 1 Include ''var/**'']" by code_simp
qed (code_simp, simp)

theorem visible_directory_has_visible_ancestors_witness:
  "is_dir_visible False ''var'' [glob_rule 1 Include ''var/log/**'']"
proof (rule visible_directory_has_visible_ancestors)
  show "is_dir_visible False (''var'' @ CHR ''/'' # ''log'') [glob_rule 1 Include ''var/log/**'']"
    by code_simp
qed

theorem exclude_folder_hides_everything_below_witness:
  "\<not> is_dir_visible True ''secret'' ([glob_rule 1 Include ''**''] @ [glob_rule 2 Exclude ''secret/**'']) \<and>
   \<not> is_visible (\<lambda>_ _. None) True (''secret'' @ CHR ''/'' # ''key'')
       ([glob_rule 1 Include ''**''] @ [glob_rule 2 Exclude ''secret/**''])"
  by (rule exclude_folder_hides_everything_below)
    (simp_all add: literal_def glob_rule_def is_safe_relative_path_def)

theorem safe_paths_are_canonical_witness: "''a/b'' = ''a/b''"
  by (rule safe_paths_are_canonical) code_simp+

theorem windows_spellings_same_verdict_witness:
  "is_visible (\<lambda>_ _. None) (rules_case_insensitive smb_source) ''Secret/A.txt'' [glob_rule 1 Include ''secret/*''] =
   is_visible (\<lambda>_ _. None) (rules_case_insensitive smb_source) ''secret/a.TXT'' [glob_rule 1 Include ''secret/*'']"
proof (rule windows_spellings_same_verdict)
  show "re2_ignores_case (\<lambda>_ _. None)" by (simp add: re2_ignores_case_def)
qed code_simp+

text \<open>
  Python's \<open>.\<close> stops at a newline, so \<open>**\<close> does not match a name that contains one: under an
  include \<open>*\<close> (whose \<open>[^/]*\<close> does match it) followed by an exclude \<open>**\<close>, a file whose name has a
  newline stays visible to the rule chain. The path check refuses such a name from a client.
\<close>

lemma double_star_misses_newline:
  "is_visible (\<lambda>_ _. None) False (''a'' @ CHR 0x0A # ''b'')
     [glob_rule 1 Include ''*'', glob_rule 2 Exclude ''**'']"
  by code_simp

end
