(* ===== verification/AuditLabels.thy ===== *)
theory AuditLabels
  imports Models
begin

text \<open>
  \<open>app/audit_labels.py\<close>: the names an audit entry carries. A lookup (\<open>_get\<close>) sees the rows of the
  database and those the same transaction has deleted but not flushed yet, so the database given
  to these functions is the one with the pending deletions still in it. A metadata value is a JSON
  value; ids in it count only when they are integers (\<open>as_int\<close>).
\<close>

section \<open>Lookups\<close>

definition get_row :: "(int \<Rightarrow> 'r option) \<Rightarrow> int option \<Rightarrow> 'r option" where
  "get_row fetch row_id = Option.bind row_id fetch"

definition max_folder_depth :: nat where
  "max_folder_depth = 64"

text \<open>The loop of \<open>_folder_path\<close>, on the ids seen and the names found so far.\<close>

function folder_path_loop :: "db \<Rightarrow> int option \<Rightarrow> int list \<Rightarrow> string list \<Rightarrow> string list" where
  "folder_path_loop d folder_id seen names =
     (case folder_id of
        None \<Rightarrow> rev names
      | Some i \<Rightarrow>
          if i \<notin> set seen \<and> length names < max_folder_depth then
            (case get_folder d i of
               None \<Rightarrow> rev names
             | Some f \<Rightarrow> folder_path_loop d (f_parent f) (i # seen) (names @ [f_name f]))
          else rev names)"
  by pat_completeness auto
termination
  by (relation "measure (\<lambda>(d, i, seen, names). max_folder_depth - length names)") auto

declare folder_path_loop.simps [simp del]

definition folder_path :: "db \<Rightarrow> int option \<Rightarrow> string list" where
  "folder_path d folder_id = folder_path_loop d folder_id [] []"

definition slash_join :: "string list \<Rightarrow> string option" where
  "slash_join parts = (let s = join_str '' / '' parts in if s = '''' then None else Some s)"

definition customer_part :: "db \<Rightarrow> int option \<Rightarrow> string list" where
  "customer_part d customer_id =
     (case get_row (get_customer d) customer_id of None \<Rightarrow> [] | Some c \<Rightarrow> [c_name c])"

definition source_context :: "db \<Rightarrow> source \<Rightarrow> string option" where
  "source_context d s =
     (if s_is_system s then Some ''system''
      else slash_join (customer_part d (s_customer_id s) @ folder_path d (s_folder_id s)))"

definition source_name :: "db \<Rightarrow> int option \<Rightarrow> string option" where
  "source_name d source_id = map_option s_name (get_row (get_source d) source_id)"

definition role_name :: "db \<Rightarrow> int option \<Rightarrow> string option" where
  "role_name d role_id = map_option ro_name (get_row (get_role d) role_id)"

text \<open>\<open>_scope_name\<close>: the scope type is a string here, as the metadata and a grant both hold it.\<close>

definition scope_name :: "db \<Rightarrow> string \<Rightarrow> int option \<Rightarrow> string option" where
  "scope_name d scope scope_id =
     (if scope = scope_value ScopeCustomer then map_option c_name (get_row (get_customer d) scope_id)
      else if scope = scope_value ScopeFolder then map_option f_name (get_row (get_folder d) scope_id)
      else if scope = scope_value ScopeSource then map_option s_name (get_row (get_source d) scope_id)
      else None)"

section \<open>The target\<close>

definition describe_source :: "db \<Rightarrow> int option \<Rightarrow> string option \<times> string option" where
  "describe_source d i =
     (case get_row (get_source d) i of None \<Rightarrow> (None, None)
      | Some s \<Rightarrow> (Some (s_name s), source_context d s))"

definition describe_folder :: "db \<Rightarrow> int option \<Rightarrow> string option \<times> string option" where
  "describe_folder d i =
     (case get_row (get_folder d) i of None \<Rightarrow> (None, None)
      | Some f \<Rightarrow>
          (Some (f_name f),
           slash_join (customer_part d (Some (f_customer_id f)) @ folder_path d (f_parent f))))"

definition describe_grant :: "db \<Rightarrow> int option \<Rightarrow> string option \<times> string option" where
  "describe_grant d i =
     (case get_row (\<lambda>i. tbl_get g_id i (role_grants d)) i of None \<Rightarrow> (None, None)
      | Some g \<Rightarrow>
          let scope = (case scope_name d (scope_value (g_scope_type g)) (Some (g_scope_id g)) of
                         None \<Rightarrow> CHR ''#'' # show_int (g_scope_id g)
                       | Some n \<Rightarrow> if n = '''' then CHR ''#'' # show_int (g_scope_id g) else n)
          in (Some (scope_value (g_scope_type g) @ '' '' @ scope), role_name d (Some (g_role_id g))))"

text \<open>\<open>if pattern.source_id\<close> is false for no id and for 0.\<close>

definition truthy_id :: "int option \<Rightarrow> bool" where
  "truthy_id i = (i \<noteq> None \<and> i \<noteq> Some 0)"

definition describe_pattern :: "db \<Rightarrow> int option \<Rightarrow> string option \<times> string option" where
  "describe_pattern d i =
     (case get_row (\<lambda>i. tbl_get sp_id i (severity_patterns d)) i of None \<Rightarrow> (None, None)
      | Some p \<Rightarrow>
          (Some (sp_pattern p),
           if truthy_id (sp_source_id p) then source_name d (sp_source_id p) else Some ''global''))"

definition describe_alert :: "db \<Rightarrow> int option \<Rightarrow> string option \<times> string option" where
  "describe_alert d i =
     (case get_row (\<lambda>i. tbl_get al_id i (alerts d)) i of None \<Rightarrow> (None, None)
      | Some a \<Rightarrow>
          (Some (al_name a),
           if truthy_id (al_source_id a) then source_name d (al_source_id a) else None))"

definition describe :: "db \<Rightarrow> string \<Rightarrow> int option \<Rightarrow> string option \<times> string option" where
  "describe d target_type target_id =
     (if target_type = ''source'' then describe_source d target_id
      else if target_type = ''customer'' then
        (map_option c_name (get_row (get_customer d) target_id), None)
      else if target_type = ''folder'' then describe_folder d target_id
      else if target_type = ''user'' then
        (map_option u_username (get_row (get_user d) target_id), None)
      else if target_type = ''role'' then (role_name d target_id, None)
      else if target_type = ''role_grant'' then describe_grant d target_id
      else if target_type = ''rule'' then
        (case get_row (\<lambda>i. tbl_get r_id i (rules d)) target_id of None \<Rightarrow> (None, None)
         | Some r \<Rightarrow> (Some (r_pattern r), source_name d (Some (r_source_id r))))
      else if target_type = ''severity_pattern'' then describe_pattern d target_id
      else if target_type = ''alert'' then describe_alert d target_id
      else if target_type = ''sso_provider'' then
        (map_option sc_name (get_row (\<lambda>i. tbl_get sc_id i (sso_configs d)) target_id), None)
      else if target_type = ''sso_group_mapping'' then
        (case get_row (\<lambda>i. tbl_get gm_id i (group_mappings d)) target_id of None \<Rightarrow> (None, None)
         | Some m \<Rightarrow> (Some (gm_group_name m), role_name d (Some (gm_role_id m))))
      else (None, None))"

definition named_target_types :: "string list" where
  "named_target_types =
     [''source'', ''customer'', ''folder'', ''user'', ''role'', ''role_grant'', ''rule'',
      ''severity_pattern'', ''alert'', ''sso_provider'', ''sso_group_mapping'']"

definition label :: "string \<Rightarrow> string option \<Rightarrow> (string \<times> json) list" where
  "label k v = (case v of None \<Rightarrow> [] | Some s \<Rightarrow> [(k, JStr s)])"

definition describe_target :: "db \<Rightarrow> string option \<Rightarrow> int option \<Rightarrow> (string \<times> json) list" where
  "describe_target d target_type target_id =
     (case target_type of None \<Rightarrow> []
      | Some t \<Rightarrow>
          if t \<notin> set named_target_types then []
          else label ''target_name'' (fst (describe d t target_id))
               @ label ''target_context'' (snd (describe d t target_id)))"

section \<open>All labels of an entry\<close>

text \<open>One related name: added when the id key is in the metadata and the name key is not.\<close>

definition related_label ::
  "(string \<times> json) list \<Rightarrow> string \<Rightarrow> string \<Rightarrow> (int option \<Rightarrow> string option) \<Rightarrow> (string \<times> json) list" where
  "related_label metadata id_key name_key name_of =
     (case (dict_get id_key metadata, dict_get name_key metadata) of
        (Some v, None) \<Rightarrow> label name_key (name_of (as_int v))
      | _ \<Rightarrow> [])"

definition scope_label :: "db \<Rightarrow> (string \<times> json) list \<Rightarrow> (string \<times> json) list" where
  "scope_label d metadata =
     (case (dict_get ''scope_type'' metadata, dict_get ''scope_id'' metadata, dict_get ''scope_name'' metadata) of
        (Some (JStr scope), Some v, None) \<Rightarrow> label ''scope_name'' (scope_name d scope (as_int v))
      | _ \<Rightarrow> [])"

definition audit_labels ::
  "db \<Rightarrow> string option \<Rightarrow> int option \<Rightarrow> (string \<times> json) list option \<Rightarrow> (string \<times> json) list" where
  "audit_labels d target_type target_id metadata =
     describe_target d target_type target_id @
     (case metadata of None \<Rightarrow> []
      | Some m \<Rightarrow>
          related_label m ''source_id'' ''source_name'' (source_name d)
          @ related_label m ''role_id'' ''role_name'' (role_name d)
          @ related_label m ''customer_id'' ''customer_name''
              (\<lambda>i. map_option c_name (get_row (get_customer d) i))
          @ scope_label d m)"

text \<open>\<open>if labels: metadata = {**labels, **(metadata or {})}\<close> of \<open>record_audit_event\<close>.\<close>

definition labelled ::
  "db \<Rightarrow> string option \<Rightarrow> int option \<Rightarrow> (string \<times> json) list option \<Rightarrow> (string \<times> json) list option" where
  "labelled d target_type target_id metadata =
     (let labels = audit_labels d target_type target_id metadata in
      if labels = [] then metadata
      else Some (dict_merge labels (case metadata of None \<Rightarrow> [] | Some m \<Rightarrow> m)))"

section \<open>Facts\<close>

lemma labelled_get:
  "labelled d t i (Some m) = Some m' \<Longrightarrow> dict_get k m = Some v \<Longrightarrow> dict_get k m' = Some v"
  by (auto simp: labelled_def Let_def dict_get_def dict_merge_get split: if_splits)

lemma labelled_None: "labelled d t i metadata = None \<Longrightarrow> metadata = None"
  by (auto simp: labelled_def Let_def split: if_splits)

lemma labelled_plain:
  "t \<notin> set named_target_types \<Longrightarrow>
   list_all (\<lambda>k. dict_get k m = None) [''source_id'', ''role_id'', ''customer_id'', ''scope_type''] \<Longrightarrow>
   labelled d (Some t) i (Some m) = Some m"
  by (simp add: labelled_def audit_labels_def describe_target_def related_label_def scope_label_def)

lemma labels_new_keys:
  assumes "(k, v) \<in> set (audit_labels d t i (Some m))"
    and "k \<notin> {''target_name'', ''target_context''}"
  shows "dict_get k m = None"
  using assms
  by (auto simp: audit_labels_def describe_target_def label_def related_label_def scope_label_def
      split: option.splits json.splits if_splits)

lemma folder_path_loop_length:
  "length names \<le> max_folder_depth \<Longrightarrow> length (folder_path_loop d i seen names) \<le> max_folder_depth"
proof (induction d i seen names rule: folder_path_loop.induct)
  case (1 d folder_id seen names)
  show ?case
    using 1 by (subst folder_path_loop.simps) (auto split: option.splits)
qed

end
