(* ===== verification/AuditChain.thy ===== *)
theory AuditChain
  imports AuditLabels
begin

text \<open>
  \<open>app/audit.py\<close> and \<open>app/audit_hash_chain.py\<close>: writing an audit entry and chaining it to the one
  before. HMAC-SHA256 is the parameter \<open>e_hmac\<close> of the environment (key and text to hex digest);
  nothing below assumes more of it than what a lemma names. One transaction runs at a time: the
  write lock the code takes before it reads the tip gives it that.
\<close>

section \<open>The environment of a request\<close>

record env =
  e_hmac :: "string \<Rightarrow> string \<Rightarrow> string"
  e_chain_key :: string
  e_now :: int

section \<open>Timestamps as text\<close>

text \<open>
  \<open>datetime.isoformat()\<close> of a naive datetime given in microseconds since 1970: the proleptic
  Gregorian date of the day number, then the time, with a fraction only when it is not zero.
\<close>

definition civil :: "int \<Rightarrow> int \<times> int \<times> int" where
  "civil day =
     (let z = day + 719468; era = z div 146097; doe = z mod 146097;
          yoe = (doe - doe div 1460 + doe div 36524 - doe div 146096) div 365;
          doy = doe - (365 * yoe + yoe div 4 - yoe div 100);
          mp = (5 * doy + 2) div 153;
          month = (if mp < 10 then mp + 3 else mp - 9)
      in (yoe + era * 400 + (if month \<le> 2 then 1 else 0), month, doy - (153 * mp + 2) div 5 + 1))"

definition pad :: "nat \<Rightarrow> int \<Rightarrow> string" where
  "pad n i = (let s = show_int i in replicate (n - length s) CHR ''0'' @ s)"

definition isoformat :: "int \<Rightarrow> string" where
  "isoformat t =
     (let us = t mod 1000000; s = t div 1000000; tod = s mod 86400; (y, m, d) = civil (s div 86400)
      in pad 4 y @ ''-'' @ pad 2 m @ ''-'' @ pad 2 d @ ''T'' @
         pad 2 (tod div 3600) @ '':'' @ pad 2 (tod div 60 mod 60) @ '':'' @ pad 2 (tod mod 60) @
         (if us = 0 then '''' else ''.'' @ pad 6 us))"

section \<open>Hashing a row\<close>

definition row_object :: "string option \<Rightarrow> audit_log \<Rightarrow> json" where
  "row_object prev_hash r =
     JObj [(''prev_hash'', json_opt JStr prev_hash),
           (''user_id'', json_opt JInt (a_user_id r)),
           (''action'', JStr (a_action r)),
           (''target_type'', json_opt JStr (a_target_type r)),
           (''target_id'', json_opt JInt (a_target_id r)),
           (''timestamp'', JStr (isoformat (a_timestamp r))),
           (''metadata'', json_opt JObj (a_metadata r))]"

definition compute_row_hash :: "env \<Rightarrow> string option \<Rightarrow> audit_log \<Rightarrow> string" where
  "compute_row_hash E prev_hash r = e_hmac E (e_chain_key E) (dumps (row_object prev_hash r))"

section \<open>The tip, and chaining a new entry\<close>

text \<open>\<open>ORDER BY id\<close>.\<close>

definition by_id :: "audit_log list \<Rightarrow> audit_log list" where
  "by_id rows = sort_key a_id rows"

definition anchor_hash :: "db \<Rightarrow> string option" where
  "anchor_hash d = Option.bind (chain_state d) cs_anchor_hash"

definition current_chain_tip :: "db \<Rightarrow> string option" where
  "current_chain_tip d =
     (let last_hash = (if audit_rows d = [] then None else a_row_hash (last (by_id (audit_rows d)))) in
      case last_hash of Some h \<Rightarrow> Some h | None \<Rightarrow> anchor_hash d)"

definition chain_new_entry :: "env \<Rightarrow> db \<Rightarrow> audit_log \<Rightarrow> audit_log" where
  "chain_new_entry E d entry =
     (let prev_hash = current_chain_tip d in
      entry\<lparr>a_prev_hash := prev_hash, a_row_hash := Some (compute_row_hash E prev_hash entry)\<rparr>)"

text \<open>
  \<open>record_audit_event\<close>: \<open>seen\<close> is the database the name lookups read, with rows this transaction
  has deleted still in it. The table gives the new row the id after the highest one.
\<close>

definition new_audit_entry ::
  "env \<Rightarrow> db \<Rightarrow> db \<Rightarrow> int option \<Rightarrow> string \<Rightarrow> string option \<Rightarrow> int option
     \<Rightarrow> (string \<times> json) list option \<Rightarrow> audit_log" where
  "new_audit_entry E seen d user_id action target_type target_id metadata =
     \<lparr>a_id = tbl_max a_id (audit_rows d) + 1, a_user_id = user_id, a_action = action,
      a_target_type = target_type, a_target_id = target_id, a_timestamp = e_now E,
      a_metadata = labelled seen target_type target_id metadata,
      a_prev_hash = None, a_row_hash = None\<rparr>"

definition record_audit_event ::
  "env \<Rightarrow> db \<Rightarrow> db \<Rightarrow> int option \<Rightarrow> string \<Rightarrow> string option \<Rightarrow> int option
     \<Rightarrow> (string \<times> json) list option \<Rightarrow> db" where
  "record_audit_event E seen d user_id action target_type target_id metadata =
     d\<lparr>audit_rows := audit_rows d @
         [chain_new_entry E d (new_audit_entry E seen d user_id action target_type target_id metadata)]\<rparr>"

section \<open>Backfill\<close>

text \<open>
  The loop over the rows without a hash, in id order; \<open>hashed\<close> is the list of updated rows, which
  are then written back to the table.
\<close>

fun backfill_loop :: "env \<Rightarrow> string option \<Rightarrow> audit_log list \<Rightarrow> audit_log list" where
  "backfill_loop E prev_hash [] = []"
| "backfill_loop E prev_hash (r # rs) =
     (let h = compute_row_hash E prev_hash r
      in r\<lparr>a_prev_hash := prev_hash, a_row_hash := Some h\<rparr> # backfill_loop E (Some h) rs)"

definition backfill_chain_if_needed :: "env \<Rightarrow> db \<Rightarrow> nat \<times> db" where
  "backfill_chain_if_needed E d =
     (let missing = filter (\<lambda>r. a_row_hash r = None) (by_id (audit_rows d)) in
      if missing = [] then (0, d)
      else (length missing,
            d\<lparr>audit_rows := fold (tbl_put a_id) (backfill_loop E (current_chain_tip d) missing) (audit_rows d)\<rparr>))"

section \<open>Facts\<close>

definition row_hash_ok :: "env \<Rightarrow> audit_log \<Rightarrow> bool" where
  "row_hash_ok E r \<longleftrightarrow> a_row_hash r = Some (compute_row_hash E (a_prev_hash r) r)"

text \<open>A linear chain: every row hashes itself and names the hash of the row before it.\<close>

fun linked_from :: "env \<Rightarrow> string option \<Rightarrow> audit_log list \<Rightarrow> bool" where
  "linked_from E prev [] = True"
| "linked_from E prev (r # rs) =
     (a_prev_hash r = prev \<and> row_hash_ok E r \<and> linked_from E (a_row_hash r) rs)"

fun tip_from :: "string option \<Rightarrow> audit_log list \<Rightarrow> string option" where
  "tip_from prev [] = prev"
| "tip_from prev (r # rs) = tip_from (a_row_hash r) rs"

definition sorted_ids :: "audit_log list \<Rightarrow> bool" where
  "sorted_ids rows \<longleftrightarrow> sorted (map a_id rows) \<and> distinct (map a_id rows)"

lemma tip_from_last: "tip_from prev rows = (if rows = [] then prev else a_row_hash (last rows))"
  by (induction rows arbitrary: prev) auto

lemma tip_from_append: "tip_from prev (xs @ ys) = tip_from (tip_from prev xs) ys"
  by (induction xs arbitrary: prev) auto

lemma linked_append:
  "linked_from E prev (xs @ ys) \<longleftrightarrow> linked_from E prev xs \<and> linked_from E (tip_from prev xs) ys"
  by (induction xs arbitrary: prev) auto

lemma linked_hashed: "linked_from E prev rows \<Longrightarrow> r \<in> set rows \<Longrightarrow> row_hash_ok E r"
  by (induction rows arbitrary: prev) auto

lemma by_id_sorted: "sorted_ids rows \<Longrightarrow> by_id rows = rows"
  by (simp add: by_id_def sorted_ids_def sorted_sort_id sort_key_id_if_sorted)

lemma row_hash_ok_simp: "row_hash_ok E r \<Longrightarrow> a_row_hash r \<noteq> None"
  by (auto simp: row_hash_ok_def)

lemma compute_row_hash_ignores [simp]:
  "compute_row_hash E prev (r\<lparr>a_prev_hash := p, a_row_hash := h\<rparr>) = compute_row_hash E prev r"
  "compute_row_hash E prev (r\<lparr>a_prev_hash := p\<rparr>) = compute_row_hash E prev r"
  "compute_row_hash E prev (r\<lparr>a_row_hash := h\<rparr>) = compute_row_hash E prev r"
  by (simp_all add: compute_row_hash_def row_object_def)

section \<open>Writing keeps the chain\<close>

lemma tip_linear:
  assumes "sorted_ids (audit_rows d)" "linked_from E (anchor_hash d) (audit_rows d)"
  shows "current_chain_tip d = tip_from (anchor_hash d) (audit_rows d)"
proof (cases "audit_rows d = []")
  case False
  then have "row_hash_ok E (last (audit_rows d))" using assms(2) by (auto intro: linked_hashed)
  with False assms(1) show ?thesis
    by (auto simp: current_chain_tip_def by_id_sorted tip_from_last dest: row_hash_ok_simp)
qed (simp add: current_chain_tip_def)

lemma record_rows:
  "audit_rows (record_audit_event E seen d u a tt ti m) =
     audit_rows d @ [chain_new_entry E d (new_audit_entry E seen d u a tt ti m)]"
  by (simp add: record_audit_event_def)

lemma new_entry_simps [simp]:
  "a_id (new_audit_entry E seen d u a tt ti m) = tbl_max a_id (audit_rows d) + 1"
  "a_action (new_audit_entry E seen d u a tt ti m) = a"
  "a_timestamp (new_audit_entry E seen d u a tt ti m) = e_now E"
  "a_metadata (new_audit_entry E seen d u a tt ti m) = labelled seen tt ti m"
  by (simp_all add: new_audit_entry_def)

lemma chain_new_entry_simps [simp]:
  "a_id (chain_new_entry E d r) = a_id r"
  "a_action (chain_new_entry E d r) = a_action r"
  "a_timestamp (chain_new_entry E d r) = a_timestamp r"
  "a_metadata (chain_new_entry E d r) = a_metadata r"
  "a_prev_hash (chain_new_entry E d r) = current_chain_tip d"
  "row_hash_ok E (chain_new_entry E d r)"
  by (simp_all add: chain_new_entry_def Let_def row_hash_ok_def)

lemma record_chain_state [simp]:
  "chain_state (record_audit_event E seen d u a tt ti m) = chain_state d"
  by (simp add: record_audit_event_def)

lemma record_anchor [simp]: "anchor_hash (record_audit_event E seen d u a tt ti m) = anchor_hash d"
  by (simp add: anchor_hash_def)

lemma sorted_ids_snoc:
  "sorted_ids rows \<Longrightarrow> a_id r = tbl_max a_id rows + 1 \<Longrightarrow> sorted_ids (rows @ [r])"
  using tbl_max_ge [of _ rows a_id]
  by (fastforce simp: sorted_ids_def sorted_append)

lemma record_sorted:
  "sorted_ids (audit_rows d) \<Longrightarrow> sorted_ids (audit_rows (record_audit_event E seen d u a tt ti m))"
  by (simp add: record_rows sorted_ids_snoc)

lemma record_linked:
  assumes "sorted_ids (audit_rows d)" "linked_from E (anchor_hash d) (audit_rows d)"
  shows "linked_from E (anchor_hash d) (audit_rows (record_audit_event E seen d u a tt ti m))"
  using assms tip_linear [OF assms] by (simp add: record_rows linked_append)

section \<open>Backfilling a legacy log\<close>

lemma backfill_linked: "linked_from E prev (backfill_loop E prev rs)"
  by (induction rs arbitrary: prev) (auto simp: Let_def row_hash_ok_def)

lemma backfill_ids [simp]: "map a_id (backfill_loop E prev rs) = map a_id rs"
  by (induction rs arbitrary: prev) (auto simp: Let_def)

lemma tbl_put_append:
  "tbl_put key r (xs @ ys) = tbl_put key r xs @ tbl_put key r ys"
  by (simp add: tbl_put_def)

lemma tbl_put_other: "key r \<notin> key ` set xs \<Longrightarrow> tbl_put key r xs = xs"
  by (induction xs) (auto simp: tbl_put_def)

lemma fold_put_all:
  "map key xs = map key rows \<Longrightarrow> distinct (map key (pre @ rows)) \<Longrightarrow>
   fold (tbl_put key) xs (pre @ rows) = pre @ xs"
proof (induction xs arbitrary: pre rows)
  case (Cons x xs)
  then obtain r rs where rows: "rows = r # rs" "key x = key r" "map key xs = map key rs" by auto
  with Cons.prems(2) have keys: "key x \<notin> key ` set pre" "key x \<notin> key ` set rs" by auto
  have "tbl_put key x (pre @ rows) = (pre @ [x]) @ rs"
    using rows(2) tbl_put_other [OF keys(1)] tbl_put_other [OF keys(2)]
    by (simp add: rows(1) tbl_put_append) (simp add: tbl_put_def)
  moreover have "fold (tbl_put key) xs ((pre @ [x]) @ rs) = (pre @ [x]) @ xs"
    by (rule Cons.IH [OF rows(3)]) (use Cons.prems(2) rows in auto)
  ultimately show ?case by simp
qed simp

lemma backfill_all:
  assumes "sorted_ids (audit_rows d)" "list_all (\<lambda>r. a_row_hash r = None) (audit_rows d)"
  shows "snd (backfill_chain_if_needed E d) =
     d\<lparr>audit_rows := backfill_loop E (current_chain_tip d) (audit_rows d)\<rparr>"
proof -
  have "filter (\<lambda>r. a_row_hash r = None) (by_id (audit_rows d)) = audit_rows d"
    using assms by (simp add: by_id_sorted list_all_iff filter_id_conv)
  moreover have "fold (tbl_put a_id) (backfill_loop E (current_chain_tip d) (audit_rows d)) ([] @ audit_rows d) =
      [] @ backfill_loop E (current_chain_tip d) (audit_rows d)"
    using assms(1) by (intro fold_put_all) (simp_all add: sorted_ids_def)
  ultimately show ?thesis
    by (auto simp: backfill_chain_if_needed_def Let_def)
qed

lemma backfill_hashed:
  "list_all (\<lambda>r. a_row_hash r \<noteq> None) (audit_rows d) \<Longrightarrow> backfill_chain_if_needed E d = (0, d)"
  by (auto simp: backfill_chain_if_needed_def by_id_def list_all_iff filter_empty_conv)

section \<open>What a hash commits to\<close>

text \<open>The content of a row that its hash covers, up to the order of the metadata's keys.\<close>

definition content :: "audit_log \<Rightarrow> int option \<times> string \<times> string option \<times> int option \<times> string \<times> json" where
  "content r =
     (a_user_id r, a_action r, a_target_type r, a_target_id r, isoformat (a_timestamp r),
      canon (json_opt JObj (a_metadata r)))"

text \<open>Two rows whose hashed texts differ and have the same digest: a collision of the HMAC.\<close>

definition row_text :: "audit_log \<Rightarrow> string" where
  "row_text r = dumps (row_object (a_prev_hash r) r)"

definition collide :: "env \<Rightarrow> audit_log \<Rightarrow> audit_log \<Rightarrow> bool" where
  "collide E r s \<longleftrightarrow> row_text r \<noteq> row_text s \<and>
     e_hmac E (e_chain_key E) (row_text r) = e_hmac E (e_chain_key E) (row_text s)"

lemma map_of_insort:
  "fst kv \<notin> fst ` set kvs \<Longrightarrow> map_of (insort_key fst kv kvs) k = (if k = fst kv then Some (snd kv) else map_of kvs k)"
  for kv :: "string \<times> 'v"
  by (induction kvs) (auto simp: image_iff)

lemma map_of_sort: "distinct (map fst kvs) \<Longrightarrow> map_of (sort_key fst kvs) k = map_of kvs k"
  for kvs :: "(string \<times> 'v) list"
  by (induction kvs) (auto simp: map_of_insort)

lemma canon_obj_get:
  assumes "distinct (map fst kvs)" "distinct (map fst lvs)" "canon (JObj kvs) = canon (JObj lvs)"
  shows "map_option canon (map_of kvs k) = map_option canon (map_of lvs k)"
proof -
  let ?c = "map (\<lambda>kv. (fst kv, canon (snd kv)))"
  have *: "map_of (?c kvs) k = map_option canon (map_of kvs k)" for kvs
    by (induction kvs) auto
  have "map_of (sort_key fst (?c kvs)) k = map_of (sort_key fst (?c lvs)) k"
    using assms(3) by simp
  then have "map_of (?c kvs) k = map_of (?c lvs) k"
    using assms(1,2) by (simp add: map_of_sort comp_def)
  then show ?thesis by (simp add: *)
qed

lemma json_opt_str: "canon (json_opt JStr a) = canon (json_opt JStr b) \<longleftrightarrow> a = b"
  by (cases a; cases b) (auto simp: json_opt_def)

lemma json_opt_int: "canon (json_opt JInt a) = canon (json_opt JInt b) \<longleftrightarrow> a = b"
  by (cases a; cases b) (auto simp: json_opt_def)

lemma row_object_content:
  assumes "dumps (row_object p r) = dumps (row_object q s)"
  shows "p = q \<and> content r = content s"
proof -
  let ?r = "\<lambda>p r. [(''prev_hash'', json_opt JStr p), (''user_id'', json_opt JInt (a_user_id r)),
           (''action'', JStr (a_action r)), (''target_type'', json_opt JStr (a_target_type r)),
           (''target_id'', json_opt JInt (a_target_id r)), (''timestamp'', JStr (isoformat (a_timestamp r))),
           (''metadata'', json_opt JObj (a_metadata r))]"
  have "canon (JObj (?r p r)) = canon (JObj (?r q s))"
    using assms by (simp only: dumps_canon_iff row_object_def)
  then have "map_option canon (map_of (?r p r) k) = map_option canon (map_of (?r q s) k)" for k
    by (intro canon_obj_get) simp_all
  from this [of "''prev_hash''"] this [of "''user_id''"] this [of "''action''"] this [of "''target_type''"]
    this [of "''target_id''"] this [of "''timestamp''"] this [of "''metadata''"]
  show ?thesis by (simp add: content_def json_opt_str json_opt_int)
qed

lemma same_hash_same_content:
  assumes "row_hash_ok E r" "row_hash_ok E s" "a_row_hash r = a_row_hash s" "\<not> collide E r s"
  shows "a_prev_hash r = a_prev_hash s \<and> content r = content s"
proof -
  from assms have "dumps (row_object (a_prev_hash r) r) = dumps (row_object (a_prev_hash s) s)"
    by (auto simp: row_hash_ok_def compute_row_hash_def collide_def row_text_def)
  then show ?thesis by (rule row_object_content)
qed

text \<open>Two linear chains from one anchor to one tip hold the same contents, unless two of their rows
  collide or one of them runs through the anchor's hash again.\<close>

lemma chains_agree:
  assumes "linked_from E p rs" "linked_from E p ss" "tip_from p rs = tip_from p ss"
    and "\<And>r s. r \<in> set rs \<Longrightarrow> s \<in> set ss \<Longrightarrow> \<not> collide E r s"
    and "p \<notin> a_row_hash ` (set rs \<union> set ss)"
  shows "map content rs = map content ss"
  using assms
proof (induction rs arbitrary: ss rule: rev_induct)
  case Nil
  then show ?case by (cases ss rule: rev_cases) (auto simp: tip_from_append)
next
  case (snoc r rs)
  from snoc.prems(3,5) obtain s ss' where ss: "ss = ss' @ [s]"
    by (cases ss rule: rev_cases) (auto simp: tip_from_append)
  from snoc.prems have "row_hash_ok E r" "row_hash_ok E s" "a_row_hash r = a_row_hash s"
    by (auto simp: ss linked_append tip_from_append)
  from same_hash_same_content [OF this] snoc.prems(4) ss
  have eq: "a_prev_hash r = a_prev_hash s" "content r = content s" by auto
  moreover have "map content rs = map content ss'"
    using snoc.prems eq(1) by (intro snoc.IH) (auto simp: ss linked_append)
  ultimately show ?case by (simp add: ss)
qed

end
