(* ===== verification/AuditIntegrity.thy ===== *)
theory AuditIntegrity
  imports AuditChain "HOL-Library.AList"
begin

text \<open>
  \<open>app/audit_integrity.py\<close>: the walk that verifies the hash chain, the breaks a fork of two
  concurrent writers left (race breaks) and their recording. \<open>hmac.compare_digest\<close> raises on a
  string with a character outside ASCII, and a loop over a number raises too: a walk is a value of
  \<open>walk_error + 'a\<close>.
\<close>

section \<open>Comparing hashes\<close>

datatype walk_error = TypeError

definition ascii :: "string \<Rightarrow> bool" where
  "ascii s = list_all (\<lambda>c. (of_char c :: nat) < 128) s"

definition hashes_match :: "string option \<Rightarrow> string option \<Rightarrow> walk_error + bool" where
  "hashes_match stored expected =
     (case (stored, expected) of
        (Some s, Some e) \<Rightarrow> if ascii s \<and> ascii e then Inr (s = e) else Inl TypeError
      | _ \<Rightarrow> Inr (stored = expected))"

section \<open>Recorded breaks\<close>

definition known_breaks_action :: string where
  "known_breaks_action = ''audit.chain.known_breaks_recorded''"

text \<open>Break rows (id to hash and parent) and leaves (id to hash), as dicts in insertion order.\<close>

type_synonym recorded = "(int \<times> string \<times> int option) list \<times> (int \<times> string) list"

text \<open>\<open>metadata.get(key) or []\<close>, then what a \<open>for\<close> over it yields that can be a dict.\<close>

definition items_of :: "string \<Rightarrow> (string \<times> json) list \<Rightarrow> walk_error + json list" where
  "items_of key metadata =
     (case dict_get key metadata of
        Some (JList items) \<Rightarrow> Inr items
      | Some (JInt i) \<Rightarrow> if i = 0 then Inr [] else Inl TypeError
      | Some (JBool b) \<Rightarrow> if b then Inl TypeError else Inr []
      | _ \<Rightarrow> Inr [])"

definition item_id_hash :: "json \<Rightarrow> (int \<times> string) option" where
  "item_id_hash item =
     (case item of
        JObj o' \<Rightarrow>
          (case (Option.bind (dict_get ''id'' o') as_int, dict_get ''row_hash'' o') of
             (Some i, Some (JStr h)) \<Rightarrow> Some (i, h)
           | _ \<Rightarrow> None)
      | _ \<Rightarrow> None)"

definition item_parent :: "json \<Rightarrow> int option" where
  "item_parent item =
     (case item of JObj o' \<Rightarrow> Option.bind (dict_get ''parent_id'' o') as_int | _ \<Rightarrow> None)"

definition add_break :: "json \<Rightarrow> (int \<times> string \<times> int option) list \<Rightarrow> (int \<times> string \<times> int option) list" where
  "add_break item breaks =
     (case item_id_hash item of None \<Rightarrow> breaks
      | Some (i, h) \<Rightarrow> AList.update i (h, item_parent item) breaks)"

definition add_leaf :: "json \<Rightarrow> (int \<times> string) list \<Rightarrow> (int \<times> string) list" where
  "add_leaf item leaves =
     (case item_id_hash item of None \<Rightarrow> leaves | Some (i, h) \<Rightarrow> AList.update i h leaves)"

definition add_entry :: "audit_log \<Rightarrow> recorded \<Rightarrow> walk_error + recorded" where
  "add_entry r rec =
     (case a_metadata r of
        None \<Rightarrow> Inr rec
      | Some m \<Rightarrow>
          bindE (items_of ''breaks'' m) (\<lambda>bs.
          bindE (items_of ''leaves'' m) (\<lambda>ls.
          Inr (fold add_break bs (fst rec), fold add_leaf ls (snd rec)))))"

fun add_entries :: "audit_log list \<Rightarrow> recorded \<Rightarrow> walk_error + recorded" where
  "add_entries [] rec = Inr rec"
| "add_entries (r # rs) rec = bindE (add_entry r rec) (add_entries rs)"

definition recorded_known_breaks :: "audit_log list \<Rightarrow> walk_error + recorded" where
  "recorded_known_breaks rows =
     add_entries (filter (\<lambda>r. a_action r = known_breaks_action) rows) ([], [])"

section \<open>The walk\<close>

record race_break =
  rb_row_id :: int
  rb_row_hash :: string
  rb_parent_id :: "int option"

record walk_state =
  w_expected :: "string option"
  w_earlier :: "string \<Rightarrow> int option option"
  w_present :: "int \<Rightarrow> string option"
  w_checked :: "int list"
  w_tampered :: "int list"
  w_race :: "race_break list"
  w_known :: nat

datatype verdict = Sound | Known | Race | Tampered

definition at_most :: "int option \<Rightarrow> int option \<Rightarrow> bool" where
  "at_most i bound = (case (i, bound) of (Some a, Some b) \<Rightarrow> a \<le> b | _ \<Rightarrow> False)"

text \<open>The \<open>if\<close> chain of the walk for one row.\<close>

definition classify ::
  "int option \<Rightarrow> int option \<Rightarrow> (int \<times> string \<times> int option) list \<Rightarrow> audit_log \<Rightarrow> bool \<Rightarrow> bool \<Rightarrow> bool
     \<Rightarrow> walk_error + verdict" where
  "classify cutoff anchor_row_id breaks row valid linked parent_known =
     (if valid \<and> linked then Inr Sound
      else
        bindE
          (case map_of breaks (a_id row) of
             None \<Rightarrow> Inr False
           | Some (h, parent) \<Rightarrow>
               if valid then
                 bindE (hashes_match (a_row_hash row) (Some h))
                   (\<lambda>same. Inr (same \<and> (parent_known \<or> at_most parent anchor_row_id)))
               else Inr False)
          (\<lambda>accepted. Inr
             (if accepted then Known
              else if valid \<and> parent_known \<and> at_most (Some (a_id row)) cutoff then Race
              else Tampered)))"

definition is_parent_known :: "walk_state \<Rightarrow> audit_log \<Rightarrow> bool" where
  "is_parent_known st row =
     (case a_prev_hash row of None \<Rightarrow> False | Some h \<Rightarrow> w_earlier st h \<noteq> None)"

definition walk_row ::
  "env \<Rightarrow> int option \<Rightarrow> int option \<Rightarrow> (int \<times> string \<times> int option) list \<Rightarrow> audit_log \<Rightarrow> walk_state
     \<Rightarrow> walk_error + walk_state" where
  "walk_row E cutoff anchor_row_id breaks row st =
     bindE (hashes_match (a_row_hash row) (Some (compute_row_hash E (a_prev_hash row) row))) (\<lambda>valid.
     bindE (hashes_match (a_prev_hash row) (w_expected st)) (\<lambda>linked.
     bindE (classify cutoff anchor_row_id breaks row valid linked (is_parent_known st row)) (\<lambda>v.
     Inr \<lparr>w_expected = a_row_hash row,
          w_earlier =
            (case a_row_hash row of
               None \<Rightarrow> w_earlier st
             | Some h \<Rightarrow> if w_earlier st h = None then (w_earlier st)(h := Some (Some (a_id row)))
                       else w_earlier st),
          w_present = (w_present st)(a_id row := a_row_hash row),
          w_checked = w_checked st @ [a_id row],
          w_tampered = (if v = Tampered then w_tampered st @ [a_id row] else w_tampered st),
          w_race =
            (if v = Race then
               w_race st @ [\<lparr>rb_row_id = a_id row, rb_row_hash = the (a_row_hash row),
                            rb_parent_id = the (w_earlier st (the (a_prev_hash row)))\<rparr>]
             else w_race st),
          w_known = (if v = Known then w_known st + 1 else w_known st)\<rparr>)))"

fun walk_rows ::
  "env \<Rightarrow> int option \<Rightarrow> int option \<Rightarrow> (int \<times> string \<times> int option) list \<Rightarrow> audit_log list \<Rightarrow> walk_state
     \<Rightarrow> walk_error + walk_state" where
  "walk_rows E cutoff anchor_row_id breaks [] st = Inr st"
| "walk_rows E cutoff anchor_row_id breaks (r # rs) st =
     bindE (walk_row E cutoff anchor_row_id breaks r st) (walk_rows E cutoff anchor_row_id breaks rs)"

text \<open>The second loop: every recorded row must still be there with its hash, unless purged.\<close>

fun missing_loop ::
  "(int \<Rightarrow> string option) \<Rightarrow> int \<Rightarrow> (int \<times> string) list \<Rightarrow> int list \<Rightarrow> walk_error + int list" where
  "missing_loop present purged_up_to [] tampered = Inr tampered"
| "missing_loop present purged_up_to ((row_id, row_hash) # rest) tampered =
     bindE (if row_id > purged_up_to then hashes_match (present row_id) (Some row_hash) else Inr True) (\<lambda>same.
     missing_loop present purged_up_to rest
       (if same \<or> row_id \<in> set tampered then tampered else tampered @ [row_id]))"

definition start_state :: "string option \<Rightarrow> int option \<Rightarrow> walk_state" where
  "start_state anchor anchor_row_id =
     \<lparr>w_expected = anchor,
      w_earlier = (case anchor of None \<Rightarrow> (\<lambda>_. None) | Some h \<Rightarrow> (\<lambda>_. None)(h := Some anchor_row_id)),
      w_present = (\<lambda>_. None), w_checked = [], w_tampered = [], w_race = [], w_known = 0\<rparr>"

definition expected_present :: "recorded \<Rightarrow> (int \<times> string) list" where
  "expected_present rec =
     fold (\<lambda>(i, h) al. AList.update i h al) (snd rec) (map (\<lambda>(i, h, p). (i, h)) (fst rec))"

record walk =
  rows_checked :: "int list"
  tampered_ids :: "int list"
  race_breaks :: "race_break list"
  known_break_count :: nat

definition walk_chain :: "env \<Rightarrow> db \<Rightarrow> walk_error + walk" where
  "walk_chain E d =
     (let state = chain_state d;
          anchor = Option.bind state cs_anchor_hash;
          anchor_row_id = Option.bind state cs_anchor_row_id;
          cutoff = Option.bind state cs_known_break_cutoff_row_id
      in bindE (recorded_known_breaks (audit_rows d)) (\<lambda>rec.
         bindE (walk_rows E cutoff anchor_row_id (fst rec) (by_id (audit_rows d))
                  (start_state anchor anchor_row_id)) (\<lambda>st.
         bindE (missing_loop (w_present st) (case anchor_row_id of None \<Rightarrow> 0 | Some i \<Rightarrow> i)
                  (expected_present rec) (w_tampered st)) (\<lambda>tampered.
         Inr \<lparr>rows_checked = w_checked st, tampered_ids = sort tampered,
              race_breaks = w_race st, known_break_count = w_known st\<rparr>))))"

section \<open>Verification and recording\<close>

record verification =
  v_ok :: bool
  v_checked_count :: nat
  v_broken_row_id :: "int option"
  v_race_break_ids :: "int list"
  v_known_break_count :: nat

definition get_or_create_state :: "db \<Rightarrow> audit_chain_state" where
  "get_or_create_state d = (case chain_state d of None \<Rightarrow> new_chain_state | Some s \<Rightarrow> s)"

definition walk_status :: "walk \<Rightarrow> string \<times> int option" where
  "walk_status w =
     (if tampered_ids w \<noteq> [] then (''broken'', Some (hd (tampered_ids w)))
      else if race_breaks w \<noteq> [] then (''race_breaks'', Some (rb_row_id (hd (race_breaks w))))
      else (''ok'', None))"

definition verify_chain :: "env \<Rightarrow> db \<Rightarrow> walk_error + (verification \<times> db)" where
  "verify_chain E d =
     bindE (walk_chain E d) (\<lambda>w.
       let race_ids = map rb_row_id (race_breaks w);
           (status, broken_row_id) = walk_status w;
           checked = (case broken_row_id of
                        None \<Rightarrow> length (rows_checked w)
                      | Some b \<Rightarrow> length (filter (\<lambda>i. i \<le> b) (rows_checked w)))
       in Inr (\<lparr>v_ok = (status = ''ok''), v_checked_count = checked, v_broken_row_id = broken_row_id,
                v_race_break_ids = race_ids, v_known_break_count = known_break_count w\<rparr>,
               d\<lparr>chain_state := Some ((get_or_create_state d)
                   \<lparr>cs_last_checked_at := Some (e_now E), cs_status := status,
                    cs_broken_row_id := broken_row_id, cs_race_break_count := int (length race_ids),
                    cs_known_break_count := int (known_break_count w)\<rparr>)\<rparr>))"

definition leaf_rows :: "db \<Rightarrow> int \<Rightarrow> int list \<Rightarrow> (int \<times> string) list" where
  "leaf_rows d up_to exclude =
     (let rows = by_id (audit_rows d); parents = List.map_filter a_prev_hash rows in
      if rows = [] then []
      else List.map_filter
        (\<lambda>r. case a_row_hash r of
           None \<Rightarrow> None
         | Some h \<Rightarrow>
             if a_id r \<le> up_to \<and> a_id r \<noteq> a_id (last rows) \<and> a_id r \<notin> set exclude \<and> h \<notin> set parents
             then Some (a_id r, h) else None) rows)"

definition break_item :: "race_break \<Rightarrow> json" where
  "break_item b =
     JObj [(''id'', JInt (rb_row_id b)), (''row_hash'', JStr (rb_row_hash b)),
           (''parent_id'', json_opt JInt (rb_parent_id b))]"

definition leaf_item :: "int \<times> string \<Rightarrow> json" where
  "leaf_item l = JObj [(''id'', JInt (fst l)), (''row_hash'', JStr (snd l))]"

datatype record_error = NoRaceBreaksError | WalkError walk_error

definition lift_walk :: "walk_error + 'a \<Rightarrow> record_error + 'a" where
  "lift_walk m = (case m of Inl e \<Rightarrow> Inl (WalkError e) | Inr x \<Rightarrow> Inr x)"

definition breaks_metadata :: "race_break list \<Rightarrow> (int \<times> string) list \<Rightarrow> (string \<times> json) list" where
  "breaks_metadata bs leaves =
     [(''breaks'', JList (map break_item bs)), (''leaves'', JList (map leaf_item leaves))]"

definition record_known_breaks ::
  "env \<Rightarrow> db \<Rightarrow> int option \<Rightarrow> record_error + (verification \<times> db)" where
  "record_known_breaks E d user_id =
     (let state = get_or_create_state d; d1 = d\<lparr>chain_state := Some state\<rparr> in
      bindE (lift_walk (walk_chain E d1)) (\<lambda>w.
      bindE (requireE (race_breaks w \<noteq> []) NoRaceBreaksError) (\<lambda>_.
        let break_ids = map rb_row_id (race_breaks w);
            up_to = (case cs_known_break_cutoff_row_id state of None \<Rightarrow> 0 | Some c \<Rightarrow> c);
            leaves = leaf_rows d1 up_to break_ids;
            d2 = record_audit_event E d1 d1 user_id known_breaks_action (Some ''audit_log'') None
                   (Some (breaks_metadata (race_breaks w) leaves));
            d3 = d2\<lparr>chain_state := Some (state\<lparr>cs_known_breaks_recorded_at := Some (e_now E)\<rparr>)\<rparr>
        in lift_walk (verify_chain E d3))))"

text \<open>The scheduled job: verify and commit. A raised error leaves the state as it was.\<close>

definition run_audit_integrity_check :: "env \<Rightarrow> db \<Rightarrow> walk_error + db" where
  "run_audit_integrity_check E d = bindE (verify_chain E d) (\<lambda>(result, d'). Inr d')"

section \<open>Comparing hashes, as facts\<close>

definition ascii_opt :: "string option \<Rightarrow> bool" where
  "ascii_opt h = (case h of None \<Rightarrow> True | Some s \<Rightarrow> ascii s)"

text \<open>What \<open>hexdigest()\<close> promises of its result.\<close>

definition hex_digests :: "env \<Rightarrow> bool" where
  "hex_digests E \<longleftrightarrow> (\<forall>k t. ascii (e_hmac E k t))"

lemma ascii_opt_simps [simp]: "ascii_opt None" "ascii_opt (Some s) = ascii s"
  by (simp_all add: ascii_opt_def)

lemma hashes_match_Inr: "hashes_match a b = Inr c \<Longrightarrow> c \<longleftrightarrow> a = b"
  by (auto simp: hashes_match_def split: option.splits if_splits)

lemma hashes_match_ascii: "ascii_opt a \<Longrightarrow> ascii_opt b \<Longrightarrow> hashes_match a b = Inr (a = b)"
  by (auto simp: hashes_match_def split: option.splits)

lemma hex_digest_ascii: "hex_digests E \<Longrightarrow> ascii (compute_row_hash E p r)"
  by (simp add: hex_digests_def compute_row_hash_def)

lemma row_hash_ok_ascii: "hex_digests E \<Longrightarrow> row_hash_ok E r \<Longrightarrow> ascii_opt (a_row_hash r)"
  by (simp add: row_hash_ok_def hex_digest_ascii)

section \<open>One row of the walk\<close>

lemma walk_rows_append:
  "walk_rows E c i bs (xs @ ys) st = bindE (walk_rows E c i bs xs st) (walk_rows E c i bs ys)"
proof (induction xs arbitrary: st)
  case (Cons x xs)
  then show ?case by (cases "walk_row E c i bs x st") auto
qed simp

lemma walk_row_linked:
  assumes "hex_digests E" "row_hash_ok E r" "a_prev_hash r = w_expected st" "ascii_opt (w_expected st)"
  shows "\<exists>st'. walk_row E c i bs r st = Inr st' \<and> w_expected st' = a_row_hash r \<and>
           w_tampered st' = w_tampered st \<and> w_race st' = w_race st \<and> w_known st' = w_known st \<and>
           w_checked st' = w_checked st @ [a_id r] \<and>
           w_present st' = (w_present st)(a_id r := a_row_hash r)"
proof -
  have "hashes_match (a_row_hash r) (Some (compute_row_hash E (a_prev_hash r) r)) = Inr True"
    using assms(1,2) by (simp add: hashes_match_ascii row_hash_ok_ascii hex_digest_ascii)
      (simp add: row_hash_ok_def)
  moreover have "hashes_match (a_prev_hash r) (w_expected st) = Inr True"
    using assms(3,4) by (simp add: hashes_match_ascii)
  ultimately show ?thesis
    by (simp add: walk_row_def classify_def assms(3))
qed

lemma walk_row_facts:
  assumes "walk_row E c i bs r st = Inr st'"
  obtains v where
    "classify c i bs r (row_hash_ok E r) (a_prev_hash r = w_expected st) (is_parent_known st r) = Inr v"
    "w_expected st' = a_row_hash r"
    "w_present st' = (w_present st)(a_id r := a_row_hash r)"
    "w_checked st' = w_checked st @ [a_id r]"
    "w_tampered st' = (if v = Tampered then w_tampered st @ [a_id r] else w_tampered st)"
    "w_race st' = (if v = Race then w_race st @ [\<lparr>rb_row_id = a_id r, rb_row_hash = the (a_row_hash r),
        rb_parent_id = the (w_earlier st (the (a_prev_hash r)))\<rparr>] else w_race st)"
    "w_known st' = (if v = Known then w_known st + 1 else w_known st)"
    "w_earlier st' = (case a_row_hash r of None \<Rightarrow> w_earlier st
        | Some h \<Rightarrow> if w_earlier st h = None then (w_earlier st)(h := Some (Some (a_id r))) else w_earlier st)"
proof -
  from assms obtain valid linked v where *:
    "hashes_match (a_row_hash r) (Some (compute_row_hash E (a_prev_hash r) r)) = Inr valid"
    "hashes_match (a_prev_hash r) (w_expected st) = Inr linked"
    "classify c i bs r valid linked (is_parent_known st r) = Inr v"
    unfolding walk_row_def bindE_Inr_iff by blast
  from hashes_match_Inr [OF *(1)] hashes_match_Inr [OF *(2)]
  have "valid = row_hash_ok E r" "linked = (a_prev_hash r = w_expected st)"
    by (auto simp: row_hash_ok_def)
  note eqs = this
  have "classify c i bs r (row_hash_ok E r) (a_prev_hash r = w_expected st) (is_parent_known st r) = Inr v"
    using *(3) by (simp add: eqs)
  moreover note assms [unfolded walk_row_def *(1) *(2) bindE_simps *(3), symmetric]
  ultimately show ?thesis by (intro that [of v]) simp_all
qed

section \<open>The whole walk\<close>

lemma walk_rows_facts:
  assumes "walk_rows E c i bs rows st = Inr st'"
  shows "\<exists>ts rs. w_tampered st' = w_tampered st @ ts \<and> w_race st' = w_race st @ rs \<and>
           set ts \<subseteq> a_id ` set rows \<and> rb_row_id ` set rs \<subseteq> a_id ` set rows"
    and "w_expected st' = tip_from (w_expected st) rows"
    and "w_checked st' = w_checked st @ map a_id rows"
    and "j \<notin> a_id ` set rows \<Longrightarrow> w_present st' j = w_present st j"
    and "distinct (map a_id rows) \<Longrightarrow> r \<in> set rows \<Longrightarrow> w_present st' (a_id r) = a_row_hash r"
proof -
  have "(\<exists>ts rs. w_tampered st' = w_tampered st @ ts \<and> w_race st' = w_race st @ rs \<and>
           set ts \<subseteq> a_id ` set rows \<and> rb_row_id ` set rs \<subseteq> a_id ` set rows) \<and>
     w_expected st' = tip_from (w_expected st) rows \<and> w_checked st' = w_checked st @ map a_id rows \<and>
     (\<forall>j. j \<notin> a_id ` set rows \<longrightarrow> w_present st' j = w_present st j) \<and>
     (distinct (map a_id rows) \<longrightarrow> (\<forall>r \<in> set rows. w_present st' (a_id r) = a_row_hash r))"
    using assms
  proof (induction rows arbitrary: st)
    case (Cons x rows)
    from Cons.prems obtain s where s: "walk_row E c i bs x st = Inr s" "walk_rows E c i bs rows s = Inr st'"
      by (auto simp: bindE_Inr_iff)
    from Cons.IH [OF s(2)] obtain ts rs where IH:
      "w_tampered st' = w_tampered s @ ts" "w_race st' = w_race s @ rs"
      "set ts \<subseteq> a_id ` set rows" "rb_row_id ` set rs \<subseteq> a_id ` set rows"
      "w_expected st' = tip_from (w_expected s) rows" "w_checked st' = w_checked s @ map a_id rows"
      "\<forall>j. j \<notin> a_id ` set rows \<longrightarrow> w_present st' j = w_present s j"
      "distinct (map a_id rows) \<longrightarrow> (\<forall>r \<in> set rows. w_present st' (a_id r) = a_row_hash r)" by blast
    obtain t1 r1 where "w_tampered s = w_tampered st @ t1" "w_race s = w_race st @ r1"
      "set t1 \<subseteq> {a_id x}" "rb_row_id ` set r1 \<subseteq> {a_id x}" "w_expected s = a_row_hash x"
      "w_checked s = w_checked st @ [a_id x]" "w_present s = (w_present st)(a_id x := a_row_hash x)"
      by (rule walk_row_facts [OF s(1)]) (auto split: if_splits)
    with IH have "w_tampered st' = w_tampered st @ (t1 @ ts)" "w_race st' = w_race st @ (r1 @ rs)"
      "set (t1 @ ts) \<subseteq> a_id ` set (x # rows)" "rb_row_id ` set (r1 @ rs) \<subseteq> a_id ` set (x # rows)"
      "w_expected st' = tip_from (w_expected st) (x # rows)"
      "w_checked st' = w_checked st @ map a_id (x # rows)"
      "\<forall>j. j \<notin> a_id ` set (x # rows) \<longrightarrow> w_present st' j = w_present st j"
      "distinct (map a_id (x # rows)) \<longrightarrow> (\<forall>r \<in> set (x # rows). w_present st' (a_id r) = a_row_hash r)"
      by auto
    then show ?case by blast
  qed simp
  then show "\<exists>ts rs. w_tampered st' = w_tampered st @ ts \<and> w_race st' = w_race st @ rs \<and>
           set ts \<subseteq> a_id ` set rows \<and> rb_row_id ` set rs \<subseteq> a_id ` set rows"
    and "w_expected st' = tip_from (w_expected st) rows"
    and "w_checked st' = w_checked st @ map a_id rows"
    and "j \<notin> a_id ` set rows \<Longrightarrow> w_present st' j = w_present st j"
    and "distinct (map a_id rows) \<Longrightarrow> r \<in> set rows \<Longrightarrow> w_present st' (a_id r) = a_row_hash r"
    by blast+
qed

lemma walk_linear:
  assumes "hex_digests E" "linked_from E (w_expected st) rows" "ascii_opt (w_expected st)"
  shows "\<exists>st'. walk_rows E c i bs rows st = Inr st' \<and> w_tampered st' = w_tampered st \<and>
           w_race st' = w_race st \<and> w_known st' = w_known st"
  using assms(2,3)
proof (induction rows arbitrary: st)
  case (Cons x rows)
  then have "row_hash_ok E x" "a_prev_hash x = w_expected st" by auto
  from walk_row_linked [OF assms(1) this Cons.prems(2), of c i bs] obtain s where
    s: "walk_row E c i bs x st = Inr s" "w_expected s = a_row_hash x" "w_tampered s = w_tampered st"
    "w_race s = w_race st" "w_known s = w_known st" by blast
  have "ascii_opt (a_row_hash x)"
    using row_hash_ok_ascii [OF assms(1)] \<open>row_hash_ok E x\<close> by simp
  with Cons.IH [of s] Cons.prems(1) s show ?case by simp
qed simp

lemma walk_clean_linear:
  assumes "walk_rows E c i [] rows st = Inr st'" "w_tampered st' = w_tampered st" "w_race st' = w_race st"
  shows "linked_from E (w_expected st) rows"
  using assms
proof (induction rows arbitrary: st)
  case (Cons x rows)
  from Cons.prems(1) obtain s where s: "walk_row E c i [] x st = Inr s" "walk_rows E c i [] rows s = Inr st'"
    by (auto simp: bindE_Inr_iff)
  from walk_rows_facts(1) [OF s(2)] obtain ts rs where
    m: "w_tampered st' = w_tampered s @ ts" "w_race st' = w_race s @ rs" by blast
  show ?case
  proof (rule walk_row_facts [OF s(1)])
    fix v
    assume v: "classify c i [] x (row_hash_ok E x) (a_prev_hash x = w_expected st) (is_parent_known st x) = Inr v"
      and eqs: "w_expected s = a_row_hash x"
      "w_tampered s = (if v = Tampered then w_tampered st @ [a_id x] else w_tampered st)"
      "w_race s = (if v = Race then w_race st @ [\<lparr>rb_row_id = a_id x, rb_row_hash = the (a_row_hash x),
        rb_parent_id = the (w_earlier st (the (a_prev_hash x)))\<rparr>] else w_race st)"
    from m eqs Cons.prems(2,3) have nv: "v \<noteq> Tampered" "v \<noteq> Race" by auto
    with v have ok: "row_hash_ok E x \<and> a_prev_hash x = w_expected st"
      by (auto simp: classify_def split: if_splits)
    have "linked_from E (w_expected s) rows"
      by (rule Cons.IH [OF s(2)]) (use nv eqs Cons.prems in simp_all)
    with ok eqs show ?thesis by simp
  qed
qed simp

lemma missing_loop_mono: "missing_loop p u xs t = Inr t' \<Longrightarrow> \<exists>ts. t' = t @ ts"
proof (induction xs arbitrary: t)
  case (Cons x xs)
  obtain j k where x: "x = (j, k)" by (cases x)
  from Cons show ?case by (fastforce simp: x bindE_Inr_iff split: if_splits)
qed simp

lemma missing_loop_clean:
  "missing_loop p u xs t = Inr [] \<Longrightarrow> (i, h) \<in> set xs \<Longrightarrow> u < i \<Longrightarrow> p i = Some h \<and> ascii h"
proof (induction xs arbitrary: t)
  case (Cons x xs)
  obtain j k where x: "x = (j, k)" by (cases x)
  from Cons.prems(1) obtain same where
    same: "(if u < j then hashes_match (p j) (Some k) else Inr True) = Inr same"
    and rest: "missing_loop p u xs (if same \<or> j \<in> set t then t else t @ [j]) = Inr []"
    by (auto simp: x bindE_Inr_iff)
  from missing_loop_mono [OF rest] have t: "t = []" "same" by (auto split: if_splits)
  show ?case
  proof (cases "(i, h) = x")
    case True
    with same t Cons.prems(3) show ?thesis
      by (auto simp: x hashes_match_def split: option.splits if_splits)
  next
    case False
    with Cons.prems have "(i, h) \<in> set xs" by simp
    with Cons.IH [OF rest] Cons.prems(3) show ?thesis by simp
  qed
qed simp

lemma missing_loop_ok:
  "(\<And>i h. (i, h) \<in> set xs \<Longrightarrow> u < i \<Longrightarrow> p i = Some h \<and> ascii h) \<Longrightarrow> missing_loop p u xs t = Inr t"
proof (induction xs)
  case (Cons x xs)
  obtain j k where x: "x = (j, k)" by (cases x)
  have "(if u < j then hashes_match (p j) (Some k) else Inr True) = Inr True"
    using Cons.prems [of j k] by (simp add: x hashes_match_def)
  moreover have "missing_loop p u xs t = Inr t"
    by (rule Cons.IH) (use Cons.prems in auto)
  ultimately show ?case by (simp add: x)
qed simp

section \<open>Reading a verification's result\<close>

definition anchor_id :: "db \<Rightarrow> int option" where
  "anchor_id d = Option.bind (chain_state d) cs_anchor_row_id"

definition cutoff_id :: "db \<Rightarrow> int option" where
  "cutoff_id d = Option.bind (chain_state d) cs_known_break_cutoff_row_id"

definition purged_up_to :: "db \<Rightarrow> int" where
  "purged_up_to d = (case anchor_id d of None \<Rightarrow> 0 | Some i \<Rightarrow> i)"

lemmas state_defs = anchor_hash_def anchor_id_def cutoff_id_def purged_up_to_def

lemma walk_chain_cong:
  assumes "audit_rows e = audit_rows d" "anchor_hash e = anchor_hash d" "anchor_id e = anchor_id d"
    and "cutoff_id e = cutoff_id d"
  shows "walk_chain E e = walk_chain E d"
  using assms by (simp add: walk_chain_def Let_def state_defs)

lemma walk_chain_intro:
  assumes "recorded_known_breaks (audit_rows d) = Inr rec"
    and "walk_rows E (cutoff_id d) (anchor_id d) (fst rec) (by_id (audit_rows d))
           (start_state (anchor_hash d) (anchor_id d)) = Inr st"
    and "missing_loop (w_present st) (purged_up_to d) (expected_present rec) (w_tampered st) = Inr tampered"
  shows "walk_chain E d = Inr \<lparr>rows_checked = w_checked st, tampered_ids = sort tampered,
           race_breaks = w_race st, known_break_count = w_known st\<rparr>"
  using assms by (simp add: walk_chain_def Let_def state_defs)

lemma walk_chain_elim:
  assumes "walk_chain E d = Inr w"
  obtains rec st tampered where "recorded_known_breaks (audit_rows d) = Inr rec"
    "walk_rows E (cutoff_id d) (anchor_id d) (fst rec) (by_id (audit_rows d))
       (start_state (anchor_hash d) (anchor_id d)) = Inr st"
    "missing_loop (w_present st) (purged_up_to d) (expected_present rec) (w_tampered st) = Inr tampered"
    "w = \<lparr>rows_checked = w_checked st, tampered_ids = sort tampered,
           race_breaks = w_race st, known_break_count = w_known st\<rparr>"
  using assms by (auto simp: walk_chain_def Let_def state_defs bindE_Inr_iff)

lemma verify_chain_ok_iff:
  assumes "walk_chain E d = Inr w"
  shows "\<exists>v d'. verify_chain E d = Inr (v, d') \<and>
           (v_ok v \<longleftrightarrow> tampered_ids w = [] \<and> race_breaks w = []) \<and>
           (v_ok v \<longrightarrow> v_checked_count v = length (rows_checked w) \<and> v_broken_row_id v = None)"
  using assms by (simp add: verify_chain_def Let_def walk_status_def)

lemma verify_chain_walk: "verify_chain E d = Inr (v, d') \<Longrightarrow> \<exists>w. walk_chain E d = Inr w"
  by (auto simp: verify_chain_def bindE_Inr_iff)

lemma start_state_simps [simp]:
  "w_expected (start_state a i) = a" "w_tampered (start_state a i) = []"
  "w_race (start_state a i) = []" "w_checked (start_state a i) = []"
  "w_present (start_state a i) j = None" "w_known (start_state a i) = 0"
  by (simp_all add: start_state_def)

text \<open>A clean verification, taken apart.\<close>

lemma verify_ok_elim:
  assumes "verify_chain E d = Inr (v, d')" "v_ok v"
  obtains rec st where "recorded_known_breaks (audit_rows d) = Inr rec"
    "walk_rows E (cutoff_id d) (anchor_id d) (fst rec) (by_id (audit_rows d))
       (start_state (anchor_hash d) (anchor_id d)) = Inr st"
    "missing_loop (w_present st) (purged_up_to d) (expected_present rec) [] = Inr []"
    "w_tampered st = []" "w_race st = []" "v_checked_count v = length (audit_rows d)"
proof -
  from verify_chain_walk [OF assms(1)] obtain w where w: "walk_chain E d = Inr w" by blast
  from verify_chain_ok_iff [OF w] assms have
    clean: "tampered_ids w = []" "race_breaks w = []" "v_checked_count v = length (rows_checked w)" by auto
  from w show ?thesis
  proof (rule walk_chain_elim)
    fix rec st tampered
    assume *: "recorded_known_breaks (audit_rows d) = Inr rec"
      "walk_rows E (cutoff_id d) (anchor_id d) (fst rec) (by_id (audit_rows d))
         (start_state (anchor_hash d) (anchor_id d)) = Inr st"
      "missing_loop (w_present st) (purged_up_to d) (expected_present rec) (w_tampered st) = Inr tampered"
      "w = \<lparr>rows_checked = w_checked st, tampered_ids = sort tampered,
           race_breaks = w_race st, known_break_count = w_known st\<rparr>"
    have t: "tampered = []" using clean(1) *(4) by (simp add: sort_key_def) (metis length_0_conv length_sort sort_key_def)
    with missing_loop_mono [OF *(3)] have "w_tampered st = []" by simp
    moreover have "length (w_checked st) = length (audit_rows d)"
      using walk_rows_facts(3) [OF *(2)] by (simp add: by_id_def)
    ultimately show ?thesis using that [of rec st] * t clean by simp
  qed
qed

lemma verify_ok_intro:
  assumes "recorded_known_breaks (audit_rows d) = Inr rec"
    and "walk_rows E (cutoff_id d) (anchor_id d) (fst rec) (by_id (audit_rows d))
           (start_state (anchor_hash d) (anchor_id d)) = Inr st"
    and "missing_loop (w_present st) (purged_up_to d) (expected_present rec) [] = Inr []"
    and "w_tampered st = []" "w_race st = []"
  shows "\<exists>v d'. verify_chain E d = Inr (v, d') \<and> v_ok v \<and> v_checked_count v = length (audit_rows d)"
proof -
  from walk_chain_intro [OF assms(1,2)] assms(3,4) have
    "walk_chain E d = Inr \<lparr>rows_checked = w_checked st, tampered_ids = [],
           race_breaks = w_race st, known_break_count = w_known st\<rparr>" by simp
  from verify_chain_ok_iff [OF this] assms(5) walk_rows_facts(3) [OF assms(2)] show ?thesis
    by (auto simp: by_id_def)
qed

lemma walk_linked_sound:
  assumes "walk_rows E c i bs rows st = Inr st'" "linked_from E (w_expected st) rows"
  shows "w_tampered st' = w_tampered st \<and> w_race st' = w_race st"
  using assms
proof (induction rows arbitrary: st)
  case (Cons x rows)
  from Cons.prems(1) obtain s where s: "walk_row E c i bs x st = Inr s" "walk_rows E c i bs rows s = Inr st'"
    by (auto simp: bindE_Inr_iff)
  have "w_expected s = a_row_hash x \<and> w_tampered s = w_tampered st \<and> w_race s = w_race st"
    by (rule walk_row_facts [OF s(1)]) (use Cons.prems(2) in \<open>auto simp: classify_def\<close>)
  with Cons.IH [OF s(2)] Cons.prems(2) show ?case by simp
qed simp

text \<open>Unless a row is reported as tampered, it hashes itself.\<close>

lemma walk_rows_valid:
  assumes "walk_rows E c i bs rows st = Inr st'" "r \<in> set rows" "\<not> row_hash_ok E r"
  shows "a_id r \<in> set (w_tampered st')"
  using assms
proof (induction rows arbitrary: st)
  case (Cons x rows)
  from Cons.prems(1) obtain s where s: "walk_row E c i bs x st = Inr s" "walk_rows E c i bs rows s = Inr st'"
    by (auto simp: bindE_Inr_iff)
  from walk_rows_facts(1) [OF s(2)] obtain ts where ts: "w_tampered st' = w_tampered s @ ts" by blast
  show ?case
  proof (cases "r = x")
    case True
    have "a_id x \<in> set (w_tampered s)"
      by (rule walk_row_facts [OF s(1)])
        (use True Cons.prems(3) in \<open>auto simp: classify_def bindE_Inr_iff split: option.splits\<close>)
    with ts True show ?thesis by simp
  next
    case False
    with Cons.prems(2,3) show ?thesis by (intro Cons.IH [OF s(2)]) simp_all
  qed
qed simp

section \<open>Appending an entry\<close>

lemma add_entries_append: "add_entries (xs @ ys) rec = bindE (add_entries xs rec) (add_entries ys)"
proof (induction xs arbitrary: rec)
  case (Cons x xs)
  then show ?case by (cases "add_entry x rec") auto
qed simp

lemma recorded_snoc_other:
  "a_action r \<noteq> known_breaks_action \<Longrightarrow> recorded_known_breaks (rows @ [r]) = recorded_known_breaks rows"
  by (simp add: recorded_known_breaks_def)

text \<open>After a clean walk the tip the next entry chains from is where the walk ended.\<close>

lemma tip_of_walk:
  assumes "walk_rows E c i bs (by_id (audit_rows d)) (start_state (anchor_hash d) i) = Inr st"
    and "w_tampered st = []" "sorted_ids (audit_rows d)"
  shows "current_chain_tip d = w_expected st"
proof (cases "audit_rows d = []")
  case False
  then have "row_hash_ok E (last (audit_rows d))"
    using walk_rows_valid [OF assms(1), of "last (audit_rows d)"] assms(2,3) by (auto simp: by_id_sorted)
  with False assms(3) show ?thesis
    using walk_rows_facts(2) [OF assms(1)]
    by (auto simp: current_chain_tip_def by_id_sorted tip_from_last dest: row_hash_ok_simp)
next
  case True
  with walk_rows_facts(2) [OF assms(1)] show ?thesis by (simp add: current_chain_tip_def by_id_def)
qed

lemma tip_ascii:
  assumes "walk_rows E c i bs (by_id (audit_rows d)) (start_state (anchor_hash d) i) = Inr st"
    and "w_tampered st = []" "sorted_ids (audit_rows d)" "hex_digests E" "ascii_opt (anchor_hash d)"
  shows "ascii_opt (w_expected st)"
proof (cases "audit_rows d = []")
  case False
  then have "row_hash_ok E (last (audit_rows d))"
    using walk_rows_valid [OF assms(1), of "last (audit_rows d)"] assms(2,3) by (auto simp: by_id_sorted)
  with False walk_rows_facts(2) [OF assms(1)] assms(3,4) show ?thesis
    by (simp add: tip_from_last by_id_sorted row_hash_ok_ascii)
next
  case True
  with walk_rows_facts(2) [OF assms(1)] assms(5) show ?thesis by (simp add: by_id_def)
qed

lemma new_id_fresh: "tbl_max a_id rows + 1 \<notin> a_id ` set rows"
  using tbl_max_ge [of _ rows a_id] by force

text \<open>Walking one more, linked, row after a walk without a tampered row.\<close>

lemma walk_appended:
  assumes "walk_rows E c i bs (by_id (audit_rows d)) (start_state (anchor_hash d) i) = Inr st"
    and "w_tampered st = []" "sorted_ids (audit_rows d)" "hex_digests E" "ascii_opt (anchor_hash d)"
    and "e = chain_new_entry E d (new_audit_entry E seen d u a tt ti m)"
  obtains st' where "walk_rows E c i bs (by_id (audit_rows d @ [e])) (start_state (anchor_hash d) i) = Inr st'"
    "w_tampered st' = []" "w_race st' = w_race st" "w_present st' = (w_present st)(a_id e := a_row_hash e)"
proof -
  have "by_id (audit_rows d @ [e]) = by_id (audit_rows d) @ [e]"
    using assms(3,6) by (simp add: by_id_sorted sorted_ids_snoc)
  moreover have "row_hash_ok E e" "a_prev_hash e = w_expected st"
    using tip_of_walk [OF assms(1-3)] assms(6) by simp_all
  from walk_row_linked [OF assms(4) this tip_ascii [OF assms(1-5)], of c i bs] obtain st' where
    "walk_row E c i bs e st = Inr st'" "w_tampered st' = w_tampered st" "w_race st' = w_race st"
    "w_present st' = (w_present st)(a_id e := a_row_hash e)" by blast
  ultimately show ?thesis
    using assms(1,2) by (intro that [of st']) (simp_all add: walk_rows_append)
qed

lemma record_state_ids [simp]:
  "anchor_id (record_audit_event E seen d u a tt ti m) = anchor_id d"
  "cutoff_id (record_audit_event E seen d u a tt ti m) = cutoff_id d"
  "purged_up_to (record_audit_event E seen d u a tt ti m) = purged_up_to d"
  by (simp_all add: state_defs)

lemma verify_after_append:
  assumes "verify_chain E d = Inr (v, d')" "v_ok v" "sorted_ids (audit_rows d)"
    and "hex_digests E" "ascii_opt (anchor_hash d)" "a \<noteq> known_breaks_action"
  shows "\<exists>v' d''. verify_chain E (record_audit_event E seen d u a tt ti m) = Inr (v', d'') \<and>
           v_ok v' \<and> v_checked_count v' = v_checked_count v + 1"
proof -
  let ?e = "chain_new_entry E d (new_audit_entry E seen d u a tt ti m)"
    and ?d = "record_audit_event E seen d u a tt ti m"
  from assms(1,2) obtain rec st where ok: "recorded_known_breaks (audit_rows d) = Inr rec"
    "walk_rows E (cutoff_id d) (anchor_id d) (fst rec) (by_id (audit_rows d))
       (start_state (anchor_hash d) (anchor_id d)) = Inr st"
    "missing_loop (w_present st) (purged_up_to d) (expected_present rec) [] = Inr []"
    "w_tampered st = []" "w_race st = []" "v_checked_count v = length (audit_rows d)"
    by (rule verify_ok_elim)
  obtain st' where st': "walk_rows E (cutoff_id d) (anchor_id d) (fst rec) (by_id (audit_rows d @ [?e]))
      (start_state (anchor_hash d) (anchor_id d)) = Inr st'"
    "w_tampered st' = []" "w_race st' = w_race st" "w_present st' = (w_present st)(a_id ?e := a_row_hash ?e)"
    using walk_appended [OF ok(2,4) assms(3-5) refl] by blast
  have "w_present st (a_id ?e) = None"
    using walk_rows_facts(4) [OF ok(2)] new_id_fresh [of "audit_rows d"] by (simp add: by_id_def)
  then have "missing_loop (w_present st') (purged_up_to d) (expected_present rec) [] = Inr []"
    using missing_loop_clean [OF ok(3)] by (intro missing_loop_ok) (auto simp: st'(4))
  moreover have "recorded_known_breaks (audit_rows ?d) = Inr rec"
    using assms(6) ok(1) by (simp add: record_rows recorded_snoc_other)
  ultimately show ?thesis
    using st' ok(5,6) verify_ok_intro [of ?d rec E st'] by (simp add: record_rows)
qed

section \<open>Recording race breaks\<close>

lemma add_break_item: "add_break (break_item b) = AList.update (rb_row_id b) (rb_row_hash b, rb_parent_id b)"
  by (cases "rb_parent_id b")
    (auto simp: add_break_def item_id_hash_def item_parent_def break_item_def dict_get_def as_int_def json_opt_def)

lemma add_leaf_item: "add_leaf (leaf_item l) = AList.update (fst l) (snd l)"
  by (cases l) (simp add: fun_eq_iff add_leaf_def item_id_hash_def leaf_item_def dict_get_def as_int_def)

lemma add_entry_recorded:
  assumes "a_metadata r = Some (breaks_metadata bs ls)"
  shows "add_entry r rec =
    Inr (fold (\<lambda>b. AList.update (rb_row_id b) (rb_row_hash b, rb_parent_id b)) bs (fst rec),
         fold (\<lambda>l. AList.update (fst l) (snd l)) ls (snd rec))"
  by (simp add: add_entry_def assms breaks_metadata_def items_of_def dict_get_def fold_map comp_def
      add_break_item add_leaf_item)

text \<open>Dictionaries built by assignment: distinct keys, and the last assignment wins.\<close>

lemma fold_update_distinct:
  "distinct (map fst al) \<Longrightarrow> distinct (map fst (fold (\<lambda>x. AList.update (k x) (v x)) xs al))"
  by (induction xs arbitrary: al) (auto intro: distinct_update)

lemma fold_update_map:
  "map_of (fold (\<lambda>x. AList.update (k x) (v x)) xs al) = map_of al ++ map_of (map (\<lambda>x. (k x, v x)) (rev xs))"
proof (induction xs arbitrary: al)
  case (Cons x xs)
  show ?case
    by (simp add: Cons.IH update_conv' map_add_upd_left)
      (auto simp: map_add_def fun_eq_iff split: option.splits)
qed simp

lemma fold_update_other:
  "i \<notin> k ` set xs \<Longrightarrow> map_of (fold (\<lambda>x. AList.update (k x) (v x)) xs al) i = map_of al i"
proof -
  assume "i \<notin> k ` set xs"
  then have "map_of (map (\<lambda>x. (k x, v x)) (rev xs)) i = None" by (auto simp: map_of_eq_None_iff)
  then show ?thesis by (simp add: fold_update_map map_add_def)
qed

lemma fold_update_hit:
  "map_of (fold (\<lambda>x. AList.update (k x) (v x)) xs al) i = Some y \<Longrightarrow>
   map_of al i = Some y \<or> (\<exists>x \<in> set xs. k x = i \<and> v x = y)"
  by (auto simp: fold_update_map map_add_Some_iff dest!: map_of_SomeD)

lemma fold_update_functional:
  assumes "x \<in> set xs" "\<And>y. y \<in> set xs \<Longrightarrow> k y = k x \<Longrightarrow> v y = v x"
  shows "map_of (fold (\<lambda>x. AList.update (k x) (v x)) xs al) (k x) = Some (v x)"
proof -
  let ?m = "map_of (map (\<lambda>x. (k x, v x)) (rev xs))"
  have "(k x, v x) \<in> set (map (\<lambda>x. (k x, v x)) (rev xs))" using assms(1) by auto
  then obtain y where "?m (k x) = Some y" by (meson weak_map_of_SomeI)
  moreover from map_of_SomeD [OF this] assms(2) have "y = v x" by auto
  ultimately show ?thesis by (simp add: fold_update_map)
qed

lemma fold_update_none: "map_of (fold (\<lambda>x. AList.update (k x) (v x)) xs al) i = None \<Longrightarrow> map_of al i = None"
  by (simp add: fold_update_map)

text \<open>The rows a walk calls race breaks: rows of the table, with their hashes.\<close>

lemma race_rows:
  assumes "walk_rows E c i bs rows st = Inr st'" "w_race st = []" "w_tampered st' = []" "b \<in> set (w_race st')"
  shows "\<exists>r \<in> set rows. a_id r = rb_row_id b \<and> a_row_hash r = Some (rb_row_hash b)"
proof -
  have "\<forall>b \<in> set (w_race st'). b \<in> set (w_race st) \<or>
      (\<exists>r \<in> set rows. a_id r = rb_row_id b \<and> a_row_hash r = Some (rb_row_hash b))"
    using assms(1,3)
  proof (induction rows arbitrary: st)
    case (Cons x rows)
    from Cons.prems(1) obtain s where s: "walk_row E c i bs x st = Inr s" "walk_rows E c i bs rows s = Inr st'"
      by (auto simp: bindE_Inr_iff)
    have "row_hash_ok E x" using walk_rows_valid [OF Cons.prems(1), of x] Cons.prems(2) by auto
    then obtain h where h: "a_row_hash x = Some h" by (simp add: row_hash_ok_def)
    have new: "b \<in> set (w_race st) \<or> a_id x = rb_row_id b \<and> a_row_hash x = Some (rb_row_hash b)"
      if "b \<in> set (w_race s)" for b
      by (rule walk_row_facts [OF s(1)]) (use that h in \<open>auto split: if_splits\<close>)
    show ?case
    proof
      fix b assume "b \<in> set (w_race st')"
      with Cons.IH [OF s(2) Cons.prems(2)] consider "b \<in> set (w_race s)"
        | "\<exists>r \<in> set rows. a_id r = rb_row_id b \<and> a_row_hash r = Some (rb_row_hash b)" by blast
      then show "b \<in> set (w_race st) \<or>
          (\<exists>r \<in> set (x # rows). a_id r = rb_row_id b \<and> a_row_hash r = Some (rb_row_hash b))"
        by cases (use new [of b] in auto)
    qed
  qed simp
  with assms(2,4) show ?thesis by auto
qed

text \<open>Walking the same rows once their race breaks are recorded: every one is accepted.\<close>

definition same_view :: "walk_state \<Rightarrow> walk_state \<Rightarrow> bool" where
  "same_view s t \<longleftrightarrow> w_expected s = w_expected t \<and> w_earlier s = w_earlier t \<and>
     w_present s = w_present t \<and> w_checked s = w_checked t"

lemma rewalk_row:
  assumes "walk_row E c i bs x st = Inr s" "w_tampered s = w_tampered st" "hex_digests E"
    and "w_race s = w_race st \<Longrightarrow> map_of bs' (a_id x) = map_of bs (a_id x)"
    and "w_race s \<noteq> w_race st \<Longrightarrow> \<exists>p. map_of bs' (a_id x) = Some (the (a_row_hash x), p)"
    and "same_view st st'"
  shows "\<exists>s'. walk_row E c i bs' x st' = Inr s' \<and> same_view s s' \<and>
           w_tampered s' = w_tampered st' \<and> w_race s' = w_race st'"
proof -
  from assms(1) obtain valid linked v where *:
    "hashes_match (a_row_hash x) (Some (compute_row_hash E (a_prev_hash x) x)) = Inr valid"
    "hashes_match (a_prev_hash x) (w_expected st) = Inr linked"
    "classify c i bs x valid linked (is_parent_known st x) = Inr v"
    unfolding walk_row_def bindE_Inr_iff by blast
  have valid: "valid \<longleftrightarrow> row_hash_ok E x" using hashes_match_Inr [OF *(1)] by (simp add: row_hash_ok_def)
  note s = assms(1) [unfolded walk_row_def *(1) *(2) bindE_simps *(3), symmetric]
  have pk: "is_parent_known st' x = is_parent_known st x"
    using assms(6) by (simp add: is_parent_known_def same_view_def split: option.splits)
  have "\<exists>v'. classify c i bs' x valid linked (is_parent_known st x) = Inr v' \<and> v' \<in> {Sound, Known}"
  proof (cases v)
    case Race
    then have "w_race s \<noteq> w_race st" using s by auto
    from assms(5) [OF this] obtain p where p: "map_of bs' (a_id x) = Some (the (a_row_hash x), p)" by blast
    from * Race have "valid" "is_parent_known st x"
      by (auto simp: classify_def bindE_Inr_iff split: option.splits if_splits)
    moreover from this valid assms(3) have "hashes_match (a_row_hash x) (Some (the (a_row_hash x))) = Inr True"
      by (auto simp: row_hash_ok_def hashes_match_def hex_digest_ascii)
    ultimately show ?thesis using p by (simp add: classify_def)
  next
    case Tampered
    with s assms(2) show ?thesis by auto
  next
    case Sound
    with * have "valid \<and> linked"
      by (auto simp: classify_def bindE_Inr_iff split: if_splits)
    then show ?thesis by (simp add: classify_def)
  next
    case Known
    then have "map_of bs' (a_id x) = map_of bs (a_id x)" using s by (intro assms(4)) auto
    then have "classify c i bs' x valid linked (is_parent_known st x) =
        classify c i bs x valid linked (is_parent_known st x)"
      by (simp add: classify_def)
    with *(3) Known show ?thesis by simp
  qed
  then obtain v' where "classify c i bs' x valid linked (is_parent_known st' x) = Inr v'" "v' = Sound \<or> v' = Known"
    by (auto simp: pk)
  moreover have view: "w_expected st' = w_expected st" "w_earlier st' = w_earlier st"
    "w_present st' = w_present st" "w_checked st' = w_checked st"
    using assms(6) by (simp_all add: same_view_def)
  moreover have "w_expected s = a_row_hash x" "w_present s = (w_present st)(a_id x := a_row_hash x)"
    "w_checked s = w_checked st @ [a_id x]"
    "w_earlier s = (case a_row_hash x of None \<Rightarrow> w_earlier st
       | Some h \<Rightarrow> if w_earlier st h = None then (w_earlier st)(h := Some (Some (a_id x))) else w_earlier st)"
    using s by simp_all
  ultimately show ?thesis
    using *(1,2) by (auto simp: walk_row_def same_view_def pk cong: option.case_cong if_cong)
qed

lemma rewalk_rows:
  assumes "walk_rows E c i bs rows st = Inr st1" "w_tampered st1 = w_tampered st" "hex_digests E"
    and "distinct (map a_id rows)" "w_race st1 = w_race st @ R"
    and "\<And>r. r \<in> set rows \<Longrightarrow> a_id r \<in> rb_row_id ` set R \<Longrightarrow> \<exists>p. map_of bs' (a_id r) = Some (the (a_row_hash r), p)"
    and "\<And>r. r \<in> set rows \<Longrightarrow> a_id r \<notin> rb_row_id ` set R \<Longrightarrow> map_of bs' (a_id r) = map_of bs (a_id r)"
    and "same_view st st'"
  shows "\<exists>st2. walk_rows E c i bs' rows st' = Inr st2 \<and> same_view st1 st2 \<and>
           w_tampered st2 = w_tampered st' \<and> w_race st2 = w_race st'"
  using assms(1,2,4-8)
proof (induction rows arbitrary: st st' R)
  case (Cons x rows)
  from Cons.prems(1) obtain s where s: "walk_row E c i bs x st = Inr s" "walk_rows E c i bs rows s = Inr st1"
    by (auto simp: bindE_Inr_iff)
  from walk_rows_facts(1) [OF s(2)] obtain ts rs where
    rest: "w_tampered st1 = w_tampered s @ ts" "w_race st1 = w_race s @ rs" "rb_row_id ` set rs \<subseteq> a_id ` set rows"
    by blast
  obtain t1 r1 where head: "w_tampered s = w_tampered st @ t1" "w_race s = w_race st @ r1"
    "rb_row_id ` set r1 \<subseteq> {a_id x}" "r1 \<noteq> [] \<longrightarrow> a_id x \<in> rb_row_id ` set r1"
    by (rule walk_row_facts [OF s(1)]) (auto split: if_splits)
  have R: "R = r1 @ rs" and ts: "t1 = []" "ts = []"
    using rest(1,2) head(1,2) Cons.prems(2,4) by auto
  have x_rs: "a_id x \<notin> rb_row_id ` set rs" using rest(3) Cons.prems(3) by auto
  have "\<exists>s'. walk_row E c i bs' x st' = Inr s' \<and> same_view s s' \<and>
           w_tampered s' = w_tampered st' \<and> w_race s' = w_race st'"
  proof (rule rewalk_row [OF s(1) _ assms(3)])
    show "w_tampered s = w_tampered st" using head(1) ts by simp
    show "same_view st st'" by (rule Cons.prems(7))
    show "map_of bs' (a_id x) = map_of bs (a_id x)" if "w_race s = w_race st"
      using that head(2) x_rs R Cons.prems(6) [of x] by simp
    show "\<exists>p. map_of bs' (a_id x) = Some (the (a_row_hash x), p)" if "w_race s \<noteq> w_race st"
      using that head(2,4) R Cons.prems(5) [of x] by auto
  qed
  then obtain s' where s': "walk_row E c i bs' x st' = Inr s'" "same_view s s'"
    "w_tampered s' = w_tampered st'" "w_race s' = w_race st'" by blast
  have notx: "a_id r \<notin> rb_row_id ` set r1" if "r \<in> set rows" for r
  proof -
    have "a_id r \<noteq> a_id x"
      using that Cons.prems(3) by (metis distinct.simps(2) image_eqI list.simps(9) set_map)
    with head(3) show ?thesis by auto
  qed
  have "\<exists>st2. walk_rows E c i bs' rows s' = Inr st2 \<and> same_view st1 st2 \<and>
           w_tampered st2 = w_tampered s' \<and> w_race st2 = w_race s'"
    by (rule Cons.IH [OF s(2), of rs])
      (use rest ts head Cons.prems(3,5,6) s' R notx in \<open>auto simp: image_Un\<close>)
  with s' show ?case by auto
qed auto

lemma add_entries_distinct:
  assumes "add_entries rs rec = Inr rec'" "distinct (map fst (fst rec))" "distinct (map fst (snd rec))"
  shows "distinct (map fst (fst rec')) \<and> distinct (map fst (snd rec'))"
  using assms
proof (induction rs arbitrary: rec)
  case (Cons r rs)
  have b: "distinct (map fst (fold add_break xs al))" if "distinct (map fst al)" for xs al
    using that by (induction xs arbitrary: al)
      (auto simp: add_break_def distinct_update split: option.splits)
  have l: "distinct (map fst (fold add_leaf xs al))" if "distinct (map fst al)" for xs al
    using that by (induction xs arbitrary: al)
      (auto simp: add_leaf_def distinct_update split: option.splits)
  from Cons.prems(1) obtain rec1 where "add_entry r rec = Inr rec1" "add_entries rs rec1 = Inr rec'"
    by (auto simp: bindE_Inr_iff)
  moreover from this(1) Cons.prems(2,3) b l
  have "distinct (map fst (fst rec1)) \<and> distinct (map fst (snd rec1))"
    by (auto simp: add_entry_def bindE_Inr_iff split: option.splits)
  ultimately show ?case using Cons.IH by blast
qed simp

lemma map_of_rev: "distinct (map fst xs) \<Longrightarrow> map_of (rev xs) = map_of xs"
proof
  fix i assume d: "distinct (map fst xs)"
  then have "map_of (rev xs) i = Some y \<longleftrightarrow> map_of xs i = Some y" for y
    by (simp add: map_of_eq_Some_iff rev_map [symmetric])
  then show "map_of (rev xs) i = map_of xs i" by (metis not_Some_eq)
qed

lemma expected_present_map:
  assumes "distinct (map fst (fst rec))" "distinct (map fst (snd rec))"
  shows "distinct (map fst (expected_present rec))"
    and "map_of (expected_present rec) i =
      (case map_of (snd rec) i of Some h \<Rightarrow> Some h | None \<Rightarrow> map_option fst (map_of (fst rec) i))"
proof -
  let ?base = "map (\<lambda>(i, h, p). (i, h)) (fst rec)"
  have ep: "expected_present rec = fold (\<lambda>x. AList.update (fst x) (snd x)) (snd rec) ?base"
    by (simp add: expected_present_def case_prod_beta')
  have keys: "map fst (map (\<lambda>(i, h, p). (i, h)) xs) = map fst xs" for xs :: "(int \<times> string \<times> int option) list"
    by (induction xs) auto
  show "distinct (map fst (expected_present rec))"
    unfolding ep by (rule fold_update_distinct) (simp only: keys assms(1))
  have "map_of (map (\<lambda>(i, h, p). (i, h)) xs) i = map_option fst (map_of xs i)"
    for xs :: "(int \<times> string \<times> int option) list"
    by (induction xs) auto
  then have "map_of ?base i = map_option fst (map_of (fst rec) i)" .
  moreover have "map_of (rev (snd rec)) = map_of (snd rec)"
    using assms(2) by (rule map_of_rev)
  ultimately show "map_of (expected_present rec) i =
      (case map_of (snd rec) i of Some h \<Rightarrow> Some h | None \<Rightarrow> map_option fst (map_of (fst rec) i))"
    by (simp add: ep fold_update_map map_add_def split: option.splits)
qed

lemma recorded_distinct:
  "recorded_known_breaks rows = Inr rec \<Longrightarrow> distinct (map fst (fst rec)) \<and> distinct (map fst (snd rec))"
  using add_entries_distinct [of "filter (\<lambda>r. a_action r = known_breaks_action) rows" "([], [])" rec]
  by (simp add: recorded_known_breaks_def)

lemma map_filter_mem: "y \<in> set (List.map_filter f xs) \<longleftrightarrow> (\<exists>x \<in> set xs. f x = Some y)"
  by (force simp: map_filter_def)

lemma leaf_rows_mem:
  "(i, h) \<in> set (leaf_rows d up_to ex) \<Longrightarrow> \<exists>r \<in> set (by_id (audit_rows d)). a_id r = i \<and> a_row_hash r = Some h"
  by (auto simp: leaf_rows_def Let_def map_filter_mem split: option.splits if_splits)

lemma same_id_same_row:
  "distinct (map a_id rows) \<Longrightarrow> r \<in> set rows \<Longrightarrow> s \<in> set rows \<Longrightarrow> a_id r = a_id s \<Longrightarrow> r = s"
  by (metis distinct_map inj_onD)

text \<open>
  The recorded breaks and leaves once the entry of \<open>record_known_breaks\<close> is written: the earlier
  ones with the new ones assigned over them.
\<close>

definition recorded_with :: "race_break list \<Rightarrow> (int \<times> string) list \<Rightarrow> recorded \<Rightarrow> recorded" where
  "recorded_with bs ls rec =
     (fold (\<lambda>b. AList.update (rb_row_id b) (rb_row_hash b, rb_parent_id b)) bs (fst rec),
      fold (\<lambda>l. AList.update (fst l) (snd l)) ls (snd rec))"

lemma recorded_after:
  assumes "recorded_known_breaks rows = Inr rec" "a_action e = known_breaks_action"
    and "a_metadata e = Some (breaks_metadata bs ls)"
  shows "recorded_known_breaks (rows @ [e]) = Inr (recorded_with bs ls rec)"
  using assms(1,2)
  by (simp add: recorded_known_breaks_def add_entries_append add_entry_recorded [OF assms(3)] recorded_with_def)

lemma recorded_with_other:
  "i \<notin> rb_row_id ` set bs \<Longrightarrow> map_of (fst (recorded_with bs ls rec)) i = map_of (fst rec) i"
  by (simp add: recorded_with_def fold_update_other)

lemma recorded_with_hit:
  assumes "i \<in> rb_row_id ` set bs" "\<And>b. b \<in> set bs \<Longrightarrow> rb_row_id b = i \<Longrightarrow> rb_row_hash b = h"
  shows "\<exists>p. map_of (fst (recorded_with bs ls rec)) i = Some (h, p)"
proof -
  let ?m = "map_of (map (\<lambda>b. (rb_row_id b, rb_row_hash b, rb_parent_id b)) (rev bs))"
  have "?m i \<noteq> None" using assms(1) by (auto simp: map_of_eq_None_iff image_iff)
  then obtain y where y: "?m i = Some y" by blast
  from map_of_SomeD [OF this] assms(2) have "fst y = h" by auto
  with y show ?thesis by (cases y) (simp add: recorded_with_def fold_update_map)
qed

lemma expected_after:
  assumes "distinct (map fst (fst rec))" "distinct (map fst (snd rec))"
    and "distinct (map fst (fst (recorded_with bs ls rec)))" "distinct (map fst (snd (recorded_with bs ls rec)))"
    and "(i, h) \<in> set (expected_present (recorded_with bs ls rec))"
  shows "(\<exists>b \<in> set bs. rb_row_id b = i \<and> rb_row_hash b = h) \<or> (i, h) \<in> set ls \<or>
     (i, h) \<in> set (expected_present rec)"
proof -
  let ?r = "recorded_with bs ls rec"
  note ep = expected_present_map [OF assms(1,2)] and ep' = expected_present_map [OF assms(3,4)]
  from assms(5) have get: "map_of (expected_present ?r) i = Some h" using ep'(1) by simp
  show ?thesis
  proof (cases "map_of (snd ?r) i")
    case (Some k)
    with get have "map_of (snd ?r) i = Some h" by (simp add: ep'(2))
    then have "map_of (snd rec) i = Some h \<or> (i, h) \<in> set ls"
      unfolding recorded_with_def snd_conv by (auto dest!: fold_update_hit)
    then show ?thesis using ep(2) [of i] by (auto dest: map_of_SomeD)
  next
    case None
    with get obtain p where p: "map_of (fst ?r) i = Some (h, p)" by (auto simp: ep'(2))
    from None have "map_of (snd rec) i = None" unfolding recorded_with_def snd_conv by (rule fold_update_none)
    moreover from p have "map_of (fst rec) i = Some (h, p) \<or> (\<exists>b \<in> set bs. rb_row_id b = i \<and> rb_row_hash b = h)"
      unfolding recorded_with_def fst_conv by (auto dest!: fold_update_hit)
    ultimately show ?thesis using ep(2) [of i] by (auto dest: map_of_SomeD)
  qed
qed

lemma breaks_metadata_kept:
  "labelled d (Some ''audit_log'') i (Some (breaks_metadata bs ls)) = Some (breaks_metadata bs ls)"
  by (rule labelled_plain) (simp_all add: named_target_types_def breaks_metadata_def dict_get_def)

text \<open>A walk without a tampered row, taken apart.\<close>

lemma untampered_walk:
  assumes "walk_chain E d = Inr w" "tampered_ids w = []"
  obtains rec st where "recorded_known_breaks (audit_rows d) = Inr rec"
    "walk_rows E (cutoff_id d) (anchor_id d) (fst rec) (by_id (audit_rows d))
       (start_state (anchor_hash d) (anchor_id d)) = Inr st"
    "missing_loop (w_present st) (purged_up_to d) (expected_present rec) [] = Inr []"
    "w_tampered st = []" "w_race st = race_breaks w"
  using assms(1)
proof (rule walk_chain_elim)
  fix rec st tampered
  assume *: "recorded_known_breaks (audit_rows d) = Inr rec"
    "walk_rows E (cutoff_id d) (anchor_id d) (fst rec) (by_id (audit_rows d))
       (start_state (anchor_hash d) (anchor_id d)) = Inr st"
    "missing_loop (w_present st) (purged_up_to d) (expected_present rec) (w_tampered st) = Inr tampered"
    "w = \<lparr>rows_checked = w_checked st, tampered_ids = sort tampered,
         race_breaks = w_race st, known_break_count = w_known st\<rparr>"
  from *(4) assms(2) have "tampered = []" by (metis length_0_conv length_sort walk.select_convs(2))
  with missing_loop_mono [OF *(3)] * that [of rec st] show thesis by simp
qed

text \<open>The table walked again, with its race breaks recorded.\<close>

lemma rewalk_recorded:
  assumes "walk_rows E c i (fst rec) (by_id (audit_rows d)) (start_state a i) = Inr st"
    and "w_tampered st = []" "w_race st = bs" "hex_digests E" "sorted_ids (audit_rows d)"
  shows "\<exists>st2. walk_rows E c i (fst (recorded_with bs ls rec)) (by_id (audit_rows d)) (start_state a i) = Inr st2 \<and>
           same_view st st2 \<and> w_tampered st2 = w_tampered (start_state a i) \<and>
           w_race st2 = w_race (start_state a i)"
proof (rule rewalk_rows [OF assms(1) _ assms(4), where R = bs])
  have rows: "by_id (audit_rows d) = audit_rows d" and dist: "distinct (map a_id (audit_rows d))"
    using assms(5) by (simp_all add: by_id_sorted) (simp add: sorted_ids_def)
  show "distinct (map a_id (by_id (audit_rows d)))" using dist by (simp add: rows)
  fix r assume r: "r \<in> set (by_id (audit_rows d))"
  show "map_of (fst (recorded_with bs ls rec)) (a_id r) = map_of (fst rec) (a_id r)"
    if "a_id r \<notin> rb_row_id ` set bs" using that by (rule recorded_with_other)
  show "\<exists>p. map_of (fst (recorded_with bs ls rec)) (a_id r) = Some (the (a_row_hash r), p)"
    if "a_id r \<in> rb_row_id ` set bs"
  proof (rule recorded_with_hit [OF that])
    fix b assume "b \<in> set bs" "rb_row_id b = a_id r"
    with race_rows [OF assms(1) _ assms(2), of b] assms(3) same_id_same_row [OF dist] r
    show "rb_row_hash b = the (a_row_hash r)" by (fastforce simp: rows)
  qed
qed (use assms in \<open>simp_all add: same_view_def\<close>)

lemma record_heals:
  assumes w: "walk_chain E d = Inr w" "tampered_ids w = []" "race_breaks w = bs"
    and env: "hex_digests E" "ascii_opt (anchor_hash d)" "sorted_ids (audit_rows d)"
    and leaves: "\<And>i h. (i, h) \<in> set ls \<Longrightarrow> \<exists>r \<in> set (audit_rows d). a_id r = i \<and> a_row_hash r = Some h"
    and d2: "d2 = record_audit_event E d d u known_breaks_action (Some ''audit_log'') None
                   (Some (breaks_metadata bs ls))"
  shows "\<exists>v d'. verify_chain E d2 = Inr (v, d') \<and> v_ok v"
proof -
  let ?e = "chain_new_entry E d (new_audit_entry E d d u known_breaks_action (Some ''audit_log'') None
              (Some (breaks_metadata bs ls)))"
    and ?start = "start_state (anchor_hash d) (anchor_id d)"
  obtain rec st where walk: "recorded_known_breaks (audit_rows d) = Inr rec"
    "walk_rows E (cutoff_id d) (anchor_id d) (fst rec) (by_id (audit_rows d)) ?start = Inr st"
    "missing_loop (w_present st) (purged_up_to d) (expected_present rec) [] = Inr []"
    "w_tampered st = []" "w_race st = bs"
    using untampered_walk [OF w(1,2)] w(3) by metis
  let ?rec = "recorded_with bs ls rec"
  have rows: "by_id (audit_rows d) = audit_rows d" and dist: "distinct (map a_id (audit_rows d))"
    using env(3) by (simp_all add: by_id_sorted) (simp add: sorted_ids_def)
  from rewalk_recorded [OF walk(2,4,5) env(1,3), of ls] obtain st2 where
    st2: "walk_rows E (cutoff_id d) (anchor_id d) (fst ?rec) (by_id (audit_rows d)) ?start = Inr st2"
    "w_present st2 = w_present st" "w_tampered st2 = []" "w_race st2 = []"
    by (auto simp: same_view_def)
  obtain st3 where st3: "walk_rows E (cutoff_id d) (anchor_id d) (fst ?rec) (by_id (audit_rows d @ [?e])) ?start = Inr st3"
    "w_tampered st3 = []" "w_race st3 = []" "w_present st3 = (w_present st)(a_id ?e := a_row_hash ?e)"
    using walk_appended [OF st2(1,3) env(3,1,2) refl] st2(2,4) by metis
  have rec2: "recorded_known_breaks (audit_rows d2) = Inr ?rec"
    using recorded_after [OF walk(1), of ?e bs ls] by (simp add: d2 record_rows breaks_metadata_kept)
  have fresh: "w_present st (tbl_max a_id (audit_rows d) + 1) = None"
    using walk_rows_facts(4) [OF walk(2)] new_id_fresh [of "audit_rows d"] by (simp add: rows)
  have "missing_loop (w_present st3) (purged_up_to d) (expected_present ?rec) [] = Inr []"
  proof (rule missing_loop_ok)
    fix i h assume ih: "(i, h) \<in> set (expected_present ?rec)" "purged_up_to d < i"
    have "(\<exists>r \<in> set (audit_rows d). a_id r = i \<and> a_row_hash r = Some h) \<or> (i, h) \<in> set (expected_present rec)"
      using expected_after [OF _ _ _ _ ih(1)] recorded_distinct [OF walk(1)] recorded_distinct [OF rec2]
        leaves race_rows [OF walk(2) _ walk(4)] walk(5) by (fastforce simp: rows)
    then have "w_present st i = Some h \<and> ascii h"
    proof
      assume "\<exists>r \<in> set (audit_rows d). a_id r = i \<and> a_row_hash r = Some h"
      then obtain r where r: "r \<in> set (audit_rows d)" "a_id r = i" "a_row_hash r = Some h" by blast
      with walk_rows_valid [OF walk(2), of r] walk(4) have "row_hash_ok E r" by (auto simp: rows)
      with row_hash_ok_ascii [OF env(1)] walk_rows_facts(5) [OF walk(2), of r] dist r show ?thesis
        by (force simp: rows)
    qed (use missing_loop_clean [OF walk(3) _ ih(2)] in blast)
    with fresh show "w_present st3 i = Some h \<and> ascii h" by (auto simp: st3(4))
  qed
  with verify_ok_intro [OF rec2, of E st3] st3 show ?thesis
    by (auto simp: d2 record_rows)
qed

lemma add_entry_content: "a_metadata r = a_metadata s \<Longrightarrow> add_entry r = add_entry s"
  by (simp add: add_entry_def fun_eq_iff)

lemma backfill_recorded:
  "add_entries (filter (\<lambda>r. a_action r = known_breaks_action) (backfill_loop E prev rs)) rec =
   add_entries (filter (\<lambda>r. a_action r = known_breaks_action) rs) rec"
proof (induction rs arbitrary: prev rec)
  case (Cons r rs)
  have "add_entry (r\<lparr>a_prev_hash := p, a_row_hash := h\<rparr>) = add_entry r" for p h
    by (rule add_entry_content) simp
  with Cons show ?case by (cases "add_entry r rec") (auto simp: Let_def)
qed simp

lemma verify_linear:
  assumes "verify_chain E d = Inr (v, d')" "recorded_known_breaks (audit_rows d) = Inr ([], [])"
  shows "v_ok v \<longleftrightarrow> linked_from E (anchor_hash d) (by_id (audit_rows d))"
proof
  assume "v_ok v"
  from assms(1) this show "linked_from E (anchor_hash d) (by_id (audit_rows d))"
  proof (rule verify_ok_elim)
    fix rec st
    assume *: "recorded_known_breaks (audit_rows d) = Inr rec"
      "walk_rows E (cutoff_id d) (anchor_id d) (fst rec) (by_id (audit_rows d))
         (start_state (anchor_hash d) (anchor_id d)) = Inr st" "w_tampered st = []" "w_race st = []"
    then have "fst rec = []" using assms(2) by auto
    with *(2-4) walk_clean_linear [of E "cutoff_id d" "anchor_id d" "by_id (audit_rows d)"] show ?thesis
      by fastforce
  qed
next
  assume linked: "linked_from E (anchor_hash d) (by_id (audit_rows d))"
  from verify_chain_walk [OF assms(1)] obtain w where w: "walk_chain E d = Inr w" by blast
  then have "tampered_ids w = [] \<and> race_breaks w = []"
    by (rule walk_chain_elim)
      (use linked assms(2) in \<open>auto simp: expected_present_def dest!: walk_linked_sound\<close>)
  with verify_chain_ok_iff [OF w] assms(1) show "v_ok v" by auto
qed

section \<open>Properties\<close>

text \<open>
  C4: Without recorded breaks, verification answers ok exactly when the log is one linear chain:
  every row's hash is the HMAC of its own fields and its stored predecessor hash, and that
  predecessor hash is the hash of the row before it (the purge anchor's for the first).
\<close>

theorem verify_ok_iff_linear_chain:
  assumes "verify_chain E d = Inr (v, d')" "recorded_known_breaks (audit_rows d) = Inr ([], [])"
  shows "v_ok v \<longleftrightarrow> linked_from E (anchor_hash d) (by_id (audit_rows d))"
  using assms by (rule verify_linear)

text \<open>
  C5: Tampering is detected: take a log that verifies, and any other content of the table (rows altered,
  inserted, dropped or reordered) under the same purge anchor and with the same newest hash, both
  without recorded known breaks and with rows sorted by id. If what the rows record differs, the other
  content does not verify, unless a row of it and a row of the log are a collision of the HMAC. What the
  rows record is every hashed field, the metadata up to the order of its keys; the ids are not hashed,
  so rows renumbered in order are the same entries. The hash of the anchor is taken to be that of no row.
\<close>

theorem altered_log_does_not_verify:
  assumes "verify_chain E d = Inr (v, d')" "v_ok v" "verify_chain E e = Inr (w, e')"
    and "recorded_known_breaks (audit_rows d) = Inr ([], [])"
    and "recorded_known_breaks (audit_rows e) = Inr ([], [])"
    and "sorted_ids (audit_rows d)" "sorted_ids (audit_rows e)"
    and "chain_state e = chain_state d" "current_chain_tip e = current_chain_tip d"
    and "anchor_hash d \<notin> a_row_hash ` (set (audit_rows d) \<union> set (audit_rows e))"
    and "map content (audit_rows e) \<noteq> map content (audit_rows d)"
  shows "\<not> v_ok w \<or> (\<exists>r \<in> set (audit_rows e). \<exists>s \<in> set (audit_rows d). collide E r s)"
proof (rule ccontr)
  assume neg: "\<not> (\<not> v_ok w \<or> (\<exists>r \<in> set (audit_rows e). \<exists>s \<in> set (audit_rows d). collide E r s))"
  have anchor: "anchor_hash e = anchor_hash d" using assms(8) by (simp add: anchor_hash_def)
  have linear: "linked_from E (anchor_hash x) (audit_rows x)"
    if "verify_chain E x = Inr (y, x')" "v_ok y" "recorded_known_breaks (audit_rows x) = Inr ([], [])"
      "sorted_ids (audit_rows x)" for x y x'
    using that(1,2)
  proof (rule verify_ok_elim)
    fix rec st
    assume "recorded_known_breaks (audit_rows x) = Inr rec"
      "walk_rows E (cutoff_id x) (anchor_id x) (fst rec) (by_id (audit_rows x))
         (start_state (anchor_hash x) (anchor_id x)) = Inr st" "w_tampered st = []" "w_race st = []"
    with that(3,4) walk_clean_linear [of E "cutoff_id x" "anchor_id x" "audit_rows x"] show ?thesis
      by (fastforce simp: by_id_sorted)
  qed
  have "linked_from E (anchor_hash d) (audit_rows e)" "linked_from E (anchor_hash d) (audit_rows d)"
    using linear [of e w e'] linear [of d v d'] assms neg anchor by auto
  moreover from this have "tip_from (anchor_hash d) (audit_rows e) = tip_from (anchor_hash d) (audit_rows d)"
    using tip_linear [of e E] tip_linear [of d E] assms(6,7,9) anchor by simp
  ultimately have "map content (audit_rows e) = map content (audit_rows d)"
    using neg assms(10) by (intro chains_agree) auto
  with assms(11) show False by simp
qed

text \<open>
  A row whose stored hash is not the HMAC of its own content makes verification report the log
  as broken, no later than that row, whatever breaks have been recorded as known.
\<close>

theorem edited_row_is_reported_broken:
  assumes "verify_chain E d = Inr (v, d')" "r \<in> set (audit_rows d)" "\<not> row_hash_ok E r"
  shows "\<not> v_ok v \<and> (\<exists>b \<le> a_id r. v_broken_row_id v = Some b) \<and>
     map_option cs_status (chain_state d') = Some ''broken''"
proof -
  from verify_chain_walk [OF assms(1)] obtain w where w: "walk_chain E d = Inr w" by blast
  then have mem: "a_id r \<in> set (tampered_ids w)"
  proof (rule walk_chain_elim)
    fix rec st tampered
    assume *: "walk_rows E (cutoff_id d) (anchor_id d) (fst rec) (by_id (audit_rows d))
         (start_state (anchor_hash d) (anchor_id d)) = Inr st"
      "missing_loop (w_present st) (purged_up_to d) (expected_present rec) (w_tampered st) = Inr tampered"
      "w = \<lparr>rows_checked = w_checked st, tampered_ids = sort tampered,
           race_breaks = w_race st, known_break_count = w_known st\<rparr>"
    have "a_id r \<in> set (w_tampered st)"
      by (rule walk_rows_valid [OF *(1) _ assms(3)]) (use assms(2) in \<open>simp add: by_id_def\<close>)
    with missing_loop_mono [OF *(2)] *(3) show ?thesis by auto
  qed
  have "sorted (tampered_ids w)"
    using w by (rule walk_chain_elim) simp
  with mem have "hd (tampered_ids w) \<le> a_id r" by (cases "tampered_ids w") auto
  with mem w assms(1) show ?thesis
    by (auto simp: verify_chain_def Let_def walk_status_def split: if_splits)
qed

text \<open>
  Writing an audit entry keeps the log verified: after it verification still answers ok, over one
  row more. The entry itself may be about anything and carry any metadata.
\<close>

theorem append_keeps_log_verified:
  assumes "verify_chain E d = Inr (v, d')" "v_ok v" "sorted_ids (audit_rows d)"
    and "hex_digests E" "ascii_opt (anchor_hash d)" "action \<noteq> known_breaks_action"
  shows "\<exists>v' d''. verify_chain E (record_audit_event E seen d user action target_type target_id metadata) = Inr (v', d'') \<and>
           v_ok v' \<and> v_checked_count v' = v_checked_count v + 1"
  using verify_after_append [OF assms] .

text \<open>
  Recording known breaks heals a forked log and only that: when every break is a race break,
  the log verifies after the recording.
\<close>

theorem record_known_breaks_heals:
  assumes "walk_chain E d = Inr w" "tampered_ids w = []" "race_breaks w \<noteq> []"
    and "hex_digests E" "ascii_opt (anchor_hash d)" "sorted_ids (audit_rows d)"
  shows "\<exists>v d'. record_known_breaks E d user = Inr (v, d') \<and> v_ok v"
proof -
  let ?s = "get_or_create_state d" and ?d1 = "d\<lparr>chain_state := Some (get_or_create_state d)\<rparr>"
  let ?up = "case cs_known_break_cutoff_row_id ?s of None \<Rightarrow> 0 | Some c \<Rightarrow> c"
  let ?ls = "leaf_rows ?d1 ?up (map rb_row_id (race_breaks w))"
  let ?d2 = "record_audit_event E ?d1 ?d1 user known_breaks_action (Some ''audit_log'') None
               (Some (breaks_metadata (race_breaks w) ?ls))"
  let ?d3 = "?d2\<lparr>chain_state := Some (?s\<lparr>cs_known_breaks_recorded_at := Some (e_now E)\<rparr>)\<rparr>"
  have w1: "walk_chain E ?d1 = Inr w"
    unfolding assms(1) [symmetric]
    by (rule walk_chain_cong) (auto simp: state_defs get_or_create_state_def new_chain_state_def split: option.splits)
  have anchor: "anchor_hash ?d1 = anchor_hash d"
    by (auto simp: anchor_hash_def get_or_create_state_def new_chain_state_def split: option.splits)
  have "\<exists>v d'. verify_chain E ?d2 = Inr (v, d') \<and> v_ok v"
    by (rule record_heals [OF w1 assms(2) refl assms(4)])
      (use assms(5,6) leaf_rows_mem [of _ _ ?d1 ?up] anchor in \<open>auto simp: by_id_def\<close>)
  then obtain v d2' where v: "verify_chain E ?d2 = Inr (v, d2')" "v_ok v" by blast
  from verify_chain_walk [OF v(1)] obtain w2 where w2: "walk_chain E ?d2 = Inr w2" by blast
  moreover have "walk_chain E ?d3 = walk_chain E ?d2"
    by (rule walk_chain_cong) (simp_all add: state_defs record_audit_event_def)
  ultimately obtain v3 d3' where v3: "verify_chain E ?d3 = Inr (v3, d3')" "v_ok v3"
    using verify_chain_ok_iff [OF w2] verify_chain_ok_iff [of E ?d3 w2] v by auto
  with w1 assms(3) show ?thesis
    by (simp add: record_known_breaks_def Let_def lift_walk_def)
qed

text \<open>
  Backfilling a log written before the chain existed makes it verify, and running it again
  changes nothing.
\<close>

theorem backfill_makes_log_verify:
  assumes "sorted_ids (audit_rows d)" "list_all (\<lambda>r. a_row_hash r = None) (audit_rows d)"
    and "recorded_known_breaks (audit_rows d) = Inr ([], [])"
    and "hex_digests E" "ascii_opt (anchor_hash d)"
    and "d' = snd (backfill_chain_if_needed E d)"
  shows "backfill_chain_if_needed E d' = (0, d') \<and>
    (\<exists>v d''. verify_chain E d' = Inr (v, d'') \<and> v_ok v \<and> v_checked_count v = length (audit_rows d))"
proof -
  let ?rows = "backfill_loop E (current_chain_tip d) (audit_rows d)"
  have d': "d' = d\<lparr>audit_rows := ?rows\<rparr>" using assms(6) backfill_all [OF assms(1,2)] by simp
  have anchor: "current_chain_tip d = anchor_hash d"
    using assms(1,2) by (auto simp: current_chain_tip_def Let_def by_id_sorted list_all_iff)
  have linked: "linked_from E (anchor_hash d) ?rows" by (simp add: anchor backfill_linked)
  have ids: "map a_id ?rows = map a_id (audit_rows d)" by simp
  then have sorted: "sorted_ids ?rows" using assms(1) by (simp only: sorted_ids_def)
  have "list_all (\<lambda>r. a_row_hash r \<noteq> None) ?rows"
    using linked_hashed [OF linked] by (auto simp: list_all_iff dest: row_hash_ok_simp)
  then have "backfill_chain_if_needed E d' = (0, d')" by (simp add: backfill_hashed d')
  moreover have rec: "recorded_known_breaks (audit_rows d') = Inr ([], [])"
    using assms(3) by (simp add: d' recorded_known_breaks_def backfill_recorded)
  moreover obtain st where "walk_rows E (cutoff_id d') (anchor_id d') [] (by_id (audit_rows d'))
      (start_state (anchor_hash d') (anchor_id d')) = Inr st" "w_tampered st = []" "w_race st = []"
    using walk_linear [of E "start_state (anchor_hash d') (anchor_id d')" "by_id (audit_rows d')"
        "cutoff_id d'" "anchor_id d'" "[]"]
      linked sorted assms(4,5) by (auto simp: d' by_id_sorted anchor_hash_def)
  with verify_ok_intro [OF rec, of E st] have "\<exists>v d''. verify_chain E d' = Inr (v, d'') \<and> v_ok v \<and>
      v_checked_count v = length (audit_rows d')" by (simp add: expected_present_def)
  moreover have "length (audit_rows d') = length (audit_rows d)" using map_eq_imp_length_eq [OF ids] by (simp add: d')
  ultimately show ?thesis by simp
qed

text \<open>
  One stored hash with a character outside ASCII stops verification with an exception: nothing is
  reported, and the status of the last check stays as it was.
\<close>

theorem non_ascii_hash_raises:
  assumes "r \<in> set (audit_rows d)" "a_row_hash r = Some h" "\<not> ascii h"
  shows "\<exists>e. verify_chain E d = Inl e"
proof -
  have row: "\<exists>e. walk_row E c i bs r st = Inl e" for c i bs st
    using assms(2,3) by (simp add: walk_row_def hashes_match_def)
  have "\<exists>e. walk_rows E c i bs rows st = Inl e" if "r \<in> set rows" for c i bs rows st
    using that
  proof (induction rows arbitrary: st)
    case (Cons x rows)
    then show ?case using row [of c i bs st] by (cases "walk_row E c i bs x st") auto
  qed simp
  moreover have "r \<in> set (by_id (audit_rows d))" using assms(1) by (simp add: by_id_def)
  ultimately have "\<nexists>w. walk_chain E d = Inr w" by (metis Inl_Inr_False walk_chain_elim)
  then have "verify_chain E d \<noteq> Inr x" for x
    using verify_chain_walk [of E d "fst x" "snd x"] by auto
  then show ?thesis by (cases "verify_chain E d") auto
qed

section \<open>Witnesses\<close>

text \<open>A concrete environment and log: the digest is the length of the text, in decimal.\<close>

definition length_env :: env where
  "length_env = \<lparr>e_hmac = (\<lambda>key text. show_nat (length (key @ text))), e_chain_key = ''k'', e_now = 0\<rparr>"

definition log_row :: "int \<Rightarrow> string \<Rightarrow> (string \<times> json) list option \<Rightarrow> string option \<Rightarrow> string option \<Rightarrow> audit_log" where
  "log_row i action metadata prev hash =
     \<lparr>a_id = i, a_user_id = Some 1, a_action = action, a_target_type = None, a_target_id = None,
      a_timestamp = 0, a_metadata = metadata, a_prev_hash = prev, a_row_hash = hash\<rparr>"

definition log_of :: "audit_log list \<Rightarrow> db" where
  "log_of rows =
     empty_db\<lparr>audit_rows := rows, chain_state := Some (new_chain_state\<lparr>cs_known_break_cutoff_row_id := Some 3\<rparr>)\<rparr>"

text \<open>Two chained rows, the same with the first one edited, and with a third that forks from the first.\<close>

definition two_rows :: "audit_log list" where
  "two_rows =
     [log_row 1 ''auth.login'' None None (Some ''139''),
      log_row 2 ''source.update'' (Some [(''name'', JStr ''srv'')]) (Some ''139'') (Some ''153'')]"

definition edited_rows :: "audit_log list" where
  "edited_rows =
     [log_row 1 ''auth.logout'' None None (Some ''139''),
      log_row 2 ''source.update'' (Some [(''name'', JStr ''srv'')]) (Some ''139'') (Some ''153'')]"

definition forked_rows :: "audit_log list" where
  "forked_rows =
     [log_row 1 ''auth.login'' None None (Some ''139''),
      log_row 2 ''source.update'' (Some [(''name'', JStr ''srv'')]) (Some ''139'') (Some ''153''),
      log_row 3 ''auth.logout'' None (Some ''139'') (Some ''141'')]"

definition legacy_rows :: "audit_log list" where
  "legacy_rows = [log_row 1 ''auth.login'' None None None, log_row 2 ''auth.logout'' None None None]"

lemma length_env_hex: "hex_digests length_env"
proof -
  have "ascii (show_nat n)" for n
    using show_nat_digits [of _ n] unfolding ascii_def list_all_iff is_digit_def by fastforce
  then show ?thesis by (simp add: hex_digests_def length_env_def)
qed

lemma Inr_pair: "\<not> isl x \<Longrightarrow> x = Inr (fst (projr x), snd (projr x))"
  by (cases x) auto

theorem verify_ok_iff_linear_chain_witness:
  "v_ok (fst (projr (verify_chain length_env (log_of two_rows)))) \<longleftrightarrow>
     linked_from length_env (anchor_hash (log_of two_rows)) (by_id (audit_rows (log_of two_rows)))"
  by (rule verify_ok_iff_linear_chain [OF Inr_pair]) code_simp+

theorem altered_log_does_not_verify_witness:
  "v_ok (fst (projr (verify_chain length_env (log_of edited_rows)))) = False \<or>
     (\<exists>r \<in> set (audit_rows (log_of edited_rows)). \<exists>s \<in> set (audit_rows (log_of two_rows)). collide length_env r s)"
proof -
  have "\<not> v_ok (fst (projr (verify_chain length_env (log_of edited_rows)))) \<or>
     (\<exists>r \<in> set (audit_rows (log_of edited_rows)). \<exists>s \<in> set (audit_rows (log_of two_rows)). collide length_env r s)"
    by (rule altered_log_does_not_verify [OF Inr_pair _ Inr_pair]) code_simp+
  then show ?thesis by (simp only: simp_thms)
qed

theorem edited_row_is_reported_broken_witness:
  "\<not> v_ok (fst (projr (verify_chain length_env (log_of edited_rows)))) \<and>
     (\<exists>b \<le> a_id (hd edited_rows). v_broken_row_id (fst (projr (verify_chain length_env (log_of edited_rows)))) = Some b) \<and>
     map_option cs_status (chain_state (snd (projr (verify_chain length_env (log_of edited_rows))))) = Some ''broken''"
proof (rule edited_row_is_reported_broken [OF Inr_pair])
  show "hd edited_rows \<in> set (audit_rows (log_of edited_rows))" by (simp add: edited_rows_def log_of_def)
qed code_simp+

theorem append_keeps_log_verified_witness:
  "\<exists>v' d''. verify_chain length_env (record_audit_event length_env empty_db (log_of two_rows) (Some 2) ''role.create''
      (Some ''role'') (Some 5) None) = Inr (v', d'') \<and> v_ok v' \<and>
      v_checked_count v' = v_checked_count (fst (projr (verify_chain length_env (log_of two_rows)))) + 1"
proof (rule append_keeps_log_verified [OF Inr_pair])
  show "hex_digests length_env" by (rule length_env_hex)
qed code_simp+

theorem record_known_breaks_heals_witness:
  "\<exists>v d'. record_known_breaks length_env (log_of forked_rows) (Some 1) = Inr (v, d') \<and> v_ok v"
proof (rule record_known_breaks_heals)
  show "walk_chain length_env (log_of forked_rows) = Inr
     \<lparr>rows_checked = [1, 2, 3], tampered_ids = [],
      race_breaks = [\<lparr>rb_row_id = 3, rb_row_hash = ''141'', rb_parent_id = Some 1\<rparr>], known_break_count = 0\<rparr>"
    by code_simp
  show "hex_digests length_env" by (rule length_env_hex)
qed code_simp+

theorem backfill_makes_log_verify_witness:
  "backfill_chain_if_needed length_env (snd (backfill_chain_if_needed length_env (log_of legacy_rows))) =
     (0, snd (backfill_chain_if_needed length_env (log_of legacy_rows))) \<and>
   (\<exists>v d''. verify_chain length_env (snd (backfill_chain_if_needed length_env (log_of legacy_rows))) = Inr (v, d'') \<and>
      v_ok v \<and> v_checked_count v = length (audit_rows (log_of legacy_rows)))"
proof (rule backfill_makes_log_verify)
  show "hex_digests length_env" by (rule length_env_hex)
qed (code_simp, code_simp, code_simp, code_simp, rule refl)

theorem non_ascii_hash_raises_witness:
  "\<exists>e. verify_chain length_env (log_of [log_row 1 ''auth.login'' None None (Some [CHR 0xE9])]) = Inl e"
proof (rule non_ascii_hash_raises)
  show "log_row 1 ''auth.login'' None None (Some [CHR 0xE9]) \<in> set (audit_rows (log_of [log_row 1 ''auth.login'' None None (Some [CHR 0xE9])]))"
    by (simp add: log_of_def)
qed code_simp+

end
