(* ===== verification/Settings.thy ===== *)
theory Settings
  imports Models "HOL-Library.AList"
begin

text \<open>
  \<open>app/system_settings.py\<close>: the key-value settings with their defaults in code. A setting is a
  row of the \<open>settings\<close> table (key, value); a missing row means the default. \<open>py_int\<close> is Python's
  \<open>int(str)\<close>, with \<open>None\<close> for its \<open>ValueError\<close>.
\<close>

section \<open>Reading an integer\<close>

fun grouped_digits :: "string \<Rightarrow> bool" where
  "grouped_digits [] = False"
| "grouped_digits [c] = is_digit c"
| "grouped_digits (c # d # s) =
     (is_digit c \<and> (if d = CHR ''_'' then grouped_digits s else grouped_digits (d # s)))"

definition py_int :: "string \<Rightarrow> int option" where
  "py_int raw =
     (let s = strip raw;
          neg = (s \<noteq> [] \<and> hd s = CHR ''-'');
          body = (if s \<noteq> [] \<and> (hd s = CHR ''-'' \<or> hd s = CHR ''+'') then tl s else s)
      in if grouped_digits body
         then Some (let n = int (read_nat (filter is_digit body)) in if neg then - n else n)
         else None)"

section \<open>Defaults\<close>

definition bool_defaults :: "(string \<times> string) list" where
  "bool_defaults =
     [(''search_view_enabled'', ''true''), (''audit_view_enabled'', ''true''),
      (''connections_view_switchable'', ''true'')]"

definition choice_defaults :: "(string \<times> string \<times> string list) list" where
  "choice_defaults = [(''connections_view_default'', ''list'', [''list'', ''tree''])]"

definition int_defaults :: "(string \<times> string) list" where
  "int_defaults = [(''audit_retention_days'', ''365''), (''source_max_roots'', ''20'')]"

section \<open>Getters and setters\<close>

text \<open>A \<open>KeyError\<close> for an unknown key, a \<open>ValueError\<close> for a value that cannot be read or stored.\<close>

datatype setting_error = KeyError | ValueError

definition stored_or :: "(string \<times> string) list \<Rightarrow> db \<Rightarrow> string \<Rightarrow> setting_error + string" where
  "stored_or defaults d key =
     (case map_of (settings d) key of Some v \<Rightarrow> Inr v | None \<Rightarrow> someE KeyError (map_of defaults key))"

definition put_setting :: "string \<Rightarrow> string \<Rightarrow> db \<Rightarrow> db" where
  "put_setting key v d = d\<lparr>settings := AList.update key v (settings d)\<rparr>"

definition get_bool :: "db \<Rightarrow> string \<Rightarrow> setting_error + bool" where
  "get_bool d key = bindE (stored_or bool_defaults d key) (\<lambda>raw. Inr (raw = ''true''))"

definition set_bool :: "db \<Rightarrow> string \<Rightarrow> bool \<Rightarrow> setting_error + db" where
  "set_bool d key b =
     bindE (requireE (map_of bool_defaults key \<noteq> None) KeyError) (\<lambda>_.
     Inr (put_setting key (if b then ''true'' else ''false'') d))"

definition get_int :: "db \<Rightarrow> string \<Rightarrow> setting_error + int" where
  "get_int d key = bindE (stored_or int_defaults d key) (\<lambda>raw. someE ValueError (py_int raw))"

definition set_int :: "db \<Rightarrow> string \<Rightarrow> int \<Rightarrow> setting_error + db" where
  "set_int d key i =
     bindE (requireE (map_of int_defaults key \<noteq> None) KeyError) (\<lambda>_.
     Inr (put_setting key (show_int i) d))"

definition get_choice :: "db \<Rightarrow> string \<Rightarrow> setting_error + string" where
  "get_choice d key =
     bindE (someE KeyError (map_of choice_defaults key)) (\<lambda>(dflt, allowed).
     let v = (case map_of (settings d) key of Some v \<Rightarrow> v | None \<Rightarrow> dflt)
     in Inr (if v \<in> set allowed then v else dflt))"

definition set_choice :: "db \<Rightarrow> string \<Rightarrow> string \<Rightarrow> setting_error + db" where
  "set_choice d key v =
     bindE (someE KeyError (map_of choice_defaults key)) (\<lambda>(dflt, allowed).
     bindE (requireE (v \<in> set allowed) ValueError) (\<lambda>_.
     Inr (put_setting key v d)))"

section \<open>Facts\<close>

lemma put_setting_get [simp]:
  "map_of (settings (put_setting key v d)) k = (if k = key then Some v else map_of (settings d) k)"
  by (simp add: put_setting_def update_conv')

lemma digits_grouped: "s \<noteq> [] \<Longrightarrow> \<forall>c \<in> set s. is_digit c \<Longrightarrow> grouped_digits s"
proof (induction s rule: grouped_digits.induct)
  case (3 c d s)
  then have "d \<noteq> CHR ''_''" by (auto simp: is_digit_def)
  with 3 show ?case by simp
qed auto

lemma digit_not_space: "is_digit c \<Longrightarrow> \<not> is_space c \<and> c \<noteq> CHR ''-'' \<and> c \<noteq> CHR ''+''"
  by (auto simp: is_digit_def is_space_def)

lemma strip_id: "s \<noteq> [] \<Longrightarrow> \<not> is_space (hd s) \<Longrightarrow> \<not> is_space (last s) \<Longrightarrow> strip s = s"
proof -
  assume s: "s \<noteq> []" "\<not> is_space (hd s)" "\<not> is_space (last s)"
  from s(1,3) have "rstrip s = s" by (cases s rule: rev_cases) (auto simp: rstrip_def)
  moreover from s(1,2) have "lstrip s = s" by (cases s) (auto simp: lstrip_def)
  ultimately show "strip s = s" by (simp add: strip_def)
qed

lemma show_nat_read:
  "grouped_digits (show_nat n)" "filter is_digit (show_nat n) = show_nat n"
  using show_nat_digits [of _ n] show_nat_not_Nil [of n]
  by (auto intro!: digits_grouped simp: filter_id_conv)

lemma py_int_show: "py_int (show_int i) = Some i"
proof -
  have digit: "is_digit (hd (show_nat n))" "is_digit (last (show_nat n))" for n
    using show_nat_digits [of _ n] show_nat_not_Nil [of n] by auto
  have "strip (show_int i) = show_int i"
    using digit show_nat_not_Nil digit_not_space
    by (intro strip_id) (auto simp: show_int_def is_space_def)
  with digit [of "nat i"] digit_not_space [of "hd (show_nat (nat i))"] show_nat_not_Nil [of "nat i"]
  show ?thesis
    by (auto simp: py_int_def Let_def show_int_def show_nat_read read_show_nat)
qed

lemma get_set_int:
  "set_int d key i = Inr d' \<Longrightarrow> get_int d' key = Inr i"
  by (auto simp: set_int_def get_int_def stored_or_def bindE_Inr_iff py_int_show)

end
