(* ===== verification/AuditPurge.thy ===== *)
theory AuditPurge
  imports AuditIntegrity Settings
begin

text \<open>
  \<open>app/audit_purge.py\<close>: the retention sweep over the audit log. It removes a prefix of the rows by
  id and moves the chain's anchor to the newest row removed.
\<close>

section \<open>The sweep\<close>

definition day_us :: int where
  "day_us = 86400000000"

text \<open>\<open>datetime.min\<close>: going below it raises \<open>OverflowError\<close>.\<close>

definition min_datetime :: int where
  "min_datetime = -62135596800000000"

datatype sweep_error = SettingError setting_error | OverflowError

definition lift_setting :: "setting_error + 'a \<Rightarrow> sweep_error + 'a" where
  "lift_setting m = (case m of Inl e \<Rightarrow> Inl (SettingError e) | Inr x \<Rightarrow> Inr x)"

text \<open>\<open>SELECT min(id) WHERE timestamp >= cutoff\<close>.\<close>

definition first_not_old_id :: "int \<Rightarrow> audit_log list \<Rightarrow> int option" where
  "first_not_old_id cutoff rows =
     (case map a_id (filter (\<lambda>r. cutoff \<le> a_timestamp r) rows) of
        [] \<Rightarrow> None
      | i # is \<Rightarrow> Some (fold min is i))"

definition in_prefix :: "int option \<Rightarrow> audit_log \<Rightarrow> bool" where
  "in_prefix first r = (case first of None \<Rightarrow> True | Some i \<Rightarrow> a_id r < i)"

definition run_audit_purge_sweep :: "env \<Rightarrow> db \<Rightarrow> sweep_error + db" where
  "run_audit_purge_sweep E d =
     bindE (lift_setting (get_int d ''audit_retention_days'')) (\<lambda>retention_days.
     if retention_days \<le> 0 then Inr d
     else
       let cutoff = e_now E - retention_days * day_us in
       bindE (requireE (min_datetime \<le> cutoff) OverflowError) (\<lambda>_.
         let first = first_not_old_id cutoff (audit_rows d);
             purged = by_id (filter (in_prefix first) (audit_rows d));
             d1 = (if purged = [] then d
                   else d\<lparr>chain_state := Some ((get_or_create_state d)
                          \<lparr>cs_anchor_row_id := Some (a_id (last purged)),
                           cs_anchor_hash := a_row_hash (last purged)\<rparr>)\<rparr>)
         in Inr (d1\<lparr>audit_rows := filter (\<lambda>r. \<not> in_prefix first r) (audit_rows d)\<rparr>)))"

section \<open>Facts\<close>

lemma fold_min_le: "fold min is (i::int) \<le> i \<and> (\<forall>j \<in> set is. fold min is i \<le> j)"
proof (induction "is" arbitrary: i)
  case (Cons x xs)
  from Cons [of "min x i"] show ?case by auto
qed simp

lemma first_not_old_le:
  assumes "first_not_old_id cutoff rows = f" "r \<in> set rows" "in_prefix f r"
  shows "a_timestamp r < cutoff"
proof (rule ccontr)
  assume "\<not> a_timestamp r < cutoff"
  with assms(2) have mem: "a_id r \<in> set (map a_id (filter (\<lambda>r. cutoff \<le> a_timestamp r) rows))" by auto
  show False
  proof (cases "map a_id (filter (\<lambda>r. cutoff \<le> a_timestamp r) rows)")
    case (Cons i "is")
    with mem fold_min_le [of "is" i] assms(1,3) show False
      by (auto simp: first_not_old_id_def in_prefix_def)
  qed (use mem in simp)
qed

lemma filter_prefix_sorted:
  "sorted (map a_id rows) \<Longrightarrow> \<exists>k. filter (in_prefix f) rows = take k rows \<and>
     filter (\<lambda>r. \<not> in_prefix f r) rows = drop k rows"
proof (induction rows)
  case (Cons r rows)
  show ?case
  proof (cases "in_prefix f r")
    case True
    from Cons obtain k where "filter (in_prefix f) rows = take k rows"
      "filter (\<lambda>r. \<not> in_prefix f r) rows = drop k rows" by auto
    with True show ?thesis by (intro exI [of _ "Suc k"]) simp
  next
    case False
    then have "\<not> in_prefix f s" if "s \<in> set rows" for s
      using that Cons.prems by (fastforce simp: in_prefix_def split: option.splits)
    with False show ?thesis by (intro exI [of _ 0]) simp
  qed
qed simp

lemma get_or_create_anchor:
  "anchor_hash d = cs_anchor_hash (get_or_create_state d)"
  by (simp add: anchor_hash_def get_or_create_state_def new_chain_state_def split: option.splits)

text \<open>What a successful sweep leaves: the log without a prefix, anchored at the prefix's last row.\<close>

lemma sweep_drop:
  assumes "run_audit_purge_sweep E d = Inr d'" "sorted_ids (audit_rows d)"
  obtains k where "audit_rows d' = drop k (audit_rows d)"
    "anchor_hash d' = tip_from (anchor_hash d) (take k (audit_rows d))"
    "\<forall>r \<in> set (take k (audit_rows d)). \<exists>days. get_int d ''audit_retention_days'' = Inr days \<and> 0 < days \<and>
       a_timestamp r < e_now E - days * day_us"
proof -
  from assms(1) obtain days where days: "get_int d ''audit_retention_days'' = Inr days"
    by (auto simp: run_audit_purge_sweep_def lift_setting_def bindE_Inr_iff split: sum.splits)
  show ?thesis
  proof (cases "days \<le> 0")
    case True
    with days assms(1) that [of 0] show ?thesis
      by (simp add: run_audit_purge_sweep_def lift_setting_def)
  next
    case False
    define f where "f = first_not_old_id (e_now E - days * day_us) (audit_rows d)"
    obtain k where k: "filter (in_prefix f) (audit_rows d) = take k (audit_rows d)"
      "filter (\<lambda>r. \<not> in_prefix f r) (audit_rows d) = drop k (audit_rows d)"
      using filter_prefix_sorted assms(2) by (auto simp: sorted_ids_def)
    have "sorted_ids (take k (audit_rows d))"
      using assms(2) by (auto simp: sorted_ids_def take_map [symmetric] sorted_wrt_take distinct_take)
    then have sorted: "by_id (take k (audit_rows d)) = take k (audit_rows d)" by (rule by_id_sorted)
    have "\<forall>r \<in> set (take k (audit_rows d)). a_timestamp r < e_now E - days * day_us"
      unfolding k(1) [symmetric] by (auto intro: first_not_old_le [OF f_def [symmetric]])
    moreover have "audit_rows d' = drop k (audit_rows d) \<and>
        anchor_hash d' = tip_from (anchor_hash d) (take k (audit_rows d))"
      using assms(1) days False k sorted
      by (auto simp: run_audit_purge_sweep_def lift_setting_def bindE_Inr_iff Let_def f_def [symmetric]
          tip_from_last anchor_hash_def)
    ultimately show ?thesis using that [of k] days False by auto
  qed
qed

lemma update_not_Nil [simp]: "AList.update k v al \<noteq> []"
  by (cases al) auto

lemma add_entries_empty: "add_entries rs rec = Inr ([], []) \<Longrightarrow> rec = ([], [])"
proof (induction rs arbitrary: rec)
  case (Cons r rs)
  have b: "fold add_break xs al = [] \<Longrightarrow> al = []" for xs al
    by (induction xs arbitrary: al) (force simp: add_break_def split: option.splits)+
  have l: "fold add_leaf xs al = [] \<Longrightarrow> al = []" for xs al
    by (induction xs arbitrary: al) (force simp: add_leaf_def split: option.splits)+
  from Cons have "add_entry r rec = Inr ([], [])" by (auto simp: bindE_Inr_iff)
  then show ?case
    by (cases rec) (auto simp: add_entry_def bindE_Inr_iff dest: b l split: option.splits)
qed simp

lemma recorded_suffix:
  "recorded_known_breaks (xs @ ys) = Inr ([], []) \<Longrightarrow> recorded_known_breaks ys = Inr ([], [])"
  unfolding recorded_known_breaks_def filter_append add_entries_append bindE_Inr_iff
  using add_entries_empty by blast

lemma linear_verifies:
  assumes "linked_from E (anchor_hash d) (audit_rows d)" "sorted_ids (audit_rows d)"
    and "recorded_known_breaks (audit_rows d) = Inr ([], [])" "hex_digests E" "ascii_opt (anchor_hash d)"
  shows "\<exists>v d'. verify_chain E d = Inr (v, d') \<and> v_ok v \<and> v_checked_count v = length (audit_rows d)"
proof -
  obtain st where "walk_rows E (cutoff_id d) (anchor_id d) [] (by_id (audit_rows d))
      (start_state (anchor_hash d) (anchor_id d)) = Inr st" "w_tampered st = []" "w_race st = []"
    using walk_linear [of E "start_state (anchor_hash d) (anchor_id d)" "by_id (audit_rows d)"
        "cutoff_id d" "anchor_id d" "[]"] assms by (auto simp: by_id_sorted)
  with verify_ok_intro [OF assms(3), of E st] show ?thesis by (simp add: expected_present_def)
qed

section \<open>Properties\<close>

text \<open>
  The sweep deletes an audit entry only when retention is on and the entry is older than the
  retention window; with retention 0 the log is left as it is.
\<close>

theorem purge_deletes_only_expired:
  assumes "run_audit_purge_sweep E d = Inr d'" "sorted_ids (audit_rows d)"
    and "r \<in> set (audit_rows d)" "r \<notin> set (audit_rows d')"
  shows "\<exists>days. get_int d ''audit_retention_days'' = Inr days \<and> 0 < days \<and>
     a_timestamp r < e_now E - days * day_us"
  using assms(1,2)
proof (rule sweep_drop)
  fix k
  assume k: "audit_rows d' = drop k (audit_rows d)"
    "\<forall>r \<in> set (take k (audit_rows d)). \<exists>days. get_int d ''audit_retention_days'' = Inr days \<and> 0 < days \<and>
       a_timestamp r < e_now E - days * day_us"
  have "r \<in> set (take k (audit_rows d) @ drop k (audit_rows d))" using assms(3) by simp
  then have "r \<in> set (take k (audit_rows d))" using assms(4) k(1) unfolding set_append by simp
  with k(2) show ?thesis by blast
qed

text \<open>
  C15: Purging does not look like tampering: a log without recorded known breaks that verifies still
  verifies after a sweep, over exactly the rows that are left.
\<close>

theorem purge_keeps_log_verified:
  assumes "verify_chain E d = Inr (v, d1)" "v_ok v" "run_audit_purge_sweep E d = Inr d'"
    and "recorded_known_breaks (audit_rows d) = Inr ([], [])" "sorted_ids (audit_rows d)"
    and "hex_digests E" "ascii_opt (anchor_hash d)"
  shows "\<exists>w d''. verify_chain E d' = Inr (w, d'') \<and> v_ok w \<and> v_checked_count w = length (audit_rows d')"
  using assms(3,5)
proof (rule sweep_drop)
  fix k
  let ?pre = "take k (audit_rows d)" and ?post = "drop k (audit_rows d)"
  assume k: "audit_rows d' = ?post" "anchor_hash d' = tip_from (anchor_hash d) ?pre"
  from assms(1,2) have "linked_from E (anchor_hash d) (by_id (audit_rows d))"
  proof (rule verify_ok_elim)
    fix rec st
    assume "recorded_known_breaks (audit_rows d) = Inr rec"
      "walk_rows E (cutoff_id d) (anchor_id d) (fst rec) (by_id (audit_rows d))
         (start_state (anchor_hash d) (anchor_id d)) = Inr st" "w_tampered st = []" "w_race st = []"
    with assms(4) walk_clean_linear [of E "cutoff_id d" "anchor_id d" "by_id (audit_rows d)"] show ?thesis
      by fastforce
  qed
  then have "linked_from E (anchor_hash d) (?pre @ ?post)" using assms(5) by (simp add: by_id_sorted)
  then have linked: "linked_from E (anchor_hash d) ?pre" "linked_from E (anchor_hash d') (audit_rows d')"
    by (simp_all only: linked_append k)
  have "ascii_opt (anchor_hash d')"
    using linked_hashed [OF linked(1), of "last ?pre"] row_hash_ok_ascii [OF assms(6)] assms(7) k(2)
    by (cases "?pre = []") (simp_all add: tip_from_last)
  moreover have "recorded_known_breaks (audit_rows d') = Inr ([], [])"
    using recorded_suffix [of ?pre ?post] assms(4) k(1) by simp
  moreover have "sorted_ids (audit_rows d')"
    using assms(5) by (auto simp: k(1) sorted_ids_def drop_map [symmetric] sorted_wrt_drop distinct_drop)
  ultimately show ?thesis using linear_verifies [OF linked(2)] assms(6) by blast
qed

section \<open>Witnesses\<close>

text \<open>Two rows, the first one two years old at the time of the sweep.\<close>

definition late_env :: env where
  "late_env = length_env\<lparr>e_now := 800 * day_us\<rparr>"

definition aged_log :: db where
  "aged_log = log_of
     [log_row 1 ''auth.login'' None None (Some ''139''),
      (log_row 2 ''source.update'' (Some [(''name'', JStr ''srv'')]) (Some ''139'') (Some ''153''))
        \<lparr>a_timestamp := 799 * day_us\<rparr>]"

lemma late_env_hex: "hex_digests late_env"
  using length_env_hex by (simp add: hex_digests_def late_env_def)

lemma Inr_projr: "\<not> isl x \<Longrightarrow> x = Inr (projr x)"
  by (cases x) auto

theorem purge_deletes_only_expired_witness:
  "\<exists>days. get_int aged_log ''audit_retention_days'' = Inr days \<and> 0 < days \<and>
     a_timestamp (log_row 1 ''auth.login'' None None (Some ''139'')) < e_now late_env - days * day_us"
proof (rule purge_deletes_only_expired)
  show "run_audit_purge_sweep late_env aged_log = Inr (projr (run_audit_purge_sweep late_env aged_log))"
    by (rule Inr_projr) code_simp
  show "log_row 1 ''auth.login'' None None (Some ''139'') \<in> set (audit_rows aged_log)"
    by (simp add: aged_log_def log_of_def)
qed code_simp+

theorem purge_keeps_log_verified_witness:
  "\<exists>w d''. verify_chain late_env (projr (run_audit_purge_sweep late_env aged_log)) = Inr (w, d'') \<and> v_ok w \<and>
     v_checked_count w = length (audit_rows (projr (run_audit_purge_sweep late_env aged_log)))"
proof (rule purge_keeps_log_verified [OF Inr_pair])
  show "run_audit_purge_sweep late_env aged_log = Inr (projr (run_audit_purge_sweep late_env aged_log))"
    by (rule Inr_projr) code_simp
  show "hex_digests late_env" by (rule late_env_hex)
qed code_simp+

end
