(* ===== verification/SourceRoots.thy ===== *)
theory SourceRoots
  imports Rules Settings
begin

text \<open>
  \<open>app/source_roots.py\<close>, the part of \<open>app/collectors/base.py\<close> it uses and the multi-root dispatch of
  \<open>TranslatingConnector\<close> in \<open>app/collectors/errors.py\<close>: a source that reads several folders shows
  them as top-level folders, and the real rule chain is applied once, on the virtual path. A
  collector is the parameter: a function from a source, a rule list and a path to a listing.
\<close>

section \<open>What a collector returns\<close>

record dir_entry =
  de_name :: string
  de_path :: string
  de_is_dir :: bool
  de_size :: int

datatype source_error =
    SourceError string
  | SourcePermissionError
  | SourceNotFoundError
  | SourceLockedError
  | SourceUnreachableError
  | SourceAuthError
  | SourceHostKeyError
  | SourceNoCredentialError
  | SourceTLSError
  | PathOutsideBaseError
  | FetchTooLargeError nat nat

type_synonym lister = "source \<Rightarrow> rule list \<Rightarrow> string \<Rightarrow> source_error + dir_entry list"

section \<open>Roots and their limits\<close>

definition hard_max_roots :: int where
  "hard_max_roots = 100"

definition allow_all :: "rule list" where
  "allow_all = [\<lparr>r_id = 0, r_source_id = 0, r_order = 0, r_type = Include, r_pattern = ''**'',
                r_kind = Glob, r_notes = None\<rparr>]"

definition roots_of :: "source \<Rightarrow> source_root list" where
  "roots_of s =
     (let roots = (case s_roots s of None \<Rightarrow> [] | Some rs \<Rightarrow> rs) in if 2 \<le> length roots then roots else [])"

definition max_roots :: "db \<Rightarrow> setting_error + int" where
  "max_roots d = bindE (get_int d ''source_max_roots'') (\<lambda>n. Inr (max 1 (min n hard_max_roots)))"

definition roots_limit_message :: "int \<Rightarrow> string" where
  "roots_limit_message limit =
     (if limit \<le> 1 then ''Several folders per source are turned off (Settings -> System)''
      else ''A source can read at most '' @ show_int limit @ '' folders (Settings -> System)'')"

definition is_multi_root :: "source \<Rightarrow> bool" where
  "is_multi_root s = (roots_of s \<noteq> [])"

definition label_char :: "char \<Rightarrow> bool" where
  "label_char c =
     (let n = of_char c :: nat in
      (48 \<le> n \<and> n \<le> 57) \<or> (65 \<le> n \<and> n \<le> 90) \<or> (97 \<le> n \<and> n \<le> 122))"

text \<open>\<open>_LABEL_RE\<close>; its \<open>$\<close> also matches before one final newline.\<close>

definition label_re :: "string \<Rightarrow> bool" where
  "label_re label =
     (let body = (if label \<noteq> [] \<and> last label = CHR 0x0A then butlast label else label) in
      body \<noteq> [] \<and> label_char (hd body) \<and> length body \<le> 64 \<and>
      list_all (\<lambda>c. label_char c \<or> c \<in> set '' ._-'') (tl body))"

definition valid_label :: "string \<Rightarrow> bool" where
  "valid_label label = (label_re label \<and> label \<noteq> ''.'' \<and> label \<noteq> ''..'' \<and> \<not> suffix ''.'' label)"

text \<open>A detached copy: the fields the constructor is not given take the model's defaults.\<close>

definition with_base_path :: "source \<Rightarrow> string \<Rightarrow> source" where
  "with_base_path s base_path =
     s\<lparr>s_base_path := base_path, s_roots := None, s_schedule_cron := None,
       s_agent_last_seen_at := None, s_agent_os := None, s_search_indexing_enabled := False\<rparr>"

definition split :: "source \<Rightarrow> string \<Rightarrow> source_error + (source \<times> string)" where
  "split s path =
     (let (label, rest) = partition_on CHR ''/'' path in
      case find (\<lambda>root. root_label root = label) (roots_of s) of
        Some root \<Rightarrow> Inr (with_base_path s (root_path root), rest)
      | None \<Rightarrow> Inl SourceNotFoundError)"

section \<open>Listing\<close>

definition list_roots :: "re2_engine \<Rightarrow> source \<Rightarrow> rule list \<Rightarrow> dir_entry list" where
  "list_roots re2 s rs =
     map (\<lambda>root. \<lparr>de_name = root_label root, de_path = root_label root, de_is_dir = True, de_size = 0\<rparr>)
       (filter (\<lambda>root. is_entry_visible re2 (rules_case_insensitive s) (root_label root) True rs) (roots_of s))"

definition list_directory ::
  "re2_engine \<Rightarrow> lister \<Rightarrow> source \<Rightarrow> rule list \<Rightarrow> string \<Rightarrow> source_error + dir_entry list" where
  "list_directory re2 module s rs relative_path =
     (if relative_path = '''' then Inr (list_roots re2 s rs)
      else
        bindE (split s relative_path) (\<lambda>(rooted, rest).
        let label = fst (partition_on CHR ''/'' relative_path) in
        bindE (module rooted allow_all rest) (\<lambda>entries.
        Inr (filter (\<lambda>e. is_entry_visible re2 (rules_case_insensitive s) (de_path e) (de_is_dir e) rs)
               (map (\<lambda>e. e\<lparr>de_path := label @ CHR ''/'' # de_path e\<rparr>) entries)))))"

text \<open>\<open>TranslatingConnector.list_directory\<close> and the path mapping of its two fetch methods.\<close>

definition connector_list ::
  "re2_engine \<Rightarrow> lister \<Rightarrow> source \<Rightarrow> rule list \<Rightarrow> string \<Rightarrow> source_error + dir_entry list" where
  "connector_list re2 module s rs relative_path =
     (if is_multi_root s then list_directory re2 module s rs relative_path
      else module s rs relative_path)"

definition connector_fetch ::
  "(source \<Rightarrow> string \<Rightarrow> source_error + 'a) \<Rightarrow> source \<Rightarrow> string \<Rightarrow> source_error + 'a" where
  "connector_fetch module s relative_path =
     (if is_multi_root s then bindE (split s relative_path) (\<lambda>(rooted, inner). module rooted inner)
      else module s relative_path)"

section \<open>Root paths\<close>

text \<open>\<open>posixpath.normpath\<close>.\<close>

fun norm_comps :: "bool \<Rightarrow> string list \<Rightarrow> string list \<Rightarrow> string list" where
  "norm_comps rooted acc [] = rev acc"
| "norm_comps rooted acc (c # cs) =
     (if c = '''' \<or> c = ''.'' then norm_comps rooted acc cs
      else if c \<noteq> ''..'' \<or> (\<not> rooted \<and> acc = []) \<or> (acc \<noteq> [] \<and> hd acc = ''..'')
      then norm_comps rooted (c # acc) cs
      else norm_comps rooted (tl acc) cs)"

definition posix_normpath :: "string \<Rightarrow> string" where
  "posix_normpath path =
     (if path = '''' then ''.''
      else
        let slashes = (if prefix ''//'' path \<and> \<not> prefix ''///'' path then ''//''
                       else if prefix ''/'' path then ''/'' else '''');
            s = slashes @ join_on CHR ''/'' (norm_comps (slashes \<noteq> '''') [] (split_on CHR ''/'' path))
        in if s = '''' then ''.'' else s)"

definition is_slash :: "char \<Rightarrow> bool" where
  "is_slash c = (c = CHR 0x5C \<or> c = CHR ''/'')"

definition drive_only :: "string \<Rightarrow> bool" where
  "drive_only path =
     (2 \<le> length path \<and> label_char (hd path) \<and> \<not> is_digit (hd path) \<and> path ! 1 = CHR '':'' \<and>
      (length path = 2 \<or> length path = 3 \<and> is_slash (path ! 2)))"

definition normalize_root_path :: "protocol \<Rightarrow> string \<Rightarrow> string" where
  "normalize_root_path p raw =
     (let path = strip raw in
      if p = Smb \<or> p = Winrm then
        (if \<not> drive_only path then rev (dropWhile is_slash (rev path)) else take 2 path @ [CHR 0x5C])
      else if p = Ssh \<or> p = Local then (if path = '''' then path else posix_normpath path)
      else path)"

text \<open>\<open>ntpath.normcase\<close>.\<close>

definition normcase :: "string \<Rightarrow> string" where
  "normcase s = lower (replace_char CHR ''/'' CHR 0x5C s)"

definition same_path :: "protocol \<Rightarrow> string \<Rightarrow> string \<Rightarrow> bool" where
  "same_path p a b = (if p = Smb \<or> p = Winrm then normcase a = normcase b else a = b)"

section \<open>Facts\<close>

lemma partition_join:
  "c \<notin> set l \<Longrightarrow> partition_on c (l @ c # r) = (l, r)"
  by (simp add: partition_on_def takeWhile_append dropWhile_append)

lemma partition_fst_clean: "c \<notin> set (fst (partition_on c s))"
  by (auto simp: partition_on_def dest: set_takeWhileD)

lemma with_base_path_rules [simp]:
  "s_id (with_base_path s p) = s_id s" "s_protocol (with_base_path s p) = s_protocol s"
  "s_base_path (with_base_path s p) = p"
  by (simp_all add: with_base_path_def)

lemma find_label: "find (\<lambda>root. root_label root = l) rs = Some root \<Longrightarrow> root_label root = l \<and> root \<in> set rs"
  by (auto simp: find_Some_iff)

lemma split_label:
  "CHR ''/'' \<notin> set l \<Longrightarrow> split s (l @ CHR ''/'' # r) =
     (case find (\<lambda>root. root_label root = l) (roots_of s) of
        Some root \<Rightarrow> Inr (with_base_path s (root_path root), r)
      | None \<Rightarrow> Inl SourceNotFoundError)"
  by (simp add: split_def partition_join)

lemma label_no_slash: "valid_label l \<Longrightarrow> CHR ''/'' \<notin> set l"
proof
  assume v: "valid_label l" and s: "CHR ''/'' \<in> set l"
  let ?b = "if l \<noteq> [] \<and> last l = CHR 0x0A then butlast l else l"
  have "CHR ''/'' \<in> set ?b"
    using s by (cases l rule: rev_cases) auto
  moreover have "?b \<noteq> [] \<and> label_char (hd ?b) \<and> list_all (\<lambda>c. label_char c \<or> c \<in> set '' ._-'') (tl ?b)"
    using v by (simp add: valid_label_def label_re_def Let_def)
  ultimately have "label_char CHR ''/'' \<or> CHR ''/'' \<in> set '' ._-''"
    by (cases ?b) (auto simp: list_all_iff)
  then show False by (simp add: label_char_def)
qed

section \<open>Properties\<close>

text \<open>
  Every entry a multi-root source lists below a root is visible under the rules at its virtual
  path, and opening that virtual path reaches the folder the collector listed it from: the same
  root, with the path the collector gave.
\<close>

theorem multi_root_entry_opens_where_it_was_listed:
  assumes "is_multi_root s" "relative_path \<noteq> ''''"
    and "connector_list re2 module s rs relative_path = Inr entries" "e \<in> set entries"
  shows "is_entry_visible re2 (rules_case_insensitive s) (de_path e) (de_is_dir e) rs \<and>
    (\<exists>rooted rest inner listed. split s relative_path = Inr (rooted, rest) \<and>
       module rooted allow_all rest = Inr listed \<and> inner \<in> de_path ` set listed \<and>
       connector_fetch fetch s (de_path e) = fetch rooted inner)"
proof -
  let ?label = "fst (partition_on CHR ''/'' relative_path)"
  from assms obtain rooted rest listed where
    split: "split s relative_path = Inr (rooted, rest)" and
    listed: "module rooted allow_all rest = Inr listed" and
    entries: "entries = filter (\<lambda>e. is_entry_visible re2 (rules_case_insensitive s) (de_path e) (de_is_dir e) rs)
       (map (\<lambda>e. e\<lparr>de_path := ?label @ CHR ''/'' # de_path e\<rparr>) listed)"
    by (auto simp: connector_list_def list_directory_def bindE_Inr_iff Let_def)
  from assms(4) entries obtain x where x: "x \<in> set listed" "de_path e = ?label @ CHR ''/'' # de_path x"
    and vis: "is_entry_visible re2 (rules_case_insensitive s) (de_path e) (de_is_dir e) rs" by auto
  have "split s (de_path e) = Inr (rooted, de_path x)"
    using split split_label [of ?label s "de_path x", OF partition_fst_clean]
    by (auto simp: x(2) split_def case_prod_unfold split: option.splits)
  then have "connector_fetch fetch s (de_path e) = fetch rooted (de_path x)"
    using assms(1) by (simp add: connector_fetch_def)
  with split listed x(1) vis show ?thesis by blast
qed

text \<open>
  The configured limit on folders per source is always between 1 and the hard cap, whatever
  integer is stored, and a value the API may store within that range is read back as stored.
\<close>

theorem max_roots_bounds:
  assumes "set_int d ''source_max_roots'' n = Inr d'"
  shows "\<exists>m. max_roots d' = Inr m \<and> 1 \<le> m \<and> m \<le> hard_max_roots \<and>
     (1 \<le> n \<and> n \<le> hard_max_roots \<longrightarrow> m = n)"
  using get_set_int [OF assms] by (simp add: max_roots_def hard_max_roots_def)

section \<open>Witnesses\<close>

definition two_roots :: source where
  "two_roots = smb_source\<lparr>s_roots := Some [\<lparr>root_label = ''iis'', root_path = ''logs''\<rparr>,
                                         \<lparr>root_label = ''app'', root_path = ''data''\<rparr>]\<rparr>"

definition one_file :: lister where
  "one_file s rs path = Inr [\<lparr>de_name = ''a.log'', de_path = ''w3/a.log'', de_is_dir = False, de_size = 3\<rparr>]"

theorem multi_root_entry_opens_where_it_was_listed_witness:
  "is_entry_visible (\<lambda>_ _. None) (rules_case_insensitive two_roots) ''iis/w3/a.log'' False [glob_rule 1 Include ''iis/**''] \<and>
    (\<exists>rooted rest inner listed. split two_roots ''iis/w3'' = Inr (rooted, rest) \<and>
       one_file rooted allow_all rest = Inr listed \<and> inner \<in> de_path ` set listed \<and>
       connector_fetch (\<lambda>s p. Inr (s_base_path s, p)) two_roots ''iis/w3/a.log'' = Inr (s_base_path rooted, inner))"
proof -
  let ?e = "\<lparr>de_name = ''a.log'', de_path = ''iis/w3/a.log'', de_is_dir = False, de_size = 3\<rparr>"
  have "connector_list (\<lambda>_ _. None) one_file two_roots [glob_rule 1 Include ''iis/**''] ''iis/w3'' = Inr [?e]"
    by code_simp
  from multi_root_entry_opens_where_it_was_listed [OF _ _ this, of ?e "\<lambda>s p. Inr (s_base_path s, p)"]
  show ?thesis by (simp add: is_multi_root_def roots_of_def two_roots_def)
qed

theorem max_roots_bounds_witness:
  "\<exists>m. max_roots (put_setting ''source_max_roots'' (show_int 7) empty_db) = Inr m \<and> 1 \<le> m \<and>
     m \<le> hard_max_roots \<and> (1 \<le> (7::int) \<and> 7 \<le> hard_max_roots \<longrightarrow> m = 7)"
  by (rule max_roots_bounds [of empty_db 7]) (simp add: set_int_def int_defaults_def)

end
