(* ===== verification/Rbac.thy ===== *)
theory Rbac
  imports AuditChain
begin

text \<open>
  \<open>app/auth/rbac.py\<close>: grants, the resolution walk up the folder tree, what a user may see, and the
  authority checks. A walk up the tree follows \<open>parent_folder_id\<close> without a bound, so it is a
  \<open>partial_function\<close>: \<open>None\<close> is a walk that does not return, \<open>Some (Inl e)\<close> an exception (reading
  through a folder that is not there), \<open>Some (Inr x)\<close> its answer. \<open>rooted\<close> is the shape of the tree
  that rules the first two out; the folders API keeps it (theory \<open>OrgApi\<close>).
\<close>

section \<open>Answers that may not come\<close>

type_synonym 'a outcome = "(api_error + 'a) option"

definition bindO :: "'a outcome \<Rightarrow> ('a \<Rightarrow> 'b outcome) \<Rightarrow> 'b outcome" where
  "bindO m f = (case m of None \<Rightarrow> None | Some (Inl e) \<Rightarrow> Some (Inl e) | Some (Inr x) \<Rightarrow> f x)"

lemma bindO_simps [simp]:
  "bindO None f = None" "bindO (Some (Inl e)) f = Some (Inl e)" "bindO (Some (Inr x)) f = f x"
  by (simp_all add: bindO_def)

lemma bindO_Inr_iff: "bindO m f = Some (Inr y) \<longleftrightarrow> (\<exists>x. m = Some (Inr x) \<and> f x = Some (Inr y))"
  by (auto simp: bindO_def split: option.splits sum.splits)

lemma bindO_None_iff: "bindO m f = None \<longleftrightarrow> m = None \<or> (\<exists>x. m = Some (Inr x) \<and> f x = None)"
  by (auto simp: bindO_def split: option.splits sum.splits)

section \<open>Grants\<close>

definition find_grant :: "db \<Rightarrow> int \<Rightarrow> scope_type \<Rightarrow> int \<Rightarrow> role_grant option" where
  "find_grant d role_id scope scope_id =
     find (\<lambda>g. g_role_id g = role_id \<and> g_scope_type g = scope \<and> g_scope_id g = scope_id) (role_grants d)"

text \<open>\<open>user.role\<close>: reading an attribute through a role that is not there raises.\<close>

definition user_role :: "db \<Rightarrow> user \<Rightarrow> api_error + role" where
  "user_role d u = someE AttributeError (get_role d (u_role_id u))"

text \<open>The \<open>while\<close> loop: the nearest grant on the folder chain.\<close>

partial_function (option) folder_grant :: "db \<Rightarrow> int \<Rightarrow> int option \<Rightarrow> role_grant option outcome" where
  "folder_grant d role_id folder_id =
     (case folder_id of
        None \<Rightarrow> Some (Inr None)
      | Some i \<Rightarrow>
          (case find_grant d role_id ScopeFolder i of
             Some g \<Rightarrow> Some (Inr (Some g))
           | None \<Rightarrow>
               (case get_folder d i of
                  None \<Rightarrow> Some (Inl AttributeError)
                | Some f \<Rightarrow> folder_grant d role_id (f_parent f))))"

declare folder_grant.simps [code]

definition resolve_folder_or_customer_capability ::
  "db \<Rightarrow> user \<Rightarrow> int option \<Rightarrow> int option \<Rightarrow> capability \<Rightarrow> bool outcome" where
  "resolve_folder_or_customer_capability d u folder_id customer_id cap =
     bindO (folder_grant d (u_role_id u) folder_id) (\<lambda>found.
     Some (Inr
       (case found of
          Some g \<Rightarrow> cap \<in> set (g_capabilities g)
        | None \<Rightarrow>
            (case customer_id of
               None \<Rightarrow> False
             | Some c \<Rightarrow>
                 (case find_grant d (u_role_id u) ScopeCustomer c of
                    Some g \<Rightarrow> cap \<in> set (g_capabilities g)
                  | None \<Rightarrow> False)))))"

definition resolve_capability :: "db \<Rightarrow> user \<Rightarrow> source \<Rightarrow> capability \<Rightarrow> bool outcome" where
  "resolve_capability d u s cap =
     bindO (Some (user_role d u)) (\<lambda>r.
     if s_is_system s then Some (Inr (ro_is_super_admin r))
     else if ro_is_super_admin r then Some (Inr True)
     else
       (case find_grant d (u_role_id u) ScopeSource (s_id s) of
          Some g \<Rightarrow> Some (Inr (cap \<in> set (g_capabilities g)))
        | None \<Rightarrow> resolve_folder_or_customer_capability d u (s_folder_id s) (s_customer_id s) cap))"

section \<open>What a user may see\<close>

fun collect_visible :: "db \<Rightarrow> user \<Rightarrow> capability \<Rightarrow> source list \<Rightarrow> int list outcome" where
  "collect_visible d u cap [] = Some (Inr [])"
| "collect_visible d u cap (s # ss) =
     bindO (resolve_capability d u s cap) (\<lambda>b.
     bindO (collect_visible d u cap ss) (\<lambda>ids.
     Some (Inr (if b then s_id s # ids else ids))))"

text \<open>\<open>None\<close> inside the answer means "all".\<close>

definition visible_source_ids :: "db \<Rightarrow> user \<Rightarrow> capability \<Rightarrow> int list option outcome" where
  "visible_source_ids d u cap =
     bindO (Some (user_role d u)) (\<lambda>r.
     if ro_is_super_admin r then Some (Inr None)
     else bindO (collect_visible d u cap (filter (\<lambda>s. \<not> s_is_system s) (sources d)))
            (\<lambda>ids. Some (Inr (Some ids))))"

definition grant_customer :: "db \<Rightarrow> role_grant \<Rightarrow> int option" where
  "grant_customer d g =
     (case g_scope_type g of
        ScopeCustomer \<Rightarrow> Some (g_scope_id g)
      | ScopeFolder \<Rightarrow> map_option f_customer_id (get_folder d (g_scope_id g))
      | ScopeSource \<Rightarrow> Option.bind (get_source d (g_scope_id g)) s_customer_id)"

definition visible_customer_ids :: "db \<Rightarrow> user \<Rightarrow> api_error + int list option" where
  "visible_customer_ids d u =
     bindE (user_role d u) (\<lambda>r.
     if ro_is_super_admin r then Inr None
     else Inr (Some (List.map_filter (grant_customer d)
                       (filter (\<lambda>g. g_role_id g = u_role_id u) (role_grants d)))))"

record folder_visibility_context =
  fv_is_super_admin :: bool
  fv_folders :: "folder list"
  fv_source_grant_ids :: "int list"
  fv_folder_grant_ids :: "int list"

definition build_folder_visibility_context :: "db \<Rightarrow> user \<Rightarrow> api_error + folder_visibility_context" where
  "build_folder_visibility_context d u =
     bindE (user_role d u) (\<lambda>r.
     if ro_is_super_admin r then
       Inr \<lparr>fv_is_super_admin = True, fv_folders = folders d, fv_source_grant_ids = [], fv_folder_grant_ids = []\<rparr>
     else
       let grants = filter (\<lambda>g. g_role_id g = u_role_id u) (role_grants d) in
       Inr \<lparr>fv_is_super_admin = False, fv_folders = folders d,
            fv_source_grant_ids = map g_scope_id (filter (\<lambda>g. g_scope_type g = ScopeSource) grants),
            fv_folder_grant_ids = map g_scope_id (filter (\<lambda>g. g_scope_type g = ScopeFolder) grants)\<rparr>)"

partial_function (option) boundary_walk :: "folder_visibility_context \<Rightarrow> int option \<Rightarrow> int option option" where
  "boundary_walk ctx folder_id =
     (case folder_id of
        None \<Rightarrow> Some None
      | Some i \<Rightarrow>
          if i \<in> set (fv_folder_grant_ids ctx) then Some (Some i)
          else boundary_walk ctx (Option.bind (tbl_get f_id i (fv_folders ctx)) f_parent))"

declare boundary_walk.simps [code]

definition folder_path_boundary :: "folder_visibility_context \<Rightarrow> source \<Rightarrow> int option option" where
  "folder_path_boundary ctx s =
     (if fv_is_super_admin ctx then Some None
      else if s_id s \<in> set (fv_source_grant_ids ctx) then Some (s_folder_id s)
      else boundary_walk ctx (s_folder_id s))"

text \<open>\<open>_folder_path\<close> of \<open>app/api/sources.py\<close>: the names shown, root first, down from the boundary.\<close>

partial_function (option) folder_chain :: "folder_visibility_context \<Rightarrow> int option \<Rightarrow> int option \<Rightarrow> folder list option" where
  "folder_chain ctx node_id boundary =
     (case node_id of
        None \<Rightarrow> Some []
      | Some i \<Rightarrow>
          (case tbl_get f_id i (fv_folders ctx) of
             None \<Rightarrow> Some []
           | Some f \<Rightarrow>
               if Some (f_id f) = boundary then Some [f]
               else Option.bind (folder_chain ctx (f_parent f) boundary) (\<lambda>rest. Some (f # rest))))"

declare folder_chain.simps [code]

definition source_folder_path :: "folder_visibility_context \<Rightarrow> source \<Rightarrow> folder list option" where
  "source_folder_path ctx s =
     Option.bind (folder_path_boundary ctx s) (\<lambda>boundary.
     map_option rev (folder_chain ctx (s_folder_id s) boundary))"

section \<open>Guards\<close>

definition delete_scope_grants :: "scope_type \<Rightarrow> int \<Rightarrow> db \<Rightarrow> db" where
  "delete_scope_grants scope scope_id d =
     d\<lparr>role_grants := filter (\<lambda>g. \<not> (g_scope_type g = scope \<and> g_scope_id g = scope_id)) (role_grants d)\<rparr>"

definition require_capability :: "db \<Rightarrow> user \<Rightarrow> int \<Rightarrow> capability \<Rightarrow> source outcome" where
  "require_capability d u source_id cap =
     bindO (Some (someE (not_found ''Source not found'') (get_source d source_id))) (\<lambda>s.
     bindO (resolve_capability d u s cap) (\<lambda>b.
     Some (if b then Inr s else Inl (forbidden ''Not permitted''))))"

definition require_global_capability :: "db \<Rightarrow> user \<Rightarrow> global_capability \<Rightarrow> api_error + unit" where
  "require_global_capability d u cap =
     bindE (user_role d u) (\<lambda>r.
     requireE (ro_is_super_admin r \<or> cap \<in> set (ro_global_capabilities r)) (forbidden ''Not permitted''))"

text \<open>\<open>require_super_admin\<close> of \<open>app/api/auth.py\<close>, on the account of the session.\<close>

definition require_super_admin_user :: "db \<Rightarrow> user \<Rightarrow> api_error + unit" where
  "require_super_admin_user d u = bindE (user_role d u) (\<lambda>r. requireE (ro_is_super_admin r) (forbidden ''Super admins only''))"

text \<open>\<open>role_within_authority\<close>, on the actor's own role.\<close>

definition role_within_authority :: "role \<Rightarrow> role \<Rightarrow> bool" where
  "role_within_authority actor_role r =
     (if ro_is_super_admin actor_role then True
      else if ro_is_super_admin r then False
      else set (ro_global_capabilities r) \<subseteq> set (ro_global_capabilities actor_role))"

definition require_role_within_authority :: "role \<Rightarrow> role \<Rightarrow> api_error + unit" where
  "require_role_within_authority actor_role r =
     requireE (role_within_authority actor_role r)
       (forbidden ''Not permitted: that role has privileges beyond your own'')"

definition require_capabilities_within_authority :: "role \<Rightarrow> global_capability list \<Rightarrow> api_error + unit" where
  "require_capabilities_within_authority actor_role caps =
     requireE (ro_is_super_admin actor_role \<or> set caps \<subseteq> set (ro_global_capabilities actor_role))
       (forbidden ''Not permitted: you can only grant global capabilities you hold yourself'')"

section \<open>Creating roles and grants\<close>

text \<open>The UNIQUE constraint on a role's name is checked by the flush.\<close>

definition create_role ::
  "env \<Rightarrow> db \<Rightarrow> int option \<Rightarrow> string \<Rightarrow> bool \<Rightarrow> bool \<Rightarrow> global_capability list \<Rightarrow> api_error + (role \<times> db)" where
  "create_role E d actor name is_builtin is_super_admin caps =
     (let r = \<lparr>ro_id = role_seq d + 1, ro_name = name, ro_is_builtin = is_builtin,
               ro_is_super_admin = is_super_admin, ro_global_capabilities = caps\<rparr>;
          d1 = d\<lparr>roles := roles d @ [r], role_seq := role_seq d + 1\<rparr>
      in bindE (requireE (\<forall>x \<in> set (roles d). ro_name x \<noteq> name) IntegrityError) (\<lambda>_.
         Inr (r, record_audit_event E d1 d1 actor ''role.create'' (Some ''role'') (Some (ro_id r))
                   (Some [(''name'', JStr name)]))))"

definition create_role_grant ::
  "env \<Rightarrow> db \<Rightarrow> int option \<Rightarrow> int \<Rightarrow> scope_type \<Rightarrow> int \<Rightarrow> capability list \<Rightarrow> role_grant \<times> db" where
  "create_role_grant E d actor role_id scope scope_id caps =
     (let g = \<lparr>g_id = tbl_max g_id (role_grants d) + 1, g_role_id = role_id, g_scope_type = scope,
               g_scope_id = scope_id, g_capabilities = caps\<rparr>;
          d1 = d\<lparr>role_grants := role_grants d @ [g]\<rparr>
      in (g, record_audit_event E d1 d1 actor ''role_grant.create'' (Some ''role_grant'') (Some (g_id g))
               (Some [(''role_id'', JInt role_id), (''scope_type'', JStr (scope_value scope)),
                      (''scope_id'', JInt scope_id)])))"

section \<open>What an audit entry leaves alone\<close>

lemma record_audit_fields [simp]:
  "customers (record_audit_event E seen d u a tt ti m) = customers d"
  "customer_seq (record_audit_event E seen d u a tt ti m) = customer_seq d"
  "folders (record_audit_event E seen d u a tt ti m) = folders d"
  "folder_seq (record_audit_event E seen d u a tt ti m) = folder_seq d"
  "sources (record_audit_event E seen d u a tt ti m) = sources d"
  "source_seq (record_audit_event E seen d u a tt ti m) = source_seq d"
  "rules (record_audit_event E seen d u a tt ti m) = rules d"
  "roles (record_audit_event E seen d u a tt ti m) = roles d"
  "role_seq (record_audit_event E seen d u a tt ti m) = role_seq d"
  "role_grants (record_audit_event E seen d u a tt ti m) = role_grants d"
  "users (record_audit_event E seen d u a tt ti m) = users d"
  "backup_codes (record_audit_event E seen d u a tt ti m) = backup_codes d"
  "auth_sessions (record_audit_event E seen d u a tt ti m) = auth_sessions d"
  "group_mappings (record_audit_event E seen d u a tt ti m) = group_mappings d"
  "sso_configs (record_audit_event E seen d u a tt ti m) = sso_configs d"
  "settings (record_audit_event E seen d u a tt ti m) = settings d"
  by (simp_all add: record_audit_event_def)

section \<open>The folder tree\<close>

text \<open>The ancestors of a folder, nearest first, up to a folder without a parent.\<close>

inductive chain :: "folder list \<Rightarrow> int option \<Rightarrow> folder list \<Rightarrow> bool" for fs where
  chain_top: "chain fs None []"
| chain_up: "tbl_get f_id i fs = Some f \<Longrightarrow> chain fs (f_parent f) l \<Longrightarrow> chain fs (Some i) (f # l)"

inductive_simps chain_None [simp]: "chain fs None l"
inductive_simps chain_Some: "chain fs (Some i) l"

definition rooted :: "folder list \<Rightarrow> int option \<Rightarrow> bool" where
  "rooted fs i \<longleftrightarrow> (\<exists>l. chain fs i l)"

lemma chain_unique: "chain fs i l \<Longrightarrow> chain fs i l' \<Longrightarrow> l = l'"
proof (induction arbitrary: l' rule: chain.induct)
  case (chain_up i f l)
  from chain_up.prems chain_up.hyps(1) obtain l2 where "l' = f # l2" "chain fs (f_parent f) l2"
    by (subst (asm) chain_Some) auto
  with chain_up.IH [of l2] show ?case by simp
qed simp

lemma rooted_None [simp]: "rooted fs None"
  by (auto simp: rooted_def)

lemma rooted_Some: "rooted fs (Some i) \<longleftrightarrow> (\<exists>f. tbl_get f_id i fs = Some f \<and> rooted fs (f_parent f))"
  by (auto simp: rooted_def chain_Some)

fun first_some :: "('a \<Rightarrow> 'b option) \<Rightarrow> 'a list \<Rightarrow> 'b option" where
  "first_some f [] = None"
| "first_some f (x # xs) = (case f x of None \<Rightarrow> first_some f xs | Some y \<Rightarrow> Some y)"

lemma folder_grant_chain:
  "chain (folders d) i l \<Longrightarrow>
   folder_grant d role_id i = Some (Inr (first_some (\<lambda>f. find_grant d role_id ScopeFolder (f_id f)) l))"
proof (induction rule: chain.induct)
  case chain_top
  show ?case by (subst folder_grant.simps) simp
next
  case (chain_up i f l)
  then have "f_id f = i" by (auto dest: tbl_get_Some)
  with chain_up show ?case by (subst folder_grant.simps) (simp split: option.splits)
qed

text \<open>A list cut after its first element with a property.\<close>

fun take_through :: "('a \<Rightarrow> bool) \<Rightarrow> 'a list \<Rightarrow> 'a list" where
  "take_through P [] = []"
| "take_through P (x # xs) = (if P x then [x] else x # take_through P xs)"

lemma boundary_chain:
  "chain (fv_folders ctx) i l \<Longrightarrow>
   boundary_walk ctx i = Some (map_option f_id (find (\<lambda>f. f_id f \<in> set (fv_folder_grant_ids ctx)) l))"
proof (induction rule: chain.induct)
  case chain_top
  show ?case by (subst boundary_walk.simps) simp
next
  case (chain_up i f l)
  then have "f_id f = i" by (auto dest: tbl_get_Some)
  with chain_up show ?case by (subst boundary_walk.simps) simp
qed

lemma shown_chain:
  "chain (fv_folders ctx) i l \<Longrightarrow> folder_chain ctx i b = Some (take_through (\<lambda>f. Some (f_id f) = b) l)"
proof (induction rule: chain.induct)
  case chain_top
  show ?case by (subst folder_chain.simps) simp
next
  case (chain_up i f l)
  then show ?case by (subst folder_chain.simps) simp
qed

lemma chain_shrinks: "chain fs i l \<Longrightarrow> f \<in> set l \<Longrightarrow> \<exists>m. chain fs (f_parent f) m \<and> length m < length l"
  by (induction rule: chain.induct) (auto intro: less_SucI)

lemma chain_member: "chain fs i l \<Longrightarrow> f \<in> set l \<Longrightarrow> tbl_get f_id (f_id f) fs = Some f"
proof (induction rule: chain.induct)
  case (chain_up i g l)
  then show ?case using tbl_get_Some [OF chain_up.hyps(1)] by auto
qed simp

lemma chain_distinct: "chain fs i l \<Longrightarrow> distinct (map f_id l)"
proof (induction rule: chain.induct)
  case (chain_up i f l)
  have "f_id f = i" using chain_up.hyps(1) by (auto dest: tbl_get_Some)
  moreover have "f_id g \<noteq> i" if g: "g \<in> set l" for g
  proof
    assume "f_id g = i"
    obtain m where m: "chain fs (f_parent g) m" "length m < length l"
      using chain_shrinks [OF chain_up.hyps(2) g] by blast
    have "tbl_get f_id (f_id g) fs = Some g"
      by (rule chain_member [OF chain_up.hyps(2) g])
    with \<open>f_id g = i\<close> chain_up.hyps(1) have "g = f" by simp
    with m chain_up.hyps(2) chain_unique show False by blast
  qed
  ultimately have "f_id f \<notin> f_id ` set l" by (metis image_iff)
  with chain_up.IH show ?case by simp
qed simp

lemma take_through_find:
  "distinct (map f_id l) \<Longrightarrow>
   take_through (\<lambda>f. Some (f_id f) = map_option f_id (find P l)) l = take_through P l"
proof (induction l)
  case (Cons f l)
  show ?case
  proof (cases "P f")
    case False
    then have "map_option f_id (find P l) \<noteq> Some (f_id f)"
      using Cons.prems by (auto simp: find_Some_iff) (metis image_eqI nth_mem)
    then have "Some (f_id f) \<noteq> map_option f_id (find P l)" by metis
    with False Cons show ?thesis by simp
  qed simp
qed simp

section \<open>Properties\<close>

definition user_grant :: "db \<Rightarrow> user \<Rightarrow> scope_type \<Rightarrow> int \<Rightarrow> role_grant option" where
  "user_grant d u scope i = find_grant d (u_role_id u) scope i"

text \<open>The scopes that reach a source, most specific first.\<close>

definition scopes_of :: "source \<Rightarrow> folder list \<Rightarrow> (scope_type \<times> int) list" where
  "scopes_of s l =
     (ScopeSource, s_id s) # map (\<lambda>f. (ScopeFolder, f_id f)) l @
     (case s_customer_id s of None \<Rightarrow> [] | Some c \<Rightarrow> [(ScopeCustomer, c)])"

lemma first_some_append:
  "first_some f (xs @ ys) = (case first_some f xs of None \<Rightarrow> first_some f ys | Some y \<Rightarrow> Some y)"
  by (induction xs) (auto split: option.splits)

lemma first_some_map: "first_some f (map g xs) = first_some (\<lambda>x. f (g x)) xs"
  by (induction xs) (auto split: option.splits)

text \<open>
  C2: The most specific scope wins: for a user short of super-admin, access to an ordinary source is
  decided by the first scope that has a grant at all, in the order source, its folder, the folders
  above it nearest first, customer; that grant alone decides, and with none the answer is no. The
  walk always returns on a tree without cycles.
\<close>

theorem most_specific_grant_decides:
  assumes "chain (folders d) (s_folder_id s) l" "user_role d u = Inr r" "\<not> ro_is_super_admin r"
    and "\<not> s_is_system s"
  shows "resolve_capability d u s cap =
    Some (Inr (case first_some (\<lambda>(scope, i). user_grant d u scope i) (scopes_of s l) of
                 None \<Rightarrow> False | Some g \<Rightarrow> cap \<in> set (g_capabilities g)))"
  using assms(2-4)
  by (auto simp: resolve_capability_def resolve_folder_or_customer_capability_def folder_grant_chain [OF assms(1)]
      scopes_of_def first_some_append first_some_map user_grant_def split: option.splits)

text \<open>
  The folder path shown with a source reveals nothing above the scope that grants it: for a user
  short of super-admin it is the source's own folder when a source grant governs, and otherwise
  the folders from the source's up to the first one with a grant (all of them only when no folder
  has one, where the customer's grant governs).
\<close>

theorem folder_path_stops_at_governing_scope:
  assumes "chain (folders d) (s_folder_id s) l" "user_role d u = Inr r" "\<not> ro_is_super_admin r"
    and "build_folder_visibility_context d u = Inr ctx"
  shows "source_folder_path ctx s =
    Some (rev (if user_grant d u ScopeSource (s_id s) \<noteq> None then take 1 l
               else take_through (\<lambda>f. user_grant d u ScopeFolder (f_id f) \<noteq> None) l))"
proof -
  have granted: "i \<in> set (map g_scope_id (filter (\<lambda>g. g_scope_type g = scope)
      (filter (\<lambda>g. g_role_id g = u_role_id u) (role_grants d)))) \<longleftrightarrow> user_grant d u scope i \<noteq> None" for i scope
    by (auto simp: user_grant_def find_grant_def find_None_iff)
  have ctx: "fv_folders ctx = folders d" "\<not> fv_is_super_admin ctx"
    "\<And>i. i \<in> set (fv_source_grant_ids ctx) \<longleftrightarrow> user_grant d u ScopeSource i \<noteq> None"
    "\<And>i. i \<in> set (fv_folder_grant_ids ctx) \<longleftrightarrow> user_grant d u ScopeFolder i \<noteq> None"
    using assms(2-4) granted by (auto simp: build_folder_visibility_context_def Let_def)
  note walks = boundary_chain [of ctx] shown_chain [of ctx]
  show ?thesis
  proof (cases "user_grant d u ScopeSource (s_id s) \<noteq> None")
    case True
    have "take_through (\<lambda>f. Some (f_id f) = s_folder_id s) l = take 1 l"
    proof (cases "s_folder_id s")
      case (Some i)
      with assms(1) obtain f l' where "l = f # l'" "tbl_get f_id i (folders d) = Some f"
        by (auto simp: chain_Some)
      with Some tbl_get_Some [of f_id i] show ?thesis by auto
    qed (use assms(1) in auto)
    with True walks assms(1) ctx show ?thesis
      by (simp add: source_folder_path_def folder_path_boundary_def)
  next
    case False
    with walks assms(1) ctx take_through_find [OF chain_distinct [OF assms(1)]] show ?thesis
      by (simp add: source_folder_path_def folder_path_boundary_def)
  qed
qed

lemma collect_visible_spec:
  assumes "\<And>s. s \<in> set ss \<Longrightarrow> \<exists>b. resolve_capability d u s cap = Some (Inr b)"
  shows "\<exists>ids. collect_visible d u cap ss = Some (Inr ids) \<and>
    (\<forall>i. i \<in> set ids \<longleftrightarrow> (\<exists>s \<in> set ss. s_id s = i \<and> resolve_capability d u s cap = Some (Inr True)))"
  using assms
proof (induction ss)
  case (Cons s ss)
  then obtain ids where ids: "collect_visible d u cap ss = Some (Inr ids)"
    "\<And>i. i \<in> set ids \<longleftrightarrow> (\<exists>s \<in> set ss. s_id s = i \<and> resolve_capability d u s cap = Some (Inr True))" by fastforce
  from Cons.prems [of s] obtain b where "resolve_capability d u s cap = Some (Inr b)" by auto
  with ids show ?case by (cases b) auto
qed simp

text \<open>
  The list filter and the per-source guard agree: for a user short of super-admin, a source's id
  is in the set the list endpoints filter by exactly when it is not a system source and the guard
  of the source endpoints lets the same user through with the same capability.
\<close>

theorem visible_ids_match_guard:
  assumes "\<forall>s \<in> set (sources d). rooted (folders d) (s_folder_id s)" "distinct (map s_id (sources d))"
    and "user_role d u = Inr r" "\<not> ro_is_super_admin r" "get_source d i = Some s"
  shows "\<exists>ids. visible_source_ids d u cap = Some (Inr (Some ids)) \<and>
    (i \<in> set ids \<longleftrightarrow> \<not> s_is_system s \<and> require_capability d u i cap = Some (Inr s))"
proof -
  have total: "\<exists>b. resolve_capability d u t cap = Some (Inr b)" if "t \<in> set (sources d)" for t
  proof (cases "s_is_system t")
    case True
    with assms(3) show ?thesis by (simp add: resolve_capability_def)
  next
    case False
    from assms(1) that obtain l where "chain (folders d) (s_folder_id t) l" by (auto simp: rooted_def)
    from folder_grant_chain [OF this] assms(3,4) False show ?thesis
      by (auto simp: resolve_capability_def resolve_folder_or_customer_capability_def split: option.splits)
  qed
  obtain ids where ids: "collect_visible d u cap (filter (\<lambda>s. \<not> s_is_system s) (sources d)) = Some (Inr ids)"
    "\<And>i. i \<in> set ids \<longleftrightarrow> (\<exists>s \<in> set (filter (\<lambda>s. \<not> s_is_system s) (sources d)). s_id s = i \<and>
       resolve_capability d u s cap = Some (Inr True))"
    using collect_visible_spec [of "filter (\<lambda>s. \<not> s_is_system s) (sources d)" d u cap] total by fastforce
  from assms(5) have s: "s \<in> set (sources d)" "s_id s = i" by (auto dest: tbl_get_Some)
  have unique: "t = s" if "t \<in> set (sources d)" "s_id t = i" for t
    using assms(2) that s by (metis distinct_map inj_onD)
  have "i \<in> set ids \<longleftrightarrow> \<not> s_is_system s \<and> resolve_capability d u s cap = Some (Inr True)"
    unfolding ids(2) set_filter using s unique by blast
  moreover obtain b where b: "resolve_capability d u s cap = Some (Inr b)" using total [OF s(1)] by blast
  moreover have "require_capability d u i cap = Some (Inr s) \<longleftrightarrow> b"
    using assms(5) b by (simp add: require_capability_def)
  ultimately show ?thesis
    using ids(1) assms(3,4) by (simp add: visible_source_ids_def)
qed

text \<open>
  Authority is what it says: a role within an actor's authority passes no global guard that the
  actor's own role does not pass.
\<close>

theorem authority_bounds_capabilities:
  assumes "role_within_authority actor_role r" "user_role d holder = Inr r" "user_role d actor = Inr actor_role"
    and "require_global_capability d holder cap = Inr ()"
  shows "require_global_capability d actor cap = Inr ()"
  using assms by (auto simp: role_within_authority_def require_global_capability_def split: if_splits)

section \<open>Witnesses\<close>

text \<open>A customer with a folder in a folder, a source in the inner one, and a role granted the outer one.\<close>

definition sample_source :: source where
  "sample_source =
     \<lparr>s_id = 10, s_name = ''srv'', s_customer_id = Some 1, s_folder_id = Some 2, s_protocol = Ssh,
      s_host = ''h'', s_port = None, s_credential_ref = None, s_base_path = ''/var/log'', s_roots = None,
      s_winrm_scheme = None, s_tls_ca_pem = None, s_enabled = True, s_schedule_cron = None,
      s_is_system = False, s_agent_token_hash = None, s_agent_last_seen_at = None, s_agent_os = None,
      s_search_indexing_enabled = False\<rparr>"

definition outer_folder :: folder where
  "outer_folder = \<lparr>f_id = 1, f_name = ''outer'', f_customer_id = 1, f_parent = None\<rparr>"

definition inner_folder :: folder where
  "inner_folder = \<lparr>f_id = 2, f_name = ''inner'', f_customer_id = 1, f_parent = Some 1\<rparr>"

definition operator_role :: role where
  "operator_role = \<lparr>ro_id = 5, ro_name = ''ops'', ro_is_builtin = False, ro_is_super_admin = False,
                    ro_global_capabilities = [ManageUsers]\<rparr>"

definition operator :: user where
  "operator =
     \<lparr>u_id = 7, u_username = ''op'', u_password_hash = None, u_role_id = 5, u_active = True,
      u_auth_provider = AuthLocal, u_external_issuer = None, u_external_id = None, u_last_login_at = None,
      u_must_change_password = False, u_mfa_enabled = False, u_mfa_secret_encrypted = None,
      u_mfa_enrolled_at = None, u_mfa_last_used_step = None\<rparr>"

definition sample_db :: db where
  "sample_db = empty_db\<lparr>customers := [\<lparr>c_id = 1, c_name = ''acme''\<rparr>], customer_seq := 1,
     folders := [outer_folder, inner_folder], folder_seq := 2, sources := [sample_source], source_seq := 10,
     roles := [operator_role], role_seq := 5, users := [operator],
     role_grants := [\<lparr>g_id = 1, g_role_id = 5, g_scope_type = ScopeFolder, g_scope_id = 1, g_capabilities = [View]\<rparr>]\<rparr>"

lemma sample_chain: "chain (folders sample_db) (s_folder_id sample_source) [inner_folder, outer_folder]"
  by (simp add: chain_Some sample_db_def sample_source_def inner_folder_def outer_folder_def tbl_get_def)

lemma sample_role: "user_role sample_db operator = Inr operator_role" "\<not> ro_is_super_admin operator_role"
  "\<not> s_is_system sample_source" "get_source sample_db 10 = Some sample_source"
  by code_simp+

theorem most_specific_grant_decides_witness:
  "resolve_capability sample_db operator sample_source View =
    Some (Inr (case first_some (\<lambda>(scope, i). user_grant sample_db operator scope i)
                    (scopes_of sample_source [inner_folder, outer_folder]) of
                 None \<Rightarrow> False | Some g \<Rightarrow> View \<in> set (g_capabilities g)))"
  by (rule most_specific_grant_decides [OF sample_chain sample_role(1-3)])

theorem folder_path_stops_at_governing_scope_witness:
  "source_folder_path (projr (build_folder_visibility_context sample_db operator)) sample_source =
    Some (rev (if user_grant sample_db operator ScopeSource (s_id sample_source) \<noteq> None
               then take 1 [inner_folder, outer_folder]
               else take_through (\<lambda>f. user_grant sample_db operator ScopeFolder (f_id f) \<noteq> None)
                      [inner_folder, outer_folder]))"
proof (rule folder_path_stops_at_governing_scope [OF sample_chain sample_role(1,2)])
  show "build_folder_visibility_context sample_db operator =
      Inr (projr (build_folder_visibility_context sample_db operator))"
    by (simp add: build_folder_visibility_context_def sample_role Let_def)
qed

theorem visible_ids_match_guard_witness:
  "\<exists>ids. visible_source_ids sample_db operator View = Some (Inr (Some ids)) \<and>
    (10 \<in> set ids \<longleftrightarrow> \<not> s_is_system sample_source \<and>
       require_capability sample_db operator 10 View = Some (Inr sample_source))"
proof (rule visible_ids_match_guard [OF _ _ sample_role(1,2,4)])
  have "sources sample_db = [sample_source]" by (simp add: sample_db_def)
  then show "\<forall>s \<in> set (sources sample_db). rooted (folders sample_db) (s_folder_id s)"
    "distinct (map s_id (sources sample_db))"
    using sample_chain by (auto simp: rooted_def)
qed

theorem authority_bounds_capabilities_witness:
  "require_global_capability sample_db operator ManageUsers = Inr ()"
proof (rule authority_bounds_capabilities [OF _ sample_role(1) sample_role(1)])
  show "role_within_authority operator_role operator_role" by code_simp
qed code_simp

end
