(* ===== verification/OrgApi.thy ===== *)
theory OrgApi
  imports Rbac AuditIntegrity
begin

text \<open>
  \<open>app/api/customers.py\<close> and \<open>app/api/folders.py\<close>: the endpoints that shape the organisation tree,
  as one state machine. What they keep: folder ids are unique and never reused, every folder's
  ancestor walk ends, a folder's parent and customer exist, and no grant points at a scope that is
  gone. A handler that raises commits nothing.
\<close>

section \<open>Customers\<close>

definition list_customers :: "db \<Rightarrow> user \<Rightarrow> api_error + customer list" where
  "list_customers d u = bindE (require_global_capability d u CreateSource) (\<lambda>_. Inr (customers d))"

definition create_customer :: "env \<Rightarrow> user \<Rightarrow> string \<Rightarrow> db \<Rightarrow> api_error + db" where
  "create_customer E u name d =
     bindE (require_global_capability d u CreateSource) (\<lambda>_.
     bindE (requireE (find (\<lambda>c. c_name c = name) (customers d) = None) (conflict ''Name already in use'')) (\<lambda>_.
       let c = \<lparr>c_id = customer_seq d + 1, c_name = name\<rparr>;
           d1 = d\<lparr>customers := customers d @ [c], customer_seq := customer_seq d + 1\<rparr>
       in Inr (record_audit_event E d1 d1 (Some (u_id u)) ''customer.create'' (Some ''customer'')
                 (Some (c_id c)) (Some [(''name'', JStr name)]))))"

text \<open>No check that the name is free: the flush meets the UNIQUE constraint.\<close>

definition update_customer :: "env \<Rightarrow> user \<Rightarrow> int \<Rightarrow> string \<Rightarrow> db \<Rightarrow> api_error + db" where
  "update_customer E u customer_id name d =
     bindE (require_global_capability d u CreateSource) (\<lambda>_.
     bindE (someE (not_found ''Customer not found'') (get_customer d customer_id)) (\<lambda>c.
     bindE (requireE (\<forall>x \<in> set (customers d). c_id x \<noteq> customer_id \<longrightarrow> c_name x \<noteq> name) IntegrityError) (\<lambda>_.
       let d1 = d\<lparr>customers := tbl_put c_id (c\<lparr>c_name := name\<rparr>) (customers d)\<rparr>
       in Inr (record_audit_event E d1 d1 (Some (u_id u)) ''customer.update'' (Some ''customer'')
                 (Some customer_id) (Some [(''name'', JStr name)])))))"

definition delete_customer :: "env \<Rightarrow> user \<Rightarrow> int \<Rightarrow> db \<Rightarrow> api_error + db" where
  "delete_customer E u customer_id d =
     bindE (require_global_capability d u CreateSource) (\<lambda>_.
     bindE (someE (not_found ''Customer not found'') (get_customer d customer_id)) (\<lambda>c.
     bindE (requireE (find (\<lambda>s. s_customer_id s = Some customer_id) (sources d) = None \<and>
                      find (\<lambda>f. f_customer_id f = customer_id) (folders d) = None)
              (conflict ''Customer still has sources or folders; remove them first'')) (\<lambda>_.
       let d1 = (delete_scope_grants ScopeCustomer customer_id d)
                  \<lparr>customers := tbl_del c_id customer_id (customers d)\<rparr>
       in Inr (record_audit_event E d d1 (Some (u_id u)) ''customer.delete'' (Some ''customer'')
                 (Some customer_id) None))))"

section \<open>Folders\<close>

text \<open>The \<open>while walk is not None\<close> loop: \<open>Some False\<close> when it meets the folder that is moved.\<close>

partial_function (option) parent_walk :: "folder list \<Rightarrow> int option \<Rightarrow> folder \<Rightarrow> bool option" where
  "parent_walk fs moved f =
     (if moved = Some (f_id f) then Some False
      else
        (case f_parent f of
           None \<Rightarrow> Some True
         | Some p \<Rightarrow>
             if p = 0 then Some True
             else (case tbl_get f_id p fs of None \<Rightarrow> Some True | Some g \<Rightarrow> parent_walk fs moved g)))"

declare parent_walk.simps [code]

definition validate_parent :: "db \<Rightarrow> int \<Rightarrow> int option \<Rightarrow> int option \<Rightarrow> unit outcome" where
  "validate_parent d customer_id parent_id folder_id =
     (case parent_id of
        None \<Rightarrow> Some (Inr ())
      | Some p \<Rightarrow>
          (case get_folder d p of
             None \<Rightarrow> Some (Inl (not_found ''Parent folder not found''))
           | Some parent \<Rightarrow>
               if f_customer_id parent \<noteq> customer_id then
                 Some (Inl (HTTPException 400 ''A folder can only nest under a folder of the same customer''))
               else
                 Option.bind (parent_walk (folders d) folder_id parent) (\<lambda>ok.
                 Some (requireE ok (HTTPException 400 ''Cannot move a folder under its own descendant'')))))"

definition list_folders :: "db \<Rightarrow> user \<Rightarrow> int option \<Rightarrow> api_error + folder list" where
  "list_folders d u customer_id =
     bindE (require_global_capability d u CreateSource) (\<lambda>_.
     Inr (case customer_id of None \<Rightarrow> folders d
          | Some c \<Rightarrow> filter (\<lambda>f. f_customer_id f = c) (folders d)))"

definition create_folder :: "env \<Rightarrow> user \<Rightarrow> string \<Rightarrow> int \<Rightarrow> int option \<Rightarrow> db \<Rightarrow> db outcome" where
  "create_folder E u name customer_id parent_id d =
     bindO (Some (require_global_capability d u CreateSource)) (\<lambda>_.
     bindO (Some (someE (not_found ''Customer not found'') (get_customer d customer_id))) (\<lambda>c.
     bindO (validate_parent d customer_id parent_id None) (\<lambda>_.
       let f = \<lparr>f_id = folder_seq d + 1, f_name = name, f_customer_id = customer_id, f_parent = parent_id\<rparr>;
           d1 = d\<lparr>folders := folders d @ [f], folder_seq := folder_seq d + 1\<rparr>
       in Some (Inr (record_audit_event E d1 d1 (Some (u_id u)) ''folder.create'' (Some ''folder'')
                 (Some (f_id f)) (Some [(''name'', JStr name), (''customer_id'', JInt customer_id)]))))))"

text \<open>\<open>parent_field\<close> is \<open>None\<close> when the request did not set the field, else the value it set.\<close>

definition update_folder :: "env \<Rightarrow> user \<Rightarrow> int \<Rightarrow> string option \<Rightarrow> int option option \<Rightarrow> db \<Rightarrow> db outcome" where
  "update_folder E u folder_id name parent_field d =
     bindO (Some (require_global_capability d u CreateSource)) (\<lambda>_.
     bindO (Some (someE (not_found ''Folder not found'') (get_folder d folder_id))) (\<lambda>f.
       let f1 = (case name of None \<Rightarrow> f | Some n \<Rightarrow> f\<lparr>f_name := n\<rparr>) in
       bindO (case parent_field of
                None \<Rightarrow> Some (Inr f1)
              | Some p \<Rightarrow> bindO (validate_parent d (f_customer_id f) p (Some (f_id f)))
                            (\<lambda>_. Some (Inr (f1\<lparr>f_parent := p\<rparr>)))) (\<lambda>f2.
         let d1 = d\<lparr>folders := tbl_put f_id f2 (folders d)\<rparr>
         in Some (Inr (record_audit_event E d1 d1 (Some (u_id u)) ''folder.update'' (Some ''folder'')
                   (Some folder_id) None)))))"

definition delete_folder :: "env \<Rightarrow> user \<Rightarrow> int \<Rightarrow> db \<Rightarrow> db outcome" where
  "delete_folder E u folder_id d =
     bindO (Some (require_global_capability d u CreateSource)) (\<lambda>_.
     bindO (Some (someE (not_found ''Folder not found'') (get_folder d folder_id))) (\<lambda>f.
     bindO (Some (requireE (find (\<lambda>f. f_parent f = Some folder_id) (folders d) = None \<and>
                            find (\<lambda>s. s_folder_id s = Some folder_id) (sources d) = None)
                    (conflict ''Folder still has sub-folders or sources; remove them first''))) (\<lambda>_.
       let d1 = (delete_scope_grants ScopeFolder folder_id d)
                  \<lparr>folders := tbl_del f_id folder_id (folders d)\<rparr>
       in Some (Inr (record_audit_event E d d1 (Some (u_id u)) ''folder.delete'' (Some ''folder'')
                 (Some folder_id) None)))))"

section \<open>The machine\<close>

datatype org_op =
    CreateCustomer user string
  | UpdateCustomer user int string
  | DeleteCustomer user int
  | CreateFolder user string int "int option"
  | UpdateFolder user int "string option" "int option option"
  | DeleteFolder user int

text \<open>A request's result: \<open>Inl None\<close> is a handler that does not return.\<close>

definition result_of :: "'a outcome \<Rightarrow> api_error option + 'a" where
  "result_of m = (case m of None \<Rightarrow> Inl None | Some (Inl e) \<Rightarrow> Inl (Some e) | Some (Inr x) \<Rightarrow> Inr x)"

fun exec_org :: "env \<Rightarrow> org_op \<Rightarrow> db \<Rightarrow> api_error option + db" where
  "exec_org E (CreateCustomer u name) d = result_of (Some (create_customer E u name d))"
| "exec_org E (UpdateCustomer u i name) d = result_of (Some (update_customer E u i name d))"
| "exec_org E (DeleteCustomer u i) d = result_of (Some (delete_customer E u i d))"
| "exec_org E (CreateFolder u name c p) d = result_of (create_folder E u name c p d)"
| "exec_org E (UpdateFolder u i name p) d = result_of (update_folder E u i name p d)"
| "exec_org E (DeleteFolder u i) d = result_of (delete_folder E u i d)"

section \<open>The invariant\<close>

definition folders_ok :: "db \<Rightarrow> bool" where
  "folders_ok d \<longleftrightarrow>
     distinct (map f_id (folders d)) \<and>
     (\<forall>f \<in> set (folders d). 0 < f_id f \<and> f_id f \<le> folder_seq d \<and> rooted (folders d) (Some (f_id f)) \<and>
        get_customer d (f_customer_id f) \<noteq> None \<and>
        (case f_parent f of None \<Rightarrow> True
         | Some p \<Rightarrow> \<exists>g. get_folder d p = Some g \<and> f_customer_id g = f_customer_id f))"

definition placed :: "db \<Rightarrow> source \<Rightarrow> bool" where
  "placed d s \<longleftrightarrow>
     (case s_folder_id s of None \<Rightarrow> True | Some i \<Rightarrow> get_folder d i \<noteq> None) \<and>
     (case s_customer_id s of None \<Rightarrow> True | Some c \<Rightarrow> get_customer d c \<noteq> None)"

definition grant_live :: "db \<Rightarrow> role_grant \<Rightarrow> bool" where
  "grant_live d g \<longleftrightarrow>
     (case g_scope_type g of
        ScopeCustomer \<Rightarrow> get_customer d (g_scope_id g) \<noteq> None
      | ScopeFolder \<Rightarrow> get_folder d (g_scope_id g) \<noteq> None
      | ScopeSource \<Rightarrow> get_source d (g_scope_id g) \<noteq> None)"

definition org_inv :: "db \<Rightarrow> bool" where
  "org_inv d \<longleftrightarrow> folders_ok d \<and> 0 \<le> folder_seq d \<and> list_all (placed d) (sources d) \<and>
     list_all (grant_live d) (role_grants d)"

section \<open>The tree under an update\<close>

lemma chain_append: "chain fs i l \<Longrightarrow> chain (fs @ [f]) i l"
proof (induction rule: chain.induct)
  case (chain_up i g l)
  then show ?case by (auto simp: table_simps intro: chain.chain_up)
qed (rule chain.chain_top)

lemma rooted_append: "rooted fs i \<Longrightarrow> rooted (fs @ [f]) i"
  unfolding rooted_def using chain_append by blast

lemma chain_put_other:
  "chain fs i l \<Longrightarrow> f_id f' \<notin> f_id ` set l \<Longrightarrow> chain (tbl_put f_id f' fs) i l"
proof (induction rule: chain.induct)
  case (chain_up i g l)
  from chain_up.hyps(1) have "f_id g = i" by (auto dest: tbl_get_Some)
  with chain_up show ?case by (auto simp: table_simps intro!: chain.chain_up)
qed (rule chain.chain_top)

lemma rooted_put:
  assumes "chain fs i l" "rooted (tbl_put f_id f' fs) (f_parent f')" "tbl_get f_id (f_id f') fs \<noteq> None"
  shows "rooted (tbl_put f_id f' fs) i"
  using assms(1)
proof (induction rule: chain.induct)
  case (chain_up i g l)
  show ?case
  proof (cases "i = f_id f'")
    case True
    with assms(2,3) show ?thesis by (simp add: rooted_Some table_simps)
  next
    case False
    with chain_up show ?thesis by (simp add: rooted_Some table_simps)
  qed
qed simp

lemma chain_del:
  "chain fs i l \<Longrightarrow> (\<forall>f \<in> set fs. f_parent f \<noteq> Some j) \<Longrightarrow> i \<noteq> Some j \<Longrightarrow> chain (tbl_del f_id j fs) i l"
proof (induction rule: chain.induct)
  case (chain_up i g l)
  from chain_up.hyps(1) have "g \<in> set fs" by (auto dest: tbl_get_Some)
  with chain_up show ?case by (auto simp: table_simps intro!: chain.chain_up)
qed (rule chain.chain_top)

lemma parent_walk_chain:
  "chain fs i l \<Longrightarrow> i = f_parent f \<Longrightarrow> \<forall>f \<in> set fs. 0 < f_id f \<Longrightarrow>
   parent_walk fs moved f = Some (moved \<notin> Some ` f_id ` set (f # l))"
proof (induction arbitrary: f rule: chain.induct)
  case chain_top
  then show ?case by (subst parent_walk.simps) (auto split: option.splits)
next
  case (chain_up i g l)
  from chain_up.hyps(1) chain_up.prems(2) have "i \<noteq> 0" by (auto dest!: tbl_get_Some)
  with chain_up.IH [of g] chain_up.hyps(1) chain_up.prems show ?case
    by (subst parent_walk.simps) (auto split: option.splits)
qed

lemma folder_chain_of:
  "folders_ok d \<Longrightarrow> get_folder d p = Some f \<Longrightarrow> \<exists>l. chain (folders d) (f_parent f) l"
proof -
  assume ok: "folders_ok d" and f: "get_folder d p = Some f"
  then have "rooted (folders d) (Some p)" by (auto simp: folders_ok_def dest!: tbl_get_Some)
  with f show ?thesis by (auto simp: rooted_Some) (simp add: rooted_def)
qed

text \<open>The parent check on a well-formed tree: it returns, and passes only a parent outside the moved
  folder's own subtree, in the same customer.\<close>

lemma validate_parent_ok:
  assumes "folders_ok d" "validate_parent d c (Some p) moved = Some (Inr ())"
  shows "\<exists>g l. get_folder d p = Some g \<and> f_customer_id g = c \<and> chain (folders d) (Some p) l \<and>
           moved \<notin> Some ` f_id ` set l"
proof -
  from assms(2) obtain g where g: "get_folder d p = Some g" "f_customer_id g = c"
    by (auto simp: validate_parent_def split: option.splits if_splits)
  obtain l where l: "chain (folders d) (f_parent g) l" using folder_chain_of [OF assms(1) g(1)] by blast
  have pos: "\<forall>f \<in> set (folders d). 0 < f_id f" using assms(1) by (simp add: folders_ok_def)
  have "moved \<notin> Some ` f_id ` set (g # l)"
    using assms(2) g parent_walk_chain [OF l refl pos, of moved] by (simp add: validate_parent_def)
  moreover have "chain (folders d) (Some p) (g # l)" using g(1) l by (rule chain.chain_up)
  ultimately show ?thesis using g by blast
qed

lemma validate_parent_returns: "folders_ok d \<Longrightarrow> validate_parent d c p moved \<noteq> None"
proof (cases p)
  case (Some q)
  assume ok: "folders_ok d"
  have pos: "\<forall>f \<in> set (folders d). 0 < f_id f" using ok by (simp add: folders_ok_def)
  show ?thesis
  proof (cases "get_folder d q")
    case (Some g)
    obtain l where "chain (folders d) (f_parent g) l" using folder_chain_of [OF ok Some] by blast
    from parent_walk_chain [OF this refl pos, of moved] Some \<open>p = Some q\<close> show ?thesis
      by (simp add: validate_parent_def)
  qed (simp add: validate_parent_def \<open>p = Some q\<close>)
qed (simp add: validate_parent_def)

section \<open>Every operation keeps the invariant\<close>

text \<open>What exists stays: the scopes of \<open>d\<close> are scopes of \<open>d'\<close>.\<close>

definition keeps_scopes :: "db \<Rightarrow> db \<Rightarrow> bool" where
  "keeps_scopes d d' \<longleftrightarrow>
     (\<forall>i. get_customer d i \<noteq> None \<longrightarrow> get_customer d' i \<noteq> None) \<and>
     (\<forall>i. get_folder d i \<noteq> None \<longrightarrow> get_folder d' i \<noteq> None) \<and>
     (\<forall>i. get_source d i \<noteq> None \<longrightarrow> get_source d' i \<noteq> None)"

lemma placed_mono: "keeps_scopes d d' \<Longrightarrow> placed d s \<Longrightarrow> placed d' s"
  unfolding keeps_scopes_def placed_def
  by (cases "s_folder_id s"; cases "s_customer_id s") simp_all

lemma grant_live_mono: "keeps_scopes d d' \<Longrightarrow> grant_live d g \<Longrightarrow> grant_live d' g"
  unfolding keeps_scopes_def grant_live_def by (cases "g_scope_type g") simp_all

lemma org_inv_step:
  assumes "org_inv d" "keeps_scopes d d'" "folders_ok d'" "0 \<le> folder_seq d'"
    and "sources d' = sources d" "role_grants d' = role_grants d"
  shows "org_inv d'"
  using assms placed_mono [OF assms(2)] grant_live_mono [OF assms(2)]
  by (simp add: org_inv_def list_all_iff)

lemma folders_ok_step:
  assumes "folders_ok d" "\<And>i. get_customer d i \<noteq> None \<Longrightarrow> get_customer d' i \<noteq> None"
    and "folders d' = folders d" "folder_seq d' = folder_seq d"
  shows "folders_ok d'"
  using assms by (simp add: folders_ok_def cong: option.case_cong)

lemma org_inv_audit [simp]: "org_inv (record_audit_event E seen d u a tt ti m) \<longleftrightarrow> org_inv d"
proof -
  have "placed (record_audit_event E seen d u a tt ti m) = placed d"
    "grant_live (record_audit_event E seen d u a tt ti m) = grant_live d"
    by (simp_all add: placed_def [abs_def] grant_live_def [abs_def] cong: scope_type.case_cong option.case_cong)
  moreover have "folders_ok (record_audit_event E seen d u a tt ti m) = folders_ok d"
    by (simp add: folders_ok_def cong: option.case_cong)
  ultimately show ?thesis by (simp add: org_inv_def)
qed

lemma result_of_Inr [simp]: "result_of m = Inr x \<longleftrightarrow> m = Some (Inr x)"
  by (auto simp: result_of_def split: option.splits sum.splits)

lemma org_inv_customers:
  assumes "org_inv d" "\<And>i. get_customer d i \<noteq> None \<Longrightarrow> tbl_get c_id i cs \<noteq> None"
  shows "org_inv (d\<lparr>customers := cs, customer_seq := n\<rparr>)"
proof -
  let ?d = "d\<lparr>customers := cs, customer_seq := n\<rparr>"
  have inv: "folders_ok d" "0 \<le> folder_seq d" using assms(1) by (simp_all add: org_inv_def)
  have "keeps_scopes d ?d" unfolding keeps_scopes_def using assms(2) by simp
  moreover have "folders_ok ?d" by (rule folders_ok_step [OF inv(1)]) (use assms(2) in simp_all)
  ultimately show ?thesis using org_inv_step [OF assms(1), of ?d] inv(2) by simp
qed

lemma result_of_simps [simp]:
  "result_of (Some (Inr x)) = Inr x" "result_of (Some (Inl e)) = Inl (Some e)"
  by (simp_all add: result_of_def)

lemma result_of_None [simp]: "result_of m = Inl None \<longleftrightarrow> m = None"
  by (auto simp: result_of_def split: option.splits sum.splits)

lemma create_customer_inv:
  assumes "org_inv d" "create_customer E u name d = Inr d'"
  shows "org_inv d'"
proof -
  let ?c = "\<lparr>c_id = customer_seq d + 1, c_name = name\<rparr>"
  have "org_inv (d\<lparr>customers := customers d @ [?c], customer_seq := customer_seq d + 1\<rparr>)"
    by (rule org_inv_customers [OF assms(1)]) (auto simp: table_simps)
  with assms(2) show ?thesis by (auto simp: create_customer_def bindE_Inr_iff Let_def)
qed

lemma update_customer_inv:
  assumes "org_inv d" "update_customer E u i name d = Inr d'"
  shows "org_inv d'"
proof -
  from assms(2) obtain c where c: "get_customer d i = Some c"
    by (auto simp: update_customer_def bindE_Inr_iff)
  have "org_inv (d\<lparr>customers := tbl_put c_id (c\<lparr>c_name := name\<rparr>) (customers d), customer_seq := customer_seq d\<rparr>)"
    by (rule org_inv_customers [OF assms(1)]) (auto simp: table_simps)
  with assms(2) c show ?thesis by (auto simp: update_customer_def bindE_Inr_iff Let_def)
qed

lemma find_none: "find P xs = None \<longleftrightarrow> (\<forall>x \<in> set xs. \<not> P x)"
  by (auto simp: find_None_iff)

lemma delete_customer_inv:
  assumes "org_inv d" "delete_customer E u i d = Inr d'"
  shows "org_inv d'"
proof -
  let ?d = "(delete_scope_grants ScopeCustomer i d)\<lparr>customers := tbl_del c_id i (customers d)\<rparr>"
  from assms(2) have none: "\<forall>s \<in> set (sources d). s_customer_id s \<noteq> Some i" "\<forall>f \<in> set (folders d). f_customer_id f \<noteq> i"
    and d': "d' = record_audit_event E d ?d (Some (u_id u)) ''customer.delete'' (Some ''customer'') (Some i) None"
    by (auto simp: delete_customer_def bindE_Inr_iff Let_def find_none)
  have get: "get_customer ?d j = (if j = i then None else get_customer d j)" for j
    by (simp add: table_simps)
  have "folders_ok ?d"
    using assms(1) none(2) get
    by (simp add: org_inv_def folders_ok_def delete_scope_grants_def cong: option.case_cong)
  moreover have "list_all (placed ?d) (sources d)"
    using assms(1) none(1) get
    by (auto simp: org_inv_def list_all_iff placed_def delete_scope_grants_def split: option.splits)
  moreover have "list_all (grant_live ?d) (role_grants ?d)"
    using assms(1) get
    by (auto simp: org_inv_def list_all_iff grant_live_def delete_scope_grants_def split: scope_type.splits)
  ultimately have "org_inv ?d" using assms(1) by (simp add: org_inv_def delete_scope_grants_def)
  with d' show ?thesis by simp
qed

text \<open>A new table of folders, with the rest as it was.\<close>

lemma org_inv_folders:
  assumes "org_inv d" "\<And>i. get_folder d i \<noteq> None \<Longrightarrow> tbl_get f_id i fs \<noteq> None"
    and "folders_ok (d\<lparr>folders := fs, folder_seq := n\<rparr>)" "0 \<le> n"
  shows "org_inv (d\<lparr>folders := fs, folder_seq := n\<rparr>)"
proof -
  have "keeps_scopes d (d\<lparr>folders := fs, folder_seq := n\<rparr>)" unfolding keeps_scopes_def using assms(2) by simp
  from org_inv_step [OF assms(1) this assms(3)] assms(4) show ?thesis by simp
qed

lemma fresh_folder:
  "folders_ok d \<Longrightarrow> get_folder d (folder_seq d + 1) = None"
  by (auto simp: folders_ok_def tbl_get_None)

lemma create_folder_inv:
  assumes "org_inv d" "create_folder E u name c p d = Some (Inr d')"
  shows "org_inv d'"
proof -
  let ?f = "\<lparr>f_id = folder_seq d + 1, f_name = name, f_customer_id = c, f_parent = p\<rparr>"
  let ?fs = "folders d @ [?f]"
  let ?d = "d\<lparr>folders := ?fs, folder_seq := folder_seq d + 1\<rparr>"
  have ok: "folders_ok d" and seq: "0 \<le> folder_seq d" using assms(1) by (simp_all add: org_inv_def)
  from assms(2) have cust: "get_customer d c \<noteq> None" and vp: "validate_parent d c p None = Some (Inr ())"
    and d': "org_inv d' \<longleftrightarrow> org_inv ?d"
    by (auto simp: create_folder_def bindO_Inr_iff Let_def)
  have fresh: "get_folder d (folder_seq d + 1) = None" by (rule fresh_folder [OF ok])
  have kept: "tbl_get f_id i ?fs = get_folder d i" if "get_folder d i \<noteq> None" for i
    using that by (auto simp: table_simps)
  have parent: "rooted (folders d) p \<and>
      (case p of None \<Rightarrow> True | Some q \<Rightarrow> \<exists>g. get_folder d q = Some g \<and> f_customer_id g = c)"
  proof (cases p)
    case (Some q)
    with validate_parent_ok [OF ok, of c q None] vp show ?thesis by (auto simp: rooted_def)
  qed simp
  have "folders_ok ?d"
    unfolding folders_ok_def
  proof (intro conjI ballI)
    show "distinct (map f_id (folders ?d))"
      using ok fresh by (auto simp: folders_ok_def tbl_get_None)
    fix f assume "f \<in> set (folders ?d)"
    then consider "f \<in> set (folders d)" | "f = ?f" by auto
    then have "0 < f_id f \<and> f_id f \<le> folder_seq d + 1 \<and> rooted ?fs (Some (f_id f)) \<and>
        get_customer d (f_customer_id f) \<noteq> None \<and>
        (case f_parent f of None \<Rightarrow> True | Some p \<Rightarrow> \<exists>g. tbl_get f_id p ?fs = Some g \<and> f_customer_id g = f_customer_id f)"
    proof cases
      case 1
      with ok have "0 < f_id f \<and> f_id f \<le> folder_seq d \<and> rooted (folders d) (Some (f_id f)) \<and>
        get_customer d (f_customer_id f) \<noteq> None \<and>
        (case f_parent f of None \<Rightarrow> True | Some p \<Rightarrow> \<exists>g. get_folder d p = Some g \<and> f_customer_id g = f_customer_id f)"
        by (simp add: folders_ok_def)
      with rooted_append [of "folders d" _ ?f] kept show ?thesis by (auto split: option.splits)
    next
      case 2
      have "tbl_get f_id (folder_seq d + 1) ?fs = Some ?f" using fresh by (simp add: table_simps)
      with 2 cust parent seq rooted_append [of "folders d" p ?f] kept show ?thesis
        by (auto simp: rooted_Some split: option.splits)
    qed
    then show "0 < f_id f" "f_id f \<le> folder_seq ?d" "rooted (folders ?d) (Some (f_id f))"
      "get_customer ?d (f_customer_id f) \<noteq> None"
      "case f_parent f of None \<Rightarrow> True | Some p \<Rightarrow> \<exists>g. get_folder ?d p = Some g \<and> f_customer_id g = f_customer_id f"
      by (simp_all cong: option.case_cong)
  qed
  then have "org_inv ?d"
    using kept seq by (intro org_inv_folders [OF assms(1)]) auto
  with d' show ?thesis by simp
qed

lemma put_folder_inv:
  assumes "org_inv d" "get_folder d i = Some f" "f_id f2 = i" "f_customer_id f2 = f_customer_id f"
    and "rooted (tbl_put f_id f2 (folders d)) (f_parent f2)"
    and "case f_parent f2 of None \<Rightarrow> True | Some p \<Rightarrow> \<exists>g. get_folder d p = Some g \<and> f_customer_id g = f_customer_id f"
  shows "org_inv (d\<lparr>folders := tbl_put f_id f2 (folders d)\<rparr>)"
proof -
  let ?fs = "tbl_put f_id f2 (folders d)" and ?d = "d\<lparr>folders := tbl_put f_id f2 (folders d), folder_seq := folder_seq d\<rparr>"
  have ok: "folders_ok d" and seq: "0 \<le> folder_seq d" using assms(1) by (simp_all add: org_inv_def)
  have get: "tbl_get f_id j ?fs = (if j = i then Some f2 else get_folder d j)" for j
    using assms(2,3) by (simp add: table_simps)
  have roots: "rooted ?fs (Some j)" if "rooted (folders d) (Some j)" for j
    using that rooted_put [of "folders d" "Some j" _ f2] assms(2,3,5) by (auto simp: rooted_def)
  have cust: "\<exists>g'. tbl_get f_id p ?fs = Some g' \<and> f_customer_id g' = x"
    if "get_folder d p = Some g" "f_customer_id g = x" for p g x
    using that assms(2,4) get by auto
  have old: "0 < f_id g \<and> f_id g \<le> folder_seq d \<and> rooted (folders d) (Some (f_id g)) \<and>
      get_customer d (f_customer_id g) \<noteq> None \<and>
      (case f_parent g of None \<Rightarrow> True | Some p \<Rightarrow> \<exists>h. get_folder d p = Some h \<and> f_customer_id h = f_customer_id g)"
    if "g \<in> set (folders d)" for g
    using ok that by (simp add: folders_ok_def)
  have f: "f \<in> set (folders d)" "f_id f = i" using assms(2) by (auto dest: tbl_get_Some)
  have "folders_ok ?d"
    unfolding folders_ok_def
  proof (intro conjI ballI)
    have "map f_id ?fs = map f_id (folders d)" by (auto simp: tbl_put_def)
    then show "distinct (map f_id (folders ?d))" using ok by (simp add: folders_ok_def)
    fix g assume "g \<in> set (folders ?d)"
    then consider "g \<in> set (folders d)" | "g = f2" by (auto simp: tbl_put_def)
    then have "0 < f_id g \<and> f_id g \<le> folder_seq d \<and> rooted ?fs (Some (f_id g)) \<and>
        get_customer d (f_customer_id g) \<noteq> None \<and>
        (case f_parent g of None \<Rightarrow> True | Some p \<Rightarrow> \<exists>h. tbl_get f_id p ?fs = Some h \<and> f_customer_id h = f_customer_id g)"
    proof cases
      case 1
      with old [OF 1] roots cust show ?thesis by (fastforce split: option.splits)
    next
      case 2
      with old [OF f(1)] f(2) roots cust assms(3,4,6) show ?thesis by (fastforce split: option.splits)
    qed
    then show "0 < f_id g" "f_id g \<le> folder_seq ?d" "rooted (folders ?d) (Some (f_id g))"
      "get_customer ?d (f_customer_id g) \<noteq> None"
      "case f_parent g of None \<Rightarrow> True | Some p \<Rightarrow> \<exists>h. get_folder ?d p = Some h \<and> f_customer_id h = f_customer_id g"
      by (simp_all cong: option.case_cong)
  qed
  then have "org_inv ?d"
    using get seq by (intro org_inv_folders [OF assms(1)]) auto
  then show ?thesis by simp
qed

lemma update_folder_inv:
  assumes "org_inv d" "update_folder E u i name pf d = Some (Inr d')"
  shows "org_inv d'"
proof -
  have ok: "folders_ok d" using assms(1) by (simp add: org_inv_def)
  from assms(2) obtain f where f: "get_folder d i = Some f" by (auto simp: update_folder_def bindO_Inr_iff)
  then have fid: "f_id f = i" "f \<in> set (folders d)" by (auto dest: tbl_get_Some)
  define f1 where "f1 = (case name of None \<Rightarrow> f | Some n \<Rightarrow> f\<lparr>f_name := n\<rparr>)"
  have f1: "f_id f1 = i" "f_customer_id f1 = f_customer_id f" "f_parent f1 = f_parent f"
    using fid by (auto simp: f1_def split: option.splits)
  from assms(2) f f1_def obtain f2 where f2: "(case pf of None \<Rightarrow> Some (Inr f1)
      | Some p \<Rightarrow> bindO (validate_parent d (f_customer_id f) p (Some (f_id f))) (\<lambda>_. Some (Inr (f1\<lparr>f_parent := p\<rparr>)))) =
      Some (Inr f2)" and d': "org_inv d' \<longleftrightarrow> org_inv (d\<lparr>folders := tbl_put f_id f2 (folders d)\<rparr>)"
    by (auto simp: update_folder_def bindO_Inr_iff Let_def)
  have same: "f_id f2 = i" "f_customer_id f2 = f_customer_id f"
    using f2 f1 by (auto simp: bindO_Inr_iff split: option.splits)
  have old: "case f_parent f of None \<Rightarrow> True | Some p \<Rightarrow> \<exists>g. get_folder d p = Some g \<and> f_customer_id g = f_customer_id f"
    using ok fid by (simp add: folders_ok_def)
  have "(\<exists>l. chain (folders d) (f_parent f2) l \<and> i \<notin> f_id ` set l) \<and>
      (case f_parent f2 of None \<Rightarrow> True | Some p \<Rightarrow> \<exists>g. get_folder d p = Some g \<and> f_customer_id g = f_customer_id f)"
  proof (cases pf)
    case None
    with f2 have "f_parent f2 = f_parent f" using f1 by simp
    moreover obtain l where l: "chain (folders d) (f_parent f) l" using folder_chain_of [OF ok f] by blast
    moreover have "i \<notin> f_id ` set l" using chain_distinct [OF chain.chain_up [OF f l]] fid by simp
    ultimately show ?thesis using old by metis
  next
    case (Some p)
    with f2 fid have vp: "validate_parent d (f_customer_id f) p (Some i) = Some (Inr ())" "f_parent f2 = p"
      by (auto simp: bindO_Inr_iff)
    show ?thesis
    proof (cases p)
      case (Some q)
      with validate_parent_ok [OF ok, of "f_customer_id f" q "Some i"] vp(1) obtain g l where
        "get_folder d q = Some g" "f_customer_id g = f_customer_id f" "chain (folders d) (Some q) l"
        "Some i \<notin> Some ` f_id ` set l" by blast
      moreover from this(4) have "i \<notin> f_id ` set l" by blast
      ultimately show ?thesis using vp(2) Some by auto
    qed (use vp(2) in auto)
  qed
  moreover from this obtain l where "chain (folders d) (f_parent f2) l" "i \<notin> f_id ` set l" by blast
  then have "rooted (tbl_put f_id f2 (folders d)) (f_parent f2)"
    using chain_put_other [of "folders d" "f_parent f2" l f2] same by (auto simp: rooted_def)
  ultimately show ?thesis using put_folder_inv [OF assms(1) f same] d' by blast
qed

lemma delete_folder_inv:
  assumes "org_inv d" "delete_folder E u i d = Some (Inr d')"
  shows "org_inv d'"
proof -
  let ?d = "(delete_scope_grants ScopeFolder i d)\<lparr>folders := tbl_del f_id i (folders d)\<rparr>"
  from assms(2) have none: "\<forall>f \<in> set (folders d). f_parent f \<noteq> Some i" "\<forall>s \<in> set (sources d). s_folder_id s \<noteq> Some i"
    and d': "org_inv d' \<longleftrightarrow> org_inv ?d"
    by (auto simp: delete_folder_def bindO_Inr_iff Let_def find_none)
  have get: "get_folder ?d j = (if j = i then None else get_folder d j)" for j
    by (simp add: table_simps)
  have ok: "folders_ok d" using assms(1) by (simp add: org_inv_def)
  have old: "0 < f_id g \<and> f_id g \<le> folder_seq d \<and> rooted (folders d) (Some (f_id g)) \<and>
      get_customer d (f_customer_id g) \<noteq> None \<and>
      (case f_parent g of None \<Rightarrow> True | Some p \<Rightarrow> \<exists>h. get_folder d p = Some h \<and> f_customer_id h = f_customer_id g)"
    if "g \<in> set (folders d)" for g
    using ok that by (simp add: folders_ok_def)
  have "folders_ok ?d"
    unfolding folders_ok_def
  proof (intro conjI ballI)
    show "distinct (map f_id (folders ?d))"
      using ok by (simp add: folders_ok_def tbl_del_def distinct_map_filter)
    fix g assume "g \<in> set (folders ?d)"
    then have g: "g \<in> set (folders d)" "f_id g \<noteq> i" by (auto simp: tbl_del_def)
    obtain l where "chain (folders d) (Some (f_id g)) l" using old [OF g(1)] by (auto simp: rooted_def)
    from chain_del [OF this none(1)] g(2) have "rooted (folders ?d) (Some (f_id g))" by (auto simp: rooted_def)
    moreover have "case f_parent g of None \<Rightarrow> True
      | Some p \<Rightarrow> \<exists>h. get_folder ?d p = Some h \<and> f_customer_id h = f_customer_id g"
    proof (cases "f_parent g")
      case (Some p)
      have "p \<noteq> i" using none(1) g(1) Some by auto
      with old [OF g(1)] Some show ?thesis by (simp add: table_simps)
    qed simp
    ultimately show "0 < f_id g" "f_id g \<le> folder_seq ?d" "rooted (folders ?d) (Some (f_id g))"
      "get_customer ?d (f_customer_id g) \<noteq> None"
      "case f_parent g of None \<Rightarrow> True | Some p \<Rightarrow> \<exists>h. get_folder ?d p = Some h \<and> f_customer_id h = f_customer_id g"
      using old [OF g(1)] by (simp_all add: delete_scope_grants_def cong: option.case_cong)
  qed
  moreover have "list_all (placed ?d) (sources d)"
    using assms(1) none(2) get
    by (auto simp: org_inv_def list_all_iff placed_def delete_scope_grants_def split: option.splits)
  moreover have "list_all (grant_live ?d) (role_grants ?d)"
    using assms(1) get
    by (auto simp: org_inv_def list_all_iff grant_live_def delete_scope_grants_def split: scope_type.splits)
  ultimately have "org_inv ?d" using assms(1) by (simp add: org_inv_def delete_scope_grants_def)
  with d' show ?thesis by simp
qed

interpretation org: guarded_machine "exec_org E" org_inv for E
proof
  fix s s' and x :: org_op
  assume "org_inv s" "exec_org E x s = Inr s'"
  then show "org_inv s'"
    by (cases x) (auto intro: create_customer_inv update_customer_inv delete_customer_inv create_folder_inv
        update_folder_inv delete_folder_inv)
qed

section \<open>Properties\<close>

lemma exec_org_audit_only: "sources d' = sources d \<Longrightarrow> org_inv d \<Longrightarrow> org_inv d'
   \<Longrightarrow> s \<in> set (sources d') \<Longrightarrow> \<exists>l. chain (folders d') (s_folder_id s) l"
proof -
  assume inv: "org_inv d'" and s: "s \<in> set (sources d')"
  then have "placed d' s" by (simp add: org_inv_def list_all_iff)
  show ?thesis
  proof (cases "s_folder_id s")
    case (Some i)
    with \<open>placed d' s\<close> obtain f where "get_folder d' i = Some f" by (auto simp: placed_def)
    with inv Some show ?thesis
      by (auto simp: org_inv_def folders_ok_def rooted_def dest!: tbl_get_Some)
  qed (auto intro: chain.chain_top)
qed

text \<open>
  C16: Whatever customer and folder requests are made, in any order, by anyone, every permission check
  on a source afterwards returns an answer: the walk up the folders ends and reads no missing row.
\<close>

theorem permission_checks_always_answer:
  assumes "org_inv d" "d' = org.run_ops E ops d" "s \<in> set (sources d')" "user_role d' u = Inr r"
  shows "\<exists>b. resolve_capability d' u s cap = Some (Inr b)"
proof -
  have inv: "org_inv d'" using org.run_inv [OF assms(1)] assms(2) by simp
  obtain l where "chain (folders d') (s_folder_id s) l"
    using exec_org_audit_only [OF refl inv inv assms(3)] by blast
  from folder_grant_chain [OF this] assms(4) show ?thesis
    by (auto simp: resolve_capability_def resolve_folder_or_customer_capability_def split: option.splits)
qed

text \<open>
  Every customer and folder request returns, with the new state or an error: the cycle check of a
  folder move never loops.
\<close>

theorem org_requests_return:
  assumes "org_inv d"
  shows "exec_org E op d \<noteq> Inl None"
proof -
  have ok: "folders_ok d" using assms by (simp add: org_inv_def)
  note vp = validate_parent_returns [OF ok]
  show ?thesis
    by (cases op) (auto simp: create_folder_def update_folder_def delete_folder_def bindO_None_iff Let_def vp
        simp del: not_None_eq split: option.splits)
qed

text \<open>
  A folder that is created starts with no grants: no grant left behind by an earlier folder names
  its id, since deleting a folder deletes its grants and an id is never given twice.
\<close>

theorem new_folder_has_no_grants:
  assumes "org_inv d" "create_folder E u name c p d = Some (Inr d')"
  shows "get_folder d' (folder_seq d') \<noteq> None \<and> find_grant d' role_id ScopeFolder (folder_seq d') = None"
proof -
  have fresh: "get_folder d (folder_seq d + 1) = None"
    using assms(1) by (intro fresh_folder) (simp add: org_inv_def)
  have "find_grant d role_id ScopeFolder (folder_seq d + 1) = None"
    using assms(1) fresh
    by (auto simp: find_grant_def find_none org_inv_def list_all_iff grant_live_def split: scope_type.splits)
  with assms(2) fresh show ?thesis
    by (auto simp: create_folder_def bindO_Inr_iff Let_def find_grant_def table_simps)
qed

section \<open>Witnesses\<close>

definition managed_db :: db where
  "managed_db = sample_db\<lparr>roles := [operator_role\<lparr>ro_global_capabilities := [CreateSource]\<rparr>]\<rparr>"

lemma managed_inv: "org_inv managed_db"
proof -
  have f: "folders managed_db = [outer_folder, inner_folder]" "get_folder managed_db 1 = Some outer_folder"
    "get_folder managed_db 2 = Some inner_folder"
    by (simp_all add: managed_db_def sample_db_def tbl_get_def outer_folder_def inner_folder_def)
  have "rooted (folders managed_db) (Some 1) \<and> rooted (folders managed_db) (Some 2)"
    using f by (simp add: rooted_Some) (simp add: rooted_Some outer_folder_def inner_folder_def)
  moreover have "get_customer managed_db 1 \<noteq> None" by code_simp
  moreover have "f_id outer_folder = 1" "f_id inner_folder = 2" "f_customer_id outer_folder = 1"
    "f_customer_id inner_folder = 1" "f_parent outer_folder = None" "f_parent inner_folder = Some 1"
    by code_simp+
  moreover have "folder_seq managed_db = 2" by code_simp
  ultimately have "folders_ok managed_db" using f by (simp add: folders_ok_def)
  moreover have "list_all (placed managed_db) (sources managed_db)"
    "list_all (grant_live managed_db) (role_grants managed_db)" "0 \<le> folder_seq managed_db"
    by code_simp+
  ultimately show ?thesis by (simp add: org_inv_def)
qed

theorem permission_checks_always_answer_witness:
  "\<exists>b. resolve_capability (org.run_ops length_env [CreateCustomer operator ''b'', DeleteFolder operator 9] managed_db)
         operator sample_source View = Some (Inr b)"
proof (rule permission_checks_always_answer [OF managed_inv refl])
  let ?d = "org.run_ops length_env [CreateCustomer operator ''b'', DeleteFolder operator 9] managed_db"
  have role: "user_role managed_db operator = Inr (operator_role\<lparr>ro_global_capabilities := [CreateSource]\<rparr>)"
    by code_simp
  have "customers managed_db = [\<lparr>c_id = 1, c_name = ''acme''\<rparr>]" by code_simp
  then obtain d1 where d1: "exec_org length_env (CreateCustomer operator ''b'') managed_db = Inr d1"
    "sources d1 = sources managed_db" "roles d1 = roles managed_db" "folders d1 = folders managed_db"
    using role by (simp add: create_customer_def require_global_capability_def result_of_def Let_def)
  have "\<exists>e. exec_org length_env (DeleteFolder operator 9) d1 = Inl e"
    using role d1(3,4)
    by (simp add: delete_folder_def require_global_capability_def user_role_def result_of_def)
      (simp add: managed_db_def sample_db_def tbl_get_def outer_folder_def inner_folder_def)
  then have "?d = d1" using d1(1) by auto
  with d1 role show "sample_source \<in> set (sources ?d)"
    "user_role ?d operator = Inr (operator_role\<lparr>ro_global_capabilities := [CreateSource]\<rparr>)"
    by (simp_all add: user_role_def) (simp add: managed_db_def sample_db_def)
qed

theorem org_requests_return_witness:
  "exec_org length_env (UpdateFolder operator 1 None (Some (Some 2))) managed_db \<noteq> Inl None"
  by (rule org_requests_return [OF managed_inv])

theorem new_folder_has_no_grants_witness:
  "\<exists>d'. create_folder length_env operator ''logs'' 1 (Some 2) managed_db = Some (Inr d') \<and>
     get_folder d' (folder_seq d') \<noteq> None \<and> find_grant d' 5 ScopeFolder (folder_seq d') = None"
proof -
  have "require_global_capability managed_db operator CreateSource = Inr ()"
    "get_customer managed_db 1 = Some \<lparr>c_id = 1, c_name = ''acme''\<rparr>"
    "validate_parent managed_db 1 (Some 2) None = Some (Inr ())"
    by code_simp+
  then obtain d' where d': "create_folder length_env operator ''logs'' 1 (Some 2) managed_db = Some (Inr d')"
    by (simp add: create_folder_def Let_def)
  from new_folder_has_no_grants [OF managed_inv d', of 5] d' show ?thesis by blast
qed

text \<open>
  Renaming a customer to a name in use is not refused as a conflict: the UNIQUE constraint fails at
  the flush and the request ends with a server error, where creating one answers 409.
\<close>

lemma rename_to_used_name_is_a_server_error:
  assumes "require_global_capability d u CreateSource = Inr ()" "get_customer d i = Some c"
    and "x \<in> set (customers d)" "c_id x \<noteq> i"
  shows "update_customer E u i (c_name x) d = Inl IntegrityError"
    and "create_customer E u (c_name x) d = Inl (conflict ''Name already in use'')"
proof -
  have "(\<forall>y \<in> set (customers d). c_id y \<noteq> i \<longrightarrow> c_name y \<noteq> c_name x) = False" using assms(3,4) by blast
  then show "update_customer E u i (c_name x) d = Inl IntegrityError"
    unfolding update_customer_def assms(1,2) bindE_simps someE_simps
    by (simp only: requireE_def if_False bindE_simps)
  obtain y where "find (\<lambda>c. c_name c = c_name x) (customers d) = Some y"
    using assms(3) by (cases "find (\<lambda>c. c_name c = c_name x) (customers d)") (auto simp: find_None_iff)
  then show "create_customer E u (c_name x) d = Inl (conflict ''Name already in use'')"
    using assms(1) by (simp add: create_customer_def requireE_def)
qed

end
