(* ===== verification/Sessions.thy ===== *)
theory Sessions
  imports OrgApi "HOL-Library.Product_Lexorder"
begin

text \<open>
  \<open>app/auth/sessions.py\<close> and \<open>app/auth/providers/local.py\<close>: login sessions, which the database knows
  by the hash of their token, and local accounts. SHA-256, argon2 and the configured lifetime are
  in the record \<open>auth_env\<close>; a random value (a token, a salt) is an argument of the operation that
  draws it.
\<close>

record auth_env =
  au_sha256 :: "string \<Rightarrow> string"
  au_argon_hash :: "string \<Rightarrow> string \<Rightarrow> string"
  au_argon_verify :: "string \<Rightarrow> string \<Rightarrow> bool"
  au_needs_rehash :: "string \<Rightarrow> bool"
  au_session_ttl_hours :: int

section \<open>Sessions\<close>

definition hour_us :: int where
  "hour_us = 3600000000"

definition last_seen_resolution :: int where
  "last_seen_resolution = 60000000"

definition hash_token :: "auth_env \<Rightarrow> string \<Rightarrow> string" where
  "hash_token A token = au_sha256 A token"

definition find_session :: "auth_env \<Rightarrow> db \<Rightarrow> string \<Rightarrow> auth_session option" where
  "find_session A d token = find (\<lambda>s. as_token_hash s = hash_token A token) (auth_sessions d)"

text \<open>\<open>token\<close> is the fresh \<open>secrets.token_urlsafe(32)\<close>; the hash column is UNIQUE.\<close>

definition create_session ::
  "env \<Rightarrow> auth_env \<Rightarrow> user \<Rightarrow> string option \<Rightarrow> string \<Rightarrow> db \<Rightarrow> api_error + (auth_session \<times> string \<times> db)" where
  "create_session E A u user_agent token d =
     (let s = \<lparr>as_id = tbl_max as_id (auth_sessions d) + 1, as_token_hash = hash_token A token,
               as_user_id = u_id u, as_created_at = e_now E,
               as_expires_at = e_now E + au_session_ttl_hours A * hour_us,
               as_last_seen_at = None, as_user_agent = user_agent\<rparr>
      in bindE (requireE (find_session A d token = None) IntegrityError) (\<lambda>_.
         Inr (s, token, d\<lparr>auth_sessions := auth_sessions d @ [s]\<rparr>)))"

definition get_user_by_token :: "env \<Rightarrow> auth_env \<Rightarrow> string \<Rightarrow> db \<Rightarrow> user option \<times> db" where
  "get_user_by_token E A token d =
     (case find_session A d token of
        None \<Rightarrow> (None, d)
      | Some s \<Rightarrow>
          if as_expires_at s < e_now E then (None, d)
          else
            (case get_user d (as_user_id s) of
               None \<Rightarrow> (None, d)
             | Some u \<Rightarrow>
                 if \<not> u_active u then (None, d)
                 else
                   (Some u,
                    if (case as_last_seen_at s of None \<Rightarrow> True | Some t \<Rightarrow> last_seen_resolution \<le> e_now E - t)
                    then d\<lparr>auth_sessions := tbl_put as_id (s\<lparr>as_last_seen_at := Some (e_now E)\<rparr>) (auth_sessions d)\<rparr>
                    else d)))"

definition delete_session :: "auth_env \<Rightarrow> string \<Rightarrow> db \<Rightarrow> db" where
  "delete_session A token d =
     (case find_session A d token of
        None \<Rightarrow> d
      | Some s \<Rightarrow> d\<lparr>auth_sessions := tbl_del as_id (as_id s) (auth_sessions d)\<rparr>)"

text \<open>\<open>ORDER BY last_seen_at DESC NULLS LAST, created_at DESC\<close>.\<close>

definition session_rank :: "auth_session \<Rightarrow> (int \<times> int) \<times> int" where
  "session_rank s = ((case as_last_seen_at s of None \<Rightarrow> (1, 0) | Some t \<Rightarrow> (0, - t)), - as_created_at s)"

definition list_sessions_for_user :: "env \<Rightarrow> db \<Rightarrow> int \<Rightarrow> auth_session list" where
  "list_sessions_for_user E d user_id =
     sort_key session_rank
       (filter (\<lambda>s. as_user_id s = user_id \<and> e_now E < as_expires_at s) (auth_sessions d))"

definition revoke_session :: "int \<Rightarrow> int \<Rightarrow> db \<Rightarrow> bool \<times> db" where
  "revoke_session user_id session_id d =
     (case tbl_get as_id session_id (auth_sessions d) of
        None \<Rightarrow> (False, d)
      | Some s \<Rightarrow>
          if as_user_id s \<noteq> user_id then (False, d)
          else (True, d\<lparr>auth_sessions := tbl_del as_id session_id (auth_sessions d)\<rparr>))"

text \<open>\<open>if except_token\<close> is false for the empty string too.\<close>

definition revoke_all_sessions :: "auth_env \<Rightarrow> int \<Rightarrow> string option \<Rightarrow> db \<Rightarrow> nat \<times> db" where
  "revoke_all_sessions A user_id except_token d =
     (let keep = (case except_token of None \<Rightarrow> None
                  | Some t \<Rightarrow> if t = '''' then None else Some (hash_token A t));
          doomed = (\<lambda>s. as_user_id s = user_id \<and> Some (as_token_hash s) \<noteq> keep)
      in (length (filter doomed (auth_sessions d)),
          d\<lparr>auth_sessions := filter (\<lambda>s. \<not> doomed s) (auth_sessions d)\<rparr>))"

definition purge_expired_sessions :: "env \<Rightarrow> db \<Rightarrow> nat \<times> db" where
  "purge_expired_sessions E d =
     (length (filter (\<lambda>s. as_expires_at s < e_now E) (auth_sessions d)),
      d\<lparr>auth_sessions := filter (\<lambda>s. \<not> as_expires_at s < e_now E) (auth_sessions d)\<rparr>)"

definition run_session_purge_sweep :: "env \<Rightarrow> db \<Rightarrow> db" where
  "run_session_purge_sweep E d = snd (purge_expired_sessions E d)"

section \<open>Local accounts\<close>

definition hash_password :: "auth_env \<Rightarrow> string \<Rightarrow> string \<Rightarrow> string" where
  "hash_password A salt password = au_argon_hash A salt password"

definition verify_password :: "auth_env \<Rightarrow> user \<Rightarrow> string \<Rightarrow> bool" where
  "verify_password A u password =
     (case u_password_hash u of None \<Rightarrow> False | Some h \<Rightarrow> au_argon_verify A h password)"

definition create_local_user ::
  "env \<Rightarrow> auth_env \<Rightarrow> string \<Rightarrow> int option \<Rightarrow> string \<Rightarrow> string \<Rightarrow> int \<Rightarrow> db \<Rightarrow> api_error + (user \<times> db)" where
  "create_local_user E A salt actor username password role_id d =
     (let u = \<lparr>u_id = tbl_max u_id (users d) + 1, u_username = username,
               u_password_hash = Some (hash_password A salt password), u_role_id = role_id, u_active = True,
               u_auth_provider = AuthLocal, u_external_issuer = None, u_external_id = None,
               u_last_login_at = None, u_must_change_password = True, u_mfa_enabled = False,
               u_mfa_secret_encrypted = None, u_mfa_enrolled_at = None, u_mfa_last_used_step = None\<rparr>;
          d1 = d\<lparr>users := users d @ [u]\<rparr>
      in bindE (requireE (\<forall>x \<in> set (users d). u_username x \<noteq> username) IntegrityError) (\<lambda>_.
         Inr (u, record_audit_event E d1 d1 actor ''user.create'' (Some ''user'') (Some (u_id u))
                   (Some [(''username'', JStr username)]))))"

definition change_password :: "env \<Rightarrow> auth_env \<Rightarrow> string \<Rightarrow> user \<Rightarrow> string \<Rightarrow> db \<Rightarrow> db" where
  "change_password E A salt u new_password d =
     (let u1 = u\<lparr>u_password_hash := Some (hash_password A salt new_password), u_must_change_password := False\<rparr>;
          d1 = d\<lparr>users := tbl_put u_id u1 (users d)\<rparr>
      in record_audit_event E d1 d1 (Some (u_id u)) ''user.change_password'' (Some ''user'') (Some (u_id u)) None)"

text \<open>\<open>LocalPasswordProvider.authenticate\<close>; the verify against a dummy hash changes nothing.\<close>

definition authenticate ::
  "auth_env \<Rightarrow> string \<Rightarrow> string \<Rightarrow> string \<Rightarrow> db \<Rightarrow> user option \<times> db" where
  "authenticate A salt username password d =
     (case find (\<lambda>u. u_username u = username) (users d) of
        None \<Rightarrow> (None, d)
      | Some u \<Rightarrow>
          if \<not> u_active u \<or> u_password_hash u = None then (None, d)
          else if \<not> verify_password A u password then (None, d)
          else if au_needs_rehash A (the (u_password_hash u)) then
            (let u1 = u\<lparr>u_password_hash := Some (hash_password A salt password)\<rparr>
             in (Some u1, d\<lparr>users := tbl_put u_id u1 (users d)\<rparr>))
          else (Some u, d))"

definition complete_login :: "env \<Rightarrow> user \<Rightarrow> db \<Rightarrow> user \<times> db" where
  "complete_login E u d =
     (let u1 = u\<lparr>u_last_login_at := Some (e_now E)\<rparr>; d1 = d\<lparr>users := tbl_put u_id u1 (users d)\<rparr>
      in (u1, record_audit_event E d1 d1 (Some (u_id u)) ''user.login'' (Some ''user'') (Some (u_id u)) None))"

section \<open>Facts\<close>

lemma find_session_Some:
  "find_session A d token = Some s \<Longrightarrow> s \<in> set (auth_sessions d) \<and> as_token_hash s = hash_token A token"
  by (auto simp: find_session_def find_Some_iff)

lemma get_user_by_token_Some:
  assumes "fst (get_user_by_token E A token d) = Some u"
  shows "\<exists>s. find_session A d token = Some s \<and> e_now E \<le> as_expires_at s \<and>
           get_user d (as_user_id s) = Some u \<and> u_active u"
  using assms by (auto simp: get_user_by_token_def split: option.splits if_splits)

section \<open>Properties\<close>

text \<open>
  A token signs someone in only while there is an unexpired session row with that token's hash,
  for a user that exists and is active: deactivating a user or deleting the row ends access at once.
\<close>

theorem token_needs_live_session:
  assumes "fst (get_user_by_token E A token d) = Some u"
  shows "u_active u \<and> get_user d (u_id u) = Some u \<and>
    (\<exists>s \<in> set (auth_sessions d). as_token_hash s = hash_token A token \<and> as_user_id s = u_id u \<and>
       e_now E \<le> as_expires_at s)"
proof -
  from get_user_by_token_Some [OF assms] obtain s where
    s: "find_session A d token = Some s" "e_now E \<le> as_expires_at s" "get_user d (as_user_id s) = Some u" "u_active u"
    by blast
  from s(3) have "u_id u = as_user_id s" by (auto dest: tbl_get_Some)
  with s find_session_Some [OF s(1)] show ?thesis by auto
qed

text \<open>
  Revoking all sessions of a user leaves no token that signs that user in, except one with the
  hash of the session that was kept, and leaves every other user's sessions alone.
\<close>

theorem revoke_all_ends_every_other_session:
  assumes "revoke_all_sessions A user_id except_token d = (n, d')"
    and "fst (get_user_by_token E A token d') = Some u" "u_id u = user_id"
  shows "\<exists>keep. except_token = Some keep \<and> keep \<noteq> '''' \<and> hash_token A token = hash_token A keep"
proof -
  from get_user_by_token_Some [OF assms(2)] obtain s where
    s: "find_session A d' token = Some s" "get_user d' (as_user_id s) = Some u" by blast
  from s(2) assms(3) have "as_user_id s = user_id" by (auto dest: tbl_get_Some)
  with find_session_Some [OF s(1)] assms(1) show ?thesis
    by (auto simp: revoke_all_sessions_def Let_def split: option.splits if_splits)
qed

section \<open>Witnesses\<close>

definition plain_auth :: auth_env where
  "plain_auth = \<lparr>au_sha256 = (\<lambda>s. ''#'' @ s), au_argon_hash = (\<lambda>salt pw. salt @ ''$'' @ pw),
     au_argon_verify = (\<lambda>h pw. snd (partition_on CHR ''$'' h) = pw), au_needs_rehash = (\<lambda>_. False),
     au_session_ttl_hours = 12\<rparr>"

definition session_row :: "int \<Rightarrow> string \<Rightarrow> int \<Rightarrow> auth_session" where
  "session_row i token user_id =
     \<lparr>as_id = i, as_token_hash = hash_token plain_auth token, as_user_id = user_id, as_created_at = 0,
      as_expires_at = hour_us, as_last_seen_at = None, as_user_agent = None\<rparr>"

definition signed_in_db :: db where
  "signed_in_db = sample_db\<lparr>auth_sessions := [session_row 1 ''t1'' 7, session_row 2 ''t2'' 7]\<rparr>"

theorem token_needs_live_session_witness:
  "u_active operator \<and> get_user signed_in_db (u_id operator) = Some operator \<and>
    (\<exists>s \<in> set (auth_sessions signed_in_db). as_token_hash s = hash_token plain_auth ''t1'' \<and>
       as_user_id s = u_id operator \<and> e_now length_env \<le> as_expires_at s)"
  by (rule token_needs_live_session) code_simp

theorem revoke_all_ends_every_other_session_witness:
  "\<exists>keep. Some ''t2'' = Some keep \<and> keep \<noteq> '''' \<and> hash_token plain_auth ''t2'' = hash_token plain_auth keep"
proof (rule revoke_all_ends_every_other_session)
  show "revoke_all_sessions plain_auth 7 (Some ''t2'') signed_in_db =
      (1, signed_in_db\<lparr>auth_sessions := [session_row 2 ''t2'' 7]\<rparr>)" by code_simp
  show "fst (get_user_by_token length_env plain_auth ''t2'' (signed_in_db\<lparr>auth_sessions := [session_row 2 ''t2'' 7]\<rparr>))
      = Some operator" by code_simp
  show "u_id operator = 7" by code_simp
qed

end
