(* ===== verification/UsersApi.thy ===== *)
theory UsersApi
  imports Sessions
begin

text \<open>
  \<open>app/api/users.py\<close>: the account endpoints as a state machine. Two promises: nobody creates or
  changes an account beyond their own authority, and an active super-admin is left at all times.
\<close>

section \<open>Guards\<close>

text \<open>\<open>_get_manageable_user\<close>: the target with its role, within the actor's authority.\<close>

definition get_manageable_user :: "db \<Rightarrow> role \<Rightarrow> int \<Rightarrow> api_error + (user \<times> role)" where
  "get_manageable_user d actor_role user_id =
     bindE (someE (not_found ''User not found'') (get_user d user_id)) (\<lambda>target.
     bindE (user_role d target) (\<lambda>r.
     bindE (require_role_within_authority actor_role r) (\<lambda>_. Inr (target, r))))"

definition is_active_super :: "db \<Rightarrow> user \<Rightarrow> bool" where
  "is_active_super d u =
     (u_active u \<and> (case get_role d (u_role_id u) of None \<Rightarrow> False | Some r \<Rightarrow> ro_is_super_admin r))"

definition require_not_last_super_admin :: "db \<Rightarrow> user \<Rightarrow> role \<Rightarrow> api_error + unit" where
  "require_not_last_super_admin d target target_role =
     (if \<not> ro_is_super_admin target_role then Inr ()
      else requireE (find (\<lambda>u. is_active_super d u \<and> u_id u \<noteq> u_id target) (users d) \<noteq> None)
             (conflict ''Cannot remove the last active super-admin''))"

section \<open>Endpoints\<close>

definition list_users :: "db \<Rightarrow> user \<Rightarrow> api_error + user list" where
  "list_users d actor = bindE (require_global_capability d actor ManageUsers) (\<lambda>_. Inr (users d))"

definition create_user ::
  "env \<Rightarrow> auth_env \<Rightarrow> string \<Rightarrow> user \<Rightarrow> string \<Rightarrow> string \<Rightarrow> int \<Rightarrow> db \<Rightarrow> api_error + db" where
  "create_user E A salt actor username password role_id d =
     bindE (require_global_capability d actor ManageUsers) (\<lambda>_.
     bindE (user_role d actor) (\<lambda>actor_role.
     bindE (someE (not_found ''Role not found'') (get_role d role_id)) (\<lambda>r.
     bindE (require_role_within_authority actor_role r) (\<lambda>_.
     bindE (requireE (find (\<lambda>u. u_username u = username) (users d) = None) (conflict ''Username already in use'')) (\<lambda>_.
     bindE (create_local_user E A salt (Some (u_id actor)) username password role_id d) (\<lambda>(u, d1).
     Inr d1))))))"

definition update_user ::
  "env \<Rightarrow> user \<Rightarrow> int \<Rightarrow> int option \<Rightarrow> bool option \<Rightarrow> db \<Rightarrow> api_error + db" where
  "update_user E actor user_id new_role_id active d =
     bindE (require_global_capability d actor ManageUsers) (\<lambda>_.
     bindE (user_role d actor) (\<lambda>actor_role.
     bindE (get_manageable_user d actor_role user_id) (\<lambda>(target, target_role).
     bindE (case new_role_id of
              None \<Rightarrow> Inr target
            | Some i \<Rightarrow>
                bindE (someE (not_found ''Role not found'') (get_role d i)) (\<lambda>new_role.
                bindE (require_role_within_authority actor_role new_role) (\<lambda>_.
                bindE (if \<not> ro_is_super_admin new_role then require_not_last_super_admin d target target_role
                       else Inr ()) (\<lambda>_.
                Inr (target\<lparr>u_role_id := i\<rparr>))))) (\<lambda>t1.
     bindE (if active = Some False then require_not_last_super_admin d target target_role else Inr ()) (\<lambda>_.
       let t2 = (case active of None \<Rightarrow> t1 | Some b \<Rightarrow> t1\<lparr>u_active := b\<rparr>);
           d1 = d\<lparr>users := tbl_put u_id t2 (users d)\<rparr>
       in Inr (record_audit_event E d1 d1 (Some (u_id actor)) ''user.update'' (Some ''user'') (Some (u_id t2))
                 (Some [(''role_id'', JInt (u_role_id t2)), (''active'', JBool (u_active t2))])))))))"

text \<open>The temporary password is the fresh \<open>secrets.token_urlsafe(12)\<close>.\<close>

definition reset_password ::
  "env \<Rightarrow> auth_env \<Rightarrow> string \<Rightarrow> string \<Rightarrow> user \<Rightarrow> int \<Rightarrow> db \<Rightarrow> api_error + (string \<times> db)" where
  "reset_password E A salt temporary_password actor user_id d =
     bindE (require_global_capability d actor ManageUsers) (\<lambda>_.
     bindE (user_role d actor) (\<lambda>actor_role.
     bindE (get_manageable_user d actor_role user_id) (\<lambda>(target, target_role).
       let t1 = target\<lparr>u_password_hash := Some (hash_password A salt temporary_password),
                       u_must_change_password := True\<rparr>;
           d1 = d\<lparr>users := tbl_put u_id t1 (users d)\<rparr>;
           d2 = snd (revoke_all_sessions A (u_id target) None d1)
       in Inr (temporary_password,
               record_audit_event E d2 d2 (Some (u_id actor)) ''user.reset_password'' (Some ''user'')
                 (Some (u_id target)) None))))"

definition deactivate_user :: "env \<Rightarrow> user \<Rightarrow> int \<Rightarrow> db \<Rightarrow> api_error + db" where
  "deactivate_user E actor user_id d =
     bindE (require_global_capability d actor ManageUsers) (\<lambda>_.
     bindE (user_role d actor) (\<lambda>actor_role.
     bindE (get_manageable_user d actor_role user_id) (\<lambda>(target, target_role).
     bindE (require_not_last_super_admin d target target_role) (\<lambda>_.
       let d1 = d\<lparr>users := tbl_put u_id (target\<lparr>u_active := False\<rparr>) (users d)\<rparr>
       in Inr (record_audit_event E d1 d1 (Some (u_id actor)) ''user.deactivate'' (Some ''user'')
                 (Some (u_id target)) None)))))"

section \<open>The machine\<close>

datatype user_op =
    CreateUser user string string string int
  | UpdateUser user int "int option" "bool option"
  | ResetPassword user string string int
  | DeactivateUser user int

fun op_actor :: "user_op \<Rightarrow> user" where
  "op_actor (CreateUser a salt n pw r) = a"
| "op_actor (UpdateUser a i r b) = a"
| "op_actor (ResetPassword a salt pw i) = a"
| "op_actor (DeactivateUser a i) = a"

fun exec_user :: "env \<Rightarrow> auth_env \<Rightarrow> user_op \<Rightarrow> db \<Rightarrow> api_error + db" where
  "exec_user E A (CreateUser a salt n pw r) d = create_user E A salt a n pw r d"
| "exec_user E A (UpdateUser a i r b) d = update_user E a i r b d"
| "exec_user E A (ResetPassword a salt pw i) d =
     bindE (reset_password E A salt pw a i d) (\<lambda>(p, d'). Inr d')"
| "exec_user E A (DeactivateUser a i) d = deactivate_user E a i d"

text \<open>The invariant: account ids are unique and some active account has a super-admin role.\<close>

definition admin_inv :: "db \<Rightarrow> bool" where
  "admin_inv d \<longleftrightarrow> distinct (map u_id (users d)) \<and> (\<exists>u \<in> set (users d). is_active_super d u)"

section \<open>What one request does\<close>

text \<open>A successful request writes one account row: a new one, or a changed one, of which the role is
  within the actor's authority.\<close>

inductive account_step :: "role \<Rightarrow> db \<Rightarrow> db \<Rightarrow> bool" for actor_role d d' where
  account_new: "users d' = users d @ [u] \<Longrightarrow> u_id u = tbl_max u_id (users d) + 1 \<Longrightarrow> roles d' = roles d \<Longrightarrow>
     get_role d (u_role_id u) = Some r \<Longrightarrow> role_within_authority actor_role r \<Longrightarrow> account_step actor_role d d'"
| account_change: "users d' = tbl_put u_id u (users d) \<Longrightarrow> roles d' = roles d \<Longrightarrow>
     get_user d (u_id u) = Some old \<Longrightarrow> get_role d (u_role_id old) = Some old_role \<Longrightarrow>
     role_within_authority actor_role old_role \<Longrightarrow>
     get_role d (u_role_id u) = Some r \<Longrightarrow> role_within_authority actor_role r \<Longrightarrow>
     (is_active_super d old \<Longrightarrow> \<not> is_active_super d u \<Longrightarrow>
        \<exists>v \<in> set (users d). is_active_super d v \<and> u_id v \<noteq> u_id u) \<Longrightarrow>
     account_step actor_role d d'"

lemma manageable:
  "get_manageable_user d ar i = Inr (t, r) \<longleftrightarrow>
     get_user d i = Some t \<and> get_role d (u_role_id t) = Some r \<and> role_within_authority ar r"
  by (auto simp: get_manageable_user_def bindE_Inr_iff user_role_def require_role_within_authority_def)

lemma not_last:
  "require_not_last_super_admin d t r = Inr () \<Longrightarrow> ro_is_super_admin r \<Longrightarrow>
   \<exists>v \<in> set (users d). is_active_super d v \<and> u_id v \<noteq> u_id t"
  by (auto simp: require_not_last_super_admin_def find_Some_iff)

lemma exec_user_step:
  assumes "exec_user E A op d = Inr d'" "user_role d (op_actor op) = Inr actor_role"
  shows "account_step actor_role d d'"
proof (cases op)
  case (CreateUser a salt n pw i)
  with assms obtain r where r: "get_role d i = Some r" "role_within_authority actor_role r"
    and c: "create_user E A salt a n pw i d = Inr d'"
    by (auto simp: create_user_def bindE_Inr_iff require_role_within_authority_def)
  from c obtain u d1 where "create_local_user E A salt (Some (u_id a)) n pw i d = Inr (u, d1)" "d' = d1"
    by (auto simp: create_user_def bindE_Inr_iff)
  then have "users d' = users d @ [u]" "u_id u = tbl_max u_id (users d) + 1" "roles d' = roles d" "u_role_id u = i"
    by (auto simp: create_local_user_def bindE_Inr_iff Let_def)
  with r show ?thesis by (auto intro: account_new)
next
  case (UpdateUser a i nr b)
  with assms obtain t r t1 where m: "get_manageable_user d actor_role i = Inr (t, r)"
    and t1: "(case nr of None \<Rightarrow> Inr t | Some j \<Rightarrow>
        bindE (someE (not_found ''Role not found'') (get_role d j)) (\<lambda>new_role.
        bindE (require_role_within_authority actor_role new_role) (\<lambda>_.
        bindE (if \<not> ro_is_super_admin new_role then require_not_last_super_admin d t r else Inr ()) (\<lambda>_.
        Inr (t\<lparr>u_role_id := j\<rparr>))))) = Inr t1"
    and act: "(if b = Some False then require_not_last_super_admin d t r else Inr ()) = Inr ()"
    and d': "d' = (let t2 = (case b of None \<Rightarrow> t1 | Some b \<Rightarrow> t1\<lparr>u_active := b\<rparr>);
           d1 = d\<lparr>users := tbl_put u_id t2 (users d)\<rparr>
       in record_audit_event E d1 d1 (Some (u_id a)) ''user.update'' (Some ''user'') (Some (u_id t2))
                 (Some [(''role_id'', JInt (u_role_id t2)), (''active'', JBool (u_active t2))]))"
    by (auto simp: update_user_def bindE_Inr_iff Let_def)
  let ?t2 = "case b of None \<Rightarrow> t1 | Some b \<Rightarrow> t1\<lparr>u_active := b\<rparr>"
  from m have t: "get_user d i = Some t" "get_role d (u_role_id t) = Some r" "role_within_authority actor_role r" "u_id t = i"
    by (auto simp: manageable dest: tbl_get_Some)
  have "\<exists>r1. u_id t1 = i \<and> u_active t1 = u_active t \<and> get_role d (u_role_id t1) = Some r1 \<and>
    role_within_authority actor_role r1 \<and>
    (ro_is_super_admin r \<longrightarrow> \<not> ro_is_super_admin r1 \<longrightarrow> (\<exists>v \<in> set (users d). is_active_super d v \<and> u_id v \<noteq> u_id t))"
  proof (cases nr)
    case None
    with t1 t show ?thesis by simp
  next
    case (Some j)
    with t1 obtain r1 where "get_role d j = Some r1" "role_within_authority actor_role r1"
      "(if \<not> ro_is_super_admin r1 then require_not_last_super_admin d t r else Inr ()) = Inr ()"
      "t1 = t\<lparr>u_role_id := j\<rparr>"
      by (auto simp: bindE_Inr_iff require_role_within_authority_def)
    with t not_last [of d t r] show ?thesis by (intro exI [of _ r1]) auto
  qed
  then obtain r1 where t1f: "u_id t1 = i" "u_active t1 = u_active t" "get_role d (u_role_id t1) = Some r1"
    "role_within_authority actor_role r1"
    "ro_is_super_admin r \<longrightarrow> \<not> ro_is_super_admin r1 \<longrightarrow> (\<exists>v \<in> set (users d). is_active_super d v \<and> u_id v \<noteq> u_id t)"
    by blast
  show ?thesis
  proof (rule account_change)
    show "users d' = tbl_put u_id ?t2 (users d)" "roles d' = roles d" by (simp_all add: d' Let_def)
    show "get_user d (u_id ?t2) = Some t" "get_role d (u_role_id ?t2) = Some r1"
      using t t1f by (auto split: option.splits)
    show "\<exists>v \<in> set (users d). is_active_super d v \<and> u_id v \<noteq> u_id ?t2"
      if "is_active_super d t" "\<not> is_active_super d ?t2"
    proof (cases "b = Some False")
      case True
      with act that(1) t not_last [of d t r] t1f(1) show ?thesis by (auto simp: is_active_super_def)
    next
      case False
      with that t t1f show ?thesis by (auto simp: is_active_super_def split: option.splits)
    qed
  qed (use t t1f in auto)
next
  case (ResetPassword a salt pw i)
  with assms obtain t r where m: "get_manageable_user d actor_role i = Inr (t, r)"
    and d': "users d' = tbl_put u_id (t\<lparr>u_password_hash := Some (hash_password A salt pw), u_must_change_password := True\<rparr>) (users d)"
      "roles d' = roles d"
    by (auto simp: reset_password_def bindE_Inr_iff Let_def revoke_all_sessions_def)
  from m have "get_user d i = Some t" "get_role d (u_role_id t) = Some r" "role_within_authority actor_role r" "u_id t = i"
    by (auto simp: manageable dest: tbl_get_Some)
  then show ?thesis
    by (intro account_change [where old = t and old_role = r and r = r, OF d']) (auto simp: is_active_super_def)
next
  case (DeactivateUser a i)
  with assms obtain t r where m: "get_manageable_user d actor_role i = Inr (t, r)"
    and nl: "require_not_last_super_admin d t r = Inr ()"
    and d': "users d' = tbl_put u_id (t\<lparr>u_active := False\<rparr>) (users d)" "roles d' = roles d"
    by (auto simp: deactivate_user_def bindE_Inr_iff Let_def)
  from m have t: "get_user d i = Some t" "get_role d (u_role_id t) = Some r" "role_within_authority actor_role r" "u_id t = i"
    by (auto simp: manageable dest: tbl_get_Some)
  then show ?thesis
    by (intro account_change [where old = t and old_role = r and r = r, OF d'])
      (use not_last [OF nl] in \<open>auto simp: is_active_super_def\<close>)
qed

lemma exec_user_has_role:
  "exec_user E A op d = Inr d' \<Longrightarrow> \<exists>r. user_role d (op_actor op) = Inr r"
  by (cases op) (auto simp: create_user_def update_user_def reset_password_def deactivate_user_def bindE_Inr_iff)

lemma account_step_inv:
  assumes "account_step ar d d'" "admin_inv d"
  shows "admin_inv d'"
  using assms(1)
proof cases
  case (account_new u r)
  have "is_active_super d' = is_active_super d"
    by (simp add: is_active_super_def fun_eq_iff account_new(3))
  moreover have "u_id u \<notin> u_id ` set (users d)"
    using account_new(2) tbl_max_ge [of _ "users d" u_id] by force
  ultimately show ?thesis using assms(2) account_new(1) by (auto simp: admin_inv_def)
next
  case (account_change u old old_role r)
  have sup: "is_active_super d' = is_active_super d"
    by (simp add: is_active_super_def fun_eq_iff account_change(2))
  have ids: "map u_id (tbl_put u_id u (users d)) = map u_id (users d)" by (auto simp: tbl_put_def)
  have dist: "distinct (map u_id (users d))" using assms(2) by (simp add: admin_inv_def)
  have old: "old \<in> set (users d)" "u_id old = u_id u" using account_change(3) by (auto dest: tbl_get_Some)
  have keep: "v \<in> set (tbl_put u_id u (users d))" if "v \<in> set (users d)" "u_id v \<noteq> u_id u" for v
    using that by (force simp: tbl_put_def)
  have new: "u \<in> set (tbl_put u_id u (users d))"
    using old by (force simp: tbl_put_def)
  have "\<exists>v \<in> set (tbl_put u_id u (users d)). is_active_super d v"
  proof -
    from assms(2) obtain v where v: "v \<in> set (users d)" "is_active_super d v" by (auto simp: admin_inv_def)
    show ?thesis
    proof (cases "u_id v = u_id u")
      case False
      with v keep show ?thesis by blast
    next
      case True
      with v old dist have "v = old" by (metis distinct_map inj_onD)
      with v(2) account_change(8) keep new show ?thesis by blast
    qed
  qed
  then show ?thesis using dist ids sup account_change(1) by (simp add: admin_inv_def)
qed

interpretation usr: guarded_machine "exec_user E A" admin_inv for E A
proof
  fix s s' and x :: user_op
  assume "admin_inv s" "exec_user E A x s = Inr s'"
  then show "admin_inv s'"
    by (metis account_step_inv exec_user_step exec_user_has_role)
qed

section \<open>Properties\<close>

text \<open>
  No escalation through the account endpoints: an account row that a successful request created
  or changed (its role, its password, whether it is active) has a role within the authority of the
  actor's own role, so it holds no global capability the actor lacks and is a super-admin only if
  the actor is one.
\<close>

theorem changed_accounts_within_authority:
  assumes "exec_user E A op d = Inr d'" "user_role d (op_actor op) = Inr actor_role"
    and "u \<in> set (users d')" "u \<notin> set (users d)"
  shows "\<exists>r. get_role d' (u_role_id u) = Some r \<and> role_within_authority actor_role r"
  using exec_user_step [OF assms(1,2)]
proof cases
  case (account_new v r)
  with assms(3,4) show ?thesis by auto
next
  case (account_change v old old_role r)
  from assms(3,4) account_change(1) have "u = v" by (auto simp: tbl_put_def split: if_splits)
  with account_change show ?thesis by auto
qed

text \<open>
  C6: The break-glass account always exists: after any sequence of account requests by anyone, some
  active account still has a super-admin role.
\<close>

theorem an_active_super_admin_remains:
  assumes "distinct (map u_id (users d))" "u \<in> set (users d)" "is_active_super d u"
  shows "\<exists>v \<in> set (users (usr.run_ops E A ops d)). is_active_super (usr.run_ops E A ops d) v"
proof -
  have "admin_inv d" using assms by (auto simp: admin_inv_def)
  from usr.run_inv [OF this, of E A ops] show ?thesis by (simp add: admin_inv_def)
qed

text \<open>
  A password reset signs the account out everywhere and forces a new password at the next login.
\<close>

theorem password_reset_ends_sessions:
  assumes "reset_password E A salt temporary_password actor user_id d = Inr (p, d')"
    and "fst (get_user_by_token E2 A token d') = Some u"
  shows "u_id u \<noteq> user_id \<and> (\<exists>t. get_user d' user_id = Some t \<and> u_must_change_password t)"
proof -
  from assms(1) obtain ar t r where m: "get_manageable_user d ar user_id = Inr (t, r)"
    and us: "users d' = tbl_put u_id (t\<lparr>u_password_hash := Some (hash_password A salt temporary_password),
      u_must_change_password := True\<rparr>) (users d)"
    and ses: "auth_sessions d' = filter (\<lambda>s. as_user_id s \<noteq> u_id t) (auth_sessions d)"
    by (auto simp: reset_password_def bindE_Inr_iff Let_def revoke_all_sessions_def)
  from m have t: "get_user d user_id = Some t" "u_id t = user_id" by (auto simp: manageable dest: tbl_get_Some)
  from get_user_by_token_Some [OF assms(2)] obtain s where
    s: "find_session A d' token = Some s" "get_user d' (as_user_id s) = Some u" by blast
  from find_session_Some [OF s(1)] ses t(2) have "as_user_id s \<noteq> user_id" by auto
  moreover from s(2) have "u_id u = as_user_id s" by (auto dest: tbl_get_Some)
  ultimately show ?thesis using t us by (auto simp: table_simps)
qed

section \<open>Witnesses\<close>

definition root_role :: role where
  "root_role = \<lparr>ro_id = 1, ro_name = ''Super Admin'', ro_is_builtin = True, ro_is_super_admin = True,
                ro_global_capabilities = []\<rparr>"

definition root_user :: user where
  "root_user = operator\<lparr>u_id := 1, u_username := ''admin'', u_role_id := 1\<rparr>"

definition staff_db :: db where
  "staff_db = sample_db\<lparr>roles := [root_role, operator_role], users := [root_user, operator],
     auth_sessions := [session_row 1 ''t1'' 7, session_row 2 ''t2'' 1]\<rparr>"

lemma staff_db_facts:
  "require_global_capability staff_db operator ManageUsers = Inr ()"
  "user_role staff_db operator = Inr operator_role"
  "get_manageable_user staff_db operator_role 7 = Inr (operator, operator_role)"
  "users staff_db = [root_user, operator]"
  by code_simp+

theorem changed_accounts_within_authority_witness:
  "\<exists>d' u. exec_user length_env plain_auth (DeactivateUser operator 7) staff_db = Inr d' \<and>
     u \<in> set (users d') \<and> u \<notin> set (users staff_db) \<and>
     (\<exists>r. get_role d' (u_role_id u) = Some r \<and> role_within_authority operator_role r)"
proof -
  let ?u = "operator\<lparr>u_active := False\<rparr>"
  obtain d' where d': "exec_user length_env plain_auth (DeactivateUser operator 7) staff_db = Inr d'"
    "users d' = tbl_put u_id ?u (users staff_db)"
    using staff_db_facts
    by (simp add: deactivate_user_def require_not_last_super_admin_def operator_role_def Let_def)
  have "tbl_put u_id ?u (users staff_db) = [root_user, ?u]" "?u \<notin> set (users staff_db)" by code_simp+
  with d' have u: "?u \<in> set (users d')" "?u \<notin> set (users staff_db)" by auto
  have "user_role staff_db (op_actor (DeactivateUser operator 7)) = Inr operator_role"
    using staff_db_facts(2) by simp
  from changed_accounts_within_authority [OF d'(1) this u] d' u show ?thesis by blast
qed

theorem an_active_super_admin_remains_witness:
  "\<exists>v \<in> set (users (usr.run_ops length_env plain_auth [DeactivateUser root_user 1] staff_db)).
     is_active_super (usr.run_ops length_env plain_auth [DeactivateUser root_user 1] staff_db) v"
proof (rule an_active_super_admin_remains)
  show "root_user \<in> set (users staff_db)" by (simp add: staff_db_facts)
qed code_simp+

theorem password_reset_ends_sessions_witness:
  "\<exists>p d'. reset_password length_env plain_auth ''s'' ''tmp'' operator 7 staff_db = Inr (p, d') \<and>
     fst (get_user_by_token length_env plain_auth ''t2'' d') = Some root_user \<and>
     u_id root_user \<noteq> 7 \<and> (\<exists>t. get_user d' 7 = Some t \<and> u_must_change_password t)"
proof -
  let ?t = "operator\<lparr>u_password_hash := Some (hash_password plain_auth ''s'' ''tmp''), u_must_change_password := True\<rparr>"
  obtain p d' where d': "reset_password length_env plain_auth ''s'' ''tmp'' operator 7 staff_db = Inr (p, d')"
    "users d' = tbl_put u_id ?t (users staff_db)"
    "auth_sessions d' = filter (\<lambda>s. as_user_id s \<noteq> u_id operator) (auth_sessions staff_db)"
    using staff_db_facts by (simp add: reset_password_def Let_def revoke_all_sessions_def)
  have "filter (\<lambda>s. as_user_id s \<noteq> u_id operator) (auth_sessions staff_db) = [session_row 2 ''t2'' 1]"
    "tbl_put u_id ?t (users staff_db) = [root_user, ?t]" by code_simp+
  moreover have "as_token_hash (session_row 2 ''t2'' 1) = hash_token plain_auth ''t2''"
    "\<not> as_expires_at (session_row 2 ''t2'' 1) < e_now length_env" "as_user_id (session_row 2 ''t2'' 1) = 1"
    "u_id root_user = 1" "u_active root_user" by code_simp+
  ultimately have tok: "fst (get_user_by_token length_env plain_auth ''t2'' d') = Some root_user"
    using d' by (simp add: get_user_by_token_def find_session_def tbl_get_def)
  from password_reset_ends_sessions [OF d'(1) tok] d' tok show ?thesis by blast
qed

end
