(* ===== verification/RolesApi.thy ===== *)
theory RolesApi
  imports UsersApi
begin

text \<open>
  \<open>app/api/roles.py\<close>: the role and grant endpoints as a state machine. Two promises: no role or
  grant beyond the actor's authority is created or changed, and the built-in roles and their grants
  stay as they are.
\<close>

section \<open>Guards\<close>

definition require_read :: "db \<Rightarrow> user \<Rightarrow> api_error + unit" where
  "require_read d u =
     bindE (user_role d u) (\<lambda>r.
     requireE (ro_is_super_admin r \<or> ManageRoles \<in> set (ro_global_capabilities r) \<or>
               ManageUsers \<in> set (ro_global_capabilities r) \<or> ManageSso \<in> set (ro_global_capabilities r))
       (forbidden ''Not permitted''))"

definition require_super_admin_for_super_admin_flag :: "role \<Rightarrow> bool \<Rightarrow> api_error + unit" where
  "require_super_admin_for_super_admin_flag actor_role is_super_admin =
     requireE (\<not> (is_super_admin \<and> \<not> ro_is_super_admin actor_role))
       (forbidden ''Only a super-admin can create or edit a super-admin role'')"

definition get_editable_role :: "db \<Rightarrow> role \<Rightarrow> int \<Rightarrow> api_error + role" where
  "get_editable_role d actor_role role_id =
     bindE (someE (not_found ''Role not found'') (get_role d role_id)) (\<lambda>r.
     bindE (requireE (\<not> ro_is_builtin r) (forbidden ''Built-in roles cannot be modified'')) (\<lambda>_.
     bindE (require_role_within_authority actor_role r) (\<lambda>_. Inr r)))"

definition validate_scope_exists :: "db \<Rightarrow> scope_type \<Rightarrow> int \<Rightarrow> api_error + unit" where
  "validate_scope_exists d scope scope_id =
     requireE (case scope of
                 ScopeCustomer \<Rightarrow> get_customer d scope_id \<noteq> None
               | ScopeFolder \<Rightarrow> get_folder d scope_id \<noteq> None
               | ScopeSource \<Rightarrow> get_source d scope_id \<noteq> None)
       (not_found (scope_value scope @ '' not found''))"

text \<open>\<open>require_manage\<close>, then the actor's own role.\<close>

definition manager_role :: "db \<Rightarrow> user \<Rightarrow> api_error + role" where
  "manager_role d actor = bindE (require_global_capability d actor ManageRoles) (\<lambda>_. user_role d actor)"

section \<open>Reading\<close>

definition list_roles :: "db \<Rightarrow> user \<Rightarrow> api_error + role list" where
  "list_roles d actor = bindE (require_read d actor) (\<lambda>_. Inr (roles d))"

definition read_role :: "db \<Rightarrow> user \<Rightarrow> int \<Rightarrow> api_error + role" where
  "read_role d actor role_id =
     bindE (require_read d actor) (\<lambda>_. someE (not_found ''Role not found'') (get_role d role_id))"

definition list_role_grants :: "db \<Rightarrow> user \<Rightarrow> int \<Rightarrow> api_error + role_grant list" where
  "list_role_grants d actor role_id =
     bindE (manager_role d actor) (\<lambda>_.
     bindE (someE (not_found ''Role not found'') (get_role d role_id)) (\<lambda>_.
     Inr (filter (\<lambda>g. g_role_id g = role_id) (role_grants d))))"

section \<open>Roles\<close>

definition create_role_endpoint ::
  "env \<Rightarrow> user \<Rightarrow> string \<Rightarrow> bool \<Rightarrow> global_capability list \<Rightarrow> db \<Rightarrow> api_error + db" where
  "create_role_endpoint E actor name is_super_admin caps d =
     bindE (manager_role d actor) (\<lambda>ar.
     bindE (require_super_admin_for_super_admin_flag ar is_super_admin) (\<lambda>_.
     bindE (require_capabilities_within_authority ar caps) (\<lambda>_.
     bindE (requireE (find (\<lambda>r. ro_name r = name) (roles d) = None) (conflict ''Name already in use'')) (\<lambda>_.
     bindE (create_role E d (Some (u_id actor)) name False is_super_admin caps) (\<lambda>(r, d1). Inr d1)))))"

text \<open>The UNIQUE constraint on the name is met by the flush of the audit write.\<close>

definition update_role ::
  "env \<Rightarrow> user \<Rightarrow> int \<Rightarrow> string option \<Rightarrow> bool option \<Rightarrow> global_capability list option \<Rightarrow> db \<Rightarrow> api_error + db" where
  "update_role E actor role_id name is_super_admin caps d =
     bindE (manager_role d actor) (\<lambda>ar.
     bindE (get_editable_role d ar role_id) (\<lambda>r.
     bindE (require_super_admin_for_super_admin_flag ar
              (case is_super_admin of Some b \<Rightarrow> b | None \<Rightarrow> ro_is_super_admin r)) (\<lambda>_.
     bindE (case caps of None \<Rightarrow> Inr () | Some cs \<Rightarrow> require_capabilities_within_authority ar cs) (\<lambda>_.
       let r1 = (case name of None \<Rightarrow> r | Some n \<Rightarrow> r\<lparr>ro_name := n\<rparr>);
           r2 = (case is_super_admin of None \<Rightarrow> r1 | Some b \<Rightarrow> r1\<lparr>ro_is_super_admin := b\<rparr>);
           r3 = (case caps of None \<Rightarrow> r2 | Some cs \<Rightarrow> r2\<lparr>ro_global_capabilities := cs\<rparr>);
           d1 = d\<lparr>roles := tbl_put ro_id r3 (roles d)\<rparr>
       in bindE (requireE (\<forall>x \<in> set (roles d). ro_id x \<noteq> role_id \<longrightarrow> ro_name x \<noteq> ro_name r3) IntegrityError) (\<lambda>_.
          Inr (record_audit_event E d1 d1 (Some (u_id actor)) ''role.update'' (Some ''role'') (Some role_id)
                 (Some [(''name'', JStr (ro_name r3)), (''is_super_admin'', JBool (ro_is_super_admin r3)),
                        (''global_capabilities'',
                         JList (map (\<lambda>c. JStr (global_capability_value c)) (ro_global_capabilities r3)))])))))))"

text \<open>\<open>session.delete(role)\<close> cascades to its grants.\<close>

definition delete_role :: "env \<Rightarrow> user \<Rightarrow> int \<Rightarrow> db \<Rightarrow> api_error + db" where
  "delete_role E actor role_id d =
     bindE (manager_role d actor) (\<lambda>ar.
     bindE (someE (not_found ''Role not found'') (get_role d role_id)) (\<lambda>r.
     bindE (requireE (\<not> ro_is_builtin r) (forbidden ''Cannot delete a built-in role'')) (\<lambda>_.
     bindE (require_role_within_authority ar r) (\<lambda>_.
     bindE (requireE (find (\<lambda>u. u_role_id u = role_id) (users d) = None)
              (conflict ''Role still has users assigned; reassign them first'')) (\<lambda>_.
     bindE (requireE (find (\<lambda>m. gm_role_id m = role_id) (group_mappings d) = None)
              (conflict ''Role is still the target of an SSO group mapping; remove the mapping first'')) (\<lambda>_.
       let d1 = d\<lparr>roles := tbl_del ro_id role_id (roles d),
                  role_grants := filter (\<lambda>g. g_role_id g \<noteq> role_id) (role_grants d)\<rparr>
       in Inr (record_audit_event E d d1 (Some (u_id actor)) ''role.delete'' (Some ''role'') (Some role_id)
                 (Some [(''name'', JStr (ro_name r))]))))))))"

definition duplicate_role :: "env \<Rightarrow> user \<Rightarrow> int \<Rightarrow> string option \<Rightarrow> db \<Rightarrow> api_error + db" where
  "duplicate_role E actor role_id name d =
     bindE (manager_role d actor) (\<lambda>ar.
     bindE (someE (not_found ''Role not found'') (get_role d role_id)) (\<lambda>r.
     bindE (require_role_within_authority ar r) (\<lambda>_.
       let new_name = (case name of None \<Rightarrow> ro_name r @ '' (copy)''
                       | Some n \<Rightarrow> if n = '''' then ro_name r @ '' (copy)'' else n)
       in bindE (requireE (find (\<lambda>x. ro_name x = new_name) (roles d) = None)
                   (conflict ''Name already in use; pass an explicit name'')) (\<lambda>_.
          bindE (create_role E d (Some (u_id actor)) new_name False (ro_is_super_admin r) (ro_global_capabilities r))
            (\<lambda>(new_role, d1).
          Inr (fold (\<lambda>g d. snd (create_role_grant E d (Some (u_id actor)) (ro_id new_role) (g_scope_type g)
                                   (g_scope_id g) (g_capabilities g)))
                 (filter (\<lambda>g. g_role_id g = role_id) (role_grants d1)) d1))))))"

section \<open>Grants\<close>

definition create_grant ::
  "env \<Rightarrow> user \<Rightarrow> int \<Rightarrow> scope_type \<Rightarrow> int \<Rightarrow> capability list \<Rightarrow> db \<Rightarrow> api_error + db" where
  "create_grant E actor role_id scope scope_id caps d =
     bindE (manager_role d actor) (\<lambda>ar.
     bindE (get_editable_role d ar role_id) (\<lambda>_.
     bindE (validate_scope_exists d scope scope_id) (\<lambda>_.
     Inr (snd (create_role_grant E d (Some (u_id actor)) role_id scope scope_id caps)))))"

text \<open>\<open>grant is None or grant.role_id != role_id\<close> is not found.\<close>

definition grant_of_role :: "db \<Rightarrow> int \<Rightarrow> int \<Rightarrow> api_error + role_grant" where
  "grant_of_role d role_id grant_id =
     (case tbl_get g_id grant_id (role_grants d) of
        None \<Rightarrow> Inl (not_found ''Grant not found'')
      | Some g \<Rightarrow> if g_role_id g \<noteq> role_id then Inl (not_found ''Grant not found'') else Inr g)"

definition update_grant :: "env \<Rightarrow> user \<Rightarrow> int \<Rightarrow> int \<Rightarrow> capability list \<Rightarrow> db \<Rightarrow> api_error + db" where
  "update_grant E actor role_id grant_id caps d =
     bindE (manager_role d actor) (\<lambda>ar.
     bindE (grant_of_role d role_id grant_id) (\<lambda>g.
     bindE (get_editable_role d ar role_id) (\<lambda>_.
       let d1 = d\<lparr>role_grants := tbl_put g_id (g\<lparr>g_capabilities := caps\<rparr>) (role_grants d)\<rparr>
       in Inr (record_audit_event E d1 d1 (Some (u_id actor)) ''role_grant.update'' (Some ''role_grant'')
                 (Some grant_id)
                 (Some [(''role_id'', JInt role_id),
                        (''capabilities'', JList (map (\<lambda>c. JStr (capability_value c)) caps))])))))"

definition delete_grant :: "env \<Rightarrow> user \<Rightarrow> int \<Rightarrow> int \<Rightarrow> db \<Rightarrow> api_error + db" where
  "delete_grant E actor role_id grant_id d =
     bindE (manager_role d actor) (\<lambda>ar.
     bindE (grant_of_role d role_id grant_id) (\<lambda>g.
     bindE (get_editable_role d ar role_id) (\<lambda>_.
       let d1 = d\<lparr>role_grants := tbl_del g_id grant_id (role_grants d)\<rparr>
       in Inr (record_audit_event E d d1 (Some (u_id actor)) ''role_grant.delete'' (Some ''role_grant'')
                 (Some grant_id)
                 (Some [(''role_id'', JInt role_id), (''scope_type'', JStr (scope_value (g_scope_type g))),
                        (''scope_id'', JInt (g_scope_id g))])))))"

section \<open>The machine\<close>

datatype role_op =
    CreateRole user string bool "global_capability list"
  | UpdateRole user int "string option" "bool option" "global_capability list option"
  | DeleteRole user int
  | DuplicateRole user int "string option"
  | CreateGrant user int scope_type int "capability list"
  | UpdateGrant user int int "capability list"
  | DeleteGrant user int int

fun role_op_actor :: "role_op \<Rightarrow> user" where
  "role_op_actor (CreateRole a n s cs) = a"
| "role_op_actor (UpdateRole a i n s cs) = a"
| "role_op_actor (DeleteRole a i) = a"
| "role_op_actor (DuplicateRole a i n) = a"
| "role_op_actor (CreateGrant a i s j cs) = a"
| "role_op_actor (UpdateGrant a i g cs) = a"
| "role_op_actor (DeleteGrant a i g) = a"

fun exec_role :: "env \<Rightarrow> role_op \<Rightarrow> db \<Rightarrow> api_error + db" where
  "exec_role E (CreateRole a n s cs) d = create_role_endpoint E a n s cs d"
| "exec_role E (UpdateRole a i n s cs) d = update_role E a i n s cs d"
| "exec_role E (DeleteRole a i) d = delete_role E a i d"
| "exec_role E (DuplicateRole a i n) d = duplicate_role E a i n d"
| "exec_role E (CreateGrant a i s j cs) d = create_grant E a i s j cs d"
| "exec_role E (UpdateGrant a i g cs) d = update_grant E a i g cs d"
| "exec_role E (DeleteGrant a i g) d = delete_grant E a i g d"

section \<open>What one request does\<close>

lemma editable:
  "get_editable_role d ar i = Inr r \<longleftrightarrow> get_role d i = Some r \<and> \<not> ro_is_builtin r \<and> role_within_authority ar r"
  by (auto simp: get_editable_role_def bindE_Inr_iff require_role_within_authority_def)

lemma manager: "manager_role d a = Inr r \<Longrightarrow> user_role d a = Inr r"
  by (auto simp: manager_role_def bindE_Inr_iff)

text \<open>Copying grants onto a role: new rows with new ids, all on that role.\<close>

definition copied_grant :: "int \<Rightarrow> role_grant \<Rightarrow> role_grant \<Rightarrow> bool" where
  "copied_grant role_id g h \<longleftrightarrow> g_role_id h = role_id \<and> g_scope_type h = g_scope_type g \<and>
     g_scope_id h = g_scope_id g \<and> g_capabilities h = g_capabilities g"

lemma create_role_grant_simps [simp]:
  "roles (snd (create_role_grant E d a i s j cs)) = roles d"
  "role_seq (snd (create_role_grant E d a i s j cs)) = role_seq d"
  "users (snd (create_role_grant E d a i s j cs)) = users d"
  "role_grants (snd (create_role_grant E d a i s j cs)) = role_grants d @
     [\<lparr>g_id = tbl_max g_id (role_grants d) + 1, g_role_id = i, g_scope_type = s, g_scope_id = j, g_capabilities = cs\<rparr>]"
  by (simp_all add: create_role_grant_def Let_def)

lemma fresh_grant_id: "tbl_max g_id gs + 1 \<notin> g_id ` set gs"
  using tbl_max_ge [of _ gs g_id] by force

abbreviation copy_all :: "env \<Rightarrow> int option \<Rightarrow> int \<Rightarrow> role_grant list \<Rightarrow> db \<Rightarrow> db" where
  "copy_all E a i gs d \<equiv>
     fold (\<lambda>g d. snd (create_role_grant E d a i (g_scope_type g) (g_scope_id g) (g_capabilities g))) gs d"

lemma copy_grants:
  "\<exists>hs. role_grants (copy_all E a i gs d) = role_grants d @ hs \<and> list_all2 (copied_grant i) gs hs \<and>
      roles (copy_all E a i gs d) = roles d \<and> role_seq (copy_all E a i gs d) = role_seq d \<and>
      (distinct (map g_id (role_grants d)) \<longrightarrow> distinct (map g_id (role_grants d @ hs)))"
proof (induction gs arbitrary: d)
  case (Cons g gs)
  let ?h = "\<lparr>g_id = tbl_max g_id (role_grants d) + 1, g_role_id = i, g_scope_type = g_scope_type g,
        g_scope_id = g_scope_id g, g_capabilities = g_capabilities g\<rparr>"
  let ?d = "snd (create_role_grant E d a i (g_scope_type g) (g_scope_id g) (g_capabilities g))"
  obtain hs where hs: "role_grants (copy_all E a i gs ?d) = role_grants ?d @ hs" "list_all2 (copied_grant i) gs hs"
      "roles (copy_all E a i gs ?d) = roles ?d" "role_seq (copy_all E a i gs ?d) = role_seq ?d"
      "distinct (map g_id (role_grants ?d)) \<longrightarrow> distinct (map g_id (role_grants ?d @ hs))"
    using Cons [of ?d] by blast
  have "copied_grant i g ?h" by (simp add: copied_grant_def)
  with hs fresh_grant_id [of "role_grants d"] show ?case by (intro exI [of _ "?h # hs"]) simp
qed simp

text \<open>Every successful request is one of four changes, each to a role that is not built-in and is
  within the actor's authority before and after.\<close>

definition own_role :: "role \<Rightarrow> role \<Rightarrow> bool" where
  "own_role actor_role r \<longleftrightarrow> \<not> ro_is_builtin r \<and> role_within_authority actor_role r"

inductive role_step :: "role \<Rightarrow> db \<Rightarrow> db \<Rightarrow> bool" for actor_role d d' where
  role_new: "own_role actor_role r \<Longrightarrow> ro_id r = role_seq d + 1 \<Longrightarrow> roles d' = roles d @ [r] \<Longrightarrow>
     role_seq d' = role_seq d + 1 \<Longrightarrow> role_grants d' = role_grants d @ hs \<Longrightarrow>
     \<forall>h \<in> set hs. g_role_id h = ro_id r \<Longrightarrow>
     (distinct (map g_id (role_grants d)) \<Longrightarrow> distinct (map g_id (role_grants d @ hs))) \<Longrightarrow> role_step actor_role d d'"
| role_change: "own_role actor_role old \<Longrightarrow> own_role actor_role r \<Longrightarrow> get_role d (ro_id r) = Some old \<Longrightarrow>
     roles d' = tbl_put ro_id r (roles d) \<Longrightarrow> role_seq d' = role_seq d \<Longrightarrow> role_grants d' = role_grants d \<Longrightarrow>
     role_step actor_role d d'"
| role_gone: "own_role actor_role r \<Longrightarrow> get_role d i = Some r \<Longrightarrow> roles d' = tbl_del ro_id i (roles d) \<Longrightarrow>
     role_seq d' = role_seq d \<Longrightarrow> role_grants d' = filter (\<lambda>g. g_role_id g \<noteq> i) (role_grants d) \<Longrightarrow>
     role_step actor_role d d'"
| grant_new: "own_role actor_role r \<Longrightarrow> get_role d i = Some r \<Longrightarrow> roles d' = roles d \<Longrightarrow> role_seq d' = role_seq d \<Longrightarrow>
     g_role_id g = i \<Longrightarrow> g_id g = tbl_max g_id (role_grants d) + 1 \<Longrightarrow> role_grants d' = role_grants d @ [g] \<Longrightarrow>
     role_step actor_role d d'"
| grant_change: "own_role actor_role r \<Longrightarrow> get_role d i = Some r \<Longrightarrow> roles d' = roles d \<Longrightarrow> role_seq d' = role_seq d \<Longrightarrow>
     tbl_get g_id (g_id g) (role_grants d) = Some h \<Longrightarrow> g_role_id h = i \<Longrightarrow> g_role_id g = i \<Longrightarrow>
     role_grants d' = tbl_put g_id g (role_grants d) \<or> role_grants d' = tbl_del g_id (g_id g) (role_grants d) \<Longrightarrow>
     role_step actor_role d d'"

lemma within_self_caps:
  "role_within_authority ar r \<Longrightarrow> require_super_admin_for_super_admin_flag ar (ro_is_super_admin s) = Inr () \<Longrightarrow>
   ro_is_super_admin ar \<or> set (ro_global_capabilities s) \<subseteq> set (ro_global_capabilities ar) \<Longrightarrow>
   role_within_authority ar s"
  by (auto simp: role_within_authority_def require_super_admin_for_super_admin_flag_def split: if_splits)

lemma create_role_Inr:
  "create_role E d a n b s cs = Inr (r, d') \<Longrightarrow>
   r = \<lparr>ro_id = role_seq d + 1, ro_name = n, ro_is_builtin = b, ro_is_super_admin = s, ro_global_capabilities = cs\<rparr> \<and>
   roles d' = roles d @ [r] \<and> role_seq d' = role_seq d + 1 \<and> role_grants d' = role_grants d \<and> users d' = users d"
  by (auto simp: create_role_def Let_def bindE_Inr_iff)

lemma grant_of_role: "grant_of_role d i j = Inr g \<longleftrightarrow> tbl_get g_id j (role_grants d) = Some g \<and> g_role_id g = i"
  by (auto simp: grant_of_role_def split: option.splits)

lemma update_role_step:
  assumes "update_role E a i n s cs d = Inr d'" "user_role d a = Inr ar"
  shows "role_step ar d d'"
proof -
  from assms obtain r where r: "get_editable_role d ar i = Inr r"
    and flag: "require_super_admin_for_super_admin_flag ar (case s of Some b \<Rightarrow> b | None \<Rightarrow> ro_is_super_admin r) = Inr ()"
    and caps: "(case cs of None \<Rightarrow> Inr () | Some cs \<Rightarrow> require_capabilities_within_authority ar cs) = Inr ()"
    by (auto simp: update_role_def bindE_Inr_iff dest!: manager)
  define r1 where "r1 = (case n of None \<Rightarrow> r | Some n \<Rightarrow> r\<lparr>ro_name := n\<rparr>)"
  define r2 where "r2 = (case s of None \<Rightarrow> r1 | Some b \<Rightarrow> r1\<lparr>ro_is_super_admin := b\<rparr>)"
  define r3 where "r3 = (case cs of None \<Rightarrow> r2 | Some cs \<Rightarrow> r2\<lparr>ro_global_capabilities := cs\<rparr>)"
  from r have old: "get_role d i = Some r" "own_role ar r" "ro_id r = i"
    by (auto simp: editable own_role_def dest: tbl_get_Some)
  have new: "ro_id r3 = i" "\<not> ro_is_builtin r3"
    "ro_is_super_admin r3 = (case s of Some b \<Rightarrow> b | None \<Rightarrow> ro_is_super_admin r)"
    "ro_global_capabilities r3 = (case cs of None \<Rightarrow> ro_global_capabilities r | Some cs \<Rightarrow> cs)"
    using old by (auto simp: r1_def r2_def r3_def own_role_def split: option.splits)
  have "ro_is_super_admin ar \<or> set (ro_global_capabilities r3) \<subseteq> set (ro_global_capabilities ar)"
    using caps old(2) new(4)
    by (auto simp: require_capabilities_within_authority_def own_role_def role_within_authority_def
        split: option.splits if_splits)
  with within_self_caps [of ar r r3] flag new old(2) have "own_role ar r3" by (simp add: own_role_def)
  moreover have "roles d' = tbl_put ro_id r3 (roles d)" "role_seq d' = role_seq d" "role_grants d' = role_grants d"
    using assms r unfolding r3_def r2_def r1_def by (auto simp: update_role_def bindE_Inr_iff Let_def dest!: manager)
  ultimately show ?thesis using old new(1) by (intro role_change) auto
qed

lemma duplicate_role_step:
  assumes "duplicate_role E a i n d = Inr d'" "user_role d a = Inr ar"
  shows "role_step ar d d'"
proof -
  from assms obtain r r1 d1 nm where r: "get_role d i = Some r" "role_within_authority ar r"
    and c: "create_role E d (Some (u_id a)) nm False (ro_is_super_admin r) (ro_global_capabilities r) = Inr (r1, d1)"
    and d': "d' = copy_all E (Some (u_id a)) (ro_id r1) (filter (\<lambda>g. g_role_id g = i) (role_grants d1)) d1"
    by (auto simp: duplicate_role_def bindE_Inr_iff Let_def require_role_within_authority_def dest!: manager)
  note c' = create_role_Inr [OF c]
  obtain hs where hs: "role_grants d' = role_grants d1 @ hs"
    "list_all2 (copied_grant (ro_id r1)) (filter (\<lambda>g. g_role_id g = i) (role_grants d1)) hs"
    "roles d' = roles d1" "role_seq d' = role_seq d1"
    "distinct (map g_id (role_grants d1)) \<longrightarrow> distinct (map g_id (role_grants d1 @ hs))"
    using copy_grants unfolding d' by blast
  have "own_role ar r1"
    using c' r(2) by (cases "ro_is_super_admin ar") (auto simp: own_role_def role_within_authority_def)
  moreover have "\<forall>h \<in> set hs. g_role_id h = ro_id r1"
    using hs(2) by (auto simp: list_all2_conv_all_nth in_set_conv_nth copied_grant_def)
  ultimately show ?thesis using c' hs by (intro role_new [of ar r1 d d' hs]) auto
qed

lemma exec_role_step:
  assumes "exec_role E op d = Inr d'" "user_role d (role_op_actor op) = Inr ar"
  shows "role_step ar d d'"
proof (cases op)
  case (CreateRole a n s cs)
  with assms obtain r d1 where g: "require_super_admin_for_super_admin_flag ar s = Inr ()"
    "require_capabilities_within_authority ar cs = Inr ()"
    and c: "create_role E d (Some (u_id a)) n False s cs = Inr (r, d1)" and d': "d' = d1"
    by (auto simp: create_role_endpoint_def bindE_Inr_iff dest!: manager)
  have "own_role ar r"
    using create_role_Inr [OF c] g
    by (auto simp: own_role_def role_within_authority_def require_super_admin_for_super_admin_flag_def
        require_capabilities_within_authority_def)
  with create_role_Inr [OF c] d' show ?thesis by (intro role_new [of ar r d d' "[]"]) auto
next
  case (UpdateRole a i n s cs)
  with assms update_role_step show ?thesis by simp
next
  case (DuplicateRole a i n)
  with assms duplicate_role_step show ?thesis by simp
next
  case (DeleteRole a i)
  with assms show ?thesis
    by (auto simp: delete_role_def bindE_Inr_iff Let_def require_role_within_authority_def own_role_def
        dest!: manager intro!: role_gone)
next
  case (CreateGrant a i s j cs)
  with assms show ?thesis
    by (auto simp: create_grant_def bindE_Inr_iff editable own_role_def dest!: manager intro!: grant_new)
next
  case (UpdateGrant a i j cs)
  with assms obtain r g where rg: "get_editable_role d ar i = Inr r" "grant_of_role d i j = Inr g"
    and d': "roles d' = roles d" "role_seq d' = role_seq d"
      "role_grants d' = tbl_put g_id (g\<lparr>g_capabilities := cs\<rparr>) (role_grants d)"
    by (auto simp: update_grant_def bindE_Inr_iff Let_def dest!: manager)
  from rg have "own_role ar r" "get_role d i = Some r" "tbl_get g_id (g_id g) (role_grants d) = Some g" "g_role_id g = i"
    by (auto simp: editable own_role_def grant_of_role dest: tbl_get_Some)
  with d' show ?thesis by (intro grant_change [where i = i and r = r and h = g and g = "g\<lparr>g_capabilities := cs\<rparr>"]) auto
next
  case (DeleteGrant a i j)
  with assms obtain r g where rg: "get_editable_role d ar i = Inr r" "grant_of_role d i j = Inr g"
    and d': "roles d' = roles d" "role_seq d' = role_seq d" "role_grants d' = tbl_del g_id j (role_grants d)"
    by (auto simp: delete_grant_def bindE_Inr_iff Let_def dest!: manager)
  from rg have "own_role ar r" "get_role d i = Some r" "tbl_get g_id (g_id g) (role_grants d) = Some g"
      "g_role_id g = i" "g_id g = j"
    by (auto simp: editable own_role_def grant_of_role dest: tbl_get_Some)
  with d' show ?thesis by (intro grant_change [where i = i and r = r and h = g and g = g]) auto
qed

section \<open>The invariant: built-in roles are immutable\<close>

text \<open>Relative to the built-in roles \<open>B\<close> and their grants \<open>G\<close> at the start: ids are unique, and
  neither ever changes.\<close>

definition roles_inv :: "role list \<Rightarrow> role_grant list \<Rightarrow> db \<Rightarrow> bool" where
  "roles_inv B G d \<longleftrightarrow>
     distinct (map ro_id (roles d)) \<and> (\<forall>r \<in> set (roles d). ro_id r \<le> role_seq d) \<and>
     distinct (map g_id (role_grants d)) \<and> (\<forall>b \<in> set B. ro_is_builtin b \<and> b \<in> set (roles d)) \<and>
     filter (\<lambda>g. g_role_id g \<in> ro_id ` set B) (role_grants d) = G"

lemma filter_map_same:
  "(\<And>x. x \<in> set xs \<Longrightarrow> f x \<noteq> x \<Longrightarrow> \<not> P x \<and> \<not> P (f x)) \<Longrightarrow> filter P (map f xs) = filter P xs"
proof (induction xs)
  case (Cons x xs)
  from Cons.prems [of x] have "P (f x) = P x \<and> (P x \<longrightarrow> f x = x)" by (cases "f x = x") auto
  moreover from Cons.prems have "filter P (map f xs) = filter P xs" by (intro Cons.IH) auto
  ultimately show ?case by simp
qed simp

lemma not_a_builtin:
  assumes "roles_inv B G d" "get_role d i = Some r" "\<not> ro_is_builtin r"
  shows "i \<notin> ro_id ` set B"
proof
  assume "i \<in> ro_id ` set B"
  then obtain b where b: "b \<in> set B" "ro_id b = i" by auto
  with assms(1) have "b \<in> set (roles d)" "ro_is_builtin b" "distinct (map ro_id (roles d))"
    by (auto simp: roles_inv_def)
  moreover from assms(2) have "r \<in> set (roles d)" "ro_id r = i" by (auto dest: tbl_get_Some)
  ultimately have "b = r" using b(2) by (metis distinct_map inj_onD)
  with \<open>ro_is_builtin b\<close> assms(3) show False by simp
qed

lemma grant_rows_inv:
  assumes "roles_inv B G d" "roles d' = roles d" "role_seq d' = role_seq d" "distinct (map g_id (role_grants d'))"
    and "filter (\<lambda>g. g_role_id g \<in> ro_id ` set B) (role_grants d') =
         filter (\<lambda>g. g_role_id g \<in> ro_id ` set B) (role_grants d)"
  shows "roles_inv B G d'"
  using assms by (simp add: roles_inv_def)

lemma role_step_inv:
  assumes "role_step ar d d'" "roles_inv B G d"
  shows "roles_inv B G d'"
  using assms(1)
proof cases
  case (role_new r hs)
  have fresh: "ro_id r \<notin> ro_id ` set (roles d)" "ro_id r \<notin> ro_id ` set B"
    using assms(2) role_new(2) by (force simp: roles_inv_def)+
  then have "filter (\<lambda>g. g_role_id g \<in> ro_id ` set B) hs = []"
    using role_new(6) by (auto simp: filter_empty_conv)
  with fresh role_new assms(2) show ?thesis by (fastforce simp: roles_inv_def)
next
  case (role_change old r)
  have "ro_id r \<notin> ro_id ` set B"
    using not_a_builtin [OF assms(2) role_change(3)] role_change(1) by (simp add: own_role_def)
  moreover have "b \<in> set (tbl_put ro_id r (roles d))" if "b \<in> set (roles d)" "ro_id b \<noteq> ro_id r" for b
    using that by (force simp: tbl_put_def)
  moreover have "\<forall>x \<in> set (tbl_put ro_id r (roles d)). ro_id x \<le> role_seq d"
    using assms(2) by (auto simp: roles_inv_def tbl_put_def)
  ultimately show ?thesis using assms(2) role_change(4-6) unfolding roles_inv_def by (metis image_eqI tbl_put_ids)
next
  case (role_gone r i)
  have i: "i \<notin> ro_id ` set B"
    using not_a_builtin [OF assms(2) role_gone(2)] role_gone(1) by (simp add: own_role_def)
  then have "filter (\<lambda>g. g_role_id g \<in> ro_id ` set B) (filter (\<lambda>g. g_role_id g \<noteq> i) (role_grants d)) =
    filter (\<lambda>g. g_role_id g \<in> ro_id ` set B) (role_grants d)"
    by (auto intro!: filter_cong simp: filter_filter)
  with i role_gone(3-5) assms(2) show ?thesis
    by (auto simp: roles_inv_def tbl_del_def distinct_map intro: inj_on_subset)
next
  case (grant_new r i g)
  have "i \<notin> ro_id ` set B"
    using not_a_builtin [OF assms(2) grant_new(2)] grant_new(1) by (simp add: own_role_def)
  with grant_new fresh_grant_id [of "role_grants d"] assms(2) show ?thesis
    by (intro grant_rows_inv [OF assms(2)]) (auto simp: roles_inv_def)
next
  case (grant_change r i g h)
  have i: "i \<notin> ro_id ` set B"
    using not_a_builtin [OF assms(2) grant_change(2)] grant_change(1) by (simp add: own_role_def)
  have dist: "distinct (map g_id (role_grants d))" using assms(2) by (simp add: roles_inv_def)
  have h: "x = h" if "x \<in> set (role_grants d)" "g_id x = g_id g" for x
    using that tbl_get_Some [OF grant_change(5)] dist by (metis distinct_map inj_onD)
  have "filter (\<lambda>g. g_role_id g \<in> ro_id ` set B) (tbl_put g_id g (role_grants d)) =
      filter (\<lambda>g. g_role_id g \<in> ro_id ` set B) (role_grants d)"
    unfolding tbl_put_def using h i grant_change(6,7) by (intro filter_map_same) (auto split: if_splits)
  moreover have "filter (\<lambda>g. g_role_id g \<in> ro_id ` set B) (tbl_del g_id (g_id g) (role_grants d)) =
      filter (\<lambda>g. g_role_id g \<in> ro_id ` set B) (role_grants d)"
    using h i grant_change(6) by (auto simp: tbl_del_def filter_filter intro!: filter_cong)
  moreover have "distinct (map g_id (tbl_del g_id (g_id g) (role_grants d)))"
    using dist by (auto simp: tbl_del_def distinct_map intro: inj_on_subset)
  ultimately show ?thesis using grant_change(3,4,8) dist
    by (intro grant_rows_inv [OF assms(2)]) (auto simp: )
qed

lemma exec_role_has_role:
  assumes "exec_role E op d = Inr d'"
  shows "\<exists>ar. user_role d (role_op_actor op) = Inr ar"
  using assms
  by (cases op) (auto simp: create_role_endpoint_def update_role_def delete_role_def duplicate_role_def
      create_grant_def update_grant_def delete_grant_def bindE_Inr_iff dest!: manager)

interpretation rol: guarded_machine "exec_role E" "roles_inv B G" for E B G
proof
  fix s s' and x :: role_op
  assume "roles_inv B G s" "exec_role E x s = Inr s'"
  then show "roles_inv B G s'" by (metis role_step_inv exec_role_step exec_role_has_role)
qed

section \<open>Properties\<close>

text \<open>
  C7: No escalation through the role endpoints: a role row that a successful request created or
  changed is not built-in and stays within the actor's own authority, before and after the change;
  so nobody can give a role (their own included) a global capability they lack, or make it
  super-admin without being one.
\<close>

theorem changed_roles_within_authority:
  assumes "exec_role E op d = Inr d'" "user_role d (role_op_actor op) = Inr actor_role"
    and "\<forall>x \<in> set (roles d). ro_id x \<le> role_seq d"
    and "r \<in> set (roles d')" "r \<notin> set (roles d)"
  shows "\<not> ro_is_builtin r \<and> role_within_authority actor_role r \<and>
         (\<forall>old. get_role d (ro_id r) = Some old \<longrightarrow> \<not> ro_is_builtin old \<and> role_within_authority actor_role old)"
  using exec_role_step [OF assms(1,2)]
proof cases
  case (role_new s hs)
  with assms(4,5) have "r = s" by auto
  with role_new(2) assms(3) have "get_role d (ro_id r) = None" by (force simp: tbl_get_None)
  with role_new(1) \<open>r = s\<close> show ?thesis by (simp add: own_role_def)
next
  case (role_change old s)
  from assms(4,5) role_change(4) have "r = s" by (auto simp: tbl_put_def split: if_splits)
  with role_change(1-3) show ?thesis by (simp add: own_role_def)
next
  case (role_gone s i)
  with assms(4,5) show ?thesis by (auto simp: tbl_del_def)
qed (use assms(4,5) in auto)

text \<open>
  A grant that a successful request added, changed or removed belongs to a role that is not
  built-in and is within the actor's authority, so nobody can widen or cut the access of a more
  powerful role.
\<close>

theorem touched_grants_within_authority:
  assumes "exec_role E op d = Inr d'" "user_role d (role_op_actor op) = Inr actor_role"
    and "distinct (map g_id (role_grants d))" "(g \<in> set (role_grants d')) \<noteq> (g \<in> set (role_grants d))"
  shows "\<exists>r \<in> set (roles d) \<union> set (roles d'). ro_id r = g_role_id g \<and> \<not> ro_is_builtin r \<and> role_within_authority actor_role r"
  using exec_role_step [OF assms(1,2)]
proof cases
  case (role_new r hs)
  with assms(4) have "g \<in> set hs" by auto
  with role_new show ?thesis by (intro bexI [of _ r]) (auto simp: own_role_def)
next
  case (role_gone r i)
  with assms(4) have "g_role_id g = i" by auto
  with role_gone(1,2) show ?thesis by (intro bexI [of _ r]) (auto simp: own_role_def dest: tbl_get_Some)
next
  case (grant_new r i h)
  with assms(4) have "g_role_id g = i" by auto
  with grant_new(1,2) show ?thesis by (intro bexI [of _ r]) (auto simp: own_role_def dest: tbl_get_Some)
next
  case (grant_change r i g1 h)
  have h: "x = h" if "x \<in> set (role_grants d)" "g_id x = g_id g1" for x
    using that tbl_get_Some [OF grant_change(5)] assms(3) by (metis distinct_map inj_onD)
  from assms(4) grant_change(8) have "g = g1 \<or> g \<in> set (role_grants d) \<and> g_id g = g_id g1"
    by (auto simp: tbl_put_def tbl_del_def split: if_splits)
  with h grant_change(6,7) have "g_role_id g = i" by auto
  with grant_change(1,2) show ?thesis by (intro bexI [of _ r]) (auto simp: own_role_def dest: tbl_get_Some)
qed (use assms(4) in auto)

text \<open>
  Built-in roles are immutable: after any sequence of role and grant requests by anyone, every
  built-in role is still there unchanged, and the grants of built-in roles are exactly the same, so
  nothing can be granted quietly to the role that new single-sign-on users land on.
\<close>

theorem builtin_roles_never_change:
  fixes d E
  defines "B \<equiv> filter ro_is_builtin (roles d)"
  assumes "distinct (map ro_id (roles d))" "\<forall>r \<in> set (roles d). ro_id r \<le> role_seq d"
    and "distinct (map g_id (role_grants d))"
  shows "set B \<subseteq> set (roles (rol.run_ops E ops d)) \<and>
         filter (\<lambda>g. g_role_id g \<in> ro_id ` set B) (role_grants (rol.run_ops E ops d)) =
         filter (\<lambda>g. g_role_id g \<in> ro_id ` set B) (role_grants d)"
proof -
  have "roles_inv B (filter (\<lambda>g. g_role_id g \<in> ro_id ` set B) (role_grants d)) d"
    using assms by (auto simp: roles_inv_def)
  from rol.run_inv [OF this, of E ops] show ?thesis by (auto simp: roles_inv_def)
qed

text \<open>
  \<open>update_role\<close> has no counterpart of \<open>_require_not_last_super_admin\<close>: when the only active
  super-admin holds a custom super-admin role, clearing the flag of that role leaves none.
\<close>

theorem role_edit_removes_the_last_super_admin:
  assumes "user_role d u = Inr r" "get_role d (ro_id r) = Some r" "ro_is_super_admin r" "\<not> ro_is_builtin r"
    and "\<forall>v \<in> set (users d). is_active_super d v \<longrightarrow> u_role_id v = ro_id r"
    and "distinct (map ro_name (roles d))"
  shows "\<exists>d'. update_role E u (ro_id r) None (Some False) None d = Inr d' \<and>
              (\<forall>v \<in> set (users d'). \<not> is_active_super d' v)"
proof -
  let ?r = "r\<lparr>ro_is_super_admin := False\<rparr>"
  have mem: "r \<in> set (roles d)" using assms(2) by (auto dest: tbl_get_Some)
  have "\<forall>x \<in> set (roles d). ro_id x \<noteq> ro_id r \<longrightarrow> ro_name x \<noteq> ro_name r"
    using mem assms(6) by (metis distinct_map inj_onD)
  moreover have "manager_role d u = Inr r"
    using assms(1,3) by (simp add: manager_role_def require_global_capability_def)
  moreover have "get_editable_role d r (ro_id r) = Inr r"
    using assms(2-4) by (simp add: editable role_within_authority_def)
  ultimately obtain d' where d': "update_role E u (ro_id r) None (Some False) None d = Inr d'"
    "users d' = users d" "roles d' = tbl_put ro_id ?r (roles d)"
    by (auto simp: update_role_def Let_def require_super_admin_for_super_admin_flag_def)
  have "\<not> is_active_super d' v" if "v \<in> set (users d')" for v
    using that assms(2,5) d' by (auto simp: is_active_super_def table_simps split: if_splits option.splits)
  with d'(1) show ?thesis by blast
qed

section \<open>Witnesses\<close>

lemma staff_roles:
  "roles staff_db = [root_role, operator_role]" "role_seq staff_db = 5"
  "user_role staff_db root_user = Inr root_role" "get_role staff_db 5 = Some operator_role"
  "manager_role staff_db root_user = Inr root_role"
  "get_editable_role staff_db root_role 5 = Inr operator_role"
  "map g_id (role_grants staff_db) = [1]" "tbl_max g_id (role_grants staff_db) = 1"
  by code_simp+

theorem changed_roles_within_authority_witness:
  "\<exists>d'. exec_role length_env (UpdateRole root_user 5 (Some ''staff'') None None) staff_db = Inr d' \<and>
     operator_role\<lparr>ro_name := ''staff''\<rparr> \<in> set (roles d') \<and>
     role_within_authority root_role (operator_role\<lparr>ro_name := ''staff''\<rparr>)"
proof -
  let ?r = "operator_role\<lparr>ro_name := ''staff''\<rparr>"
  have "?r \<notin> set (roles staff_db)" "tbl_put ro_id ?r (roles staff_db) = [root_role, ?r]"
    "ro_name root_role \<noteq> ''staff''" "ro_id operator_role = 5"
    "require_super_admin_for_super_admin_flag root_role (ro_is_super_admin operator_role) = Inr ()"
    by code_simp+
  moreover from this obtain d' where
    d': "exec_role length_env (UpdateRole root_user 5 (Some ''staff'') None None) staff_db = Inr d'"
      "roles d' = [root_role, ?r]"
    using staff_roles by (auto simp: update_role_def Let_def)
  ultimately have "role_within_authority root_role ?r"
    using staff_roles changed_roles_within_authority [OF d'(1), of root_role ?r]
    by (auto simp: root_role_def operator_role_def)
  with d' show ?thesis by auto
qed

definition staff_grant :: role_grant where
  "staff_grant = \<lparr>g_id = 2, g_role_id = 5, g_scope_type = ScopeCustomer, g_scope_id = 1, g_capabilities = [View]\<rparr>"

theorem touched_grants_within_authority_witness:
  "\<exists>d'. exec_role length_env (CreateGrant root_user 5 ScopeCustomer 1 [View]) staff_db = Inr d' \<and>
     staff_grant \<in> set (role_grants d') \<and>
     (\<exists>r \<in> set (roles staff_db) \<union> set (roles d').
        ro_id r = g_role_id staff_grant \<and> \<not> ro_is_builtin r \<and> role_within_authority root_role r)"
proof -
  have "validate_scope_exists staff_db ScopeCustomer 1 = Inr ()" "staff_grant \<notin> set (role_grants staff_db)"
    by code_simp+
  moreover from this obtain d' where
    d': "exec_role length_env (CreateGrant root_user 5 ScopeCustomer 1 [View]) staff_db = Inr d'"
      "staff_grant \<in> set (role_grants d')"
    using staff_roles by (auto simp: create_grant_def staff_grant_def)
  ultimately show ?thesis
    using touched_grants_within_authority [OF d'(1), of root_role staff_grant] staff_roles by auto
qed

theorem builtin_roles_never_change_witness:
  "set (filter ro_is_builtin (roles staff_db)) \<subseteq>
     set (roles (rol.run_ops length_env [DeleteRole root_user 1, CreateGrant root_user 1 ScopeCustomer 1 [View]] staff_db)) \<and>
   filter ro_is_builtin (roles staff_db) = [root_role]"
proof
  show "set (filter ro_is_builtin (roles staff_db)) \<subseteq>
     set (roles (rol.run_ops length_env [DeleteRole root_user 1, CreateGrant root_user 1 ScopeCustomer 1 [View]] staff_db))"
    by (rule builtin_roles_never_change [THEN conjunct1])
      (simp_all add: staff_roles root_role_def operator_role_def)
  show "filter ro_is_builtin (roles staff_db) = [root_role]"
    by (simp add: staff_roles root_role_def operator_role_def)
qed

definition deputy_role :: role where
  "deputy_role = \<lparr>ro_id = 3, ro_name = ''Deputies'', ro_is_builtin = False, ro_is_super_admin = True,
                  ro_global_capabilities = []\<rparr>"

definition deputy_db :: db where
  "deputy_db = staff_db\<lparr>roles := [root_role, deputy_role], users := [root_user\<lparr>u_role_id := 3\<rparr>]\<rparr>"

theorem role_edit_removes_the_last_super_admin_witness:
  "is_active_super deputy_db (root_user\<lparr>u_role_id := 3\<rparr>) \<and>
   (\<exists>d'. update_role length_env (root_user\<lparr>u_role_id := 3\<rparr>) (ro_id deputy_role) None (Some False) None deputy_db = Inr d' \<and>
         (\<forall>v \<in> set (users d'). \<not> is_active_super d' v))"
proof
  show "is_active_super deputy_db (root_user\<lparr>u_role_id := 3\<rparr>)" by code_simp
  show "\<exists>d'. update_role length_env (root_user\<lparr>u_role_id := 3\<rparr>) (ro_id deputy_role) None (Some False) None deputy_db = Inr d' \<and>
         (\<forall>v \<in> set (users d'). \<not> is_active_super d' v)"
    by (rule role_edit_removes_the_last_super_admin) code_simp+
qed

end
