(* ===== verification/Throttle.thy ===== *)
theory Throttle
  imports Prelude "HOL-Library.AList"
begin

text \<open>
  \<open>app/login_throttle.py\<close>: failed logins per user name, in memory. The dictionary is an association
  list in insertion order; \<open>time.monotonic()\<close> is an integer number of microseconds handed to each
  operation. Each operation runs under the module's lock, so it is one atomic step.
\<close>

section \<open>State\<close>

record throttle_limits =
  login_max_attempts :: int
  login_lockout_seconds :: int

record attempt_state =
  failures :: nat
  locked_until :: "int option"
  last_failure :: int

type_synonym throttle = "(string \<times> attempt_state) list"

definition max_tracked_usernames :: nat where
  "max_tracked_usernames = 10000"

definition second_us :: int where
  "second_us = 1000000"

definition window_us :: "throttle_limits \<Rightarrow> int" where
  "window_us L = login_lockout_seconds L * second_us"

section \<open>Operations\<close>

definition is_idle :: "int \<Rightarrow> int \<Rightarrow> attempt_state \<Rightarrow> bool" where
  "is_idle now window e =
     (case locked_until e of Some t \<Rightarrow> t \<le> now | None \<Rightarrow> window \<le> now - last_failure e)"

definition prune :: "int \<Rightarrow> int \<Rightarrow> throttle \<Rightarrow> throttle" where
  "prune now window st = filter (\<lambda>(u, e). \<not> is_idle now window e) st"

definition has_room :: "int \<Rightarrow> int \<Rightarrow> throttle \<Rightarrow> bool \<times> throttle" where
  "has_room now window st =
     (if length st < max_tracked_usernames then (True, st)
      else let st1 = prune now window st in (length st1 < max_tracked_usernames, st1))"

definition seconds_until_unlocked ::
  "throttle_limits \<Rightarrow> int \<Rightarrow> string \<Rightarrow> throttle \<Rightarrow> int option \<times> throttle" where
  "seconds_until_unlocked L now username st =
     (case map_of st username of
        None \<Rightarrow>
          let (room, st1) = has_room now (window_us L) st
          in (if room then None else Some (window_us L), st1)
      | Some e \<Rightarrow>
          (case locked_until e of
             None \<Rightarrow> (None, st)
           | Some t \<Rightarrow>
               if t - now \<le> 0 then (None, AList.delete username st) else (Some (t - now), st)))"

definition add_failure :: "throttle_limits \<Rightarrow> int \<Rightarrow> attempt_state \<Rightarrow> attempt_state" where
  "add_failure L now e =
     (let e1 = e\<lparr>failures := failures e + 1, last_failure := now\<rparr>
      in if login_max_attempts L \<le> int (failures e1) then e1\<lparr>locked_until := Some (now + window_us L)\<rparr> else e1)"

definition new_attempts :: attempt_state where
  "new_attempts = \<lparr>failures = 0, locked_until = None, last_failure = 0\<rparr>"

definition record_failure :: "throttle_limits \<Rightarrow> int \<Rightarrow> string \<Rightarrow> throttle \<Rightarrow> throttle" where
  "record_failure L now username st =
     (let (entry, st1) =
        (case map_of st username of
           None \<Rightarrow> (None, st)
         | Some e \<Rightarrow> if is_idle now (window_us L) e then (None, AList.delete username st) else (Some e, st))
      in case entry of
           Some e \<Rightarrow> AList.update username (add_failure L now e) st1
         | None \<Rightarrow>
             let (room, st2) = has_room now (window_us L) st1
             in if room then AList.update username (add_failure L now new_attempts) st2 else st2)"

definition record_success :: "string \<Rightarrow> throttle \<Rightarrow> throttle" where
  "record_success username st = AList.delete username st"

text \<open>
  The gate around a password: refused while locked, else a wrong password counts and a right one
  clears (\<open>_require_password_reconfirmation\<close> of \<open>api/auth.py\<close>, with the verdict \<open>ok\<close> of the password
  check). The result is the wait when refused.
\<close>

definition password_gate ::
  "throttle_limits \<Rightarrow> int \<Rightarrow> string \<Rightarrow> bool \<Rightarrow> throttle \<Rightarrow> int option \<times> throttle" where
  "password_gate L now username ok st =
     (case seconds_until_unlocked L now username st of
        (Some wait, st1) \<Rightarrow> (Some wait, st1)
      | (None, st1) \<Rightarrow> (None, if ok then record_success username st1 else record_failure L now username st1))"

section \<open>One operation and one account\<close>

lemma map_of_filter_snd:
  "distinct (map fst st) \<Longrightarrow>
   map_of (filter (\<lambda>(u, e). P e) st) u = (case map_of st u of None \<Rightarrow> None | Some e \<Rightarrow> if P e then Some e else None)"
proof (induction st)
  case (Cons ue st)
  then show ?case
    by (cases ue) (auto simp: map_of_eq_None_iff split: option.splits dest: map_of_SomeD)
qed simp

lemma map_of_prune:
  "distinct (map fst st) \<Longrightarrow>
   map_of (prune now w st) u = (case map_of st u of None \<Rightarrow> None | Some e \<Rightarrow> if is_idle now w e then None else Some e)"
  by (simp add: prune_def map_of_filter_snd split: option.splits)

lemma prune_distinct: "distinct (map fst st) \<Longrightarrow> distinct (map fst (prune now w st))"
  by (simp add: prune_def distinct_map_filter)

lemma has_room_distinct: "distinct (map fst st) \<Longrightarrow> distinct (map fst (snd (has_room now w st)))"
  by (simp add: has_room_def prune_distinct Let_def)

lemma map_of_has_room:
  "distinct (map fst st) \<Longrightarrow>
   map_of (snd (has_room now w st)) u = map_of st u \<or>
   (\<exists>e. map_of st u = Some e \<and> is_idle now w e \<and> map_of (snd (has_room now w st)) u = None)"
  by (auto simp: has_room_def Let_def map_of_prune split: option.splits)

lemmas dict_simps = update_conv' delete_conv' distinct_update distinct_delete

text \<open>What an operation may do to the entry of another name: nothing, or drop it when idle.\<close>

definition kept_or_idle :: "int \<Rightarrow> int \<Rightarrow> attempt_state option \<Rightarrow> attempt_state option \<Rightarrow> bool" where
  "kept_or_idle now w old new \<longleftrightarrow> new = old \<or> (\<exists>e. old = Some e \<and> is_idle now w e \<and> new = None)"

lemma has_room_kept:
  "distinct (map fst st) \<Longrightarrow> kept_or_idle now w (map_of st u) (map_of (snd (has_room now w st)) u)"
  using map_of_has_room [of st now w u] by (auto simp: kept_or_idle_def)

lemma check_inv:
  assumes "distinct (map fst st)"
  shows "distinct (map fst (snd (seconds_until_unlocked L now v st)))"
  using assms
  by (auto simp: seconds_until_unlocked_def split_beta Let_def has_room_distinct dict_simps split: option.splits)

lemma check_other:
  assumes "distinct (map fst st)" "u \<noteq> v"
  shows "kept_or_idle now (window_us L) (map_of st u) (map_of (snd (seconds_until_unlocked L now v st)) u)"
  using assms has_room_kept [of st now "window_us L" u]
  by (auto simp: seconds_until_unlocked_def split_beta Let_def dict_simps kept_or_idle_def split: option.splits)

lemma fail_inv:
  assumes "distinct (map fst st)"
  shows "distinct (map fst (record_failure L now v st))"
  using assms
  by (auto simp: record_failure_def split_beta Let_def has_room_distinct dict_simps split: option.splits)

lemma fail_other:
  assumes "distinct (map fst st)" "u \<noteq> v"
  shows "kept_or_idle now (window_us L) (map_of st u) (map_of (record_failure L now v st) u)"
proof -
  let ?del = "AList.delete v st"
  have "distinct (map fst ?del)" "map_of ?del u = map_of st u"
    using assms by (simp_all add: dict_simps)
  with assms has_room_kept [of st now "window_us L" u] has_room_kept [of ?del now "window_us L" u]
  show ?thesis
    by (auto simp: record_failure_def split_beta Let_def dict_simps kept_or_idle_def split: option.splits)
qed

text \<open>The two outcomes of a check that lets the name through.\<close>

lemma check_None:
  assumes "seconds_until_unlocked L now u st = (None, st1)" "distinct (map fst st)"
  shows "map_of st1 u = (case map_of st u of None \<Rightarrow> None
            | Some e \<Rightarrow> if locked_until e = None then Some e else None) \<and>
         (map_of st u = None \<longrightarrow> length st1 < max_tracked_usernames) \<and>
         (\<forall>e t. map_of st u = Some e \<longrightarrow> locked_until e = Some t \<longrightarrow> t \<le> now)"
proof (cases "map_of st u")
  case None
  with assms(1) have "fst (has_room now (window_us L) st)" "st1 = snd (has_room now (window_us L) st)"
    by (auto simp: seconds_until_unlocked_def split_beta Let_def split: if_splits)
  with None map_of_has_room [OF assms(2), of now "window_us L" u] show ?thesis
    by (auto simp: has_room_def Let_def split: if_splits)
next
  case (Some e)
  show ?thesis
  proof (cases "locked_until e")
    case None
    with Some assms(1) show ?thesis by (simp add: seconds_until_unlocked_def)
  next
    case (Some t)
    with \<open>map_of st u = Some e\<close> assms(1) show ?thesis
      by (auto simp: seconds_until_unlocked_def dict_simps split: if_splits)
  qed
qed

lemma check_None_room:
  assumes "seconds_until_unlocked L now u st = (None, st1)"
    and "distinct (map fst st)" "length st \<le> max_tracked_usernames"
  shows "map_of st1 u = None \<longrightarrow> length st1 < max_tracked_usernames"
proof
  assume none: "map_of st1 u = None"
  note c = check_None [OF assms(1,2)]
  show "length st1 < max_tracked_usernames"
  proof (cases "map_of st u")
    case None
    with c show ?thesis by simp
  next
    case (Some e)
    with c none obtain t where "locked_until e = Some t" "t \<le> now" by (auto split: if_splits)
    with Some assms(1) have "st1 = AList.delete u st" by (simp add: seconds_until_unlocked_def)
    moreover from Some have "length (AList.delete u st) < length st"
      by (auto simp: AList.delete_eq intro!: length_filter_less dest: map_of_SomeD)
    ultimately show ?thesis using assms(3) by simp
  qed
qed

text \<open>Counting a failure of a name that was let through at the same time.\<close>

lemma fail_self:
  assumes "distinct (map fst st)" "length st \<le> max_tracked_usernames"
    and "map_of st u = None \<longrightarrow> length st < max_tracked_usernames"
  shows "map_of (record_failure L now u st) u =
    Some (add_failure L now (case map_of st u of None \<Rightarrow> new_attempts
            | Some e \<Rightarrow> if is_idle now (window_us L) e then new_attempts else e))"
proof (cases "map_of st u")
  case None
  with assms show ?thesis by (simp add: record_failure_def has_room_def dict_simps)
next
  case (Some e)
  then have "length (AList.delete u st) < length st"
    by (auto simp: AList.delete_eq intro!: length_filter_less dest: map_of_SomeD)
  with assms(2) have "length (AList.delete u st) < max_tracked_usernames" by simp
  with Some show ?thesis by (simp add: record_failure_def has_room_def dict_simps)
qed

section \<open>The table stays bounded\<close>

text \<open>One entry per name, and never more than the limit.\<close>

definition throttle_ok :: "throttle \<Rightarrow> bool" where
  "throttle_ok st \<longleftrightarrow> distinct (map fst st) \<and> length st \<le> max_tracked_usernames"

lemma delete_length: "length (AList.delete u st) \<le> length st"
  by (simp add: AList.delete_eq)

lemma update_length: "length (AList.update u e st) \<le> (if map_of st u = None then Suc (length st) else length st)"
  by (induction st) auto

lemma has_room_ok: "throttle_ok st \<Longrightarrow> throttle_ok (snd (has_room now w st))"
  by (auto simp: throttle_ok_def has_room_def Let_def prune_def distinct_map_filter
      intro: order.trans [OF length_filter_le])

lemma delete_ok: "throttle_ok st \<Longrightarrow> throttle_ok (AList.delete u st)"
  using delete_length [of u st] by (simp add: throttle_ok_def dict_simps)

lemma update_ok:
  "throttle_ok st \<Longrightarrow> map_of st u \<noteq> None \<or> length st < max_tracked_usernames \<Longrightarrow> throttle_ok (AList.update u e st)"
  using update_length [of u e st] by (auto simp: throttle_ok_def dict_simps split: if_splits)

lemma check_ok: "throttle_ok st \<Longrightarrow> throttle_ok (snd (seconds_until_unlocked L now u st))"
  by (auto simp: seconds_until_unlocked_def split_beta Let_def has_room_ok delete_ok split: option.splits)

lemma has_room_length: "fst (has_room now w st) \<Longrightarrow> length (snd (has_room now w st)) < max_tracked_usernames"
  by (auto simp: has_room_def Let_def split: if_splits)

lemma fail_ok: "throttle_ok st \<Longrightarrow> throttle_ok (record_failure L now u st)"
  by (auto simp: record_failure_def split_beta Let_def has_room_ok delete_ok update_ok has_room_length split: option.splits)

lemma gate_ok: "throttle_ok st \<Longrightarrow> throttle_ok (snd (password_gate L now u b st))"
  using check_ok [of st L now u]
  by (auto simp: password_gate_def record_success_def fail_ok delete_ok split: prod.splits option.splits)

section \<open>Sequences of requests\<close>

text \<open>A request only asks whether a name may try (\<open>Check\<close>), or goes through the gate with a password
  (\<open>Guess\<close>). Every event carries its time.\<close>

datatype throttle_event = Check string | Guess string bool

fun event_name :: "throttle_event \<Rightarrow> string" where
  "event_name (Check u) = u"
| "event_name (Guess u ok) = u"

fun throttle_step :: "throttle_limits \<Rightarrow> int \<times> throttle_event \<Rightarrow> throttle \<Rightarrow> throttle" where
  "throttle_step L (now, Check u) st = snd (seconds_until_unlocked L now u st)"
| "throttle_step L (now, Guess u ok) st = snd (password_gate L now u ok st)"

abbreviation throttle_run :: "throttle_limits \<Rightarrow> (int \<times> throttle_event) list \<Rightarrow> throttle \<Rightarrow> throttle" where
  "throttle_run L evs st \<equiv> fold (throttle_step L) evs st"

text \<open>The wrong passwords for a name that were looked at.\<close>

fun wrong_guesses :: "throttle_limits \<Rightarrow> string \<Rightarrow> (int \<times> throttle_event) list \<Rightarrow> throttle \<Rightarrow> nat" where
  "wrong_guesses L u [] st = 0"
| "wrong_guesses L u ((now, ev) # evs) st =
     (if ev = Guess u False \<and> fst (password_gate L now u False st) = None then 1 else 0) +
     wrong_guesses L u evs (throttle_step L (now, ev) st)"

lemma step_ok: "throttle_ok st \<Longrightarrow> throttle_ok (throttle_step L e st)"
  by (cases "(L, e, st)" rule: throttle_step.cases) (simp_all add: check_ok gate_ok)

lemma step_other:
  assumes "throttle_ok st" "event_name ev \<noteq> u" "map_of st u = Some e" "\<not> is_idle now (window_us L) e"
  shows "map_of (throttle_step L (now, ev) st) u = Some e"
proof -
  have kept: "map_of st1 u = Some e" if "kept_or_idle now (window_us L) (Some e) (map_of st1 u)" for st1
    using that assms(4) by (auto simp: kept_or_idle_def)
  have d: "distinct (map fst st)" using assms(1) by (simp add: throttle_ok_def)
  show ?thesis
  proof (cases ev)
    case (Check v)
    with assms check_other [OF d, of u v now L] kept show ?thesis by auto
  next
    case (Guess v ok)
    obtain w st1 where c: "seconds_until_unlocked L now v st = (w, st1)" by fastforce
    with Guess assms check_other [OF d, of u v now L] kept have 1: "map_of st1 u = Some e" by auto
    from check_inv [OF d, of L now v] c have "distinct (map fst st1)" by simp
    with fail_other [of st1 u v now L] Guess assms(2) 1 kept have "map_of (record_failure L now v st1) u = Some e" by auto
    with c 1 Guess assms(2) show ?thesis
      by (auto simp: password_gate_def record_success_def dict_simps split: option.splits)
  qed
qed

section \<open>Counting guesses\<close>

text \<open>After \<open>k\<close> wrong guesses since \<open>t0\<close> the name is tracked with at least that many failures, or
  locked for a whole window.\<close>

definition counted :: "throttle_limits \<Rightarrow> string \<Rightarrow> int \<Rightarrow> nat \<Rightarrow> throttle \<Rightarrow> bool" where
  "counted L u t0 k st \<longleftrightarrow> throttle_ok st \<and> int k \<le> max 1 (login_max_attempts L) \<and>
     (k = 0 \<or> (\<exists>e. map_of st u = Some e \<and>
        (case locked_until e of
           None \<Rightarrow> t0 \<le> last_failure e \<and> k \<le> failures e \<and> int (failures e) < login_max_attempts L
         | Some t \<Rightarrow> t0 + window_us L \<le> t)))"

lemma counted_not_idle:
  assumes "counted L u t0 k st" "0 < k" "now < t0 + window_us L"
  shows "\<exists>e. map_of st u = Some e \<and> \<not> is_idle now (window_us L) e"
  using assms by (auto simp: counted_def is_idle_def split: option.splits)

lemma counted_other:
  assumes "counted L u t0 k st" "event_name ev \<noteq> u" "now < t0 + window_us L"
  shows "counted L u t0 k (throttle_step L (now, ev) st)"
proof (cases "k = 0")
  case True
  with assms(1) show ?thesis by (simp add: counted_def step_ok)
next
  case False
  with counted_not_idle [OF assms(1) _ assms(3)] obtain e where
    e: "map_of st u = Some e" "\<not> is_idle now (window_us L) e" by auto
  with step_other [OF _ assms(2) e] assms(1) show ?thesis by (simp add: counted_def step_ok)
qed

lemma counted_check:
  assumes "counted L u t0 k st" "now < t0 + window_us L"
  shows "counted L u t0 k (snd (seconds_until_unlocked L now u st))"
proof (cases "k = 0")
  case True
  with assms(1) show ?thesis by (simp add: counted_def check_ok)
next
  case False
  with assms have "snd (seconds_until_unlocked L now u st) = st"
    by (auto simp: counted_def seconds_until_unlocked_def split: option.splits)
  with assms(1) show ?thesis by simp
qed

lemma counted_wrong:
  assumes "counted L u t0 k st" "t0 \<le> now" "now < t0 + window_us L"
    and "seconds_until_unlocked L now u st = (None, st1)"
  shows "counted L u t0 (Suc k) (record_failure L now u st1)"
proof -
  have ok: "throttle_ok st" "distinct (map fst st)" using assms(1) by (auto simp: counted_def throttle_ok_def)
  from check_ok [OF ok(1), of L now u] assms(4) have ok1: "throttle_ok st1" by simp
  note c = check_None [OF assms(4) ok(2)]
  have room: "map_of st1 u = None \<longrightarrow> length st1 < max_tracked_usernames"
    using ok(1) by (intro check_None_room [OF assms(4)]) (auto simp: throttle_ok_def)
  have e: "map_of (record_failure L now u st1) u = Some (add_failure L now (case map_of st1 u of None \<Rightarrow> new_attempts
            | Some e \<Rightarrow> if is_idle now (window_us L) e then new_attempts else e))"
    using ok1 room by (intro fail_self) (auto simp: throttle_ok_def)
  define f where "f = (case map_of st1 u of None \<Rightarrow> new_attempts
            | Some e \<Rightarrow> if is_idle now (window_us L) e then new_attempts else e)"
  have free: "locked_until f = None"
    using c by (auto simp: f_def new_attempts_def split: option.splits if_splits)
  have many: "k \<le> failures f \<and> (0 < k \<longrightarrow> int (failures f) < login_max_attempts L)"
  proof (cases "k = 0")
    case False
    with assms(1) obtain g where g: "map_of st u = Some g" and cs: "case locked_until g of
           None \<Rightarrow> t0 \<le> last_failure g \<and> k \<le> failures g \<and> int (failures g) < login_max_attempts L
         | Some t \<Rightarrow> t0 + window_us L \<le> t" by (auto simp: counted_def)
    with c assms(3) have "locked_until g = None" by (auto split: option.splits)
    with g cs c assms(2,3) show ?thesis by (auto simp: f_def is_idle_def)
  qed simp
  have "map_of (record_failure L now u st1) u = Some (add_failure L now f)" using e by (simp add: f_def)
  with free many assms(2) show ?thesis
    using assms(1) fail_ok [OF ok1]
    by (auto simp: counted_def add_failure_def Let_def)
qed

lemma counted_guess:
  assumes "counted L u t0 k st" "t0 \<le> now" "now < t0 + window_us L"
  shows "counted L u t0 (k + (if fst (password_gate L now u False st) = None then 1 else 0))
           (snd (password_gate L now u False st))"
proof -
  obtain w st1 where c: "seconds_until_unlocked L now u st = (w, st1)" by fastforce
  show ?thesis
  proof (cases w)
    case None
    with counted_wrong [OF assms] c show ?thesis by (simp add: password_gate_def)
  next
    case (Some t)
    with counted_check [OF assms(1,3)] c show ?thesis by (simp add: password_gate_def)
  qed
qed

lemma wrong_guesses_counted:
  assumes "counted L u t0 k st"
    and "\<And>now ev. (now, ev) \<in> set evs \<Longrightarrow> t0 \<le> now \<and> now < t0 + window_us L \<and> ev \<noteq> Guess u True"
  shows "int (k + wrong_guesses L u evs st) \<le> max 1 (login_max_attempts L)"
  using assms
proof (induction evs arbitrary: k st)
  case Nil
  then show ?case by (simp add: counted_def)
next
  case (Cons e evs)
  obtain now ev where e: "e = (now, ev)" by fastforce
  let ?k = "k + (if ev = Guess u False \<and> fst (password_gate L now u False st) = None then 1 else 0)"
  from Cons.prems(2) [of now ev] e have t: "t0 \<le> now" "now < t0 + window_us L" "ev \<noteq> Guess u True" by auto
  have "counted L u t0 ?k (throttle_step L (now, ev) st)"
  proof (cases "event_name ev = u")
    case False
    with counted_other [OF Cons.prems(1) False t(2)] show ?thesis by auto
  next
    case True
    then show ?thesis
      using t counted_check [OF Cons.prems(1) t(2)] counted_guess [OF Cons.prems(1) t(1,2)]
      by (cases ev) auto
  qed
  from Cons.IH [OF this] Cons.prems(2) e
  have "int (?k + wrong_guesses L u evs (throttle_step L (now, ev) st)) \<le> max 1 (login_max_attempts L)"
    by (meson list.set_intros(2))
  then show ?case unfolding e wrong_guesses.simps add.assoc .
qed

section \<open>Properties\<close>

text \<open>
  Password guessing is bounded: within any period shorter than the lockout time in which a name
  has no right password, at most \<open>login_max_attempts\<close> wrong passwords for it are looked at (one when
  the limit is below one), whatever else goes on for other names; every further attempt is refused
  before the password is checked.
\<close>

theorem guesses_are_bounded:
  assumes "distinct (map fst st)" "length st \<le> max_tracked_usernames"
    and "\<And>now ev. (now, ev) \<in> set evs \<Longrightarrow> t0 \<le> now \<and> now < t0 + window_us L \<and> ev \<noteq> Guess u True"
  shows "int (wrong_guesses L u evs st) \<le> max 1 (login_max_attempts L)"
proof -
  from assms(1,2) have "counted L u t0 0 st" by (simp add: counted_def throttle_ok_def)
  from wrong_guesses_counted [OF this assms(3)] show ?thesis by simp
qed

text \<open>
  A flood of other names cannot reset an account: while the failure count or the lock of a name
  is live, no sequence of requests for other names changes it, also when the table is full.
\<close>

theorem flood_cannot_reset_an_account:
  assumes "distinct (map fst st)" "length st \<le> max_tracked_usernames" "map_of st u = Some e"
    and "\<And>now ev. (now, ev) \<in> set evs \<Longrightarrow> event_name ev \<noteq> u \<and> \<not> is_idle now (window_us L) e"
  shows "map_of (throttle_run L evs st) u = Some e \<and> length (throttle_run L evs st) \<le> max_tracked_usernames"
proof -
  have "throttle_ok (throttle_run L evs st) \<and> map_of (throttle_run L evs st) u = Some e"
    if "throttle_ok st" "map_of st u = Some e"
      "\<And>now ev. (now, ev) \<in> set evs \<Longrightarrow> event_name ev \<noteq> u \<and> \<not> is_idle now (window_us L) e" for st
    using that
  proof (induction evs arbitrary: st)
    case (Cons x evs)
    obtain now ev where x: "x = (now, ev)" by fastforce
    with Cons.prems(3) have "event_name ev \<noteq> u" "\<not> is_idle now (window_us L) e" by auto
    with step_other [OF Cons.prems(1) _ Cons.prems(2)] x have "map_of (throttle_step L x st) u = Some e" by simp
    from Cons.IH [OF step_ok [OF Cons.prems(1)] this] Cons.prems(3) show ?case
      by (simp add: x) (meson list.set_intros(2))
  qed simp
  with assms show ?thesis by (auto simp: throttle_ok_def)
qed

text \<open>Times in the table lie in the past, and no lock lasts longer than the lockout time.\<close>

definition times_up_to :: "throttle_limits \<Rightarrow> int \<Rightarrow> throttle \<Rightarrow> bool" where
  "times_up_to L T st \<longleftrightarrow> (\<forall>(u, e) \<in> set st. last_failure e \<le> T \<and>
     (case locked_until e of None \<Rightarrow> True | Some t \<Rightarrow> t \<le> T + window_us L))"

lemma times_sub: "times_up_to L T st \<Longrightarrow> set st' \<subseteq> set st \<Longrightarrow> times_up_to L T st'"
  by (auto simp: times_up_to_def)

lemma times_has_room: "times_up_to L T st \<Longrightarrow> times_up_to L T (snd (has_room now w st))"
  by (erule times_sub) (auto simp: has_room_def prune_def Let_def)

lemma times_delete: "times_up_to L T st \<Longrightarrow> times_up_to L T (AList.delete u st)"
  by (erule times_sub) (auto simp: AList.delete_eq)

lemma times_update:
  "times_up_to L T st \<Longrightarrow> now \<le> T \<Longrightarrow> locked_until f = None \<or> (\<exists>t. locked_until f = Some t \<and> t \<le> T + window_us L) \<Longrightarrow>
   times_up_to L T (AList.update u (add_failure L now f) st)"
proof -
  assume st: "times_up_to L T st" and f: "now \<le> T" "locked_until f = None \<or> (\<exists>t. locked_until f = Some t \<and> t \<le> T + window_us L)"
  have "times_up_to L T [(u, add_failure L now f)]"
    using f by (auto simp: times_up_to_def add_failure_def Let_def)
  with st have "times_up_to L T ((u, add_failure L now f) # st)" by (simp add: times_up_to_def)
  then show ?thesis by (rule times_sub) (simp add: set_alist_update_sub)
qed

lemma times_check: "times_up_to L T st \<Longrightarrow> times_up_to L T (snd (seconds_until_unlocked L now u st))"
  by (auto simp: seconds_until_unlocked_def split_beta Let_def times_has_room times_delete split: option.splits)

lemma times_fail:
  assumes "times_up_to L T st" "now \<le> T"
  shows "times_up_to L T (record_failure L now u st)"
proof -
  have "locked_until f = None \<or> (\<exists>t. locked_until f = Some t \<and> t \<le> T + window_us L)"
    if "map_of st u = Some f" for f
    using assms(1) map_of_SomeD [OF that] by (auto simp: times_up_to_def split: option.splits)
  then show ?thesis
    using assms
    by (auto simp: record_failure_def split_beta Let_def times_has_room times_delete new_attempts_def
        split: option.splits intro!: times_update)
qed

lemma times_step: "times_up_to L T st \<Longrightarrow> now \<le> T \<Longrightarrow> times_up_to L T (throttle_step L (now, ev) st)"
proof -
  assume st: "times_up_to L T st" "now \<le> T"
  have "times_up_to L T (snd (password_gate L now u ok st))" for u ok
    using times_check [OF st(1), of now u] st(2)
    by (auto simp: password_gate_def record_success_def times_delete times_fail split_beta split: option.splits)
  then show ?thesis using times_check [OF st(1)] by (cases ev) auto
qed

text \<open>
  C25: No lock is forever: whatever was tried up to some time, once the lockout time has passed
  without a request every name may try again.
\<close>

theorem quiet_period_unlocks_everyone:
  assumes "\<And>now ev. (now, ev) \<in> set evs \<Longrightarrow> now \<le> T" "T + window_us L \<le> now"
  shows "fst (seconds_until_unlocked L now u (throttle_run L evs [])) = None"
proof -
  have "times_up_to L T (throttle_run L evs st)" if "times_up_to L T st" "\<And>now ev. (now, ev) \<in> set evs \<Longrightarrow> now \<le> T" for st
    using that
  proof (induction evs arbitrary: st)
    case (Cons x evs)
    obtain t ev where x: "x = (t, ev)" by fastforce
    have "times_up_to L T (throttle_step L x st)" using x Cons.prems by (auto intro!: times_step)
    from Cons.IH [OF this] Cons.prems(2) show ?case by (simp) (meson list.set_intros(2))
  qed simp
  from this [of "[]"] assms(1) have times: "times_up_to L T (throttle_run L evs [])" by (simp add: times_up_to_def)
  let ?st = "throttle_run L evs []"
  have idle: "is_idle now (window_us L) e" if "(v, e) \<in> set ?st" for v e
    using times that assms(2) by (auto simp: times_up_to_def is_idle_def split: option.splits)
  then have "prune now (window_us L) ?st = []" by (auto simp: prune_def filter_empty_conv)
  then have "fst (has_room now (window_us L) ?st)" by (simp add: has_room_def max_tracked_usernames_def)
  moreover have "t - now \<le> 0" if "map_of ?st u = Some e" "locked_until e = Some t" for e t
    using idle [OF map_of_SomeD [OF that(1)]] that(2) by (simp add: is_idle_def)
  ultimately show ?thesis
    by (auto simp: seconds_until_unlocked_def split_beta Let_def split: option.splits)
qed

section \<open>Witnesses\<close>

definition three_strikes :: throttle_limits where
  "three_strikes = \<lparr>login_max_attempts = 3, login_lockout_seconds = 300\<rparr>"

theorem guesses_are_bounded_witness:
  "int (wrong_guesses three_strikes ''admin''
     [(1, Guess ''admin'' False), (2, Guess ''eve'' True), (3, Guess ''admin'' False), (4, Guess ''admin'' False),
      (5, Guess ''admin'' False)] []) \<le> max 1 3 \<and>
   wrong_guesses three_strikes ''admin''
     [(1, Guess ''admin'' False), (3, Guess ''admin'' False), (4, Guess ''admin'' False), (5, Guess ''admin'' False)] [] = 3"
proof
  have "login_max_attempts three_strikes = 3" by (simp add: three_strikes_def)
  moreover have "int (wrong_guesses three_strikes ''admin''
     [(1, Guess ''admin'' False), (2, Guess ''eve'' True), (3, Guess ''admin'' False), (4, Guess ''admin'' False),
      (5, Guess ''admin'' False)] []) \<le> max 1 (login_max_attempts three_strikes)"
    by (rule guesses_are_bounded [where ?t0.0 = 0]) (auto simp: three_strikes_def window_us_def second_us_def max_tracked_usernames_def)
  ultimately show "int (wrong_guesses three_strikes ''admin''
     [(1, Guess ''admin'' False), (2, Guess ''eve'' True), (3, Guess ''admin'' False), (4, Guess ''admin'' False),
      (5, Guess ''admin'' False)] []) \<le> max 1 3" by simp
  show "wrong_guesses three_strikes ''admin''
     [(1, Guess ''admin'' False), (3, Guess ''admin'' False), (4, Guess ''admin'' False), (5, Guess ''admin'' False)] [] = 3"
    by (simp add: password_gate_def seconds_until_unlocked_def record_failure_def has_room_def add_failure_def
        new_attempts_def is_idle_def three_strikes_def window_us_def second_us_def max_tracked_usernames_def)
qed

theorem flood_cannot_reset_an_account_witness:
  "map_of (throttle_run three_strikes [(20, Guess ''a'' False), (21, Check ''b''), (22, Guess ''c'' True)]
      [(''admin'', \<lparr>failures = 3, locked_until = Some 300000000, last_failure = 10\<rparr>)]) ''admin'' =
   Some \<lparr>failures = 3, locked_until = Some 300000000, last_failure = 10\<rparr>"
  by (rule flood_cannot_reset_an_account [THEN conjunct1])
    (auto simp: is_idle_def max_tracked_usernames_def)

theorem quiet_period_unlocks_everyone_witness:
  "fst (seconds_until_unlocked three_strikes 300000009 ''admin''
     (throttle_run three_strikes [(7, Guess ''admin'' False), (8, Guess ''admin'' False), (9, Guess ''admin'' False)] [])) = None"
  by (rule quiet_period_unlocks_everyone [where T = 9]) (auto simp: three_strikes_def window_us_def second_us_def)

end
