(* ===== verification/AuthEvents.thy ===== *)
theory AuthEvents
  imports AuditIntegrity Throttle
begin

text \<open>
  \<open>app/auth_events.py\<close>: failed logins, lockouts and attempts while locked, in the audit log, with
  repeats within a minute counted instead of written. \<open>recent\<close> is the module's dictionary; \<open>now\<close> is
  \<open>time.monotonic()\<close> in microseconds. The log lines are left out.
\<close>

section \<open>State and operations\<close>

type_synonym event_key = "string \<times> string \<times> string option \<times> string"

type_synonym recent = "(event_key \<times> int \<times> nat) list"

definition aggregate_us :: int where
  "aggregate_us = 60000000"

definition max_recent :: nat where
  "max_recent = 10000"

definition user_id_of :: "db \<Rightarrow> string \<Rightarrow> int option" where
  "user_id_of d username = map_option u_id (find (\<lambda>u. u_username u = username) (users d))"

definition event_metadata ::
  "string \<Rightarrow> string option \<Rightarrow> string \<Rightarrow> (string \<times> json) list \<Rightarrow> nat \<Rightarrow> (string \<times> json) list" where
  "event_metadata username client_ip reason extra folded =
     dict_merge [(''username'', JStr username), (''client_ip'', json_opt JStr client_ip), (''reason'', JStr reason)] extra
     @ (if folded \<noteq> 0 then [(''similar_events_folded'', JInt (int folded))] else [])"

definition drop_stale :: "int \<Rightarrow> recent \<Rightarrow> recent" where
  "drop_stale now recent =
     (if max_recent < length recent then filter (\<lambda>(k, t, n). \<not> aggregate_us \<le> now - t) recent else recent)"

definition record_auth_event ::
  "env \<Rightarrow> int \<Rightarrow> string \<Rightarrow> string \<Rightarrow> string option \<Rightarrow> string \<Rightarrow> (string \<times> json) list \<Rightarrow> recent \<times> db \<Rightarrow> recent \<times> db" where
  "record_auth_event E now action username client_ip reason extra = (\<lambda>(recent, d).
     let k = (action, username, client_ip, reason);
         write = (\<lambda>folded. (drop_stale now (AList.update k (now, 0) recent),
                   record_audit_event E d d (user_id_of d username) action (Some ''user'') None
                     (Some (event_metadata username client_ip reason extra folded))))
     in case map_of recent k of
          None \<Rightarrow> write 0
        | Some (t, n) \<Rightarrow>
            if now - t < aggregate_us then (AList.update k (t, n + 1) recent, d) else write n)"

text \<open>\<open>round\<close> of a float of seconds: to the nearest, halves to the even neighbour.\<close>

definition round_seconds :: "int \<Rightarrow> int" where
  "round_seconds us =
     (let q = us div second_us; r = us mod second_us
      in if 2 * r < second_us \<or> (2 * r = second_us \<and> even q) then q else q + 1)"

definition login_failed :: "env \<Rightarrow> int \<Rightarrow> string \<Rightarrow> string option \<Rightarrow> string \<Rightarrow> recent \<times> db \<Rightarrow> recent \<times> db" where
  "login_failed E now username client_ip reason =
     record_auth_event E now ''user.login_failed'' username client_ip reason []"

definition locked_out :: "env \<Rightarrow> int \<Rightarrow> string \<Rightarrow> string option \<Rightarrow> int \<Rightarrow> recent \<times> db \<Rightarrow> recent \<times> db" where
  "locked_out E now username client_ip lock_us =
     record_auth_event E now ''user.locked_out'' username client_ip ''too_many_failures''
       [(''lock_seconds'', JInt (round_seconds lock_us))]"

definition login_throttled :: "env \<Rightarrow> int \<Rightarrow> string \<Rightarrow> string option \<Rightarrow> recent \<times> db \<Rightarrow> recent \<times> db" where
  "login_throttled E now username client_ip =
     record_auth_event E now ''user.login_throttled'' username client_ip ''locked'' []"

section \<open>Sequences of events\<close>

datatype auth_event =
    LoginFailed string "string option" string
  | LockedOut string "string option" int
  | LoginThrottled string "string option"

fun event_key_of :: "auth_event \<Rightarrow> event_key" where
  "event_key_of (LoginFailed u ip r) = (''user.login_failed'', u, ip, r)"
| "event_key_of (LockedOut u ip s) = (''user.locked_out'', u, ip, ''too_many_failures'')"
| "event_key_of (LoginThrottled u ip) = (''user.login_throttled'', u, ip, ''locked'')"

fun event_extra :: "auth_event \<Rightarrow> (string \<times> json) list" where
  "event_extra (LockedOut u ip s) = [(''lock_seconds'', JInt (round_seconds s))]"
| "event_extra _ = []"

fun do_event :: "env \<Rightarrow> int \<times> auth_event \<Rightarrow> recent \<times> db \<Rightarrow> recent \<times> db" where
  "do_event E (now, LoginFailed u ip r) s = login_failed E now u ip r s"
| "do_event E (now, LockedOut u ip t) s = locked_out E now u ip t s"
| "do_event E (now, LoginThrottled u ip) s = login_throttled E now u ip s"

text \<open>What a row of the log accounts for: itself and the events folded into it.\<close>

definition row_key :: "audit_log \<Rightarrow> event_key option" where
  "row_key r =
     (case a_metadata r of None \<Rightarrow> None | Some m \<Rightarrow>
        (case (dict_get ''username'' m, dict_get ''client_ip'' m, dict_get ''reason'' m) of
           (Some (JStr u), Some ip, Some (JStr reason)) \<Rightarrow>
             Some (a_action r, u, (case ip of JStr s \<Rightarrow> Some s | _ \<Rightarrow> None), reason)
         | _ \<Rightarrow> None))"

definition row_events :: "audit_log \<Rightarrow> nat" where
  "row_events r =
     (case a_metadata r of None \<Rightarrow> 1 | Some m \<Rightarrow>
        (case dict_get ''similar_events_folded'' m of Some (JInt n) \<Rightarrow> 1 + nat n | _ \<Rightarrow> 1))"

definition logged_events :: "event_key \<Rightarrow> audit_log list \<Rightarrow> nat" where
  "logged_events k rows = sum_list (map row_events (filter (\<lambda>r. row_key r = Some k) rows))"

definition pending_events :: "event_key \<Rightarrow> recent \<Rightarrow> nat" where
  "pending_events k recent = (case map_of recent k of None \<Rightarrow> 0 | Some (t, n) \<Rightarrow> n)"

definition accounted :: "event_key \<Rightarrow> recent \<times> db \<Rightarrow> nat" where
  "accounted k s = logged_events k (audit_rows (snd s)) + pending_events k (fst s)"

lemma do_event_record:
  "do_event E (now, ev) s =
     (case event_key_of ev of (action, u, ip, reason) \<Rightarrow>
        record_auth_event E now action u ip reason (event_extra ev) s)"
  by (cases ev) (simp_all add: login_failed_def locked_out_def login_throttled_def)

lemma user_labels: "dict_get ''source_id'' m = None \<Longrightarrow> dict_get ''role_id'' m = None \<Longrightarrow>
  dict_get ''customer_id'' m = None \<Longrightarrow> dict_get ''scope_type'' m = None \<Longrightarrow>
  labelled d (Some ''user'') None (Some m) = Some m"
  by (simp add: labelled_def audit_labels_def describe_target_def related_label_def scope_label_def
      describe_def get_row_def label_def)

lemma event_gets:
  "dict_get ''username'' (event_metadata u ip reason (event_extra ev) n) = Some (JStr u)"
  "dict_get ''client_ip'' (event_metadata u ip reason (event_extra ev) n) = Some (json_opt JStr ip)"
  "dict_get ''reason'' (event_metadata u ip reason (event_extra ev) n) = Some (JStr reason)"
  "dict_get ''similar_events_folded'' (event_metadata u ip reason (event_extra ev) n) =
     (if n = 0 then None else Some (JInt (int n)))"
  "dict_get ''source_id'' (event_metadata u ip reason (event_extra ev) n) = None"
  "dict_get ''role_id'' (event_metadata u ip reason (event_extra ev) n) = None"
  "dict_get ''customer_id'' (event_metadata u ip reason (event_extra ev) n) = None"
  "dict_get ''scope_type'' (event_metadata u ip reason (event_extra ev) n) = None"
  by (cases ev; simp add: event_metadata_def dict_get_def dict_merge_def)+

lemma event_labels:
  "labelled d (Some ''user'') None (Some (event_metadata u ip reason (event_extra ev) n)) =
     Some (event_metadata u ip reason (event_extra ev) n)"
  by (rule user_labels) (rule event_gets)+

lemma written_row:
  assumes "event_key_of ev = (action, u, ip, reason)"
    and "r = chain_new_entry E d (new_audit_entry E d d i action (Some ''user'') None
           (Some (event_metadata u ip reason (event_extra ev) n)))"
  shows "row_key r = Some (event_key_of ev)" "row_events r = n + 1"
proof -
  have m: "a_metadata r = Some (event_metadata u ip reason (event_extra ev) n)" "a_action r = action"
    by (simp_all add: assms(2) event_labels)
  show "row_key r = Some (event_key_of ev)" unfolding assms(1)
    by (cases ip) (simp_all add: row_key_def m event_gets json_opt_def)
  show "row_events r = n + 1" by (simp add: row_events_def m event_gets)
qed

lemma drop_stale_small: "length st \<le> max_recent \<Longrightarrow> drop_stale now st = st"
  by (simp add: drop_stale_def)

lemma small_dict: "distinct (map fst st) \<Longrightarrow> fst ` set st \<subseteq> K \<Longrightarrow> finite K \<Longrightarrow> card K \<le> n \<Longrightarrow> length st \<le> n"
  using distinct_card [of "map fst st"] card_mono [of K "fst ` set st"] by simp

lemma event_accounted:
  assumes "distinct (map fst (fst s))" "insert (event_key_of ev) (fst ` set (fst s)) \<subseteq> K"
    and "finite K" "card K \<le> max_recent"
  shows "accounted k (do_event E (now, ev) s) =
         accounted k s + (if event_key_of ev = k then 1 else 0)"
proof -
  obtain recent d where s: "s = (recent, d)" by fastforce
  obtain action u ip reason where key: "event_key_of ev = (action, u, ip, reason)"
    using prod_cases4 by blast
  let ?k = "event_key_of ev"
  have upd: "drop_stale now (AList.update ?k v recent) = AList.update ?k v recent" for v
    using assms s by (intro drop_stale_small small_dict [of _ K]) (simp_all add: distinct_update dom_update)
  have wrote: "accounted k (AList.update ?k (now, 0) recent,
      record_audit_event E d d i action (Some ''user'') None (Some (event_metadata u ip reason (event_extra ev) n)))
    = logged_events k (audit_rows d) + (if ?k = k then n + 1 else pending_events k recent)" for i n
    using written_row [OF key refl, of E d i n]
    by (auto simp: accounted_def logged_events_def record_rows pending_events_def update_conv')
  show ?thesis
  proof (cases "map_of recent ?k")
    case None
    then show ?thesis
      using wrote [of "user_id_of d u" 0] upd [of "(now, 0)"]
      by (auto simp: do_event_record record_auth_event_def s key accounted_def pending_events_def)
  next
    case (Some tn)
    obtain t n where tn: "tn = (t, n)" by fastforce
    show ?thesis
      using Some wrote [of "user_id_of d u" n] upd [of "(now, 0)"]
      by (auto simp: do_event_record record_auth_event_def s key accounted_def pending_events_def update_conv' tn)
  qed
qed

lemma event_keys:
  assumes "distinct (map fst (fst s))"
  shows "distinct (map fst (fst (do_event E (now, ev) s))) \<and>
         fst ` set (fst (do_event E (now, ev) s)) \<subseteq> insert (event_key_of ev) (fst ` set (fst s))"
proof -
  obtain recent d where s: "s = (recent, d)" by fastforce
  obtain action u ip reason where key: "event_key_of ev = (action, u, ip, reason)"
    using prod_cases4 by blast
  have upd: "distinct (map fst (AList.update k v recent))" "fst ` set (AList.update k v recent) = insert k (fst ` set recent)" for k v
    using assms by (simp_all add: s distinct_update dom_update)
  have drop: "distinct (map fst r) \<Longrightarrow> distinct (map fst (drop_stale now r))" "fst ` set (drop_stale now r) \<subseteq> fst ` set r" for r
    by (auto simp: drop_stale_def distinct_map_filter)
  have *: "distinct (map fst (drop_stale now (AList.update k v recent)))"
    "fst ` set (drop_stale now (AList.update k v recent)) \<subseteq> insert k (fst ` set recent)" for k v
    using upd [of k v] drop [of "AList.update k v recent"] by auto
  show ?thesis
    using upd * assms
    by (cases "map_of recent (event_key_of ev)")
      (simp_all add: do_event_record record_auth_event_def s key split_beta Let_def subset_insertI)
qed

section \<open>Properties\<close>

text \<open>
  No failed login goes unaccounted: as long as no more different keys than the limit were seen,
  every failure, lockout and throttled attempt is either a row of the audit log or counted, and the
  count is written with the next row of its key: rows, folded counts and the pending count add up to
  the number of events.
\<close>

theorem every_event_is_accounted:
  assumes "card ((\<lambda>(t, ev). event_key_of ev) ` set evs) \<le> max_recent"
  shows "accounted k (fold (do_event E) evs ([], d)) =
         logged_events k (audit_rows d) + length (filter (\<lambda>(t, ev). event_key_of ev = k) evs)"
proof -
  define K where "K = (\<lambda>(t, ev). event_key_of ev) ` set evs"
  have "accounted k (fold (do_event E) es s) = accounted k s + length (filter (\<lambda>(t, ev). event_key_of ev = k) es)"
    if "distinct (map fst (fst s))" "fst ` set (fst s) \<subseteq> K" "(\<lambda>(t, ev). event_key_of ev) ` set es \<subseteq> K" for es s
    using that
  proof (induction es arbitrary: s)
    case (Cons e es)
    obtain t ev where e: "e = (t, ev)" by fastforce
    have "accounted k (do_event E e s) = accounted k s + (if event_key_of ev = k then 1 else 0)"
      unfolding e using Cons.prems e assms by (intro event_accounted [of _ _ K]) (auto simp: K_def)
    moreover have "fst ` set (fst (do_event E e s)) \<subseteq> K"
    proof -
      have "fst ` set (fst (do_event E e s)) \<subseteq> insert (event_key_of ev) (fst ` set (fst s))"
        using event_keys [OF Cons.prems(1), of E t ev] e by simp
      also have "\<dots> \<subseteq> K" using Cons.prems(2,3) e by simp
      finally show ?thesis .
    qed
    then have "accounted k (fold (do_event E) es (do_event E e s)) =
        accounted k (do_event E e s) + length (filter (\<lambda>(t, ev). event_key_of ev = k) es)"
      using Cons.prems event_keys [OF Cons.prems(1), of E t ev] e by (intro Cons.IH) auto
    ultimately show ?case by (simp add: e)
  qed simp
  from this [of "([], d)" evs] show ?thesis by (simp add: K_def accounted_def pending_events_def)
qed

text \<open>
  When the table is over its limit an entry whose minute has passed is dropped with its count: those
  events are never written, though the module promises that the next row of the key carries them.
\<close>

lemma dropped_counts_are_lost:
  assumes "map_of recent k = Some (t, n)" "aggregate_us \<le> now - t" "event_key_of ev \<noteq> k"
    and "map_of recent (event_key_of ev) = None" "distinct (map fst recent)" "length recent = max_recent"
  shows "accounted k (do_event E (now, ev) (recent, d)) + n = accounted k (recent, d)"
proof -
  obtain action u ip reason where key: "event_key_of ev = (action, u, ip, reason)"
    using prod_cases4 by blast
  let ?k = "event_key_of ev"
  have new: "AList.update ?k (now, 0) recent = recent @ [(?k, now, 0)]"
    using assms(4) by (induction recent) (auto split: if_splits)
  have "distinct (map fst (recent @ [(?k, now, 0::nat)]))" "map_of (recent @ [(?k, now, 0)]) k = Some (t, n)"
    using assms(1,4,5) by (auto simp: map_of_eq_None_iff map_add_Some_iff)
  then have gone: "map_of (drop_stale now (recent @ [(?k, now, 0)])) k = None"
    using assms(2,6) map_of_filter_snd [of "recent @ [(?k, now, 0)]" "\<lambda>(t, n). \<not> aggregate_us \<le> now - t" k]
    by (simp add: drop_stale_def)
  have "do_event E (now, ev) (recent, d) = (drop_stale now (recent @ [(?k, now, 0)]),
      record_audit_event E d d (user_id_of d u) action (Some ''user'') None
        (Some (event_metadata u ip reason (event_extra ev) 0)))"
    using assms(4) new by (simp add: do_event_record record_auth_event_def key)
  with gone written_row [OF key refl, of E d "user_id_of d u" 0] assms(1,3) show ?thesis
    by (simp add: accounted_def logged_events_def record_rows pending_events_def)
qed

section \<open>Witnesses\<close>

theorem every_event_is_accounted_witness:
  "accounted (''user.login_failed'', ''eve'', None, ''bad_credentials'')
     (fold (do_event length_env) [(0, LoginFailed ''eve'' None ''bad_credentials''), (5, LoginFailed ''eve'' None ''bad_credentials''),
        (aggregate_us, LoginFailed ''eve'' None ''bad_credentials'')] ([], empty_db)) = 3"
  using every_event_is_accounted [of "[(0, LoginFailed ''eve'' None ''bad_credentials''),
      (5, LoginFailed ''eve'' None ''bad_credentials''), (aggregate_us, LoginFailed ''eve'' None ''bad_credentials'')]"
      "(''user.login_failed'', ''eve'', None, ''bad_credentials'')" length_env empty_db]
  by (simp del: do_event.simps add: max_recent_def logged_events_def empty_db_def)

end
