(* ===== verification/Mfa.thy ===== *)
theory Mfa
  imports Sessions
begin

text \<open>
  \<open>app/auth/mfa.py\<close>: time-based codes and backup codes as a second factor. What pyotp computes for a
  secret and a step counter, and the encryption of a stored secret, are in \<open>mfa_env\<close>; random values
  (a secret, the hex of a backup code, a salt) are arguments of the operation that draws them. An
  operation takes the user row and returns it as it left it, beside the database.
\<close>

record mfa_env =
  mf_totp :: "string \<Rightarrow> int \<Rightarrow> string"
  mf_encrypt :: "string \<Rightarrow> string"
  mf_decrypt :: "string \<Rightarrow> string"

datatype mfa_error = MfaValueError string | MfaTypeError

definition backup_code_count :: nat where
  "backup_code_count = 10"

definition totp_interval_us :: int where
  "totp_interval_us = 30000000"

definition totp_valid_window :: int where
  "totp_valid_window = 1"

section \<open>Time-based codes\<close>

text \<open>\<open>str.isdigit\<close>, which accepts the superscript digits too (below code point 256).\<close>

definition is_py_digit :: "char \<Rightarrow> bool" where
  "is_py_digit c \<longleftrightarrow> is_digit c \<or> c \<in> {CHR 0xB2, CHR 0xB3, CHR 0xB9}"

definition py_isdigit :: "string \<Rightarrow> bool" where
  "py_isdigit s \<longleftrightarrow> s \<noteq> [] \<and> list_all is_py_digit s"

definition normalize_code :: "string \<Rightarrow> string" where
  "normalize_code code = filter (\<lambda>c. c \<noteq> CHR '' '') (strip code)"

definition current_counter :: "env \<Rightarrow> int" where
  "current_counter E = e_now E div totp_interval_us"

text \<open>\<open>secrets.compare_digest\<close> of two strings raises on a character outside ASCII.\<close>

definition compare_digest :: "string \<Rightarrow> string \<Rightarrow> mfa_error + bool" where
  "compare_digest a b = (if ascii a \<and> ascii b then Inr (a = b) else Inl MfaTypeError)"

fun try_offsets ::
  "env \<Rightarrow> mfa_env \<Rightarrow> string \<Rightarrow> string \<Rightarrow> int list \<Rightarrow> user \<Rightarrow> db \<Rightarrow> mfa_error + (bool \<times> user \<times> db)" where
  "try_offsets E M secret normalized [] u d = Inr (False, u, d)"
| "try_offsets E M secret normalized (off # offs) u d =
     bindE (compare_digest (mf_totp M secret (current_counter E + off)) normalized) (\<lambda>same.
     if \<not> same then try_offsets E M secret normalized offs u d
     else
       let counter = current_counter E + off
       in if (case u_mfa_last_used_step u of None \<Rightarrow> False | Some l \<Rightarrow> counter \<le> l) then Inr (False, u, d)
          else let u1 = u\<lparr>u_mfa_last_used_step := Some counter\<rparr>
               in Inr (True, u1, d\<lparr>users := tbl_put u_id u1 (users d)\<rparr>))"

definition consume_totp_code ::
  "env \<Rightarrow> mfa_env \<Rightarrow> user \<Rightarrow> string \<Rightarrow> string \<Rightarrow> db \<Rightarrow> mfa_error + (bool \<times> user \<times> db)" where
  "consume_totp_code E M u secret code d =
     (let normalized = normalize_code code
      in if \<not> py_isdigit normalized then Inr (False, u, d)
         else try_offsets E M secret normalized [- totp_valid_window .. totp_valid_window] u d)"

section \<open>Backup codes\<close>

definition normalize_backup_code :: "string \<Rightarrow> string" where
  "normalize_backup_code code = lower (filter (\<lambda>c. c \<noteq> CHR ''-'' \<and> c \<noteq> CHR '' '') (strip code))"

definition format_backup_code :: "string \<Rightarrow> string" where
  "format_backup_code raw_hex = take 5 raw_hex @ ''-'' @ drop 5 raw_hex"

definition hash_backup_code :: "auth_env \<Rightarrow> string \<Rightarrow> string \<Rightarrow> string" where
  "hash_backup_code A salt code = au_argon_hash A salt (normalize_backup_code code)"

text \<open>\<open>drawn\<close> is the list of the \<open>BACKUP_CODE_COUNT\<close> drawn hex strings, each with the salt of its hash.
  The flush of the audit write inserts the new rows before it deletes the old ones, so the new ids
  lie above all old ones.\<close>

fun backup_rows ::
  "env \<Rightarrow> auth_env \<Rightarrow> int \<Rightarrow> int \<Rightarrow> (string \<times> string) list \<Rightarrow> mfa_backup_code list" where
  "backup_rows E A user_id i [] = []"
| "backup_rows E A user_id i ((raw_hex, salt) # drawn) =
     \<lparr>bc_id = i, bc_user_id = user_id, bc_code_hash = hash_backup_code A salt (format_backup_code raw_hex),
      bc_created_at = e_now E, bc_used_at = None\<rparr> # backup_rows E A user_id (i + 1) drawn"

definition replace_backup_codes ::
  "env \<Rightarrow> auth_env \<Rightarrow> (string \<times> string) list \<Rightarrow> user \<Rightarrow> db \<Rightarrow> string list \<times> db" where
  "replace_backup_codes E A drawn u d =
     (map (\<lambda>(raw_hex, salt). format_backup_code raw_hex) drawn,
      d\<lparr>backup_codes := filter (\<lambda>b. bc_user_id b \<noteq> u_id u) (backup_codes d)
           @ backup_rows E A (u_id u) (tbl_max bc_id (backup_codes d) + 1) drawn\<rparr>)"

definition consume_backup_code :: "env \<Rightarrow> auth_env \<Rightarrow> user \<Rightarrow> string \<Rightarrow> db \<Rightarrow> bool \<times> db" where
  "consume_backup_code E A u code d =
     (let normalized = normalize_backup_code code
      in if normalized = '''' then (False, d)
         else
           (case find (\<lambda>b. au_argon_verify A (bc_code_hash b) normalized)
                   (filter (\<lambda>b. bc_user_id b = u_id u \<and> bc_used_at b = None) (backup_codes d)) of
              None \<Rightarrow> (False, d)
            | Some b \<Rightarrow> (True, d\<lparr>backup_codes := tbl_put bc_id (b\<lparr>bc_used_at := Some (e_now E)\<rparr>) (backup_codes d)\<rparr>)))"

section \<open>Enrolment\<close>

definition start_enrollment :: "mfa_env \<Rightarrow> string \<Rightarrow> user \<Rightarrow> db \<Rightarrow> string \<times> user \<times> db" where
  "start_enrollment M secret u d =
     (let u1 = u\<lparr>u_mfa_secret_encrypted := Some (mf_encrypt M secret)\<rparr>
      in (secret, u1, d\<lparr>users := tbl_put u_id u1 (users d)\<rparr>))"

definition confirm_enrollment ::
  "env \<Rightarrow> auth_env \<Rightarrow> mfa_env \<Rightarrow> (string \<times> string) list \<Rightarrow> user \<Rightarrow> string \<Rightarrow> db
     \<Rightarrow> mfa_error + (string list \<times> user \<times> db)" where
  "confirm_enrollment E A M drawn u code d =
     bindE (someE (MfaValueError ''no pending MFA enrollment'') (u_mfa_secret_encrypted u)) (\<lambda>stored.
     bindE (consume_totp_code E M u (mf_decrypt M stored) code d) (\<lambda>(ok, u1, d1).
     bindE (requireE ok (MfaValueError ''invalid code'')) (\<lambda>_.
       let u2 = u1\<lparr>u_mfa_enabled := True, u_mfa_enrolled_at := Some (e_now E)\<rparr>;
           (codes, d2) = replace_backup_codes E A drawn u2 (d1\<lparr>users := tbl_put u_id u2 (users d1)\<rparr>)
       in Inr (codes, u2, d2))))"

definition disable_mfa :: "user \<Rightarrow> db \<Rightarrow> user \<times> db" where
  "disable_mfa u d =
     (let u1 = u\<lparr>u_mfa_enabled := False, u_mfa_secret_encrypted := None, u_mfa_enrolled_at := None,
                 u_mfa_last_used_step := None\<rparr>
      in (u1, d\<lparr>users := tbl_put u_id u1 (users d),
                backup_codes := filter (\<lambda>b. bc_user_id b \<noteq> u_id u) (backup_codes d)\<rparr>))"

definition regenerate_backup_codes ::
  "env \<Rightarrow> auth_env \<Rightarrow> (string \<times> string) list \<Rightarrow> user \<Rightarrow> db \<Rightarrow> mfa_error + (string list \<times> db)" where
  "regenerate_backup_codes E A drawn u d =
     bindE (requireE (u_mfa_enabled u) (MfaValueError ''MFA is not enabled'')) (\<lambda>_.
     Inr (replace_backup_codes E A drawn u d))"

section \<open>At login\<close>

definition verify_mfa_code ::
  "env \<Rightarrow> auth_env \<Rightarrow> mfa_env \<Rightarrow> user \<Rightarrow> string \<Rightarrow> db \<Rightarrow> mfa_error + (bool \<times> user \<times> db)" where
  "verify_mfa_code E A M u code d =
     (case u_mfa_secret_encrypted u of
        None \<Rightarrow> Inr (False, u, d)
      | Some stored \<Rightarrow>
          if \<not> u_mfa_enabled u then Inr (False, u, d)
          else
            bindE (consume_totp_code E M u (mf_decrypt M stored) code d) (\<lambda>(ok, u1, d1).
            if ok then Inr (True, u1, d1)
            else case consume_backup_code E A u1 code d1 of (ok, d2) \<Rightarrow> Inr (ok, u1, d2)))"

section \<open>One code\<close>

lemma try_offsets_result:
  assumes "try_offsets E M secret code offs u d = Inr (ok, u', d')"
  shows "(ok \<and> (\<exists>off \<in> set offs. mf_totp M secret (current_counter E + off) = code \<and>
             (\<forall>l. u_mfa_last_used_step u = Some l \<longrightarrow> l < current_counter E + off) \<and>
             u' = u\<lparr>u_mfa_last_used_step := Some (current_counter E + off)\<rparr> \<and>
             d' = d\<lparr>users := tbl_put u_id u' (users d)\<rparr>))
         \<or> (\<not> ok \<and> u' = u \<and> d' = d)"
  using assms
proof (induction offs)
  case (Cons off offs)
  show ?case
  proof (cases "compare_digest (mf_totp M secret (current_counter E + off)) code = Inr False")
    case True
    with Cons show ?thesis by auto
  next
    case False
    with Cons.prems have "compare_digest (mf_totp M secret (current_counter E + off)) code = Inr True"
      by (auto simp: compare_digest_def split: if_splits)
    with Cons.prems show ?thesis
      by (auto simp: Let_def compare_digest_def split: if_splits option.splits)
  qed
qed simp

lemma offsets: "off \<in> set [- totp_valid_window .. totp_valid_window] \<longleftrightarrow> \<bar>off\<bar> \<le> 1"
  by (auto simp: totp_valid_window_def)

text \<open>An accepted code is that of a step near the clock, newer than every step used before.\<close>

lemma consume_totp_result:
  assumes "consume_totp_code E M u secret code d = Inr (ok, u', d')"
  shows "(ok \<and> (\<exists>c. mf_totp M secret c = normalize_code code \<and> \<bar>c - current_counter E\<bar> \<le> 1 \<and>
             (\<forall>l. u_mfa_last_used_step u = Some l \<longrightarrow> l < c) \<and>
             u' = u\<lparr>u_mfa_last_used_step := Some c\<rparr> \<and> d' = d\<lparr>users := tbl_put u_id u' (users d)\<rparr>))
         \<or> (\<not> ok \<and> u' = u \<and> d' = d)"
proof (cases "py_isdigit (normalize_code code)")
  case True
  with assms have t: "try_offsets E M secret (normalize_code code) [- totp_valid_window .. totp_valid_window] u d = Inr (ok, u', d')"
    by (simp add: consume_totp_code_def)
  from try_offsets_result [OF this] show ?thesis
  proof
    assume "ok \<and> (\<exists>off \<in> set [- totp_valid_window .. totp_valid_window].
        mf_totp M secret (current_counter E + off) = normalize_code code \<and>
        (\<forall>l. u_mfa_last_used_step u = Some l \<longrightarrow> l < current_counter E + off) \<and>
        u' = u\<lparr>u_mfa_last_used_step := Some (current_counter E + off)\<rparr> \<and>
        d' = d\<lparr>users := tbl_put u_id u' (users d)\<rparr>)"
    then obtain off where "ok" "\<bar>off\<bar> \<le> 1" "mf_totp M secret (current_counter E + off) = normalize_code code"
      "\<forall>l. u_mfa_last_used_step u = Some l \<longrightarrow> l < current_counter E + off"
      "u' = u\<lparr>u_mfa_last_used_step := Some (current_counter E + off)\<rparr>" "d' = d\<lparr>users := tbl_put u_id u' (users d)\<rparr>"
      unfolding offsets [symmetric] by blast
    then show ?thesis by (intro disjI1 conjI exI [of _ "current_counter E + off"]) auto
  qed blast
qed (use assms in \<open>simp add: consume_totp_code_def\<close>)

lemma tbl_put_absent: "key r \<notin> key ` set rows \<Longrightarrow> tbl_put key r rows = rows"
  by (induction rows) (auto simp: tbl_put_def)

lemma tbl_put_count:
  assumes "distinct (map key rows)" "b \<in> set rows" "P b" "key b' = key b" "\<not> P b'"
  shows "Suc (length (filter P (tbl_put key b' rows))) = length (filter P rows)"
  using assms
proof (induction rows)
  case (Cons x rows)
  have step: "tbl_put key b' (x # rows) = (if key x = key b' then b' else x) # tbl_put key b' rows"
    by (simp add: tbl_put_def)
  show ?case
  proof (cases "x = b")
    case True
    with Cons.prems have "tbl_put key b' rows = rows" by (intro tbl_put_absent) auto
    with step True Cons.prems show ?thesis by simp
  next
    case False
    with Cons.prems have "key x \<noteq> key b'" by force
    with step False Cons show ?thesis by simp
  qed
qed simp

text \<open>The stored backup codes of an account that are not used up and that a given code is the plaintext of.\<close>

definition unused_opened_by :: "auth_env \<Rightarrow> user \<Rightarrow> string \<Rightarrow> db \<Rightarrow> nat" where
  "unused_opened_by A u c d =
     length (filter (\<lambda>b. bc_user_id b = u_id u \<and> bc_used_at b = None \<and> au_argon_verify A (bc_code_hash b) c)
       (backup_codes d))"

lemma tbl_put_fewer:
  "\<not> P b' \<Longrightarrow> length (filter P (tbl_put key b' rows)) \<le> length (filter P rows)"
  by (induction rows) (auto simp: tbl_put_def)

lemma consume_backup_True:
  "consume_backup_code E A u code d = (True, d') \<Longrightarrow>
   \<exists>b \<in> set (backup_codes d). bc_user_id b = u_id u \<and> bc_used_at b = None \<and>
     au_argon_verify A (bc_code_hash b) (normalize_backup_code code)"
proof -
  assume "consume_backup_code E A u code d = (True, d')"
  then obtain b where
    f: "find (\<lambda>b. au_argon_verify A (bc_code_hash b) (normalize_backup_code code))
          (filter (\<lambda>b. bc_user_id b = u_id u \<and> bc_used_at b = None) (backup_codes d)) = Some b"
    by (auto simp: consume_backup_code_def Let_def split: if_splits option.splits)
  then have "b \<in> set (filter (\<lambda>b. bc_user_id b = u_id u \<and> bc_used_at b = None) (backup_codes d))"
    "au_argon_verify A (bc_code_hash b) (normalize_backup_code code)"
    unfolding find_Some_iff by (metis nth_mem)+
  then show ?thesis by auto
qed

lemma consume_backup_result:
  assumes "consume_backup_code E A u code d = (ok, d')" "distinct (map bc_id (backup_codes d))"
  shows "map bc_id (backup_codes d') = map bc_id (backup_codes d) \<and>
         (if ok then (\<forall>c. (if c = normalize_backup_code code then 1 else 0) + unused_opened_by A u c d' \<le> unused_opened_by A u c d)
          else d' = d)"
proof (cases ok)
  case True
  with assms(1) obtain b where
    f: "find (\<lambda>b. au_argon_verify A (bc_code_hash b) (normalize_backup_code code))
          (filter (\<lambda>b. bc_user_id b = u_id u \<and> bc_used_at b = None) (backup_codes d)) = Some b"
    and d': "d' = d\<lparr>backup_codes := tbl_put bc_id (b\<lparr>bc_used_at := Some (e_now E)\<rparr>) (backup_codes d)\<rparr>"
    by (auto simp: consume_backup_code_def Let_def split: if_splits option.splits)
  from f have "b \<in> set (filter (\<lambda>b. bc_user_id b = u_id u \<and> bc_used_at b = None) (backup_codes d))"
    "au_argon_verify A (bc_code_hash b) (normalize_backup_code code)"
    unfolding find_Some_iff by (metis nth_mem)+
  then have b: "b \<in> set (backup_codes d)" "bc_user_id b = u_id u" "bc_used_at b = None"
    "au_argon_verify A (bc_code_hash b) (normalize_backup_code code)" by simp_all
  have "map bc_id (tbl_put bc_id (b\<lparr>bc_used_at := Some (e_now E)\<rparr>) (backup_codes d)) = map bc_id (backup_codes d)"
    by (auto simp: tbl_put_def)
  moreover have "(if c = normalize_backup_code code then 1 else 0) + unused_opened_by A u c d' \<le> unused_opened_by A u c d" for c
  proof (cases "au_argon_verify A (bc_code_hash b) c")
    case True
    with assms(2) b have "Suc (unused_opened_by A u c d') = unused_opened_by A u c d"
      unfolding unused_opened_by_def d' by (simp add: tbl_put_count [where b = b])
    then show ?thesis by (cases "c = normalize_backup_code code") simp_all
  next
    case False
    with b(4) have "c \<noteq> normalize_backup_code code" by auto
    moreover have "unused_opened_by A u c d' \<le> unused_opened_by A u c d"
      unfolding unused_opened_by_def d' by (simp add: tbl_put_fewer)
    ultimately show ?thesis by simp
  qed
  ultimately show ?thesis using True d' by simp
qed (use assms in \<open>auto simp: consume_backup_code_def Let_def split: if_splits option.splits\<close>)

section \<open>A sequence of attempts\<close>

text \<open>What a successful attempt used: a step of the clock, or the backup code that was given.\<close>

datatype factor = ByStep int | ByBackupCode string

definition factor_used :: "user \<Rightarrow> user \<Rightarrow> string \<Rightarrow> factor" where
  "factor_used u u1 code =
     (if u_mfa_last_used_step u1 = u_mfa_last_used_step u then ByBackupCode (normalize_backup_code code)
      else ByStep (case u_mfa_last_used_step u1 of Some c \<Rightarrow> c | None \<Rightarrow> 0))"

fun factors_used :: "auth_env \<Rightarrow> mfa_env \<Rightarrow> (env \<times> string) list \<Rightarrow> user \<Rightarrow> db \<Rightarrow> factor list" where
  "factors_used A M [] u d = []"
| "factors_used A M ((E, code) # attempts) u d =
     (case verify_mfa_code E A M u code d of
        Inl e \<Rightarrow> factors_used A M attempts u d
      | Inr (ok, u1, d1) \<Rightarrow> (if ok then [factor_used u u1 code] else []) @ factors_used A M attempts u1 d1)"

definition steps_of :: "factor list \<Rightarrow> int list" where
  "steps_of fs = List.map_filter (\<lambda>f. case f of ByStep c \<Rightarrow> Some c | ByBackupCode x \<Rightarrow> None) fs"

definition times_accepted :: "string \<Rightarrow> factor list \<Rightarrow> nat" where
  "times_accepted c fs = length (filter (\<lambda>f. f = ByBackupCode c) fs)"

lemma steps_of_simps [simp]:
  "steps_of [] = []" "steps_of (ByStep n # fs) = n # steps_of fs" "steps_of (ByBackupCode x # fs) = steps_of fs"
  "times_accepted c [] = 0" "times_accepted c (ByStep n # fs) = times_accepted c fs"
  "times_accepted c (ByBackupCode x # fs) = (if x = c then 1 else 0) + times_accepted c fs"
  by (simp_all add: steps_of_def times_accepted_def List.map_filter_simps)

text \<open>The three outcomes of one attempt.\<close>

lemma verify_cases:
  assumes "verify_mfa_code E A M u code d = Inr (ok, u1, d1)"
  shows "(\<not> ok \<and> u1 = u \<and> d1 = d) \<or>
    (ok \<and> (\<exists>c stored. u_mfa_secret_encrypted u = Some stored \<and> mf_totp M (mf_decrypt M stored) c = normalize_code code \<and>
        \<bar>c - current_counter E\<bar> \<le> 1 \<and> (\<forall>l. u_mfa_last_used_step u = Some l \<longrightarrow> l < c) \<and>
        u1 = u\<lparr>u_mfa_last_used_step := Some c\<rparr> \<and> d1 = d\<lparr>users := tbl_put u_id u1 (users d)\<rparr>)) \<or>
    (ok \<and> u1 = u \<and> consume_backup_code E A u code d = (True, d1))"
proof -
  from assms consider "\<not> ok" "u1 = u" "d1 = d"
    | stored ok2 u2 d2 where "u_mfa_secret_encrypted u = Some stored"
        "consume_totp_code E M u (mf_decrypt M stored) code d = Inr (ok2, u2, d2)"
        "if ok2 then ok \<and> u1 = u2 \<and> d1 = d2 else consume_backup_code E A u2 code d2 = (ok, d1) \<and> u1 = u2"
    by (auto simp: verify_mfa_code_def bindE_Inr_iff split: option.splits if_splits prod.splits)
  then show ?thesis
  proof cases
    case 2
    with consume_totp_result [OF 2(2)] show ?thesis
    proof (cases ok2)
      case False
      with 2 consume_totp_result [OF 2(2)] have "u2 = u" "d2 = d" "consume_backup_code E A u code d = (ok, d1)" "u1 = u" by auto
      then show ?thesis
        by (cases ok) (auto simp: consume_backup_code_def Let_def split: if_splits option.splits)
    qed auto
  qed blast
qed

lemma single_use:
  assumes "distinct (map bc_id (backup_codes d))"
  shows "sorted_wrt (<) (steps_of (factors_used A M attempts u d)) \<and>
         (\<forall>c \<in> set (steps_of (factors_used A M attempts u d)). \<forall>l. u_mfa_last_used_step u = Some l \<longrightarrow> l < c) \<and>
         (\<forall>c. times_accepted c (factors_used A M attempts u d) \<le> unused_opened_by A u c d)"
  using assms
proof (induction A M attempts u d rule: factors_used.induct)
  case (2 A M E code attempts u d)
  show ?case
  proof (cases "verify_mfa_code E A M u code d")
    case (Inl e)
    with 2 show ?thesis by simp
  next
    case (Inr r)
    obtain ok u1 d1 where r: "r = (ok, u1, d1)" using prod_cases3 by blast
    note IH = 2(2) [OF Inr r [symmetric] refl]
    from verify_cases [of E A M u code d ok u1 d1] Inr r
    consider "\<not> ok" "u1 = u" "d1 = d"
      | c where "ok" "\<forall>l. u_mfa_last_used_step u = Some l \<longrightarrow> l < c"
          "u1 = u\<lparr>u_mfa_last_used_step := Some c\<rparr>" "d1 = d\<lparr>users := tbl_put u_id u1 (users d)\<rparr>"
      | "ok" "u1 = u" "consume_backup_code E A u code d = (True, d1)" by blast
    then show ?thesis
    proof cases
      case 1
      with Inr r IH 2(3) show ?thesis by simp
    next
      case c: 2
      have "factor_used u u1 code = ByStep c" using c(2) by (auto simp: factor_used_def c(3)) (metis less_irrefl)
      with Inr r IH 2(3) c show ?thesis by (fastforce simp: unused_opened_by_def)
    next
      case 3
      note used = consume_backup_result [OF 3(3) 2(3)]
      have "factor_used u u1 code = ByBackupCode (normalize_backup_code code)" by (simp add: factor_used_def 3(2))
      moreover have "(if normalize_backup_code code = c then 1 else 0) + times_accepted c (factors_used A M attempts u d1)
          \<le> unused_opened_by A u c d" for c
      proof -
        have "times_accepted c (factors_used A M attempts u d1) \<le> unused_opened_by A u c d1"
          using IH used 2(3) 3(1,2) by simp
        moreover have "(if c = normalize_backup_code code then 1 else 0) + unused_opened_by A u c d1 \<le> unused_opened_by A u c d"
          using used by simp
        ultimately show ?thesis by (auto split: if_splits)
      qed
      ultimately show ?thesis using used Inr r IH 2(3) 3(1,2) by simp
    qed
  qed
qed simp

section \<open>Properties\<close>

text \<open>
  C17: A second factor opens once: over any sequence of attempts by a user, at any times, the accepted
  time steps strictly increase, so no code is accepted twice for its step and none at or below the
  step used last; and a backup code is accepted at most as often as it is one of the stored codes of the
  user that are not used up: never if it is none of them, once if it is one of them.
\<close>

theorem second_factor_is_single_use:
  assumes "distinct (map bc_id (backup_codes d))"
  shows "sorted_wrt (<) (steps_of (factors_used A M attempts u d)) \<and>
         (\<forall>l. u_mfa_last_used_step u = Some l \<longrightarrow> l \<notin> set (steps_of (factors_used A M attempts u d))) \<and>
         (\<forall>c. times_accepted c (factors_used A M attempts u d) \<le> unused_opened_by A u c d)"
  using single_use [OF assms, of A M attempts u] by blast

text \<open>
  A code made of digits outside ASCII (a superscript two is a digit to \<open>str.isdigit\<close>) makes the
  comparison raise, so the attempt ends in a server error instead of a wrong code.
\<close>

theorem non_ascii_code_raises:
  assumes "py_isdigit (normalize_code code)" "\<not> ascii (normalize_code code)"
    and "u_mfa_enabled u" "u_mfa_secret_encrypted u = Some stored"
  shows "verify_mfa_code E A M u code d = Inl MfaTypeError"
proof -
  have "[- totp_valid_window .. totp_valid_window] = [-1, 0, 1]" by code_simp
  then show ?thesis
    using assms by (simp add: verify_mfa_code_def consume_totp_code_def compare_digest_def)
qed

section \<open>Witnesses\<close>

definition step_mfa :: mfa_env where
  "step_mfa = \<lparr>mf_totp = (\<lambda>secret c. show_int c), mf_encrypt = (\<lambda>s. s), mf_decrypt = (\<lambda>s. s)\<rparr>"

definition enrolled :: user where
  "enrolled = operator\<lparr>u_mfa_enabled := True, u_mfa_secret_encrypted := Some ''S''\<rparr>"

definition enrolled_db :: db where
  "enrolled_db = sample_db\<lparr>users := [enrolled],
     backup_codes := backup_rows length_env plain_auth 7 1 [(''aaaaabbbbb'', ''s''), (''cccccddddd'', ''s'')]\<rparr>"

text \<open>The second use of a time-based code and of a backup code is refused.\<close>

abbreviation mfa_attempts :: "(env \<times> string) list" where
  "mfa_attempts \<equiv>
     [(length_env, show_int (current_counter length_env)), (length_env, show_int (current_counter length_env)),
      (length_env, ''aaaaa-bbbbb''), (length_env, ''AAAAABBBBB''), (length_env, ''ccccc-ddddd'')]"

theorem second_factor_is_single_use_witness:
  "sorted_wrt (<) (steps_of (factors_used plain_auth step_mfa mfa_attempts enrolled enrolled_db)) \<and>
   times_accepted ''aaaaabbbbb'' (factors_used plain_auth step_mfa mfa_attempts enrolled enrolled_db) = 1 \<and>
   times_accepted ''aaaaabbbbb'' (factors_used plain_auth step_mfa mfa_attempts enrolled enrolled_db) \<le>
     unused_opened_by plain_auth enrolled ''aaaaabbbbb'' enrolled_db"
proof -
  have "distinct (map bc_id (backup_codes enrolled_db))" by code_simp
  moreover have "times_accepted ''aaaaabbbbb'' (factors_used plain_auth step_mfa mfa_attempts enrolled enrolled_db) = 1" by code_simp
  ultimately show ?thesis using second_factor_is_single_use by blast
qed

theorem non_ascii_code_raises_witness:
  "verify_mfa_code length_env plain_auth step_mfa enrolled [CHR 0xB2] enrolled_db = Inl MfaTypeError"
  by (rule non_ascii_code_raises [where stored = "''S''"]) code_simp+

end
