(* ===== verification/Login.thy ===== *)
theory Login
  imports AuthEvents Mfa
begin

text \<open>
  \<open>app/api/auth.py\<close>: signing in and out, the own password, the own second factor and the own
  sessions. The state is the database and the two in-memory tables (the login throttle and the
  recent events). A request ends in a result and a state: what it committed before it failed stays
  (the throttle, an audited failure, an upgraded password hash).
\<close>

section \<open>State and surroundings\<close>

record auth_state =
  st_db :: db
  st_throttle :: throttle
  st_recent :: recent

text \<open>\<open>le_mono\<close> is \<open>time.monotonic()\<close> in microseconds, read once per request.\<close>

record login_env =
  le_env :: env
  le_auth :: auth_env
  le_mfa :: mfa_env
  le_limits :: throttle_limits
  le_mono :: int

text \<open>A plain refusal, a refusal with a \<open>Retry-After\<close> header, and one whose detail is a message with
  an error code.\<close>

datatype auth_error =
    HttpError api_error
  | RetryAfter string int
  | MfaDetail string string

abbreviation (input) unauthorized :: "string \<Rightarrow> auth_error" where
  "unauthorized what \<equiv> HttpError (HTTPException 401 what)"

abbreviation (input) server_error :: auth_error where
  "server_error \<equiv> HttpError (HTTPException 500 ''Internal Server Error'')"

definition ceil_seconds :: "int \<Rightarrow> int" where
  "ceil_seconds us = - ((- us) div second_us)"

section \<open>Who is asking\<close>

definition get_current_user ::
  "login_env \<Rightarrow> string option \<Rightarrow> auth_state \<Rightarrow> (auth_error + user) \<times> auth_state" where
  "get_current_user LE session_token s =
     (case session_token of
        None \<Rightarrow> (Inl (unauthorized ''Not authenticated''), s)
      | Some token \<Rightarrow>
          (case get_user_by_token (le_env LE) (le_auth LE) token (st_db s) of
             (None, d) \<Rightarrow> (Inl (unauthorized ''Not authenticated''), s\<lparr>st_db := d\<rparr>)
           | (Some u, d) \<Rightarrow> (Inr u, s\<lparr>st_db := d\<rparr>)))"

definition get_current_active_user ::
  "login_env \<Rightarrow> string option \<Rightarrow> auth_state \<Rightarrow> (auth_error + user) \<times> auth_state" where
  "get_current_active_user LE session_token s =
     (case get_current_user LE session_token s of
        (Inl e, s1) \<Rightarrow> (Inl e, s1)
      | (Inr u, s1) \<Rightarrow>
          if u_must_change_password u
          then (Inl (HttpError (forbidden ''Password change required'')), s1)
          else (Inr u, s1))"

definition require_super_admin ::
  "login_env \<Rightarrow> string option \<Rightarrow> auth_state \<Rightarrow> (auth_error + user) \<times> auth_state" where
  "require_super_admin LE session_token s =
     (case get_current_active_user LE session_token s of
        (Inl e, s1) \<Rightarrow> (Inl e, s1)
      | (Inr u, s1) \<Rightarrow>
          (case user_role (st_db s1) u of
             Inl e \<Rightarrow> (Inl (HttpError e), s1)
           | Inr r \<Rightarrow>
               if ro_is_super_admin r then (Inr u, s1)
               else (Inl (HttpError (forbidden ''Super admins only'')), s1)))"

text \<open>An endpoint that depends on one of them: it runs only when the dependency answers.\<close>

definition depends ::
  "(auth_error + user) \<times> auth_state \<Rightarrow> (user \<Rightarrow> auth_state \<Rightarrow> (auth_error + 'a) \<times> auth_state)
     \<Rightarrow> (auth_error + 'a) \<times> auth_state" where
  "depends dep f = (case dep of (Inl e, s) \<Rightarrow> (Inl e, s) | (Inr u, s) \<Rightarrow> f u s)"

section \<open>Login and logout\<close>

definition record_failed_login ::
  "login_env \<Rightarrow> string \<Rightarrow> string option \<Rightarrow> string \<Rightarrow> auth_state \<Rightarrow> auth_state" where
  "record_failed_login LE username client_ip reason s =
     (let t1 = record_failure (le_limits LE) (le_mono LE) username (st_throttle s);
          (recent1, d1) = login_failed (le_env LE) (le_mono LE) username client_ip reason (st_recent s, st_db s);
          (remaining, t2) = seconds_until_unlocked (le_limits LE) (le_mono LE) username t1;
          (recent2, d2) =
            (case remaining of
               None \<Rightarrow> (recent1, d1)
             | Some wait \<Rightarrow> locked_out (le_env LE) (le_mono LE) username client_ip wait (recent1, d1))
      in \<lparr>st_db = d2, st_throttle = t2, st_recent = recent2\<rparr>)"

text \<open>The random values of a login: the salt of an upgraded hash and the token of the session.\<close>

record login_request =
  lr_username :: string
  lr_password :: string
  lr_mfa_code :: "string option"
  lr_client_ip :: "string option"
  lr_user_agent :: "string option"
  lr_salt :: string
  lr_token :: string

text \<open>The last part of \<open>login\<close>, once every factor has been verified.\<close>

definition finish_login ::
  "login_env \<Rightarrow> login_request \<Rightarrow> user \<Rightarrow> auth_state \<Rightarrow> (auth_error + user \<times> string) \<times> auth_state" where
  "finish_login LE q u s =
     (let t = record_success (lr_username q) (st_throttle s);
          (u1, d1) = complete_login (le_env LE) u (st_db s);
          s1 = s\<lparr>st_db := d1, st_throttle := t\<rparr>
      in case create_session (le_env LE) (le_auth LE) u1 (lr_user_agent q) (lr_token q) d1 of
           Inl e \<Rightarrow> (Inl (HttpError e), s1)
         | Inr (row, token, d2) \<Rightarrow> (Inr (u1, token), s1\<lparr>st_db := d2\<rparr>))"

definition login ::
  "login_env \<Rightarrow> login_request \<Rightarrow> auth_state \<Rightarrow> (auth_error + user \<times> string) \<times> auth_state" where
  "login LE q s =
     (let (remaining, t1) = seconds_until_unlocked (le_limits LE) (le_mono LE) (lr_username q) (st_throttle s);
          s1 = s\<lparr>st_throttle := t1\<rparr>
      in case remaining of
        Some wait \<Rightarrow>
          let (recent1, d1) = login_throttled (le_env LE) (le_mono LE) (lr_username q) (lr_client_ip q)
                                (st_recent s1, st_db s1)
          in (Inl (RetryAfter ''Too many failed login attempts. Try again later.'' (ceil_seconds wait)),
              s1\<lparr>st_db := d1, st_recent := recent1\<rparr>)
      | None \<Rightarrow>
          (case authenticate (le_auth LE) (lr_salt q) (lr_username q) (lr_password q) (st_db s1) of
             (None, d1) \<Rightarrow>
               (Inl (unauthorized ''Invalid credentials''),
                record_failed_login LE (lr_username q) (lr_client_ip q) ''bad_credentials'' (s1\<lparr>st_db := d1\<rparr>))
           | (Some u, d1) \<Rightarrow>
               let s2 = s1\<lparr>st_db := d1\<rparr> in
               if \<not> u_mfa_enabled u then finish_login LE q u s2
               else if lr_mfa_code q = None \<or> lr_mfa_code q = Some '''' then
                 (Inl (MfaDetail ''Authentication code required'' ''mfa_required''), s2)
               else
                 (case verify_mfa_code (le_env LE) (le_auth LE) (le_mfa LE) u (the (lr_mfa_code q)) d1 of
                    Inl e \<Rightarrow> (Inl server_error, s2)
                  | Inr (True, u1, d2) \<Rightarrow> finish_login LE q u1 (s2\<lparr>st_db := d2\<rparr>)
                  | Inr (False, u1, d2) \<Rightarrow>
                      (Inl (MfaDetail ''Invalid authentication code'' ''mfa_invalid_code''),
                       record_failed_login LE (lr_username q) (lr_client_ip q) ''mfa_invalid_code''
                         (s2\<lparr>st_db := d2\<rparr>)))))"

definition logout :: "login_env \<Rightarrow> string option \<Rightarrow> auth_state \<Rightarrow> auth_state" where
  "logout LE session_token s =
     (case session_token of
        None \<Rightarrow> s
      | Some token \<Rightarrow> s\<lparr>st_db := delete_session (le_auth LE) token (st_db s)\<rparr>)"

section \<open>The own password\<close>

definition require_password_reconfirmation ::
  "login_env \<Rightarrow> user \<Rightarrow> string \<Rightarrow> auth_state \<Rightarrow> (auth_error + unit) \<times> auth_state" where
  "require_password_reconfirmation LE u password s =
     (let ok = verify_password (le_auth LE) u password;
          (refused, t1) = password_gate (le_limits LE) (le_mono LE) (u_username u) ok (st_throttle s);
          s1 = s\<lparr>st_throttle := t1\<rparr>
      in case refused of
           Some wait \<Rightarrow> (Inl (RetryAfter ''Too many failed attempts. Try again later.'' (ceil_seconds wait)), s1)
         | None \<Rightarrow>
             if ok then (Inr (), s1)
             else (Inl (unauthorized ''Current password is incorrect''), s1))"

definition change_password_endpoint ::
  "login_env \<Rightarrow> string option \<Rightarrow> string \<Rightarrow> string \<Rightarrow> string \<Rightarrow> auth_state \<Rightarrow> (auth_error + user) \<times> auth_state" where
  "change_password_endpoint LE session_token current_password new_password salt s =
     depends (get_current_user LE session_token s) (\<lambda>u s1.
       case require_password_reconfirmation LE u current_password s1 of
         (Inl e, s2) \<Rightarrow> (Inl e, s2)
       | (Inr _, s2) \<Rightarrow>
           let d1 = snd (revoke_all_sessions (le_auth LE) (u_id u) session_token (st_db s2));
               d2 = change_password (le_env LE) (le_auth LE) salt u new_password d1
           in (case get_user d2 (u_id u) of None \<Rightarrow> Inl server_error | Some u1 \<Rightarrow> Inr u1, s2\<lparr>st_db := d2\<rparr>))"

section \<open>The own second factor\<close>

definition mfa_enroll ::
  "login_env \<Rightarrow> string option \<Rightarrow> string \<Rightarrow> string \<Rightarrow> auth_state \<Rightarrow> (auth_error + string) \<times> auth_state" where
  "mfa_enroll LE session_token password secret s =
     depends (get_current_active_user LE session_token s) (\<lambda>u s1.
       case require_password_reconfirmation LE u password s1 of
         (Inl e, s2) \<Rightarrow> (Inl e, s2)
       | (Inr _, s2) \<Rightarrow>
           if u_mfa_enabled u
           then (Inl (HttpError (HTTPException 400 ''MFA is already enabled - disable it first to re-enroll'')), s2)
           else
             (case start_enrollment (le_mfa LE) secret u (st_db s2) of
                (sec, u1, d1) \<Rightarrow> (Inr sec, s2\<lparr>st_db := d1\<rparr>)))"

definition mfa_confirm ::
  "login_env \<Rightarrow> string option \<Rightarrow> string \<Rightarrow> (string \<times> string) list \<Rightarrow> auth_state
     \<Rightarrow> (auth_error + string list) \<times> auth_state" where
  "mfa_confirm LE session_token code drawn s =
     depends (get_current_active_user LE session_token s) (\<lambda>u s1.
       case confirm_enrollment (le_env LE) (le_auth LE) (le_mfa LE) drawn u code (st_db s1) of
         Inl (MfaValueError m) \<Rightarrow> (Inl (HttpError (HTTPException 400 ''Invalid authentication code'')), s1)
       | Inl MfaTypeError \<Rightarrow> (Inl server_error, s1)
       | Inr (codes, u1, d1) \<Rightarrow>
           (Inr codes, s1\<lparr>st_db := record_audit_event (le_env LE) d1 d1 (Some (u_id u)) ''user.mfa_enable''
                                      (Some ''user'') (Some (u_id u)) None\<rparr>))"

definition mfa_disable ::
  "login_env \<Rightarrow> string option \<Rightarrow> string \<Rightarrow> auth_state \<Rightarrow> (auth_error + user) \<times> auth_state" where
  "mfa_disable LE session_token password s =
     depends (get_current_active_user LE session_token s) (\<lambda>u s1.
       case require_password_reconfirmation LE u password s1 of
         (Inl e, s2) \<Rightarrow> (Inl e, s2)
       | (Inr _, s2) \<Rightarrow>
           (case disable_mfa u (st_db s2) of
              (u1, d1) \<Rightarrow>
                (Inr u1, s2\<lparr>st_db := record_audit_event (le_env LE) d1 d1 (Some (u_id u)) ''user.mfa_disable''
                                        (Some ''user'') (Some (u_id u)) None\<rparr>)))"

definition mfa_regenerate_backup_codes ::
  "login_env \<Rightarrow> string option \<Rightarrow> string \<Rightarrow> (string \<times> string) list \<Rightarrow> auth_state
     \<Rightarrow> (auth_error + string list) \<times> auth_state" where
  "mfa_regenerate_backup_codes LE session_token password drawn s =
     depends (get_current_active_user LE session_token s) (\<lambda>u s1.
       case require_password_reconfirmation LE u password s1 of
         (Inl e, s2) \<Rightarrow> (Inl e, s2)
       | (Inr _, s2) \<Rightarrow>
           (case regenerate_backup_codes (le_env LE) (le_auth LE) drawn u (st_db s2) of
              Inl e \<Rightarrow> (Inl (HttpError (HTTPException 400 ''MFA is not enabled'')), s2)
            | Inr (codes, d1) \<Rightarrow>
                (Inr codes, s2\<lparr>st_db := record_audit_event (le_env LE) d1 d1 (Some (u_id u))
                    ''user.mfa_backup_codes_regenerated'' (Some ''user'') (Some (u_id u)) None\<rparr>)))"

section \<open>The own sessions\<close>

definition list_sessions ::
  "login_env \<Rightarrow> string option \<Rightarrow> auth_state \<Rightarrow> (auth_error + (auth_session \<times> bool) list) \<times> auth_state" where
  "list_sessions LE session_token s =
     depends (get_current_user LE session_token s) (\<lambda>u s1.
       let current_hash = (case session_token of None \<Rightarrow> None
                           | Some t \<Rightarrow> if t = '''' then None else Some (hash_token (le_auth LE) t))
       in (Inr (map (\<lambda>row. (row, Some (as_token_hash row) = current_hash))
                  (list_sessions_for_user (le_env LE) (st_db s1) (u_id u))), s1))"

definition revoke_session_endpoint ::
  "login_env \<Rightarrow> string option \<Rightarrow> int \<Rightarrow> auth_state \<Rightarrow> (auth_error + unit) \<times> auth_state" where
  "revoke_session_endpoint LE session_token session_id s =
     depends (get_current_user LE session_token s) (\<lambda>u s1.
       case revoke_session (u_id u) session_id (st_db s1) of
         (found, d1) \<Rightarrow>
           (if found then Inr () else Inl (HttpError (not_found ''Session not found'')), s1\<lparr>st_db := d1\<rparr>))"

section \<open>What a login does to the throttle\<close>

text \<open>A wrong guess: the password or the code was looked at and refused. A cleared name: every factor
  was right (the session row can still fail on a repeated token hash).\<close>

fun wrong_result :: "auth_error + 'a \<Rightarrow> bool" where
  "wrong_result (Inl (HttpError e)) =
     (e = HTTPException 401 ''Invalid credentials'' \<or> e = HTTPException 401 ''Current password is incorrect'')"
| "wrong_result (Inl (MfaDetail m code)) = (code = ''mfa_invalid_code'')"
| "wrong_result (Inl (RetryAfter m n)) = False"
| "wrong_result (Inr x) = False"

fun cleared_result :: "auth_error + 'a \<Rightarrow> bool" where
  "cleared_result (Inl e) = (e = HttpError IntegrityError)"
| "cleared_result (Inr x) = True"

lemma record_failed_login_throttle:
  "st_throttle (record_failed_login LE u ip reason s) =
     snd (seconds_until_unlocked (le_limits LE) (le_mono LE) u (record_failure (le_limits LE) (le_mono LE) u (st_throttle s)))"
  by (simp add: record_failed_login_def Let_def split_beta)

lemma create_session_error: "create_session E A u ua tok d = Inl e \<Longrightarrow> e = IntegrityError"
  by (auto simp: create_session_def Let_def bindE_Inl_iff requireE_Inl_iff)

lemma finish_login_throttle:
  "st_throttle (snd (finish_login LE q u s)) = record_success (lr_username q) (st_throttle s)"
  "cleared_result (fst (finish_login LE q u s))"
  by (auto simp: finish_login_def Let_def split_beta split: sum.splits dest: create_session_error)

lemma cleared_not_wrong: "cleared_result r \<Longrightarrow> \<not> wrong_result r"
  by (cases r) auto

lemma login_throttle_cases:
  fixes LE q s
  defines "L \<equiv> le_limits LE" and "now \<equiv> le_mono LE" and "v \<equiv> lr_username q"
  defines "r \<equiv> fst (login LE q s)" and "t \<equiv> st_throttle (snd (login LE q s))"
  obtains (refused) w t1 where "seconds_until_unlocked L now v (st_throttle s) = (Some w, t1)" "t = t1"
      "\<not> wrong_result r" "\<not> cleared_result r"
    | (wrong) t1 where "seconds_until_unlocked L now v (st_throttle s) = (None, t1)"
      "t = snd (seconds_until_unlocked L now v (record_failure L now v t1))" "wrong_result r"
    | (stopped) t1 where "seconds_until_unlocked L now v (st_throttle s) = (None, t1)" "t = t1"
      "\<not> wrong_result r" "\<not> cleared_result r"
    | (passed) t1 where "seconds_until_unlocked L now v (st_throttle s) = (None, t1)"
      "t = record_success v t1" "cleared_result r"
proof -
  obtain w t1 where c: "seconds_until_unlocked L now v (st_throttle s) = (w, t1)" by fastforce
  show ?thesis
  proof (cases w)
    case (Some x)
    with c show ?thesis
      by (intro refused [of x t1]) (auto simp: r_def t_def login_def L_def now_def v_def split_beta Let_def)
  next
    case None
    note c = c [unfolded None L_def now_def v_def]
    obtain ou d1 where a: "authenticate (le_auth LE) (lr_salt q) (lr_username q) (lr_password q) (st_db s) = (ou, d1)"
      by fastforce
    show ?thesis
    proof (cases ou)
      case None
      with a c show ?thesis
        by (intro wrong [of t1])
          (simp_all add: r_def t_def login_def L_def now_def v_def record_failed_login_throttle)
    next
      case (Some u)
      note a = a [unfolded Some]
      let ?s2 = "s\<lparr>st_throttle := t1, st_db := d1\<rparr>"
      consider "\<not> u_mfa_enabled u" | "u_mfa_enabled u" "lr_mfa_code q = None \<or> lr_mfa_code q = Some ''''"
        | "u_mfa_enabled u" "\<not> (lr_mfa_code q = None \<or> lr_mfa_code q = Some '''')" by blast
      then show ?thesis
      proof cases
        case 1
        then have "login LE q s = finish_login LE q u ?s2" by (simp add: login_def c a Let_def)
        with c finish_login_throttle [of LE q u ?s2] show ?thesis
          by (intro passed [of t1]) (simp_all add: r_def t_def L_def now_def v_def)
      next
        case 2
        then have "login LE q s = (Inl (MfaDetail ''Authentication code required'' ''mfa_required''), ?s2)"
          by (auto simp: login_def c a Let_def)
        with c show ?thesis by (intro stopped [of t1]) (simp_all add: r_def t_def L_def now_def v_def)
      next
        case 3
        then obtain cd where "lr_mfa_code q = Some cd" "cd \<noteq> ''''" by auto
        with 3(1) have code: "login LE q s =
            (case verify_mfa_code (le_env LE) (le_auth LE) (le_mfa LE) u (the (lr_mfa_code q)) d1 of
                Inl e \<Rightarrow> (Inl server_error, ?s2)
              | Inr (True, u1, d2) \<Rightarrow> finish_login LE q u1 (?s2\<lparr>st_db := d2\<rparr>)
              | Inr (False, u1, d2) \<Rightarrow>
                  (Inl (MfaDetail ''Invalid authentication code'' ''mfa_invalid_code''),
                   record_failed_login LE (lr_username q) (lr_client_ip q) ''mfa_invalid_code'' (?s2\<lparr>st_db := d2\<rparr>)))"
          by (simp add: login_def c a Let_def)
        show ?thesis
        proof (cases "verify_mfa_code (le_env LE) (le_auth LE) (le_mfa LE) u (the (lr_mfa_code q)) d1")
          case (Inl e)
          with code have "login LE q s = (Inl server_error, ?s2)" by simp
          with c show ?thesis by (intro stopped [of t1]) (simp_all add: r_def t_def L_def now_def v_def)
        next
          case (Inr x)
          obtain ok u1 d2 where x: "x = (ok, u1, d2)" using prod_cases3 by blast
          show ?thesis
          proof (cases ok)
            case True
            with code Inr x have "login LE q s = finish_login LE q u1 (?s2\<lparr>st_db := d2\<rparr>)" by simp
            with c finish_login_throttle [of LE q u1 "?s2\<lparr>st_db := d2\<rparr>"] show ?thesis
              by (intro passed [of t1]) (simp_all add: r_def t_def L_def now_def v_def)
          next
            case False
            with code Inr x c show ?thesis
              by (intro wrong [of t1])
                (simp_all add: r_def t_def L_def now_def v_def record_failed_login_throttle)
          qed
        qed
      qed
    qed
  qed
qed

text \<open>
  What a guesser can do: log in, or, with the session of an account, confirm its password once more (as
  the change of the password and every request about the second factor ask for). Any other request may
  change the database and the recent sign-in events, but not the throttle, which only these two reach.
\<close>

datatype attempt =
    LoginAttempt login_env login_request
  | Reconfirmation login_env user string
  | Elsewhere "auth_state \<Rightarrow> auth_state"

fun run_attempt :: "attempt \<Rightarrow> auth_state \<Rightarrow> (auth_error + unit) \<times> auth_state" where
  "run_attempt (LoginAttempt LE q) s =
     (case login LE q s of (Inl e, s1) \<Rightarrow> (Inl e, s1) | (Inr r, s1) \<Rightarrow> (Inr (), s1))"
| "run_attempt (Reconfirmation LE v password) s = require_password_reconfirmation LE v password s"
| "run_attempt (Elsewhere f) s = (Inr (), (f s)\<lparr>st_throttle := st_throttle s\<rparr>)"

fun attempt_name :: "attempt \<Rightarrow> string option" where
  "attempt_name (LoginAttempt LE q) = Some (lr_username q)"
| "attempt_name (Reconfirmation LE v password) = Some (u_username v)"
| "attempt_name (Elsewhere f) = None"

text \<open>Made under the given limits and within one lockout time from the given moment.\<close>

fun within :: "throttle_limits \<Rightarrow> int \<Rightarrow> attempt \<Rightarrow> bool" where
  "within L t0 (LoginAttempt LE q) = (le_limits LE = L \<and> t0 \<le> le_mono LE \<and> le_mono LE < t0 + window_us L)"
| "within L t0 (Reconfirmation LE v password) = (le_limits LE = L \<and> t0 \<le> le_mono LE \<and> le_mono LE < t0 + window_us L)"
| "within L t0 (Elsewhere f) = True"

text \<open>Wrong guesses for a name in a sequence of attempts, up to the next time the name is cleared.\<close>

fun wrong_streak :: "string \<Rightarrow> attempt list \<Rightarrow> auth_state \<Rightarrow> nat" where
  "wrong_streak u [] s = 0"
| "wrong_streak u (x # xs) s =
     (case run_attempt x s of (r, s1) \<Rightarrow>
        if attempt_name x \<noteq> Some u then wrong_streak u xs s1
        else if cleared_result r then 0
        else (if wrong_result r then 1 else 0) + wrong_streak u xs s1)"

lemma login_counted:
  assumes "counted (le_limits LE) u t0 k (st_throttle s)"
    and "t0 \<le> le_mono LE" "le_mono LE < t0 + window_us (le_limits LE)"
    and "lr_username q = u \<Longrightarrow> \<not> cleared_result (fst (login LE q s))"
  shows "counted (le_limits LE) u t0
           (k + (if lr_username q = u \<and> wrong_result (fst (login LE q s)) then 1 else 0))
           (st_throttle (snd (login LE q s)))"
proof -
  let ?L = "le_limits LE" and ?now = "le_mono LE" and ?v = "lr_username q"
  note other = counted_other [OF _ _ assms(3)] and check = counted_check [OF _ assms(3)]
  show ?thesis
  proof (cases rule: login_throttle_cases [of LE q s])
    case (refused w t1)
    with other [OF assms(1), of "Check ?v"] check [OF assms(1)] show ?thesis by (cases "?v = u") auto
  next
    case (stopped t1)
    with other [OF assms(1), of "Check ?v"] check [OF assms(1)] show ?thesis by (cases "?v = u") auto
  next
    case (wrong t1)
    have gate: "password_gate ?L ?now ?v False (st_throttle s) = (None, record_failure ?L ?now ?v t1)"
      using wrong(1) by (simp add: password_gate_def)
    show ?thesis
    proof (cases "?v = u")
      case True
      with counted_guess [OF assms(1-3)] gate have "counted ?L u t0 (k + 1) (record_failure ?L ?now ?v t1)" by simp
      from check [OF this] True wrong(2,3) show ?thesis by simp
    next
      case False
      with other [OF assms(1), of "Guess ?v False"] gate have "counted ?L u t0 k (record_failure ?L ?now ?v t1)" by simp
      from other [OF this, of "Check ?v"] False wrong(2) show ?thesis by simp
    qed
  next
    case (passed t1)
    with assms(4) have v: "?v \<noteq> u" by auto
    have "password_gate ?L ?now ?v True (st_throttle s) = (None, record_success ?v t1)"
      using passed(1) by (simp add: password_gate_def)
    with other [OF assms(1), of "Guess ?v True"] v passed(2) show ?thesis by simp
  qed
qed

lemma reconfirmation_counted:
  fixes LE v password s
  defines "r \<equiv> require_password_reconfirmation LE v password s"
  assumes "counted (le_limits LE) u t0 k (st_throttle s)"
    and "t0 \<le> le_mono LE" "le_mono LE < t0 + window_us (le_limits LE)"
    and "u_username v = u \<Longrightarrow> \<not> cleared_result (fst r)"
  shows "counted (le_limits LE) u t0 (k + (if u_username v = u \<and> wrong_result (fst r) then 1 else 0)) (st_throttle (snd r))"
proof -
  let ?L = "le_limits LE" and ?now = "le_mono LE" and ?v = "u_username v" and ?ok = "verify_password (le_auth LE) v password"
  obtain w t1 where gate: "password_gate ?L ?now ?v ?ok (st_throttle s) = (w, t1)" by fastforce
  have t: "st_throttle (snd r) = t1" and wrong: "wrong_result (fst r) \<longleftrightarrow> w = None \<and> \<not> ?ok"
    and cleared: "cleared_result (fst r) \<longleftrightarrow> w = None \<and> ?ok"
    using gate by (auto simp: r_def require_password_reconfirmation_def Let_def split: option.splits)
  show ?thesis
  proof (cases "?v = u")
    case False
    with counted_other [OF assms(2) _ assms(4), of "Guess ?v ?ok"] gate t show ?thesis by simp
  next
    case True
    show ?thesis
    proof (cases ?ok)
      case True
      with assms(5) cleared \<open>?v = u\<close> have "w \<noteq> None" by simp
      then have "t1 = snd (seconds_until_unlocked ?L ?now ?v (st_throttle s))"
        using gate by (auto simp: password_gate_def split: prod.splits option.splits)
      with counted_check [OF assms(2,4)] True \<open>?v = u\<close> t wrong show ?thesis by simp
    next
      case False
      with counted_guess [OF assms(2-4)] gate \<open>?v = u\<close> t wrong show ?thesis by simp
    qed
  qed
qed

lemma attempt_counted:
  assumes "counted L u t0 k (st_throttle s)" "within L t0 x" "run_attempt x s = (r, s1)"
    and "attempt_name x = Some u \<Longrightarrow> \<not> cleared_result r"
  shows "counted L u t0 (k + (if attempt_name x = Some u \<and> wrong_result r then 1 else 0)) (st_throttle s1)"
proof (cases x)
  case (LoginAttempt LE q)
  obtain r0 s0 where r0: "login LE q s = (r0, s0)" by fastforce
  have "s0 = s1 \<and> cleared_result r0 = cleared_result r \<and> wrong_result r0 = wrong_result r"
  proof (cases r0)
    case (Inl e)
    with r0 assms(3) LoginAttempt show ?thesis by (cases e) auto
  qed (use r0 assms(3) LoginAttempt in auto)
  with r0 login_counted [of LE u t0 k s q] assms(1,2,4) LoginAttempt show ?thesis by auto
next
  case (Reconfirmation LE v password)
  with reconfirmation_counted [of LE u t0 k s v password] assms show ?thesis by auto
qed (use assms in auto)

lemma wrong_streak_counted:
  assumes "counted L u t0 k (st_throttle s)" "list_all (within L t0) xs"
  shows "int (k + wrong_streak u xs s) \<le> max 1 (login_max_attempts L)"
  using assms
proof (induction xs arbitrary: k s)
  case Nil
  then show ?case by (simp add: counted_def)
next
  case (Cons x xs)
  obtain r s1 where l: "run_attempt x s = (r, s1)" by fastforce
  let ?k = "k + (if attempt_name x = Some u \<and> wrong_result r then 1 else 0)"
  show ?case
  proof (cases "attempt_name x = Some u \<and> cleared_result r")
    case True
    with Cons.prems(1) l show ?thesis by (simp add: counted_def)
  next
    case False
    then have "counted L u t0 ?k (st_throttle s1)" using attempt_counted [OF Cons.prems(1) _ l] Cons.prems(2) by auto
    from Cons.IH [OF this] Cons.prems(2) have "int (?k + wrong_streak u xs s1) \<le> max 1 (login_max_attempts L)" by simp
    with False l show ?thesis by auto
  qed
qed

section \<open>What a successful login went through\<close>

lemma login_Inr:
  assumes "login LE q s = (Inr (u, token), s')"
  obtains t1 u0 u1 d1 d2 where
    "seconds_until_unlocked (le_limits LE) (le_mono LE) (lr_username q) (st_throttle s) = (None, t1)"
    "authenticate (le_auth LE) (lr_salt q) (lr_username q) (lr_password q) (st_db s) = (Some u0, d1)"
    "if u_mfa_enabled u0
     then \<exists>code. lr_mfa_code q = Some code \<and>
            verify_mfa_code (le_env LE) (le_auth LE) (le_mfa LE) u0 code d1 = Inr (True, u1, d2)
     else u1 = u0 \<and> d2 = d1"
    "finish_login LE q u1 (s\<lparr>st_throttle := t1, st_db := d2\<rparr>) = (Inr (u, token), s')"
proof -
  obtain w t1 where c: "seconds_until_unlocked (le_limits LE) (le_mono LE) (lr_username q) (st_throttle s) = (w, t1)"
    by fastforce
  obtain ou d1 where a: "authenticate (le_auth LE) (lr_salt q) (lr_username q) (lr_password q) (st_db s) = (ou, d1)"
    by fastforce
  have w: "w = None" using assms c by (auto simp: login_def Let_def split_beta split: option.splits)
  from assms obtain u0 where ou: "ou = Some u0"
    by (cases ou) (auto simp: login_def c a w Let_def)
  note c = c [unfolded w] and a = a [unfolded ou]
  show ?thesis
  proof (cases "u_mfa_enabled u0")
    case False
    then have "finish_login LE q u0 (s\<lparr>st_throttle := t1, st_db := d1\<rparr>) = (Inr (u, token), s')"
      using assms by (simp add: login_def c a Let_def)
    with False that [OF c a, of u0 d1] show ?thesis by simp
  next
    case True
    then obtain code where code: "lr_mfa_code q = Some code" "code \<noteq> ''''"
      using assms by (cases "lr_mfa_code q") (auto simp: login_def c a Let_def split: if_splits)
    obtain u1 d2 where v: "verify_mfa_code (le_env LE) (le_auth LE) (le_mfa LE) u0 code d1 = Inr (True, u1, d2)"
      and f: "finish_login LE q u1 (s\<lparr>st_throttle := t1, st_db := d1, st_db := d2\<rparr>) = (Inr (u, token), s')"
      using assms True code by (auto simp: login_def c a Let_def split: sum.splits prod.splits bool.splits)
    from that [OF c a, of u1 d2] True code v f show ?thesis by simp
  qed
qed

lemma authenticate_Some:
  assumes "authenticate A salt name pw d = (Some u, d')"
  obtains u0 h where "find (\<lambda>x. u_username x = name) (users d) = Some u0" "u_active u0" "verify_password A u0 pw"
    "u = u0\<lparr>u_password_hash := h\<rparr>" "d' = d\<lparr>users := users d'\<rparr>" "map u_id (users d') = map u_id (users d)"
proof -
  from assms obtain u0 where u0: "find (\<lambda>x. u_username x = name) (users d) = Some u0" "u_active u0"
    "verify_password A u0 pw" "u = u0 \<and> d' = d \<or>
       (\<exists>h. u = u0\<lparr>u_password_hash := h\<rparr> \<and> d' = d\<lparr>users := tbl_put u_id u (users d)\<rparr>)"
    by (auto simp: authenticate_def Let_def split: option.splits if_splits)
  from u0(4) show ?thesis
  proof
    assume "u = u0 \<and> d' = d"
    with u0 that [of u0 "u_password_hash u0"] show ?thesis by simp
  next
    assume "\<exists>h. u = u0\<lparr>u_password_hash := h\<rparr> \<and> d' = d\<lparr>users := tbl_put u_id u (users d)\<rparr>"
    with u0 that show ?thesis by auto
  qed
qed

lemma finish_login_Inr:
  assumes "finish_login LE q u s = (Inr (u1, token), s')"
  shows "token = lr_token q \<and> u1 = u\<lparr>u_last_login_at := Some (e_now (le_env LE))\<rparr> \<and>
    users (st_db s') = tbl_put u_id u1 (users (st_db s)) \<and>
    (\<exists>row. find_session (le_auth LE) (st_db s') token = Some row \<and> as_user_id row = u_id u \<and>
       as_expires_at row = e_now (le_env LE) + au_session_ttl_hours (le_auth LE) * hour_us)"
  using assms
  by (auto simp: finish_login_def complete_login_def create_session_def Let_def bindE_Inr_iff find_session_def
      find_append split: sum.splits prod.splits)

lemma verify_mfa_keeps:
  assumes "verify_mfa_code E A M u code d = Inr (True, u1, d1)"
  shows "u_id u1 = u_id u \<and> u_active u1 = u_active u \<and> u_username u1 = u_username u \<and> map u_id (users d1) = map u_id (users d)"
proof -
  from verify_cases [OF assms] consider c where "u1 = u\<lparr>u_mfa_last_used_step := Some c\<rparr>"
      "d1 = d\<lparr>users := tbl_put u_id u1 (users d)\<rparr>"
    | "u1 = u" "consume_backup_code E A u code d = (True, d1)" by auto
  then show ?thesis
  proof cases
    case 2
    then have "users d1 = users d"
      by (auto simp: consume_backup_code_def Let_def split: if_splits option.splits)
    with 2 show ?thesis by simp
  qed simp
qed

section \<open>What a password change leaves\<close>

lemma find_put:
  "find (\<lambda>x. h x = k) rows = Some r \<Longrightarrow> key r' = key r \<Longrightarrow> h r' = k \<Longrightarrow>
   find (\<lambda>x. h x = k) (tbl_put key r' rows) = Some r'"
  by (induction rows) (auto simp: tbl_put_def split: if_splits)

lemma find_filter_kept:
  "(\<And>x. h x = k \<Longrightarrow> P x) \<Longrightarrow> find (\<lambda>x. h x = k) (filter P rows) = find (\<lambda>x. h x = k) rows"
  by (induction rows) auto

lemma current_user_Inr:
  assumes "get_current_user LE (Some token) s = (Inr u, s1)"
  shows "\<exists>row. find_session (le_auth LE) (st_db s1) token = Some row \<and> e_now (le_env LE) \<le> as_expires_at row \<and>
           as_user_id row = u_id u \<and> u_active u \<and> get_user (st_db s1) (u_id u) = Some u"
proof -
  from assms have g: "get_user_by_token (le_env LE) (le_auth LE) token (st_db s) = (Some u, st_db s1)"
    by (auto simp: get_current_user_def split: prod.splits option.splits)
  with get_user_by_token_Some [of "le_env LE" "le_auth LE" token "st_db s" u] obtain row where
    row: "find_session (le_auth LE) (st_db s) token = Some row" "e_now (le_env LE) \<le> as_expires_at row"
    "get_user (st_db s) (as_user_id row) = Some u" "u_active u" by auto
  have id: "u_id u = as_user_id row" using row(3) by (auto dest: tbl_get_Some)
  show ?thesis
  proof (cases "st_db s1 = st_db s")
    case True
    with row id show ?thesis by auto
  next
    case False
    with g row have "st_db s1 = (st_db s)\<lparr>auth_sessions :=
        tbl_put as_id (row\<lparr>as_last_seen_at := Some (e_now (le_env LE))\<rparr>) (auth_sessions (st_db s))\<rparr>"
      by (auto simp: get_user_by_token_def split: if_splits)
    moreover from this have "find_session (le_auth LE) (st_db s1) token = Some (row\<lparr>as_last_seen_at := Some (e_now (le_env LE))\<rparr>)"
      using row(1) find_session_Some [OF row(1)] by (simp add: find_session_def find_put [where r = row])
    ultimately show ?thesis using row id by auto
  qed
qed

lemma reconfirmation_Inr:
  "require_password_reconfirmation LE u pw s = (Inr x, s') \<Longrightarrow> verify_password (le_auth LE) u pw \<and> st_db s' = st_db s"
  by (auto simp: require_password_reconfirmation_def Let_def split_beta split: option.splits if_splits)

section \<open>Properties\<close>

text \<open>
  C12: Brute force is bounded: in any sequence of logins and password confirmations that fits in one
  lockout time, with any names, passwords and codes, whatever other requests change in the database in
  between, at most \<open>login_max_attempts\<close> wrong passwords or wrong codes for one name are looked at before
  its next right one (one when the limit is below one), which starts a new count; all other attempts
  are refused before the password is checked.
\<close>

theorem login_guesses_are_bounded:
  assumes "distinct (map fst (st_throttle s))" "length (st_throttle s) \<le> max_tracked_usernames"
    and "list_all (within L t0) attempts"
  shows "int (wrong_streak u attempts s) \<le> max 1 (login_max_attempts L)"
proof -
  have "counted L u t0 0 (st_throttle s)" using assms(1,2) by (simp add: counted_def throttle_ok_def)
  from wrong_streak_counted [OF this assms(3)] show ?thesis by simp
qed

text \<open>
  C3: Nobody gets in on half the factors: a login that succeeds was not locked out, named an active
  account, gave its password, and, when the account has a second factor, gave either the code of a
  clock step next to now that is newer than the last used one, or an unused backup code of it.
\<close>

theorem login_needs_every_factor:
  assumes "login LE q s = (Inr (u, token), s')"
  shows "\<exists>u0. find (\<lambda>x. u_username x = lr_username q) (users (st_db s)) = Some u0 \<and> u_id u0 = u_id u \<and>
    u_active u0 \<and> verify_password (le_auth LE) u0 (lr_password q) \<and>
    (\<forall>e t. map_of (st_throttle s) (lr_username q) = Some e \<longrightarrow> locked_until e = Some t \<longrightarrow> t \<le> le_mono LE) \<and>
    (u_mfa_enabled u0 \<longrightarrow> (\<exists>code. lr_mfa_code q = Some code \<and>
       ((\<exists>stored c. u_mfa_secret_encrypted u0 = Some stored \<and>
           mf_totp (le_mfa LE) (mf_decrypt (le_mfa LE) stored) c = normalize_code code \<and>
           \<bar>c - current_counter (le_env LE)\<bar> \<le> 1 \<and> (\<forall>l. u_mfa_last_used_step u0 = Some l \<longrightarrow> l < c)) \<or>
        (\<exists>b \<in> set (backup_codes (st_db s)). bc_user_id b = u_id u0 \<and> bc_used_at b = None \<and>
           au_argon_verify (le_auth LE) (bc_code_hash b) (normalize_backup_code code)))))"
proof (rule login_Inr [OF assms])
  fix t1 ua u1 d1 d2
  assume c: "seconds_until_unlocked (le_limits LE) (le_mono LE) (lr_username q) (st_throttle s) = (None, t1)"
    and a: "authenticate (le_auth LE) (lr_salt q) (lr_username q) (lr_password q) (st_db s) = (Some ua, d1)"
    and v: "if u_mfa_enabled ua then \<exists>code. lr_mfa_code q = Some code \<and>
            verify_mfa_code (le_env LE) (le_auth LE) (le_mfa LE) ua code d1 = Inr (True, u1, d2)
          else u1 = ua \<and> d2 = d1"
    and f: "finish_login LE q u1 (s\<lparr>st_throttle := t1, st_db := d2\<rparr>) = (Inr (u, token), s')"
  from a obtain u0 h where u0: "find (\<lambda>x. u_username x = lr_username q) (users (st_db s)) = Some u0" "u_active u0"
    "verify_password (le_auth LE) u0 (lr_password q)" "ua = u0\<lparr>u_password_hash := h\<rparr>"
    "d1 = (st_db s)\<lparr>users := users d1\<rparr>" by (rule authenticate_Some)
  have unlocked: "\<forall>e t. map_of (st_throttle s) (lr_username q) = Some e \<longrightarrow> locked_until e = Some t \<longrightarrow> t \<le> le_mono LE"
    using c by (auto simp: seconds_until_unlocked_def split: if_splits)
  have codes: "backup_codes d1 = backup_codes (st_db s)" by (subst u0(5)) simp
  have "u_id u = u_id u0"
    using finish_login_Inr [OF f] v verify_mfa_keeps u0(4) by (auto split: if_splits)
  moreover have "\<exists>code. lr_mfa_code q = Some code \<and>
       ((\<exists>stored c. u_mfa_secret_encrypted u0 = Some stored \<and>
           mf_totp (le_mfa LE) (mf_decrypt (le_mfa LE) stored) c = normalize_code code \<and>
           \<bar>c - current_counter (le_env LE)\<bar> \<le> 1 \<and> (\<forall>l. u_mfa_last_used_step u0 = Some l \<longrightarrow> l < c)) \<or>
        (\<exists>b \<in> set (backup_codes (st_db s)). bc_user_id b = u_id u0 \<and> bc_used_at b = None \<and>
           au_argon_verify (le_auth LE) (bc_code_hash b) (normalize_backup_code code)))" if "u_mfa_enabled u0"
  proof -
    from that v u0(4) obtain code where code: "lr_mfa_code q = Some code"
      "verify_mfa_code (le_env LE) (le_auth LE) (le_mfa LE) ua code d1 = Inr (True, u1, d2)" by auto
    from verify_cases [OF code(2)] show ?thesis
      using code(1) consume_backup_True [of "le_env LE" "le_auth LE" ua code d1 d2] u0(4) codes by auto
  qed
  ultimately show ?thesis using u0 unlocked by auto
qed

text \<open>
  C26: The token a login hands out signs exactly that user in until the session's lifetime is over.
\<close>

theorem login_token_signs_in:
  assumes "login LE q s = (Inr (u, token), s')"
    and "e_now E \<le> e_now (le_env LE) + au_session_ttl_hours (le_auth LE) * hour_us"
  shows "fst (get_user_by_token E (le_auth LE) token (st_db s')) = Some u \<and> u_username u = lr_username q"
proof (rule login_Inr [OF assms(1)])
  fix t1 ua u1 d1 d2
  assume a: "authenticate (le_auth LE) (lr_salt q) (lr_username q) (lr_password q) (st_db s) = (Some ua, d1)"
    and v: "if u_mfa_enabled ua then \<exists>code. lr_mfa_code q = Some code \<and>
            verify_mfa_code (le_env LE) (le_auth LE) (le_mfa LE) ua code d1 = Inr (True, u1, d2)
          else u1 = ua \<and> d2 = d1"
    and f: "finish_login LE q u1 (s\<lparr>st_throttle := t1, st_db := d2\<rparr>) = (Inr (u, token), s')"
  from a obtain u0 h where u0: "find (\<lambda>x. u_username x = lr_username q) (users (st_db s)) = Some u0" "u_active u0"
    "ua = u0\<lparr>u_password_hash := h\<rparr>" "map u_id (users d1) = map u_id (users (st_db s))" by (rule authenticate_Some)
  from u0(1) have "u0 \<in> set (users (st_db s))" "u_username u0 = lr_username q" by (auto simp: find_Some_iff)
  with u0 have "u_id ua \<in> set (map u_id (users d1))" by auto
  moreover have u1: "u_id u1 = u_id ua" "u_active u1" "u_username u1 = u_username u0" "map u_id (users d2) = map u_id (users d1)"
    using v verify_mfa_keeps [of "le_env LE" "le_auth LE" "le_mfa LE" ua _ d1 u1 d2] u0(2,3) by (auto split: if_splits)
  ultimately have "u_id u1 \<in> set (map u_id (users d2))" by simp
  then have "tbl_get u_id (u_id u1) (users d2) \<noteq> None" by (auto simp: tbl_get_None)
  with finish_login_Inr [OF f] u1 \<open>u_username u0 = lr_username q\<close> assms(2) show ?thesis
    by (auto simp: get_user_by_token_def table_simps)
qed

text \<open>
  A password change proves the old password, ends the forced change and every other session of
  the account, and keeps the session it was made from.
\<close>

theorem password_change_keeps_only_this_session:
  assumes "change_password_endpoint LE (Some token) current_password new_password salt s = (Inr u, s')"
    and "token \<noteq> ''''"
  shows "fst (get_current_active_user LE (Some token) s') = Inr u \<and>
    u_password_hash u = Some (hash_password (le_auth LE) salt new_password) \<and>
    (\<forall>E other v. fst (get_user_by_token E (le_auth LE) other (st_db s')) = Some v \<longrightarrow> u_id v = u_id u \<longrightarrow>
       hash_token (le_auth LE) other = hash_token (le_auth LE) token)"
proof -
  let ?A = "le_auth LE"
  from assms(1) obtain u0 s1 where cu: "get_current_user LE (Some token) s = (Inr u0, s1)"
    by (auto simp: change_password_endpoint_def depends_def split: prod.splits sum.splits)
  with assms(1) obtain x s2 where re: "require_password_reconfirmation LE u0 current_password s1 = (Inr x, s2)"
    by (auto simp: change_password_endpoint_def depends_def split: prod.splits sum.splits)
  let ?d1 = "snd (revoke_all_sessions ?A (u_id u0) (Some token) (st_db s2))"
  let ?u1 = "u0\<lparr>u_password_hash := Some (hash_password ?A salt new_password), u_must_change_password := False\<rparr>"
  have db: "st_db s' = change_password (le_env LE) ?A salt u0 new_password ?d1"
    "get_user (st_db s') (u_id u0) = Some u"
    using assms(1) cu re by (auto simp: change_password_endpoint_def depends_def Let_def split: option.splits)
  have users: "users (st_db s') = tbl_put u_id ?u1 (users (st_db s2))"
    by (simp add: db(1) change_password_def Let_def revoke_all_sessions_def)
  have ses: "auth_sessions (st_db s') =
      filter (\<lambda>r. \<not> (as_user_id r = u_id u0 \<and> Some (as_token_hash r) \<noteq> Some (hash_token ?A token))) (auth_sessions (st_db s2))"
    using assms(2) by (simp add: db(1) change_password_def Let_def revoke_all_sessions_def)
  have s2: "st_db s2 = st_db s1" using reconfirmation_Inr [OF re] by simp
  from current_user_Inr [OF cu] obtain row where row: "find_session ?A (st_db s1) token = Some row"
    "e_now (le_env LE) \<le> as_expires_at row" "as_user_id row = u_id u0" "u_active u0"
    "get_user (st_db s1) (u_id u0) = Some u0" by blast
  have u: "u = ?u1" using db(2) row(5) by (simp add: users s2 table_simps)
  have "find_session ?A (st_db s') token = Some row"
    using row(1) by (simp add: find_session_def ses s2 find_filter_kept)
  then have active: "fst (get_current_active_user LE (Some token) s') = Inr u"
    using row db(2) u
    by (auto simp: get_current_active_user_def get_current_user_def get_user_by_token_def)
  moreover have "hash_token ?A other = hash_token ?A token"
    if v: "fst (get_user_by_token E ?A other (st_db s')) = Some v" "u_id v = u_id u" for E other v
  proof -
    from get_user_by_token_Some [OF v(1)] obtain r where
      r: "find_session ?A (st_db s') other = Some r" "get_user (st_db s') (as_user_id r) = Some v" by blast
    from r(2) v(2) u have "as_user_id r = u_id u0" by (auto dest: tbl_get_Some)
    with find_session_Some [OF r(1)] ses show ?thesis by auto
  qed
  ultimately show ?thesis using u by auto
qed

section \<open>Witnesses\<close>

definition sample_env :: login_env where
  "sample_env = \<lparr>le_env = length_env, le_auth = plain_auth, le_mfa = step_mfa, le_limits = three_strikes, le_mono = 5\<rparr>"

definition sample_request :: login_request where
  "sample_request = \<lparr>lr_username = ''op'', lr_password = ''pw'', lr_mfa_code = Some ''aaaaa-bbbbb'', lr_client_ip = None,
     lr_user_agent = None, lr_salt = ''s'', lr_token = ''T''\<rparr>"

definition sample_state :: auth_state where
  "sample_state = \<lparr>st_db = enrolled_db\<lparr>users := [enrolled\<lparr>u_password_hash := Some ''s$pw''\<rparr>],
       auth_sessions := [session_row 1 ''t1'' 7, session_row 2 ''t2'' 7]\<rparr>,
     st_throttle = [], st_recent = []\<rparr>"

abbreviation sample_user :: user where
  "sample_user \<equiv> enrolled\<lparr>u_password_hash := Some ''s$pw''\<rparr>"

lemma finish_login_fresh:
  assumes "find_session (le_auth LE) (st_db s) (lr_token q) = None"
  shows "\<exists>s'. finish_login LE q u s = (Inr (u\<lparr>u_last_login_at := Some (e_now (le_env LE))\<rparr>, lr_token q), s')"
  using assms by (simp add: finish_login_def complete_login_def create_session_def Let_def find_session_def)

lemma sample_login:
  obtains s' where "login sample_env sample_request sample_state = (Inr (sample_user\<lparr>u_last_login_at := Some 0\<rparr>, ''T''), s')"
proof -
  let ?d = "st_db sample_state"
  have c: "seconds_until_unlocked (le_limits sample_env) (le_mono sample_env) (lr_username sample_request) (st_throttle sample_state) = (None, [])"
    by (simp add: seconds_until_unlocked_def sample_state_def has_room_def max_tracked_usernames_def)
  have a: "authenticate (le_auth sample_env) (lr_salt sample_request) (lr_username sample_request) (lr_password sample_request)
      (st_db (sample_state\<lparr>st_throttle := []\<rparr>)) = (Some sample_user, ?d)" by code_simp
  obtain d2 where v: "verify_mfa_code (le_env sample_env) (le_auth sample_env) (le_mfa sample_env) sample_user ''aaaaa-bbbbb'' ?d
      = Inr (True, sample_user, d2)" "auth_sessions d2 = auth_sessions ?d"
  proof -
    have "verify_mfa_code (le_env sample_env) (le_auth sample_env) (le_mfa sample_env) sample_user ''aaaaa-bbbbb'' ?d
      = Inr (True, sample_user, ?d\<lparr>backup_codes := tbl_put bc_id ((hd (backup_codes ?d))\<lparr>bc_used_at := Some (e_now length_env)\<rparr>) (backup_codes ?d)\<rparr>)"
      by code_simp
    then show ?thesis using that by simp
  qed
  have n: "find_session (le_auth sample_env) ?d ''T'' = None" by code_simp
  have f: "lr_mfa_code sample_request = Some ''aaaaa-bbbbb''" "u_mfa_enabled sample_user" "lr_token sample_request = ''T''"
    "e_now (le_env sample_env) = e_now length_env" by code_simp+
  obtain s' where "finish_login sample_env sample_request sample_user (sample_state\<lparr>st_throttle := [], st_db := d2\<rparr>) =
      (Inr (sample_user\<lparr>u_last_login_at := Some (e_now length_env)\<rparr>, ''T''), s')"
    using finish_login_fresh [of sample_env "sample_state\<lparr>st_throttle := [], st_db := d2\<rparr>" sample_request sample_user] v(2) n f(3,4)
    by (auto simp: find_session_def)
  moreover have "e_now length_env = 0" by code_simp
  ultimately have "login sample_env sample_request sample_state = (Inr (sample_user\<lparr>u_last_login_at := Some 0\<rparr>, ''T''), s')"
    using c a v(1) f by (simp add: login_def)
  then show ?thesis by (rule that)
qed

theorem login_needs_every_factor_witness:
  "\<exists>u s' u0. login sample_env sample_request sample_state = (Inr (u, ''T''), s') \<and>
     find (\<lambda>x. u_username x = lr_username sample_request) (users (st_db sample_state)) = Some u0 \<and>
     u_mfa_enabled u0 \<and> verify_password (le_auth sample_env) u0 (lr_password sample_request)"
proof -
  obtain s' where l: "login sample_env sample_request sample_state = (Inr (sample_user\<lparr>u_last_login_at := Some 0\<rparr>, ''T''), s')"
    by (rule sample_login)
  have "find (\<lambda>x. u_username x = lr_username sample_request) (users (st_db sample_state)) = Some sample_user"
    "u_mfa_enabled sample_user" by code_simp+
  with l login_needs_every_factor [OF l] show ?thesis by auto
qed

theorem login_token_signs_in_witness:
  "\<exists>u s'. login sample_env sample_request sample_state = (Inr (u, ''T''), s') \<and>
     fst (get_user_by_token length_env (le_auth sample_env) ''T'' (st_db s')) = Some u"
proof -
  obtain s' where l: "login sample_env sample_request sample_state = (Inr (sample_user\<lparr>u_last_login_at := Some 0\<rparr>, ''T''), s')"
    by (rule sample_login)
  have "e_now length_env \<le> e_now (le_env sample_env) + au_session_ttl_hours (le_auth sample_env) * hour_us" by code_simp
  from login_token_signs_in [OF l this] l show ?thesis by blast
qed

abbreviation guesses :: "attempt list" where
  "guesses \<equiv>
     [LoginAttempt sample_env (sample_request\<lparr>lr_password := ''x''\<rparr>), Reconfirmation sample_env sample_user ''y'',
      Elsewhere (\<lambda>s. s), Reconfirmation sample_env sample_user ''z'', LoginAttempt sample_env sample_request]"

theorem login_guesses_are_bounded_witness:
  "int (wrong_streak ''op'' guesses sample_state) \<le> 3"
proof -
  have "login_max_attempts three_strikes = 3" by code_simp
  moreover have "int (wrong_streak ''op'' guesses sample_state) \<le> max 1 (login_max_attempts three_strikes)"
    by (rule login_guesses_are_bounded [where ?t0.0 = 0])
      (auto simp: sample_state_def sample_env_def three_strikes_def window_us_def second_us_def)
  ultimately show ?thesis by simp
qed

theorem password_change_keeps_only_this_session_witness:
  "\<exists>u s'. change_password_endpoint sample_env (Some ''t1'') ''pw'' ''new'' ''s'' sample_state = (Inr u, s') \<and>
     fst (get_current_active_user sample_env (Some ''t1'') s') = Inr u \<and>
     u_password_hash u = Some (hash_password (le_auth sample_env) ''s'' ''new'')"
proof -
  let ?row = "(session_row 1 ''t1'' 7)\<lparr>as_last_seen_at := Some (e_now length_env)\<rparr>"
  let ?s1 = "sample_state\<lparr>st_db := (st_db sample_state)\<lparr>auth_sessions := [?row, session_row 2 ''t2'' 7]\<rparr>\<rparr>"
  have cu: "get_current_user sample_env (Some ''t1'') sample_state = (Inr sample_user, ?s1)" by code_simp
  have re: "require_password_reconfirmation sample_env sample_user ''pw'' ?s1 = (Inr (), ?s1)"
  proof -
    have "verify_password (le_auth sample_env) sample_user ''pw''" "st_throttle sample_state = []" by code_simp+
    then show ?thesis
      by (simp add: require_password_reconfirmation_def password_gate_def seconds_until_unlocked_def has_room_def
          max_tracked_usernames_def record_success_def)
  qed
  let ?u1 = "sample_user\<lparr>u_password_hash := Some (hash_password (le_auth sample_env) ''s'' ''new''), u_must_change_password := False\<rparr>"
  have "tbl_put u_id ?u1 (users (st_db ?s1)) = [?u1]" "u_id ?u1 = 7" "u_id sample_user = 7" by code_simp+
  then obtain s' where "change_password_endpoint sample_env (Some ''t1'') ''pw'' ''new'' ''s'' sample_state = (Inr ?u1, s')"
    by (simp add: change_password_endpoint_def depends_def cu re change_password_def Let_def revoke_all_sessions_def tbl_get_def)
  from password_change_keeps_only_this_session [OF this] this show ?thesis by blast
qed

end
