(* ===== verification/Sso.thy ===== *)
theory Sso
  imports Login LastMatch
begin

text \<open>
  \<open>app/auth/providers/oidc.py\<close>, the SSO endpoints of \<open>app/api/auth.py\<close> and \<open>app/api/sso.py\<close>: signing in
  through an identity provider, the mapping of its groups to roles, and the administration of
  both. The HTTP calls to the provider, the verification of a JWT's signature and standard claims,
  the encryption of the state parameter and of a stored configuration are in \<open>oidc_env\<close>; a step
  that may raise is an option. A claim used as a name (\<open>sub\<close>, \<open>email\<close>, \<open>preferred_username\<close>) is a
  string, as OpenID Connect says; another JSON value counts as an exception.
\<close>

section \<open>The identity provider\<close>

record oidc_settings =
  os_issuer :: string
  os_client_id :: string
  os_client_secret :: string
  os_scopes :: string
  os_group_claim :: "string option"

record oidc_env =
  oe_get :: "string \<Rightarrow> json option"
  oe_post :: "string \<Rightarrow> (string \<times> string) list \<Rightarrow> json option"
  oe_base_url :: string
  oe_decode :: "string \<Rightarrow> json \<Rightarrow> message option"
  oe_registry_ok :: "string \<Rightarrow> message \<Rightarrow> bool"
  oe_encode_state :: "string \<Rightarrow> string"
  oe_decode_state :: "string \<Rightarrow> string option"
  oe_seal :: "message \<Rightarrow> string"
  oe_open :: "string \<Rightarrow> message option"
  oe_repr :: "json \<Rightarrow> string"

definition str_field :: "string \<Rightarrow> message \<Rightarrow> string option" where
  "str_field k m = (case dict_get k m of Some (JStr s) \<Rightarrow> Some s | _ \<Rightarrow> None)"

definition default_scopes :: string where
  "default_scopes = ''openid email profile''"

definition or_none :: "string option \<Rightarrow> string option" where
  "or_none x = (if x = Some '''' then None else x)"

definition parse_oidc_settings :: "message \<Rightarrow> oidc_settings option" where
  "parse_oidc_settings raw =
     (case (str_field ''issuer'' raw, str_field ''client_id'' raw, str_field ''client_secret'' raw) of
        (Some issuer, Some client_id, Some client_secret) \<Rightarrow>
          Some \<lparr>os_issuer = issuer, os_client_id = client_id, os_client_secret = client_secret,
                os_scopes = (case str_field ''scopes'' raw of None \<Rightarrow> default_scopes | Some s \<Rightarrow> s),
                os_group_claim = or_none (str_field ''group_claim'' raw)\<rparr>
      | _ \<Rightarrow> None)"

definition extract_claim_groups :: "oidc_env \<Rightarrow> message \<Rightarrow> string option \<Rightarrow> string list" where
  "extract_claim_groups OE claims group_claim =
     (case or_none group_claim of
        None \<Rightarrow> []
      | Some k \<Rightarrow>
          (case dict_get k claims of
             Some (JStr s) \<Rightarrow> [s]
           | Some (JList vs) \<Rightarrow> map (py_str (oe_repr OE)) vs
           | _ \<Rightarrow> []))"

definition mapped_role :: "string set \<Rightarrow> sso_group_role_mapping list \<Rightarrow> int option" where
  "mapped_role claim_set mappings =
     fold (\<lambda>m v. if gm_group_name m \<in> claim_set then Some (gm_role_id m) else v) (sort_key gm_order mappings) None"

definition resolve_group_mapped_role_id :: "db \<Rightarrow> string list \<Rightarrow> int option" where
  "resolve_group_mapped_role_id d claim_groups =
     (if claim_groups = [] then None else mapped_role (set claim_groups) (group_mappings d))"

interpretation grp: last_match gm_order "\<lambda>m. gm_group_name m \<in> claim_set" "\<lambda>m. Some (gm_role_id m)" None "mapped_role claim_set"
  for claim_set
  by unfold_locales (simp add: mapped_role_def last_match_fold_def)

text \<open>The requests to the provider; an answer that is not a JSON object counts as an exception.\<close>

definition as_object :: "json option \<Rightarrow> message option" where
  "as_object v = (case v of Some (JObj m) \<Rightarrow> Some m | _ \<Rightarrow> None)"

definition fetch_discovery_document :: "oidc_env \<Rightarrow> string \<Rightarrow> message option" where
  "fetch_discovery_document OE issuer =
     as_object (oe_get OE (rev (dropWhile (\<lambda>c. c = CHR ''/'') (rev issuer)) @ ''/.well-known/openid-configuration''))"

definition fetch_jwks :: "oidc_env \<Rightarrow> string \<Rightarrow> json option" where
  "fetch_jwks OE jwks_uri = oe_get OE jwks_uri"

definition exchange_code_for_tokens ::
  "oidc_env \<Rightarrow> string \<Rightarrow> string \<Rightarrow> string \<Rightarrow> string \<Rightarrow> string \<Rightarrow> message option" where
  "exchange_code_for_tokens OE token_endpoint code redirect_uri client_id client_secret =
     as_object (oe_post OE token_endpoint
       [(''grant_type'', ''authorization_code''), (''code'', code), (''redirect_uri'', redirect_uri),
        (''client_id'', client_id), (''client_secret'', client_secret)])"

text \<open>\<open>urllib.parse.urlencode\<close>: \<open>quote_plus\<close> on the UTF-8 bytes of every name and value.\<close>

definition hex_digit :: "nat \<Rightarrow> char" where
  "hex_digit n = ''0123456789ABCDEF'' ! n"

definition utf8_bytes :: "char \<Rightarrow> nat list" where
  "utf8_bytes c = (let n = of_char c in if n < 128 then [n] else [192 + n div 64, 128 + n mod 64])"

definition quote_plus_char :: "char \<Rightarrow> string" where
  "quote_plus_char c =
     (let n = (of_char c :: nat) in
      if c = CHR '' '' then ''+''
      else if (48 \<le> n \<and> n \<le> 57) \<or> (65 \<le> n \<and> n \<le> 90) \<or> (97 \<le> n \<and> n \<le> 122) \<or> c \<in> set ''_.-~'' then [c]
      else concat (map (\<lambda>b. [CHR ''%'', hex_digit (b div 16), hex_digit (b mod 16)]) (utf8_bytes c)))"

definition urlencode :: "(string \<times> string) list \<Rightarrow> string" where
  "urlencode params =
     join_on (CHR ''&'') (map (\<lambda>(k, v). concat (map quote_plus_char k) @ ''='' @ concat (map quote_plus_char v)) params)"

definition build_authorization_url :: "string \<Rightarrow> string \<Rightarrow> string \<Rightarrow> string \<Rightarrow> string \<Rightarrow> string \<Rightarrow> string" where
  "build_authorization_url authorization_endpoint client_id redirect_uri scopes state nonce =
     authorization_endpoint @ ''?'' @ urlencode
       [(''response_type'', ''code''), (''client_id'', client_id), (''redirect_uri'', redirect_uri),
        (''scope'', scopes), (''state'', state), (''nonce'', nonce)]"

definition authorization_redirect_url ::
  "oidc_env \<Rightarrow> oidc_settings \<Rightarrow> string \<Rightarrow> string \<Rightarrow> string \<Rightarrow> string option" where
  "authorization_redirect_url OE cfg redirect_uri state nonce =
     Option.bind (fetch_discovery_document OE (os_issuer cfg)) (\<lambda>discovery.
     Option.bind (str_field ''authorization_endpoint'' discovery) (\<lambda>endpoint.
     Some (build_authorization_url endpoint (os_client_id cfg) redirect_uri (os_scopes cfg) state nonce)))"

abbreviation (input) sso_redirect_uri :: "oidc_env \<Rightarrow> string" where
  "sso_redirect_uri OE \<equiv> oe_base_url OE @ ''/auth/sso/callback''"

definition verify_id_token :: "oidc_env \<Rightarrow> string \<Rightarrow> json \<Rightarrow> string \<Rightarrow> string \<Rightarrow> string \<Rightarrow> message option" where
  "verify_id_token OE id_token jwks issuer client_id nonce =
     (case oe_decode OE id_token jwks of
        None \<Rightarrow> None
      | Some claims \<Rightarrow>
          (let aud = dict_get ''aud'' claims;
               allowed_aud = (case aud of Some (JList l) \<Rightarrow> map Some l | _ \<Rightarrow> [aud])
           in if oe_registry_ok OE issuer claims \<and> Some (JStr client_id) \<in> set allowed_aud \<and>
                 dict_get ''nonce'' claims = Some (JStr nonce)
              then Some claims else None))"

section \<open>Signing in\<close>

definition is_sso_account :: "string \<Rightarrow> string \<Rightarrow> user \<Rightarrow> bool" where
  "is_sso_account issuer external_id u \<longleftrightarrow>
     u_auth_provider u = AuthOidc \<and> u_external_issuer u = Some issuer \<and> u_external_id u = Some external_id"

definition find_or_provision_user ::
  "env \<Rightarrow> string \<Rightarrow> string \<Rightarrow> string \<Rightarrow> int \<Rightarrow> int option \<Rightarrow> db \<Rightarrow> api_error + (user \<times> db)" where
  "find_or_provision_user E issuer external_id email no_access_role_id mapped_role_id d =
     (case find (is_sso_account issuer external_id) (users d) of
        Some u \<Rightarrow> Inr (u, d)
      | None \<Rightarrow>
          (let u = \<lparr>u_id = tbl_max u_id (users d) + 1, u_username = email, u_password_hash = None,
                    u_role_id = (case mapped_role_id of Some r \<Rightarrow> r | None \<Rightarrow> no_access_role_id),
                    u_active = True, u_auth_provider = AuthOidc, u_external_issuer = Some issuer,
                    u_external_id = Some external_id, u_last_login_at = None, u_must_change_password = False,
                    u_mfa_enabled = False, u_mfa_secret_encrypted = None, u_mfa_enrolled_at = None,
                    u_mfa_last_used_step = None\<rparr>;
               d1 = d\<lparr>users := users d @ [u]\<rparr>
           in bindE (requireE (\<forall>x \<in> set (users d). u_username x \<noteq> email) IntegrityError) (\<lambda>_.
              Inr (u, record_audit_event E d1 d1 (Some (u_id u)) ''user.sso_provision'' (Some ''user'') (Some (u_id u))
                        (Some [(''username'', JStr email), (''issuer'', JStr issuer), (''external_id'', JStr external_id)])))))"

text \<open>
  The end of \<open>complete_login\<close>, on verified claims: the signed-in account, or \<open>None\<close> for an exception,
  and the database. Provisioning commits before the account is refused as inactive.
\<close>

definition claim_name :: "string \<Rightarrow> message \<Rightarrow> string \<Rightarrow> string" where
  "claim_name k claims fallback =
     (case or_none (str_field k claims) of None \<Rightarrow> fallback | Some s \<Rightarrow> s)"

definition sync_role :: "env \<Rightarrow> int option \<Rightarrow> string list \<Rightarrow> user \<Rightarrow> db \<Rightarrow> user \<times> db" where
  "sync_role E mapped_role_id claim_groups u d =
     (case mapped_role_id of
        None \<Rightarrow> (u, d)
      | Some r \<Rightarrow>
          if u_role_id u = r then (u, d)
          else
            (let u1 = u\<lparr>u_role_id := r\<rparr>; d1 = d\<lparr>users := tbl_put u_id u1 (users d)\<rparr>
             in (u1, record_audit_event E d1 d1 (Some (u_id u)) ''user.sso_role_synced'' (Some ''user'') (Some (u_id u))
                       (Some [(''role_id'', JInt r), (''groups'', JList (map JStr claim_groups))]))))"

definition accept_claims ::
  "env \<Rightarrow> oidc_env \<Rightarrow> oidc_settings \<Rightarrow> message \<Rightarrow> int \<Rightarrow> db \<Rightarrow> user option \<times> db" where
  "accept_claims E OE cfg claims no_access_role_id d =
     (case (or_none (str_field ''sub'' claims), str_field ''iss'' claims) of
        (Some external_id, Some issuer) \<Rightarrow>
          (let email = claim_name ''email'' claims (claim_name ''preferred_username'' claims external_id);
               claim_groups = extract_claim_groups OE claims (os_group_claim cfg);
               mapped_role_id = resolve_group_mapped_role_id d claim_groups
           in case find_or_provision_user E issuer external_id email no_access_role_id mapped_role_id d of
                Inl e \<Rightarrow> (None, d)
              | Inr (u, d1) \<Rightarrow>
                  if \<not> u_active u then (None, d1)
                  else
                    (let (u1, d2) = sync_role E mapped_role_id claim_groups u d1;
                         u2 = u1\<lparr>u_last_login_at := Some (e_now E)\<rparr>;
                         d3 = d2\<lparr>users := tbl_put u_id u2 (users d2)\<rparr>
                     in (Some u2, record_audit_event E d3 d3 (Some (u_id u2)) ''user.login'' (Some ''user'') (Some (u_id u2))
                                    (Some [(''via'', JStr ''oidc'')]))))
      | _ \<Rightarrow> (None, d))"

definition oidc_complete_login ::
  "env \<Rightarrow> oidc_env \<Rightarrow> oidc_settings \<Rightarrow> string \<Rightarrow> string \<Rightarrow> int \<Rightarrow> db \<Rightarrow> user option \<times> db" where
  "oidc_complete_login E OE cfg code nonce no_access_role_id d =
     (case Option.bind (fetch_discovery_document OE (os_issuer cfg)) (\<lambda>discovery.
           Option.bind (str_field ''token_endpoint'' discovery) (\<lambda>endpoint.
           Option.bind (exchange_code_for_tokens OE endpoint code (sso_redirect_uri OE) (os_client_id cfg)
                          (os_client_secret cfg)) (\<lambda>tokens.
           Option.bind (or_none (str_field ''id_token'' tokens)) (\<lambda>id_token.
           Option.bind (str_field ''jwks_uri'' discovery) (\<lambda>uri.
           Option.bind (fetch_jwks OE uri) (\<lambda>jwks.
           verify_id_token OE id_token jwks (os_issuer cfg) (os_client_id cfg) nonce)))))) of
        None \<Rightarrow> (None, d)
      | Some claims \<Rightarrow> accept_claims E OE cfg claims no_access_role_id d)"

definition get_enabled_provider :: "db \<Rightarrow> sso_provider_config option" where
  "get_enabled_provider d = find sc_enabled (sso_configs d)"

definition sso_status :: "db \<Rightarrow> bool \<times> string option" where
  "sso_status d =
     (case get_enabled_provider d of None \<Rightarrow> (False, None) | Some p \<Rightarrow> (True, Some (sc_name p)))"

text \<open>The URL of the redirect to the provider, and the state, which is also the value of the cookie.\<close>

definition sso_login :: "oidc_env \<Rightarrow> string \<Rightarrow> db \<Rightarrow> auth_error + (string \<times> string)" where
  "sso_login OE nonce d =
     (case get_enabled_provider d of
        None \<Rightarrow> Inl (HttpError (not_found ''SSO is not enabled''))
      | Some p \<Rightarrow>
          (case Option.bind (oe_open OE (sc_config p)) parse_oidc_settings of
             None \<Rightarrow> Inl server_error
           | Some cfg \<Rightarrow>
               (let state = oe_encode_state OE nonce
                in case authorization_redirect_url OE cfg (sso_redirect_uri OE) state nonce of
                     None \<Rightarrow> Inl (HttpError (HTTPException 502 ''Could not reach the identity provider''))
                   | Some url \<Rightarrow> Inr (url, state))))"

datatype callback_answer = SignedIn user string | BackToLogin | ServerError

definition no_access_role_name :: string where
  "no_access_role_name = ''No Access''"

text \<open>\<open>secrets.compare_digest\<close> on strings raises (\<open>None\<close>) on a character outside ASCII.\<close>

definition same_digest :: "string \<Rightarrow> string \<Rightarrow> bool option" where
  "same_digest a b =
     (if list_all (\<lambda>c. (of_char c :: nat) < 128) a \<and> list_all (\<lambda>c. (of_char c :: nat) < 128) b
      then Some (a = b) else None)"

definition sso_callback ::
  "login_env \<Rightarrow> oidc_env \<Rightarrow> string option \<Rightarrow> string option \<Rightarrow> string option \<Rightarrow> string option \<Rightarrow>
   string option \<Rightarrow> string \<Rightarrow> db \<Rightarrow> callback_answer \<times> db" where
  "sso_callback LE OE code state error cookie user_agent token d =
     (case (error, code, state) of
        (None, Some code, Some state) \<Rightarrow>
          (case cookie of
             None \<Rightarrow> (BackToLogin, d)
           | Some c \<Rightarrow>
               (case same_digest c state of
                  None \<Rightarrow> (ServerError, d)
                | Some False \<Rightarrow> (BackToLogin, d)
                | Some True \<Rightarrow>
                    (case oe_decode_state OE state of
                       None \<Rightarrow> (BackToLogin, d)
                     | Some nonce \<Rightarrow>
                         (case get_enabled_provider d of
                            None \<Rightarrow> (BackToLogin, d)
                          | Some p \<Rightarrow>
                              (case Option.bind (oe_open OE (sc_config p)) parse_oidc_settings of
                                 None \<Rightarrow> (ServerError, d)
                               | Some cfg \<Rightarrow>
                                   (case find (\<lambda>r. ro_name r = no_access_role_name) (roles d) of
                                      None \<Rightarrow> (BackToLogin, d)
                                    | Some no_access_role \<Rightarrow>
                                        (case oidc_complete_login (le_env LE) OE cfg code nonce (ro_id no_access_role) d of
                                           (None, d1) \<Rightarrow> (BackToLogin, d1)
                                         | (Some u, d1) \<Rightarrow>
                                             (case create_session (le_env LE) (le_auth LE) u user_agent token d1 of
                                                Inl e \<Rightarrow> (ServerError, d1)
                                              | Inr (row, tok, d2) \<Rightarrow> (SignedIn u tok, d2)))))))))
      | _ \<Rightarrow> (BackToLogin, d))"

section \<open>What a completed sign-in says\<close>

text \<open>
  What makes claims those of the provider, said apart from the code: with the code of this callback and
  its secret the server got an ID token from the token endpoint of the provider's own discovery
  document, a key set from the address that document gives verifies the token, it is issued by the
  provider and for this client, and it holds the nonce.
\<close>

definition names_audience :: "string \<Rightarrow> message \<Rightarrow> bool" where
  "names_audience client claims \<longleftrightarrow>
     dict_get ''aud'' claims = Some (JStr client) \<or>
     (\<exists>l. dict_get ''aud'' claims = Some (JList l) \<and> JStr client \<in> set l)"

definition vouched_by :: "oidc_env \<Rightarrow> oidc_settings \<Rightarrow> string \<Rightarrow> string \<Rightarrow> message \<Rightarrow> bool" where
  "vouched_by OE cfg code nonce claims \<longleftrightarrow>
     (\<exists>discovery endpoint tokens id_token uri jwks.
        fetch_discovery_document OE (os_issuer cfg) = Some discovery \<and>
        str_field ''token_endpoint'' discovery = Some endpoint \<and>
        exchange_code_for_tokens OE endpoint code (sso_redirect_uri OE) (os_client_id cfg) (os_client_secret cfg) = Some tokens \<and>
        str_field ''id_token'' tokens = Some id_token \<and>
        str_field ''jwks_uri'' discovery = Some uri \<and> fetch_jwks OE uri = Some jwks \<and>
        oe_decode OE id_token jwks = Some claims) \<and>
     oe_registry_ok OE (os_issuer cfg) claims \<and> names_audience (os_client_id cfg) claims \<and>
     dict_get ''nonce'' claims = Some (JStr nonce)"

lemma verified_claims:
  "verify_id_token OE t jwks issuer client nonce = Some claims \<Longrightarrow>
     oe_decode OE t jwks = Some claims \<and> oe_registry_ok OE issuer claims \<and> names_audience client claims \<and>
     dict_get ''nonce'' claims = Some (JStr nonce)"
  by (auto simp: verify_id_token_def names_audience_def Let_def split: option.splits if_splits json.splits)

definition provisioned_role :: "db \<Rightarrow> string \<Rightarrow> string \<Rightarrow> int \<Rightarrow> int option \<Rightarrow> int" where
  "provisioned_role d issuer external_id no_access mapped =
     (case find (is_sso_account issuer external_id) (users d) of
        Some v \<Rightarrow> u_role_id v | None \<Rightarrow> (case mapped of Some r \<Rightarrow> r | None \<Rightarrow> no_access))"

lemma found_or_provisioned:
  assumes "find_or_provision_user E issuer external_id email no_access mapped d = Inr (u, d1)"
  shows "is_sso_account issuer external_id u \<and> (\<exists>v. get_user d1 (u_id u) = Some v) \<and>
    u_role_id u = provisioned_role d issuer external_id no_access mapped \<and> auth_sessions d1 = auth_sessions d"
proof (cases "find (is_sso_account issuer external_id) (users d)")
  case (Some v)
  with assms have "u = v" "d1 = d" by (auto simp: find_or_provision_user_def)
  with Some found [OF Some] show ?thesis by (auto simp: provisioned_role_def intro: tbl_get_in)
next
  case None
  with assms show ?thesis
    by (auto simp: find_or_provision_user_def Let_def bindE_Inr_iff is_sso_account_def tbl_get_append
        provisioned_role_def split: option.split)
qed

lemma synced:
  assumes "sync_role E mapped groups u d = (u1, d1)" "get_user d (u_id u) = Some v"
  shows "u1 = u\<lparr>u_role_id := (case mapped of Some r \<Rightarrow> r | None \<Rightarrow> u_role_id u)\<rparr> \<and>
    (\<exists>v. get_user d1 (u_id u) = Some v) \<and> auth_sessions d1 = auth_sessions d"
  using assms by (auto simp: sync_role_def Let_def table_simps split: option.splits if_splits)

text \<open>An accepted login: the account of the claims' issuer and subject, active, with the role of its groups.\<close>

lemma accepted_claims:
  assumes "accept_claims E OE cfg claims no_access d = (Some u, d')"
  obtains external_id issuer where
    "str_field ''sub'' claims = Some external_id" "str_field ''iss'' claims = Some issuer"
    "is_sso_account issuer external_id u" "u_active u" "get_user d' (u_id u) = Some u" "auth_sessions d' = auth_sessions d"
    "u_role_id u = (case resolve_group_mapped_role_id d (extract_claim_groups OE claims (os_group_claim cfg)) of
       Some r \<Rightarrow> r | None \<Rightarrow> provisioned_role d issuer external_id no_access None)"
proof -
  let ?groups = "extract_claim_groups OE claims (os_group_claim cfg)"
  let ?mapped = "resolve_group_mapped_role_id d ?groups"
  obtain external_id issuer where c: "or_none (str_field ''sub'' claims) = Some external_id" "str_field ''iss'' claims = Some issuer"
    using assms by (auto simp: accept_claims_def split: option.splits)
  then obtain v d1 where f: "find_or_provision_user E issuer external_id
      (claim_name ''email'' claims (claim_name ''preferred_username'' claims external_id)) no_access ?mapped d = Inr (v, d1)"
    using assms by (auto simp: accept_claims_def Let_def split: sum.splits)
  obtain u1 d2 where s: "sync_role E ?mapped ?groups v d1 = (u1, d2)" by fastforce
  have act: "u_active v" and u: "u = u1\<lparr>u_last_login_at := Some (e_now E)\<rparr>"
    and d': "users d' = tbl_put u_id u (users d2)" "auth_sessions d' = auth_sessions d2"
    using assms c f s by (auto simp: accept_claims_def Let_def split: if_splits)
  note fp = found_or_provisioned [OF f]
  from fp obtain w where w: "get_user d1 (u_id v) = Some w" by blast
  note sy = synced [OF s w]
  show thesis
  proof (rule that [of external_id issuer])
    show "str_field ''sub'' claims = Some external_id" using c(1) by (auto simp: or_none_def split: if_splits)
    show "is_sso_account issuer external_id u" "u_active u" using fp act sy u by (auto simp: is_sso_account_def)
    show "get_user d' (u_id u) = Some u" using sy u d'(1) by (auto simp: table_simps)
    show "u_role_id u = (case ?mapped of Some r \<Rightarrow> r | None \<Rightarrow> provisioned_role d issuer external_id no_access None)"
      using sy u fp by (auto split: option.split)
  qed (use c d' sy fp in simp_all)
qed

lemma completed_login:
  assumes "oidc_complete_login E OE cfg code nonce no_access d = (Some u, d')"
  obtains claims where "vouched_by OE cfg code nonce claims" "accept_claims E OE cfg claims no_access d = (Some u, d')"
proof -
  from assms obtain discovery endpoint tokens t uri jwks claims where
    "fetch_discovery_document OE (os_issuer cfg) = Some discovery" "str_field ''token_endpoint'' discovery = Some endpoint"
    "exchange_code_for_tokens OE endpoint code (sso_redirect_uri OE) (os_client_id cfg) (os_client_secret cfg) = Some tokens"
    "or_none (str_field ''id_token'' tokens) = Some t" "str_field ''jwks_uri'' discovery = Some uri" "fetch_jwks OE uri = Some jwks"
    "verify_id_token OE t jwks (os_issuer cfg) (os_client_id cfg) nonce = Some claims"
    "accept_claims E OE cfg claims no_access d = (Some u, d')"
    by (auto simp: oidc_complete_login_def bind_eq_Some_conv split: option.splits)
  note steps = this
  from steps(4) have t: "str_field ''id_token'' tokens = Some t" by (auto simp: or_none_def split: if_splits)
  have "vouched_by OE cfg code nonce claims"
    unfolding vouched_by_def using verified_claims [OF steps(7)] steps(1-3,5,6) t by blast
  then show ?thesis using steps(8) by (rule that)
qed

lemma same_digest_True: "same_digest a b = Some True \<Longrightarrow> a = b"
  by (auto simp: same_digest_def split: if_splits)

lemma signed_in:
  assumes "sso_callback LE OE code state error cookie ua token d = (SignedIn u tok, d')"
  obtains code' st nonce p cfg no_access d1 row where
    "error = None" "code = Some code'" "state = Some st" "cookie = Some st" "oe_decode_state OE st = Some nonce"
    "get_enabled_provider d = Some p" "Option.bind (oe_open OE (sc_config p)) parse_oidc_settings = Some cfg"
    "oidc_complete_login (le_env LE) OE cfg code' nonce (ro_id no_access) d = (Some u, d1)"
    "find (\<lambda>r. ro_name r = no_access_role_name) (roles d) = Some no_access"
    "create_session (le_env LE) (le_auth LE) u ua token d1 = Inr (row, tok, d')"
  using assms
  by (auto simp: sso_callback_def split: option.splits bool.splits prod.splits sum.splits dest!: same_digest_True)

section \<open>Properties\<close>

text \<open>
  C23: A single sign-on callback signs in only the account the enabled identity provider vouches for:
  the browser's cookie and the state it brings back are the same string; the code it brings back gave,
  at the provider's token endpoint, an ID token that verifies under the provider's own keys, is meant for
  this client and holds the nonce of the state; and the account is active, belongs to that token's
  issuer and subject, and is the one the new session's token opens. A group of the token that is mapped
  decides its role; without one the account keeps its role, and a new account gets the no-access role.
\<close>

theorem sso_signs_in_only_the_vouched_account:
  assumes "sso_callback LE OE code state error cookie user_agent token d = (SignedIn u tok, d')"
  shows "\<exists>code' st nonce p cfg claims issuer external_id no_access.
    error = None \<and> code = Some code' \<and> state = Some st \<and> cookie = Some st \<and> oe_decode_state OE st = Some nonce \<and>
    get_enabled_provider d = Some p \<and> Option.bind (oe_open OE (sc_config p)) parse_oidc_settings = Some cfg \<and>
    vouched_by OE cfg code' nonce claims \<and>
    str_field ''iss'' claims = Some issuer \<and> str_field ''sub'' claims = Some external_id \<and>
    is_sso_account issuer external_id u \<and> u_active u \<and> get_user d' (u_id u) = Some u \<and>
    find (\<lambda>r. ro_name r = no_access_role_name) (roles d) = Some no_access \<and>
    u_role_id u = (case resolve_group_mapped_role_id d (extract_claim_groups OE claims (os_group_claim cfg)) of
       Some r \<Rightarrow> r | None \<Rightarrow> provisioned_role d issuer external_id (ro_id no_access) None) \<and>
    (\<exists>row. find_session (le_auth LE) d' tok = Some row \<and> as_user_id row = u_id u)"
proof -
  from signed_in [OF assms] obtain code' st nonce p cfg no_access d1 row where
    c: "error = None" "code = Some code'" "state = Some st" "cookie = Some st" "oe_decode_state OE st = Some nonce"
      "get_enabled_provider d = Some p" "Option.bind (oe_open OE (sc_config p)) parse_oidc_settings = Some cfg"
      "find (\<lambda>r. ro_name r = no_access_role_name) (roles d) = Some no_access"
    and l: "oidc_complete_login (le_env LE) OE cfg code' nonce (ro_id no_access) d = (Some u, d1)"
    and s: "create_session (le_env LE) (le_auth LE) u user_agent token d1 = Inr (row, tok, d')" by metis
  from completed_login [OF l] obtain claims where
    v: "vouched_by OE cfg code' nonce claims"
    and a: "accept_claims (le_env LE) OE cfg claims (ro_id no_access) d = (Some u, d1)" by metis
  from accepted_claims [OF a] obtain external_id issuer where
    acc: "str_field ''sub'' claims = Some external_id" "str_field ''iss'' claims = Some issuer"
      "is_sso_account issuer external_id u" "u_active u" "get_user d1 (u_id u) = Some u"
      "u_role_id u = (case resolve_group_mapped_role_id d (extract_claim_groups OE claims (os_group_claim cfg)) of
       Some r \<Rightarrow> r | None \<Rightarrow> provisioned_role d issuer external_id (ro_id no_access) None)" by metis
  have "find_session (le_auth LE) d' tok = Some row" "as_user_id row = u_id u" "get_user d' (u_id u) = Some u"
    using s acc(5) by (auto simp: create_session_def Let_def bindE_Inr_iff find_session_def find_append)
  with c v acc show ?thesis by blast
qed

section \<open>Witnesses\<close>

definition idp_config :: message where
  "idp_config = [(''issuer'', JStr ''https://idp''), (''client_id'', JStr ''c''), (''client_secret'', JStr ''s''),
     (''scopes'', JStr ''openid''), (''group_claim'', JStr ''groups'')]"

definition id_claims :: message where
  "id_claims = [(''iss'', JStr ''https://idp''), (''sub'', JStr ''42''), (''aud'', JStr ''c''), (''nonce'', JStr ''N''),
     (''groups'', JList [JStr ''eng''])]"

text \<open>An identity provider with one token, and a store that keeps one configuration.\<close>

definition sample_idp :: oidc_env where
  "sample_idp = \<lparr>oe_get = (\<lambda>url. if url = ''/k'' then Some JNull
       else Some (JObj [(''authorization_endpoint'', JStr ''/a''), (''token_endpoint'', JStr ''/t''), (''jwks_uri'', JStr ''/k'')])),
     oe_post = (\<lambda>_ _. Some (JObj [(''id_token'', JStr ''jwt'')])), oe_base_url = ''https://here'',
     oe_decode = (\<lambda>t _. if t = ''jwt'' then Some id_claims else None),
     oe_registry_ok = (\<lambda>issuer claims. dict_get ''iss'' claims = Some (JStr issuer)),
     oe_encode_state = (\<lambda>nonce. ''~'' @ nonce),
     oe_decode_state = (\<lambda>s. case s of [] \<Rightarrow> None | c # cs \<Rightarrow> if c = CHR ''~'' then Some cs else None),
     oe_seal = (\<lambda>m. if m = idp_config then ''A'' else ''!''),
     oe_open = (\<lambda>s. if s = ''A'' then Some idp_config else None), oe_repr = (\<lambda>_. ''?'')\<rparr>"

definition no_access_role :: role where
  "no_access_role = \<lparr>ro_id = 9, ro_name = no_access_role_name, ro_is_builtin = True, ro_is_super_admin = False,
                     ro_global_capabilities = []\<rparr>"

definition sso_user :: user where
  "sso_user = operator\<lparr>u_id := 8, u_username := ''sso'', u_role_id := 9, u_auth_provider := AuthOidc,
     u_external_issuer := Some ''https://idp'', u_external_id := Some ''42''\<rparr>"

definition idp_db :: db where
  "idp_db = sample_db\<lparr>roles := [operator_role, no_access_role], users := [operator, sso_user],
     sso_configs := [\<lparr>sc_id = 1, sc_protocol = SsoOidc, sc_name = ''idp'', sc_config = ''A'', sc_enabled = True\<rparr>],
     group_mappings := [\<lparr>gm_id = 1, gm_order = 0, gm_group_name = ''eng'', gm_role_id = 5\<rparr>]\<rparr>"

definition idp_settings :: oidc_settings where
  "idp_settings = \<lparr>os_issuer = ''https://idp'', os_client_id = ''c'', os_client_secret = ''s'', os_scopes = ''openid'',
     os_group_claim = Some ''groups''\<rparr>"

abbreviation signed_sso_user :: user where
  "signed_sso_user \<equiv> sso_user\<lparr>u_role_id := 5, u_last_login_at := Some 0\<rparr>"

lemma sample_accept:
  "\<exists>d1. accept_claims length_env sample_idp idp_settings id_claims 9 idp_db = (Some signed_sso_user, d1) \<and>
     auth_sessions d1 = []"
proof -
  have "or_none (str_field ''sub'' id_claims) = Some ''42''" "str_field ''iss'' id_claims = Some ''https://idp''"
    "extract_claim_groups sample_idp id_claims (os_group_claim idp_settings) = [''eng'']"
    "resolve_group_mapped_role_id idp_db [''eng''] = Some 5"
    "find (is_sso_account ''https://idp'' ''42'') (users idp_db) = Some sso_user"
    "u_active sso_user" "u_role_id sso_user = 9" "e_now length_env = 0" "auth_sessions idp_db = []" by code_simp+
  then show ?thesis
    by (simp add: accept_claims_def find_or_provision_user_def sync_role_def Let_def)
qed

theorem sso_signs_in_only_the_vouched_account_witness:
  "\<exists>u d'. sso_callback sample_env sample_idp (Some ''code'') (Some ''~N'') None (Some ''~N'') None ''T'' idp_db = (SignedIn u ''T'', d') \<and>
     is_sso_account ''https://idp'' ''42'' u \<and> get_user d' (u_id u) = Some u"
proof -
  obtain d1 where a: "accept_claims length_env sample_idp idp_settings id_claims 9 idp_db = (Some signed_sso_user, d1)"
    "auth_sessions d1 = []" using sample_accept by blast
  let ?p = "\<lparr>sc_id = 1, sc_protocol = SsoOidc, sc_name = ''idp'', sc_config = ''A'', sc_enabled = True\<rparr>"
  have e: "same_digest ''~N'' ''~N'' = Some True" "oe_decode_state sample_idp ''~N'' = Some ''N''"
    "get_enabled_provider idp_db = Some ?p" "oe_open sample_idp (sc_config ?p) = Some idp_config"
    "parse_oidc_settings idp_config = Some idp_settings"
    "find (\<lambda>r. ro_name r = no_access_role_name) (roles idp_db) = Some no_access_role" "ro_id no_access_role = 9" by code_simp+
  have env: "le_env sample_env = length_env" by (simp add: sample_env_def)
  have o: "fetch_discovery_document sample_idp (os_issuer idp_settings) = Some [(''authorization_endpoint'', JStr ''/a''), (''token_endpoint'', JStr ''/t''), (''jwks_uri'', JStr ''/k'')]"
    "exchange_code_for_tokens sample_idp ''/t'' ''code'' (sso_redirect_uri sample_idp) (os_client_id idp_settings)
      (os_client_secret idp_settings) = Some [(''id_token'', JStr ''jwt'')]"
    "fetch_jwks sample_idp ''/k'' = Some JNull"
    "verify_id_token sample_idp ''jwt'' JNull (os_issuer idp_settings) (os_client_id idp_settings) ''N'' = Some id_claims" by code_simp+
  have l: "oidc_complete_login length_env sample_idp idp_settings ''code'' ''N'' 9 idp_db = (Some signed_sso_user, d1)"
    using a(1) o by (simp add: oidc_complete_login_def str_field_def or_none_def dict_get_def)
  obtain row d' where "create_session length_env (le_auth sample_env) signed_sso_user None ''T'' d1 = Inr (row, ''T'', d')"
    using a(2) by (simp add: create_session_def find_session_def Let_def)
  with e env l have c: "sso_callback sample_env sample_idp (Some ''code'') (Some ''~N'') None (Some ''~N'') None ''T'' idp_db
      = (SignedIn signed_sso_user ''T'', d')"
    by (simp add: sso_callback_def)
  from sso_signs_in_only_the_vouched_account [OF c] have "get_user d' (u_id signed_sso_user) = Some signed_sso_user" by blast
  moreover have "is_sso_account ''https://idp'' ''42'' signed_sso_user" by code_simp
  ultimately show ?thesis using c by blast
qed

end
