(* ===== verification/SsoApi.thy ===== *)
theory SsoApi
  imports Sso UsersApi
begin

text \<open>
  \<open>app/api/sso.py\<close>: the endpoints that configure the identity provider and map its groups to roles,
  as a state machine. A stored configuration that does not decrypt or parse is an exception.
\<close>

section \<open>Guards\<close>

abbreviation (input) config_error :: api_error where
  "config_error \<equiv> HTTPException 500 ''Internal Server Error''"

abbreviation get_provider_row :: "db \<Rightarrow> int \<Rightarrow> sso_provider_config option" where
  "get_provider_row d i \<equiv> tbl_get sc_id i (sso_configs d)"

abbreviation get_mapping :: "db \<Rightarrow> int \<Rightarrow> sso_group_role_mapping option" where
  "get_mapping d i \<equiv> tbl_get gm_id i (group_mappings d)"

definition assert_single_enabled :: "db \<Rightarrow> bool \<Rightarrow> int option \<Rightarrow> api_error + unit" where
  "assert_single_enabled d enabled exclude_id =
     (if \<not> enabled then Inr ()
      else requireE (find (\<lambda>c. sc_enabled c \<and> exclude_id \<noteq> Some (sc_id c)) (sso_configs d) = None)
             (conflict ''Another SSO provider is already enabled: disable it first''))"

definition require_trust_change_within_authority :: "db \<Rightarrow> role \<Rightarrow> api_error + unit" where
  "require_trust_change_within_authority d actor_role =
     (if ro_is_super_admin actor_role then Inr ()
      else requireE
        (list_all (\<lambda>m. case get_role d (gm_role_id m) of
                         None \<Rightarrow> True | Some r \<Rightarrow> role_within_authority actor_role r) (group_mappings d))
        (forbidden ''Not permitted: a group mapping grants a role with privileges beyond your own''))"

definition require_mappable_role :: "db \<Rightarrow> role \<Rightarrow> int \<Rightarrow> api_error + role" where
  "require_mappable_role d actor_role role_id =
     bindE (someE (not_found ''Role not found'') (get_role d role_id)) (\<lambda>r.
     bindE (require_role_within_authority actor_role r) (\<lambda>_. Inr r))"

text \<open>\<open>require_manage\<close>, then the actor's own role.\<close>

definition sso_manager :: "db \<Rightarrow> user \<Rightarrow> api_error + role" where
  "sso_manager d actor = bindE (require_global_capability d actor ManageSso) (\<lambda>_. user_role d actor)"

section \<open>Providers\<close>

definition provider_config :: "string \<Rightarrow> string \<Rightarrow> string \<Rightarrow> string \<Rightarrow> string option \<Rightarrow> message" where
  "provider_config issuer client_id client_secret scopes group_claim =
     [(''issuer'', JStr issuer), (''client_id'', JStr client_id), (''client_secret'', JStr client_secret),
      (''scopes'', JStr scopes), (''group_claim'', case group_claim of None \<Rightarrow> JNull | Some g \<Rightarrow> JStr g)]"

definition create_provider ::
  "env \<Rightarrow> oidc_env \<Rightarrow> user \<Rightarrow> string \<Rightarrow> string \<Rightarrow> string \<Rightarrow> string \<Rightarrow> string \<Rightarrow> string option \<Rightarrow> bool \<Rightarrow>
   db \<Rightarrow> api_error + db" where
  "create_provider E OE actor name issuer client_id client_secret scopes group_claim enabled d =
     bindE (sso_manager d actor) (\<lambda>actor_role.
     bindE (assert_single_enabled d enabled None) (\<lambda>_.
     bindE (require_trust_change_within_authority d actor_role) (\<lambda>_.
     let c = \<lparr>sc_id = tbl_max sc_id (sso_configs d) + 1, sc_protocol = SsoOidc, sc_name = name,
              sc_config = oe_seal OE (provider_config issuer client_id client_secret scopes group_claim),
              sc_enabled = enabled\<rparr>;
         d1 = d\<lparr>sso_configs := sso_configs d @ [c]\<rparr>
     in Inr (record_audit_event E d1 d1 (Some (u_id actor)) ''sso_provider.create'' (Some ''sso_provider'') (Some (sc_id c))
               (Some [(''name'', JStr name), (''enabled'', JBool enabled)])))))"

text \<open>The body of a \<open>PATCH\<close>: a field that is \<open>None\<close> stays.\<close>

record provider_update =
  pu_name :: "string option"
  pu_issuer :: "string option"
  pu_client_id :: "string option"
  pu_client_secret :: "string option"
  pu_scopes :: "string option"
  pu_group_claim :: "string option"
  pu_enabled :: "bool option"

definition set_field :: "string \<Rightarrow> string option \<Rightarrow> message \<Rightarrow> message" where
  "set_field k v raw = (case v of None \<Rightarrow> raw | Some s \<Rightarrow> AList.update k (JStr s) raw)"

text \<open>A value of \<open>dict.get\<close> compared with another: a key with \<open>null\<close> reads as an absent one.\<close>

definition null_as_none :: "json option \<Rightarrow> json option" where
  "null_as_none v = (if v = Some JNull then None else v)"

definition changes_trust :: "message \<Rightarrow> provider_update \<Rightarrow> bool" where
  "changes_trust raw p \<longleftrightarrow>
     pu_enabled p = Some True \<or>
     (pu_issuer p \<noteq> None \<and> map_option JStr (pu_issuer p) \<noteq> dict_get ''issuer'' raw) \<or>
     (pu_client_id p \<noteq> None \<and> map_option JStr (pu_client_id p) \<noteq> dict_get ''client_id'' raw) \<or>
     (pu_group_claim p \<noteq> None \<and>
        map_option JStr (or_none (pu_group_claim p)) \<noteq> null_as_none (dict_get ''group_claim'' raw))"

definition updated_config :: "provider_update \<Rightarrow> message \<Rightarrow> message" where
  "updated_config p raw =
     (let raw = set_field ''issuer'' (pu_issuer p) raw;
          raw = set_field ''client_id'' (pu_client_id p) raw;
          raw = set_field ''client_secret'' (pu_client_secret p) raw;
          raw = set_field ''scopes'' (pu_scopes p) raw
      in case pu_group_claim p of
           None \<Rightarrow> raw
         | Some g \<Rightarrow> AList.update ''group_claim'' (if g = '''' then JNull else JStr g) raw)"

definition update_provider ::
  "env \<Rightarrow> oidc_env \<Rightarrow> user \<Rightarrow> int \<Rightarrow> provider_update \<Rightarrow> db \<Rightarrow> api_error + db" where
  "update_provider E OE actor provider_id p d =
     bindE (sso_manager d actor) (\<lambda>actor_role.
     bindE (someE (not_found ''SSO provider not found'') (get_provider_row d provider_id)) (\<lambda>c.
     bindE (someE config_error (oe_open OE (sc_config c))) (\<lambda>raw.
     bindE (if changes_trust raw p then require_trust_change_within_authority d actor_role else Inr ()) (\<lambda>_.
     bindE (case pu_enabled p of None \<Rightarrow> Inr () | Some b \<Rightarrow> assert_single_enabled d b (Some provider_id)) (\<lambda>_.
     let c1 = c\<lparr>sc_enabled := (case pu_enabled p of None \<Rightarrow> sc_enabled c | Some b \<Rightarrow> b),
                sc_name := (case pu_name p of None \<Rightarrow> sc_name c | Some n \<Rightarrow> n),
                sc_config := oe_seal OE (updated_config p raw)\<rparr>;
         d1 = d\<lparr>sso_configs := tbl_put sc_id c1 (sso_configs d)\<rparr>
     in Inr (record_audit_event E d1 d1 (Some (u_id actor)) ''sso_provider.update'' (Some ''sso_provider'')
               (Some provider_id) None))))))"

definition delete_provider :: "env \<Rightarrow> user \<Rightarrow> int \<Rightarrow> db \<Rightarrow> api_error + db" where
  "delete_provider E actor provider_id d =
     bindE (sso_manager d actor) (\<lambda>_.
     bindE (someE (not_found ''SSO provider not found'') (get_provider_row d provider_id)) (\<lambda>c.
     let d1 = d\<lparr>sso_configs := tbl_del sc_id provider_id (sso_configs d)\<rparr>
     in Inr (record_audit_event E d d1 (Some (u_id actor)) ''sso_provider.delete'' (Some ''sso_provider'')
               (Some provider_id) None)))"

text \<open>What an administrator sees of a provider; the secret is not part of it.\<close>

record provider_public =
  pp_id :: int
  pp_protocol :: sso_protocol
  pp_name :: string
  pp_enabled :: bool
  pp_issuer :: string
  pp_client_id :: string
  pp_scopes :: string
  pp_group_claim :: "string option"

definition from_config :: "oidc_env \<Rightarrow> sso_provider_config \<Rightarrow> api_error + provider_public" where
  "from_config OE c =
     bindE (someE config_error (oe_open OE (sc_config c))) (\<lambda>raw.
     bindE (someE config_error (str_field ''issuer'' raw)) (\<lambda>issuer.
     bindE (someE config_error (str_field ''client_id'' raw)) (\<lambda>client_id.
     Inr \<lparr>pp_id = sc_id c, pp_protocol = sc_protocol c, pp_name = sc_name c, pp_enabled = sc_enabled c,
          pp_issuer = issuer, pp_client_id = client_id,
          pp_scopes = (case str_field ''scopes'' raw of None \<Rightarrow> default_scopes | Some x \<Rightarrow> x),
          pp_group_claim = or_none (str_field ''group_claim'' raw)\<rparr>)))"

fun all_public :: "oidc_env \<Rightarrow> sso_provider_config list \<Rightarrow> api_error + provider_public list" where
  "all_public OE [] = Inr []"
| "all_public OE (c # cs) = bindE (from_config OE c) (\<lambda>p. bindE (all_public OE cs) (\<lambda>ps. Inr (p # ps)))"

definition list_providers :: "oidc_env \<Rightarrow> db \<Rightarrow> user \<Rightarrow> api_error + provider_public list" where
  "list_providers OE d actor = bindE (sso_manager d actor) (\<lambda>_. all_public OE (sso_configs d))"

definition get_provider :: "oidc_env \<Rightarrow> db \<Rightarrow> user \<Rightarrow> int \<Rightarrow> api_error + provider_public" where
  "get_provider OE d actor provider_id =
     bindE (sso_manager d actor) (\<lambda>_.
     bindE (someE (not_found ''SSO provider not found'') (get_provider_row d provider_id)) (from_config OE))"

text \<open>\<open>POST /{provider_id}/test\<close>: what it answers; an unreachable provider is an answer.\<close>

definition test_provider :: "oidc_env \<Rightarrow> user \<Rightarrow> int \<Rightarrow> db \<Rightarrow> api_error + (bool \<times> string)" where
  "test_provider OE actor provider_id d =
     bindE (sso_manager d actor) (\<lambda>_.
     bindE (someE (not_found ''SSO provider not found'') (get_provider_row d provider_id)) (\<lambda>c.
     bindE (someE config_error (Option.bind (oe_open OE (sc_config c)) parse_oidc_settings)) (\<lambda>cfg.
     Inr (case fetch_discovery_document OE (os_issuer cfg) of
            None \<Rightarrow> (False, ''unreachable'')
          | Some discovery \<Rightarrow>
              (case find (\<lambda>k. dict_get k discovery = None) [''authorization_endpoint'', ''token_endpoint'', ''jwks_uri''] of
                 Some k \<Rightarrow> (False, ''discovery document is missing '' @ k)
               | None \<Rightarrow>
                   (case Option.bind (str_field ''jwks_uri'' discovery) (fetch_jwks OE) of
                      None \<Rightarrow> (False, ''unreachable'')
                    | Some _ \<Rightarrow> (True, ''Connected'')))))))"

section \<open>Group mappings\<close>

definition list_group_mappings :: "db \<Rightarrow> user \<Rightarrow> api_error + (sso_group_role_mapping \<times> string) list" where
  "list_group_mappings d actor =
     bindE (sso_manager d actor) (\<lambda>_.
     Inr (map (\<lambda>m. (m, case get_role d (gm_role_id m) of
                          None \<Rightarrow> ''#'' @ show_int (gm_role_id m) | Some r \<Rightarrow> ro_name r))
            (sort_key gm_order (group_mappings d))))"

definition create_group_mapping ::
  "env \<Rightarrow> user \<Rightarrow> int \<Rightarrow> string \<Rightarrow> int \<Rightarrow> db \<Rightarrow> api_error + db" where
  "create_group_mapping E actor order group_name role_id d =
     bindE (sso_manager d actor) (\<lambda>actor_role.
     bindE (require_mappable_role d actor_role role_id) (\<lambda>r.
     let m = \<lparr>gm_id = tbl_max gm_id (group_mappings d) + 1, gm_order = order, gm_group_name = group_name,
              gm_role_id = role_id\<rparr>;
         d1 = d\<lparr>group_mappings := group_mappings d @ [m]\<rparr>
     in Inr (record_audit_event E d1 d1 (Some (u_id actor)) ''sso_group_mapping.create'' (Some ''sso_group_mapping'')
               (Some (gm_id m)) (Some [(''group_name'', JStr group_name), (''role_id'', JInt role_id)]))))"

text \<open>The committed database; the answer is a 404 when the mapping's role is gone, after the commit.\<close>

definition update_group_mapping ::
  "env \<Rightarrow> user \<Rightarrow> int \<Rightarrow> int option \<Rightarrow> string option \<Rightarrow> int option \<Rightarrow> db \<Rightarrow> api_error + db" where
  "update_group_mapping E actor mapping_id order group_name role_id d =
     bindE (sso_manager d actor) (\<lambda>actor_role.
     bindE (someE (not_found ''Mapping not found'') (get_mapping d mapping_id)) (\<lambda>m.
     bindE (case get_role d (gm_role_id m) of
              None \<Rightarrow> Inr () | Some r \<Rightarrow> require_role_within_authority actor_role r) (\<lambda>_.
     bindE (case role_id of None \<Rightarrow> Inr () | Some i \<Rightarrow> bindE (require_mappable_role d actor_role i) (\<lambda>_. Inr ())) (\<lambda>_.
     let m1 = m\<lparr>gm_order := (case order of None \<Rightarrow> gm_order m | Some n \<Rightarrow> n),
                gm_group_name := (case group_name of None \<Rightarrow> gm_group_name m | Some g \<Rightarrow> g),
                gm_role_id := (case role_id of None \<Rightarrow> gm_role_id m | Some i \<Rightarrow> i)\<rparr>;
         d1 = d\<lparr>group_mappings := tbl_put gm_id m1 (group_mappings d)\<rparr>
     in Inr (record_audit_event E d1 d1 (Some (u_id actor)) ''sso_group_mapping.update'' (Some ''sso_group_mapping'')
               (Some mapping_id) None)))))"

definition delete_group_mapping :: "env \<Rightarrow> user \<Rightarrow> int \<Rightarrow> db \<Rightarrow> api_error + db" where
  "delete_group_mapping E actor mapping_id d =
     bindE (sso_manager d actor) (\<lambda>_.
     bindE (someE (not_found ''Mapping not found'') (get_mapping d mapping_id)) (\<lambda>m.
     let d1 = d\<lparr>group_mappings := tbl_del gm_id mapping_id (group_mappings d)\<rparr>
     in Inr (record_audit_event E d d1 (Some (u_id actor)) ''sso_group_mapping.delete'' (Some ''sso_group_mapping'')
               (Some mapping_id) None)))"

section \<open>The endpoints as one machine\<close>

datatype sso_op =
    CreateProvider user string string string string string "string option" bool
  | UpdateProvider user int provider_update
  | DeleteProvider user int
  | CreateMapping user int string int
  | UpdateMapping user int "int option" "string option" "int option"
  | DeleteMapping user int

fun sso_op_actor :: "sso_op \<Rightarrow> user" where
  "sso_op_actor (CreateProvider a n i c cs sc g e) = a"
| "sso_op_actor (UpdateProvider a i p) = a"
| "sso_op_actor (DeleteProvider a i) = a"
| "sso_op_actor (CreateMapping a n g r) = a"
| "sso_op_actor (UpdateMapping a i n g r) = a"
| "sso_op_actor (DeleteMapping a i) = a"

fun exec_sso :: "env \<Rightarrow> oidc_env \<Rightarrow> sso_op \<Rightarrow> db \<Rightarrow> api_error + db" where
  "exec_sso E OE (CreateProvider a n i c cs sc g e) d = create_provider E OE a n i c cs sc g e d"
| "exec_sso E OE (UpdateProvider a i p) d = update_provider E OE a i p d"
| "exec_sso E OE (DeleteProvider a i) d = delete_provider E a i d"
| "exec_sso E OE (CreateMapping a n g r) d = create_group_mapping E a n g r d"
| "exec_sso E OE (UpdateMapping a i n g r) d = update_group_mapping E a i n g r d"
| "exec_sso E OE (DeleteMapping a i) d = delete_group_mapping E a i d"

text \<open>Provider ids are unique and at most one provider is enabled.\<close>

definition sso_inv :: "db \<Rightarrow> bool" where
  "sso_inv d \<longleftrightarrow> distinct (map sc_id (sso_configs d)) \<and>
     (\<forall>a \<in> set (sso_configs d). \<forall>b \<in> set (sso_configs d). sc_enabled a \<and> sc_enabled b \<longrightarrow> sc_id a = sc_id b)"

section \<open>What a request changes\<close>

text \<open>What decides who is trusted to vouch for a group: the issuer, the client and the claim read.\<close>

definition trust_of :: "message \<Rightarrow> json option \<times> json option \<times> json option" where
  "trust_of raw = (dict_get ''issuer'' raw, dict_get ''client_id'' raw,
     null_as_none (dict_get ''group_claim'' raw))"

definition mappings_within_authority :: "db \<Rightarrow> role \<Rightarrow> bool" where
  "mappings_within_authority d actor_role \<longleftrightarrow>
     (\<forall>m \<in> set (group_mappings d). \<forall>r. get_role d (gm_role_id m) = Some r \<longrightarrow> role_within_authority actor_role r)"

lemma trust_change_allowed:
  "require_trust_change_within_authority d ar = Inr () \<longleftrightarrow> mappings_within_authority d ar"
  by (auto simp: require_trust_change_within_authority_def mappings_within_authority_def list_all_iff
      role_within_authority_def split: option.split)

lemma dict_get_set_field:
  "dict_get k (set_field k' v raw) = (if k = k' then (case v of None \<Rightarrow> dict_get k raw | Some s \<Rightarrow> Some (JStr s)) else dict_get k raw)"
  by (auto simp: set_field_def dict_get_def update_conv' split: option.split)

lemma same_trust:
  assumes "\<not> changes_trust raw p"
  shows "trust_of (updated_config p raw) = trust_of raw"
proof -
  let ?raw = "set_field ''scopes'' (pu_scopes p) (set_field ''client_secret'' (pu_client_secret p)
    (set_field ''client_id'' (pu_client_id p) (set_field ''issuer'' (pu_issuer p) raw)))"
  have i: "dict_get ''issuer'' ?raw = dict_get ''issuer'' raw" "dict_get ''client_id'' ?raw = dict_get ''client_id'' raw"
    using assms by (auto simp: changes_trust_def dict_get_set_field split: option.split)
  have g: "dict_get ''group_claim'' ?raw = dict_get ''group_claim'' raw" by (simp add: dict_get_set_field)
  show ?thesis
  proof (cases "pu_group_claim p")
    case None
    with i g show ?thesis by (simp add: updated_config_def trust_of_def Let_def)
  next
    case (Some c)
    with assms have "map_option JStr (or_none (Some c)) = null_as_none (dict_get ''group_claim'' raw)"
      by (simp add: changes_trust_def)
    with Some i show ?thesis
      by (cases "c = []") (auto simp: updated_config_def trust_of_def Let_def dict_get_def update_conv' or_none_def null_as_none_def)
  qed
qed

text \<open>How a successful request changes the providers and the mappings.\<close>

inductive sso_step :: "oidc_env \<Rightarrow> role \<Rightarrow> db \<Rightarrow> db \<Rightarrow> bool" for OE ar d d' where
  provider_new: "sso_configs d' = sso_configs d @ [c] \<Longrightarrow> group_mappings d' = group_mappings d \<Longrightarrow> roles d' = roles d \<Longrightarrow>
     sc_id c = tbl_max sc_id (sso_configs d) + 1 \<Longrightarrow>
     (sc_enabled c \<Longrightarrow> \<forall>x \<in> set (sso_configs d). \<not> sc_enabled x) \<Longrightarrow> mappings_within_authority d ar \<Longrightarrow>
     sso_step OE ar d d'"
| provider_change: "sso_configs d' = tbl_put sc_id c1 (sso_configs d) \<Longrightarrow> group_mappings d' = group_mappings d \<Longrightarrow>
     roles d' = roles d \<Longrightarrow> get_provider_row d (sc_id c1) = Some c \<Longrightarrow>
     (sc_enabled c1 \<Longrightarrow> \<not> sc_enabled c \<Longrightarrow> \<forall>x \<in> set (sso_configs d). sc_enabled x \<longrightarrow> sc_id x = sc_id c1) \<Longrightarrow>
     oe_open OE (sc_config c) = Some raw \<Longrightarrow> sc_config c1 = oe_seal OE raw' \<Longrightarrow>
     mappings_within_authority d ar \<or> (trust_of raw' = trust_of raw \<and> (sc_enabled c1 \<longrightarrow> sc_enabled c)) \<Longrightarrow>
     sso_step OE ar d d'"
| provider_gone: "sso_configs d' = tbl_del sc_id i (sso_configs d) \<Longrightarrow> group_mappings d' = group_mappings d \<Longrightarrow>
     roles d' = roles d \<Longrightarrow> sso_step OE ar d d'"
| mapping_new: "group_mappings d' = group_mappings d @ [m] \<Longrightarrow> sso_configs d' = sso_configs d \<Longrightarrow> roles d' = roles d \<Longrightarrow>
     get_role d (gm_role_id m) = Some r \<Longrightarrow> role_within_authority ar r \<Longrightarrow> sso_step OE ar d d'"
| mapping_change: "group_mappings d' = tbl_put gm_id m1 (group_mappings d) \<Longrightarrow> sso_configs d' = sso_configs d \<Longrightarrow>
     roles d' = roles d \<Longrightarrow> get_mapping d (gm_id m1) = Some m \<Longrightarrow>
     (\<And>r. get_role d (gm_role_id m) = Some r \<Longrightarrow> role_within_authority ar r) \<Longrightarrow>
     (\<And>r. get_role d (gm_role_id m1) = Some r \<Longrightarrow> role_within_authority ar r) \<Longrightarrow> sso_step OE ar d d'"
| mapping_gone: "group_mappings d' = tbl_del gm_id i (group_mappings d) \<Longrightarrow> sso_configs d' = sso_configs d \<Longrightarrow>
     roles d' = roles d \<Longrightarrow> sso_step OE ar d d'"

lemma sso_manager_role: "sso_manager d a = Inr r \<Longrightarrow> user_role d a = Inr r"
  by (auto simp: sso_manager_def bindE_Inr_iff)

lemma single_enabled:
  "assert_single_enabled d b i = Inr u \<longleftrightarrow> (b \<longrightarrow> (\<forall>x \<in> set (sso_configs d). sc_enabled x \<longrightarrow> i = Some (sc_id x)))"
  by (auto simp: assert_single_enabled_def find_None_iff)

lemma create_provider_step:
  assumes "create_provider E OE a n i c cs sc g e d = Inr d'" "user_role d a = Inr ar"
  shows "sso_step OE ar d d'"
proof -
  let ?c = "\<lparr>sc_id = tbl_max sc_id (sso_configs d) + 1, sc_protocol = SsoOidc, sc_name = n,
              sc_config = oe_seal OE (provider_config i c cs sc g), sc_enabled = e\<rparr>"
  from assms have "assert_single_enabled d e None = Inr ()" "mappings_within_authority d ar"
    "sso_configs d' = sso_configs d @ [?c]" "group_mappings d' = group_mappings d" "roles d' = roles d"
    by (auto simp: create_provider_def bindE_Inr_iff trust_change_allowed Let_def dest!: sso_manager_role)
  then show ?thesis by (intro provider_new [of d' d ?c]) (auto simp: single_enabled)
qed

lemma update_provider_step:
  assumes "update_provider E OE a i p d = Inr d'" "user_role d a = Inr ar"
  shows "sso_step OE ar d d'"
proof -
  from assms obtain c raw where c: "get_provider_row d i = Some c" "oe_open OE (sc_config c) = Some raw"
    and tr: "changes_trust raw p \<longrightarrow> mappings_within_authority d ar"
    and en: "(case pu_enabled p of None \<Rightarrow> Inr () | Some b \<Rightarrow> assert_single_enabled d b (Some i)) = Inr ()"
    and d': "sso_configs d' = tbl_put sc_id (c\<lparr>sc_enabled := (case pu_enabled p of None \<Rightarrow> sc_enabled c | Some b \<Rightarrow> b),
                sc_name := (case pu_name p of None \<Rightarrow> sc_name c | Some n \<Rightarrow> n),
                sc_config := oe_seal OE (updated_config p raw)\<rparr>) (sso_configs d)"
      "group_mappings d' = group_mappings d" "roles d' = roles d"
    by (auto simp: update_provider_def bindE_Inr_iff trust_change_allowed Let_def dest!: sso_manager_role split: if_splits)
  from c(1) have "sc_id c = i" by (auto dest: tbl_get_Some)
  moreover have "mappings_within_authority d ar \<or> (trust_of (updated_config p raw) = trust_of raw \<and> pu_enabled p \<noteq> Some True)"
  proof (cases "changes_trust raw p")
    case False
    then have "pu_enabled p \<noteq> Some True" by (simp add: changes_trust_def)
    with same_trust [OF False] show ?thesis by simp
  qed (use tr in simp)
  ultimately show ?thesis using c en
    by (intro provider_change [OF d', where c = c and raw = raw and raw' = "updated_config p raw"])
      (auto simp: single_enabled split: option.splits)
qed

lemma mappable: "require_mappable_role d ar i = Inr r \<longleftrightarrow> get_role d i = Some r \<and> role_within_authority ar r"
  by (auto simp: require_mappable_role_def bindE_Inr_iff require_role_within_authority_def)

lemma update_group_mapping_step:
  assumes "update_group_mapping E a i n g rid d = Inr d'" "user_role d a = Inr ar"
  shows "sso_step OE ar d d'"
proof -
  let ?m1 = "\<lambda>m. m\<lparr>gm_order := (case n of None \<Rightarrow> gm_order m | Some n \<Rightarrow> n),
                gm_group_name := (case g of None \<Rightarrow> gm_group_name m | Some g \<Rightarrow> g),
                gm_role_id := (case rid of None \<Rightarrow> gm_role_id m | Some i \<Rightarrow> i)\<rparr>"
  from assms obtain m where m: "get_mapping d i = Some m"
    and cur: "(case get_role d (gm_role_id m) of None \<Rightarrow> Inr () | Some r \<Rightarrow> require_role_within_authority ar r) = Inr ()"
    and new: "(case rid of None \<Rightarrow> Inr () | Some i \<Rightarrow> bindE (require_mappable_role d ar i) (\<lambda>_. Inr ())) = Inr ()"
    and d': "group_mappings d' = tbl_put gm_id (?m1 m) (group_mappings d)" "sso_configs d' = sso_configs d" "roles d' = roles d"
    by (auto simp: update_group_mapping_def bindE_Inr_iff Let_def dest!: sso_manager_role)
  from m have "gm_id m = i" by (auto dest: tbl_get_Some)
  with m cur new show ?thesis
    by (intro mapping_change [OF d', where m = m])
      (auto simp: bindE_Inr_iff mappable require_role_within_authority_def split: option.splits)
qed

lemma exec_sso_step:
  assumes "exec_sso E OE op d = Inr d'" "user_role d (sso_op_actor op) = Inr ar"
  shows "sso_step OE ar d d'"
proof (cases op)
  case (CreateMapping a n g i)
  let ?m = "\<lparr>gm_id = tbl_max gm_id (group_mappings d) + 1, gm_order = n, gm_group_name = g, gm_role_id = i\<rparr>"
  from CreateMapping assms obtain r where "get_role d i = Some r" "role_within_authority ar r"
    "group_mappings d' = group_mappings d @ [?m]" "sso_configs d' = sso_configs d" "roles d' = roles d"
    by (auto simp: create_group_mapping_def bindE_Inr_iff mappable Let_def dest!: sso_manager_role)
  then show ?thesis by (intro mapping_new [of d' d ?m r]) auto
qed (use assms in \<open>auto simp: delete_provider_def delete_group_mapping_def bindE_Inr_iff Let_def
       intro: create_provider_step update_provider_step update_group_mapping_step provider_gone mapping_gone\<close>)

lemma exec_sso_has_role:
  "exec_sso E OE op d = Inr d' \<Longrightarrow> \<exists>r. user_role d (sso_op_actor op) = Inr r"
  by (cases op)
    (auto simp: create_provider_def update_provider_def delete_provider_def create_group_mapping_def
      update_group_mapping_def delete_group_mapping_def bindE_Inr_iff dest!: sso_manager_role)

lemma sso_invI:
  assumes "distinct (map sc_id (sso_configs d))"
    and "\<And>x y. x \<in> set (sso_configs d) \<Longrightarrow> y \<in> set (sso_configs d) \<Longrightarrow> sc_enabled x \<Longrightarrow> sc_enabled y \<Longrightarrow> sc_id x = sc_id y"
  shows "sso_inv d"
  using assms unfolding sso_inv_def by blast

lemma sso_invD:
  assumes "sso_inv d"
  shows "distinct (map sc_id (sso_configs d))"
    and "x \<in> set (sso_configs d) \<Longrightarrow> y \<in> set (sso_configs d) \<Longrightarrow> sc_enabled x \<Longrightarrow> sc_enabled y \<Longrightarrow> sc_id x = sc_id y"
  using assms unfolding sso_inv_def by blast+

lemma sso_inv_cong: "sso_configs d' = sso_configs d \<Longrightarrow> sso_inv d \<Longrightarrow> sso_inv d'"
  unfolding sso_inv_def by (erule ssubst)

lemma sso_step_inv:
  assumes "sso_step OE ar d d'" "sso_inv d"
  shows "sso_inv d'"
  using assms(1)
proof cases
  case (provider_new c)
  have "sc_id c \<notin> sc_id ` set (sso_configs d)"
    using provider_new(4) tbl_max_ge [of _ "sso_configs d" sc_id] by force
  then have "distinct (map sc_id (sso_configs d'))" using sso_invD(1) [OF assms(2)] provider_new(1) by simp
  moreover have "sc_id x = sc_id y" if "x \<in> set (sso_configs d')" "y \<in> set (sso_configs d')" "sc_enabled x" "sc_enabled y" for x y
  proof (cases "x = c")
    case True
    with that provider_new(1,5) have "y = c" by auto
    with True show ?thesis by simp
  next
    case False
    with that provider_new(1,5) have "x \<in> set (sso_configs d)" "y \<in> set (sso_configs d)" by auto
    with sso_invD(2) [OF assms(2)] that show ?thesis by blast
  qed
  ultimately show ?thesis by (rule sso_invI)
next
  case (provider_change c1 c raw raw')
  have sub: "x \<in> set (sso_configs d) \<or> x = c1" if "x \<in> set (sso_configs d')" for x
    using that provider_change(1) by (auto simp: tbl_put_def split: if_splits)
  have c: "c \<in> set (sso_configs d)" "sc_id c = sc_id c1" using provider_change(4) by (auto dest: tbl_get_Some)
  have alone: "sc_id x = sc_id c1" if "sc_enabled c1" "x \<in> set (sso_configs d)" "sc_enabled x" for x
  proof (cases "sc_enabled c")
    case True
    with sso_invD(2) [OF assms(2) that(2) c(1)] that c(2) show ?thesis by simp
  next
    case False
    with provider_change(5) that show ?thesis by blast
  qed
  show ?thesis
  proof (rule sso_invI)
    show "distinct (map sc_id (sso_configs d'))" using sso_invD(1) [OF assms(2)] provider_change(1) by simp
    show "sc_id x = sc_id y" if "x \<in> set (sso_configs d')" "y \<in> set (sso_configs d')" "sc_enabled x" "sc_enabled y" for x y
      using sub [OF that(1)] sub [OF that(2)]
    proof (elim disjE)
      assume "x \<in> set (sso_configs d)" "y \<in> set (sso_configs d)"
      with sso_invD(2) [OF assms(2)] that show ?thesis by blast
    qed (use that alone [of x] alone [of y] in simp_all)
  qed
next
  case (provider_gone i)
  then have "sso_configs d' = filter (\<lambda>r. sc_id r \<noteq> i) (sso_configs d)" by (simp add: tbl_del_def)
  with sso_invD [OF assms(2)] show ?thesis by (intro sso_invI) (auto simp: distinct_map_filter)
qed (rule sso_inv_cong [OF _ assms(2)], assumption)+

interpretation sso: guarded_machine "exec_sso E OE" sso_inv for E OE
proof
  fix s s' and x :: sso_op
  assume "sso_inv s" "exec_sso E OE x s = Inr s'"
  then show "sso_inv s'" by (metis sso_step_inv exec_sso_step exec_sso_has_role)
qed

section \<open>Properties\<close>

text \<open>
  No escalation through a group mapping: a mapping that a successful request created or changed
  gives a role within the authority of the actor's own role, so nobody can hand out through a group
  what they could not assign directly.
\<close>

theorem changed_mappings_within_authority:
  assumes "exec_sso E OE op d = Inr d'" "user_role d (sso_op_actor op) = Inr actor_role"
    and "m \<in> set (group_mappings d')" "m \<notin> set (group_mappings d)" "get_role d' (gm_role_id m) = Some r"
  shows "role_within_authority actor_role r"
  using exec_sso_step [OF assms(1,2)]
proof cases
  case (mapping_new m1 r1)
  with assms(3-5) show ?thesis by auto
next
  case (mapping_change m1 m0)
  from assms(3,4) mapping_change(1) have "m = m1" by (auto simp: tbl_put_def split: if_splits)
  with mapping_change(3,6) assms(5) show ?thesis by simp
qed (use assms(3,4) in \<open>auto simp: tbl_del_def\<close>)

text \<open>
  C24: Who vouches for a group changes only within authority: after a successful request, an enabled
  provider either already stood there enabled with the same issuer, the same client and the same
  group claim, or every role that some group mapping grants is within the authority of the actor's
  role. The hypothesis is that opening a sealed configuration gives nothing but what was sealed.
\<close>

theorem trusted_provider_changes_within_authority:
  assumes "exec_sso E OE op d = Inr d'" "user_role d (sso_op_actor op) = Inr actor_role"
    and "\<And>raw x. oe_open OE (oe_seal OE raw) = Some x \<Longrightarrow> x = raw"
    and "p \<in> set (sso_configs d')" "sc_enabled p" "oe_open OE (sc_config p) = Some raw"
    and "m \<in> set (group_mappings d)" "get_role d (gm_role_id m) = Some r"
  shows "role_within_authority actor_role r \<or>
    (\<exists>p0 \<in> set (sso_configs d). \<exists>raw0. sc_id p0 = sc_id p \<and> sc_enabled p0 \<and>
       oe_open OE (sc_config p0) = Some raw0 \<and> trust_of raw = trust_of raw0)"
  using exec_sso_step [OF assms(1,2)]
proof cases
  case (provider_change c1 c raw1 raw')
  show ?thesis
  proof (cases "p = c1 \<and> \<not> mappings_within_authority d actor_role")
    case True
    with provider_change(7) assms(3,6) have "raw = raw'" by simp
    moreover have "c \<in> set (sso_configs d)" "sc_id c = sc_id c1" using provider_change(4) by (auto dest: tbl_get_Some)
    ultimately show ?thesis using True provider_change(6,8) assms(5) by blast
  next
    case False
    then show ?thesis using assms(4-8) provider_change(1)
      by (auto simp: mappings_within_authority_def tbl_put_def split: if_splits)
  qed
qed (use assms(4-8) in \<open>auto simp: mappings_within_authority_def tbl_del_def\<close>)

text \<open>
  One identity provider at a time: whatever sequence of requests is made, by anyone, at most one
  provider is enabled, so the one a login uses is determined.
\<close>

theorem at_most_one_provider_enabled:
  assumes "sso_inv d" "p \<in> set (sso_configs (sso.run_ops E OE ops d))" "sc_enabled p"
  shows "get_enabled_provider (sso.run_ops E OE ops d) = Some p"
proof -
  let ?d = "sso.run_ops E OE ops d"
  have inv: "sso_inv ?d" by (rule sso.run_inv [OF assms(1)])
  obtain q where q: "get_enabled_provider ?d = Some q"
    using assms(2,3) by (cases "get_enabled_provider ?d") (auto simp: get_enabled_provider_def find_None_iff)
  then have q': "q \<in> set (sso_configs ?d)" "sc_enabled q" unfolding get_enabled_provider_def by (auto dest: found)
  from sso_invD(2) [OF inv q'(1) assms(2) q'(2) assms(3)] sso_invD(1) [OF inv] q'(1) assms(2) have "q = p"
    by (metis distinct_map inj_onD)
  with q show ?thesis by simp
qed

section \<open>Witnesses\<close>

definition sso_admin_role :: role where
  "sso_admin_role = \<lparr>ro_id = 6, ro_name = ''sso'', ro_is_builtin = False, ro_is_super_admin = False,
                     ro_global_capabilities = [ManageUsers, ManageSso]\<rparr>"

definition sso_admin :: user where
  "sso_admin = operator\<lparr>u_id := 6, u_username := ''ada'', u_role_id := 6\<rparr>"

definition sso_db :: db where
  "sso_db = idp_db\<lparr>roles := [root_role, operator_role, sso_admin_role], users := [root_user, operator, sso_admin]\<rparr>"

lemma sso_db_facts:
  "sso_manager sso_db sso_admin = Inr sso_admin_role" "user_role sso_db sso_admin = Inr sso_admin_role"
  "require_mappable_role sso_db sso_admin_role 5 = Inr operator_role" "get_role sso_db 5 = Some operator_role"
  "require_trust_change_within_authority sso_db sso_admin_role = Inr ()"
  by code_simp+

theorem changed_mappings_within_authority_witness:
  "\<exists>d' m. exec_sso length_env sample_idp (CreateMapping sso_admin 1 ''ops'' 5) sso_db = Inr d' \<and>
     m \<in> set (group_mappings d') \<and> m \<notin> set (group_mappings sso_db) \<and> gm_role_id m = 5 \<and>
     role_within_authority sso_admin_role operator_role"
proof -
  let ?m = "\<lparr>gm_id = 2, gm_order = 1, gm_group_name = ''ops'', gm_role_id = 5\<rparr>"
  have new: "tbl_max gm_id (group_mappings sso_db) = 1" "?m \<notin> set (group_mappings sso_db)" by code_simp+
  obtain d' where d': "exec_sso length_env sample_idp (CreateMapping sso_admin 1 ''ops'' 5) sso_db = Inr d'"
    "group_mappings d' = group_mappings sso_db @ [?m]" "roles d' = roles sso_db"
    using sso_db_facts new(1) by (simp add: create_group_mapping_def Let_def)
  have "user_role sso_db (sso_op_actor (CreateMapping sso_admin 1 ''ops'' 5)) = Inr sso_admin_role"
    using sso_db_facts by simp
  from changed_mappings_within_authority [OF d'(1) this, of ?m operator_role] d' new(2) sso_db_facts(4)
  have "role_within_authority sso_admin_role operator_role" by simp
  with d' new(2) show ?thesis by (intro exI [of _ d'] exI [of _ ?m]) simp
qed

theorem trusted_provider_changes_within_authority_witness:
  "\<exists>d' p. exec_sso length_env sample_idp (CreateMapping sso_admin 1 ''ops'' 5) sso_db = Inr d' \<and>
     p \<in> set (sso_configs d') \<and> sc_enabled p \<and>
     (role_within_authority sso_admin_role operator_role \<or>
      (\<exists>p0 \<in> set (sso_configs sso_db). \<exists>raw0. sc_id p0 = sc_id p \<and> sc_enabled p0 \<and>
         oe_open sample_idp (sc_config p0) = Some raw0 \<and> trust_of idp_config = trust_of raw0))"
proof -
  let ?p = "\<lparr>sc_id = 1, sc_protocol = SsoOidc, sc_name = ''idp'', sc_config = ''A'', sc_enabled = True\<rparr>"
  let ?m = "\<lparr>gm_id = 1, gm_order = 0, gm_group_name = ''eng'', gm_role_id = 5\<rparr>"
  obtain d' where d': "exec_sso length_env sample_idp (CreateMapping sso_admin 1 ''ops'' 5) sso_db = Inr d'"
    "sso_configs d' = sso_configs sso_db"
    using sso_db_facts by (simp add: create_group_mapping_def Let_def)
  have p: "?p \<in> set (sso_configs sso_db)" "sc_enabled ?p" "oe_open sample_idp (sc_config ?p) = Some idp_config"
    "?m \<in> set (group_mappings sso_db)" by code_simp+
  have u: "user_role sso_db (sso_op_actor (CreateMapping sso_admin 1 ''ops'' 5)) = Inr sso_admin_role"
    using sso_db_facts by simp
  have o: "\<And>raw x. oe_open sample_idp (oe_seal sample_idp raw) = Some x \<Longrightarrow> x = raw"
    by (auto simp: sample_idp_def split: if_splits)
  have "role_within_authority sso_admin_role operator_role \<or>
      (\<exists>p0 \<in> set (sso_configs sso_db). \<exists>raw0. sc_id p0 = sc_id ?p \<and> sc_enabled p0 \<and>
         oe_open sample_idp (sc_config p0) = Some raw0 \<and> trust_of idp_config = trust_of raw0)"
    by (rule trusted_provider_changes_within_authority [OF d'(1) u o _ p(2,3,4)])
      (use d'(2) p sso_db_facts in simp_all)
  with d' p show ?thesis by (intro exI [of _ d'] exI [of _ ?p]) simp
qed

theorem at_most_one_provider_enabled_witness:
  "get_enabled_provider (sso.run_ops length_env sample_idp
      [CreateProvider sso_admin ''two'' ''https://other'' ''c'' ''s'' ''openid'' None True] sso_db) =
   Some \<lparr>sc_id = 1, sc_protocol = SsoOidc, sc_name = ''idp'', sc_config = ''A'', sc_enabled = True\<rparr>"
proof (rule at_most_one_provider_enabled)
  show "sso_inv sso_db" by code_simp
  have "assert_single_enabled sso_db True None = Inl (conflict ''Another SSO provider is already enabled: disable it first'')"
    by code_simp
  then have "sso.run_ops length_env sample_idp
      [CreateProvider sso_admin ''two'' ''https://other'' ''c'' ''s'' ''openid'' None True] sso_db = sso_db"
    using sso_db_facts by (simp add: create_provider_def)
  moreover have "\<lparr>sc_id = 1, sc_protocol = SsoOidc, sc_name = ''idp'', sc_config = ''A'', sc_enabled = True\<rparr>
      \<in> set (sso_configs sso_db)" by code_simp
  ultimately show "\<lparr>sc_id = 1, sc_protocol = SsoOidc, sc_name = ''idp'', sc_config = ''A'', sc_enabled = True\<rparr>
      \<in> set (sso_configs (sso.run_ops length_env sample_idp
      [CreateProvider sso_admin ''two'' ''https://other'' ''c'' ''s'' ''openid'' None True] sso_db))" by simp
qed simp

text \<open>
  Deleting a mapping is not held to the actor's authority, and the last match decides: an actor who may
  assign neither role raises a group from a harmless role to the super-admin one by deleting the
  mapping that comes after.
\<close>

definition masked_db :: db where
  "masked_db = sso_db\<lparr>group_mappings := [\<lparr>gm_id = 1, gm_order = 0, gm_group_name = ''eng'', gm_role_id = 1\<rparr>,
     \<lparr>gm_id = 2, gm_order = 1, gm_group_name = ''eng'', gm_role_id = 5\<rparr>]\<rparr>"

theorem deleting_a_mapping_raises_a_group:
  "\<exists>d'. delete_group_mapping length_env sso_admin 2 masked_db = Inr d' \<and>
     resolve_group_mapped_role_id masked_db [''eng''] = Some 5 \<and> resolve_group_mapped_role_id d' [''eng''] = Some 1 \<and>
     get_role d' 1 = Some root_role \<and> \<not> role_within_authority sso_admin_role root_role"
proof -
  let ?d = "masked_db\<lparr>group_mappings := tbl_del gm_id 2 (group_mappings masked_db)\<rparr>"
  obtain m where "sso_manager masked_db sso_admin = Inr sso_admin_role" "get_mapping masked_db 2 = Some m"
  proof
    show "get_mapping masked_db 2 = Some \<lparr>gm_id = 2, gm_order = 1, gm_group_name = ''eng'', gm_role_id = 5\<rparr>" by code_simp
  qed code_simp
  then obtain d' where d': "delete_group_mapping length_env sso_admin 2 masked_db = Inr d'"
    "group_mappings d' = group_mappings ?d" "roles d' = roles ?d"
    by (simp add: delete_group_mapping_def Let_def)
  moreover have "resolve_group_mapped_role_id masked_db [''eng''] = Some 5" "get_role ?d 1 = Some root_role"
    "resolve_group_mapped_role_id ?d [''eng''] = Some 1" "\<not> role_within_authority sso_admin_role root_role" by code_simp+
  ultimately show ?thesis by (simp add: resolve_group_mapped_role_id_def)
qed

end
