(* ===== verification/AgentRegistry.thy ===== *)
theory AgentRegistry
  imports Json "HOL-Library.AList" "HOL-Library.Sublist"
begin

text \<open>
  \<open>app/agent_registry.py\<close>: the live connections of push agents and the commands in flight on them.
  A connection object outlives its registration (a waiting command still holds it), so the objects
  are a heap and the registry maps a source to the index of its object. Each operation is one step
  of the event loop; the write of a chunk, which the code awaits, is one step with its outcome
  \<open>write_ok\<close>. A file being received is the list of the byte strings written to it.
\<close>

section \<open>State\<close>

datatype agent_error =
    AgentNotConnectedError string
  | AgentTimeoutError string
  | AgentCommandError string "string option" "int option"
  | AgentError string

datatype future = Waiting | Result message | Raised agent_error

record stream =
  sk_sink :: "string list"
  sk_limit :: "int option"
  sk_next_seq :: int
  sk_written :: int
  sk_last_activity :: int

record connection =
  cn_websocket :: nat
  cn_pending :: "(string \<times> future) list"
  cn_streams :: "(string \<times> stream) list"

record registry =
  rg_objects :: "connection list"
  rg_connections :: "(int \<times> nat) list"

definition empty_registry :: registry where
  "empty_registry = \<lparr>rg_objects = [], rg_connections = []\<rparr>"

section \<open>Values of a message\<close>

definition get_as_int :: "string \<Rightarrow> message \<Rightarrow> int option" where
  "get_as_int k m = (case dict_get k m of None \<Rightarrow> None | Some v \<Rightarrow> as_int v)"

text \<open>\<open>message.get("id", "")\<close> as a key of a dictionary: a list or a dict is not hashable, another
  value that is not a string is no key of the table.\<close>

datatype receive_error = ReceiveTypeError | ReceiveAttributeError

definition request_key :: "message \<Rightarrow> receive_error + string option" where
  "request_key m =
     (case dict_get ''id'' m of None \<Rightarrow> Inr (Some '''') | Some (JStr s) \<Rightarrow> Inr (Some s)
      | Some (JList l) \<Rightarrow> Inl ReceiveTypeError | Some (JObj l) \<Rightarrow> Inl ReceiveTypeError | Some v \<Rightarrow> Inr None)"

section \<open>Base64\<close>

definition b64_value :: "char \<Rightarrow> int option" where
  "b64_value c =
     (let n = of_char c :: int in
      if 65 \<le> n \<and> n \<le> 90 then Some (n - 65)
      else if 97 \<le> n \<and> n \<le> 122 then Some (n - 71)
      else if 48 \<le> n \<and> n \<le> 57 then Some (n + 4)
      else if n = 43 then Some 62 else if n = 47 then Some 63 else None)"

definition b64_group :: "int \<Rightarrow> int \<Rightarrow> int \<Rightarrow> int \<Rightarrow> string" where
  "b64_group a b c d =
     (let n = ((a * 64 + b) * 64 + c) * 64 + d
      in [char_of (n div 65536), char_of (n div 256 mod 256), char_of (n mod 256)])"

text \<open>\<open>base64.b64decode(s, validate=True)\<close>: groups of four, padding only at the very end.\<close>

fun b64decode :: "string \<Rightarrow> string option" where
  "b64decode [] = Some []"
| "b64decode (a # b # c # d # s) =
     (case (b64_value a, b64_value b) of
        (Some x, Some y) \<Rightarrow>
          if d = CHR ''='' \<and> s = [] then
            (if c = CHR ''='' then Some (take 1 (b64_group x y 0 0))
             else map_option (\<lambda>z. take 2 (b64_group x y z 0)) (b64_value c))
          else
            (case (b64_value c, b64_value d, b64decode s) of
               (Some z, Some w, Some t) \<Rightarrow> Some (b64_group x y z w @ t)
             | _ \<Rightarrow> None)
      | _ \<Rightarrow> None)"
| "b64decode _ = None"

section \<open>Connecting and disconnecting\<close>

definition fail_pending :: "string \<Rightarrow> connection \<Rightarrow> connection" where
  "fail_pending reason c =
     c\<lparr>cn_pending := map (\<lambda>(i, f). (i, if f = Waiting then Raised (AgentNotConnectedError reason) else f)) (cn_pending c)\<rparr>"

definition is_connected :: "int \<Rightarrow> registry \<Rightarrow> bool" where
  "is_connected source_id r \<longleftrightarrow> map_of (rg_connections r) source_id \<noteq> None"

definition connected_count :: "registry \<Rightarrow> nat" where
  "connected_count r = length (rg_connections r)"

definition update_object :: "nat \<Rightarrow> (connection \<Rightarrow> connection) \<Rightarrow> registry \<Rightarrow> registry" where
  "update_object obj f r = r\<lparr>rg_objects := (rg_objects r)[obj := f (rg_objects r ! obj)]\<rparr>"

definition register :: "int \<Rightarrow> nat \<Rightarrow> registry \<Rightarrow> nat option \<times> registry" where
  "register source_id websocket r =
     (let replaced = map_of (rg_connections r) source_id;
          r1 = r\<lparr>rg_objects := rg_objects r @ [\<lparr>cn_websocket = websocket, cn_pending = [], cn_streams = []\<rparr>],
                 rg_connections := AList.update source_id (length (rg_objects r)) (rg_connections r)\<rparr>
      in case replaced of
           None \<Rightarrow> (None, r1)
         | Some obj \<Rightarrow> (Some obj, update_object obj (fail_pending ''agent connection replaced by a newer one'') r1))"

text \<open>The registered connection of a source, unless the message or the end of a loop comes from
  another socket than the registered one.\<close>

definition current_connection :: "int \<Rightarrow> nat option \<Rightarrow> registry \<Rightarrow> nat option" where
  "current_connection source_id websocket r =
     (case map_of (rg_connections r) source_id of
        None \<Rightarrow> None
      | Some obj \<Rightarrow>
          (case websocket of
             None \<Rightarrow> Some obj
           | Some w \<Rightarrow> if cn_websocket (rg_objects r ! obj) \<noteq> w then None else Some obj))"

definition unregister :: "int \<Rightarrow> nat option \<Rightarrow> registry \<Rightarrow> registry" where
  "unregister source_id websocket r =
     (case current_connection source_id websocket r of
        None \<Rightarrow> r
      | Some obj \<Rightarrow>
          update_object obj (fail_pending ''agent disconnected'')
            (r\<lparr>rg_connections := AList.delete source_id (rg_connections r)\<rparr>))"

section \<open>Messages from the agent\<close>

definition set_future :: "string \<Rightarrow> future \<Rightarrow> connection \<Rightarrow> connection" where
  "set_future i f c = c\<lparr>cn_pending := AList.update i f (cn_pending c)\<rparr>"

text \<open>The future of the request a message names, if it is still waiting.\<close>

definition waiting_request :: "message \<Rightarrow> connection \<Rightarrow> receive_error + string option" where
  "waiting_request m c =
     bindE (request_key m) (\<lambda>key.
     Inr (case key of None \<Rightarrow> None | Some i \<Rightarrow> if map_of (cn_pending c) i = Some Waiting then Some i else None))"

definition response_error :: "(json \<Rightarrow> string) \<Rightarrow> message \<Rightarrow> agent_error" where
  "response_error repr m =
     AgentCommandError
       (case dict_get ''error'' m of None \<Rightarrow> ''agent command failed'' | Some v \<Rightarrow> py_str repr v)
       (case dict_get ''code'' m of Some (JStr s) \<Rightarrow> Some s | _ \<Rightarrow> None)
       (get_as_int ''size'' m)"

definition message_type :: "message \<Rightarrow> receive_error + string" where
  "message_type m =
     (case dict_get ''type'' m of None \<Rightarrow> Inr '''' | Some (JStr t) \<Rightarrow> Inr t | Some v \<Rightarrow> Inl ReceiveAttributeError)"

definition stream_complete :: "message \<Rightarrow> stream \<Rightarrow> bool" where
  "stream_complete m st \<longleftrightarrow>
     get_as_int ''chunks'' m = Some (sk_next_seq st) \<and> get_as_int ''size'' m = Some (sk_written st)"

definition response_future :: "(json \<Rightarrow> string) \<Rightarrow> message \<Rightarrow> string \<Rightarrow> stream option \<Rightarrow> future" where
  "response_future repr m t stream =
     (if suffix ''_error'' t then Raised (response_error repr m)
      else
        (case stream of
           None \<Rightarrow> Result m
         | Some st \<Rightarrow>
             if json_truthy (dict_get ''streamed'' m) \<and> \<not> stream_complete m st
             then Raised (AgentError ''agent's streamed fetch ended incomplete'')
             else Result m))"

definition resolve_response ::
  "(json \<Rightarrow> string) \<Rightarrow> int \<Rightarrow> message \<Rightarrow> nat option \<Rightarrow> registry \<Rightarrow> receive_error + registry" where
  "resolve_response repr source_id m websocket r =
     (case current_connection source_id websocket r of
        None \<Rightarrow> Inr r
      | Some obj \<Rightarrow>
          let c = rg_objects r ! obj in
          bindE (waiting_request m c) (\<lambda>waiting.
          case waiting of
            None \<Rightarrow> Inr r
          | Some i \<Rightarrow>
              bindE (message_type m) (\<lambda>t.
              Inr (update_object obj (set_future i (response_future repr m t (map_of (cn_streams c) i))) r))))"

definition add_chunk :: "string \<Rightarrow> int \<Rightarrow> stream \<Rightarrow> stream" where
  "add_chunk data now st =
     st\<lparr>sk_sink := sk_sink st @ [data], sk_written := sk_written st + int (length data),
        sk_next_seq := sk_next_seq st + 1, sk_last_activity := now\<rparr>"

text \<open>What becomes of a chunk of a stream: its data is written, or the command fails. \<open>write_error\<close> is
  \<open>None\<close> when the write succeeds, else the text of its error.\<close>

definition chunk_outcome ::
  "(json \<Rightarrow> string) \<Rightarrow> message \<Rightarrow> string option \<Rightarrow> stream \<Rightarrow> agent_error + string" where
  "chunk_outcome repr m write_error st =
     bindE (requireE (get_as_int ''seq'' m = Some (sk_next_seq st)) (AgentError ''agent sent fetch chunks out of order'')) (\<lambda>_.
     bindE (someE (AgentError ''agent sent an invalid fetch chunk'')
              (b64decode (case dict_get ''data_b64'' m of None \<Rightarrow> '''' | Some v \<Rightarrow> py_str repr v))) (\<lambda>data.
     let total = sk_written st + int (length data) in
     bindE (requireE (case sk_limit st of None \<Rightarrow> True | Some l \<Rightarrow> total \<le> l)
              (AgentCommandError ''file is over the fetch limit'' (Some ''too_large'') (Some total))) (\<lambda>_.
     case write_error of
       Some e \<Rightarrow> Inl (AgentError (''could not write the fetched file: '' @ e))
     | None \<Rightarrow> Inr data)))"

definition receive_chunk ::
  "(json \<Rightarrow> string) \<Rightarrow> int \<Rightarrow> message \<Rightarrow> nat option \<Rightarrow> string option \<Rightarrow> int \<Rightarrow> registry \<Rightarrow> receive_error + registry" where
  "receive_chunk repr source_id m websocket write_error now r =
     (case current_connection source_id websocket r of
        None \<Rightarrow> Inr r
      | Some obj \<Rightarrow>
          let c = rg_objects r ! obj in
          bindE (waiting_request m c) (\<lambda>waiting.
          case waiting of
            None \<Rightarrow> Inr r
          | Some i \<Rightarrow>
              (case map_of (cn_streams c) i of
                 None \<Rightarrow> Inr r
               | Some st \<Rightarrow>
                   Inr (case chunk_outcome repr m write_error st of
                          Inl e \<Rightarrow> update_object obj (set_future i (Raised e)) r
                        | Inr data \<Rightarrow>
                            update_object obj
                              (\<lambda>c. c\<lparr>cn_streams := AList.update i (add_chunk data now st) (cn_streams c)\<rparr>) r))))"

section \<open>Commands\<close>

text \<open>\<open>_send_command\<close> up to the first await: \<open>sink\<close> is the byte limit of a streamed fetch.\<close>

definition begin_command ::
  "int \<Rightarrow> string \<Rightarrow> int option option \<Rightarrow> int \<Rightarrow> registry \<Rightarrow> agent_error + registry" where
  "begin_command source_id request_id sink now r =
     (case map_of (rg_connections r) source_id of
        None \<Rightarrow> Inl (AgentNotConnectedError (''no agent connected for source '' @ show_int source_id))
      | Some obj \<Rightarrow>
          Inr (update_object obj
            (\<lambda>c. c\<lparr>cn_pending := AList.update request_id Waiting (cn_pending c),
                    cn_streams := (case sink of None \<Rightarrow> cn_streams c
                      | Some l \<Rightarrow> AList.update request_id
                          \<lparr>sk_sink = [], sk_limit = l, sk_next_seq = 0, sk_written = 0, sk_last_activity = now\<rparr>
                          (cn_streams c))\<rparr>) r))"

text \<open>The end of the wait: the future's outcome, or a timeout when it is still waiting. A plain command
  is due at its start plus the timeout, a streamed one when no chunk came for that long; before that
  the wait goes on (\<open>None\<close>). Whatever the outcome, the request is forgotten.\<close>

definition end_command ::
  "int \<Rightarrow> nat \<Rightarrow> string \<Rightarrow> int \<Rightarrow> int \<Rightarrow> int \<Rightarrow> registry \<Rightarrow> ((agent_error + message) \<times> bool \<times> registry) option" where
  "end_command source_id obj request_id begun timeout now r =
     (let c = rg_objects r ! obj;
          st = map_of (cn_streams c) request_id;
          done = (\<lambda>out. Some (out, st \<noteq> None \<and> isl out,
            update_object obj (\<lambda>c. c\<lparr>cn_pending := AList.delete request_id (cn_pending c),
                                     cn_streams := AList.delete request_id (cn_streams c)\<rparr>) r))
      in case map_of (cn_pending c) request_id of
           None \<Rightarrow> None
         | Some (Result m) \<Rightarrow> done (Inr m)
         | Some (Raised e) \<Rightarrow> done (Inl e)
         | Some Waiting \<Rightarrow>
             (case st of
                None \<Rightarrow>
                  if begun + timeout \<le> now
                  then done (Inl (AgentTimeoutError (''agent for source '' @ show_int source_id @ '' did not respond in time'')))
                  else None
              | Some s \<Rightarrow>
                  if sk_last_activity s + timeout - now \<le> 0
                  then done (Inl (AgentTimeoutError (''agent for source '' @ show_int source_id @ '' stopped sending the file'')))
                  else None))"

section \<open>The registry as a machine\<close>

datatype agent_op =
    Register int nat
  | Unregister int "nat option"
  | Respond int message "nat option"
  | Chunk int message "nat option" "string option" int
  | Begin int string "int option option" int
  | End int nat string int int int

datatype agent_failure = ReceiveFailed receive_error | CommandFailed agent_error | StillWaiting

fun exec_agent :: "(json \<Rightarrow> string) \<Rightarrow> agent_op \<Rightarrow> registry \<Rightarrow> agent_failure + registry" where
  "exec_agent repr (Register source_id w) r = Inr (snd (register source_id w r))"
| "exec_agent repr (Unregister source_id w) r = Inr (unregister source_id w r)"
| "exec_agent repr (Respond source_id m w) r = map_sum ReceiveFailed id (resolve_response repr source_id m w r)"
| "exec_agent repr (Chunk source_id m w err now) r =
     map_sum ReceiveFailed id (receive_chunk repr source_id m w err now r)"
| "exec_agent repr (Begin source_id i sink now) r = map_sum CommandFailed id (begin_command source_id i sink now r)"
| "exec_agent repr (End source_id obj i begun timeout now) r =
     (case end_command source_id obj i begun timeout now r of None \<Rightarrow> Inl StillWaiting | Some (out, cancel, r') \<Rightarrow> Inr r')"

text \<open>A stream's counters describe the file written so far.\<close>

definition stream_ok :: "stream \<Rightarrow> bool" where
  "stream_ok st \<longleftrightarrow> sk_next_seq st = int (length (sk_sink st)) \<and>
     sk_written st = int (length (concat (sk_sink st))) \<and>
     (sk_sink st = [] \<or> (case sk_limit st of None \<Rightarrow> True | Some l \<Rightarrow> sk_written st \<le> l))"

definition connection_ok :: "connection \<Rightarrow> bool" where
  "connection_ok c \<longleftrightarrow> (\<forall>i st. map_of (cn_streams c) i = Some st \<longrightarrow> stream_ok st \<and>
     (\<forall>m. map_of (cn_pending c) i = Some (Result m) \<longrightarrow> json_truthy (dict_get ''streamed'' m) \<longrightarrow> stream_complete m st))"

definition settled :: "connection \<Rightarrow> bool" where
  "settled c \<longleftrightarrow> (\<forall>i. map_of (cn_pending c) i \<noteq> Some Waiting)"

definition registry_inv :: "registry \<Rightarrow> bool" where
  "registry_inv r \<longleftrightarrow>
     distinct (map fst (rg_connections r)) \<and> distinct (map snd (rg_connections r)) \<and>
     (\<forall>(s, obj) \<in> set (rg_connections r). obj < length (rg_objects r)) \<and>
     (\<forall>c \<in> set (rg_objects r). connection_ok c) \<and>
     (\<forall>obj < length (rg_objects r). obj \<notin> snd ` set (rg_connections r) \<longrightarrow> settled (rg_objects r ! obj))"

lemma update_object_simps [simp]:
  "rg_connections (update_object obj f r) = rg_connections r"
  "length (rg_objects (update_object obj f r)) = length (rg_objects r)"
  by (simp_all add: update_object_def)

lemma update_object_inv:
  assumes "registry_inv r" "connection_ok (rg_objects r ! obj) \<Longrightarrow> connection_ok (f (rg_objects r ! obj))"
    and "obj < length (rg_objects r)"
    and "obj \<in> snd ` set (rg_connections r) \<or> (settled (rg_objects r ! obj) \<longrightarrow> settled (f (rg_objects r ! obj)))"
  shows "registry_inv (update_object obj f r)"
proof -
  have "connection_ok (f (rg_objects r ! obj))" using assms(1-3) by (auto simp: registry_inv_def)
  then show ?thesis
    using assms(1,3,4)
    by (auto simp: registry_inv_def update_object_def nth_list_update dest!: subsetD [OF set_update_subset_insert])
qed

lemma current_registered:
  "current_connection source_id w r = Some obj \<Longrightarrow> map_of (rg_connections r) source_id = Some obj"
  by (auto simp: current_connection_def split: option.splits if_splits)

lemma registered_obj:
  "registry_inv r \<Longrightarrow> map_of (rg_connections r) s = Some obj \<Longrightarrow>
   obj < length (rg_objects r) \<and> obj \<in> snd ` set (rg_connections r)"
  by (force simp: registry_inv_def dest: map_of_SomeD)

lemma fail_pending_map: "map_of (cn_pending (fail_pending reason c)) i =
   map_option (\<lambda>f. if f = Waiting then Raised (AgentNotConnectedError reason) else f) (map_of (cn_pending c) i)"
  by (simp add: fail_pending_def map_of_map)

lemma fail_pending_settled: "settled (fail_pending reason c)"
  by (auto simp: settled_def fail_pending_map)

lemma fail_pending_ok: "connection_ok c \<Longrightarrow> connection_ok (fail_pending reason c)"
  by (auto simp: connection_ok_def fail_pending_map split: if_splits) (auto simp: fail_pending_def)

lemma set_future_ok:
  assumes "connection_ok c"
    and "\<And>m st. f = Result m \<Longrightarrow> map_of (cn_streams c) i = Some st \<Longrightarrow> json_truthy (dict_get ''streamed'' m) \<Longrightarrow> stream_complete m st"
  shows "connection_ok (set_future i f c)"
  using assms by (auto simp: connection_ok_def set_future_def update_conv')

lemma waiting_request_Some:
  "waiting_request m c = Inr (Some i) \<Longrightarrow> map_of (cn_pending c) i = Some Waiting"
  by (auto simp: waiting_request_def bindE_Inr_iff split: option.splits if_splits)

lemma response_future_complete:
  "response_future repr m t (Some st) = Result m' \<Longrightarrow> json_truthy (dict_get ''streamed'' m') \<Longrightarrow> stream_complete m' st"
  by (auto simp: response_future_def split: if_splits)

lemma resolve_cases:
  assumes "resolve_response repr s m w r = Inr r'"
  obtains "r' = r"
    | obj i t where "current_connection s w r = Some obj" "map_of (cn_pending (rg_objects r ! obj)) i = Some Waiting"
        "r' = update_object obj (set_future i (response_future repr m t (map_of (cn_streams (rg_objects r ! obj)) i))) r"
proof -
  from assms consider "r' = r"
    | obj i t where "current_connection s w r = Some obj" "waiting_request m (rg_objects r ! obj) = Inr (Some i)"
        "r' = update_object obj (set_future i (response_future repr m t (map_of (cn_streams (rg_objects r ! obj)) i))) r"
    by (auto simp: resolve_response_def Let_def bindE_Inr_iff split: option.splits)
  then show ?thesis
  proof cases
    case 2
    from that(2) [OF 2(1) waiting_request_Some [OF 2(2)] 2(3)] show ?thesis .
  qed (rule that(1))
qed

lemma resolve_inv:
  assumes "resolve_response repr s m w r = Inr r'" "registry_inv r"
  shows "registry_inv r'"
  using assms(1)
proof (cases rule: resolve_cases)
  case (2 obj i t)
  with registered_obj [OF assms(2) current_registered [OF 2(1)]] assms(2) show ?thesis
    by (auto intro!: update_object_inv set_future_ok response_future_complete [of repr m t])
qed (use assms(2) in simp)

text \<open>The outcomes of a chunk: ignored, refused, or written behind the chunks so far.\<close>

lemma chunk_cases:
  assumes "receive_chunk repr s m w err now r = Inr r'"
  obtains "r' = r"
    | obj i e where "current_connection s w r = Some obj" "map_of (cn_pending (rg_objects r ! obj)) i = Some Waiting"
        "r' = update_object obj (set_future i (Raised e)) r"
    | obj i st data where "current_connection s w r = Some obj" "map_of (cn_pending (rg_objects r ! obj)) i = Some Waiting"
        "map_of (cn_streams (rg_objects r ! obj)) i = Some st" "get_as_int ''seq'' m = Some (sk_next_seq st)"
        "b64decode (case dict_get ''data_b64'' m of None \<Rightarrow> '''' | Some v \<Rightarrow> py_str repr v) = Some data"
        "case sk_limit st of None \<Rightarrow> True | Some l \<Rightarrow> sk_written st + int (length data) \<le> l"
        "r' = update_object obj (\<lambda>c. c\<lparr>cn_streams := AList.update i (add_chunk data now st) (cn_streams c)\<rparr>) r"
proof -
  from assms consider "r' = r"
    | obj i st where "current_connection s w r = Some obj" "waiting_request m (rg_objects r ! obj) = Inr (Some i)"
        "map_of (cn_streams (rg_objects r ! obj)) i = Some st"
        "r' = (case chunk_outcome repr m err st of
                 Inl e \<Rightarrow> update_object obj (set_future i (Raised e)) r
               | Inr data \<Rightarrow>
                   update_object obj (\<lambda>c. c\<lparr>cn_streams := AList.update i (add_chunk data now st) (cn_streams c)\<rparr>) r)"
    by (auto simp: receive_chunk_def Let_def bindE_Inr_iff split: option.splits)
  then show ?thesis
  proof cases
    case 1
    then show ?thesis by (rule that(1))
  next
    case 2
    note w = waiting_request_Some [OF 2(2)]
    show ?thesis
    proof (cases "chunk_outcome repr m err st")
      case (Inl e)
      with that(2) [OF 2(1) w, of e] 2(4) show ?thesis by simp
    next
      case (Inr data)
      with that(3) [OF 2(1) w 2(3), of data] 2(4) show ?thesis
        by (auto simp: chunk_outcome_def bindE_Inr_iff Let_def split: option.splits)
    qed
  qed
qed

lemma add_chunk_ok:
  "stream_ok st \<Longrightarrow> case sk_limit st of None \<Rightarrow> True | Some l \<Rightarrow> sk_written st + int (length data) \<le> l \<Longrightarrow>
   stream_ok (add_chunk data now st)"
  by (auto simp: stream_ok_def add_chunk_def split: option.splits)

lemma chunk_inv:
  assumes "receive_chunk repr s m w err now r = Inr r'" "registry_inv r"
  shows "registry_inv r'"
  using assms(1)
proof (cases rule: chunk_cases)
  case (2 obj i e)
  with registered_obj [OF assms(2) current_registered [OF 2(1)]] assms(2) show ?thesis
    by (auto intro!: update_object_inv set_future_ok)
next
  case (3 obj i st data)
  have "connection_ok ((rg_objects r ! obj)\<lparr>cn_streams := AList.update i (add_chunk data now st) (cn_streams (rg_objects r ! obj))\<rparr>)"
    if "connection_ok (rg_objects r ! obj)"
    using that 3(2,3) add_chunk_ok [OF _ 3(6)] by (auto simp: connection_ok_def update_conv')
  with 3 registered_obj [OF assms(2) current_registered [OF 3(1)]] assms(2) show ?thesis
    by (auto intro!: update_object_inv)
qed (use assms(2) in simp)

lemma begin_inv:
  assumes "begin_command s i sink now r = Inr r'" "registry_inv r"
  shows "registry_inv r'"
proof -
  from assms(1) obtain obj where obj: "map_of (rg_connections r) s = Some obj"
    and r': "r' = update_object obj
            (\<lambda>c. c\<lparr>cn_pending := AList.update i Waiting (cn_pending c),
                    cn_streams := (case sink of None \<Rightarrow> cn_streams c
                      | Some l \<Rightarrow> AList.update i
                          \<lparr>sk_sink = [], sk_limit = l, sk_next_seq = 0, sk_written = 0, sk_last_activity = now\<rparr>
                          (cn_streams c))\<rparr>) r"
    by (auto simp: begin_command_def split: option.splits)
  show ?thesis
    unfolding r' using registered_obj [OF assms(2) obj] assms(2)
    by (intro update_object_inv) (auto simp: connection_ok_def update_conv' stream_ok_def split: option.splits)
qed

lemma end_cases:
  assumes "end_command s obj i begun timeout now r = Some (out, cancel, r')"
  shows "r' = update_object obj (\<lambda>c. c\<lparr>cn_pending := AList.delete i (cn_pending c),
                                     cn_streams := AList.delete i (cn_streams c)\<rparr>) r \<and>
         (\<forall>m. out = Inr m \<longrightarrow> map_of (cn_pending (rg_objects r ! obj)) i = Some (Result m))"
  using assms by (auto simp: end_command_def Let_def split: option.splits future.splits if_splits)

lemma end_inv:
  assumes "end_command s obj i begun timeout now r = Some (out, cancel, r')" "registry_inv r"
  shows "registry_inv r'"
proof -
  have r': "r' = update_object obj (\<lambda>c. c\<lparr>cn_pending := AList.delete i (cn_pending c),
                                     cn_streams := AList.delete i (cn_streams c)\<rparr>) r"
    using end_cases [OF assms(1)] by simp
  show ?thesis
  proof (cases "obj < length (rg_objects r)")
    case True
    then show ?thesis
      unfolding r' using assms(2) by (intro update_object_inv) (auto simp: connection_ok_def settled_def delete_conv')
  next
    case False
    then have "r' = r" by (simp add: r' update_object_def list_update_beyond)
    with assms(2) show ?thesis by simp
  qed
qed

lemma map_sum_Inr_iff: "map_sum f id x = Inr y \<longleftrightarrow> x = Inr y"
  by (cases x) auto

lemma register_inv:
  assumes "registry_inv r"
  shows "registry_inv (snd (register s w r))"
proof -
  let ?n = "length (rg_objects r)"
  let ?new = "\<lparr>cn_websocket = w, cn_pending = [], cn_streams = []\<rparr>"
  let ?r1 = "r\<lparr>rg_objects := rg_objects r @ [?new], rg_connections := AList.update s ?n (rg_connections r)\<rparr>"
  have d: "distinct (map fst (rg_connections r))" "distinct (map snd (rg_connections r))"
    "\<And>x obj. (x, obj) \<in> set (rg_connections r) \<Longrightarrow> obj < ?n"
    using assms by (auto simp: registry_inv_def)
  have conn: "set (AList.update s ?n (rg_connections r)) = {(x, obj). if x = s then obj = ?n else (x, obj) \<in> set (rg_connections r)}"
  proof -
    have "(x, obj) \<in> set (AList.update s ?n (rg_connections r)) \<longleftrightarrow> map_of (AList.update s ?n (rg_connections r)) x = Some obj" for x obj
      using d(1) by (simp add: distinct_update)
    then show ?thesis using d(1) by (auto simp: update_conv')
  qed
  have "distinct (map snd (AList.update s ?n xs))" if "distinct (map snd xs)" "\<forall>(x, obj) \<in> set xs. obj < ?n" for xs
    using that by (induction xs) (auto dest!: subsetD [OF set_alist_update_sub])
  from this [OF d(2)] d(3) have snd: "distinct (map snd (AList.update s ?n (rg_connections r)))" by blast
  have new: "settled ?new" "connection_ok ?new" by (simp_all add: settled_def connection_ok_def)
  have old: "\<And>c. c \<in> set (rg_objects r) \<Longrightarrow> connection_ok c"
    "\<And>obj. obj < ?n \<Longrightarrow> obj \<notin> snd ` set (rg_connections r) \<Longrightarrow> settled (rg_objects r ! obj)"
    using assms by (auto simp: registry_inv_def)
  have settled: "settled ((rg_objects r @ [?new]) ! obj)"
    if "obj < Suc ?n" "obj \<notin> snd ` set (AList.update s ?n (rg_connections r))" "map_of (rg_connections r) s \<noteq> Some obj" for obj
  proof -
    have "obj \<noteq> ?n" using that(2) conn by force
    with that(1) have lt: "obj < ?n" by simp
    have "obj \<notin> snd ` set (rg_connections r)"
    proof
      assume "obj \<in> snd ` set (rg_connections r)"
      then obtain x where x: "(x, obj) \<in> set (rg_connections r)" by auto
      with d(1) that(3) have "x \<noteq> s" by auto
      with x conn that(2) show False by force
    qed
    with old(2) lt show ?thesis by (simp add: nth_append)
  qed
  show ?thesis
  proof (cases "map_of (rg_connections r) s")
    case None
    with d snd conn settled old(1) new show ?thesis
      by (auto simp: register_def Let_def registry_inv_def distinct_update less_Suc_eq split: if_splits)
  next
    case (Some obj0)
    then have lt: "obj0 < ?n" using d(3) by (auto dest: map_of_SomeD)
    let ?f = "fail_pending ''agent connection replaced by a newer one''"
    have objs: "c \<in> set ((rg_objects r @ [?new])[obj0 := ?f (rg_objects r ! obj0)]) \<Longrightarrow> connection_ok c" for c
      using lt old(1) new(2) fail_pending_ok [OF old(1), of "rg_objects r ! obj0"]
      by (auto dest!: subsetD [OF set_update_subset_insert])
    have "settled ((rg_objects r @ [?new])[obj0 := ?f (rg_objects r ! obj0)] ! obj)"
      if "obj < Suc ?n" "obj \<notin> snd ` set (AList.update s ?n (rg_connections r))" for obj
      using that settled [OF that] Some lt fail_pending_settled by (cases "obj = obj0") (auto simp: nth_list_update)
    with Some d snd conn objs lt show ?thesis
      by (auto simp: register_def Let_def registry_inv_def distinct_update update_object_def nth_append less_Suc_eq split: if_splits)
  qed
qed

lemma unregister_inv:
  assumes "registry_inv r"
  shows "registry_inv (unregister s w r)"
proof (cases "current_connection s w r")
  case None
  with assms show ?thesis by (simp add: unregister_def)
next
  case (Some obj)
  note m = current_registered [OF Some]
  from registered_obj [OF assms m] have lt: "obj < length (rg_objects r)" by simp
  have d: "distinct (map fst (rg_connections r))" "distinct (map snd (rg_connections r))"
    using assms by (auto simp: registry_inv_def)
  have conn: "set (AList.delete s (rg_connections r)) = {(x, obj). x \<noteq> s \<and> (x, obj) \<in> set (rg_connections r)}"
    by (auto simp: AList.delete_eq)
  have "distinct (map snd (AList.delete s (rg_connections r)))"
    using d(2) by (simp add: AList.delete_eq distinct_map_filter)
  moreover have still: "obj' \<in> snd ` set (AList.delete s (rg_connections r))"
    if "obj' \<noteq> obj" "obj' \<in> snd ` set (rg_connections r)" for obj'
  proof -
    from that(2) obtain x where x: "(x, obj') \<in> set (rg_connections r)" by auto
    have "map_of (rg_connections r) x = Some obj'" using x d(1) by simp
    with that(1) m have "x \<noteq> s" by (metis option.inject)
    with x conn have "(x, obj') \<in> set (AList.delete s (rg_connections r))" by simp
    then show ?thesis by (rule image_eqI [rotated]) simp
  qed
  moreover have "connection_ok c"
    if "c \<in> set ((rg_objects r)[obj := fail_pending ''agent disconnected'' (rg_objects r ! obj)])" for c
    using subsetD [OF set_update_subset_insert that] assms lt by (auto simp: registry_inv_def fail_pending_ok)
  moreover have "settled ((rg_objects r)[obj := fail_pending ''agent disconnected'' (rg_objects r ! obj)] ! obj')"
    if "obj' < length (rg_objects r)" "obj' \<notin> snd ` {(x, obj). x \<noteq> s \<and> (x, obj) \<in> set (rg_connections r)}" for obj'
    using that(1) still [of obj'] that(2) conn assms lt
    by (cases "obj' = obj") (simp_all add: registry_inv_def fail_pending_settled, metis)
  ultimately show ?thesis
    unfolding registry_inv_def unregister_def Some
    using d conn assms by (auto simp: update_object_def distinct_delete registry_inv_def)
qed

interpretation agt: guarded_machine "exec_agent repr" registry_inv for repr
proof
  fix r r' and x :: agent_op
  assume "registry_inv r" "exec_agent repr x r = Inr r'"
  then show "registry_inv r'"
    by (cases x)
      (auto simp: map_sum_Inr_iff register_inv unregister_inv split: option.splits
        dest: resolve_inv chunk_inv begin_inv end_inv)
qed

lemma empty_registry_inv: "registry_inv empty_registry"
  by (simp add: registry_inv_def empty_registry_def)

section \<open>A streamed fetch from its first chunk\<close>

text \<open>The data a chunk message carries.\<close>

definition chunk_data :: "(json \<Rightarrow> string) \<Rightarrow> message \<Rightarrow> string option" where
  "chunk_data repr m = b64decode (case dict_get ''data_b64'' m of None \<Rightarrow> '''' | Some v \<Rightarrow> py_str repr v)"

text \<open>After the chunks \<open>ms\<close>: the command has failed, or it waits and the file is their data in order.\<close>

definition fed :: "(json \<Rightarrow> string) \<Rightarrow> int \<Rightarrow> nat \<Rightarrow> string \<Rightarrow> nat \<Rightarrow> int option \<Rightarrow> message list \<Rightarrow> registry \<Rightarrow> bool" where
  "fed repr s w i obj limit ms r \<longleftrightarrow>
     map_of (rg_connections r) s = Some obj \<and> obj < length (rg_objects r) \<and> cn_websocket (rg_objects r ! obj) = w \<and>
     ((\<exists>e. map_of (cn_pending (rg_objects r ! obj)) i = Some (Raised e)) \<or>
      (map_of (cn_pending (rg_objects r ! obj)) i = Some Waiting \<and>
       (\<exists>st. map_of (cn_streams (rg_objects r ! obj)) i = Some st \<and> sk_limit st = limit \<and> stream_ok st \<and>
          map (get_as_int ''seq'') ms = map (\<lambda>k. Some (int k)) [0..<length ms] \<and>
          map (chunk_data repr) ms = map Some (sk_sink st))))"

lemma fed_chunk:
  assumes "fed repr s w i obj limit ms r" "request_key m = Inr (Some i)"
  shows "\<exists>r'. exec_agent repr (Chunk s m (Some w) err now) r = Inr r' \<and> fed repr s w i obj limit (ms @ [m]) r'"
proof -
  let ?c = "rg_objects r ! obj"
  have cur: "current_connection s (Some w) r = Some obj" "obj < length (rg_objects r)"
    using assms(1) by (simp_all add: fed_def current_connection_def)
  show ?thesis
  proof (cases "map_of (cn_pending ?c) i = Some Waiting")
    case False
    then have "waiting_request m ?c = Inr None" using assms(2) by (simp add: waiting_request_def)
    with False assms(1) cur show ?thesis by (auto simp: receive_chunk_def Let_def fed_def)
  next
    case True
    then have wait: "waiting_request m ?c = Inr (Some i)" using assms(2) by (simp add: waiting_request_def)
    from True assms(1) obtain st where st: "map_of (cn_streams ?c) i = Some st" "sk_limit st = limit" "stream_ok st"
      "map (get_as_int ''seq'') ms = map (\<lambda>k. Some (int k)) [0..<length ms]"
      "map (chunk_data repr) ms = map Some (sk_sink st)" by (auto simp: fed_def)
    show ?thesis
    proof (cases "chunk_outcome repr m err st")
      case (Inl e)
      with cur wait st assms(1) show ?thesis
        by (auto simp: receive_chunk_def Let_def fed_def update_object_def set_future_def update_conv')
    next
      case (Inr data)
      then have d: "get_as_int ''seq'' m = Some (sk_next_seq st)" "chunk_data repr m = Some data"
        "case sk_limit st of None \<Rightarrow> True | Some l \<Rightarrow> sk_written st + int (length data) \<le> l"
        by (auto simp: chunk_outcome_def chunk_data_def bindE_Inr_iff Let_def split: option.splits)
      have "length ms = length (sk_sink st)" using st(5) by (metis length_map)
      then have seq: "sk_next_seq st = int (length ms)" using st(3) by (simp add: stream_ok_def)
      show ?thesis
        using cur wait st assms(1) Inr d(1,2) seq True add_chunk_ok [OF st(3) d(3), of now]
        by (auto simp: receive_chunk_def Let_def fed_def update_object_def update_conv') (simp_all add: add_chunk_def)
    qed
  qed
qed

lemma fed_chunks:
  assumes "fed repr s w i obj limit ms r" "\<forall>(m, err, t) \<in> set xs. request_key m = Inr (Some i)"
  shows "fed repr s w i obj limit (ms @ map fst xs)
           (agt.run_ops repr (map (\<lambda>(m, err, t). Chunk s m (Some w) err t) xs) r)"
  using assms
proof (induction xs arbitrary: ms r)
  case (Cons x xs)
  obtain m err t where x: "x = (m, err, t)" using prod_cases3 by blast
  with Cons.prems fed_chunk [OF Cons.prems(1), of m err t] obtain r' where
    "exec_agent repr (Chunk s m (Some w) err t) r = Inr r'" "fed repr s w i obj limit (ms @ [m]) r'" by auto
  with Cons.IH [of "ms @ [m]" r'] Cons.prems(2) x show ?case by (simp del: exec_agent.simps)
qed simp

lemma run_ops_append: "agt.run_ops repr (xs @ ys) r = agt.run_ops repr ys (agt.run_ops repr xs r)"
  by (induction xs arbitrary: r) auto

section \<open>Properties\<close>

text \<open>
  C22: No command hangs on a connection that is gone: whatever agents connect, reconnect and
  disconnect and whatever they send, a command that still waits is on the registered connection of a
  source; on a replaced or closed connection every command has been answered or failed.
\<close>

theorem no_command_waits_on_a_gone_connection:
  fixes repr ops
  defines "r \<equiv> agt.run_ops repr ops empty_registry"
  assumes "obj < length (rg_objects r)" "\<And>s. map_of (rg_connections r) s \<noteq> Some obj"
  shows "map_of (cn_pending (rg_objects r ! obj)) i \<noteq> Some Waiting"
proof -
  have inv: "registry_inv r" unfolding r_def by (rule agt.run_inv [OF empty_registry_inv])
  then have "distinct (map fst (rg_connections r))" by (simp add: registry_inv_def)
  with assms(3) have "obj \<notin> snd ` set (rg_connections r)" by force
  with inv assms(2) show ?thesis by (auto simp: registry_inv_def settled_def)
qed

text \<open>
  A streamed fetch is exact: when a fetch that was given these chunk messages (with whatever
  write errors) and this final message ends with that message as its streamed result, the chunks
  were numbered from zero without a gap, the file written is exactly their data in order, the final
  message gives its number of chunks and bytes, and it is within the limit.
\<close>

theorem streamed_fetch_is_exact:
  fixes repr ops s i limit now w chunks fin
  defines "r \<equiv> agt.run_ops repr ops empty_registry"
  assumes "begin_command s i (Some limit) now r = Inr r0" "map_of (rg_connections r) s = Some obj"
    and "cn_websocket (rg_objects r ! obj) = w"
    and "\<forall>(m, err, t) \<in> set chunks. request_key m = Inr (Some i)"
    and "r1 = agt.run_ops repr (map (\<lambda>(m, err, t). Chunk s m (Some w) err t) chunks @ [Respond s fin (Some w)]) r0"
    and "map_of (cn_pending (rg_objects r1 ! obj)) i = Some (Result fin)" "json_truthy (dict_get ''streamed'' fin)"
  shows "\<exists>st. map_of (cn_streams (rg_objects r1 ! obj)) i = Some st \<and>
    map (\<lambda>c. get_as_int ''seq'' (fst c)) chunks = map (\<lambda>k. Some (int k)) [0..<length chunks] \<and>
    map (\<lambda>c. chunk_data repr (fst c)) chunks = map Some (sk_sink st) \<and>
    get_as_int ''chunks'' fin = Some (int (length chunks)) \<and>
    get_as_int ''size'' fin = Some (int (length (concat (sk_sink st)))) \<and>
    (\<forall>l. limit = Some l \<longrightarrow> chunks \<noteq> [] \<longrightarrow> int (length (concat (sk_sink st))) \<le> l)"
proof -
  have inv: "registry_inv r" unfolding r_def by (rule agt.run_inv [OF empty_registry_inv])
  from registered_obj [OF inv assms(3)] have lt: "obj < length (rg_objects r)" by simp
  have "fed repr s w i obj limit [] r0"
    using assms(2-4) lt by (auto simp: begin_command_def fed_def update_object_def update_conv' stream_ok_def)
  from fed_chunks [OF this assms(5)] obtain r2 where
    r2: "fed repr s w i obj limit (map fst chunks) r2" "r1 = agt.run_ops repr [Respond s fin (Some w)] r2"
    by (auto simp: assms(6) run_ops_append)
  then have cur: "current_connection s (Some w) r2 = Some obj" "obj < length (rg_objects r2)"
    by (auto simp: fed_def current_connection_def)
  have r1: "r1 = r2 \<or> resolve_response repr s fin (Some w) r2 = Inr r1"
    by (cases "resolve_response repr s fin (Some w) r2") (simp_all add: r2(2))
  have waiting: "map_of (cn_pending (rg_objects r2 ! obj)) i = Some Waiting"
  proof (rule ccontr)
    assume "map_of (cn_pending (rg_objects r2 ! obj)) i \<noteq> Some Waiting"
    with r2(1) obtain e where e: "map_of (cn_pending (rg_objects r2 ! obj)) i = Some (Raised e)" by (auto simp: fed_def)
    from r1 have "map_of (cn_pending (rg_objects r1 ! obj)) i = Some (Raised e)"
    proof
      assume "resolve_response repr s fin (Some w) r2 = Inr r1"
      then show ?thesis
        using e cur by (cases rule: resolve_cases) (auto simp: update_object_def set_future_def update_conv')
    qed (use e in simp)
    with assms(7) show False by simp
  qed
  with r2(1) obtain st where st: "map_of (cn_streams (rg_objects r2 ! obj)) i = Some st" "sk_limit st = limit" "stream_ok st"
    "map (get_as_int ''seq'') (map fst chunks) = map (\<lambda>k. Some (int k)) [0..<length chunks]"
    "map (chunk_data repr) (map fst chunks) = map Some (sk_sink st)" by (auto simp: fed_def)
  have "r1 \<noteq> r2" using waiting assms(7) by auto
  with r1 have "resolve_response repr s fin (Some w) r2 = Inr r1" by simp
  then have "map_of (cn_streams (rg_objects r1 ! obj)) i = Some st \<and> stream_complete fin st"
  proof (cases rule: resolve_cases)
    case 1
    with \<open>r1 \<noteq> r2\<close> show ?thesis by simp
  next
    case (2 obj' j t)
    with cur have o: "obj' = obj" by simp
    with 2 cur assms(7) waiting have "j = i"
      by (auto simp: update_object_def set_future_def update_conv' split: if_splits)
    with o 2 cur assms(7) st(1) have "response_future repr fin t (Some st) = Result fin"
      by (auto simp: update_object_def set_future_def update_conv')
    with response_future_complete [OF this assms(8)] o 2 cur st(1) show ?thesis
      by (auto simp: update_object_def set_future_def)
  qed
  moreover have "length chunks = length (sk_sink st)" using st(5) by (metis length_map)
  ultimately show ?thesis
    using st by (auto simp: stream_complete_def stream_ok_def split_beta comp_def)
qed

section \<open>Witnesses\<close>

definition chunk_message :: "string \<Rightarrow> int \<Rightarrow> string \<Rightarrow> message" where
  "chunk_message i seq data =
     [(''type'', JStr ''fetch_chunk''), (''id'', JStr i), (''seq'', JInt seq), (''data_b64'', JStr data)]"

definition final_message :: message where
  "final_message = [(''type'', JStr ''fetch_result''), (''id'', JStr ''r1''), (''streamed'', JBool True),
     (''chunks'', JInt 2), (''size'', JInt 5)]"

theorem no_command_waits_on_a_gone_connection_witness:
  "map_of (cn_pending (rg_objects (agt.run_ops (\<lambda>_. []) [Register 1 10, Begin 1 ''r1'' None 0, Register 1 11] empty_registry) ! 0))
     ''r1'' \<noteq> Some Waiting \<and>
   rg_connections (agt.run_ops (\<lambda>_. []) [Register 1 10, Begin 1 ''r1'' None 0, Register 1 11] empty_registry) = [(1, 1)]"
proof
  let ?r = "agt.run_ops (\<lambda>_. []) [Register 1 10, Begin 1 ''r1'' None 0, Register 1 11] empty_registry"
  show c: "rg_connections ?r = [(1, 1)]"
    by (simp add: register_def begin_command_def empty_registry_def update_object_def)
  have "0 < length (rg_objects ?r)"
    by (simp add: register_def begin_command_def empty_registry_def update_object_def)
  then show "map_of (cn_pending (rg_objects ?r ! 0)) ''r1'' \<noteq> Some Waiting"
    by (rule no_command_waits_on_a_gone_connection) (simp only: c, simp)
qed

abbreviation sample_registry :: "future \<Rightarrow> string list \<Rightarrow> int \<Rightarrow> registry" where
  "sample_registry f sink now \<equiv>
     \<lparr>rg_objects = [\<lparr>cn_websocket = 10, cn_pending = [(''r1'', f)],
        cn_streams = [(''r1'', \<lparr>sk_sink = sink, sk_limit = Some 10, sk_next_seq = int (length sink),
                               sk_written = int (length (concat sink)), sk_last_activity = now\<rparr>)]\<rparr>],
      rg_connections = [(1, 0)]\<rparr>"

lemma sample_steps:
  "exec_agent (\<lambda>_. []) (Register 1 10) empty_registry =
     Inr \<lparr>rg_objects = [\<lparr>cn_websocket = 10, cn_pending = [], cn_streams = []\<rparr>], rg_connections = [(1, 0)]\<rparr>"
  "begin_command 1 ''r1'' (Some (Some 10)) 0
     \<lparr>rg_objects = [\<lparr>cn_websocket = 10, cn_pending = [], cn_streams = []\<rparr>], rg_connections = [(1, 0)]\<rparr> =
     Inr (sample_registry Waiting [] 0)"
  "exec_agent (\<lambda>_. []) (Chunk 1 (chunk_message ''r1'' 0 ''YWJj'') (Some 10) None 1) (sample_registry Waiting [] 0) =
     Inr (sample_registry Waiting [''abc''] 1)"
  "exec_agent (\<lambda>_. []) (Chunk 1 (chunk_message ''r1'' 1 ''ZGU='') (Some 10) None 2) (sample_registry Waiting [''abc''] 1) =
     Inr (sample_registry Waiting [''abc'', ''de''] 2)"
  "exec_agent (\<lambda>_. []) (Respond 1 final_message (Some 10)) (sample_registry Waiting [''abc'', ''de''] 2) =
     Inr (sample_registry (Result final_message) [''abc'', ''de''] 2)"
  by code_simp+

definition sample_chunks :: "(message \<times> string option \<times> int) list" where
  "sample_chunks = [(chunk_message ''r1'' 0 ''YWJj'', None, 1), (chunk_message ''r1'' 1 ''ZGU='', None, 2)]"

lemma sample_chunks:
  "map (\<lambda>(m, err, t). Chunk 1 m (Some 10) err t) sample_chunks =
     [Chunk 1 (chunk_message ''r1'' 0 ''YWJj'') (Some 10) None 1, Chunk 1 (chunk_message ''r1'' 1 ''ZGU='') (Some 10) None 2]"
  "map (\<lambda>c. chunk_data (\<lambda>_. []) (fst c)) sample_chunks = map Some [''abc'', ''de'']"
  "\<forall>(m, err, t) \<in> set sample_chunks. request_key m = Inr (Some ''r1'')"
  "json_truthy (dict_get ''streamed'' final_message)"
  by code_simp+

theorem streamed_fetch_is_exact_witness:
  "\<exists>start stop st. begin_command 1 ''r1'' (Some (Some 10)) 0 (agt.run_ops (\<lambda>_. []) [Register 1 10] empty_registry) = Inr start \<and>
     stop = agt.run_ops (\<lambda>_. []) (map (\<lambda>(m, err, t). Chunk 1 m (Some 10) err t) sample_chunks @ [Respond 1 final_message (Some 10)]) start \<and>
     map_of (cn_streams (rg_objects stop ! 0)) ''r1'' = Some st \<and> sk_sink st = [''abc'', ''de'']"
proof -
  define reg where "reg = agt.run_ops (\<lambda>_. []) [Register 1 10] empty_registry"
  define start where "start = sample_registry Waiting [] 0"
  define stop where "stop = agt.run_ops (\<lambda>_. [])
    (map (\<lambda>(m, err, t). Chunk 1 m (Some 10) err t) sample_chunks @ [Respond 1 final_message (Some 10)]) start"
  have reg: "reg = \<lparr>rg_objects = [\<lparr>cn_websocket = 10, cn_pending = [], cn_streams = []\<rparr>], rg_connections = [(1, 0)]\<rparr>"
    by (simp only: reg_def agt.run_ops.simps sample_steps(1) sum.case)
  have stop: "stop = sample_registry (Result final_message) [''abc'', ''de''] 2"
    by (simp only: stop_def start_def sample_chunks(1) agt.run_ops.simps append.simps sample_steps(3-5) sum.case)
  have b: "begin_command 1 ''r1'' (Some (Some 10)) 0 reg = Inr start"
    unfolding reg start_def by (rule sample_steps(2))
  have c: "map_of (rg_connections reg) 1 = Some 0" "cn_websocket (rg_objects reg ! 0) = 10"
    unfolding reg by simp_all
  have fin: "map_of (cn_pending (rg_objects stop ! 0)) ''r1'' = Some (Result final_message)"
    unfolding stop by simp
  from streamed_fetch_is_exact [OF b [unfolded reg_def] c [unfolded reg_def] sample_chunks(3) stop_def fin sample_chunks(4)]
  obtain st where st: "map_of (cn_streams (rg_objects stop ! 0)) ''r1'' = Some st"
      "map (\<lambda>c. chunk_data (\<lambda>_. []) (fst c)) sample_chunks = map Some (sk_sink st)" by blast
  from st(2) have "map Some (sk_sink st) = map Some [''abc'', ''de'']" unfolding sample_chunks(2) ..
  then have "sk_sink st = [''abc'', ''de'']" by (simp only: inj_map_eq_map [OF inj_Some])
  with b [unfolded reg_def] st(1) stop_def show ?thesis by blast
qed

end
