(* ===== verification/LocalFiles.thy ===== *)
theory LocalFiles
  imports SourceRoots
begin

text \<open>
  \<open>app/collectors/local.py\<close>: the collector for folders on the server itself, and the one place that
  keeps it inside the directories the operator allows. The file system is the parameter: what
  \<open>os.path.realpath\<close> answers, the entries of a directory and the bytes of a file. Paths are POSIX
  paths.
\<close>

record local_child =
  lc_name :: string
  lc_is_symlink :: bool
  lc_resolved :: string
  lc_is_dir :: bool
  lc_size :: int

record local_fs =
  fs_realpath :: "string \<Rightarrow> string"
  fs_children :: "string \<Rightarrow> source_error + local_child list"
  fs_read :: "string \<Rightarrow> source_error + string"
  fs_local_source_roots :: string

datatype local_error = LocalPathNotAllowedError

text \<open>\<open>posixpath.join(a, b)\<close>.\<close>

definition posix_join :: "string \<Rightarrow> string \<Rightarrow> string" where
  "posix_join a b =
     (if prefix ''/'' b then b else if a = '''' \<or> suffix ''/'' a then a @ b else a @ ''/'' @ b)"

definition allowed_roots :: "local_fs \<Rightarrow> string list" where
  "allowed_roots fs =
     map (\<lambda>part. fs_realpath fs (strip part))
       (filter (\<lambda>part. strip part \<noteq> '''') (split_on CHR '','' (fs_local_source_roots fs)))"

definition base_path_allowed :: "local_fs \<Rightarrow> string \<Rightarrow> bool" where
  "base_path_allowed fs base_path =
     (let base = fs_realpath fs base_path in
      list_ex (\<lambda>root. base = root \<or> prefix (posix_join root '''') base) (allowed_roots fs))"

definition base_dir :: "local_fs \<Rightarrow> source \<Rightarrow> local_error + string" where
  "base_dir fs s =
     bindE (requireE (s_is_system s \<or> base_path_allowed fs (s_base_path s)) LocalPathNotAllowedError) (\<lambda>_.
     Inr (fs_realpath fs (s_base_path s)))"

definition resolve_path :: "local_fs \<Rightarrow> source \<Rightarrow> string \<Rightarrow> local_error + string" where
  "resolve_path fs s relative_path =
     bindE (base_dir fs s) (\<lambda>base.
     let target = fs_realpath fs (posix_join base relative_path) in
     bindE (requireE (prefix (posix_join base '''') target) LocalPathNotAllowedError) (\<lambda>_.
     Inr target))"

text \<open>\<open>Path.is_relative_to\<close> on resolved paths.\<close>

definition is_relative_to :: "string \<Rightarrow> string \<Rightarrow> bool" where
  "is_relative_to path base = (path = base \<or> prefix (posix_join base '''') path)"

definition entry_of_child :: "string \<Rightarrow> local_child \<Rightarrow> dir_entry" where
  "entry_of_child relative_path c =
     \<lparr>de_name = lc_name c,
      de_path = (if relative_path \<noteq> '''' then relative_path @ ''/'' @ lc_name c else lc_name c),
      de_is_dir = lc_is_dir c, de_size = (if lc_is_dir c then 0 else lc_size c)\<rparr>"

text \<open>
  The listing. \<open>translated\<close> turns \<open>LocalPathNotAllowedError\<close>, a \<open>PermissionError\<close>, into a
  \<open>SourcePermissionError\<close>.
\<close>

definition translate_local :: "local_error + 'a \<Rightarrow> source_error + 'a" where
  "translate_local r = (case r of Inl LocalPathNotAllowedError \<Rightarrow> Inl SourcePermissionError | Inr x \<Rightarrow> Inr x)"

definition local_list_directory ::
  "re2_engine \<Rightarrow> local_fs \<Rightarrow> source \<Rightarrow> rule list \<Rightarrow> string \<Rightarrow> source_error + dir_entry list" where
  "local_list_directory re2 fs s rs relative_path =
     bindE (translate_local (base_dir fs s)) (\<lambda>base.
     bindE (if relative_path \<noteq> '''' then translate_local (resolve_path fs s relative_path) else Inr base) (\<lambda>directory.
     bindE (fs_children fs directory) (\<lambda>children.
     Inr (filter (\<lambda>e. is_entry_visible re2 False (de_path e) (de_is_dir e) rs)
            (map (entry_of_child relative_path)
              (filter (\<lambda>c. \<not> (lc_is_symlink c \<and> \<not> is_relative_to (lc_resolved c) base))
                (sort_key lc_name children)))))))"

text \<open>The bytes behind the path \<open>local_copy\<close> yields.\<close>

definition local_copy :: "local_fs \<Rightarrow> source \<Rightarrow> string \<Rightarrow> source_error + string" where
  "local_copy fs s relative_path = bindE (translate_local (resolve_path fs s relative_path)) (fs_read fs)"

section \<open>Reads stay below an allowed directory\<close>

lemma join_slash_prefix: "prefix (posix_join a '''') b \<Longrightarrow> prefix a b"
  by (auto simp: posix_join_def prefix_def split: if_splits)

lemma join_slash_below:
  assumes "prefix (posix_join r '''') b" "prefix (posix_join b '''') t"
  shows "prefix (posix_join r '''') t"
  using assms(1) join_slash_prefix [OF assms(2)] by (rule prefix_order.trans)

lemma base_dir_Inr:
  "base_dir fs s = Inr b \<longleftrightarrow>
     (s_is_system s \<or> base_path_allowed fs (s_base_path s)) \<and> b = fs_realpath fs (s_base_path s)"
  by (auto simp: base_dir_def bindE_Inr_iff)

lemma resolve_path_Inr:
  "resolve_path fs s p = Inr t \<longleftrightarrow>
     (s_is_system s \<or> base_path_allowed fs (s_base_path s)) \<and>
     t = fs_realpath fs (posix_join (fs_realpath fs (s_base_path s)) p) \<and>
     prefix (posix_join (fs_realpath fs (s_base_path s)) '''') t"
  by (auto simp: resolve_path_def bindE_Inr_iff base_dir_Inr Let_def)

lemma below_allowed_root:
  assumes "resolve_path fs s p = Inr t" "\<not> s_is_system s"
  shows "\<exists>root \<in> set (allowed_roots fs). prefix (posix_join root '''') t"
proof -
  let ?b = "fs_realpath fs (s_base_path s)"
  from assms have "base_path_allowed fs (s_base_path s)" by (simp add: resolve_path_Inr)
  moreover from assms(1) have t: "prefix (posix_join ?b '''') t" unfolding resolve_path_Inr by blast
  ultimately obtain root where "root \<in> set (allowed_roots fs)" "?b = root \<or> prefix (posix_join root '''') ?b"
    by (auto simp: base_path_allowed_def Let_def list_ex_iff)
  with t join_slash_below show ?thesis by blast
qed

lemma local_listing_visible:
  assumes "local_list_directory re2 fs s rs p = Inr entries" "e \<in> set entries"
  shows "is_entry_visible re2 False (de_path e) (de_is_dir e) rs"
  using assms by (auto simp: local_list_directory_def bindE_Inr_iff)

end
