(* ===== verification/Archives.thy ===== *)
theory Archives
  imports Rules "HOL-Library.Char_ord" "HOL-Library.List_Lexorder" "HOL-Library.Product_Lexorder"
begin

text \<open>
  \<open>app/archives.py\<close> and the size-limited copy of \<open>app/collectors/base.py\<close>: archives shown as
  folders, member names, and decompression with a cap on the bytes produced. A file is its bytes
  (a \<open>string\<close>). The zip, tar and gzip libraries are parameters: what they list, and the chunks
  \<open>read\<close> hands out, which may end in an exception.
\<close>

section \<open>Copying with a limit\<close>

datatype archive_error =
    DecompressionLimitError
  | ArchiveLibraryError
  | NotARegularFile
  | UnsupportedArchive
  | CopyTooLarge int int

text \<open>One answer of \<open>src.read(_CHUNK)\<close>; the end of the list, like an empty chunk, is the end of the file.\<close>

datatype chunk = Data string | ReadFails

text \<open>
  The loop of \<open>_bounded_copy\<close> over what \<open>read\<close> answers, the byte count and what is on disk.
\<close>

fun bounded_loop :: "int option \<Rightarrow> chunk list \<Rightarrow> int \<Rightarrow> string \<Rightarrow> (archive_error + unit) \<times> string" where
  "bounded_loop limit [] written dst = (Inr (), dst)"
| "bounded_loop limit (ReadFails # src) written dst = (Inl ArchiveLibraryError, dst)"
| "bounded_loop limit (Data c # src) written dst =
     (if c = [] then (Inr (), dst)
      else
        let written = written + int (length c) in
        if limit \<noteq> None \<and> written > the limit then (Inl DecompressionLimitError, dst)
        else bounded_loop limit src written (dst @ c))"

text \<open>The result and what the destination holds afterwards: on an exception it is unlinked.\<close>

definition bounded_copy :: "int option \<Rightarrow> chunk list \<Rightarrow> (archive_error + unit) \<times> string option" where
  "bounded_copy limit src =
     (case bounded_loop limit src 0 [] of
        (Inl e, _) \<Rightarrow> (Inl e, None)
      | (Inr u, dst) \<Rightarrow> (Inr u, Some dst))"

fun limit_loop :: "int \<Rightarrow> chunk list \<Rightarrow> int \<Rightarrow> string \<Rightarrow> (archive_error + int) \<times> string" where
  "limit_loop limit [] written dst = (Inr written, dst)"
| "limit_loop limit (ReadFails # src) written dst = (Inl ArchiveLibraryError, dst)"
| "limit_loop limit (Data c # src) written dst =
     (if c = [] then (Inr written, dst)
      else
        let written = written + int (length c) in
        if written > limit then (Inl (CopyTooLarge written limit), dst)
        else limit_loop limit src written (dst @ c))"

definition copy_with_limit :: "int \<Rightarrow> chunk list \<Rightarrow> (archive_error + int) \<times> string option" where
  "copy_with_limit limit src =
     (case limit_loop limit src 0 [] of
        (Inl e, _) \<Rightarrow> (Inl e, None)
      | (Inr n, dst) \<Rightarrow> (Inr n, Some dst))"

section \<open>Archives as folders\<close>

record archive_member =
  am_name :: string
  am_size :: int
  am_is_dir :: bool

definition tar_suffixes :: "string list" where
  "tar_suffixes = [''.tar.gz'', ''.tgz'']"

definition is_tar :: "string \<Rightarrow> bool" where
  "is_tar filename = list_ex (\<lambda>s. suffix s filename) tar_suffixes"

definition is_archive :: "string \<Rightarrow> bool" where
  "is_archive filename = (suffix ''.zip'' filename \<or> is_tar filename)"

definition is_transparent_gzip :: "string \<Rightarrow> bool" where
  "is_transparent_gzip filename = (suffix ''.gz'' filename \<and> \<not> is_tar filename)"

definition normalize_member_name :: "string \<Rightarrow> string" where
  "normalize_member_name name =
     join_on CHR ''/'' (filter (\<lambda>p. p \<notin> {'''', ''.'', ''..''})
       (split_on CHR ''/'' (replace_char CHR 0x5C CHR ''/'' name)))"

text \<open>One member in the loop of \<open>tree_children\<close>; the dict is kept in insertion order.\<close>

definition add_child ::
  "string \<Rightarrow> archive_member \<Rightarrow> (string \<times> archive_member) list \<Rightarrow> (string \<times> archive_member) list" where
  "add_child member_dir m children =
     (let pre = (if member_dir \<noteq> '''' then member_dir @ ''/'' else '''');
          name = normalize_member_name (am_name m)
      in if name = '''' \<or> \<not> prefix pre name \<or> name = member_dir then children
         else
           let (head, rest) = partition_on CHR ''/'' (drop (length pre) name);
               child = pre @ head
           in if rest \<noteq> '''' \<or> am_is_dir m
              then (if map_of children child = None
                    then AList.update child \<lparr>am_name = child, am_size = 0, am_is_dir = True\<rparr> children
                    else children)
              else AList.update child \<lparr>am_name = child, am_size = am_size m, am_is_dir = False\<rparr> children)"

definition tree_children :: "archive_member list \<Rightarrow> string \<Rightarrow> archive_member list" where
  "tree_children members member_dir =
     sort_key (\<lambda>m. (\<not> am_is_dir m, lower (am_name m)))
       (map snd (fold (add_child member_dir) members []))"

section \<open>The archive libraries\<close>

record archive_library =
  al_zip_members :: "string \<Rightarrow> archive_error + archive_member list"
  al_zip_open :: "string \<Rightarrow> string \<Rightarrow> archive_error + chunk list"
  al_tar_members :: "string \<Rightarrow> archive_error + archive_member list"
  al_tar_open :: "string \<Rightarrow> string \<Rightarrow> archive_error + chunk list option"
  al_gzip_open :: "string \<Rightarrow> archive_error + chunk list"

definition list_members ::
  "archive_library \<Rightarrow> string \<Rightarrow> string \<Rightarrow> archive_error + archive_member list" where
  "list_members lib local filename =
     (if suffix ''.zip'' filename then al_zip_members lib local
      else if is_tar filename then al_tar_members lib local
      else Inl UnsupportedArchive)"

definition resolve_member_name ::
  "archive_library \<Rightarrow> string \<Rightarrow> string \<Rightarrow> string \<Rightarrow> archive_error + string" where
  "resolve_member_name lib local filename requested =
     bindE (list_members lib local filename) (\<lambda>members.
     case find (\<lambda>m. am_name m = requested) members of
       Some m \<Rightarrow> Inr (am_name m)
     | None \<Rightarrow>
         (case find (\<lambda>m. \<not> am_is_dir m \<and> normalize_member_name (am_name m) = requested) members of
            Some m \<Rightarrow> Inr (am_name m)
          | None \<Rightarrow> Inr requested))"

text \<open>
  The result and the destination, which held \<open>old\<close> before; an exception before the copy starts
  leaves it.
\<close>

definition extract_member ::
  "archive_library \<Rightarrow> string \<Rightarrow> string \<Rightarrow> string \<Rightarrow> int option \<Rightarrow> string option \<Rightarrow>
   (archive_error + unit) \<times> string option" where
  "extract_member lib local filename member_name max_bytes old =
     (if suffix ''.zip'' filename then
        (case al_zip_open lib local member_name of
           Inl e \<Rightarrow> (Inl e, old)
         | Inr src \<Rightarrow> bounded_copy max_bytes src)
      else if is_tar filename then
        (case al_tar_open lib local member_name of
           Inl e \<Rightarrow> (Inl e, old)
         | Inr None \<Rightarrow> (Inl NotARegularFile, old)
         | Inr (Some src) \<Rightarrow> bounded_copy max_bytes src)
      else (Inl UnsupportedArchive, old))"

definition decompress_gzip ::
  "archive_library \<Rightarrow> string \<Rightarrow> int option \<Rightarrow> string option \<Rightarrow> (archive_error + unit) \<times> string option" where
  "decompress_gzip lib local max_bytes old =
     (case al_gzip_open lib local of
        Inl e \<Rightarrow> (Inl e, old)
      | Inr src \<Rightarrow> bounded_copy max_bytes src)"

section \<open>Copies are bounded and exact\<close>

text \<open>The bytes a source hands out until it ends; \<open>None\<close> when a read fails first.\<close>

fun source_bytes :: "chunk list \<Rightarrow> string option" where
  "source_bytes [] = Some []"
| "source_bytes (ReadFails # src) = None"
| "source_bytes (Data c # src) = (if c = [] then Some [] else map_option ((@) c) (source_bytes src))"

lemma bounded_loop_peak:
  "int (length dst) \<le> m \<Longrightarrow> int (length (snd (bounded_loop (Some m) src (int (length dst)) dst))) \<le> m"
  by (induction "Some m" src "int (length dst)" dst arbitrary: dst rule: bounded_loop.induct) (auto simp: Let_def)

lemma bounded_loop_result:
  "int (length dst) \<le> m \<Longrightarrow>
   (case bounded_loop (Some m) src (int (length dst)) dst of
      (Inl e, _) \<Rightarrow> (\<forall>bs. source_bytes src = Some bs \<longrightarrow> m < int (length dst) + int (length bs))
    | (Inr u, out) \<Rightarrow> \<exists>bs. source_bytes src = Some bs \<and> out = dst @ bs \<and> int (length out) \<le> m)"
proof (induction src arbitrary: dst)
  case Nil
  then show ?case by simp
next
  case (Cons x src)
  show ?case
  proof (cases x)
    case (Data c)
    show ?thesis
    proof (cases "c \<noteq> [] \<and> int (length dst) + int (length c) \<le> m")
      case True
      with Cons.IH [of "dst @ c"] Data show ?thesis by (auto simp: Let_def split: prod.splits sum.splits)
    next
      case False
      with Data Cons.prems show ?thesis by (auto simp: Let_def)
    qed
  qed simp
qed

lemma limit_loop_same:
  "snd (limit_loop m src w dst) = snd (bounded_loop (Some m) src w dst) \<and>
   (\<exists>n. fst (limit_loop m src w dst) = Inr n) = (fst (bounded_loop (Some m) src w dst) = Inr ())"
proof (induction src arbitrary: w dst)
  case (Cons x src)
  then show ?case by (cases x) (auto simp: Let_def)
qed simp

lemma copy_with_limit_same: "snd (copy_with_limit m src) = snd (bounded_copy (Some m) src)"
  using limit_loop_same [of m src 0 "[]"]
  by (auto simp: copy_with_limit_def bounded_copy_def split: prod.splits sum.splits)

text \<open>
  Decompression never puts more than the limit on disk, not even for a moment, and ends either
  with exactly the bytes of the source, when they fit, or with no file at all.
\<close>

theorem decompression_is_bounded_and_exact:
  assumes "0 \<le> m"
  shows "int (length (snd (bounded_loop (Some m) src 0 []))) \<le> m \<and>
    snd (bounded_copy (Some m) src) =
      (case source_bytes src of
         Some bs \<Rightarrow> if int (length bs) \<le> m then Some bs else None
       | None \<Rightarrow> None) \<and>
    (fst (bounded_copy (Some m) src) = Inr () \<longleftrightarrow> snd (bounded_copy (Some m) src) \<noteq> None)"
  using assms bounded_loop_peak [of "[]" m src] bounded_loop_result [of "[]" m src]
  by (auto simp: bounded_copy_def split: prod.splits sum.splits option.splits)

lemma decompression_is_bounded_and_exact_witness:
  "snd (bounded_copy (Some 3) [Data ''ab'', Data ''cd'']) = None"
  using decompression_is_bounded_and_exact [of 3 "[Data ''ab'', Data ''cd'']"]
  by (simp add: bounded_copy_def)

section \<open>Member names\<close>

definition name_seg :: "string \<Rightarrow> bool" where
  "name_seg s \<longleftrightarrow> s \<notin> {'''', ''.'', ''..''} \<and> CHR ''/'' \<notin> set s \<and> CHR 0x5C \<notin> set s"

definition pieces :: "string \<Rightarrow> string list" where
  "pieces name =
     filter (\<lambda>p. p \<notin> {'''', ''.'', ''..''}) (split_on CHR ''/'' (replace_char CHR 0x5C CHR ''/'' name))"

lemma normalize_pieces: "normalize_member_name name = join_on CHR ''/'' (pieces name)"
  by (simp add: normalize_member_name_def pieces_def)

lemma pieces_ok: "p \<in> set (pieces name) \<Longrightarrow> name_seg p"
proof -
  assume p: "p \<in> set (pieces name)"
  let ?s = "replace_char CHR 0x5C CHR ''/'' name"
  from p have q: "p \<in> set (split_on CHR ''/'' ?s)" by (simp add: pieces_def)
  then have "CHR ''/'' \<notin> set p" by (rule split_on_pieces)
  moreover have "CHR 0x5C \<notin> set p"
    using set_split_on [OF q] by (auto simp: replace_char_def split: if_splits)
  ultimately show ?thesis using p by (auto simp: name_seg_def pieces_def)
qed

lemma join_segs_split:
  "ps \<noteq> [] \<Longrightarrow> \<forall>p \<in> set ps. name_seg p \<Longrightarrow> split_on CHR ''/'' (join_on CHR ''/'' ps) = ps"
  by (rule split_join) (auto simp: name_seg_def)

lemma join_segs_empty: "\<forall>p \<in> set ps. name_seg p \<Longrightarrow> join_on CHR ''/'' ps = '''' \<longleftrightarrow> ps = []"
  by (induction "CHR ''/''" ps rule: join_on.induct) (auto simp: name_seg_def)

lemma pieces_join:
  assumes "\<forall>p \<in> set ps. name_seg p"
  shows "pieces (join_on CHR ''/'' ps) = ps"
proof (cases "ps = []")
  case True
  then show ?thesis by (simp add: pieces_def replace_char_def)
next
  case False
  have "CHR 0x5C \<notin> set (join_on CHR ''/'' ps)"
    using assms by (auto simp: name_seg_def dest!: set_join_on)
  then have "replace_char CHR 0x5C CHR ''/'' (join_on CHR ''/'' ps) = join_on CHR ''/'' ps"
    by (auto simp: replace_char_def intro: map_idI)
  with False assms show ?thesis
    by (auto simp: pieces_def join_segs_split name_seg_def filter_id_conv)
qed

lemma normalize_idem: "normalize_member_name (normalize_member_name n) = normalize_member_name n"
  using pieces_ok by (simp add: normalize_pieces pieces_join)

lemma resolved_name:
  assumes "resolve_member_name lib local filename (normalize_member_name requested) = Inr raw"
  shows "normalize_member_name raw = normalize_member_name requested"
proof -
  from assms obtain ms :: "archive_member list" where "(case find (\<lambda>m. am_name m = normalize_member_name requested) ms of
      Some m \<Rightarrow> Inr (am_name m)
    | None \<Rightarrow>
        (case find (\<lambda>m. \<not> am_is_dir m \<and> normalize_member_name (am_name m) = normalize_member_name requested) ms of
           Some m \<Rightarrow> Inr (am_name m)
         | None \<Rightarrow> Inr (normalize_member_name requested))) = (Inr raw :: archive_error + string)"
    by (auto simp: resolve_member_name_def bindE_Inr_iff)
  then show ?thesis by (auto simp: normalize_idem dest: found split: option.split_asm)
qed

text \<open>
  The member that is extracted is the one the rules were asked about: whatever raw names a
  crafted archive gives its members, the raw name opened for a requested member has that member's
  normalized name.
\<close>

theorem extracted_member_is_the_checked_one:
  assumes "resolve_member_name lib local filename (normalize_member_name requested) = Inr raw"
  shows "normalize_member_name raw = normalize_member_name requested"
  using assms by (rule resolved_name)

lemma extracted_member_is_the_checked_one_witness:
  "normalize_member_name ''.//a/../b.log'' = normalize_member_name ''a/b.log''"
  by (rule extracted_member_is_the_checked_one [where filename = "''x.zip''" and local = "''''"
        and lib = "\<lparr>al_zip_members = \<lambda>_. Inr [\<lparr>am_name = ''.//a/../b.log'', am_size = 3, am_is_dir = False\<rparr>],
          al_zip_open = \<lambda>_ _. Inr [], al_tar_members = \<lambda>_. Inr [], al_tar_open = \<lambda>_ _. Inr None,
          al_gzip_open = \<lambda>_. Inr []\<rparr>"])
    code_simp

section \<open>An archive as a folder tree\<close>

text \<open>Where a member shows up among the children of a folder: the child's name, and as a folder or not.\<close>

definition child_of :: "string \<Rightarrow> archive_member \<Rightarrow> (string \<times> bool) option" where
  "child_of member_dir m =
     (let pre = (if member_dir \<noteq> '''' then member_dir @ ''/'' else '''');
          name = normalize_member_name (am_name m);
          (head, rest) = partition_on CHR ''/'' (drop (length pre) name)
      in if name = '''' \<or> \<not> prefix pre name \<or> name = member_dir then None
         else Some (pre @ head, rest \<noteq> '''' \<or> am_is_dir m))"

lemma add_child_eq:
  "add_child d m ch =
     (case child_of d m of
        None \<Rightarrow> ch
      | Some (c, True) \<Rightarrow>
          (if map_of ch c = None then AList.update c \<lparr>am_name = c, am_size = 0, am_is_dir = True\<rparr> ch else ch)
      | Some (c, False) \<Rightarrow> AList.update c \<lparr>am_name = c, am_size = am_size m, am_is_dir = False\<rparr> ch)"
  by (auto simp: add_child_def child_of_def Let_def split: prod.splits)

lemma segs_split_prefix:
  assumes ps: "\<forall>p \<in> set ps. name_seg p" and qs: "\<forall>p \<in> set qs. name_seg p" "qs \<noteq> []"
    and pre: "join_on CHR ''/'' ps = join_on CHR ''/'' qs @ CHR ''/'' # x"
  shows "\<exists>rs. rs \<noteq> [] \<and> ps = qs @ rs \<and> x = join_on CHR ''/'' rs"
proof -
  have "ps \<noteq> []" using pre by auto
  then have "ps = split_on CHR ''/'' (join_on CHR ''/'' qs @ CHR ''/'' # x)"
    using ps by (simp add: join_segs_split pre [symmetric])
  also have "\<dots> = qs @ split_on CHR ''/'' x"
    using qs by (simp add: split_on_append_gen join_segs_split)
  finally show ?thesis by (intro exI [of _ "split_on CHR ''/'' x"]) simp
qed

lemma partition_segs:
  assumes "\<forall>p \<in> set (r # rs). name_seg p"
  shows "partition_on CHR ''/'' (join_on CHR ''/'' (r # rs)) = (r, join_on CHR ''/'' rs)"
proof -
  have r: "CHR ''/'' \<notin> set r" using assms by (simp add: name_seg_def)
  show ?thesis
  proof (cases rs)
    case Nil
    from r have t: "takeWhile (\<lambda>x. x \<noteq> CHR ''/'') r = r"
      by (auto simp: takeWhile_eq_all_conv)
    from r have d: "dropWhile (\<lambda>x. x \<noteq> CHR ''/'') r = []"
      by (auto simp: dropWhile_eq_Nil_conv)
    show ?thesis by (simp only: partition_on_def Nil join_on.simps t d drop_Nil)
  next
    case (Cons s ss)
    have "takeWhile (\<lambda>x. x \<noteq> CHR ''/'') (r @ CHR ''/'' # t) = r"
      "dropWhile (\<lambda>x. x \<noteq> CHR ''/'') (r @ CHR ''/'' # t) = CHR ''/'' # t" for t
      using r by (induction r) auto
    with Cons show ?thesis by (simp add: partition_on_def)
  qed
qed

lemma child_of_pieces:
  assumes qs: "\<forall>q \<in> set qs. name_seg q"
  shows "child_of (join_on CHR ''/'' qs) m = Some (c, b) \<longleftrightarrow>
    (\<exists>h t. pieces (am_name m) = qs @ h # t \<and> c = join_on CHR ''/'' (qs @ [h]) \<and> b = (t \<noteq> [] \<or> am_is_dir m))"
    (is "?l \<longleftrightarrow> ?r")
proof -
  let ?ps = "pieces (am_name m)" and ?d = "join_on CHR ''/'' qs"
  have ps: "\<forall>p \<in> set ?ps. name_seg p" using pieces_ok by blast
  have one: "child_of ?d m = Some (join_on CHR ''/'' (qs @ [h]), t \<noteq> [] \<or> am_is_dir m)" if p: "?ps = qs @ h # t" for h t
  proof -
    have ht: "\<forall>q \<in> set (h # t). name_seg q" using ps p by simp
    show ?thesis
    proof (cases "qs = []")
      case True
      with p ht join_segs_empty [OF ht] join_segs_empty [of t] show ?thesis
        by (auto simp: child_of_def normalize_pieces partition_segs)
    next
      case False
      then have n: "normalize_member_name (am_name m) = ?d @ CHR ''/'' # join_on CHR ''/'' (h # t)"
        by (simp add: normalize_pieces p join_on_append)
      from False show ?thesis
        using qs ht join_segs_empty [of t] join_segs_empty [OF qs]
        by (simp add: child_of_def n partition_segs join_on_append Let_def)
    qed
  qed
  have "\<exists>h t. ?ps = qs @ h # t" if l: ?l
  proof (cases "qs = []")
    case True
    from l have "?ps \<noteq> []" by (auto simp: child_of_def normalize_pieces Let_def split: prod.splits if_splits)
    with True show ?thesis by (simp add: neq_Nil_conv)
  next
    case False
    with qs have "?d \<noteq> ''''" by (simp add: join_segs_empty)
    with l have "prefix (?d @ ''/'') (join_on CHR ''/'' ?ps)"
      by (auto simp: child_of_def normalize_pieces Let_def split: prod.splits if_splits)
    then obtain x where "join_on CHR ''/'' ?ps = ?d @ CHR ''/'' # x" by (auto simp: prefix_def)
    from segs_split_prefix [OF ps qs False this] show ?thesis by (auto simp: neq_Nil_conv)
  qed
  with one show ?thesis by auto
qed

text \<open>What the dict of children holds after the loop.\<close>

definition children_ok :: "string \<Rightarrow> archive_member list \<Rightarrow> (string \<times> archive_member) list \<Rightarrow> bool" where
  "children_ok d ms ch \<longleftrightarrow> distinct (map fst ch) \<and>
     (\<forall>c. case map_of ch c of
            None \<Rightarrow> (\<forall>m \<in> set ms. \<forall>b. child_of d m \<noteq> Some (c, b))
          | Some v \<Rightarrow> am_name v = c \<and> (\<exists>m \<in> set ms. \<exists>b. child_of d m = Some (c, b)) \<and>
              (am_is_dir v \<longleftrightarrow> \<not> (\<exists>m \<in> set ms. child_of d m = Some (c, False))))"

lemma children_ok_add:
  assumes "children_ok d ms ch"
  shows "children_ok d (ms @ [m]) (add_child d m ch)"
proof (cases "child_of d m")
  case None
  then have "add_child d m ch = ch" by (simp add: add_child_eq)
  with None assms show ?thesis by (simp add: children_ok_def cong: option.case_cong)
next
  case (Some cb)
  then obtain c b where m: "child_of d m = Some (c, b)" by (cases cb) auto
  have "case map_of (add_child d m ch) c' of
          None \<Rightarrow> (\<forall>x \<in> set (ms @ [m]). \<forall>b. child_of d x \<noteq> Some (c', b))
        | Some v \<Rightarrow> am_name v = c' \<and> (\<exists>x \<in> set (ms @ [m]). \<exists>b. child_of d x = Some (c', b)) \<and>
            (am_is_dir v \<longleftrightarrow> \<not> (\<exists>x \<in> set (ms @ [m]). child_of d x = Some (c', False)))" for c'
  proof -
    from assms have "case map_of ch c' of
          None \<Rightarrow> (\<forall>m \<in> set ms. \<forall>b. child_of d m \<noteq> Some (c', b))
        | Some v \<Rightarrow> am_name v = c' \<and> (\<exists>m \<in> set ms. \<exists>b. child_of d m = Some (c', b)) \<and>
            (am_is_dir v \<longleftrightarrow> \<not> (\<exists>m \<in> set ms. child_of d m = Some (c', False)))"
      by (simp add: children_ok_def)
    then show ?thesis
      by (cases b; cases "c' = c"; cases "map_of ch c'") (auto simp: add_child_eq m update_conv')
  qed
  moreover have "distinct (map fst (add_child d m ch))"
    using assms by (cases b) (auto simp: add_child_eq m children_ok_def distinct_update)
  ultimately show ?thesis by (simp add: children_ok_def)
qed

lemma children_ok_fold: "children_ok d ms (fold (add_child d) ms [])"
proof (induction ms rule: rev_induct)
  case (snoc m ms)
  from children_ok_add [OF this, of m] show ?case by simp
qed (simp add: children_ok_def)

lemma tree_children_iff:
  "(\<exists>c \<in> set (tree_children ms d). am_name c = n \<and> am_is_dir c = b) \<longleftrightarrow>
   (\<exists>m \<in> set ms. \<exists>b'. child_of d m = Some (n, b')) \<and>
   (b \<longleftrightarrow> \<not> (\<exists>m \<in> set ms. child_of d m = Some (n, False)))"
proof -
  let ?ch = "fold (add_child d) ms []"
  have ok: "children_ok d ms ?ch" by (rule children_ok_fold)
  then have mem: "map_of ?ch k = Some v \<longleftrightarrow> (k, v) \<in> set ?ch" for k v by (simp add: children_ok_def)
  have "(\<exists>c \<in> set (tree_children ms d). am_name c = n \<and> am_is_dir c = b) \<longleftrightarrow>
    (\<exists>v. map_of ?ch n = Some v \<and> am_is_dir v = b)"
  proof -
    have "am_name v = k" if "(k, v) \<in> set ?ch" for k v
      using ok that unfolding mem [symmetric] children_ok_def by (auto split: option.splits dest: spec [of _ k])
    then show ?thesis unfolding mem by (force simp: tree_children_def)
  qed
  also have "\<dots> \<longleftrightarrow> (\<exists>m \<in> set ms. \<exists>b'. child_of d m = Some (n, b')) \<and>
   (b \<longleftrightarrow> \<not> (\<exists>m \<in> set ms. child_of d m = Some (n, False)))"
    using ok unfolding children_ok_def by (cases "map_of ?ch n") (auto dest!: spec [of _ n])
  finally show ?thesis .
qed

text \<open>
  What a folder of an archive shows is what the members say, whatever they are called: an entry
  \<open>seg\<close> below the folder with segments \<open>qs\<close> is shown exactly when some member's normalized
  name continues \<open>qs\<close> with \<open>seg\<close>, and it is shown as a file exactly when a file has that name.
\<close>

theorem archive_folder_shows_the_members:
  assumes "\<forall>q \<in> set qs. name_seg q"
  shows "(\<exists>c \<in> set (tree_children ms (join_on CHR ''/'' qs)). am_name c = n \<and> am_is_dir c = b) \<longleftrightarrow>
    (\<exists>seg. n = join_on CHR ''/'' (qs @ [seg]) \<and>
       (\<exists>m \<in> set ms. \<exists>t. pieces (am_name m) = qs @ seg # t) \<and>
       (b \<longleftrightarrow> \<not> (\<exists>m \<in> set ms. pieces (am_name m) = qs @ [seg] \<and> \<not> am_is_dir m)))"
  unfolding tree_children_iff child_of_pieces [OF assms]
proof -
  have inj: "s = s'" if "join_on CHR ''/'' (qs @ [s]) = join_on CHR ''/'' (qs @ [s'])" for s s'
    using that by (cases "qs = []") (auto simp: join_on_append)
  show "(\<exists>m \<in> set ms. \<exists>b' h t. pieces (am_name m) = qs @ h # t \<and> n = join_on CHR ''/'' (qs @ [h]) \<and>
        b' = (t \<noteq> [] \<or> am_is_dir m)) \<and>
      (b \<longleftrightarrow> \<not> (\<exists>m \<in> set ms. \<exists>h t. pieces (am_name m) = qs @ h # t \<and> n = join_on CHR ''/'' (qs @ [h]) \<and>
        False = (t \<noteq> [] \<or> am_is_dir m))) \<longleftrightarrow>
      (\<exists>seg. n = join_on CHR ''/'' (qs @ [seg]) \<and>
         (\<exists>m \<in> set ms. \<exists>t. pieces (am_name m) = qs @ seg # t) \<and>
         (b \<longleftrightarrow> \<not> (\<exists>m \<in> set ms. pieces (am_name m) = qs @ [seg] \<and> \<not> am_is_dir m)))"
  proof (cases "\<exists>seg. n = join_on CHR ''/'' (qs @ [seg])")
    case True
    then obtain seg where n: "n = join_on CHR ''/'' (qs @ [seg])" ..
    have eq: "n = join_on CHR ''/'' (qs @ [h]) \<longleftrightarrow> h = seg" for h using inj n by blast
    show ?thesis unfolding eq by auto
  qed blast
qed

lemma archive_folder_shows_the_members_witness:
  "\<exists>c \<in> set (tree_children [\<lparr>am_name = ''../logs//a.txt'', am_size = 7, am_is_dir = False\<rparr>] (join_on CHR ''/'' [''logs''])).
     am_name c = ''logs/a.txt'' \<and> am_is_dir c = False"
  by (subst archive_folder_shows_the_members [of "[''logs'']"])
    (simp add: name_seg_def,
     rule exI [of _ "''a.txt''"], simp add: pieces_def replace_char_def)

end
