(* ===== verification/Scratch.thy ===== *)
theory Scratch
  imports Prelude "HOL-Library.AList"
begin

text \<open>
  \<open>app/scratch.py\<close>: the scratch store that holds the fetched files of open viewers. The state is
  the dict of entries and the bytes of the files on disk; a clock value and a uuid are arguments.
  Clock values are whole ticks of the monotonic clock. Every method runs under the lock of the
  store, so it is one step.
\<close>

section \<open>State and operations\<close>

record scratch_entry =
  se_key :: string
  se_paths :: "string list"
  se_refcount :: int
  se_last_accessed :: int

record scratch_store =
  ss_root :: string
  ss_max_bytes :: int
  ss_entries :: "(string \<times> scratch_entry) list"
  ss_files :: "(string \<times> string) list"

definition new_store :: "string \<Rightarrow> int \<Rightarrow> scratch_store" where
  "new_store root max_bytes =
     \<lparr>ss_root = root, ss_max_bytes = max_bytes, ss_entries = [], ss_files = []\<rparr>"

definition entry_size :: "(string \<times> string) list \<Rightarrow> scratch_entry \<Rightarrow> int" where
  "entry_size files e =
     sum_list (map (\<lambda>p. case map_of files p of None \<Rightarrow> 0 | Some bytes \<Rightarrow> int (length bytes)) (se_paths e))"

definition scratch_path :: "string \<Rightarrow> string \<Rightarrow> string \<Rightarrow> string" where
  "scratch_path root key uuid = root @ ''/'' @ key @ ''-'' @ uuid"

definition acquire :: "string \<Rightarrow> string \<Rightarrow> int \<Rightarrow> scratch_store \<Rightarrow> string \<times> scratch_store" where
  "acquire key uuid now st =
     (let entry =
            (case map_of (ss_entries st) key of
               None \<Rightarrow> \<lparr>se_key = key, se_paths = [], se_refcount = 0, se_last_accessed = now\<rparr>
             | Some e \<Rightarrow> e);
          path = scratch_path (ss_root st) key uuid;
          entry' = entry\<lparr>se_paths := se_paths entry @ [path],
                         se_refcount := se_refcount entry + 1, se_last_accessed := now\<rparr>
      in (path, st\<lparr>ss_entries := AList.update key entry' (ss_entries st)\<rparr>))"

definition delete_entry :: "scratch_entry \<Rightarrow> scratch_store \<Rightarrow> scratch_store" where
  "delete_entry e st =
     st\<lparr>ss_files := filter (\<lambda>f. fst f \<notin> set (se_paths e)) (ss_files st),
        ss_entries := AList.delete (se_key e) (ss_entries st)\<rparr>"

definition release :: "string \<Rightarrow> scratch_store \<Rightarrow> scratch_store" where
  "release key st =
     (case map_of (ss_entries st) key of
        None \<Rightarrow> st
      | Some e \<Rightarrow>
          (let e' = e\<lparr>se_refcount := max 0 (se_refcount e - 1)\<rparr>;
               st' = st\<lparr>ss_entries := AList.update key e' (ss_entries st)\<rparr>
           in if se_refcount e' = 0 then delete_entry e' st' else st'))"

definition touch :: "string \<Rightarrow> int \<Rightarrow> scratch_store \<Rightarrow> scratch_store" where
  "touch key now st =
     (case map_of (ss_entries st) key of
        None \<Rightarrow> st
      | Some e \<Rightarrow>
          st\<lparr>ss_entries := AList.update key (e\<lparr>se_last_accessed := now\<rparr>) (ss_entries st)\<rparr>)"

definition sweep_idle :: "int \<Rightarrow> int \<Rightarrow> scratch_store \<Rightarrow> nat \<times> scratch_store" where
  "sweep_idle idle now st =
     (let stale = filter (\<lambda>e. now - se_last_accessed e > idle) (map snd (ss_entries st))
      in (length stale, fold delete_entry stale st))"

definition total_bytes :: "scratch_store \<Rightarrow> int" where
  "total_bytes st = sum_list (map (\<lambda>x. entry_size (ss_files st) (snd x)) (ss_entries st))"

text \<open>The loop of the size guard: the bytes in use, the entries evicted so far, the store.\<close>

fun evict :: "scratch_entry list \<Rightarrow> int \<Rightarrow> nat \<Rightarrow> scratch_store \<Rightarrow> nat \<times> scratch_store" where
  "evict [] used n st = (n, st)"
| "evict (e # es) used n st =
     (if used \<le> ss_max_bytes st then (n, st)
      else evict es (used - entry_size (ss_files st) e) (n + 1) (delete_entry e st))"

definition enforce_size_guard :: "scratch_store \<Rightarrow> nat \<times> scratch_store" where
  "enforce_size_guard st =
     (let used = total_bytes st in
      if used \<le> ss_max_bytes st then (0, st)
      else evict
             (sort_key se_last_accessed
               (filter (\<lambda>e. se_refcount e = 0) (map snd (ss_entries st)))) used 0 st)"

section \<open>The store as a machine\<close>

text \<open>
  \<open>Fetch\<close> is the caller of \<open>acquire\<close> writing the file it was given a path for, once. It is
  refused for a path no entry holds. \<open>Acquire\<close> is refused when the uuid was drawn before for this
  key, which a random uuid never is.
\<close>

datatype scratch_op =
    Acquire string string int
  | Fetch string string string
  | Release string
  | Touch string int
  | Sweep int int
  | Guard

datatype scratch_refusal = UuidTaken | NotAcquired

fun exec_scratch :: "scratch_op \<Rightarrow> scratch_store \<Rightarrow> scratch_refusal + scratch_store" where
  "exec_scratch (Acquire key uuid now) st =
     (if \<exists>x \<in> set (ss_entries st). scratch_path (ss_root st) key uuid \<in> set (se_paths (snd x))
      then Inl UuidTaken else Inr (snd (acquire key uuid now st)))"
| "exec_scratch (Fetch key path n) st =
     (case map_of (ss_entries st) key of
        None \<Rightarrow> Inl NotAcquired
      | Some e \<Rightarrow>
          if path \<in> set (se_paths e) \<and> map_of (ss_files st) path = None
          then Inr (st\<lparr>ss_files := ss_files st @ [(path, n)]\<rparr>) else Inl NotAcquired)"
| "exec_scratch (Release key) st = Inr (release key st)"
| "exec_scratch (Touch key now) st = Inr (touch key now st)"
| "exec_scratch (Sweep idle now) st = Inr (snd (sweep_idle idle now st))"
| "exec_scratch Guard st = Inr (snd (enforce_size_guard st))"

definition entry_ok :: "string \<times> scratch_entry \<Rightarrow> bool" where
  "entry_ok x \<longleftrightarrow> se_key (snd x) = fst x \<and> 0 < se_refcount (snd x) \<and>
     se_refcount (snd x) \<le> int (length (se_paths (snd x)))"

text \<open>
  Every entry is in use, no path belongs to two entries, and every file on disk belongs to an
  entry.
\<close>

definition scratch_inv :: "scratch_store \<Rightarrow> bool" where
  "scratch_inv st \<longleftrightarrow>
     distinct (map fst (ss_entries st)) \<and>
     (\<forall>x \<in> set (ss_entries st). entry_ok x) \<and>
     (\<forall>x \<in> set (ss_entries st). \<forall>y \<in> set (ss_entries st). \<forall>p \<in> set (se_paths (snd x)).
        p \<in> set (se_paths (snd y)) \<longrightarrow> fst x = fst y) \<and>
     (\<forall>f \<in> set (ss_files st). \<exists>x \<in> set (ss_entries st). fst f \<in> set (se_paths (snd x)))"

section \<open>The invariant\<close>

lemma entry_in_store:
  "scratch_inv st \<Longrightarrow> map_of (ss_entries st) k = Some e \<longleftrightarrow> (k, e) \<in> set (ss_entries st)"
  by (simp add: scratch_inv_def)

lemma entry_is_ok: "scratch_inv st \<Longrightarrow> map_of (ss_entries st) k = Some e \<Longrightarrow> entry_ok (k, e)"
  by (auto simp: entry_in_store scratch_inv_def)

lemma paths_apart:
  "scratch_inv st \<Longrightarrow> (k, e) \<in> set (ss_entries st) \<Longrightarrow> (k', e') \<in> set (ss_entries st) \<Longrightarrow> k \<noteq> k' \<Longrightarrow>
   p \<in> set (se_paths e) \<Longrightarrow> p \<notin> set (se_paths e')"
  by (fastforce simp: scratch_inv_def)

text \<open>One entry may change, or be added, as long as its new paths are its own.\<close>

lemma store_entry_inv:
  assumes inv: "scratch_inv st" and ok: "entry_ok (k, e)"
    and old: "\<And>e0. (k, e0) \<in> set (ss_entries st) \<Longrightarrow> set (se_paths e0) \<subseteq> set (se_paths e)"
    and new: "\<And>x p. x \<in> set (ss_entries st) \<Longrightarrow> fst x \<noteq> k \<Longrightarrow> p \<in> set (se_paths e) \<Longrightarrow> p \<notin> set (se_paths (snd x))"
  shows "scratch_inv (st\<lparr>ss_entries := AList.update k e (ss_entries st)\<rparr>)"
proof -
  let ?es = "ss_entries st"
  have d: "distinct (map fst ?es)" using inv by (simp add: scratch_inv_def)
  then have s: "set (AList.update k e ?es) = insert (k, e) {x \<in> set ?es. fst x \<noteq> k}"
    by (rule set_alist_update)
  have files: "\<exists>x \<in> set (AList.update k e ?es). fst f \<in> set (se_paths (snd x))" if "f \<in> set (ss_files st)" for f
  proof -
    from inv that obtain x where x: "x \<in> set ?es" "fst f \<in> set (se_paths (snd x))"
      by (auto simp: scratch_inv_def)
    show ?thesis
    proof (cases "fst x = k")
      case True
      with x old [of "snd x"] have "fst f \<in> set (se_paths e)" by (cases x) auto
      then show ?thesis by (simp add: s)
    next
      case False
      with x have "x \<in> set (AList.update k e ?es)" by (simp add: s)
      with x(2) show ?thesis by blast
    qed
  qed
  have apart: "fst x = fst y"
    if "x \<in> insert (k, e) {x \<in> set ?es. fst x \<noteq> k}" "y \<in> insert (k, e) {x \<in> set ?es. fst x \<noteq> k}"
      "p \<in> set (se_paths (snd x))" "p \<in> set (se_paths (snd y))" for x y p
  proof -
    have "fst x = fst y" if "x \<in> set ?es" "y \<in> set ?es"
      using that \<open>p \<in> set (se_paths (snd x))\<close> \<open>p \<in> set (se_paths (snd y))\<close> inv unfolding scratch_inv_def by blast
    then show ?thesis using that new [of x p] new [of y p] by auto
  qed
  have "\<forall>x \<in> set (AList.update k e ?es). entry_ok x"
    using inv ok by (auto simp: s scratch_inv_def)
  moreover have "\<forall>x \<in> set (AList.update k e ?es). \<forall>y \<in> set (AList.update k e ?es).
      \<forall>p \<in> set (se_paths (snd x)). p \<in> set (se_paths (snd y)) \<longrightarrow> fst x = fst y"
    unfolding s using apart by blast
  ultimately show ?thesis
    using d files by (simp add: scratch_inv_def distinct_update)
qed

text \<open>An entry is deleted with all the paths the store has under its key.\<close>

definition covers :: "scratch_entry \<Rightarrow> scratch_store \<Rightarrow> bool" where
  "covers e st \<longleftrightarrow> (\<forall>x \<in> set (ss_entries st). fst x = se_key e \<longrightarrow> set (se_paths (snd x)) \<subseteq> set (se_paths e))"

lemma covers_delete: "covers e st \<Longrightarrow> covers e (delete_entry d st)"
  by (auto simp: covers_def delete_entry_def set_alist_delete)

lemma covers_stored: "scratch_inv st \<Longrightarrow> x \<in> set (ss_entries st) \<Longrightarrow> covers (snd x) st"
proof -
  assume inv: "scratch_inv st" and x: "x \<in> set (ss_entries st)"
  then have k: "se_key (snd x) = fst x" by (auto simp: scratch_inv_def entry_ok_def)
  from inv have d: "distinct (map fst (ss_entries st))" by (simp add: scratch_inv_def)
  have "y = x" if "y \<in> set (ss_entries st)" "fst y = fst x" for y
    using that x d by (metis eq_key_imp_eq_value prod.collapse)
  then show ?thesis by (auto simp: covers_def k)
qed

lemma delete_entry_inv:
  assumes inv: "scratch_inv st" and c: "covers e st"
  shows "scratch_inv (delete_entry e st)"
proof -
  have kept: "\<exists>x \<in> set (AList.delete (se_key e) (ss_entries st)). fst f \<in> set (se_paths (snd x))"
    if "f \<in> set (ss_files st)" "fst f \<notin> set (se_paths e)" for f
  proof -
    from inv that(1) obtain x where x: "x \<in> set (ss_entries st)" "fst f \<in> set (se_paths (snd x))"
      by (auto simp: scratch_inv_def)
    with c that(2) have "fst x \<noteq> se_key e" by (auto simp: covers_def)
    with x show ?thesis unfolding set_alist_delete by blast
  qed
  from inv have "distinct (map fst (AList.delete (se_key e) (ss_entries st)))"
    by (simp add: scratch_inv_def distinct_delete)
  with inv kept show ?thesis
    by (simp add: scratch_inv_def delete_entry_def) (simp add: set_alist_delete)
qed

lemma delete_entries_inv:
  "scratch_inv st \<Longrightarrow> \<forall>e \<in> set es. covers e st \<Longrightarrow> scratch_inv (fold delete_entry es st)"
  by (induction es arbitrary: st) (auto intro: delete_entry_inv covers_delete)

lemma release_cases:
  assumes "scratch_inv st" "map_of (ss_entries st) k = Some e"
  shows "release k st =
    (if se_refcount e = 1 then delete_entry e st
     else st\<lparr>ss_entries := AList.update k (e\<lparr>se_refcount := se_refcount e - 1\<rparr>) (ss_entries st)\<rparr>)"
  using entry_is_ok [OF assms] assms(2)
  by (auto simp: release_def entry_ok_def delete_entry_def Let_def max_def delete_update_same)

text \<open>No entry of a store in use has a reference count of 0, so the guard has no candidate.\<close>

lemma guard_idle: "scratch_inv st \<Longrightarrow> enforce_size_guard st = (0, st)"
proof -
  assume "scratch_inv st"
  then have "filter (\<lambda>e. se_refcount e = 0) (map snd (ss_entries st)) = []"
    by (fastforce simp: filter_empty_conv scratch_inv_def entry_ok_def)
  then show ?thesis by (simp add: enforce_size_guard_def Let_def)
qed

lemma stored_refcount_inv:
  assumes "scratch_inv st" "map_of (ss_entries st) k = Some e" "entry_ok (k, e')" "se_paths e' = se_paths e"
  shows "scratch_inv (st\<lparr>ss_entries := AList.update k e' (ss_entries st)\<rparr>)"
proof (rule store_entry_inv [OF assms(1,3)])
  from assms(1,2) have e: "(k, e) \<in> set (ss_entries st)" by (simp add: entry_in_store)
  show "set (se_paths e0) \<subseteq> set (se_paths e')" if "(k, e0) \<in> set (ss_entries st)" for e0
    using that assms(1,2,4) by (simp add: entry_in_store [symmetric])
  show "p \<notin> set (se_paths (snd x))"
    if "x \<in> set (ss_entries st)" "fst x \<noteq> k" "p \<in> set (se_paths e')" for x p
    using that paths_apart [OF assms(1) e, of "fst x" "snd x"] assms(4) by auto
qed

lemma acquire_inv:
  assumes inv: "scratch_inv st"
    and free: "\<forall>x \<in> set (ss_entries st). scratch_path (ss_root st) k u \<notin> set (se_paths (snd x))"
  shows "scratch_inv (snd (acquire k u now st))"
proof (cases "map_of (ss_entries st) k")
  case None
  then have "(k, e0) \<notin> set (ss_entries st)" for e0 by (auto simp: map_of_eq_None_iff image_iff)
  with None free show ?thesis
    by (auto simp: acquire_def Let_def entry_ok_def intro!: store_entry_inv [OF inv])
next
  case (Some e)
  from inv Some have e: "(k, e) \<in> set (ss_entries st)" by (simp add: entry_in_store)
  have only: "e0 = e" if "(k, e0) \<in> set (ss_entries st)" for e0
    using that inv Some by (simp add: entry_in_store [symmetric])
  define e' where "e' = e\<lparr>se_paths := se_paths e @ [scratch_path (ss_root st) k u],
    se_refcount := se_refcount e + 1, se_last_accessed := now\<rparr>"
  have "scratch_inv (st\<lparr>ss_entries := AList.update k e' (ss_entries st)\<rparr>)"
  proof (rule store_entry_inv [OF inv])
    show "entry_ok (k, e')"
      using entry_is_ok [OF inv Some] by (simp add: entry_ok_def e'_def)
    show "set (se_paths e0) \<subseteq> set (se_paths e')" if "(k, e0) \<in> set (ss_entries st)" for e0
      using only [OF that] by (auto simp: e'_def)
    show "p \<notin> set (se_paths (snd x))"
      if "x \<in> set (ss_entries st)" "fst x \<noteq> k" "p \<in> set (se_paths e')" for x p
      using that free paths_apart [OF inv e, of "fst x" "snd x"] by (auto simp: e'_def)
  qed
  then show ?thesis using Some by (simp add: acquire_def e'_def Let_def)
qed

lemma exec_scratch_inv:
  assumes inv: "scratch_inv st" and x: "exec_scratch x st = Inr st'"
  shows "scratch_inv st'"
proof (cases x)
  case (Acquire k u now)
  with x acquire_inv [OF inv] show ?thesis by (auto split: if_splits)
next
  case (Fetch k p n)
  with x obtain e where e: "map_of (ss_entries st) k = Some e" "p \<in> set (se_paths e)"
      "st' = st\<lparr>ss_files := ss_files st @ [(p, n)]\<rparr>"
    by (auto split: option.splits if_splits)
  from e(1) have "(k, e) \<in> set (ss_entries st)" by (rule map_of_SomeD)
  with e(2) have "\<exists>x \<in> set (ss_entries st). p \<in> set (se_paths (snd x))" by force
  with inv show ?thesis unfolding e(3) by (simp add: scratch_inv_def)
next
  case (Release k)
  show ?thesis
  proof (cases "map_of (ss_entries st) k")
    case None
    with x Release inv show ?thesis by (simp add: release_def)
  next
    case (Some e)
    with inv have "covers e st" "entry_ok (k, e)"
      using covers_stored [of st "(k, e)"] entry_is_ok by (auto simp: entry_in_store)
    with x Release Some inv show ?thesis
      by (auto simp: release_cases entry_ok_def intro!: delete_entry_inv stored_refcount_inv)
  qed
next
  case (Touch k now)
  show ?thesis
  proof (cases "map_of (ss_entries st) k")
    case (Some e)
    with x Touch inv entry_is_ok [OF inv Some] show ?thesis
      by (auto simp: touch_def entry_ok_def intro!: stored_refcount_inv)
  qed (use x Touch inv in \<open>simp add: touch_def\<close>)
next
  case (Sweep idle now)
  have "scratch_inv (fold delete_entry (filter P (map snd (ss_entries st))) st)" for P
    by (rule delete_entries_inv [OF inv]) (auto dest: covers_stored [OF inv])
  with x Sweep show ?thesis by (auto simp: sweep_idle_def Let_def)
next
  case Guard
  with x inv show ?thesis by (simp add: guard_idle)
qed

interpretation scr: guarded_machine exec_scratch scratch_inv
  by unfold_locales (rule exec_scratch_inv)

lemma new_store_inv: "scratch_inv (new_store root max_bytes)"
  by (simp add: scratch_inv_def new_store_def)

section \<open>What the store promises\<close>

text \<open>
  The abstract store: for every key, how many viewers have it open and when it was last used.
  Files, paths and the size limit are gone.
\<close>

type_synonym viewers = "string \<rightharpoonup> int \<times> int"

definition viewers_of :: "scratch_store \<Rightarrow> viewers" where
  "viewers_of st = (\<lambda>k. map_option (\<lambda>e. (se_refcount e, se_last_accessed e)) (map_of (ss_entries st) k))"

fun viewers_step :: "scratch_op \<Rightarrow> viewers \<Rightarrow> viewers" where
  "viewers_step (Acquire k u now) v = v(k \<mapsto> (case v k of None \<Rightarrow> (1, now) | Some (n, t) \<Rightarrow> (n + 1, now)))"
| "viewers_step (Fetch k p n) v = v"
| "viewers_step (Release k) v =
     (case v k of None \<Rightarrow> v | Some (n, t) \<Rightarrow> if n = 1 then v(k := None) else v(k \<mapsto> (n - 1, t)))"
| "viewers_step (Touch k now) v = (case v k of None \<Rightarrow> v | Some (n, t) \<Rightarrow> v(k \<mapsto> (n, now)))"
| "viewers_step (Sweep idle now) v =
     (\<lambda>k. case v k of None \<Rightarrow> None | Some (n, t) \<Rightarrow> if now - t > idle then None else Some (n, t))"
| "viewers_step Guard v = v"

lemma map_of_delete_entry:
  "map_of (ss_entries (delete_entry e st)) k = (if k = se_key e then None else map_of (ss_entries st) k)"
  by (simp add: delete_entry_def delete_conv')

lemma map_of_delete_entries:
  "map_of (ss_entries (fold delete_entry es st)) k =
     (if k \<in> se_key ` set es then None else map_of (ss_entries st) k)"
  by (induction es arbitrary: st) (auto simp: map_of_delete_entry)

lemma files_delete_entry:
  "map_of (ss_files (delete_entry e st)) p = (if p \<in> set (se_paths e) then None else map_of (ss_files st) p)"
proof -
  have "map_of (filter (\<lambda>f. fst f \<notin> A) fs) p = (if p \<in> A then None else map_of fs p)" for A and fs :: "(string \<times> string) list"
    by (induction fs) auto
  then show ?thesis by (simp add: delete_entry_def)
qed

lemma swept_keys:
  assumes "scratch_inv st"
  shows "k \<in> se_key ` set (filter P (map snd (ss_entries st))) \<longleftrightarrow>
    (\<exists>e. map_of (ss_entries st) k = Some e \<and> P e)"
proof -
  have "se_key e = k" if "(k, e) \<in> set (ss_entries st)" for k e
    using that assms by (auto simp: scratch_inv_def entry_ok_def)
  then show ?thesis using assms by (force simp: entry_in_store)
qed

lemma swept_entries:
  assumes "scratch_inv st"
  shows "map_of (ss_entries (snd (sweep_idle idle now st))) k =
    (case map_of (ss_entries st) k of
       None \<Rightarrow> None | Some e \<Rightarrow> if now - se_last_accessed e > idle then None else Some e)"
  unfolding sweep_idle_def Let_def snd_conv map_of_delete_entries swept_keys [OF assms]
  by (auto split: option.splits)

lemma release_entries:
  assumes "scratch_inv st" "map_of (ss_entries st) k = Some e"
  shows "map_of (ss_entries (release k st)) =
    (map_of (ss_entries st))(k := if se_refcount e = 1 then None else Some (e\<lparr>se_refcount := se_refcount e - 1\<rparr>))"
  using entry_is_ok [OF assms]
  by (auto simp: release_cases [OF assms] map_of_delete_entry update_conv' entry_ok_def)

lemma viewers_exec:
  assumes inv: "scratch_inv st" and "exec_scratch x st = Inr st'"
  shows "viewers_of st' = viewers_step x (viewers_of st)"
proof (cases x)
  case (Acquire k u now)
  with assms(2) show ?thesis
    by (auto simp: viewers_of_def acquire_def Let_def update_conv' fun_eq_iff split: if_splits option.splits)
next
  case (Fetch k p n)
  with assms(2) show ?thesis by (auto simp: viewers_of_def split: option.splits if_splits)
next
  case (Release k)
  show ?thesis
  proof (cases "map_of (ss_entries st) k")
    case None
    with assms(2) Release show ?thesis by (simp add: viewers_of_def release_def)
  next
    case (Some e)
    from release_entries [OF inv Some] show ?thesis
      using assms(2) Release Some by (auto simp: viewers_of_def fun_eq_iff)
  qed
next
  case (Touch k now)
  with assms(2) show ?thesis
    by (auto simp: viewers_of_def touch_def update_conv' fun_eq_iff split: option.splits)
next
  case (Sweep idle now)
  with assms(2) swept_entries [OF inv, of idle now] show ?thesis
    by (auto simp: viewers_of_def fun_eq_iff split: option.splits)
next
  case Guard
  with assms(2) inv show ?thesis by (simp add: guard_idle)
qed

text \<open>
  C21: The scratch store implements the reference count of viewers per key: every operation on a
  reached store changes the viewers as the abstract operation says. Only closing and the idle sweep
  take viewers away; the size guard and the fetches leave them as they are.
\<close>

theorem scratch_refines_viewer_counts:
  assumes "scr.reaches (new_store root limit) st" "exec_scratch x st = Inr st'"
  shows "viewers_of st' = viewers_step x (viewers_of st)"
  using scr.reaches_inv [OF assms(1) new_store_inv] assms(2) by (rule viewers_exec)

lemma scratch_refines_viewer_counts_witness:
  "viewers_of (release ''k'' (snd (acquire ''k'' ''u1'' 5 (new_store ''/tmp'' 10)))) =
   viewers_step (Release ''k'') (viewers_of (snd (acquire ''k'' ''u1'' 5 (new_store ''/tmp'' 10))))"
proof (rule scratch_refines_viewer_counts [where root = "''/tmp''" and limit = 10])
  show "scr.reaches (new_store ''/tmp'' 10) (snd (acquire ''k'' ''u1'' 5 (new_store ''/tmp'' 10)))"
    by (rule scr.reaches_step [OF scr.reaches_refl, of "Acquire ''k'' ''u1'' 5"]) (simp add: new_store_def)
qed simp

text \<open>
  The size guard evicts nothing, on any store the operations reach: the release of the last
  viewer deletes the entry at once, so there never is an entry without a viewer to evict.
\<close>

theorem size_guard_never_evicts:
  "enforce_size_guard (scr.run_ops ops (new_store root limit)) = (0, scr.run_ops ops (new_store root limit))"
  by (rule guard_idle [OF scr.run_inv [OF new_store_inv]])

text \<open>
  The releases of a key in a run take no more references than others hold: \<open>d\<close> is the number of
  references others hold so far. A sweep of idle entries is not allowed.
\<close>

fun others_release :: "string \<Rightarrow> scratch_op list \<Rightarrow> int \<Rightarrow> scratch_store \<Rightarrow> bool" where
  "others_release k [] d st \<longleftrightarrow> True"
| "others_release k (x # xs) d st \<longleftrightarrow>
     (case exec_scratch x st of
        Inl _ \<Rightarrow> others_release k xs d st
      | Inr st' \<Rightarrow>
          (case x of
             Acquire k' _ _ \<Rightarrow> others_release k xs (if k' = k then d + 1 else d) st'
           | Release k' \<Rightarrow> if k' = k then 0 < d \<and> others_release k xs (d - 1) st' else others_release k xs d st'
           | Sweep _ _ \<Rightarrow> False
           | _ \<Rightarrow> others_release k xs d st'))"

definition held :: "string \<Rightarrow> string \<Rightarrow> string \<Rightarrow> int \<Rightarrow> scratch_store \<Rightarrow> bool" where
  "held k p n d st \<longleftrightarrow> scratch_inv st \<and> map_of (ss_files st) p = Some n \<and>
     (\<exists>e. map_of (ss_entries st) k = Some e \<and> p \<in> set (se_paths e) \<and> se_refcount e = d + 1)"

lemma held_acquire:
  assumes "held k p n d st" "exec_scratch (Acquire k' u now) st = Inr st'"
  shows "held k p n (if k' = k then d + 1 else d) st'"
proof -
  have "scratch_inv st'" using assms(1) exec_scratch_inv [OF _ assms(2)] by (simp add: held_def)
  with assms show ?thesis
    by (auto simp: held_def acquire_def Let_def update_conv' split: if_splits)
qed

lemma held_release:
  assumes h: "held k p n d st" and d: "k' = k \<Longrightarrow> 0 < d"
  shows "held k p n (if k' = k then d - 1 else d) (release k' st)"
proof (cases "map_of (ss_entries st) k'")
  case None
  with h show ?thesis by (auto simp: held_def release_def)
next
  case (Some e)
  from h have inv: "scratch_inv st" by (simp add: held_def)
  then have "scratch_inv (release k' st)" using exec_scratch_inv [of st "Release k'"] by simp
  moreover have "map_of (ss_files (release k' st)) p = Some n"
  proof (cases "k' = k")
    case True
    with h d Some show ?thesis by (auto simp: held_def release_cases)
  next
    case False
    from h obtain e0 where "(k, e0) \<in> set (ss_entries st)" "p \<in> set (se_paths e0)"
      by (auto simp: held_def dest: map_of_SomeD)
    with Some False inv have "p \<notin> set (se_paths e)" by (auto simp: entry_in_store dest: paths_apart)
    with h Some show ?thesis by (auto simp: held_def release_cases files_delete_entry)
  qed
  ultimately show ?thesis using h d Some by (auto simp: held_def release_entries)
qed

lemma held_run: "held k p n d st \<Longrightarrow> others_release k ops d st \<Longrightarrow> \<exists>d'. held k p n d' (scr.run_ops ops st)"
proof (induction ops arbitrary: d st)
  case Nil
  then show ?case by auto
next
  case (Cons x xs)
  show ?case
  proof (cases "exec_scratch x st")
    case (Inl e)
    with Cons show ?thesis by auto
  next
    case (Inr st')
    from Cons.prems(1) have inv: "scratch_inv st" by (simp add: held_def)
    then have inv': "scratch_inv st'" using Inr by (rule exec_scratch_inv)
    have "\<exists>d'. held k p n d' st' \<and> others_release k xs d' st'"
    proof (cases x)
      case (Acquire k' u now)
      with held_acquire [OF Cons.prems(1), of k' u now st'] Inr Cons.prems(2) show ?thesis by auto
    next
      case (Fetch k' p' m)
      with Inr inv' Cons.prems show ?thesis
        by (auto simp: held_def map_add_def split: option.splits if_splits)
    next
      case (Release k')
      with held_release [OF Cons.prems(1), of k'] Inr Cons.prems(2) show ?thesis by (auto split: if_splits)
    next
      case (Touch k' now)
      with Inr inv' Cons.prems show ?thesis
        by (auto simp: held_def touch_def update_conv' split: option.splits)
    qed (use Inr inv Cons.prems in \<open>auto simp: guard_idle\<close>)
    with Cons.IH Inr show ?thesis by auto
  qed
qed

text \<open>
  A file an open viewer fetched stays on disk as it was written, whatever other viewers open and
  close and however often the size guard runs, as long as the other viewers close no more often
  than they opened and the idle sweep does not run.
\<close>

theorem open_file_survives:
  assumes "scr.reaches (new_store root limit) st"
    and "exec_scratch (Acquire k u now) st = Inr st1"
    and "exec_scratch (Fetch k (scratch_path (ss_root st) k u) n) st1 = Inr st2"
    and "others_release k ops (case viewers_of st k of None \<Rightarrow> 0 | Some (c, _) \<Rightarrow> c) st2"
  shows "map_of (ss_files (scr.run_ops ops st2)) (scratch_path (ss_root st) k u) = Some n"
proof -
  let ?p = "scratch_path (ss_root st) k u" and ?d = "case viewers_of st k of None \<Rightarrow> 0 | Some (c, _) \<Rightarrow> c"
  have inv: "scratch_inv st2"
    using scr.reaches_inv [OF assms(1) new_store_inv] assms(2,3) exec_scratch_inv by blast
  have st1: "st1 = snd (acquire k u now st)" using assms(2) by (simp split: if_splits)
  have "held k ?p n ?d st2"
    using assms(3) inv unfolding st1
    by (auto simp: held_def acquire_def Let_def viewers_of_def update_conv' map_add_def split: option.splits if_splits)
  from held_run [OF this assms(4)] show ?thesis by (auto simp: held_def)
qed

lemma open_file_survives_witness:
  "map_of (ss_files (scr.run_ops
      [Acquire ''k'' ''b'' 2, Release ''k'', Guard]
      ((snd (acquire ''k'' ''a'' 1 (new_store ''/s'' 10)))\<lparr>ss_files := [(''/s/k-a'', ''line'')]\<rparr>)))
     (scratch_path (ss_root (new_store ''/s'' 10)) ''k'' ''a'') = Some ''line''"
  by (rule open_file_survives [OF scr.reaches_refl, where root = "''/s''" and limit = 10 and now = 1
        and ?st1.0 = "snd (acquire ''k'' ''a'' 1 (new_store ''/s'' 10))"])
    (simp_all add: new_store_def scratch_path_def acquire_def viewers_of_def release_def Let_def)

end
