(* ===== verification/FileAccess.thy ===== *)
theory FileAccess
  imports LocalFiles Archives Scratch Rbac
begin

text \<open>
  \<open>app/api/archive.py\<close>: browse, open, close, download and the ZIP of a folder, composed from the
  rules, the capabilities, the connectors, the archives, the scratch store and the audit log. The
  state is the database and the scratch store. The connectors of the remote protocols, the archive
  libraries, SHA-256 and the configured limits are parameters; a uuid and the clock are arguments.
\<close>

section \<open>Connectors and configuration\<close>

text \<open>
  What \<open>fetch_file\<close> does to a destination that was empty: its result and the bytes it wrote. An
  exception may leave bytes.
\<close>

type_synonym fetched = "(source_error + unit) \<times> string option"

record connector =
  co_list :: lister
  co_fetch :: "source \<Rightarrow> string \<Rightarrow> fetched"
  co_copy :: "source \<Rightarrow> string \<Rightarrow> source_error + string"

record file_env =
  fe_env :: env
  fe_re2 :: re2_engine
  fe_sha256_hex :: "string \<Rightarrow> string"
  fe_connectors :: "protocol \<Rightarrow> connector option"
  fe_local :: local_fs
  fe_library :: archive_library
  fe_max_decompressed_bytes :: int
  fe_max_fetch_bytes :: int

text \<open>Every way a request ends that is not an answer; \<open>FetchRefused\<close> is the 413 of \<open>_fetch_too_large\<close>.\<close>

datatype file_error =
    Http api_error
  | FromSource source_error
  | FromArchive archive_error
  | FetchRefused bool "int option" int
  | DecompressionRefused
  | FromLocal local_error

definition local_connector :: "re2_engine \<Rightarrow> local_fs \<Rightarrow> connector" where
  "local_connector re2 fs =
     \<lparr>co_list = local_list_directory re2 fs,
      co_fetch = (\<lambda>s path. case local_copy fs s path of Inl e \<Rightarrow> (Inl e, None) | Inr bytes \<Rightarrow> (Inr (), Some bytes)),
      co_copy = local_copy fs\<rparr>"

definition connectors :: "file_env \<Rightarrow> protocol \<Rightarrow> connector option" where
  "connectors FE p =
     (if p = Local then Some (local_connector (fe_re2 FE) (fe_local FE)) else fe_connectors FE p)"

definition map_error :: "('a \<Rightarrow> 'b) \<Rightarrow> 'a + 'c \<Rightarrow> 'b + 'c" where
  "map_error f r = (case r of Inl e \<Rightarrow> Inl (f e) | Inr x \<Rightarrow> Inr x)"

lemma map_error_Inr [simp, result_simps]: "map_error f r = Inr x \<longleftrightarrow> r = Inr x"
  by (cases r) (simp_all add: map_error_def)

section \<open>Helpers\<close>

definition require_local_source_allowed :: "file_env \<Rightarrow> source \<Rightarrow> file_error + unit" where
  "require_local_source_allowed FE s =
     requireE (\<not> (s_protocol s = Local \<and> \<not> s_is_system s \<and>
        \<not> list_all (base_path_allowed (fe_local FE)) ([s_base_path s] @ map root_path (roots_of s))))
       (Http (forbidden ''This local-disk source is outside the server's allowed directories''))"

definition connector_of :: "file_env \<Rightarrow> source \<Rightarrow> file_error + connector" where
  "connector_of FE s =
     bindE (require_local_source_allowed FE s) (\<lambda>_.
     someE (Http (HTTPException 501 ''protocol not yet supported'')) (connectors FE (s_protocol s)))"

definition rules_for :: "db \<Rightarrow> int \<Rightarrow> rule list" where
  "rules_for d source_id = filter (\<lambda>r. r_source_id r = source_id) (rules d)"

definition scratch_key :: "file_env \<Rightarrow> int \<Rightarrow> string \<Rightarrow> string option \<Rightarrow> string" where
  "scratch_key FE source_id path member =
     fe_sha256_hex FE (show_int source_id @ '':'' @ path @ '':'' @ (case member of None \<Rightarrow> '''' | Some m \<Rightarrow> m))"

definition require_safe_path :: "source \<Rightarrow> string \<Rightarrow> file_error + unit" where
  "require_safe_path s path =
     (let safe = is_safe_relative_path path;
          safe = (if safe \<and> rules_case_insensitive s then is_safe_windows_relative_path path else safe)
      in requireE safe (Http (HTTPException 400 ''invalid path'')))"

text \<open>The loop over the segments: \<open>i\<close> counts those already passed.\<close>

fun first_archive :: "nat \<Rightarrow> string list \<Rightarrow> nat option" where
  "first_archive i [] = None"
| "first_archive i (segment # segments) = (if is_archive segment then Some i else first_archive (i + 1) segments)"

definition split_archive_path :: "string \<Rightarrow> (string \<times> string) option" where
  "split_archive_path path =
     (if path = '''' then None
      else
        let segments = split_on CHR ''/'' path in
        case first_archive 0 segments of
          None \<Rightarrow> None
        | Some i \<Rightarrow> Some (join_on CHR ''/'' (take (i + 1) segments), join_on CHR ''/'' (drop (i + 1) segments)))"

definition last_segment :: "string \<Rightarrow> string" where
  "last_segment path = last (split_on CHR ''/'' path)"

definition dir_visible :: "source \<Rightarrow> string \<Rightarrow> rule list \<Rightarrow> bool" where
  "dir_visible s path rs = is_dir_visible (rules_case_insensitive s) path rs"

definition entry_visible :: "file_env \<Rightarrow> source \<Rightarrow> string \<Rightarrow> bool \<Rightarrow> rule list \<Rightarrow> bool" where
  "entry_visible FE s path is_dir rs = is_entry_visible (fe_re2 FE) (rules_case_insensitive s) path is_dir rs"

definition visible :: "file_env \<Rightarrow> source \<Rightarrow> string \<Rightarrow> rule list \<Rightarrow> bool" where
  "visible FE s path rs = is_visible (fe_re2 FE) (rules_case_insensitive s) path rs"

definition not_found_error :: file_error where
  "not_found_error = Http (not_found ''not found'')"

definition fetch_too_large :: "file_env \<Rightarrow> bool \<Rightarrow> int option \<Rightarrow> int option \<Rightarrow> file_error" where
  "fetch_too_large FE folder bytes limit =
     FetchRefused folder bytes (case limit of None \<Rightarrow> fe_max_fetch_bytes FE | Some l \<Rightarrow> l)"

text \<open>\<open>except DecompressionLimitError\<close> in \<open>_materialize\<close>.\<close>

definition archive_failure :: "archive_error \<Rightarrow> file_error" where
  "archive_failure e = (if e = DecompressionLimitError then DecompressionRefused else FromArchive e)"

section \<open>Fetching one file\<close>

text \<open>The result of \<open>_materialize\<close> and the bytes at the destination afterwards.\<close>

definition materialize ::
  "file_env \<Rightarrow> source \<Rightarrow> string \<Rightarrow> string option \<Rightarrow> rule list \<Rightarrow> (file_error + string) \<times> string option" where
  "materialize FE s path member rs =
     (if \<not> visible FE s path rs then (Inl not_found_error, None)
      else
        case connector_of FE s of
          Inl e \<Rightarrow> (Inl e, None)
        | Inr connector \<Rightarrow>
            let filename = last_segment path in
            (case member of
               Some m \<Rightarrow>
                 if \<not> is_archive filename then (Inl (Http (HTTPException 400 ''not an archive'')), None)
                 else
                   let m = normalize_member_name m in
                   if m = '''' \<or> \<not> visible FE s (path @ ''/'' @ m) rs then (Inl not_found_error, None)
                   else
                     (case connector_fetch (co_copy connector) s path of
                        Inl e \<Rightarrow> (Inl (FromSource e), None)
                      | Inr local \<Rightarrow>
                          (case resolve_member_name (fe_library FE) local filename m of
                             Inl e \<Rightarrow> (Inl (archive_failure e), None)
                           | Inr raw_name \<Rightarrow>
                               let (r, dst) = extract_member (fe_library FE) local filename raw_name
                                                (Some (fe_max_decompressed_bytes FE)) None
                               in (bindE (map_error archive_failure r) (\<lambda>_. Inr (last_segment m)), dst)))
             | None \<Rightarrow>
                 if is_transparent_gzip filename then
                   (case connector_fetch (co_copy connector) s path of
                      Inl e \<Rightarrow> (Inl (FromSource e), None)
                    | Inr local \<Rightarrow>
                        let (r, dst) = decompress_gzip (fe_library FE) local (Some (fe_max_decompressed_bytes FE)) None
                        in (bindE (map_error archive_failure r) (\<lambda>_. Inr (take (length filename - 3) filename)), dst))
                 else
                   (case connector_fetch (\<lambda>s p. Inr (co_fetch connector s p)) s path of
                      Inl e \<Rightarrow> (Inl (FromSource e), None)
                    | Inr (r, dst) \<Rightarrow> (bindE (map_error FromSource r) (\<lambda>_. Inr filename), dst))))"

record served =
  sv_path :: string
  sv_filename :: string
  sv_key :: "string option"

definition write_file :: "string \<Rightarrow> string option \<Rightarrow> scratch_store \<Rightarrow> scratch_store" where
  "write_file path bytes st =
     (case bytes of None \<Rightarrow> st | Some b \<Rightarrow> st\<lparr>ss_files := AList.update path b (ss_files st)\<rparr>)"

definition fetch_failure :: "file_env \<Rightarrow> file_error \<Rightarrow> file_error" where
  "fetch_failure FE e =
     (case e of
        FromSource (FetchTooLargeError n limit) \<Rightarrow> fetch_too_large FE False (Some (int n)) (Some (int limit))
      | _ \<Rightarrow> e)"

definition serve_local :: "file_env \<Rightarrow> source \<Rightarrow> string \<Rightarrow> file_error + string" where
  "serve_local FE s path =
     bindE (require_local_source_allowed FE s) (\<lambda>_.
     if is_multi_root s then
       bindE (map_error FromSource (split s path)) (\<lambda>(rooted, inner).
       map_error FromLocal (resolve_path (fe_local FE) rooted inner))
     else map_error FromLocal (resolve_path (fe_local FE) s path))"

definition resolve_content ::
  "file_env \<Rightarrow> string \<Rightarrow> int \<Rightarrow> source \<Rightarrow> string \<Rightarrow> string option \<Rightarrow> rule list \<Rightarrow> scratch_store \<Rightarrow>
   (file_error + served) \<times> scratch_store" where
  "resolve_content FE uuid now s path member rs st =
     (if path = '''' then (Inl (Http (HTTPException 400 ''path is required'')), st)
      else if \<not> visible FE s path rs then (Inl not_found_error, st)
      else
        let filename = last_segment path;
            needs_scratch = (s_protocol s \<noteq> Local \<or> member \<noteq> None \<or> is_transparent_gzip filename)
        in
        if \<not> needs_scratch
        then (bindE (serve_local FE s path) (\<lambda>p. Inr \<lparr>sv_path = p, sv_filename = filename, sv_key = None\<rparr>), st)
        else
          let key = scratch_key FE (s_id s) path member;
              (destination, st1) = acquire key uuid now st;
              (result, bytes) = materialize FE s path member rs;
              st2 = write_file destination bytes st1
          in (case result of
                Inl e \<Rightarrow> (Inl (fetch_failure FE e), release key st2)
              | Inr served_filename \<Rightarrow>
                  (Inr \<lparr>sv_path = destination, sv_filename = served_filename, sv_key = Some key\<rparr>, st2)))"

section \<open>Endpoints\<close>

record file_state =
  fa_db :: db
  fa_store :: scratch_store

text \<open>
  \<open>Depends(require_capability(...))\<close>: the source, when the account may use it; \<open>None\<close> is a
  permission check that does not return.
\<close>

definition with_capability ::
  "user \<Rightarrow> int \<Rightarrow> capability \<Rightarrow> (source \<Rightarrow> file_state \<Rightarrow> (file_error + 'a) \<times> file_state) \<Rightarrow> file_state \<Rightarrow>
   ((file_error + 'a) \<times> file_state) option" where
  "with_capability u source_id cap body st =
     (case require_capability (fa_db st) u source_id cap of
        None \<Rightarrow> None
      | Some (Inl e) \<Rightarrow> Some (Inl (Http e), st)
      | Some (Inr s) \<Rightarrow> Some (body s st))"

definition file_metadata :: "string \<Rightarrow> string option \<Rightarrow> (string \<times> json) list" where
  "file_metadata path member =
     (case member of
        None \<Rightarrow> [(''path'', JStr path)]
      | Some m \<Rightarrow> if m = '''' then [(''path'', JStr path)] else [(''path'', JStr path), (''member'', JStr m)])"

text \<open>The part \<open>open_file\<close> and \<open>download_file\<close> have in common; they differ in the audit action.\<close>

definition serve_file ::
  "string \<Rightarrow> file_env \<Rightarrow> string \<Rightarrow> int \<Rightarrow> user \<Rightarrow> string \<Rightarrow> string option \<Rightarrow> source \<Rightarrow> file_state \<Rightarrow>
   (file_error + served) \<times> file_state" where
  "serve_file action FE uuid now u path member s st =
     (case require_safe_path s path of
        Inl e \<Rightarrow> (Inl e, st)
      | Inr _ \<Rightarrow>
          (case resolve_content FE uuid now s path member (rules_for (fa_db st) (s_id s)) (fa_store st) of
             (Inl e, store) \<Rightarrow> (Inl e, st\<lparr>fa_store := store\<rparr>)
           | (Inr served, store) \<Rightarrow>
               (Inr served,
                \<lparr>fa_db = record_audit_event (fe_env FE) (fa_db st) (fa_db st) (Some (u_id u)) action
                           (Some ''source'') (Some (s_id s)) (Some (file_metadata path member)),
                 fa_store = store\<rparr>)))"

definition open_file ::
  "file_env \<Rightarrow> string \<Rightarrow> int \<Rightarrow> user \<Rightarrow> int \<Rightarrow> string \<Rightarrow> string option \<Rightarrow> file_state \<Rightarrow>
   ((file_error + served) \<times> file_state) option" where
  "open_file FE uuid now u source_id path member =
     with_capability u source_id View (serve_file ''file.open'' FE uuid now u path member)"

definition close_file ::
  "file_env \<Rightarrow> user \<Rightarrow> int \<Rightarrow> string \<Rightarrow> string option \<Rightarrow> file_state \<Rightarrow>
   ((file_error + unit) \<times> file_state) option" where
  "close_file FE u source_id path member =
     with_capability u source_id View (\<lambda>s st.
       case require_safe_path s path of
         Inl e \<Rightarrow> (Inl e, st)
       | Inr _ \<Rightarrow> (Inr (), st\<lparr>fa_store := release (scratch_key FE (s_id s) path member) (fa_store st)\<rparr>))"

definition download_file ::
  "file_env \<Rightarrow> string \<Rightarrow> int \<Rightarrow> user \<Rightarrow> int \<Rightarrow> string \<Rightarrow> string option \<Rightarrow> file_state \<Rightarrow>
   ((file_error + served) \<times> file_state) option" where
  "download_file FE uuid now u source_id path member =
     with_capability u source_id Download (serve_file ''file.download'' FE uuid now u path member)"

text \<open>
  The bytes of the \<open>FileResponse\<close> when it is sent: those in the scratch store, or those of the local
  file; \<open>None\<close> is a file that is not there. \<open>answered_bytes\<close> are those of the answer to a request.
\<close>

definition sent_bytes :: "file_env \<Rightarrow> served \<Rightarrow> scratch_store \<Rightarrow> string option" where
  "sent_bytes FE r st =
     (case sv_key r of
        Some key \<Rightarrow> map_of (ss_files st) (sv_path r)
      | None \<Rightarrow> (case fs_read (fe_local FE) (sv_path r) of Inl e \<Rightarrow> None | Inr bytes \<Rightarrow> Some bytes))"

definition answered_bytes :: "file_env \<Rightarrow> ((file_error + served) \<times> file_state) option \<Rightarrow> string option" where
  "answered_bytes FE answer =
     (case answer of Some (Inr r, st) \<Rightarrow> sent_bytes FE r (fa_store st) | _ \<Rightarrow> None)"

text \<open>The background task of a download, once the response is sent.\<close>

definition download_sent :: "served \<Rightarrow> scratch_store \<Rightarrow> scratch_store" where
  "download_sent r st = (case sv_key r of None \<Rightarrow> st | Some key \<Rightarrow> release key st)"

record browse_entry =
  be_name :: string
  be_path :: string
  be_is_dir :: bool
  be_size :: int
  be_is_archive :: bool

definition member_entry :: "string \<Rightarrow> archive_member \<Rightarrow> browse_entry" where
  "member_entry archive_path child =
     \<lparr>be_name = last_segment (am_name child), be_path = archive_path @ ''/'' @ am_name child,
      be_is_dir = am_is_dir child, be_size = am_size child, be_is_archive = False\<rparr>"

definition listed_entry :: "dir_entry \<Rightarrow> browse_entry" where
  "listed_entry e =
     \<lparr>be_name = de_name e, be_path = de_path e, be_is_dir = de_is_dir e, be_size = de_size e,
      be_is_archive = (\<not> de_is_dir e \<and> is_archive (de_name e))\<rparr>"

text \<open>The listing itself, after the path check and the audit entry.\<close>

definition browse_entries ::
  "file_env \<Rightarrow> source \<Rightarrow> rule list \<Rightarrow> string \<Rightarrow> file_error + browse_entry list" where
  "browse_entries FE s rs path =
     bindE (connector_of FE s) (\<lambda>connector.
     case split_archive_path path of
       Some (archive_path, member_dir) \<Rightarrow>
         bindE (requireE (visible FE s archive_path rs) not_found_error) (\<lambda>_.
         bindE (requireE (member_dir = '''' \<or> dir_visible s path rs) not_found_error) (\<lambda>_.
         bindE (map_error FromSource (connector_fetch (co_copy connector) s archive_path)) (\<lambda>local.
         bindE (map_error FromArchive (list_members (fe_library FE) local (last_segment archive_path))) (\<lambda>members.
         Inr (map (member_entry archive_path)
                (filter (\<lambda>child. entry_visible FE s (archive_path @ ''/'' @ am_name child) (am_is_dir child) rs)
                  (tree_children members member_dir)))))))
     | None \<Rightarrow>
         bindE (requireE (path = '''' \<or> dir_visible s path rs) not_found_error) (\<lambda>_.
         bindE (map_error FromSource (connector_list (fe_re2 FE) (co_list connector) s rs path)) (\<lambda>entries.
         Inr (map listed_entry entries))))"

definition browse ::
  "file_env \<Rightarrow> user \<Rightarrow> int \<Rightarrow> string \<Rightarrow> file_state \<Rightarrow> ((file_error + browse_entry list) \<times> file_state) option" where
  "browse FE u source_id path =
     with_capability u source_id View (\<lambda>s st.
       case require_safe_path s path of
         Inl e \<Rightarrow> (Inl e, st)
       | Inr _ \<Rightarrow>
           let st1 = (if path = ''''
                      then st\<lparr>fa_db := record_audit_event (fe_env FE) (fa_db st) (fa_db st) (Some (u_id u))
                                 ''source.open'' (Some ''source'') (Some (s_id s)) None\<rparr>
                      else st)
           in (browse_entries FE s (rules_for (fa_db st1) (s_id s)) path, st1))"

section \<open>The ZIP of a folder\<close>

text \<open>
  \<open>_zip_entries\<close> on the entries of a listing that are left. It lists folder after folder without
  a bound, so \<open>None\<close> is a walk that does not return.
\<close>

partial_function (option) zip_entries ::
  "file_env \<Rightarrow> connector \<Rightarrow> source \<Rightarrow> rule list \<Rightarrow> dir_entry list \<Rightarrow> (source_error + dir_entry list) option" where
  "zip_entries FE c s rs entries =
     (case entries of
        [] \<Rightarrow> Some (Inr [])
      | e # es \<Rightarrow>
          Option.bind
            (if de_is_dir e then
               (case connector_list (fe_re2 FE) (co_list c) s rs (de_path e) of
                  Inl err \<Rightarrow> Some (Inl err)
                | Inr below \<Rightarrow> zip_entries FE c s rs below)
             else Some (Inr (if visible FE s (de_path e) rs then [e] else [])))
            (\<lambda>r. case r of
                   Inl err \<Rightarrow> Some (Inl err)
                 | Inr found \<Rightarrow>
                     Option.bind (zip_entries FE c s rs es) (\<lambda>rest. Some (bindE rest (\<lambda>xs. Inr (found @ xs))))))"

declare zip_entries.simps [code]

definition zip_fetch_failure :: "file_env \<Rightarrow> source_error \<Rightarrow> file_error" where
  "zip_fetch_failure FE e =
     (case e of
        FetchTooLargeError n limit \<Rightarrow> fetch_too_large FE True (Some (int n)) (Some (int limit))
      | _ \<Rightarrow> FromSource e)"

text \<open>The loop of \<open>_zip_directory\<close>: the entries left, the budget and what the ZIP holds so far.\<close>

fun zip_directory ::
  "file_env \<Rightarrow> connector \<Rightarrow> source \<Rightarrow> string \<Rightarrow> dir_entry list \<Rightarrow> int \<Rightarrow> (string \<times> string) list \<Rightarrow>
   file_error + (string \<times> string) list" where
  "zip_directory FE c s request_root [] remaining zf = Inr zf"
| "zip_directory FE c s request_root (e # es) remaining zf =
     (let arcname = (if request_root \<noteq> '''' then drop (length request_root + 1) (de_path e) else de_path e) in
      case connector_fetch (\<lambda>s p. Inr (co_fetch c s p)) s (de_path e) of
        Inl err \<Rightarrow> Inl (zip_fetch_failure FE err)
      | Inr (Inl err, _) \<Rightarrow> Inl (zip_fetch_failure FE err)
      | Inr (Inr _, dst) \<Rightarrow>
          let bytes = (case dst of None \<Rightarrow> '''' | Some b \<Rightarrow> b);
              remaining = remaining - int (length bytes)
          in if remaining < 0 then Inl (fetch_too_large FE True None None)
             else zip_directory FE c s request_root es remaining (zf @ [(arcname, bytes)]))"

record zip_answer =
  za_filename :: string
  za_content :: "(string \<times> string) list"

text \<open>The collected ZIP, before the audit entry.\<close>

definition collect_zip ::
  "file_env \<Rightarrow> source \<Rightarrow> rule list \<Rightarrow> string \<Rightarrow> (file_error + (string \<times> string) list) option" where
  "collect_zip FE s rs path =
     (case bindE (requireE (path = '''' \<or> dir_visible s path rs) not_found_error) (\<lambda>_. connector_of FE s) of
        Inl e \<Rightarrow> Some (Inl e)
      | Inr c \<Rightarrow>
          (case connector_list (fe_re2 FE) (co_list c) s rs path of
             Inl e \<Rightarrow> Some (Inl (FromSource e))
           | Inr listing \<Rightarrow>
               Option.bind (zip_entries FE c s rs listing) (\<lambda>r.
                 case r of
                   Inl e \<Rightarrow> Some (Inl (FromSource e))
                 | Inr entries \<Rightarrow>
                     let listed = sum_list (map de_size entries) in
                     if listed > fe_max_fetch_bytes FE
                     then Some (Inl (fetch_too_large FE True (Some listed) (Some (fe_max_fetch_bytes FE))))
                     else Some (zip_directory FE c s path entries (fe_max_fetch_bytes FE) []))))"

definition download_folder_zip ::
  "file_env \<Rightarrow> user \<Rightarrow> int \<Rightarrow> string \<Rightarrow> file_state \<Rightarrow> ((file_error + zip_answer) \<times> file_state) option" where
  "download_folder_zip FE u source_id path st =
     (case require_capability (fa_db st) u source_id Download of
        None \<Rightarrow> None
      | Some (Inl e) \<Rightarrow> Some (Inl (Http e), st)
      | Some (Inr s) \<Rightarrow>
          (case require_safe_path s path of
             Inl e \<Rightarrow> Some (Inl e, st)
           | Inr _ \<Rightarrow>
               Option.bind (collect_zip FE s (rules_for (fa_db st) (s_id s)) path) (\<lambda>r.
                 case r of
                   Inl e \<Rightarrow> Some (Inl e, st)
                 | Inr zipped \<Rightarrow>
                     Some (Inr \<lparr>za_filename = (if path \<noteq> '''' then last_segment path else s_name s) @ ''.zip'',
                                za_content = zipped\<rparr>,
                           st\<lparr>fa_db := record_audit_event (fe_env FE) (fa_db st) (fa_db st) (Some (u_id u))
                                ''folder.download'' (Some ''source'') (Some (s_id s))
                                (Some [(''path'', JStr path), (''file_count'', JInt (int (length zipped)))])\<rparr>))))"

section \<open>Only what the rules show leaves the server\<close>

text \<open>
  Two installations that differ only in what the rules hide: the bytes of the files the rules hide
  from a source, and the bytes of the archive members they hide.
\<close>

definition same_where_visible :: "file_env \<Rightarrow> file_env \<Rightarrow> source \<Rightarrow> rule list \<Rightarrow> string \<Rightarrow> bool" where
  "same_where_visible FE FE' s rs path \<longleftrightarrow>
     fe_env FE = fe_env FE' \<and> fe_re2 FE = fe_re2 FE' \<and> fe_sha256_hex FE = fe_sha256_hex FE' \<and>
     fe_max_decompressed_bytes FE = fe_max_decompressed_bytes FE' \<and> fe_max_fetch_bytes FE = fe_max_fetch_bytes FE' \<and>
     fs_realpath (fe_local FE) = fs_realpath (fe_local FE') \<and>
     fs_local_source_roots (fe_local FE) = fs_local_source_roots (fe_local FE') \<and>
     rel_option (\<lambda>c c'. \<forall>p. visible FE s p rs \<longrightarrow>
         connector_fetch (co_copy c) s p = connector_fetch (co_copy c') s p \<and>
         connector_fetch (\<lambda>s p. Inr (co_fetch c s p)) s p = connector_fetch (\<lambda>s p. Inr (co_fetch c' s p)) s p)
       (connectors FE (s_protocol s)) (connectors FE' (s_protocol s)) \<and>
     list_members (fe_library FE) = list_members (fe_library FE') \<and>
     al_gzip_open (fe_library FE) = al_gzip_open (fe_library FE') \<and>
     (\<forall>local raw. visible FE s (path @ ''/'' @ normalize_member_name raw) rs \<longrightarrow>
        al_zip_open (fe_library FE) local raw = al_zip_open (fe_library FE') local raw \<and>
        al_tar_open (fe_library FE) local raw = al_tar_open (fe_library FE') local raw)"

lemma same_local:
  assumes "same_where_visible FE FE' s rs path"
  shows "base_path_allowed (fe_local FE) = base_path_allowed (fe_local FE')"
    and "resolve_path (fe_local FE) = resolve_path (fe_local FE')"
proof -
  have r: "fs_realpath (fe_local FE) = fs_realpath (fe_local FE')"
    "fs_local_source_roots (fe_local FE) = fs_local_source_roots (fe_local FE')"
    using assms by (simp_all add: same_where_visible_def)
  then have "allowed_roots (fe_local FE) = allowed_roots (fe_local FE')" by (simp add: allowed_roots_def)
  with r show b: "base_path_allowed (fe_local FE) = base_path_allowed (fe_local FE')"
    by (simp add: base_path_allowed_def fun_eq_iff)
  show "resolve_path (fe_local FE) = resolve_path (fe_local FE')"
    by (simp add: resolve_path_def base_dir_def r b fun_eq_iff)
qed

lemma same_visible:
  "same_where_visible FE FE' s rs path \<Longrightarrow> visible FE' s p rs = visible FE s p rs"
  by (simp add: same_where_visible_def visible_def)

lemma same_connector:
  assumes "same_where_visible FE FE' s rs path"
  shows "(\<exists>e. connector_of FE s = Inl e \<and> connector_of FE' s = Inl e) \<or>
    (\<exists>c c'. connector_of FE s = Inr c \<and> connector_of FE' s = Inr c' \<and>
       (\<forall>p. visible FE s p rs \<longrightarrow>
         connector_fetch (co_copy c) s p = connector_fetch (co_copy c') s p \<and>
         connector_fetch (\<lambda>s p. Inr (co_fetch c s p)) s p = connector_fetch (\<lambda>s p. Inr (co_fetch c' s p)) s p))"
proof -
  have allowed: "require_local_source_allowed FE s = require_local_source_allowed FE' s"
    by (simp add: require_local_source_allowed_def same_local [OF assms])
  have "rel_option (\<lambda>c c'. \<forall>p. visible FE s p rs \<longrightarrow>
         connector_fetch (co_copy c) s p = connector_fetch (co_copy c') s p \<and>
         connector_fetch (\<lambda>s p. Inr (co_fetch c s p)) s p = connector_fetch (\<lambda>s p. Inr (co_fetch c' s p)) s p)
       (connectors FE (s_protocol s)) (connectors FE' (s_protocol s))"
    using assms by (simp add: same_where_visible_def)
  then show ?thesis
  proof (cases rule: option.rel_cases)
    case None
    then show ?thesis by (cases "require_local_source_allowed FE' s") (simp_all add: connector_of_def allowed)
  next
    case (Some c c')
    then show ?thesis by (cases "require_local_source_allowed FE' s") (simp_all add: connector_of_def allowed)
  qed
qed

lemma same_extract:
  assumes "same_where_visible FE FE' s rs path" "visible FE s (path @ ''/'' @ normalize_member_name raw) rs"
  shows "extract_member (fe_library FE) local filename raw limit old =
    extract_member (fe_library FE') local filename raw limit old"
proof -
  have "al_zip_open (fe_library FE) local raw = al_zip_open (fe_library FE') local raw"
    "al_tar_open (fe_library FE) local raw = al_tar_open (fe_library FE') local raw"
    using assms unfolding same_where_visible_def by blast+
  then show ?thesis by (simp add: extract_member_def)
qed

lemma same_materialize:
  assumes same: "same_where_visible FE FE' s rs path"
  shows "materialize FE s path member rs = materialize FE' s path member rs"
proof (cases "visible FE s path rs")
  case False
  then show ?thesis by (simp add: materialize_def same_visible [OF same])
next
  case vis: True
  note eqs = same_visible [OF same] vis
  from same_connector [OF same] consider (err) e where "connector_of FE s = Inl e" "connector_of FE' s = Inl e"
    | (con) c c' where "connector_of FE s = Inr c" "connector_of FE' s = Inr c'"
      "connector_fetch (co_copy c) s path = connector_fetch (co_copy c') s path"
      "connector_fetch (\<lambda>s p. Inr (co_fetch c s p)) s path = connector_fetch (\<lambda>s p. Inr (co_fetch c' s p)) s path"
    using vis by blast
  then show ?thesis
  proof cases
    case err
    then show ?thesis by (simp add: materialize_def eqs)
  next
    case con
    have lib: "al_gzip_open (fe_library FE) = al_gzip_open (fe_library FE')"
      "fe_max_decompressed_bytes FE = fe_max_decompressed_bytes FE'"
      and members: "list_members (fe_library FE) = list_members (fe_library FE')"
      using same by (simp_all add: same_where_visible_def)
    have res: "resolve_member_name (fe_library FE) = resolve_member_name (fe_library FE')"
      by (simp add: resolve_member_name_def members fun_eq_iff)
    show ?thesis
    proof (cases member)
      case None
      have gz: "decompress_gzip (fe_library FE) = decompress_gzip (fe_library FE')"
        by (simp add: decompress_gzip_def lib fun_eq_iff)
      from con None show ?thesis unfolding materialize_def eqs lib gz by (simp add: Let_def)
    next
      case (Some m)
      have "extract_member (fe_library FE) local f raw limit old = extract_member (fe_library FE') local f raw limit old"
        if "visible FE s (path @ ''/'' @ normalize_member_name m) rs"
          "resolve_member_name (fe_library FE') local f (normalize_member_name m) = Inr raw" for local f raw limit old
        using same_extract [OF same] resolved_name [OF that(2)] that(1) by simp
      with con Some show ?thesis
        by (auto simp: materialize_def eqs lib res Let_def split: sum.splits)
    qed
  qed
qed

lemma same_resolve_content:
  assumes same: "same_where_visible FE FE' s rs path"
  shows "resolve_content FE uuid now s path member rs st = resolve_content FE' uuid now s path member rs st"
proof -
  have k: "scratch_key FE = scratch_key FE'" and l: "fetch_failure FE = fetch_failure FE'"
    using same by (auto simp: same_where_visible_def scratch_key_def fetch_failure_def fetch_too_large_def
        fun_eq_iff split: file_error.splits source_error.splits)
  have a: "require_local_source_allowed FE s = require_local_source_allowed FE' s"
    by (simp add: require_local_source_allowed_def same_local [OF same])
  have s: "serve_local FE s path = serve_local FE' s path"
    unfolding serve_local_def a same_local [OF same] ..
  show ?thesis
    unfolding resolve_content_def k l s same_visible [OF same] same_materialize [OF same] ..
qed

lemma same_serve_file:
  assumes "same_where_visible FE FE' s (rules_for (fa_db st) (s_id s)) path"
  shows "serve_file action FE uuid now u path member s st = serve_file action FE' uuid now u path member s st"
proof -
  have e: "fe_env FE = fe_env FE'" using assms by (simp add: same_where_visible_def)
  show ?thesis unfolding serve_file_def same_resolve_content [OF assms] e ..
qed

lemma with_capability_cong:
  assumes "\<And>s. require_capability (fa_db st) u source_id cap = Some (Inr s) \<Longrightarrow> body s st = body' s st"
  shows "with_capability u source_id cap body st = with_capability u source_id cap body' st"
  using assms by (auto simp: with_capability_def split: option.splits sum.splits)

lemma capability_source:
  "require_capability d u source_id cap = Some (Inr s) \<Longrightarrow> get_source d source_id = Some s"
  by (auto simp: require_capability_def bindO_Inr_iff split: if_splits)

text \<open>A local file that is served from its place on the disk is one the rules show, so it has the same bytes.\<close>

lemma same_local_read:
  assumes same: "same_where_visible FE FE' s rs path" and "s_protocol s = Local" "visible FE s path rs"
    and "serve_local FE s path = Inr t"
  shows "fs_read (fe_local FE) t = fs_read (fe_local FE') t"
proof -
  note paths = same_local [OF same]
  have fetch: "connector_fetch (local_copy (fe_local FE)) s path = connector_fetch (local_copy (fe_local FE')) s path"
    using same assms(2,3) by (simp add: same_where_visible_def connectors_def local_connector_def)
  show ?thesis
  proof (cases "is_multi_root s")
    case True
    with assms(4) obtain rooted inner where "split s path = Inr (rooted, inner)" "resolve_path (fe_local FE) rooted inner = Inr t"
      by (auto simp: serve_local_def bindE_Inr_iff)
    with fetch True show ?thesis
      by (simp add: connector_fetch_def local_copy_def translate_local_def paths(2) [symmetric])
  next
    case False
    with assms(4) have "resolve_path (fe_local FE) s path = Inr t" by (auto simp: serve_local_def bindE_Inr_iff)
    with fetch False show ?thesis
      by (simp add: connector_fetch_def local_copy_def translate_local_def paths(2) [symmetric])
  qed
qed

lemma served_from_disk:
  assumes "serve_file action FE uuid now u path member s st = (Inr r, st')" "sv_key r = None"
  shows "s_protocol s = Local \<and> visible FE s path (rules_for (fa_db st) (s_id s)) \<and> serve_local FE s path = Inr (sv_path r)"
  using assms
  by (auto simp: serve_file_def resolve_content_def bindE_Inr_iff Let_def split: if_splits sum.splits prod.splits)

lemma same_answered_bytes:
  assumes "\<And>s. require_capability (fa_db st) u source_id cap = Some (Inr s) \<Longrightarrow>
      same_where_visible FE FE' s (rules_for (fa_db st) (s_id s)) path"
  shows "answered_bytes FE (with_capability u source_id cap (serve_file action FE uuid now u path member) st) =
    answered_bytes FE' (with_capability u source_id cap (serve_file action FE uuid now u path member) st)"
proof (cases "\<exists>r st'. with_capability u source_id cap (serve_file action FE uuid now u path member) st = Some (Inr r, st')")
  case True
  then obtain r st' s where a: "with_capability u source_id cap (serve_file action FE uuid now u path member) st = Some (Inr r, st')"
    and s: "require_capability (fa_db st) u source_id cap = Some (Inr s)" "serve_file action FE uuid now u path member s st = (Inr r, st')"
    by (auto simp: with_capability_def split: option.splits sum.splits)
  have "fs_read (fe_local FE) (sv_path r) = fs_read (fe_local FE') (sv_path r)" if "sv_key r = None"
    using served_from_disk [OF s(2) that] same_local_read [OF assms [OF s(1)]] by blast
  with a show ?thesis by (simp add: answered_bytes_def sent_bytes_def split: option.split)
next
  case False
  then show ?thesis by (auto simp: answered_bytes_def split: option.splits sum.splits prod.splits)
qed

text \<open>
  C1: What the rules hide stays on the server: opening or downloading a path, or a member of an
  archive, has the same answer, sends the same bytes and has the same effect whatever the bytes of the
  files and of the archive members are that the rules hide from the source. The bytes sent are those of
  the scratch copy or, for a plain file of a local source, those read from the disk.
\<close>

theorem hidden_bytes_never_leave:
  assumes "\<And>s. get_source (fa_db st) source_id = Some s \<Longrightarrow>
    same_where_visible FE FE' s (rules_for (fa_db st) (s_id s)) path"
  shows "open_file FE uuid now u source_id path member st = open_file FE' uuid now u source_id path member st \<and>
    answered_bytes FE (open_file FE uuid now u source_id path member st) =
      answered_bytes FE' (open_file FE' uuid now u source_id path member st) \<and>
    download_file FE uuid now u source_id path member st = download_file FE' uuid now u source_id path member st \<and>
    answered_bytes FE (download_file FE uuid now u source_id path member st) =
      answered_bytes FE' (download_file FE' uuid now u source_id path member st)"
proof -
  have same: "same_where_visible FE FE' s (rules_for (fa_db st) (s_id s)) path"
    if "require_capability (fa_db st) u source_id cap = Some (Inr s)" for s cap
    by (rule assms) (rule capability_source [OF that])
  have answer: "with_capability u source_id cap (serve_file action FE uuid now u path member) st =
      with_capability u source_id cap (serve_file action FE' uuid now u path member) st" for action cap
    by (rule with_capability_cong) (rule same_serve_file [OF same])
  have "answered_bytes FE (with_capability u source_id cap (serve_file action FE uuid now u path member) st) =
      answered_bytes FE' (with_capability u source_id cap (serve_file action FE' uuid now u path member) st)" for action cap
    unfolding answer [symmetric] by (rule same_answered_bytes) (rule same)
  with answer show ?thesis unfolding open_file_def download_file_def by blast
qed

section \<open>Failed requests\<close>

definition unused_path :: "string \<Rightarrow> scratch_store \<Rightarrow> bool" where
  "unused_path path st \<longleftrightarrow> (\<forall>x \<in> set (ss_entries st). path \<notin> set (se_paths (snd x)))"

lemma unused_not_on_disk: "scratch_inv st \<Longrightarrow> unused_path path st \<Longrightarrow> (path, b) \<notin> set (ss_files st)"
  by (fastforce simp: scratch_inv_def unused_path_def)

lemma write_file_fetch:
  assumes inv: "scratch_inv st" and free: "unused_path (scratch_path (ss_root st) key uuid) st"
  shows "scratch_inv (write_file (scratch_path (ss_root st) key uuid) bytes (snd (acquire key uuid now st)))"
    and "viewers_of (write_file (scratch_path (ss_root st) key uuid) bytes (snd (acquire key uuid now st))) =
      viewers_of (snd (acquire key uuid now st))"
proof -
  let ?p = "scratch_path (ss_root st) key uuid" and ?st1 = "snd (acquire key uuid now st)"
  have st1: "scratch_inv ?st1"
    using acquire_inv [OF inv] free by (simp add: unused_path_def)
  have "map_of (ss_files st) ?p = None"
    using unused_not_on_disk [OF inv free] by (auto simp: map_of_eq_None_iff)
  then have x: "exec_scratch (Fetch key ?p b) ?st1 = Inr (?st1\<lparr>ss_files := ss_files st @ [(?p, b)]\<rparr>)" for b
    by (auto simp: acquire_def Let_def update_conv' split: option.splits)
  have "AList.update ?p b (ss_files st) = ss_files st @ [(?p, b)]" for b
    using \<open>map_of (ss_files st) ?p = None\<close> by (rule alist_update_new)
  then have w: "write_file ?p (Some b) ?st1 = ?st1\<lparr>ss_files := ss_files st @ [(?p, b)]\<rparr>" for b
    by (simp add: write_file_def acquire_def Let_def)
  show "scratch_inv (write_file ?p bytes ?st1)"
    using st1 exec_scratch_inv [OF st1 x] w by (cases bytes) (auto simp: write_file_def)
  show "viewers_of (write_file ?p bytes ?st1) = viewers_of ?st1"
    by (cases bytes) (simp_all add: write_file_def viewers_of_def)
qed

lemma failed_store:
  assumes inv: "scratch_inv st" and free: "unused_path (scratch_path (ss_root st) key uuid) st"
  shows "map_option fst (viewers_of (release key (write_file (scratch_path (ss_root st) key uuid) bytes
      (snd (acquire key uuid now st)))) k) = map_option fst (viewers_of st k)"
proof -
  let ?st1 = "snd (acquire key uuid now st)"
    and ?st2 = "write_file (scratch_path (ss_root st) key uuid) bytes (snd (acquire key uuid now st))"
  have "viewers_of ?st1 = viewers_step (Acquire key uuid now) (viewers_of st)"
    using free by (intro viewers_exec [OF inv]) (auto simp: unused_path_def)
  moreover have "viewers_of (release key ?st2) = viewers_step (Release key) (viewers_of ?st2)"
    by (intro viewers_exec [OF write_file_fetch(1) [OF inv free]]) simp
  moreover have "viewers_of st key = Some (n, t) \<Longrightarrow> 0 < n" for n t
    using entry_is_ok [OF inv] by (auto simp: viewers_of_def entry_ok_def)
  ultimately show ?thesis
    by (auto simp: write_file_fetch(2) [OF inv free] split: option.splits)
qed

lemma failed_store_alone:
  assumes inv: "scratch_inv st" and free: "unused_path (scratch_path (ss_root st) key uuid) st"
    and alone: "map_of (ss_entries st) key = None"
  shows "release key (write_file (scratch_path (ss_root st) key uuid) bytes (snd (acquire key uuid now st))) = st"
proof -
  let ?p = "scratch_path (ss_root st) key uuid"
  have files: "filter (\<lambda>f. fst f \<noteq> ?p) (ss_files st) = ss_files st"
    using unused_not_on_disk [OF inv free] by (auto simp: filter_id_conv)
  have "map_of (ss_files st) ?p = None"
    using unused_not_on_disk [OF inv free] by (auto simp: map_of_eq_None_iff)
  then have "filter (\<lambda>f. fst f \<noteq> ?p) (AList.update ?p b (ss_files st)) = ss_files st" for b
    by (simp add: alist_update_new files)
  moreover have "AList.delete key (ss_entries st) = ss_entries st"
    using alone by (auto simp: AList.delete_eq filter_id_conv map_of_eq_None_iff image_iff)
  ultimately show ?thesis
    using alone files
    by (cases bytes) (simp_all add: write_file_def acquire_def release_def delete_entry_def Let_def update_conv'
        delete_update_same)
qed

lemma resolve_content_failure:
  assumes inv: "scratch_inv st" and free: "unused_path (scratch_path (ss_root st) (scratch_key FE (s_id s) path member) uuid) st"
    and r: "resolve_content FE uuid now s path member rs st = (Inl e, st')"
  shows "map_option fst (viewers_of st' k) = map_option fst (viewers_of st k) \<and>
    (viewers_of st (scratch_key FE (s_id s) path member) = None \<longrightarrow> st' = st)"
proof -
  let ?key = "scratch_key FE (s_id s) path member"
  have "fst (acquire ?key uuid now st) = scratch_path (ss_root st) ?key uuid" by (simp add: acquire_def Let_def)
  then have "st' = st \<or> (\<exists>bytes. st' = release ?key (write_file (scratch_path (ss_root st) ?key uuid) bytes
      (snd (acquire ?key uuid now st))))"
    using r by (auto simp: resolve_content_def Let_def split: if_splits prod.splits sum.splits)
  then show ?thesis
    using failed_store [OF inv free] failed_store_alone [OF inv free] by (auto simp: viewers_of_def)
qed

lemma serve_file_failure:
  assumes "serve_file action FE uuid now u path member s st = (Inl e, st')"
  shows "st' = st \<or> (\<exists>store. resolve_content FE uuid now s path member (rules_for (fa_db st) (s_id s)) (fa_store st) =
      (Inl e, store) \<and> st' = st\<lparr>fa_store := store\<rparr>)"
proof (cases "require_safe_path s path")
  case (Inl e')
  with assms show ?thesis by (simp add: serve_file_def)
next
  case (Inr x)
  obtain r store where r: "resolve_content FE uuid now s path member (rules_for (fa_db st) (s_id s)) (fa_store st) = (r, store)"
    by fastforce
  with Inr assms show ?thesis by (cases r) (simp_all add: serve_file_def)
qed

text \<open>
  C20: A request to open or download a file that fails leaves nothing behind: the database is the one
  before, nobody else's view of a file is closed or kept open by it, and when nobody else has the
  same file open the scratch store is exactly the one before.
\<close>

theorem failed_request_leaves_nothing:
  assumes "scr.reaches (new_store root limit) (fa_store st)"
    and "unused_path (scratch_path (ss_root (fa_store st)) (scratch_key FE source_id path member) uuid) (fa_store st)"
    and "open_file FE uuid now u source_id path member st = Some (Inl e, st') \<or>
      download_file FE uuid now u source_id path member st = Some (Inl e, st')"
  shows "fa_db st' = fa_db st \<and>
    map_option fst (viewers_of (fa_store st') k) = map_option fst (viewers_of (fa_store st) k) \<and>
    (viewers_of (fa_store st) (scratch_key FE source_id path member) = None \<longrightarrow> st' = st)"
proof -
  have inv: "scratch_inv (fa_store st)" using assms(1) new_store_inv by (rule scr.reaches_inv)
  from assms(3) obtain cap action where
    w: "with_capability u source_id cap (serve_file action FE uuid now u path member) st = Some (Inl e, st')"
    by (auto simp: open_file_def download_file_def)
  show ?thesis
  proof (cases "require_capability (fa_db st) u source_id cap")
    case (Some r)
    show ?thesis
    proof (cases r)
      case (Inr s)
      with Some have "s_id s = source_id" using tbl_get_Some capability_source by metis
      with Inr Some w have sf: "serve_file action FE uuid now u path member s st = (Inl e, st')"
        by (simp add: with_capability_def)
      show ?thesis
        using serve_file_failure [OF sf]
      proof
        assume "\<exists>store. resolve_content FE uuid now s path member (rules_for (fa_db st) (s_id s)) (fa_store st) =
            (Inl e, store) \<and> st' = st\<lparr>fa_store := store\<rparr>"
        then obtain store where r: "resolve_content FE uuid now s path member (rules_for (fa_db st) (s_id s))
            (fa_store st) = (Inl e, store)" and st': "st' = st\<lparr>fa_store := store\<rparr>" by blast
        from resolve_content_failure [OF inv _ r, of k] assms(2) show ?thesis
          by (simp add: st' \<open>s_id s = source_id\<close>)
      qed simp
    qed (use Some w in \<open>simp add: with_capability_def\<close>)
  qed (use w in \<open>simp add: with_capability_def\<close>)
qed

section \<open>What a folder ZIP holds\<close>

text \<open>The entries a walk from a listing can meet.\<close>

inductive listed :: "file_env \<Rightarrow> connector \<Rightarrow> source \<Rightarrow> rule list \<Rightarrow> dir_entry list \<Rightarrow> dir_entry \<Rightarrow> bool"
  for FE c s rs where
  listed_here: "e \<in> set es \<Longrightarrow> listed FE c s rs es e"
| listed_below: "d \<in> set es \<Longrightarrow> de_is_dir d \<Longrightarrow>
    connector_list (fe_re2 FE) (co_list c) s rs (de_path d) = Inr sub \<Longrightarrow>
    listed FE c s rs sub e \<Longrightarrow> listed FE c s rs es e"

inductive_cases listed_cases: "listed FE c s rs es e"

lemma listed_Nil [simp]: "\<not> listed FE c s rs [] e"
  by (auto elim: listed_cases)

lemma listed_Cons:
  "listed FE c s rs (d # es) e \<longleftrightarrow>
     e = d \<or> (de_is_dir d \<and> (\<exists>sub. connector_list (fe_re2 FE) (co_list c) s rs (de_path d) = Inr sub \<and> listed FE c s rs sub e)) \<or>
     listed FE c s rs es e"
  (is "?l \<longleftrightarrow> ?r")
proof
  show "?l \<Longrightarrow> ?r" by (erule listed_cases) (auto intro: listed_here listed_below)
  have "listed FE c s rs (d # es) e" if "listed FE c s rs es e"
    using that by (rule listed_cases) (auto intro: listed_here listed_below)
  then show "?r \<Longrightarrow> ?l" by (auto intro: listed_here listed_below)
qed

lemma zip_entries_listed:
  assumes "zip_entries FE c s rs es = Some r"
  shows "\<forall>out. r = Inr out \<longrightarrow> set out = {e. listed FE c s rs es e \<and> \<not> de_is_dir e \<and> visible FE s (de_path e) rs}"
proof (rule zip_entries.raw_induct [OF _ assms])
  fix walk :: "file_env \<Rightarrow> connector \<Rightarrow> source \<Rightarrow> rule list \<Rightarrow> dir_entry list \<Rightarrow> (source_error + dir_entry list) option"
    and FE c s rs es r
  assume IH: "\<And>FE c s rs es r. walk FE c s rs es = Some r \<Longrightarrow>
      \<forall>out. r = Inr out \<longrightarrow> set out = {e. listed FE c s rs es e \<and> \<not> de_is_dir e \<and> visible FE s (de_path e) rs}"
    and step: "(case es of
        [] \<Rightarrow> Some (Inr [])
      | e # es \<Rightarrow>
          Option.bind
            (if de_is_dir e then
               (case connector_list (fe_re2 FE) (co_list c) s rs (de_path e) of
                  Inl err \<Rightarrow> Some (Inl err)
                | Inr below \<Rightarrow> walk FE c s rs below)
             else Some (Inr (if visible FE s (de_path e) rs then [e] else [])))
            (\<lambda>r. case r of
                   Inl err \<Rightarrow> Some (Inl err)
                 | Inr found \<Rightarrow>
                     Option.bind (walk FE c s rs es) (\<lambda>rest. Some (bindE rest (\<lambda>xs. Inr (found @ xs)))))) = Some r"
  show "\<forall>out. r = Inr out \<longrightarrow> set out = {e. listed FE c s rs es e \<and> \<not> de_is_dir e \<and> visible FE s (de_path e) rs}"
  proof (cases es)
    case Nil
    with step show ?thesis by auto
  next
    case (Cons d ds)
    show ?thesis
    proof (intro allI impI)
      fix out assume r: "r = Inr out"
      show "set out = {e. listed FE c s rs es e \<and> \<not> de_is_dir e \<and> visible FE s (de_path e) rs}"
      proof (cases "de_is_dir d")
        case True
        with step Cons r obtain sub where
          sub: "connector_list (fe_re2 FE) (co_list c) s rs (de_path d) = Inr sub"
          by (cases "connector_list (fe_re2 FE) (co_list c) s rs (de_path d)") auto
        with step Cons r True obtain y where y: "walk FE c s rs sub = Some y"
          "(case y of Inl err \<Rightarrow> Some (Inl err)
            | Inr found \<Rightarrow> Option.bind (walk FE c s rs ds) (\<lambda>rest. Some (bindE rest (\<lambda>xs. Inr (found @ xs))))) =
           Some (Inr out)"
          by (auto simp: bind_eq_Some_conv)
        then obtain found rest where f: "walk FE c s rs sub = Some (Inr found)"
          and g: "walk FE c s rs ds = Some (Inr rest)" and out: "out = found @ rest"
          by (cases y) (auto simp: bindE_Inr_iff bind_eq_Some_conv)
        show ?thesis
          using IH [OF f] IH [OF g] True sub by (auto simp: out Cons listed_Cons)
      next
        case False
        with step Cons r obtain rest where g: "walk FE c s rs ds = Some (Inr rest)"
          and out: "out = (if visible FE s (de_path d) rs then [d] else []) @ rest"
          by (auto simp: bindE_Inr_iff bind_eq_Some_conv split: if_splits)
        show ?thesis using IH [OF g] False by (auto simp: out Cons listed_Cons)
      qed
    qed
  qed
qed

definition arcname :: "string \<Rightarrow> dir_entry \<Rightarrow> string" where
  "arcname request_root e =
     (if request_root \<noteq> '''' then drop (length request_root + 1) (de_path e) else de_path e)"

definition fetched_bytes :: "connector \<Rightarrow> source \<Rightarrow> dir_entry \<Rightarrow> string" where
  "fetched_bytes c s e =
     (case connector_fetch (\<lambda>s p. Inr (co_fetch c s p)) s (de_path e) of Inr (Inr _, Some b) \<Rightarrow> b | _ \<Rightarrow> '''')"

lemma zip_directory_content:
  "zip_directory FE c s root es remaining zf = Inr out \<Longrightarrow>
   out = zf @ map (\<lambda>e. (arcname root e, fetched_bytes c s e)) es \<and>
   (es = [] \<or> int (sum_list (map (\<lambda>e. length (fetched_bytes c s e)) es)) \<le> remaining)"
proof (induction es arbitrary: remaining zf)
  case Nil
  then show ?case by simp
next
  case (Cons e es)
  obtain dst where f: "connector_fetch (\<lambda>s p. Inr (co_fetch c s p)) s (de_path e) = Inr (Inr (), dst)"
    using Cons.prems by (auto simp: Let_def split: sum.split_asm prod.split_asm)
  have b: "(case dst of None \<Rightarrow> '''' | Some b \<Rightarrow> b) = fetched_bytes c s e"
    by (simp add: fetched_bytes_def f split: option.split)
  from Cons.prems have n: "int (length (fetched_bytes c s e)) \<le> remaining"
    and z: "zip_directory FE c s root es (remaining - int (length (fetched_bytes c s e)))
      (zf @ [(arcname root e, fetched_bytes c s e)]) = Inr out"
    by (simp_all add: f b arcname_def Let_def split: if_splits)
  from Cons.IH [OF z] n show ?case by auto
qed

lemma collect_zip_content:
  assumes "collect_zip FE s rs path = Some (Inr zipped)"
  shows "\<exists>c listing. connector_of FE s = Inr c \<and> connector_list (fe_re2 FE) (co_list c) s rs path = Inr listing \<and>
    set zipped = (\<lambda>e. (arcname path e, fetched_bytes c s e)) `
      {e. listed FE c s rs listing e \<and> \<not> de_is_dir e \<and> visible FE s (de_path e) rs} \<and>
    int (sum_list (map (\<lambda>f. length (snd f)) zipped)) \<le> fe_max_fetch_bytes FE"
proof -
  obtain c where c: "connector_of FE s = Inr c"
    using assms by (cases "connector_of FE s") (auto simp: collect_zip_def requireE_def split: if_splits)
  obtain listing where l: "connector_list (fe_re2 FE) (co_list c) s rs path = Inr listing"
    using assms c
    by (cases "connector_list (fe_re2 FE) (co_list c) s rs path")
      (auto simp: collect_zip_def requireE_def split: if_splits)
  obtain r where r: "zip_entries FE c s rs listing = Some r"
    using assms c l by (auto simp: collect_zip_def requireE_def bind_eq_Some_conv split: if_splits)
  obtain es where es: "r = Inr es"
    using assms c l r by (cases r) (auto simp: collect_zip_def requireE_def split: if_splits)
  have le: "sum_list (map de_size es) \<le> fe_max_fetch_bytes FE"
    and z: "zip_directory FE c s path es (fe_max_fetch_bytes FE) [] = Inr zipped"
    using assms c l r es by (auto simp: collect_zip_def requireE_def Let_def split: if_splits)
  from zip_directory_content [OF z] have zipped: "zipped = map (\<lambda>e. (arcname path e, fetched_bytes c s e)) es"
    and "es = [] \<or> int (sum_list (map (\<lambda>e. length (fetched_bytes c s e)) es)) \<le> fe_max_fetch_bytes FE" by simp_all
  with le have "int (sum_list (map (\<lambda>f. length (snd f)) zipped)) \<le> fe_max_fetch_bytes FE"
    by (auto simp: comp_def)
  moreover have "set es = {e. listed FE c s rs listing e \<and> \<not> de_is_dir e \<and> visible FE s (de_path e) rs}"
    using zip_entries_listed [OF r] es by blast
  ultimately show ?thesis using c l zipped by auto
qed

text \<open>
  C19: A folder ZIP holds exactly the files below the folder the rules show, each under its path relative
  to the folder with the bytes fetched for it, and no more than the configured number of bytes.
\<close>

theorem folder_zip_holds_the_visible_files:
  assumes "download_folder_zip FE u source_id path st = Some (Inr z, st')"
  shows "\<exists>s c listing. get_source (fa_db st) source_id = Some s \<and> connector_of FE s = Inr c \<and>
    connector_list (fe_re2 FE) (co_list c) s (rules_for (fa_db st) source_id) path = Inr listing \<and>
    set (za_content z) = (\<lambda>e. (arcname path e, fetched_bytes c s e)) `
      {e. listed FE c s (rules_for (fa_db st) source_id) listing e \<and> \<not> de_is_dir e \<and>
        visible FE s (de_path e) (rules_for (fa_db st) source_id)} \<and>
    int (sum_list (map (\<lambda>f. length (snd f)) (za_content z))) \<le> fe_max_fetch_bytes FE"
proof -
  obtain s where cap: "require_capability (fa_db st) u source_id Download = Some (Inr s)"
    using assms by (auto simp: download_folder_zip_def split: option.split_asm sum.split_asm)
  then have s: "get_source (fa_db st) source_id = Some s" by (rule capability_source)
  then have i: "s_id s = source_id" by (rule tbl_get_Some [THEN conjunct1])
  from assms cap have "Option.bind (collect_zip FE s (rules_for (fa_db st) source_id) path) (\<lambda>r.
      case r of Inl e \<Rightarrow> Some (Inl e, st)
      | Inr zipped \<Rightarrow> Some (Inr \<lparr>za_filename = (if path \<noteq> '''' then last_segment path else s_name s) @ ''.zip'',
          za_content = zipped\<rparr>, st\<lparr>fa_db := record_audit_event (fe_env FE) (fa_db st) (fa_db st) (Some (u_id u))
            ''folder.download'' (Some ''source'') (Some source_id)
            (Some [(''path'', JStr path), (''file_count'', JInt (int (length zipped)))])\<rparr>)) = Some (Inr z, st')"
    by (cases "require_safe_path s path") (simp_all add: download_folder_zip_def i)
  then have "collect_zip FE s (rules_for (fa_db st) source_id) path = Some (Inr (za_content z))"
    by (cases "collect_zip FE s (rules_for (fa_db st) source_id) path")
      (auto split: sum.split_asm)
  from collect_zip_content [OF this] s show ?thesis by blast
qed

section \<open>What browsing shows\<close>

lemma module_listing_visible:
  assumes "connector_list re2 module s rs path = Inr entries" "e \<in> set entries" "is_multi_root s"
  shows "is_entry_visible re2 (rules_case_insensitive s) (de_path e) (de_is_dir e) rs"
  using assms by (auto simp: connector_list_def list_directory_def list_roots_def bindE_Inr_iff split: if_splits)

lemma connector_of_local:
  "s_protocol s = Local \<Longrightarrow> connector_of FE s = Inr c \<Longrightarrow> c = local_connector (fe_re2 FE) (fe_local FE)"
  by (auto simp: connector_of_def connectors_def bindE_Inr_iff)

lemma browse_entries_visible:
  assumes "browse_entries FE s rs path = Inr entries" "e \<in> set entries"
    and "split_archive_path path \<noteq> None \<or> is_multi_root s \<or> s_protocol s = Local"
  shows "entry_visible FE s (be_path e) (be_is_dir e) rs"
proof (cases "split_archive_path path")
  case None
  obtain c listing d where c: "connector_of FE s = Inr c"
    and l: "connector_list (fe_re2 FE) (co_list c) s rs path = Inr listing" "d \<in> set listing" "e = listed_entry d"
    using assms(1,2) None by (auto simp: browse_entries_def bindE_Inr_iff)
  show ?thesis
  proof (cases "is_multi_root s")
    case True
    with module_listing_visible [OF l(1,2)] show ?thesis by (simp add: l(3) listed_entry_def entry_visible_def)
  next
    case False
    with assms(3) None have p: "s_protocol s = Local" by simp
    with c l(1) False have "local_list_directory (fe_re2 FE) (fe_local FE) s rs path = Inr listing"
      by (auto simp: connector_list_def local_connector_def dest: connector_of_local)
    from local_listing_visible [OF this l(2)] p show ?thesis
      by (simp add: l(3) listed_entry_def entry_visible_def rules_case_insensitive_def)
  qed
next
  case (Some ad)
  with assms(1,2) show ?thesis
    by (cases ad) (auto simp: browse_entries_def bindE_Inr_iff member_entry_def)
qed

lemma rules_for_audit [simp]:
  "rules_for (record_audit_event E seen d u a tt ti m) i = rules_for d i"
  by (simp add: rules_for_def record_audit_event_def)

text \<open>
  Every entry a browse answer lists inside an archive, in a source with several folders or on the
  server's own disk is one the rules show.
\<close>

theorem browse_shows_only_visible_entries:
  assumes "browse FE u source_id path st = Some (Inr entries, st')" "e \<in> set entries"
    and "\<And>s. get_source (fa_db st) source_id = Some s \<Longrightarrow>
      split_archive_path path \<noteq> None \<or> is_multi_root s \<or> s_protocol s = Local"
  shows "\<exists>s. get_source (fa_db st) source_id = Some s \<and>
    entry_visible FE s (be_path e) (be_is_dir e) (rules_for (fa_db st) source_id)"
proof -
  obtain s where cap: "require_capability (fa_db st) u source_id View = Some (Inr s)"
    using assms(1) by (auto simp: browse_def with_capability_def split: option.split_asm sum.split_asm)
  then have s: "get_source (fa_db st) source_id = Some s" by (rule capability_source)
  then have i: "s_id s = source_id" by (rule tbl_get_Some [THEN conjunct1])
  from assms(1) cap have "browse_entries FE s (rules_for (fa_db st) source_id) path = Inr entries"
    by (cases "require_safe_path s path") (auto simp: browse_def with_capability_def i Let_def split: if_splits)
  from browse_entries_visible [OF this assms(2) assms(3) [OF s]] s show ?thesis by blast
qed

section \<open>Local files\<close>

text \<open>
  C18: A file served straight from the server's disk lies, symbolic links resolved, strictly below the
  source's folder (or one of its folders), and for a source that is not built-in strictly below a
  directory the operator allows.
\<close>

theorem served_local_file_is_inside:
  assumes "open_file FE uuid now u source_id path member st = Some (Inr r, st')" "sv_key r = None"
  shows "\<exists>s base. get_source (fa_db st) source_id = Some s \<and> s_protocol s = Local \<and>
    base \<in> set (s_base_path s # map root_path (roots_of s)) \<and>
    prefix (posix_join (fs_realpath (fe_local FE) base) '''') (sv_path r) \<and>
    (s_is_system s \<or> (\<exists>root \<in> set (allowed_roots (fe_local FE)). prefix (posix_join root '''') (sv_path r)))"
proof -
  obtain s where cap: "require_capability (fa_db st) u source_id View = Some (Inr s)"
    using assms(1) by (auto simp: open_file_def with_capability_def split: option.split_asm sum.split_asm)
  then have s: "get_source (fa_db st) source_id = Some s" by (rule capability_source)
  let ?rs = "rules_for (fa_db st) (s_id s)"
  obtain store where rc: "resolve_content FE uuid now s path member ?rs (fa_store st) = (Inr r, store)"
    using assms(1) cap
    by (cases "require_safe_path s path")
      (auto simp: open_file_def with_capability_def serve_file_def split: prod.split_asm sum.split_asm)
  with assms(2) have p: "s_protocol s = Local" and sl: "serve_local FE s path = Inr (sv_path r)"
    by (auto simp: resolve_content_def Let_def bindE_Inr_iff split: if_splits prod.split_asm sum.split_asm)
  then obtain t inner where t: "resolve_path (fe_local FE) t inner = Inr (sv_path r)"
    and base: "s_base_path t \<in> set (s_base_path s # map root_path (roots_of s))" "s_is_system t = s_is_system s"
    by (auto simp: serve_local_def bindE_Inr_iff split_def with_base_path_def
        split: if_splits option.split_asm prod.split_asm dest!: found)
  from t have "prefix (posix_join (fs_realpath (fe_local FE) (s_base_path t)) '''') (sv_path r)"
    unfolding resolve_path_Inr by blast
  with s p base below_allowed_root [OF t] show ?thesis by auto
qed

section \<open>From the listing of an archive to the member\<close>

lemma first_archive_Some:
  "first_archive i segs = Some j \<Longrightarrow> i \<le> j \<and> j - i < length segs \<and> is_archive (segs ! (j - i))"
proof (induction segs arbitrary: i)
  case (Cons s segs)
  then show ?case
    by (cases "is_archive s") (auto dest!: Cons.IH simp: Suc_diff_le nth_Cons')
qed simp

lemma safe_path_segs:
  "is_safe_relative_path p \<Longrightarrow> p \<noteq> '''' \<Longrightarrow> q \<in> set (split_on CHR ''/'' p) \<Longrightarrow> name_seg q"
  using split_on_pieces [of q "CHR ''/''" p] set_split_on [of q "CHR ''/''" p]
  by (auto simp: is_safe_relative_path_def name_seg_def list_all_iff split: if_splits)

lemma split_archive_parts:
  assumes "is_safe_relative_path path" "split_archive_path path = Some (arch, dir)"
  shows "is_archive (last_segment arch) \<and> (\<exists>qs. (\<forall>q \<in> set qs. name_seg q) \<and> dir = join_on CHR ''/'' qs)"
proof -
  let ?segs = "split_on CHR ''/'' path"
  from assms(2) obtain i where p: "path \<noteq> ''''" and i: "first_archive 0 ?segs = Some i"
    and arch: "arch = join_on CHR ''/'' (take (i + 1) ?segs)" and dir: "dir = join_on CHR ''/'' (drop (i + 1) ?segs)"
    by (auto simp: split_archive_path_def Let_def split: if_splits option.split_asm)
  have segs: "\<forall>q \<in> set ?segs. name_seg q" using safe_path_segs [OF assms(1) p] by blast
  from first_archive_Some [OF i] have "i < length ?segs" and a: "is_archive (?segs ! i)" by simp_all
  then have "take (i + 1) ?segs = take i ?segs @ [?segs ! i]" by (simp add: take_Suc_conv_app_nth)
  moreover have "\<forall>q \<in> set (take (i + 1) ?segs). name_seg q" using segs by (auto dest: in_set_takeD)
  ultimately have "last_segment arch = ?segs ! i"
    unfolding last_segment_def arch by (subst join_segs_split) auto
  with a dir segs show ?thesis by (auto dest: in_set_dropD)
qed

lemma resolve_listed:
  assumes "list_members lib local f = Inr members" "m \<in> set members" "\<not> am_is_dir m"
    "normalize_member_name (am_name m) = n" "normalize_member_name n = n"
  shows "\<exists>m' \<in> set members. resolve_member_name lib local f n = Inr (am_name m') \<and>
    normalize_member_name (am_name m') = n"
proof (cases "find (\<lambda>m. am_name m = n) members")
  case (Some m')
  with assms(1,5) show ?thesis by (auto simp: resolve_member_name_def dest!: found)
next
  case None
  let ?P = "\<lambda>m. \<not> am_is_dir m \<and> normalize_member_name (am_name m) = n"
  from assms(2-4) have "find ?P members \<noteq> None" by (auto simp: find_None_iff)
  then obtain m' where "find ?P members = Some m'" by blast
  with assms(1) None show ?thesis by (auto simp: resolve_member_name_def dest!: found)
qed

text \<open>
  What a browse answer lists as a file of an archive can be opened: opening the archive with that
  member name passes every check and extracts a member of the archive with that normalized name.
\<close>

theorem listed_archive_file_opens:
  assumes "is_safe_relative_path path" "split_archive_path path = Some (arch, dir)"
    and "browse_entries FE s rs path = Inr entries" "e \<in> set entries" "\<not> be_is_dir e"
  shows "\<exists>n c local members m. be_path e = arch @ ''/'' @ n \<and> connector_of FE s = Inr c \<and>
    connector_fetch (co_copy c) s arch = Inr local \<and>
    list_members (fe_library FE) local (last_segment arch) = Inr members \<and>
    m \<in> set members \<and> normalize_member_name (am_name m) = n \<and>
    materialize FE s arch (Some n) rs =
      (let (r, dst) = extract_member (fe_library FE) local (last_segment arch) (am_name m)
                        (Some (fe_max_decompressed_bytes FE)) None
       in (bindE (map_error archive_failure r) (\<lambda>_. Inr (last_segment n)), dst))"
proof -
  obtain c local members child where c: "connector_of FE s = Inr c"
    and copy: "connector_fetch (co_copy c) s arch = Inr local"
    and ms: "list_members (fe_library FE) local (last_segment arch) = Inr members"
    and vis: "visible FE s arch rs"
    and child: "child \<in> set (tree_children members dir)" "e = member_entry arch child"
      "entry_visible FE s (arch @ ''/'' @ am_name child) (am_is_dir child) rs"
    using assms(2-4)
    by (auto simp: browse_entries_def bindE_Inr_iff)
  from split_archive_parts [OF assms(1,2)] obtain qs where a: "is_archive (last_segment arch)"
    and qs: "\<forall>q \<in> set qs. name_seg q" and dir: "dir = join_on CHR ''/'' qs" by blast
  let ?n = "am_name child"
  have "\<not> am_is_dir child" using assms(5) child(2) by (simp add: member_entry_def)
  with child(1) have "\<exists>m \<in> set members. child_of dir m = Some (?n, False)"
    using tree_children_iff [of members dir ?n False] by auto
  then obtain m seg where m: "m \<in> set members" "pieces (am_name m) = qs @ [seg]" "\<not> am_is_dir m"
    and n: "?n = join_on CHR ''/'' (qs @ [seg])"
    unfolding dir child_of_pieces [OF qs] by auto
  have "normalize_member_name (am_name m) = ?n" by (simp add: normalize_pieces m(2) n)
  moreover from this have idem: "normalize_member_name ?n = ?n" using normalize_idem by metis
  ultimately obtain m' where m': "m' \<in> set members" "normalize_member_name (am_name m') = ?n"
      "resolve_member_name (fe_library FE) local (last_segment arch) ?n = Inr (am_name m')"
    using resolve_listed [OF ms m(1,3)] by blast
  have "?n \<noteq> ''''"
    unfolding n using pieces_ok [of _ "am_name m"] by (subst join_segs_empty) (auto simp: m(2))
  moreover have "visible FE s (arch @ ''/'' @ ?n) rs"
    using child(3) \<open>\<not> am_is_dir child\<close> by (simp add: entry_visible_def visible_def is_entry_visible_def)
  ultimately have "materialize FE s arch (Some ?n) rs =
      (let (r, dst) = extract_member (fe_library FE) local (last_segment arch) (am_name m')
                        (Some (fe_max_decompressed_bytes FE)) None
       in (bindE (map_error archive_failure r) (\<lambda>_. Inr (last_segment ?n)), dst))"
    using vis a by (simp add: materialize_def c copy idem m'(3))
  with c copy ms m'(1,2) child(2) show ?thesis by (auto simp: member_entry_def)
qed

section \<open>Whether a folder ZIP returns\<close>

text \<open>A tree whose folders have a height that falls on the way down is walked to the end.\<close>

lemma zip_entries_return:
  assumes rank: "\<And>dir es e. connector_list (fe_re2 FE) (co_list c) s rs dir = Inr es \<Longrightarrow> e \<in> set es \<Longrightarrow>
      de_is_dir e \<Longrightarrow> rank (de_path e) < (rank dir :: nat)"
  shows "(\<forall>e \<in> set es. de_is_dir e \<longrightarrow> rank (de_path e) < n) \<Longrightarrow> \<exists>r. zip_entries FE c s rs es = Some r"
proof (induction n arbitrary: es rule: less_induct)
  case (less n)
  from less.prems show ?case
  proof (induction es)
    case Nil
    then show ?case by (subst zip_entries.simps) simp
  next
    case (Cons e es)
    then obtain rest where rest: "zip_entries FE c s rs es = Some rest" by auto
    have "\<exists>r. (case connector_list (fe_re2 FE) (co_list c) s rs (de_path e) of
        Inl err \<Rightarrow> Some (Inl err) | Inr below \<Rightarrow> zip_entries FE c s rs below) = Some r" if d: "de_is_dir e"
    proof (cases "connector_list (fe_re2 FE) (co_list c) s rs (de_path e)")
      case (Inr below)
      have "rank (de_path e) < n" using Cons.prems d by simp
      moreover have "\<forall>x \<in> set below. de_is_dir x \<longrightarrow> rank (de_path x) < rank (de_path e)"
        using rank [OF Inr] by blast
      ultimately obtain r where "zip_entries FE c s rs below = Some r" using less.IH by blast
      with Inr show ?thesis by simp
    qed simp
    then obtain r where "(if de_is_dir e then
               (case connector_list (fe_re2 FE) (co_list c) s rs (de_path e) of
                  Inl err \<Rightarrow> Some (Inl err)
                | Inr below \<Rightarrow> zip_entries FE c s rs below)
             else Some (Inr (if visible FE s (de_path e) rs then [e] else []))) = Some r"
      by (cases "de_is_dir e") auto
    with rest show ?case by (subst zip_entries.simps) (cases r; simp)
  qed
qed

text \<open>
  A folder on the server's disk with a symbolic link to a folder above it: \<open>/srv/logs/again\<close> leads to
  \<open>/srv/logs\<close>, which lies inside the source, so the link is listed as a folder.
\<close>

definition loop_fs :: local_fs where
  "loop_fs =
     \<lparr>fs_realpath = (\<lambda>p. let segs = split_on CHR ''/'' p in
        if take 3 segs = ['''', ''srv'', ''logs''] \<and> list_all (\<lambda>x. x = ''again'') (drop 3 segs) then ''/srv/logs'' else p),
      fs_children = (\<lambda>d.
        if d = ''/srv'' then Inr [\<lparr>lc_name = ''logs'', lc_is_symlink = False, lc_resolved = ''/srv/logs'', lc_is_dir = True, lc_size = 0\<rparr>]
        else if d = ''/srv/logs''
        then Inr [\<lparr>lc_name = ''again'', lc_is_symlink = True, lc_resolved = ''/srv/logs'', lc_is_dir = True, lc_size = 0\<rparr>]
        else Inl SourceNotFoundError),
      fs_read = (\<lambda>_. Inl SourceNotFoundError), fs_local_source_roots = ''/srv''\<rparr>"

definition loop_source :: source where
  "loop_source = sample_source\<lparr>s_protocol := Local, s_base_path := ''/srv''\<rparr>"

definition all_files :: "rule list" where
  "all_files = [\<lparr>r_id = 1, r_source_id = 10, r_order = 1, r_type = Include, r_pattern = ''**'', r_kind = Glob,
                 r_notes = None\<rparr>]"

definition loop_path :: "nat \<Rightarrow> string" where
  "loop_path n = join_on CHR ''/'' (''logs'' # replicate n ''again'')"

definition loop_entry :: "nat \<Rightarrow> string \<Rightarrow> dir_entry" where
  "loop_entry n name = \<lparr>de_name = name, de_path = loop_path n, de_is_dir = True, de_size = 0\<rparr>"

lemma split_loop_path: "split_on CHR ''/'' (loop_path n) = ''logs'' # replicate n ''again''"
  unfolding loop_path_def by (rule split_join) auto

lemma loop_path_Suc: "loop_path (Suc n) = loop_path n @ ''/again''"
proof -
  have "loop_path (Suc n) = join_on CHR ''/'' ((''logs'' # replicate n ''again'') @ [''again''])"
    by (simp add: loop_path_def replicate_append_same)
  also have "\<dots> = loop_path n @ ''/again''" by (subst join_on_append) (simp_all add: loop_path_def)
  finally show ?thesis .
qed

lemma loop_path_relative: "loop_path n \<noteq> ''''" "\<not> prefix ''/'' (loop_path n)"
  by (induction n) (simp_all add: loop_path_Suc loop_path_def prefix_def append_eq_append_conv2)

lemma loop_resolve: "resolve_path loop_fs loop_source (loop_path n) = Inr ''/srv/logs''"
proof -
  have "split_on CHR ''/'' (''/srv'' @ CHR ''/'' # loop_path n) = ['''', ''srv''] @ ''logs'' # replicate n ''again''"
    unfolding split_on_append_gen split_loop_path by simp
  then have "fs_realpath loop_fs (''/srv/'' @ loop_path n) = ''/srv/logs''"
    by (simp add: loop_fs_def Let_def list_all_iff)
  moreover have "posix_join ''/srv'' (loop_path n) = ''/srv/'' @ loop_path n"
    using loop_path_relative [of n] by (simp add: posix_join_def suffix_def)
  moreover have "base_path_allowed loop_fs ''/srv''" "fs_realpath loop_fs ''/srv'' = ''/srv''"
    by code_simp+
  ultimately show ?thesis
    by (simp add: resolve_path_Inr loop_source_def posix_join_def suffix_def prefix_def)
qed

lemma loop_visible: "is_dir_visible ic p all_files"
proof -
  have "could_walk ic [''**''] ss" for ss by (induction ss) auto
  then show ?thesis
    by (simp add: is_dir_visible_def all_files_def glob_could_match_below_def spans_segments_def dir_scan.simps Let_def)
qed

lemma loop_list:
  "connector_list re2 (co_list (local_connector re2 loop_fs)) loop_source all_files (loop_path n) =
     Inr [loop_entry (Suc n) ''again'']"
  "connector_list re2 (co_list (local_connector re2 loop_fs)) loop_source all_files '''' = Inr [loop_entry 0 ''logs'']"
proof -
  have b: "base_dir loop_fs loop_source = Inr ''/srv''" by code_simp
  have m: "\<not> is_multi_root loop_source" by code_simp
  have c: "fs_children loop_fs ''/srv/logs'' =
      Inr [\<lparr>lc_name = ''again'', lc_is_symlink = True, lc_resolved = ''/srv/logs'', lc_is_dir = True, lc_size = 0\<rparr>]"
    "fs_children loop_fs ''/srv'' =
      Inr [\<lparr>lc_name = ''logs'', lc_is_symlink = False, lc_resolved = ''/srv/logs'', lc_is_dir = True, lc_size = 0\<rparr>]"
    by (simp_all add: loop_fs_def)
  have r: "is_relative_to ''/srv/logs'' ''/srv''" by code_simp
  show "connector_list re2 (co_list (local_connector re2 loop_fs)) loop_source all_files (loop_path n) =
     Inr [loop_entry (Suc n) ''again'']"
    using loop_path_relative [of n]
    by (simp add: connector_list_def m local_connector_def local_list_directory_def b loop_resolve translate_local_def c r
        entry_of_child_def is_entry_visible_def loop_visible loop_entry_def loop_path_Suc)
  show "connector_list re2 (co_list (local_connector re2 loop_fs)) loop_source all_files '''' = Inr [loop_entry 0 ''logs'']"
    by (simp add: connector_list_def m local_connector_def local_list_directory_def b translate_local_def c
        entry_of_child_def is_entry_visible_def loop_visible loop_entry_def loop_path_def)
qed

lemma loop_entry_simps [simp]: "de_is_dir (loop_entry n x)" "de_path (loop_entry n x) = loop_path n"
  by (simp_all add: loop_entry_def)

lemma loop_diverges:
  assumes "zip_entries FE c s rs es = Some r"
  shows "c = local_connector (fe_re2 FE) loop_fs \<longrightarrow> s = loop_source \<longrightarrow> rs = all_files \<longrightarrow>
    (\<forall>n x. es \<noteq> [loop_entry n x])"
proof (rule zip_entries.raw_induct [OF _ assms])
  fix walk :: "file_env \<Rightarrow> connector \<Rightarrow> source \<Rightarrow> rule list \<Rightarrow> dir_entry list \<Rightarrow> (source_error + dir_entry list) option"
    and FE c s rs es r
  assume IH: "\<And>FE c s rs es r. walk FE c s rs es = Some r \<Longrightarrow>
      c = local_connector (fe_re2 FE) loop_fs \<longrightarrow> s = loop_source \<longrightarrow> rs = all_files \<longrightarrow> (\<forall>n x. es \<noteq> [loop_entry n x])"
    and step: "(case es of
        [] \<Rightarrow> Some (Inr [])
      | e # es \<Rightarrow>
          Option.bind
            (if de_is_dir e then
               (case connector_list (fe_re2 FE) (co_list c) s rs (de_path e) of
                  Inl err \<Rightarrow> Some (Inl err)
                | Inr below \<Rightarrow> walk FE c s rs below)
             else Some (Inr (if visible FE s (de_path e) rs then [e] else [])))
            (\<lambda>r. case r of
                   Inl err \<Rightarrow> Some (Inl err)
                 | Inr found \<Rightarrow>
                     Option.bind (walk FE c s rs es) (\<lambda>rest. Some (bindE rest (\<lambda>xs. Inr (found @ xs)))))) = Some r"
  show "c = local_connector (fe_re2 FE) loop_fs \<longrightarrow> s = loop_source \<longrightarrow> rs = all_files \<longrightarrow> (\<forall>n x. es \<noteq> [loop_entry n x])"
  proof (intro impI allI notI)
    fix n x
    assume c: "c = local_connector (fe_re2 FE) loop_fs" "s = loop_source" "rs = all_files" and es: "es = [loop_entry n x]"
    from step obtain r' where "walk FE c s rs [loop_entry (Suc n) ''again''] = Some r'"
      unfolding es c by (auto simp: loop_list bind_eq_Some_conv)
    from IH [OF this] c show False by blast
  qed
qed

definition loop_env :: file_env where
  "loop_env =
     \<lparr>fe_env = \<lparr>e_hmac = (\<lambda>_ t. t), e_chain_key = '''', e_now = 0\<rparr>, fe_re2 = (\<lambda>_ _. None), fe_sha256_hex = (\<lambda>t. t),
      fe_connectors = (\<lambda>_. None), fe_local = loop_fs,
      fe_library = \<lparr>al_zip_members = (\<lambda>_. Inr []), al_zip_open = (\<lambda>_ _. Inr []), al_tar_members = (\<lambda>_. Inr []),
        al_tar_open = (\<lambda>_ _. Inr None), al_gzip_open = (\<lambda>_. Inr [])\<rparr>,
      fe_max_decompressed_bytes = 10, fe_max_fetch_bytes = 10\<rparr>"

definition loop_state :: file_state where
  "loop_state =
     \<lparr>fa_db = sample_db\<lparr>sources := [loop_source], rules := all_files,
        role_grants := [\<lparr>g_id = 1, g_role_id = 5, g_scope_type = ScopeSource, g_scope_id = 10, g_capabilities = [View, Download]\<rparr>]\<rparr>,
      fa_store = new_store ''/scratch'' 100\<rparr>"

text \<open>
  The ZIP of a folder on the server's disk never comes back when a symbolic link below the folder
  leads to a folder above it: the walk follows the link again and again (in Python, until the
  recursion limit raises).
\<close>

theorem symlink_loop_zip_never_returns:
  "download_folder_zip loop_env operator 10 '''' loop_state = None"
proof -
  have cap: "require_capability (fa_db loop_state) operator 10 Download = Some (Inr loop_source)" by code_simp
  have safe: "require_safe_path loop_source '''' = Inr ()" by code_simp
  have rules: "rules_for (fa_db loop_state) (s_id loop_source) = all_files" by code_simp
  have c: "connector_of loop_env loop_source = Inr (local_connector (fe_re2 loop_env) loop_fs)"
    by (simp add: connector_of_def connectors_def bindE_Inr_iff loop_env_def loop_source_def) code_simp
  have "zip_entries loop_env (local_connector (fe_re2 loop_env) loop_fs) loop_source all_files [loop_entry 0 ''logs''] = None"
    using loop_diverges by (cases "zip_entries loop_env (local_connector (fe_re2 loop_env) loop_fs) loop_source all_files
      [loop_entry 0 ''logs'']") blast+
  then have "collect_zip loop_env loop_source all_files '''' = None"
    by (simp add: collect_zip_def c loop_list)
  then show ?thesis by (simp add: download_folder_zip_def cap safe rules)
qed

section \<open>Witnesses\<close>

text \<open>
  An SSH source with one file \<open>a\<close>, read through a connector whose fetch is given, an archive library
  with one oddly named member, and an account with both capabilities.
\<close>

definition files_db :: "source \<Rightarrow> string \<Rightarrow> db" where
  "files_db s pattern = sample_db\<lparr>sources := [s],
     role_grants := [\<lparr>g_id = 1, g_role_id = 5, g_scope_type = ScopeFolder, g_scope_id = 1, g_capabilities = [View, Download]\<rparr>],
     rules := [\<lparr>r_id = 1, r_source_id = 10, r_order = 1, r_type = Include, r_pattern = pattern, r_kind = Glob, r_notes = None\<rparr>]\<rparr>"

definition files_state :: "source \<Rightarrow> string \<Rightarrow> file_state" where
  "files_state s pattern = \<lparr>fa_db = files_db s pattern, fa_store = new_store ''/scratch'' 100\<rparr>"

definition files_env :: "(string \<Rightarrow> fetched) \<Rightarrow> file_env" where
  "files_env fetch =
     \<lparr>fe_env = \<lparr>e_hmac = (\<lambda>_ t. t), e_chain_key = '''', e_now = 0\<rparr>, fe_re2 = (\<lambda>_ _. None), fe_sha256_hex = (\<lambda>t. t),
      fe_connectors = (\<lambda>_. Some
        \<lparr>co_list = (\<lambda>_ _ path. if path = '''' then
             Inr [\<lparr>de_name = ''a'', de_path = ''a'', de_is_dir = False, de_size = 3\<rparr>] else Inl SourceNotFoundError),
         co_fetch = (\<lambda>_. fetch),
         co_copy = (\<lambda>_ path. case snd (fetch path) of None \<Rightarrow> Inl SourceNotFoundError | Some b \<Rightarrow> Inr b)\<rparr>),
      fe_local = \<lparr>fs_realpath = (\<lambda>p. p), fs_children = (\<lambda>_. Inr []), fs_read = (\<lambda>_. Inr ''''), fs_local_source_roots = ''/srv''\<rparr>,
      fe_library = \<lparr>al_zip_members = (\<lambda>_. Inr [\<lparr>am_name = ''../x//y.txt'', am_size = 2, am_is_dir = False\<rparr>]),
        al_zip_open = (\<lambda>local _. Inr [Data local]), al_tar_members = (\<lambda>_. Inr []), al_tar_open = (\<lambda>_ _. Inr None),
        al_gzip_open = (\<lambda>_. Inr [])\<rparr>,
      fe_max_decompressed_bytes = 10, fe_max_fetch_bytes = 10\<rparr>"

lemma files_capability:
  "require_capability (files_db sample_source pattern) operator 10 View = Some (Inr sample_source)"
  "require_capability (files_db sample_source pattern) operator 10 Download = Some (Inr sample_source)"
  "get_source (files_db sample_source pattern) 10 = Some sample_source"
  by code_simp+

lemma only_a_visible:
  assumes "visible FE sample_source p (rules_for (files_db sample_source ''a'') 10)"
  shows "prefix ''a'' p"
proof -
  have c: "compile_glob ''a'' = [GLit CHR ''a'']" by code_simp
  have r: "rules_for (files_db sample_source ''a'') 10 = rules (files_db sample_source ''a'')" by code_simp
  from assms have "glob_match False ''a'' p"
    unfolding r by (simp add: visible_def is_visible_def files_db_def rule_matches_def
        rules_case_insensitive_def sample_source_def split: if_splits)
  then show ?thesis by (cases p) (auto simp: glob_match_def c ch_eq_def)
qed

text \<open>A folder of the server with two files, of which the rules show \<open>a\<close>; \<open>b\<close> holds the given bytes.\<close>

definition disk_env :: "string \<Rightarrow> file_env" where
  "disk_env secret =
     (files_env (\<lambda>_. (Inr (), None)))\<lparr>fe_local :=
        \<lparr>fs_realpath = (\<lambda>p. p), fs_children = (\<lambda>_. Inr []),
         fs_read = (\<lambda>p. if p = ''/srv/app/b'' then Inr secret else Inr ''log''), fs_local_source_roots = ''/srv''\<rparr>\<rparr>"

definition local_file_source :: source where
  "local_file_source = sample_source\<lparr>s_protocol := Local, s_base_path := ''/srv/app''\<rparr>"

lemma only_a_visible_on_disk:
  assumes "visible FE local_file_source p (rules_for (files_db local_file_source ''a'') 10)"
  shows "prefix ''a'' p"
proof -
  have "rules_for (files_db local_file_source ''a'') 10 = rules_for (files_db sample_source ''a'') 10" by code_simp
  with assms have "visible FE sample_source p (rules_for (files_db sample_source ''a'') 10)"
    by (simp add: visible_def rules_case_insensitive_def local_file_source_def sample_source_def)
  then show ?thesis by (rule only_a_visible)
qed

lemma disk_copy:
  assumes "prefix ''a'' p"
  shows "local_copy (fe_local (disk_env x)) local_file_source p = local_copy (fe_local (disk_env y)) local_file_source p"
proof -
  let ?at = "\<lambda>x. resolve_path (fe_local (disk_env x)) local_file_source p"
  have same: "?at x = ?at y"
    by (simp add: resolve_path_def base_dir_def base_path_allowed_def allowed_roots_def disk_env_def)
  show ?thesis
  proof (cases "?at y")
    case (Inr t)
    then have "t = posix_join ''/srv/app'' p" by (simp add: resolve_path_Inr disk_env_def local_file_source_def)
    with assms have "t \<noteq> ''/srv/app/b''" by (auto simp: posix_join_def prefix_def)
    with Inr show ?thesis unfolding local_copy_def same by (simp add: translate_local_def disk_env_def)
  qed (simp add: local_copy_def same translate_local_def split: local_error.split)
qed

lemma hidden_bytes_never_leave_witness:
  "answered_bytes (disk_env ''one'') (open_file (disk_env ''one'') ''u'' 1 operator 10 ''b'' None (files_state local_file_source ''a'')) =
   answered_bytes (disk_env ''two'') (open_file (disk_env ''two'') ''u'' 1 operator 10 ''b'' None (files_state local_file_source ''a''))"
proof (rule hidden_bytes_never_leave [THEN conjunct2, THEN conjunct1])
  fix s assume "get_source (fa_db (files_state local_file_source ''a'')) 10 = Some s"
  moreover have "get_source (fa_db (files_state local_file_source ''a'')) 10 = Some local_file_source" by code_simp
  ultimately have s: "s = local_file_source" "s_id s = 10" "s_protocol s = Local" "\<not> is_multi_root s"
    by (auto simp: local_file_source_def sample_source_def is_multi_root_def roots_of_def)
  have "prefix ''a'' p" if "visible FE s p (rules_for (fa_db (files_state local_file_source ''a'')) (s_id s))" for FE p
    using that only_a_visible_on_disk [of FE p] unfolding s(2) by (simp add: s(1) files_state_def)
  then have "connector_fetch (local_copy (fe_local (disk_env ''one''))) s p = connector_fetch (local_copy (fe_local (disk_env ''two''))) s p"
    if "visible FE s p (rules_for (fa_db (files_state local_file_source ''a'')) (s_id s))" for FE p
    using that s(4) disk_copy unfolding connector_fetch_def s(1) by fastforce
  then show "same_where_visible (disk_env ''one'') (disk_env ''two'') s
      (rules_for (fa_db (files_state local_file_source ''a'')) (s_id s)) ''b''"
    unfolding same_where_visible_def connectors_def s(3)
    by (auto simp: local_connector_def disk_env_def files_env_def connector_fetch_def s(4) split: sum.splits)
qed

lemma failed_open:
  "open_file (files_env (\<lambda>_. (Inl SourceLockedError, Some ''par''))) ''u'' 1 operator 10 ''a'' None
     (files_state sample_source ''**'') = Some (Inl (FromSource SourceLockedError), files_state sample_source ''**'')"
  by code_simp

lemma failed_request_leaves_nothing_witness:
  "map_option fst (viewers_of (fa_store (files_state sample_source ''**'')) ''k'') =
   map_option fst (viewers_of (fa_store (files_state sample_source ''**'')) ''k'')"
proof (rule failed_request_leaves_nothing [THEN conjunct2, THEN conjunct1])
  show "scr.reaches (new_store ''/scratch'' 100) (fa_store (files_state sample_source ''**''))"
    by (simp add: files_state_def scr.reaches_refl)
  show "unused_path (scratch_path (ss_root (fa_store (files_state sample_source ''**'')))
      (scratch_key (files_env (\<lambda>_. (Inl SourceLockedError, Some ''par''))) 10 ''a'' None) ''u'')
      (fa_store (files_state sample_source ''**''))"
    by (simp add: unused_path_def files_state_def new_store_def)
  show "open_file (files_env (\<lambda>_. (Inl SourceLockedError, Some ''par''))) ''u'' 1 operator 10 ''a'' None
      (files_state sample_source ''**'') = Some (Inl (FromSource SourceLockedError), files_state sample_source ''**'') \<or>
    download_file (files_env (\<lambda>_. (Inl SourceLockedError, Some ''par''))) ''u'' 1 operator 10 ''a'' None
      (files_state sample_source ''**'') = Some (Inl (FromSource SourceLockedError), files_state sample_source ''**'')"
    using failed_open by blast
qed

lemma folder_zip_holds_the_visible_files_witness:
  "\<exists>s c listing. get_source (fa_db (files_state sample_source ''**'')) 10 = Some s \<and>
    connector_of (files_env (\<lambda>_. (Inr (), Some ''log''))) s = Inr c \<and>
    connector_list (fe_re2 (files_env (\<lambda>_. (Inr (), Some ''log'')))) (co_list c) s
      (rules_for (fa_db (files_state sample_source ''**'')) 10) '''' = Inr listing \<and>
    set [(''a'', ''log'')] = (\<lambda>e. (arcname '''' e, fetched_bytes c s e)) `
      {e. listed (files_env (\<lambda>_. (Inr (), Some ''log''))) c s (rules_for (fa_db (files_state sample_source ''**'')) 10) listing e \<and>
        \<not> de_is_dir e \<and> visible (files_env (\<lambda>_. (Inr (), Some ''log''))) s (de_path e)
          (rules_for (fa_db (files_state sample_source ''**'')) 10)}"
proof -
  let ?FE = "files_env (\<lambda>_. (Inr (), Some ''log''))" and ?st = "files_state sample_source ''**''"
  have "require_capability (fa_db ?st) operator 10 Download = Some (Inr sample_source)"
    by (simp add: files_state_def files_capability)
  moreover have "require_safe_path sample_source '''' = Inr ()" by code_simp
  moreover have "collect_zip ?FE sample_source (rules_for (fa_db ?st) (s_id sample_source)) '''' = Some (Inr [(''a'', ''log'')])"
    by code_simp
  ultimately obtain st' where
    "download_folder_zip ?FE operator 10 '''' ?st = Some (Inr \<lparr>za_filename = ''srv.zip'', za_content = [(''a'', ''log'')]\<rparr>, st')"
    by (auto simp: download_folder_zip_def sample_source_def)
  from folder_zip_holds_the_visible_files [OF this] show ?thesis by auto
qed

lemma browse_shows_only_visible_entries_witness:
  "\<exists>s. get_source (fa_db (files_state sample_source ''**'')) 10 = Some s \<and>
    entry_visible (files_env (\<lambda>_. (Inr (), Some ''log''))) s ''a.zip/x/y.txt'' False (rules_for (fa_db (files_state sample_source ''**'')) 10)"
proof -
  let ?FE = "files_env (\<lambda>_. (Inr (), Some ''log''))" and ?st = "files_state sample_source ''**''"
    and ?e = "\<lparr>be_name = ''y.txt'', be_path = ''a.zip/x/y.txt'', be_is_dir = False, be_size = 2, be_is_archive = False\<rparr>"
  have "browse ?FE operator 10 ''a.zip/x'' ?st = Some (Inr [?e], ?st)" by code_simp
  moreover have "split_archive_path ''a.zip/x'' \<noteq> None" by code_simp
  ultimately show ?thesis using browse_shows_only_visible_entries [of ?FE operator 10 "''a.zip/x''" ?st "[?e]" ?st ?e] by simp
qed

lemma listed_archive_file_opens_witness:
  "\<exists>n c local members m. ''a.zip/x/y.txt'' = ''a.zip'' @ ''/'' @ n \<and>
    connector_of (files_env (\<lambda>_. (Inr (), Some ''log''))) sample_source = Inr c \<and>
    connector_fetch (co_copy c) sample_source ''a.zip'' = Inr local \<and>
    list_members (fe_library (files_env (\<lambda>_. (Inr (), Some ''log'')))) local (last_segment ''a.zip'') = Inr members \<and>
    m \<in> set members \<and> normalize_member_name (am_name m) = n \<and>
    materialize (files_env (\<lambda>_. (Inr (), Some ''log''))) sample_source ''a.zip'' (Some n) all_files =
      (let (r, dst) = extract_member (fe_library (files_env (\<lambda>_. (Inr (), Some ''log'')))) local (last_segment ''a.zip'')
                        (am_name m) (Some (fe_max_decompressed_bytes (files_env (\<lambda>_. (Inr (), Some ''log''))))) None
       in (bindE (map_error archive_failure r) (\<lambda>_. Inr (last_segment n)), dst))"
proof -
  let ?FE = "files_env (\<lambda>_. (Inr (), Some ''log''))"
    and ?e = "\<lparr>be_name = ''y.txt'', be_path = ''a.zip/x/y.txt'', be_is_dir = False, be_size = 2, be_is_archive = False\<rparr>"
  have "is_safe_relative_path ''a.zip/x''" "split_archive_path ''a.zip/x'' = Some (''a.zip'', ''x'')"
    "browse_entries ?FE sample_source all_files ''a.zip/x'' = Inr [?e]"
    by code_simp+
  from listed_archive_file_opens [OF this, of ?e] show ?thesis by simp
qed

lemma served_local_file_is_inside_witness:
  "\<exists>s base. get_source (fa_db (files_state local_file_source ''**'')) 10 = Some s \<and> s_protocol s = Local \<and>
    base \<in> set (s_base_path s # map root_path (roots_of s)) \<and>
    prefix (posix_join (fs_realpath (fe_local (files_env (\<lambda>_. (Inr (), None)))) base) '''') ''/srv/app/a''"
proof -
  let ?FE = "files_env (\<lambda>_. (Inr (), None))" and ?st = "files_state local_file_source ''**''"
    and ?r = "\<lparr>sv_path = ''/srv/app/a'', sv_filename = ''a'', sv_key = None\<rparr>"
  have "require_capability (fa_db ?st) operator 10 View = Some (Inr local_file_source)" by code_simp
  moreover have "require_safe_path local_file_source ''a'' = Inr ()" by code_simp
  moreover have "resolve_content ?FE ''u'' 1 local_file_source ''a'' None (rules_for (fa_db ?st) (s_id local_file_source))
      (fa_store ?st) = (Inr ?r, fa_store ?st)" by code_simp
  ultimately obtain st' where "open_file ?FE ''u'' 1 operator 10 ''a'' None ?st = Some (Inr ?r, st')"
    by (auto simp: open_file_def with_capability_def serve_file_def)
  from served_local_file_is_inside [OF this] show ?thesis by auto
qed

end
