(* ===== verification/SearchIndex.thy ===== *)
theory SearchIndex
  imports FileAccess
begin

text \<open>
  \<open>app/search_index.py\<close>: the indexer that keeps the lines of opted-in sources in a full-text table,
  and the search over it. The decoding of UTF-8, SQLite's full-text MATCH with its snippets and its
  rank, and the exception class \<open>gzip\<close> picks for a bad file are parameters; the operators of plain SQL
  are written out. The indexer commits file by file, so other requests commit in between: what they do
  is the parameter \<open>world\<close>.
\<close>

section \<open>Reading a file\<close>

record search_env =
  sx_files :: file_env
  sx_max_file_bytes :: int
  sx_decode :: "string \<Rightarrow> string"
  sx_gzip_os_error :: "string \<Rightarrow> bool"
  sx_match :: "string \<Rightarrow> fts_row \<Rightarrow> (string \<times> string) option"
  sx_rank :: "string \<Rightarrow> fts_row list \<Rightarrow> fts_row \<Rightarrow> int"

datatype index_error = FromConnector source_error | GzipError | UniqueViolation

definition binary_sniff_bytes :: nat where
  "binary_sniff_bytes = 8192"

definition max_snippet_chars :: nat where
  "max_snippet_chars = 500"

text \<open>
  \<open>_iter_files\<close> on the entries of a listing that are left. As in the ZIP of a folder, \<open>None\<close> is a walk
  that does not return.
\<close>

partial_function (option) iter_files ::
  "search_env \<Rightarrow> connector \<Rightarrow> source \<Rightarrow> rule list \<Rightarrow> dir_entry list \<Rightarrow> (source_error + dir_entry list) option" where
  "iter_files SX c s rs entries =
     (case entries of
        [] \<Rightarrow> Some (Inr [])
      | e # es \<Rightarrow>
          Option.bind
            (if de_is_dir e then
               (case connector_list (fe_re2 (sx_files SX)) (co_list c) s rs (de_path e) of
                  Inl err \<Rightarrow> Some (Inl err)
                | Inr below \<Rightarrow> iter_files SX c s rs below)
             else Some (Inr [e]))
            (\<lambda>r. case r of
                   Inl err \<Rightarrow> Some (Inl err)
                 | Inr found \<Rightarrow>
                     Option.bind (iter_files SX c s rs es) (\<lambda>rest. Some (bindE rest (\<lambda>xs. Inr (found @ xs))))))"

declare iter_files.simps [code]

definition source_files :: "search_env \<Rightarrow> connector \<Rightarrow> source \<Rightarrow> rule list \<Rightarrow> (source_error + dir_entry list) option" where
  "source_files SX c s rs =
     (case connector_list (fe_re2 (sx_files SX)) (co_list c) s rs '''' of
        Inl e \<Rightarrow> Some (Inl e)
      | Inr listing \<Rightarrow> iter_files SX c s rs listing)"

text \<open>The decoded text, or \<open>None\<close> for a file to skip. A gzip exception is caught only as an \<open>OSError\<close>.\<close>

definition read_text :: "search_env \<Rightarrow> connector \<Rightarrow> source \<Rightarrow> dir_entry \<Rightarrow> index_error + string option" where
  "read_text SX c s e =
     (if is_archive (de_name e) then Inr None
      else if de_size e > sx_max_file_bytes SX then Inr None
      else
        bindE (map_error FromConnector (connector_fetch (co_copy c) s (de_path e))) (\<lambda>local.
        bindE
          (if is_transparent_gzip (de_name e) then
             (case decompress_gzip (fe_library (sx_files SX)) local (Some (sx_max_file_bytes SX)) None of
                (Inl err, _) \<Rightarrow>
                  if err = DecompressionLimitError \<or> sx_gzip_os_error SX local then Inr None else Inl GzipError
              | (Inr _, written) \<Rightarrow>
                  (let data = (case written of None \<Rightarrow> '''' | Some b \<Rightarrow> b)
                   in Inr (if int (length data) > sx_max_file_bytes SX then None else Some data)))
           else Inr (Some local)) (\<lambda>data.
        Inr (case data of
               None \<Rightarrow> None
             | Some bytes \<Rightarrow>
                 if CHR 0x00 \<in> set (take binary_sniff_bytes bytes) then None else Some (sx_decode SX bytes)))))"

text \<open>\<open>str.splitlines()\<close>, below code point 256.\<close>

definition is_linebreak :: "char \<Rightarrow> bool" where
  "is_linebreak c = ((of_char c :: nat) \<in> {10, 11, 12, 13, 28, 29, 30, 133})"

fun split_lines :: "string \<Rightarrow> string \<Rightarrow> string list" where
  "split_lines cur [] = (if cur = [] then [] else [rev cur])"
| "split_lines cur [c] = (if is_linebreak c then [rev cur] else [rev (c # cur)])"
| "split_lines cur (c # c' # cs) =
     (if c = CHR 0x0D \<and> c' = CHR 0x0A then rev cur # split_lines [] cs
      else if is_linebreak c then rev cur # split_lines [] (c' # cs)
      else split_lines (c # cur) (c' # cs))"

section \<open>The index tables\<close>

definition is_row_of :: "int \<Rightarrow> string \<Rightarrow> fts_row \<Rightarrow> bool" where
  "is_row_of source_id path r \<longleftrightarrow> fts_source_id r = source_id \<and> fts_file_path r = path"

definition delete_fts_rows :: "int \<Rightarrow> string \<Rightarrow> db \<Rightarrow> db" where
  "delete_fts_rows source_id path d = d\<lparr>fts_rows := filter (\<lambda>r. \<not> is_row_of source_id path r) (fts_rows d)\<rparr>"

definition text_rows :: "int \<Rightarrow> string \<Rightarrow> string \<Rightarrow> fts_row list" where
  "text_rows source_id path body =
     map (\<lambda>(n, line). \<lparr>fts_source_id = source_id, fts_file_path = path, fts_line_number = int n,
                        fts_snippet = take max_snippet_chars line\<rparr>)
       (filter (\<lambda>(n, line). strip line \<noteq> '''') (List.enumerate 1 (split_lines [] body)))"

definition insert_fts_rows :: "int \<Rightarrow> string \<Rightarrow> string \<Rightarrow> db \<Rightarrow> db" where
  "insert_fts_rows source_id path body d = d\<lparr>fts_rows := fts_rows d @ text_rows source_id path body\<rparr>"

definition delete_alert_file_states :: "int \<Rightarrow> string option \<Rightarrow> db \<Rightarrow> db" where
  "delete_alert_file_states source_id path d =
     d\<lparr>alert_file_states :=
        filter (\<lambda>a. \<not> (af_source_id a = source_id \<and> (path = None \<or> path = Some (af_file_path a)))) (alert_file_states d)\<rparr>"

definition delete_source_index :: "int \<Rightarrow> db \<Rightarrow> db" where
  "delete_source_index source_id d =
     delete_alert_file_states source_id None
       (d\<lparr>fts_rows := filter (\<lambda>r. fts_source_id r \<noteq> source_id) (fts_rows d),
          index_states := filter (\<lambda>s. si_source_id s \<noteq> source_id) (index_states d)\<rparr>)"

text \<open>\<open>_record_attempt\<close>; \<open>None\<close> when the UNIQUE constraint on source and path refuses the row.\<close>

definition record_attempt ::
  "int \<Rightarrow> int \<Rightarrow> dir_entry \<Rightarrow> search_index_state option \<Rightarrow> db \<Rightarrow> db option" where
  "record_attempt now source_id e previous d =
     (case Option.bind previous (\<lambda>p. tbl_get si_id (si_id p) (index_states d)) of
        Some st \<Rightarrow>
          Some (d\<lparr>index_states := tbl_put si_id (st\<lparr>si_size := de_size e, si_indexed_at := now\<rparr>) (index_states d)\<rparr>)
      | None \<Rightarrow>
          if list_ex (\<lambda>st. si_source_id st = source_id \<and> si_file_path st = de_path e) (index_states d) then None
          else Some (d\<lparr>index_states := index_states d @
                 [\<lparr>si_id = tbl_max si_id (index_states d) + 1, si_source_id = source_id, si_file_path = de_path e,
                   si_size = de_size e, si_indexed_at = now\<rparr>]\<rparr>))"

definition still_indexed :: "source option \<Rightarrow> bool" where
  "still_indexed s = (case s of None \<Rightarrow> False | Some s \<Rightarrow> s_enabled s \<and> s_search_indexing_enabled s)"

section \<open>Indexing a source\<close>

record index_stats =
  ix_indexed :: nat
  ix_skipped :: nat
  ix_removed :: nat
  ix_unreadable :: nat
  ix_deferred :: nat

definition no_stats :: index_stats where
  "no_stats = \<lparr>ix_indexed = 0, ix_skipped = 0, ix_removed = 0, ix_unreadable = 0, ix_deferred = 0\<rparr>"

text \<open>
  What happens around one pass: the commits of others while the source is listed, before file number
  \<open>n\<close> is looked at and while it is read, whether the deadline has passed before file \<open>n\<close>, and the time
  its attempt is recorded.
\<close>

record world =
  wo_listing :: "db \<Rightarrow> db"
  wo_before :: "nat \<Rightarrow> db \<Rightarrow> db"
  wo_reading :: "nat \<Rightarrow> db \<Rightarrow> db"
  wo_late :: "nat \<Rightarrow> bool"
  wo_now :: "nat \<Rightarrow> int"

datatype pass_end = Finished | SourceStopped | Raised index_error

definition unreadable :: "index_error \<Rightarrow> bool" where
  "unreadable err =
     (case err of
        FromConnector SourcePermissionError \<Rightarrow> True
      | FromConnector SourceNotFoundError \<Rightarrow> True
      | FromConnector PathOutsideBaseError \<Rightarrow> True
      | FromConnector (FetchTooLargeError n l) \<Rightarrow> True
      | _ \<Rightarrow> False)"

definition known_state :: "search_index_state list \<Rightarrow> string \<Rightarrow> search_index_state option" where
  "known_state known path = find (\<lambda>st. si_file_path st = path) known"

definition pending_entries :: "search_index_state list \<Rightarrow> dir_entry list \<Rightarrow> dir_entry list" where
  "pending_entries known entries =
     sort_key (\<lambda>e. case known_state known (de_path e) of None \<Rightarrow> (0 :: nat, 0) | Some st \<Rightarrow> (1, si_indexed_at st))
       (filter (\<lambda>e. case known_state known (de_path e) of None \<Rightarrow> True | Some st \<Rightarrow> si_size st \<noteq> de_size e) entries)"

text \<open>The loop over the pending files: \<open>n\<close> counts those already handled.\<close>

fun index_files ::
  "search_env \<Rightarrow> world \<Rightarrow> connector \<Rightarrow> int \<Rightarrow> search_index_state list \<Rightarrow> dir_entry list \<Rightarrow> nat \<Rightarrow>
   index_stats \<Rightarrow> db \<Rightarrow> pass_end \<times> index_stats \<times> db" where
  "index_files SX W c source_id known [] n stats d = (Finished, stats, d)"
| "index_files SX W c source_id known (e # es) n stats d =
     (if 0 < n \<and> wo_late W n then (Finished, stats\<lparr>ix_deferred := length (e # es)\<rparr>, d)
      else
        let previous = known_state known (de_path e);
            d1 = wo_before W n d
        in case get_source d1 source_id of
             None \<Rightarrow> (SourceStopped, stats, d1)
           | Some s \<Rightarrow>
               if \<not> still_indexed (Some s) then (SourceStopped, stats, d1)
               else
                 let d2 = wo_reading W n d1 in
                 case read_text SX c s e of
                   Inl err \<Rightarrow>
                     if unreadable err then
                       (case record_attempt (wo_now W n) source_id e previous d2 of
                          None \<Rightarrow> (Raised UniqueViolation, stats, d2)
                        | Some d3 \<Rightarrow>
                            index_files SX W c source_id known es (n + 1)
                              (stats\<lparr>ix_skipped := ix_skipped stats + 1, ix_unreadable := ix_unreadable stats + 1\<rparr>) d3)
                     else (Raised err, stats, d2)
                 | Inr None \<Rightarrow>
                     (case record_attempt (wo_now W n) source_id e previous d2 of
                        None \<Rightarrow> (Raised UniqueViolation, stats, d2)
                      | Some d3 \<Rightarrow>
                          index_files SX W c source_id known es (n + 1) (stats\<lparr>ix_skipped := ix_skipped stats + 1\<rparr>) d3)
                 | Inr (Some body) \<Rightarrow>
                     (case record_attempt (wo_now W n) source_id e previous
                             (insert_fts_rows source_id (de_path e) body (delete_fts_rows source_id (de_path e) d2)) of
                        None \<Rightarrow> (Raised UniqueViolation, stats, d2)
                      | Some d3 \<Rightarrow>
                          index_files SX W c source_id known es (n + 1) (stats\<lparr>ix_indexed := ix_indexed stats + 1\<rparr>) d3))"

definition forget_file :: "int \<Rightarrow> search_index_state \<Rightarrow> db \<Rightarrow> db" where
  "forget_file source_id st d =
     (let d1 = delete_alert_file_states source_id (Some (si_file_path st)) (delete_fts_rows source_id (si_file_path st) d)
      in d1\<lparr>index_states := tbl_del si_id (si_id st) (index_states d1)\<rparr>)"

definition gone :: "search_index_state list \<Rightarrow> dir_entry list \<Rightarrow> search_index_state list" where
  "gone known entries = filter (\<lambda>st. si_file_path st \<notin> de_path ` set entries) known"

text \<open>A pass over one source; \<open>None\<close> when listing it does not return.\<close>

definition index_source ::
  "search_env \<Rightarrow> world \<Rightarrow> source \<Rightarrow> db \<Rightarrow> (pass_end \<times> index_stats \<times> db) option" where
  "index_source SX W s d =
     (case connectors (sx_files SX) (s_protocol s) of
        None \<Rightarrow> Some (Finished, no_stats, d)
      | Some c \<Rightarrow>
          (let known = filter (\<lambda>st. si_source_id st = s_id s) (index_states d)
           in Option.bind (source_files SX c s (rules_for d (s_id s))) (\<lambda>r.
                case r of
                  Inl e \<Rightarrow> Some (Raised (FromConnector e), no_stats, wo_listing W d)
                | Inr entries \<Rightarrow>
                    (case index_files SX W c (s_id s) known (pending_entries known entries) 0 no_stats (wo_listing W d) of
                       (Finished, stats, d1) \<Rightarrow>
                         Some (Finished, stats\<lparr>ix_removed := length (gone known entries)\<rparr>,
                               fold (forget_file (s_id s)) (gone known entries) d1)
                     | other \<Rightarrow> Some other))))"

definition purge_inactive_source_indexes :: "db \<Rightarrow> nat \<times> db" where
  "purge_inactive_source_indexes d =
     (let indexed_ids = remdups (map si_source_id (index_states d));
          stale = filter (\<lambda>i. \<not> list_ex (\<lambda>s. s_id s = i \<and> s_search_indexing_enabled s \<and> s_enabled s) (sources d)) indexed_ids
      in (length stale, fold delete_source_index stale d))"

text \<open>
  The sweep: a source is re-read when its turn comes, and a pass that raises does not stop the others.
\<close>

fun sweep_sources :: "search_env \<Rightarrow> (int \<Rightarrow> world) \<Rightarrow> int list \<Rightarrow> db \<Rightarrow> db option" where
  "sweep_sources SX Ws [] d = Some d"
| "sweep_sources SX Ws (i # is) d =
     Option.bind
       (case get_source d i of
          None \<Rightarrow> Some d
        | Some s \<Rightarrow> map_option (\<lambda>(e, stats, d1). d1) (index_source SX (Ws i) s d))
       (sweep_sources SX Ws is)"

definition run_indexing :: "search_env \<Rightarrow> (int \<Rightarrow> world) \<Rightarrow> db \<Rightarrow> db option" where
  "run_indexing SX Ws d =
     (let d1 = snd (purge_inactive_source_indexes d)
      in sweep_sources SX Ws
           (map s_id (filter (\<lambda>s. s_search_indexing_enabled s \<and> s_enabled s) (sources d1))) d1)"

section \<open>What a pass leaves in the index\<close>

definition rows_of_source :: "int \<Rightarrow> db \<Rightarrow> fts_row set" where
  "rows_of_source source_id d = {r \<in> set (fts_rows d). fts_source_id r = source_id}"

text \<open>Every indexed line belongs to a file with a state row; a state row's id is unique.\<close>

definition indexed_inv :: "db \<Rightarrow> bool" where
  "indexed_inv d \<longleftrightarrow> distinct (map si_id (index_states d)) \<and>
     (\<forall>r \<in> set (fts_rows d). \<exists>st \<in> set (index_states d).
        si_source_id st = fts_source_id r \<and> si_file_path st = fts_file_path r)"

text \<open>Others at most delete lines of the index; or leave its tables alone; or do nothing at all.\<close>

definition only_deletes :: "(db \<Rightarrow> db) \<Rightarrow> bool" where
  "only_deletes f \<longleftrightarrow> (\<forall>d. set (fts_rows (f d)) \<subseteq> set (fts_rows d))"

definition quiet :: "(db \<Rightarrow> db) \<Rightarrow> bool" where
  "quiet f \<longleftrightarrow> (\<forall>d. fts_rows (f d) = fts_rows d \<and> index_states (f d) = index_states d)"

definition world_all :: "((db \<Rightarrow> db) \<Rightarrow> bool) \<Rightarrow> world \<Rightarrow> bool" where
  "world_all P W \<longleftrightarrow> P (wo_listing W) \<and> (\<forall>n. P (wo_before W n) \<and> P (wo_reading W n))"

lemma record_attempt_rows: "record_attempt now i e p d = Some d' \<Longrightarrow> fts_rows d' = fts_rows d"
  by (auto simp: record_attempt_def split: option.splits if_splits)

lemma text_rows_of: "r \<in> set (text_rows i path body) \<Longrightarrow> is_row_of i path r"
  by (auto simp: text_rows_def is_row_of_def)

text \<open>The three ways a file that is handled ends.\<close>

lemma index_files_step:
  assumes "index_files SX W c i known (e # es) n stats d = (fin, stats', d')"
  obtains (ends) "d' \<in> {d, wo_before W n d, wo_reading W n (wo_before W n d)}" "fin = Finished \<Longrightarrow> d' = d \<and> wo_late W n"
  | (skipped) stats1 d3 where "record_attempt (wo_now W n) i e (known_state known (de_path e)) (wo_reading W n (wo_before W n d)) = Some d3"
      "index_files SX W c i known es (n + 1) stats1 d3 = (fin, stats', d')"
      "\<And>s. get_source (wo_before W n d) i = Some s \<Longrightarrow> \<nexists>body. read_text SX c s e = Inr (Some body)"
  | (indexed) s body stats1 d3 where "get_source (wo_before W n d) i = Some s" "read_text SX c s e = Inr (Some body)"
      "record_attempt (wo_now W n) i e (known_state known (de_path e))
         (insert_fts_rows i (de_path e) body (delete_fts_rows i (de_path e) (wo_reading W n (wo_before W n d)))) = Some d3"
      "index_files SX W c i known es (n + 1) stats1 d3 = (fin, stats', d')"
proof (cases "0 < n \<and> wo_late W n \<or> (\<forall>s. get_source (wo_before W n d) i = Some s \<longrightarrow> \<not> still_indexed (Some s))")
  case True
  with assms show ?thesis by (intro ends) (auto simp: Let_def split: if_splits option.splits)
next
  case False
  let ?d2 = "wo_reading W n (wo_before W n d)"
  from False obtain s where s: "get_source (wo_before W n d) i = Some s" "still_indexed (Some s)" by blast
  let ?rec = "\<lambda>d. record_attempt (wo_now W n) i e (known_state known (de_path e)) d"
  note run = assms [unfolded index_files.simps Let_def s(1) option.case]
  show ?thesis
  proof (cases "read_text SX c s e")
    case (Inl err)
    show ?thesis
    proof (cases "if unreadable err then ?rec ?d2 else None")
      case None
      with run False s Inl show ?thesis by (intro ends) (auto split: if_splits)
    next
      case (Some d3)
      with run False s Inl show ?thesis by (intro skipped) (auto split: if_splits)
    qed
  next
    case (Inr got)
    show ?thesis
    proof (cases got)
      case None
      with run False s Inr show ?thesis
        by (cases "?rec ?d2") (auto intro: ends skipped)
    next
      case (Some body)
      with run False s Inr show ?thesis
        by (cases "?rec (insert_fts_rows i (de_path e) body (delete_fts_rows i (de_path e) ?d2))") (auto intro: ends indexed)
    qed
  qed
qed

lemma index_files_rows:
  assumes "index_files SX W c i known es n stats d = (Finished, stats', d')" "world_all only_deletes W"
    and "rows_of_source i d \<subseteq> {r. fts_file_path r \<in> P}" "de_path ` set es \<subseteq> P"
  shows "rows_of_source i d' \<subseteq> {r. fts_file_path r \<in> P}"
  using assms(1,3,4)
proof (induction es arbitrary: n stats d)
  case (Cons e es)
  let ?d2 = "wo_reading W n (wo_before W n d)"
  have "set (fts_rows ?d2) \<subseteq> set (fts_rows d)"
    using assms(2) unfolding world_all_def only_deletes_def by (meson subset_trans)
  then have d2: "rows_of_source i ?d2 \<subseteq> {r. fts_file_path r \<in> P}"
    using Cons.prems(2) by (auto simp: rows_of_source_def)
  from Cons.prems(1) show ?case
  proof (cases rule: index_files_step)
    case ends
    with Cons.prems(2) show ?thesis by simp
  next
    case (skipped stats1 d3)
    then have "rows_of_source i d3 = rows_of_source i ?d2" by (simp add: rows_of_source_def record_attempt_rows)
    with Cons.IH [OF skipped(2)] d2 Cons.prems(3) show ?thesis by simp
  next
    case (indexed s body stats1 d3)
    have "set (fts_rows d3) \<subseteq> set (fts_rows ?d2) \<union> set (text_rows i (de_path e) body)"
      by (auto simp: record_attempt_rows [OF indexed(3)] insert_fts_rows_def delete_fts_rows_def)
    moreover have "fts_file_path r \<in> P" if "r \<in> set (text_rows i (de_path e) body)" for r
      using text_rows_of [OF that] Cons.prems(3) by (simp add: is_row_of_def)
    ultimately have "rows_of_source i d3 \<subseteq> {r. fts_file_path r \<in> P}"
      using d2 unfolding rows_of_source_def by blast
    with Cons.IH [OF indexed(4)] Cons.prems(3) show ?thesis by simp
  qed
qed simp

lemma forget_file_rows [simp]:
  "fts_rows (forget_file i st d) = filter (\<lambda>r. \<not> is_row_of i (si_file_path st) r) (fts_rows d)"
  by (simp add: forget_file_def Let_def delete_alert_file_states_def delete_fts_rows_def)

lemma forget_files_rows:
  "fts_rows (fold (forget_file i) sts d) =
     filter (\<lambda>r. \<not> (fts_source_id r = i \<and> fts_file_path r \<in> si_file_path ` set sts)) (fts_rows d)"
  by (induction sts arbitrary: d) (auto simp: is_row_of_def intro!: filter_cong)

lemma pending_subset: "set (pending_entries known entries) \<subseteq> set entries"
  by (auto simp: pending_entries_def)

text \<open>A finished pass in its parts.\<close>

lemma index_source_Finished:
  assumes "index_source SX W s d = Some (Finished, stats, d')" "connectors (sx_files SX) (s_protocol s) = Some c"
    and "source_files SX c s (rules_for d (s_id s)) = Some (Inr entries)"
  obtains stats1 d1 where
    "index_files SX W c (s_id s) (filter (\<lambda>st. si_source_id st = s_id s) (index_states d))
       (pending_entries (filter (\<lambda>st. si_source_id st = s_id s) (index_states d)) entries) 0 no_stats (wo_listing W d) =
       (Finished, stats1, d1)"
    "d' = fold (forget_file (s_id s)) (gone (filter (\<lambda>st. si_source_id st = s_id s) (index_states d)) entries) d1"
proof -
  let ?known = "filter (\<lambda>st. si_source_id st = s_id s) (index_states d)"
  obtain e st1 d1 where f: "index_files SX W c (s_id s) ?known (pending_entries ?known entries) 0 no_stats (wo_listing W d) = (e, st1, d1)"
    by (metis prod_cases3)
  with assms have "e = Finished" by (cases e) (auto simp: index_source_def Let_def)
  with f assms that show ?thesis by (auto simp: index_source_def Let_def)
qed

lemma finished_rows:
  assumes "index_source SX W s d = Some (Finished, stats, d')" "connectors (sx_files SX) (s_protocol s) = Some c"
    and "source_files SX c s (rules_for d (s_id s)) = Some (Inr entries)"
    and "indexed_inv d" "world_all only_deletes W"
  shows "rows_of_source (s_id s) d' \<subseteq> {r. fts_file_path r \<in> de_path ` set entries}"
proof -
  let ?known = "filter (\<lambda>st. si_source_id st = s_id s) (index_states d)"
  from index_source_Finished [OF assms(1-3)] obtain stats1 d1 where
    f: "index_files SX W c (s_id s) ?known (pending_entries ?known entries) 0 no_stats (wo_listing W d) = (Finished, stats1, d1)"
    and d': "d' = fold (forget_file (s_id s)) (gone ?known entries) d1" by metis
  let ?P = "si_file_path ` set ?known \<union> de_path ` set entries"
  have "rows_of_source (s_id s) (wo_listing W d) \<subseteq> {r. fts_file_path r \<in> ?P}"
  proof
    fix r assume "r \<in> rows_of_source (s_id s) (wo_listing W d)"
    moreover have "set (fts_rows (wo_listing W d)) \<subseteq> set (fts_rows d)"
      using assms(5) by (simp add: world_all_def only_deletes_def)
    ultimately have r: "r \<in> set (fts_rows d)" "fts_source_id r = s_id s" by (auto simp: rows_of_source_def)
    with assms(4) obtain st where "st \<in> set (index_states d)" "si_source_id st = s_id s" "si_file_path st = fts_file_path r"
      unfolding indexed_inv_def by metis
    then show "r \<in> {r. fts_file_path r \<in> ?P}" by force
  qed
  from index_files_rows [OF f assms(5) this] pending_subset
  have "rows_of_source (s_id s) d1 \<subseteq> {r. fts_file_path r \<in> ?P}" by blast
  then show ?thesis by (force simp: d' rows_of_source_def forget_files_rows gone_def)
qed

section \<open>Only files the rules show are listed\<close>

text \<open>What the indexer relies on: a connector lists no file the rules hide.\<close>

definition lister_filters :: "search_env \<Rightarrow> connector \<Rightarrow> source \<Rightarrow> rule list \<Rightarrow> bool" where
  "lister_filters SX c s rs \<longleftrightarrow>
     (\<forall>dir entries e. connector_list (fe_re2 (sx_files SX)) (co_list c) s rs dir = Inr entries \<longrightarrow> e \<in> set entries \<longrightarrow>
        \<not> de_is_dir e \<longrightarrow> visible (sx_files SX) s (de_path e) rs)"

lemma own_lister_filters:
  assumes "connectors (sx_files SX) (s_protocol s) = Some c" "is_multi_root s \<or> s_protocol s = Local"
  shows "lister_filters SX c s rs"
proof -
  have "is_entry_visible (fe_re2 (sx_files SX)) (rules_case_insensitive s) (de_path e) (de_is_dir e) rs"
    if l: "connector_list (fe_re2 (sx_files SX)) (co_list c) s rs dir = Inr entries" and e: "e \<in> set entries" for dir entries e
  proof (cases "is_multi_root s")
    case True
    from module_listing_visible [OF l e this] show ?thesis .
  next
    case False
    with assms l have "local_list_directory (fe_re2 (sx_files SX)) (fe_local (sx_files SX)) s rs dir = Inr entries"
      and p: "s_protocol s = Local"
      by (auto simp: connector_list_def connectors_def local_connector_def)
    from local_listing_visible [OF this(1) e] p show ?thesis by (simp add: rules_case_insensitive_def)
  qed
  then show ?thesis by (auto simp: lister_filters_def visible_def is_entry_visible_def)
qed

lemma iter_files_visible:
  assumes "iter_files SX c s rs es = Some r"
  shows "\<forall>out. r = Inr out \<longrightarrow> lister_filters SX c s rs \<longrightarrow> (\<forall>e \<in> set es. \<not> de_is_dir e \<longrightarrow> visible (sx_files SX) s (de_path e) rs) \<longrightarrow>
    (\<forall>e \<in> set out. visible (sx_files SX) s (de_path e) rs)"
proof (rule iter_files.raw_induct [OF _ assms])
  fix walk :: "search_env \<Rightarrow> connector \<Rightarrow> source \<Rightarrow> rule list \<Rightarrow> dir_entry list \<Rightarrow> (source_error + dir_entry list) option"
    and SX :: search_env and c s rs es r
  let ?ok = "\<lambda>es. \<forall>e \<in> set es. \<not> de_is_dir e \<longrightarrow> visible (sx_files SX) s (de_path e) rs"
  let ?goal = "\<lambda>r es. \<forall>out. r = Inr out \<longrightarrow> lister_filters SX c s rs \<longrightarrow> ?ok es \<longrightarrow>
    (\<forall>e \<in> set out. visible (sx_files SX) s (de_path e) rs)"
  assume IH: "\<And>SX c s rs es r. walk SX c s rs es = Some r \<Longrightarrow>
      \<forall>out. r = Inr out \<longrightarrow> lister_filters SX c s rs \<longrightarrow> (\<forall>e \<in> set es. \<not> de_is_dir e \<longrightarrow> visible (sx_files SX) s (de_path e) rs) \<longrightarrow>
        (\<forall>e \<in> set out. visible (sx_files SX) s (de_path e) rs)"
    and step: "(case es of
        [] \<Rightarrow> Some (Inr [])
      | e # es \<Rightarrow>
          Option.bind
            (if de_is_dir e then
               (case connector_list (fe_re2 (sx_files SX)) (co_list c) s rs (de_path e) of
                  Inl err \<Rightarrow> Some (Inl err)
                | Inr below \<Rightarrow> walk SX c s rs below)
             else Some (Inr [e]))
            (\<lambda>r. case r of
                   Inl err \<Rightarrow> Some (Inl err)
                 | Inr found \<Rightarrow>
                     Option.bind (walk SX c s rs es) (\<lambda>rest. Some (bindE rest (\<lambda>xs. Inr (found @ xs)))))) = Some r"
  show "?goal r es"
  proof (intro allI impI)
    fix out assume r: "r = Inr out" and lf: "lister_filters SX c s rs" and ok: "?ok es"
    show "\<forall>e \<in> set out. visible (sx_files SX) s (de_path e) rs"
    proof (cases es)
      case Nil
      with step r show ?thesis by simp
    next
      case (Cons d ds)
      let ?first = "if de_is_dir d then (case connector_list (fe_re2 (sx_files SX)) (co_list c) s rs (de_path d) of
              Inl err \<Rightarrow> Some (Inl err) | Inr below \<Rightarrow> walk SX c s rs below) else Some (Inr [d])"
      obtain r1 where r1: "?first = Some r1"
        using step Cons by (cases ?first) auto
      obtain found where f: "?first = Some (Inr found)"
        using step Cons r r1 by (cases r1) auto
      obtain xs where x: "walk SX c s rs ds = Some (Inr xs)" and out: "out = found @ xs"
        using step r unfolding Cons by (auto simp: f bind_eq_Some_conv bindE_Inr_iff)
      from IH [OF x] lf ok Cons have "\<forall>e \<in> set xs. visible (sx_files SX) s (de_path e) rs" by auto
      moreover have "\<forall>e \<in> set found. visible (sx_files SX) s (de_path e) rs"
      proof (cases "de_is_dir d")
        case True
        with f obtain below where b: "connector_list (fe_re2 (sx_files SX)) (co_list c) s rs (de_path d) = Inr below"
          "walk SX c s rs below = Some (Inr found)" by (auto split: sum.split_asm)
        from lf b(1) have "?ok below" unfolding lister_filters_def by blast
        with IH [OF b(2)] lf show ?thesis by blast
      next
        case False
        with f ok Cons show ?thesis by auto
      qed
      ultimately show ?thesis by (auto simp: out)
    qed
  qed
qed

lemma source_files_visible:
  assumes "source_files SX c s rs = Some (Inr entries)" "lister_filters SX c s rs" "e \<in> set entries"
  shows "visible (sx_files SX) s (de_path e) rs"
proof -
  from assms(1) obtain listing where l: "connector_list (fe_re2 (sx_files SX)) (co_list c) s rs '''' = Inr listing"
    "iter_files SX c s rs listing = Some (Inr entries)" by (auto simp: source_files_def split: sum.split_asm)
  from l(1) assms(2) have "\<forall>e \<in> set listing. \<not> de_is_dir e \<longrightarrow> visible (sx_files SX) s (de_path e) rs"
    unfolding lister_filters_def by blast
  with iter_files_visible [OF l(2)] assms(2,3) show ?thesis by blast
qed

section \<open>Every indexed line stays tracked\<close>

text \<open>The state rows taken at the start of a pass are still those of the same files.\<close>

definition tracked :: "int \<Rightarrow> search_index_state list \<Rightarrow> db \<Rightarrow> bool" where
  "tracked source_id known d \<longleftrightarrow> indexed_inv d \<and>
     (\<forall>p \<in> set known. \<exists>st. tbl_get si_id (si_id p) (index_states d) = Some st \<and>
        si_source_id st = source_id \<and> si_file_path st = si_file_path p)"

lemma tracked_cong:
  "fts_rows d' = fts_rows d \<Longrightarrow> index_states d' = index_states d \<Longrightarrow> tracked i known d' = tracked i known d"
  by (simp add: tracked_def indexed_inv_def)

text \<open>
  Recording an attempt keeps the keys of the state rows and adds that of the file.
\<close>

lemma record_attempt_states:
  assumes "record_attempt now i e previous d = Some d'" "distinct (map si_id (index_states d))"
    and "\<forall>p st. previous = Some p \<longrightarrow> tbl_get si_id (si_id p) (index_states d) = Some st \<longrightarrow>
           si_source_id st = i \<and> si_file_path st = de_path e"
  shows "distinct (map si_id (index_states d'))"
    and "\<exists>st \<in> set (index_states d'). si_source_id st = i \<and> si_file_path st = de_path e"
    and "tbl_get si_id j (index_states d) = Some x \<Longrightarrow> \<exists>y. tbl_get si_id j (index_states d') = Some y \<and>
           si_source_id y = si_source_id x \<and> si_file_path y = si_file_path x"
proof -
  have "distinct (map si_id (index_states d')) \<and>
    (\<exists>st \<in> set (index_states d'). si_source_id st = i \<and> si_file_path st = de_path e) \<and>
    (tbl_get si_id j (index_states d) = Some x \<longrightarrow> (\<exists>y. tbl_get si_id j (index_states d') = Some y \<and>
       si_source_id y = si_source_id x \<and> si_file_path y = si_file_path x))"
  proof (cases "Option.bind previous (\<lambda>p. tbl_get si_id (si_id p) (index_states d))")
    case None
    with assms(1) have d': "index_states d' = index_states d @ [\<lparr>si_id = tbl_max si_id (index_states d) + 1,
        si_source_id = i, si_file_path = de_path e, si_size = de_size e, si_indexed_at = now\<rparr>]"
      by (auto simp: record_attempt_def split: if_splits)
    have "tbl_max si_id (index_states d) + 1 \<notin> si_id ` set (index_states d)"
      using tbl_max_ge [of _ "index_states d" si_id] by force
    with assms(2) show ?thesis by (auto simp: d' tbl_get_append split: option.split)
  next
    case (Some st)
    then obtain p where p: "previous = Some p" "tbl_get si_id (si_id p) (index_states d) = Some st"
      by (cases previous) auto
    let ?st = "st\<lparr>si_size := de_size e, si_indexed_at := now\<rparr>"
    have d': "index_states d' = tbl_put si_id ?st (index_states d)"
      using assms(1) Some by (auto simp: record_attempt_def)
    have st: "si_source_id st = i" "si_file_path st = de_path e" using assms(3) p by auto
    have "tbl_get si_id (si_id st) (index_states d') = Some ?st"
      using tbl_get_Some [OF p(2)] p(2) by (simp add: d' tbl_get_put)
    then have "?st \<in> set (index_states d')" by (auto dest: tbl_get_Some)
    moreover have "tbl_get si_id j (index_states d') = Some (if j = si_id st then ?st else x)"
      if "tbl_get si_id j (index_states d) = Some x" using that by (auto simp: d' tbl_get_put)
    moreover have "j = si_id st \<Longrightarrow> tbl_get si_id j (index_states d) = Some x \<Longrightarrow> x = st"
      using p(2) tbl_get_Some [OF p(2)] by auto
    moreover have "distinct (map si_id (index_states d'))" using assms(2) by (simp add: d')
    ultimately show ?thesis using st by (auto intro!: bexI [where x = ?st])
  qed
  then show "distinct (map si_id (index_states d'))"
    "\<exists>st \<in> set (index_states d'). si_source_id st = i \<and> si_file_path st = de_path e"
    "tbl_get si_id j (index_states d) = Some x \<Longrightarrow> \<exists>y. tbl_get si_id j (index_states d') = Some y \<and>
           si_source_id y = si_source_id x \<and> si_file_path y = si_file_path x" by blast+
qed

lemma known_state_Some: "known_state known path = Some p \<Longrightarrow> p \<in> set known \<and> si_file_path p = path"
  unfolding known_state_def by (auto dest: found)

lemma tracked_record:
  assumes "tracked i known d" "fts_rows d2 = fts_rows d \<or> (\<exists>body. d2 = insert_fts_rows i (de_path e) body (delete_fts_rows i (de_path e) d))"
    and "index_states d2 = index_states d" "record_attempt now i e (known_state known (de_path e)) d2 = Some d3"
  shows "tracked i known d3"
proof -
  have dist: "distinct (map si_id (index_states d2))" using assms(1,3) by (simp add: tracked_def indexed_inv_def)
  have key: "\<forall>p st. known_state known (de_path e) = Some p \<longrightarrow> tbl_get si_id (si_id p) (index_states d2) = Some st \<longrightarrow>
      si_source_id st = i \<and> si_file_path st = de_path e"
  proof (intro allI impI)
    fix p st
    assume k: "known_state known (de_path e) = Some p" and st: "tbl_get si_id (si_id p) (index_states d2) = Some st"
    from known_state_Some [OF k] assms(1) obtain x where
      "tbl_get si_id (si_id p) (index_states d) = Some x" "si_source_id x = i" "si_file_path x = de_path e"
      unfolding tracked_def by metis
    with st show "si_source_id st = i \<and> si_file_path st = de_path e" by (simp add: assms(3))
  qed
  note rec = record_attempt_states [OF assms(4) dist key]
  have rows: "r \<in> set (fts_rows d3) \<Longrightarrow> r \<in> set (fts_rows d) \<or> is_row_of i (de_path e) r" for r
    using assms(2) text_rows_of by (auto simp: record_attempt_rows [OF assms(4)] insert_fts_rows_def delete_fts_rows_def)
  have "\<exists>st \<in> set (index_states d3). si_source_id st = fts_source_id r \<and> si_file_path st = fts_file_path r"
    if "r \<in> set (fts_rows d3)" for r
    using rows [OF that]
  proof
    assume "r \<in> set (fts_rows d)"
    with assms(1) obtain st where st: "st \<in> set (index_states d)" "si_source_id st = fts_source_id r" "si_file_path st = fts_file_path r"
      unfolding tracked_def indexed_inv_def by metis
    then obtain x where x: "tbl_get si_id (si_id st) (index_states d2) = Some x" unfolding assms(3) by (metis tbl_get_in)
    from tbl_get_Some [OF x] st(1) have "x = st" by (intro same_id [OF dist]) (auto simp: assms(3))
    with rec(3) [OF x] st(2,3) obtain y where "tbl_get si_id (si_id st) (index_states d3) = Some y"
      "si_source_id y = fts_source_id r" "si_file_path y = fts_file_path r" by auto
    then show ?thesis using tbl_get_Some by metis
  qed (use rec(2) in \<open>auto simp: is_row_of_def\<close>)
  moreover have "\<exists>st. tbl_get si_id (si_id p) (index_states d3) = Some st \<and> si_source_id st = i \<and> si_file_path st = si_file_path p"
    if "p \<in> set known" for p
  proof -
    from assms(1) that obtain x where "tbl_get si_id (si_id p) (index_states d2) = Some x" "si_source_id x = i" "si_file_path x = si_file_path p"
      unfolding tracked_def assms(3) by blast
    with rec(3) [OF this(1)] show ?thesis by metis
  qed
  ultimately show ?thesis using rec(1) unfolding tracked_def indexed_inv_def by blast
qed

lemma quietD: "quiet f \<Longrightarrow> tracked i known (f d) = tracked i known d"
  by (rule tracked_cong) (simp_all add: quiet_def)

lemma index_files_tracked:
  assumes "index_files SX W c i known es n stats d = (fin, stats', d')" "world_all quiet W" "tracked i known d"
  shows "tracked i known d'"
  using assms(1,3)
proof (induction es arbitrary: n stats d)
  case (Cons e es)
  let ?d1 = "wo_before W n d"
  let ?d2 = "wo_reading W n ?d1"
  have t: "tracked i known ?d1" "tracked i known ?d2"
    using assms(2) Cons.prems(2) by (simp_all add: world_all_def quietD)
  from Cons.prems(1) show ?case
  proof (cases rule: index_files_step)
    case ends
    with t Cons.prems(2) show ?thesis by auto
  next
    case (skipped stats1 d3)
    have "tracked i known d3" by (rule tracked_record [OF t(2) _ _ skipped(1)]) simp_all
    with Cons.IH [OF skipped(2)] show ?thesis by simp
  next
    case (indexed s body stats1 d3)
    have "tracked i known d3"
      by (rule tracked_record [OF t(2) _ _ indexed(3)]) (auto simp: insert_fts_rows_def delete_fts_rows_def)
    with Cons.IH [OF indexed(4)] show ?thesis by simp
  qed
qed simp

lemma forget_file_inv:
  assumes "indexed_inv d" "\<And>st. st \<in> set (index_states d) \<Longrightarrow> si_id st = si_id p \<Longrightarrow> si_source_id st = i \<and> si_file_path st = si_file_path p"
  shows "indexed_inv (forget_file i p d)"
  using assms unfolding indexed_inv_def
  by (auto simp: forget_file_def Let_def delete_alert_file_states_def delete_fts_rows_def tbl_del_def is_row_of_def distinct_map_filter)
    metis+

lemma forget_files_inv:
  assumes "indexed_inv d" "\<And>p st. p \<in> set ps \<Longrightarrow> st \<in> set (index_states d) \<Longrightarrow> si_id st = si_id p \<Longrightarrow>
      si_source_id st = i \<and> si_file_path st = si_file_path p"
  shows "indexed_inv (fold (forget_file i) ps d)"
  using assms
proof (induction ps arbitrary: d)
  case (Cons p ps)
  have sub: "set (index_states (forget_file i p d)) \<subseteq> set (index_states d)"
    by (auto simp: forget_file_def Let_def delete_alert_file_states_def delete_fts_rows_def tbl_del_def)
  have inv: "indexed_inv (forget_file i p d)"
    by (rule forget_file_inv [OF Cons.prems(1)]) (rule Cons.prems(2) [OF list.set_intros(1)])
  have "indexed_inv (fold (forget_file i) ps (forget_file i p d))"
  proof (rule Cons.IH [OF inv])
    fix q st
    assume "q \<in> set ps" "st \<in> set (index_states (forget_file i p d))" "si_id st = si_id q"
    then show "si_source_id st = i \<and> si_file_path st = si_file_path q"
      using sub by (intro Cons.prems(2)) auto
  qed
  then show ?case by simp
qed simp

lemma index_source_inv:
  assumes "index_source SX W s d = Some (fin, stats, d')" "indexed_inv d" "world_all quiet W"
  shows "indexed_inv d'"
proof (cases "connectors (sx_files SX) (s_protocol s)")
  case None
  with assms show ?thesis by (simp add: index_source_def)
next
  case (Some c)
  let ?known = "filter (\<lambda>st. si_source_id st = s_id s) (index_states d)"
  have self: "tbl_get si_id (si_id p) (index_states d) = Some p" if "p \<in> set ?known" for p
  proof -
    from that obtain x where x: "tbl_get si_id (si_id p) (index_states d) = Some x" by (metis filter_is_subset subsetD tbl_get_in)
    with tbl_get_Some [OF x] that assms(2) same_id [of si_id "index_states d" x p] show ?thesis by (auto simp: indexed_inv_def)
  qed
  have "tracked (s_id s) ?known d" using assms(2) self by (auto simp: tracked_def)
  then have t: "tracked (s_id s) ?known (wo_listing W d)"
    using assms(3) by (simp add: world_all_def quietD)
  from assms(1) Some obtain r where r: "source_files SX c s (rules_for d (s_id s)) = Some r"
    by (auto simp: index_source_def Let_def bind_eq_Some_conv)
  show ?thesis
  proof (cases r)
    case (Inl e)
    with r assms(1) Some t show ?thesis by (auto simp: index_source_def Let_def tracked_def)
  next
    case (Inr entries)
    obtain fin1 st1 d1 where f: "index_files SX W c (s_id s) ?known (pending_entries ?known entries) 0 no_stats (wo_listing W d) = (fin1, st1, d1)"
      by (metis prod_cases3)
    from index_files_tracked [OF f assms(3) t] have t1: "tracked (s_id s) ?known d1" .
    have "indexed_inv (fold (forget_file (s_id s)) (gone ?known entries) d1)"
    proof (rule forget_files_inv)
      show "indexed_inv d1" using t1 by (simp add: tracked_def)
      fix p st
      assume p: "p \<in> set (gone ?known entries)" and st: "st \<in> set (index_states d1)" "si_id st = si_id p"
      from p have "p \<in> set ?known" by (simp add: gone_def)
      with t1 obtain x where x: "tbl_get si_id (si_id p) (index_states d1) = Some x" "si_source_id x = s_id s" "si_file_path x = si_file_path p"
        unfolding tracked_def by blast
      with st tbl_get_Some [OF x(1)] t1 same_id [of si_id "index_states d1" x st] show "si_source_id st = s_id s \<and> si_file_path st = si_file_path p"
        by (auto simp: tracked_def indexed_inv_def)
    qed
    with f r Inr assms(1) Some t1 show ?thesis by (cases fin1) (auto simp: index_source_def Let_def tracked_def)
  qed
qed

lemma delete_source_index_fields [simp]:
  "fts_rows (delete_source_index i d) = filter (\<lambda>r. fts_source_id r \<noteq> i) (fts_rows d)"
  "index_states (delete_source_index i d) = filter (\<lambda>s. si_source_id s \<noteq> i) (index_states d)"
  "sources (delete_source_index i d) = sources d"
  by (simp_all add: delete_source_index_def delete_alert_file_states_def)

lemma delete_sources_index:
  "fts_rows (fold delete_source_index is d) = filter (\<lambda>r. fts_source_id r \<notin> set is) (fts_rows d)"
  "index_states (fold delete_source_index is d) = filter (\<lambda>s. si_source_id s \<notin> set is) (index_states d)"
  "sources (fold delete_source_index is d) = sources d"
  by (induction "is" arbitrary: d) (auto intro!: filter_cong)

lemma purge_inv: "indexed_inv d \<Longrightarrow> indexed_inv (snd (purge_inactive_source_indexes d))"
  unfolding indexed_inv_def
  by (auto simp: purge_inactive_source_indexes_def Let_def delete_sources_index distinct_map_filter) metis+

lemma sweep_inv:
  "sweep_sources SX Ws is d = Some d' \<Longrightarrow> (\<And>i. world_all quiet (Ws i)) \<Longrightarrow> indexed_inv d \<Longrightarrow> indexed_inv d'"
proof (induction "is" arbitrary: d)
  case (Cons i ids)
  from Cons.prems(1) obtain d1 where
    d1: "(case get_source d i of None \<Rightarrow> Some d | Some s \<Rightarrow> map_option (\<lambda>(e, stats, d1). d1) (index_source SX (Ws i) s d)) = Some d1"
    and rest: "sweep_sources SX Ws ids d1 = Some d'" by (auto simp: bind_eq_Some_conv)
  have "indexed_inv d1"
  proof (cases "get_source d i")
    case None
    with d1 Cons.prems(3) show ?thesis by simp
  next
    case (Some s)
    with d1 obtain fin stats where "index_source SX (Ws i) s d = Some (fin, stats, d1)" by auto
    from index_source_inv [OF this Cons.prems(3) Cons.prems(2)] show ?thesis .
  qed
  from Cons.IH [OF rest Cons.prems(2) this] show ?case .
qed simp

section \<open>What an undisturbed pass writes\<close>

definition alone :: "world \<Rightarrow> bool" where
  "alone W \<longleftrightarrow> world_all (\<lambda>f. \<forall>d. f d = d) W \<and> (\<forall>n. \<not> wo_late W n)"

definition rows_of :: "int \<Rightarrow> string \<Rightarrow> db \<Rightarrow> fts_row list" where
  "rows_of source_id path d = filter (is_row_of source_id path) (fts_rows d)"

lemma record_attempt_sources: "record_attempt now i e p d = Some d' \<Longrightarrow> sources d' = sources d"
  by (auto simp: record_attempt_def split: option.splits if_splits)

lemma text_rows_filter [simp]:
  "filter (is_row_of i path) (text_rows i path' body) = (if path = path' then text_rows i path body else [])"
  by (auto simp: filter_id_conv filter_empty_conv is_row_of_def dest!: text_rows_of)

lemma index_files_writes:
  assumes "index_files SX W c i known es n stats d = (Finished, stats', d')" "alone W"
    and "distinct (map de_path es)" "get_source d i = Some s"
  shows "(\<forall>q. q \<notin> de_path ` set es \<longrightarrow> rows_of i q d' = rows_of i q d) \<and>
    (\<forall>e \<in> set es. \<forall>body. read_text SX c s e = Inr (Some body) \<longrightarrow> rows_of i (de_path e) d' = text_rows i (de_path e) body)"
  using assms(1,3,4)
proof (induction es arbitrary: n stats d)
  case (Cons e es)
  have W: "wo_before W n d = d" "wo_reading W n d = d" "\<not> wo_late W n" using assms(2) by (simp_all add: alone_def world_all_def)
  have distinct: "distinct (map de_path es)" "de_path e \<notin> de_path ` set es" using Cons.prems(2) by simp_all
  from Cons.prems(1) show ?case
  proof (cases rule: index_files_step)
    case ends
    with W(3) show ?thesis by simp
  next
    case (skipped stats1 d3)
    have "get_source d3 i = Some s" using Cons.prems(3) record_attempt_sources [OF skipped(1)] by (simp add: W)
    from Cons.IH [OF skipped(2) distinct(1) this] skipped(3) Cons.prems(3) W(1) distinct(2)
    show ?thesis by (auto simp: rows_of_def record_attempt_rows [OF skipped(1)] W(2))
  next
    case (indexed s' body stats1 d3)
    from indexed(1) Cons.prems(3) W(1) have s': "s' = s" by simp
    have "get_source d3 i = Some s"
      using Cons.prems(3) record_attempt_sources [OF indexed(3)] by (simp add: W insert_fts_rows_def delete_fts_rows_def)
    note IH = Cons.IH [OF indexed(4) distinct(1) this]
    have d3: "rows_of i q d3 = (if q = de_path e then text_rows i q body else rows_of i q d)" for q
      by (auto simp: rows_of_def record_attempt_rows [OF indexed(3)] insert_fts_rows_def delete_fts_rows_def W
          filter_filter is_row_of_def intro!: filter_cong)
    with IH indexed(2) s' distinct(2) show ?thesis by auto
  qed
qed simp

section \<open>Properties\<close>

text \<open>
  C28: What the rules hide leaves the index: after an indexing pass that finished, whatever other
  requests deleted meanwhile, every indexed line of the source is of a file that the rules the pass
  started with show. For a connector of another protocol the hypothesis is that it lists no hidden
  file; the local collector and a source with several roots are shown to.
\<close>

theorem indexing_forgets_hidden_files:
  assumes "index_source SX W s d = Some (Finished, stats, d')" "connectors (sx_files SX) (s_protocol s) = Some c"
    and "indexed_inv d" "world_all only_deletes W"
    and "is_multi_root s \<or> s_protocol s = Local \<or> lister_filters SX c s (rules_for d (s_id s))"
    and "r \<in> set (fts_rows d')" "fts_source_id r = s_id s"
  shows "visible (sx_files SX) s (fts_file_path r) (rules_for d (s_id s))"
proof -
  from assms(1,2) obtain got where "source_files SX c s (rules_for d (s_id s)) = Some got"
    by (auto simp: index_source_def Let_def bind_eq_Some_conv)
  moreover from this assms(1,2) obtain entries where "got = Inr entries"
    by (cases got) (auto simp: index_source_def Let_def)
  ultimately have l: "source_files SX c s (rules_for d (s_id s)) = Some (Inr entries)" by simp
  from finished_rows [OF assms(1,2) l assms(3,4)] assms(6,7) obtain e where
    "e \<in> set entries" "fts_file_path r = de_path e" by (auto simp: rows_of_source_def)
  moreover have "lister_filters SX c s (rules_for d (s_id s))" using assms(5) own_lister_filters [OF assms(2)] by blast
  ultimately show ?thesis using source_files_visible [OF l] by simp
qed

text \<open>
  No indexed line is lost track of: after any sweep every line in the index still has a state row
  of its source and file, by which a later pass or a purge finds it.
\<close>

theorem every_indexed_line_is_tracked:
  assumes "run_indexing SX Ws d = Some d'" "indexed_inv d" "\<And>i. world_all quiet (Ws i)"
  shows "indexed_inv d'"
  using sweep_inv [OF _ assms(3) purge_inv [OF assms(2)]] assms(1) by (auto simp: run_indexing_def Let_def)

text \<open>
  A source that is disabled, opted out or gone leaves the index: after the purge every indexed
  line is of a source that exists, is enabled and is opted in.
\<close>

theorem disabled_sources_leave_the_index:
  assumes "indexed_inv d" "r \<in> set (fts_rows (snd (purge_inactive_source_indexes d)))"
  shows "\<exists>s \<in> set (sources d). s_id s = fts_source_id r \<and> s_enabled s \<and> s_search_indexing_enabled s"
proof -
  from assms(2) have r: "r \<in> set (fts_rows d)"
    by (auto simp: purge_inactive_source_indexes_def Let_def delete_sources_index)
  with assms(1) obtain st where "st \<in> set (index_states d)" "si_source_id st = fts_source_id r"
    unfolding indexed_inv_def by metis
  then have "fts_source_id r \<in> set (remdups (map si_source_id (index_states d)))" by force
  with assms(2) show ?thesis
    by (auto simp: purge_inactive_source_indexes_def Let_def delete_sources_index list_ex_iff)
qed

text \<open>
  An undisturbed pass that finished indexed every changed file that could be read: the index holds
  exactly its non-blank lines with their numbers, and nothing of what it held before.
\<close>

theorem indexed_file_holds_its_lines:
  assumes "index_source SX W s d = Some (Finished, stats, d')" "connectors (sx_files SX) (s_protocol s) = Some c"
    and "source_files SX c s (rules_for d (s_id s)) = Some (Inr entries)" "distinct (map de_path entries)"
    and "alone W" "get_source d (s_id s) = Some s"
    and "e \<in> set (pending_entries (filter (\<lambda>st. si_source_id st = s_id s) (index_states d)) entries)"
    and "read_text SX c s e = Inr (Some body)"
  shows "filter (is_row_of (s_id s) (de_path e)) (fts_rows d') = text_rows (s_id s) (de_path e) body"
proof -
  let ?known = "filter (\<lambda>st. si_source_id st = s_id s) (index_states d)"
  from index_source_Finished [OF assms(1-3)] obtain stats1 d1 where
    f: "index_files SX W c (s_id s) ?known (pending_entries ?known entries) 0 no_stats (wo_listing W d) = (Finished, stats1, d1)"
    and d': "d' = fold (forget_file (s_id s)) (gone ?known entries) d1" by metis
  have W: "wo_listing W d = d" using assms(5) by (simp add: alone_def world_all_def)
  have "distinct (map de_path (pending_entries ?known entries))"
    unfolding pending_entries_def by (subst distinct_map) (use assms(4) in \<open>auto simp: distinct_map inj_on_def\<close>)
  from index_files_writes [OF f [unfolded W] assms(5) this assms(6)] assms(7,8)
  have "rows_of (s_id s) (de_path e) d1 = text_rows (s_id s) (de_path e) body" by blast
  moreover have "de_path e \<notin> si_file_path ` set (gone ?known entries)"
    using imageI [OF subsetD [OF pending_subset assms(7)], of de_path] by (auto simp: gone_def)
  then have "rows_of (s_id s) (de_path e) d' = rows_of (s_id s) (de_path e) d1"
    by (auto simp: d' rows_of_def forget_files_rows filter_filter is_row_of_def image_iff intro!: filter_cong)
  ultimately show ?thesis by (simp add: rows_of_def)
qed

text \<open>
  One file that \<open>gzip\<close> refuses with anything but an \<open>OSError\<close> (a truncated one raises \<open>EOFError\<close>) ends
  the pass before its attempt is recorded: nothing is indexed, nothing hidden or deleted is removed,
  and the next pass meets the same file first again.
\<close>

theorem truncated_gzip_stops_the_source:
  assumes "connectors (sx_files SX) (s_protocol s) = Some c"
    and "source_files SX c s (rules_for d (s_id s)) = Some (Inr entries)"
    and "pending_entries (filter (\<lambda>st. si_source_id st = s_id s) (index_states d)) entries = e # es"
    and "get_source d (s_id s) = Some s" "s_enabled s" "s_search_indexing_enabled s" "alone W"
    and "\<not> is_archive (de_name e)" "de_size e \<le> sx_max_file_bytes SX" "is_transparent_gzip (de_name e)"
    and "connector_fetch (co_copy c) s (de_path e) = Inr local" "\<not> sx_gzip_os_error SX local"
    and "fst (decompress_gzip (fe_library (sx_files SX)) local (Some (sx_max_file_bytes SX)) None) = Inl ArchiveLibraryError"
  shows "index_source SX W s d = Some (Raised GzipError, no_stats, d)"
proof -
  have "read_text SX c s e = Inl GzipError"
    using assms(8-13) by (auto simp: read_text_def map_error_def split: prod.split)
  moreover have "wo_listing W d = d" "wo_before W 0 d = d" "wo_reading W 0 d = d"
    using assms(7) by (simp_all add: alone_def world_all_def)
  ultimately show ?thesis
    using assms(1-6) by (simp add: index_source_def still_indexed_def unreadable_def Let_def)
qed

section \<open>Witnesses\<close>

text \<open>A source with one file, and an index that still holds a line of a file that is gone.\<close>

definition one_file_env :: "string \<Rightarrow> string \<Rightarrow> file_env" where
  "one_file_env name body =
     (files_env (\<lambda>_. (Inr (), Some body)))
       \<lparr>fe_connectors := (\<lambda>_. Some
          \<lparr>co_list = (\<lambda>_ _ path. if path = '''' then
               Inr [\<lparr>de_name = name, de_path = name, de_is_dir = False, de_size = 3\<rparr>] else Inl SourceNotFoundError),
           co_fetch = (\<lambda>_ _. (Inr (), Some body)), co_copy = (\<lambda>_ _. Inr body)\<rparr>),
        fe_library := \<lparr>al_zip_members = (\<lambda>_. Inr []), al_zip_open = (\<lambda>_ _. Inr []), al_tar_members = (\<lambda>_. Inr []),
          al_tar_open = (\<lambda>_ _. Inr None), al_gzip_open = (\<lambda>_. Inr [ReadFails])\<rparr>\<rparr>"

definition sample_search :: "string \<Rightarrow> string \<Rightarrow> search_env" where
  "sample_search name body =
     \<lparr>sx_files = one_file_env name body, sx_max_file_bytes = 100, sx_decode = (\<lambda>b. b), sx_gzip_os_error = (\<lambda>_. False),
      sx_match = (\<lambda>q r. Some (CHR 0x01 # fts_snippet r, fts_file_path r)), sx_rank = (\<lambda>_ _ r. fts_line_number r)\<rparr>"

definition still_world :: world where
  "still_world = \<lparr>wo_listing = (\<lambda>d. d), wo_before = (\<lambda>_ d. d), wo_reading = (\<lambda>_ d. d), wo_late = (\<lambda>_. False), wo_now = (\<lambda>_. 5)\<rparr>"

definition indexed_source :: source where
  "indexed_source = sample_source\<lparr>s_search_indexing_enabled := True\<rparr>"

definition index_db :: "string \<Rightarrow> db" where
  "index_db pattern = (files_db indexed_source pattern)
     \<lparr>index_states := [\<lparr>si_id = 1, si_source_id = 10, si_file_path = ''old'', si_size = 9, si_indexed_at = 0\<rparr>],
      fts_rows := [\<lparr>fts_source_id = 10, fts_file_path = ''old'', fts_line_number = 1, fts_snippet = ''secret''\<rparr>]\<rparr>"

definition two_lines :: string where
  "two_lines = ''up'' @ [CHR 0x0A, CHR 0x0A] @ ''down''"

lemma still_world_ok: "alone still_world" "world_all quiet still_world" "world_all only_deletes still_world"
  by (simp_all add: alone_def world_all_def still_world_def quiet_def only_deletes_def)

lemma index_db_inv: "indexed_inv (index_db ''a'')"
  by code_simp

lemma sample_pass:
  obtains stats d' where "index_source (sample_search ''a'' two_lines) still_world indexed_source (index_db ''a'') = Some (Finished, stats, d')"
    "fts_rows d' = text_rows 10 ''a'' two_lines"
proof -
  have "map_option (\<lambda>(e, stats, d). (e, fts_rows d))
      (index_source (sample_search ''a'' two_lines) still_world indexed_source (index_db ''a'')) =
    Some (Finished, text_rows 10 ''a'' two_lines)" by code_simp
  with that show ?thesis by auto
qed

lemma sample_files:
  "source_files (sample_search ''a'' two_lines) (the (connectors (one_file_env ''a'' two_lines) Ssh)) indexed_source
     (rules_for (index_db ''a'') 10) = Some (Inr [\<lparr>de_name = ''a'', de_path = ''a'', de_is_dir = False, de_size = 3\<rparr>])"
  by code_simp

lemma sample_connector:
  "connectors (sx_files (sample_search name body)) (s_protocol indexed_source) = Some (the (connectors (one_file_env name body) Ssh))"
  by (simp add: sample_search_def connectors_def one_file_env_def indexed_source_def sample_source_def)

theorem indexing_forgets_hidden_files_witness:
  "\<exists>stats d' r. index_source (sample_search ''a'' two_lines) still_world indexed_source (index_db ''a'') = Some (Finished, stats, d') \<and>
     r \<in> set (fts_rows d') \<and> fts_source_id r = 10 \<and>
     visible (one_file_env ''a'' two_lines) indexed_source (fts_file_path r) (rules_for (index_db ''a'') 10)"
proof -
  obtain stats d' where d': "index_source (sample_search ''a'' two_lines) still_world indexed_source (index_db ''a'') = Some (Finished, stats, d')"
    "fts_rows d' = text_rows 10 ''a'' two_lines" by (rule sample_pass)
  let ?r = "\<lparr>fts_source_id = 10, fts_file_path = ''a'', fts_line_number = 1, fts_snippet = ''up''\<rparr>"
  have r: "?r \<in> set (text_rows 10 ''a'' two_lines)" "s_id indexed_source = 10"
    "sx_files (sample_search ''a'' two_lines) = one_file_env ''a'' two_lines"
    by (code_simp, code_simp, simp add: sample_search_def)
  have vis: "visible (one_file_env ''a'' two_lines) indexed_source ''a'' (rules_for (index_db ''a'') 10)" by code_simp
  have lf: "lister_filters (sample_search ''a'' two_lines) (the (connectors (one_file_env ''a'' two_lines) Ssh)) indexed_source
      (rules_for (index_db ''a'') 10)"
    using vis by (auto simp: lister_filters_def r connector_list_def connectors_def one_file_env_def is_multi_root_def
        indexed_source_def sample_source_def roots_of_def split: if_splits)
  have "visible (sx_files (sample_search ''a'' two_lines)) indexed_source (fts_file_path ?r) (rules_for (index_db ''a'') (s_id indexed_source))"
    by (rule indexing_forgets_hidden_files [OF d'(1) sample_connector index_db_inv still_world_ok(3)])
      (use lf r d'(2) in simp_all)
  with d' r show ?thesis by (intro exI [of _ stats] exI [of _ d'] exI [of _ ?r]) simp
qed

theorem every_indexed_line_is_tracked_witness:
  "\<exists>d'. run_indexing (sample_search ''a'' two_lines) (\<lambda>_. still_world) (index_db ''a'') = Some d' \<and> indexed_inv d'"
proof -
  have "map_option fts_rows (run_indexing (sample_search ''a'' two_lines) (\<lambda>_. still_world) (index_db ''a'')) =
    Some (text_rows 10 ''a'' two_lines)" by code_simp
  then obtain d' where "run_indexing (sample_search ''a'' two_lines) (\<lambda>_. still_world) (index_db ''a'') = Some d'" by auto
  with every_indexed_line_is_tracked [OF this index_db_inv still_world_ok(2)] show ?thesis by blast
qed

theorem disabled_sources_leave_the_index_witness:
  "\<exists>s \<in> set (sources (index_db ''a'')). s_id s = 10 \<and> s_enabled s \<and> s_search_indexing_enabled s"
proof -
  let ?r = "\<lparr>fts_source_id = 10, fts_file_path = ''old'', fts_line_number = 1, fts_snippet = ''secret''\<rparr>"
  have "?r \<in> set (fts_rows (snd (purge_inactive_source_indexes (index_db ''a''))))" by code_simp
  from disabled_sources_leave_the_index [OF index_db_inv this] show ?thesis by simp
qed

theorem indexed_file_holds_its_lines_witness:
  "\<exists>stats d'. index_source (sample_search ''a'' two_lines) still_world indexed_source (index_db ''a'') = Some (Finished, stats, d') \<and>
     filter (is_row_of 10 ''a'') (fts_rows d') = text_rows 10 ''a'' two_lines \<and>
     text_rows 10 ''a'' two_lines = [\<lparr>fts_source_id = 10, fts_file_path = ''a'', fts_line_number = 1, fts_snippet = ''up''\<rparr>,
       \<lparr>fts_source_id = 10, fts_file_path = ''a'', fts_line_number = 3, fts_snippet = ''down''\<rparr>]"
proof -
  let ?e = "\<lparr>de_name = ''a'', de_path = ''a'', de_is_dir = False, de_size = 3\<rparr>"
  obtain stats d' where d': "index_source (sample_search ''a'' two_lines) still_world indexed_source (index_db ''a'') = Some (Finished, stats, d')"
    by (rule sample_pass)
  have i: "s_id indexed_source = 10" "get_source (index_db ''a'') 10 = Some indexed_source" by code_simp+
  have e: "?e \<in> set (pending_entries (filter (\<lambda>st. si_source_id st = s_id indexed_source) (index_states (index_db ''a''))) [?e])"
    by code_simp
  have b: "read_text (sample_search ''a'' two_lines) (the (connectors (one_file_env ''a'' two_lines) Ssh)) indexed_source ?e = Inr (Some two_lines)"
    by code_simp
  have "filter (is_row_of (s_id indexed_source) (de_path ?e)) (fts_rows d') = text_rows (s_id indexed_source) (de_path ?e) two_lines"
    by (rule indexed_file_holds_its_lines [OF d' sample_connector _ _ still_world_ok(1) _ e b]) (simp_all add: i sample_files)
  moreover have "text_rows 10 ''a'' two_lines = [\<lparr>fts_source_id = 10, fts_file_path = ''a'', fts_line_number = 1, fts_snippet = ''up''\<rparr>,
       \<lparr>fts_source_id = 10, fts_file_path = ''a'', fts_line_number = 3, fts_snippet = ''down''\<rparr>]" by code_simp
  ultimately show ?thesis using d' by (simp add: i)
qed

theorem truncated_gzip_stops_the_source_witness:
  "index_source (sample_search ''b.gz'' ''x'') still_world indexed_source (index_db ''**'') =
     Some (Raised GzipError, no_stats, index_db ''**'')"
proof (rule truncated_gzip_stops_the_source)
  let ?e = "\<lparr>de_name = ''b.gz'', de_path = ''b.gz'', de_is_dir = False, de_size = 3\<rparr>"
  show "connectors (sx_files (sample_search ''b.gz'' ''x'')) (s_protocol indexed_source) = Some (the (connectors (one_file_env ''b.gz'' ''x'') Ssh))"
    by (rule sample_connector)
  show "source_files (sample_search ''b.gz'' ''x'') (the (connectors (one_file_env ''b.gz'' ''x'') Ssh)) indexed_source
      (rules_for (index_db ''**'') (s_id indexed_source)) = Some (Inr [?e])" by code_simp
  show "pending_entries (filter (\<lambda>st. si_source_id st = s_id indexed_source) (index_states (index_db ''**''))) [?e] = ?e # []"
    by code_simp
  show "connector_fetch (co_copy (the (connectors (one_file_env ''b.gz'' ''x'') Ssh))) indexed_source (de_path ?e) = Inr ''x''"
    by code_simp
  show "alone still_world" by (rule still_world_ok)
qed code_simp+

end
