(* ===== verification/Search.thy ===== *)
theory Search
  imports SearchIndex
begin

text \<open>
  The queries of \<open>app/search_index.py\<close> and \<open>app/api/search.py\<close>: the search box, its scope and its path
  filter, and what of a match is sent to the browser. MATCH, its snippets and its rank are parameters
  of the environment; LIKE and GLOB are SQLite's operators, written out.
\<close>

section \<open>Snippets\<close>

abbreviation (input) highlight_start :: char where
  "highlight_start \<equiv> CHR 0x01"

abbreviation (input) highlight_end :: char where
  "highlight_end \<equiv> CHR 0x02"

text \<open>\<open>html.escape\<close>, then the two markers become tags.\<close>

definition html_escape_char :: "char \<Rightarrow> string" where
  "html_escape_char c =
     (if c = CHR ''&'' then ''&amp;''
      else if c = CHR ''<'' then ''&lt;''
      else if c = CHR ''>'' then ''&gt;''
      else if c = CHR 0x22 then ''&quot;''
      else if c = CHR 0x27 then ''&#x27;''
      else [c])"

definition mark_char :: "char \<Rightarrow> string" where
  "mark_char c =
     (if c = highlight_start then ''<mark>'' else if c = highlight_end then ''</mark>'' else [c])"

definition escape_snippet :: "string \<Rightarrow> string" where
  "escape_snippet raw = concat (map mark_char (concat (map html_escape_char raw)))"

section \<open>The path filter\<close>

text \<open>\<open>LIKE ... ESCAPE\<close> of SQLite: case-insensitive for ASCII letters.\<close>

definition ascii_lower :: "char \<Rightarrow> char" where
  "ascii_lower c = (let n = of_char c :: nat in if 65 \<le> n \<and> n \<le> 90 then char_of (n + 32) else c)"

datatype like_token = Any | One | Lit char | Never

fun like_tokens :: "char \<Rightarrow> string \<Rightarrow> like_token list" where
  "like_tokens ec [] = []"
| "like_tokens ec [c] = (if c = ec then [Never] else if c = CHR ''%'' then [Any] else if c = CHR ''_'' then [One] else [Lit c])"
| "like_tokens ec (c # c' # cs) =
     (if c = ec then Lit c' # like_tokens ec cs
      else (if c = CHR ''%'' then Any else if c = CHR ''_'' then One else Lit c) # like_tokens ec (c' # cs))"

fun like_match :: "like_token list \<Rightarrow> string \<Rightarrow> bool" where
  "like_match [] s = (s = [])"
| "like_match (Any # ts) [] = like_match ts []"
| "like_match (Any # ts) (c # cs) = (like_match ts (c # cs) \<or> like_match (Any # ts) cs)"
| "like_match (Never # ts) s = False"
| "like_match (One # ts) [] = False"
| "like_match (One # ts) (c # cs) = like_match ts cs"
| "like_match (Lit x # ts) [] = False"
| "like_match (Lit x # ts) (c # cs) = (ascii_lower x = ascii_lower c \<and> like_match ts cs)"

text \<open>GLOB: \<open>*\<close>, \<open>?\<close> and the bracketed classes, case-sensitive; it is a parameter of \<open>path_matches\<close>.\<close>

definition like_escape_char :: "char \<Rightarrow> string" where
  "like_escape_char c =
     (if c = CHR 0x5C then [CHR 0x5C, CHR 0x5C]
      else if c = CHR ''%'' then [CHR 0x5C, CHR ''%'']
      else if c = CHR ''_'' then [CHR 0x5C, CHR ''_'']
      else [c])"

definition path_matches :: "(string \<Rightarrow> string \<Rightarrow> bool) \<Rightarrow> string \<Rightarrow> string \<Rightarrow> bool" where
  "path_matches sql_glob path_filter path =
     (if CHR ''*'' \<in> set path_filter \<or> CHR ''?'' \<in> set path_filter then sql_glob path_filter path
      else like_match (like_tokens CHR 0x5C (''%'' @ concat (map like_escape_char path_filter) @ ''%'')) path)"

section \<open>Searching\<close>

datatype matched_field = ContentMatch | PathMatch

record search_hit =
  sh_source_id :: int
  sh_file_path :: string
  sh_line_number :: int
  sh_snippet_html :: string
  sh_matched_field :: matched_field

definition quoted :: "string \<Rightarrow> string" where
  "quoted query = CHR 0x22 # concat (map (\<lambda>c. if c = CHR 0x22 then [CHR 0x22, CHR 0x22] else [c]) query) @ [CHR 0x22]"

definition hit_of :: "fts_row \<Rightarrow> string \<Rightarrow> matched_field \<Rightarrow> search_hit" where
  "hit_of r highlighted f =
     \<lparr>sh_source_id = fts_source_id r, sh_file_path = fts_file_path r, sh_line_number = fts_line_number r,
      sh_snippet_html = escape_snippet highlighted, sh_matched_field = f\<rparr>"

text \<open>
  The loop over the matches: \<open>room\<close> is how many hits are still to come, \<open>seen\<close> the files a path match
  was shown for. A match is the row with its two snippets.
\<close>

fun collect_hits ::
  "nat \<Rightarrow> (int \<times> string) list \<Rightarrow> (fts_row \<times> string \<times> string) list \<Rightarrow> search_hit list" where
  "collect_hits room seen [] = []"
| "collect_hits room seen ((r, in_content, in_path) # ms) =
     (if room = 0 then []
      else if highlight_start \<in> set in_content
      then hit_of r in_content ContentMatch # collect_hits (room - 1) seen ms
      else if (fts_source_id r, fts_file_path r) \<in> set seen then collect_hits room seen ms
      else hit_of r in_path PathMatch # collect_hits (room - 1) ((fts_source_id r, fts_file_path r) # seen) ms)"

text \<open>\<open>SELECT ... MATCH\<close> with its WHERE, ORDER BY and LIMIT.\<close>

definition matches_where :: "search_env \<Rightarrow> string \<Rightarrow> (fts_row \<Rightarrow> bool) \<Rightarrow> db \<Rightarrow> (fts_row \<times> string \<times> string) list" where
  "matches_where SX q P d =
     List.map_filter (\<lambda>r. map_option (Pair r) (sx_match SX q r)) (filter P (fts_rows d))"

definition search ::
  "search_env \<Rightarrow> (string \<Rightarrow> string \<Rightarrow> bool) \<Rightarrow> db \<Rightarrow> string \<Rightarrow> int list option \<Rightarrow> nat \<Rightarrow> string \<Rightarrow> search_hit list" where
  "search SX sql_glob d query source_ids limit path_filter =
     (if source_ids = Some [] then []
      else
        let q = quoted query;
            found = matches_where SX q
              (\<lambda>r. (case source_ids of None \<Rightarrow> True | Some ids \<Rightarrow> fts_source_id r \<in> set ids) \<and>
                   (path_filter = '''' \<or> path_matches sql_glob path_filter (fts_file_path r))) d
        in collect_hits limit []
             (take (max (limit * 5) limit) (sort_key (\<lambda>m. sx_rank SX q (fts_rows d) (fst m)) found)))"

definition last_indexed_line :: "db \<Rightarrow> int \<Rightarrow> string \<Rightarrow> int" where
  "last_indexed_line d source_id path =
     fold (\<lambda>r m. max (fts_line_number r) m) (filter (is_row_of source_id path) (fts_rows d)) 0"

definition search_file_content_after ::
  "search_env \<Rightarrow> db \<Rightarrow> string \<Rightarrow> int \<Rightarrow> string \<Rightarrow> int \<Rightarrow> nat \<Rightarrow> search_hit list" where
  "search_file_content_after SX d query source_id path after_line limit =
     map (\<lambda>(r, in_content, in_path). hit_of r in_content ContentMatch)
       (take limit (sort_key (\<lambda>m. fts_line_number (fst m))
         (matches_where SX (''snippet:'' @ quoted query)
            (\<lambda>r. is_row_of source_id path r \<and> fts_line_number r > after_line) d)))"

section \<open>The endpoint\<close>

text \<open>
  The folders below the chosen ones, the worklist of \<open>_scope_source_ids\<close>: \<open>pop\<close> takes the last. It
  returns on every table, also one with a cycle.
\<close>

definition children_of :: "folder list \<Rightarrow> int \<Rightarrow> int list" where
  "children_of fs i = map f_id (filter (\<lambda>f. f_parent f = Some i) fs)"

function below_folders :: "folder list \<Rightarrow> int list \<Rightarrow> int set \<Rightarrow> int set" where
  "below_folders fs pending done =
     (if pending = [] then done
      else
        let folder_id = last pending; rest = butlast pending
        in if folder_id \<in> done then below_folders fs rest done
           else below_folders fs (rest @ children_of fs folder_id) (insert folder_id done))"
  by auto

definition open_ids :: "folder list \<Rightarrow> int list \<Rightarrow> int set \<Rightarrow> int set" where
  "open_ids fs pending done = (set pending \<union> f_id ` set fs) - done"

termination below_folders
proof (relation "measures [\<lambda>(fs, pending, done). card (open_ids fs pending done), \<lambda>(fs, pending, done). length pending]", goal_cases)
  case 1
  show ?case by simp
next
  case (2 fs pending dn i rest)
  have "open_ids fs rest dn \<subseteq> open_ids fs pending dn"
    using 2 by (auto simp: open_ids_def dest: in_set_butlastD)
  then have "card (open_ids fs rest dn) \<le> card (open_ids fs pending dn)"
    by (rule card_mono [rotated]) (simp add: open_ids_def)
  with 2 show ?case by auto
next
  case (3 fs pending dn i rest)
  have i: "i \<in> open_ids fs pending dn" using 3 by (auto simp: open_ids_def)
  have "open_ids fs (rest @ children_of fs i) (insert i dn) \<subseteq> open_ids fs pending dn - {i}"
    using 3 by (auto simp: open_ids_def children_of_def dest: in_set_butlastD)
  then have "card (open_ids fs (rest @ children_of fs i) (insert i dn)) \<le> card (open_ids fs pending dn - {i})"
    by (rule card_mono [rotated]) (simp add: open_ids_def)
  also have "\<dots> < card (open_ids fs pending dn)"
    using i by (intro card_Diff1_less) (simp_all add: open_ids_def)
  finally show ?case by simp
qed

declare below_folders.simps [simp del]

definition scope_source_ids :: "db \<Rightarrow> int list \<Rightarrow> int list \<Rightarrow> int list \<Rightarrow> int list" where
  "scope_source_ids d customer_ids folder_ids source_ids =
     source_ids @
     (if customer_ids = [] then []
      else map s_id (filter (\<lambda>s. case s_customer_id s of None \<Rightarrow> False | Some c \<Rightarrow> c \<in> set customer_ids) (sources d))) @
     (if folder_ids = [] then []
      else let fs = below_folders (folders d) folder_ids {}
           in map s_id (filter (\<lambda>s. case s_folder_id s of None \<Rightarrow> False | Some i \<Rightarrow> i \<in> fs) (sources d)))"

definition search_endpoint ::
  "search_env \<Rightarrow> (string \<Rightarrow> string \<Rightarrow> bool) \<Rightarrow> db \<Rightarrow> user \<Rightarrow> string \<Rightarrow> int list \<Rightarrow> int list \<Rightarrow> int list \<Rightarrow> string \<Rightarrow>
   search_hit list outcome" where
  "search_endpoint SX sql_glob d u q customer_ids folder_ids source_ids path =
     (let query = strip q in
      if query = '''' then Some (Inr [])
      else
        bindO (visible_source_ids d u View) (\<lambda>visible.
        let ids =
              (if customer_ids = [] \<and> folder_ids = [] \<and> source_ids = [] then visible
               else let scope = scope_source_ids d customer_ids folder_ids source_ids
                    in case visible of None \<Rightarrow> Some scope | Some v \<Rightarrow> Some (filter (\<lambda>i. i \<in> set scope) v))
        in Some (Inr (search SX sql_glob d query ids 50 (strip path)))))"

section \<open>What the browser gets\<close>

text \<open>Text in which the only markup is the tag \<open>mark\<close>.\<close>

inductive inert :: "string \<Rightarrow> bool" where
  inert_end: "inert ''''"
| inert_tag: "t \<in> {''<mark>'', ''</mark>''} \<Longrightarrow> inert s \<Longrightarrow> inert (t @ s)"
| inert_entity: "t \<in> {''&amp;'', ''&lt;'', ''&gt;'', ''&quot;'', ''&#x27;''} \<Longrightarrow> inert s \<Longrightarrow> inert (t @ s)"
| inert_char: "c \<notin> {CHR ''<'', CHR ''>'', CHR ''&'', CHR 0x22, CHR 0x27} \<Longrightarrow> inert s \<Longrightarrow> inert (c # s)"

lemma inert_snippet: "inert s \<Longrightarrow> inert (concat (map mark_char (html_escape_char c)) @ s)"
proof -
  assume s: "inert s"
  consider (special) "c \<in> {CHR ''<'', CHR ''>'', CHR ''&'', CHR 0x22, CHR 0x27}"
    | (marker) "c = highlight_start \<or> c = highlight_end"
    | (plain) "c \<notin> {CHR ''<'', CHR ''>'', CHR ''&'', CHR 0x22, CHR 0x27}" "c \<noteq> highlight_start" "c \<noteq> highlight_end"
    by blast
  then show ?thesis
  proof cases
    case special
    then have "concat (map mark_char (html_escape_char c)) \<in> {''&amp;'', ''&lt;'', ''&gt;'', ''&quot;'', ''&#x27;''}"
      by (auto simp: html_escape_char_def mark_char_def)
    from inert_entity [OF this s] show ?thesis .
  next
    case marker
    then have "concat (map mark_char (html_escape_char c)) \<in> {''<mark>'', ''</mark>''}"
      by (auto simp: html_escape_char_def mark_char_def)
    from inert_tag [OF this s] show ?thesis .
  next
    case plain
    then have "concat (map mark_char (html_escape_char c)) = [c]" by (simp add: html_escape_char_def mark_char_def)
    with inert_char [OF plain(1) s] show ?thesis by simp
  qed
qed

lemma inert_escaped: "inert (escape_snippet raw)"
proof -
  have "inert (concat (map mark_char (concat (map html_escape_char raw))))"
  proof (induction raw)
    case (Cons c cs)
    from inert_snippet [OF this, of c] show ?case by simp
  qed (simp add: inert_end)
  then show ?thesis by (simp add: escape_snippet_def)
qed

section \<open>The path filter takes no wildcards but its own\<close>

lemma like_tokens_Cons:
  "s \<noteq> [] \<Longrightarrow> c \<noteq> CHR 0x5C \<Longrightarrow>
   like_tokens CHR 0x5C (c # s) =
     (if c = CHR ''%'' then Any else if c = CHR ''_'' then One else Lit c) # like_tokens CHR 0x5C s"
  by (cases s) auto

lemma like_tokens_escaped:
  "like_tokens CHR 0x5C (concat (map like_escape_char f) @ ''%'') = map Lit f @ [Any]"
proof (induction f)
  case (Cons c cs)
  show ?case
  proof (cases "c \<in> {CHR 0x5C, CHR ''%'', CHR ''_''}")
    case True
    with Cons show ?thesis by (auto simp: like_escape_char_def)
  next
    case False
    with Cons show ?thesis by (simp add: like_escape_char_def like_tokens_Cons)
  qed
qed simp

lemma like_match_prefix: "like_match (map Lit f @ [Any]) s \<longleftrightarrow> prefix (map ascii_lower f) (map ascii_lower s)"
proof (induction f arbitrary: s)
  case Nil
  have "like_match [Any] s" by (induction s) auto
  then show ?case by simp
next
  case (Cons c cs)
  then show ?case by (cases s) auto
qed

lemma like_match_contains: "like_match (Any # map Lit f @ [Any]) s \<longleftrightarrow> contains (map ascii_lower f) (map ascii_lower s)"
proof (induction s)
  case Nil
  show ?case using like_match_prefix [of f "[]"] by simp
next
  case (Cons c cs)
  then show ?case using like_match_prefix [of f "c # cs"] by simp
qed

lemma path_filter_contains:
  assumes "CHR ''*'' \<notin> set f" "CHR ''?'' \<notin> set f"
  shows "path_matches sql_glob f path \<longleftrightarrow> contains (map ascii_lower f) (map ascii_lower path)"
proof -
  have "like_tokens CHR 0x5C (''%'' @ concat (map like_escape_char f) @ ''%'') = Any # map Lit f @ [Any]"
    using like_tokens_Cons [of "concat (map like_escape_char f) @ ''%''" "CHR ''%''"] by (simp add: like_tokens_escaped)
  with assms show ?thesis by (simp add: path_matches_def like_match_contains)
qed

section \<open>The scope is the subtree\<close>

inductive below :: "folder list \<Rightarrow> int set \<Rightarrow> int \<Rightarrow> bool" for fs start where
  below_start: "i \<in> start \<Longrightarrow> below fs start i"
| below_child: "below fs start i \<Longrightarrow> f \<in> set fs \<Longrightarrow> f_parent f = Some i \<Longrightarrow> below fs start (f_id f)"

lemma below_mono: "below fs A i \<Longrightarrow> (\<And>j. j \<in> A \<Longrightarrow> below fs B j) \<Longrightarrow> below fs B i"
  by (induction rule: below.induct) (auto intro: below_child)

lemma children_of_iff: "j \<in> set (children_of fs i) \<longleftrightarrow> (\<exists>f \<in> set fs. f_parent f = Some i \<and> f_id f = j)"
  by (auto simp: children_of_def)

lemma below_folders_closure:
  assumes "\<forall>i \<in> dn. set (children_of fs i) \<subseteq> dn \<union> set pending"
  shows "below_folders fs pending dn = {i. below fs (dn \<union> set pending) i}"
  using assms
proof (induction fs pending dn rule: below_folders.induct)
  case (1 fs pending dn)
  show ?case
  proof (cases "pending = []")
    case True
    have "i \<in> dn" if "below fs dn i" for i
      using that by induction (use 1(3) True in \<open>auto simp: children_of_def\<close>)
    with True show ?thesis by (subst below_folders.simps) (auto intro: below_start)
  next
    case False
    let ?i = "last pending"
    have p: "set pending = insert ?i (set (butlast pending))" using False by (metis append_butlast_last_id list.set(2) rotate1.simps(2) set_rotate1)
    show ?thesis
    proof (cases "?i \<in> dn")
      case True
      then have "dn \<union> set (butlast pending) = dn \<union> set pending" using p by auto
      with 1(1) [OF False refl refl True] 1(3) True False show ?thesis by (subst below_folders.simps) (simp add: Let_def)
    next
      case new: False
      let ?pend = "butlast pending @ children_of fs ?i"
      have "below_folders fs ?pend (insert ?i dn) = {i. below fs (insert ?i dn \<union> set ?pend) i}"
        by (rule 1(2) [OF False refl refl new]) (use 1(3) p in auto)
      also have "\<dots> = {i. below fs (dn \<union> set pending) i}"
      proof (intro Collect_cong iffI)
        fix i assume "below fs (insert ?i dn \<union> set ?pend) i"
        then show "below fs (dn \<union> set pending) i"
          by (rule below_mono) (use p in \<open>auto simp: children_of_iff intro: below.intros\<close>)
      next
        fix i assume "below fs (dn \<union> set pending) i"
        then show "below fs (insert ?i dn \<union> set ?pend) i"
          by (rule below_mono) (use p in \<open>auto intro: below_start\<close>)
      qed
      finally show ?thesis using False new by (subst below_folders.simps) (simp add: Let_def)
    qed
  qed
qed

section \<open>Which lines a search may show\<close>

definition can_view :: "db \<Rightarrow> user \<Rightarrow> int \<Rightarrow> bool" where
  "can_view d u i \<longleftrightarrow> (\<exists>r. user_role d u = Inr r \<and> (ro_is_super_admin r \<or>
     (\<exists>s \<in> set (sources d). s_id s = i \<and> \<not> s_is_system s \<and> resolve_capability d u s View = Some (Inr True))))"

lemma collect_visible_member:
  "collect_visible d u cap ss = Some (Inr ids) \<Longrightarrow> i \<in> set ids \<Longrightarrow>
   \<exists>s \<in> set ss. s_id s = i \<and> resolve_capability d u s cap = Some (Inr True)"
proof (induction ss arbitrary: ids)
  case (Cons s ss)
  from Cons.prems(1) obtain b rest where b: "resolve_capability d u s cap = Some (Inr b)"
    and rest: "collect_visible d u cap ss = Some (Inr rest)" and ids: "ids = (if b then s_id s # rest else rest)"
    by (auto simp: bindO_def split: option.splits sum.splits)
  from ids Cons.prems(2) consider "b" "i = s_id s" | "i \<in> set rest" by (auto split: if_splits)
  then show ?case
  proof cases
    case 1
    with b show ?thesis by auto
  next
    case 2
    with Cons.IH [OF rest] show ?thesis by auto
  qed
qed simp

lemma visible_member:
  assumes "visible_source_ids d u View = Some (Inr v)" "v = None \<or> (\<exists>ids. v = Some ids \<and> i \<in> set ids)"
  shows "can_view d u i"
proof -
  from assms(1) obtain r where r: "user_role d u = Inr r"
    by (cases "user_role d u") (auto simp: visible_source_ids_def bindO_def)
  show ?thesis
  proof (cases "ro_is_super_admin r")
    case True
    with r show ?thesis by (simp add: can_view_def)
  next
    case False
    with assms(1) r obtain ids where ids: "v = Some ids"
      "collect_visible d u View (filter (\<lambda>s. \<not> s_is_system s) (sources d)) = Some (Inr ids)"
      by (auto simp: visible_source_ids_def bindO_def split: option.splits sum.splits)
    with assms(2) collect_visible_member [OF ids(2)] r show ?thesis by (force simp: can_view_def)
  qed
qed

lemma collect_hits_member:
  "h \<in> set (collect_hits room seen ms) \<Longrightarrow>
   \<exists>r a b. (r, a, b) \<in> set ms \<and> (h = hit_of r a ContentMatch \<or> h = hit_of r b PathMatch)"
  by (induction room seen ms rule: collect_hits.induct) (auto split: if_splits)

abbreviation path_keys :: "search_hit list \<Rightarrow> (int \<times> string) list" where
  "path_keys hits \<equiv> map (\<lambda>h. (sh_source_id h, sh_file_path h)) (filter (\<lambda>h. sh_matched_field h = PathMatch) hits)"

definition bounded_hits :: "nat \<Rightarrow> (int \<times> string) list \<Rightarrow> search_hit list \<Rightarrow> bool" where
  "bounded_hits room seen hits \<longleftrightarrow> length hits \<le> room \<and> distinct (path_keys hits) \<and> set (path_keys hits) \<inter> set seen = {}"

lemma bounded_Nil: "bounded_hits room seen []"
  by (simp add: bounded_hits_def)

lemma bounded_content:
  "0 < room \<Longrightarrow> bounded_hits (room - 1) seen hits \<Longrightarrow> bounded_hits room seen (hit_of r a ContentMatch # hits)"
  by (simp add: bounded_hits_def hit_of_def) linarith

lemma bounded_path:
  "0 < room \<Longrightarrow> (fts_source_id r, fts_file_path r) \<notin> set seen \<Longrightarrow>
   bounded_hits (room - 1) ((fts_source_id r, fts_file_path r) # seen) hits \<Longrightarrow>
   bounded_hits room seen (hit_of r a PathMatch # hits)"
  unfolding bounded_hits_def hit_of_def by simp linarith

lemma collect_hits_bounded: "bounded_hits room seen (collect_hits room seen ms)"
  by (induction room seen ms rule: collect_hits.induct) (simp_all add: bounded_Nil bounded_content bounded_path)

lemma matches_where_member: "(r, a, b) \<in> set (matches_where SX q P d) \<Longrightarrow> r \<in> set (fts_rows d) \<and> P r"
  by (auto simp: matches_where_def List.map_filter_def)

lemma search_member:
  assumes "h \<in> set (search SX g d query ids limit pf)"
  shows "inert (sh_snippet_html h)" "ids = Some v \<Longrightarrow> sh_source_id h \<in> set v"
    "\<exists>r \<in> set (fts_rows d). fts_source_id r = sh_source_id h \<and> fts_file_path r = sh_file_path h \<and>
       fts_line_number r = sh_line_number h \<and> (pf = '''' \<or> path_matches g pf (fts_file_path r))"
proof -
  let ?P = "\<lambda>r. (case ids of None \<Rightarrow> True | Some v \<Rightarrow> fts_source_id r \<in> set v) \<and> (pf = '''' \<or> path_matches g pf (fts_file_path r))"
  from assms have "h \<in> set (collect_hits limit []
     (take (max (limit * 5) limit) (sort_key (\<lambda>m. sx_rank SX (quoted query) (fts_rows d) (fst m)) (matches_where SX (quoted query) ?P d))))"
    by (auto simp: search_def Let_def split: if_splits)
  from collect_hits_member [OF this] obtain r a b where
    "(r, a, b) \<in> set (matches_where SX (quoted query) ?P d)" and h: "h = hit_of r a ContentMatch \<or> h = hit_of r b PathMatch"
    by (auto dest!: in_set_takeD)
  from matches_where_member [OF this(1)] have r: "r \<in> set (fts_rows d)" "?P r" by auto
  from h inert_escaped show "inert (sh_snippet_html h)" by (auto simp: hit_of_def)
  from h r show "ids = Some v \<Longrightarrow> sh_source_id h \<in> set v"
    by (auto simp: hit_of_def split: option.splits)
  from h r show "\<exists>r \<in> set (fts_rows d). fts_source_id r = sh_source_id h \<and> fts_file_path r = sh_file_path h \<and>
       fts_line_number r = sh_line_number h \<and> (pf = '''' \<or> path_matches g pf (fts_file_path r))"
    by (auto simp: hit_of_def)
qed

text \<open>An answered search with a query: the ids it was limited to.\<close>

lemma search_endpoint_Inr:
  assumes "search_endpoint SX g d u q cs fs ss path = Some (Inr hits)" "hits \<noteq> []"
  obtains v ids where "visible_source_ids d u View = Some (Inr v)" "hits = search SX g d (strip q) ids 50 (strip path)"
    "ids = (if cs = [] \<and> fs = [] \<and> ss = [] then v
       else case v of None \<Rightarrow> Some (scope_source_ids d cs fs ss) | Some v \<Rightarrow> Some (filter (\<lambda>i. i \<in> set (scope_source_ids d cs fs ss)) v))"
  using assms by (auto simp: search_endpoint_def bindO_def Let_def split: option.splits sum.splits if_splits)

section \<open>Properties\<close>

text \<open>
  C27: A search shows only what the user may see: every hit is a line of the index, of a source on which
  the user has the capability to view at this moment, within the chosen scope and matching the path
  filter.
\<close>

theorem search_shows_only_viewable_lines:
  assumes "search_endpoint SX sql_glob d u q customer_ids folder_ids source_ids path = Some (Inr hits)" "h \<in> set hits"
  shows "can_view d u (sh_source_id h) \<and>
    (\<exists>r \<in> set (fts_rows d). fts_source_id r = sh_source_id h \<and> fts_file_path r = sh_file_path h \<and>
       fts_line_number r = sh_line_number h \<and> (strip path = '''' \<or> path_matches sql_glob (strip path) (fts_file_path r))) \<and>
    (customer_ids = [] \<and> folder_ids = [] \<and> source_ids = [] \<or>
     sh_source_id h \<in> set (scope_source_ids d customer_ids folder_ids source_ids))"
proof -
  have "hits \<noteq> []" using assms(2) by auto
  from search_endpoint_Inr [OF assms(1) this] obtain v ids where
    v: "visible_source_ids d u View = Some (Inr v)" and hits: "hits = search SX sql_glob d (strip q) ids 50 (strip path)"
    and ids: "ids = (if customer_ids = [] \<and> folder_ids = [] \<and> source_ids = [] then v
       else case v of None \<Rightarrow> Some (scope_source_ids d customer_ids folder_ids source_ids)
         | Some v \<Rightarrow> Some (filter (\<lambda>i. i \<in> set (scope_source_ids d customer_ids folder_ids source_ids)) v))" .
  note m = search_member [OF assms(2) [unfolded hits]]
  have "v = None \<or> (\<exists>i. v = Some i \<and> sh_source_id h \<in> set i)"
  proof (cases v)
    case (Some w)
    show ?thesis
    proof (cases "customer_ids = [] \<and> folder_ids = [] \<and> source_ids = []")
      case True
      with Some m(2) [of w] show ?thesis by (simp add: ids)
    next
      case False
      with Some m(2) [of "filter (\<lambda>i. i \<in> set (scope_source_ids d customer_ids folder_ids source_ids)) w"]
      show ?thesis by (auto simp: ids)
    qed
  qed simp
  from visible_member [OF v this] have "can_view d u (sh_source_id h)" .
  moreover have "customer_ids = [] \<and> folder_ids = [] \<and> source_ids = [] \<or>
     sh_source_id h \<in> set (scope_source_ids d customer_ids folder_ids source_ids)"
  proof (cases "customer_ids = [] \<and> folder_ids = [] \<and> source_ids = []")
    case False
    then show ?thesis using m(2) by (cases v) (auto simp: ids)
  qed simp
  ultimately show ?thesis using m(3) by blast
qed

text \<open>
  No line of a log becomes markup: the only tags in a hit's snippet are the \<open>mark\<close> tags of the
  highlighting; every other angle bracket, ampersand and quote is an entity.
\<close>

theorem snippets_are_inert:
  assumes "search_endpoint SX sql_glob d u q customer_ids folder_ids source_ids path = Some (Inr hits)" "h \<in> set hits"
  shows "inert (sh_snippet_html h)"
proof -
  have "hits \<noteq> []" using assms(2) by auto
  from search_endpoint_Inr [OF assms(1) this] obtain v ids where "hits = search SX sql_glob d (strip q) ids 50 (strip path)" .
  with search_member(1) assms(2) show ?thesis by metis
qed

text \<open>
  A search answers at most 50 hits, and a file whose path matches fills at most one of them.
\<close>

theorem search_answers_are_bounded:
  assumes "search_endpoint SX sql_glob d u q customer_ids folder_ids source_ids path = Some (Inr hits)"
  shows "length hits \<le> 50 \<and> distinct (path_keys hits)"
proof (cases "hits = []")
  case False
  from search_endpoint_Inr [OF assms this] obtain v ids where "hits = search SX sql_glob d (strip q) ids 50 (strip path)" .
  then show ?thesis using collect_hits_bounded [of 50] by (simp add: search_def Let_def bounded_hits_def)
qed simp

text \<open>
  A path filter without \<open>*\<close> and \<open>?\<close> is a plain substring test that ignores ASCII case: no character
  of it, also none of LIKE's wildcards or the escape character itself, means anything but itself.
\<close>

theorem path_filter_is_literal:
  assumes "CHR ''*'' \<notin> set path_filter" "CHR ''?'' \<notin> set path_filter"
  shows "path_matches sql_glob path_filter path \<longleftrightarrow> contains (map ascii_lower path_filter) (map ascii_lower path)"
  by (rule path_filter_contains [OF assms])

text \<open>
  The scope of a search is what was chosen and everything below it: the chosen sources, the sources
  of the chosen customers and those of every folder reachable from a chosen one. The walk returns on
  every folder table, also one whose parent links form a cycle.
\<close>

theorem scope_is_the_subtree:
  "set (scope_source_ids d customer_ids folder_ids source_ids) =
     set source_ids \<union>
     {s_id s | s. s \<in> set (sources d) \<and> (\<exists>c \<in> set customer_ids. s_customer_id s = Some c)} \<union>
     {s_id s | s. s \<in> set (sources d) \<and> (\<exists>i. s_folder_id s = Some i \<and> below (folders d) (set folder_ids) i)}"
proof -
  have b: "below_folders (folders d) folder_ids {} = {i. below (folders d) (set folder_ids) i}"
    using below_folders_closure [of "{}" "folders d" folder_ids] by simp
  have "\<not> below (folders d) {} i" for i
  proof
    assume "below (folders d) {} i"
    then show False by induction auto
  qed
  with b show ?thesis by (auto simp: scope_source_ids_def Let_def split: option.splits)
qed

section \<open>Witnesses\<close>

definition search_db :: db where
  "search_db = (index_db ''a'')\<lparr>fts_rows := text_rows 10 ''a'' two_lines\<rparr>"

lemma sample_answer:
  "search_endpoint (sample_search ''a'' two_lines) (\<lambda>_ _. True) search_db operator ''up'' [] [1] [] ''A'' =
     Some (Inr [\<lparr>sh_source_id = 10, sh_file_path = ''a'', sh_line_number = 1, sh_snippet_html = ''<mark>up'',
                 sh_matched_field = ContentMatch\<rparr>,
                \<lparr>sh_source_id = 10, sh_file_path = ''a'', sh_line_number = 3, sh_snippet_html = ''<mark>down'',
                 sh_matched_field = ContentMatch\<rparr>])"
  by code_simp

theorem search_shows_only_viewable_lines_witness:
  "can_view search_db operator 10 \<and> 10 \<in> set (scope_source_ids search_db [] [1] [])"
proof -
  let ?h = "\<lparr>sh_source_id = 10, sh_file_path = ''a'', sh_line_number = 1, sh_snippet_html = ''<mark>up'', sh_matched_field = ContentMatch\<rparr>"
  from search_shows_only_viewable_lines [OF sample_answer, of ?h] show ?thesis by simp
qed

theorem snippets_are_inert_witness: "inert ''<mark>up''"
proof -
  let ?h = "\<lparr>sh_source_id = 10, sh_file_path = ''a'', sh_line_number = 1, sh_snippet_html = ''<mark>up'', sh_matched_field = ContentMatch\<rparr>"
  from snippets_are_inert [OF sample_answer, of ?h] show ?thesis by simp
qed

theorem search_answers_are_bounded_witness:
  "\<exists>hits. search_endpoint (sample_search ''a'' two_lines) (\<lambda>_ _. True) search_db operator ''up'' [] [1] [] ''A'' = Some (Inr hits) \<and>
     length hits \<le> 50 \<and> distinct (path_keys hits)"
  using search_answers_are_bounded [OF sample_answer] sample_answer by blast

theorem path_filter_is_literal_witness:
  "path_matches (\<lambda>_ _. True) ''50%_'' ''x/50%_Y'' \<and> \<not> path_matches (\<lambda>_ _. True) ''50%_'' ''x/505Y''"
  using path_filter_is_literal [of "''50%_''" "\<lambda>_ _. True" "''x/50%_Y''"]
    path_filter_is_literal [of "''50%_''" "\<lambda>_ _. True" "''x/505Y''"]
  by (simp add: ascii_lower_def)

end
