(* ===== verification/Alerts.thy ===== *)
theory Alerts
  imports Search
begin

text \<open>
  \<open>app/webhook_safety.py\<close> and \<open>app/alerts.py\<close>: what a saved query reports after each indexing sweep, and
  the webhook it reports to. \<open>urllib.parse\<close> on a URL, the classes of an IP address in \<open>ipaddress\<close> and
  the HTTP client are parameters; the answers of the name server are an argument of every resolution,
  so two resolutions of one name may differ.
\<close>

section \<open>Webhook targets\<close>

text \<open>A parsed URL; the port is \<open>None\<close> when reading it raises.\<close>

record parsed_url =
  pu_scheme :: string
  pu_netloc :: string
  pu_hostname :: "string option"
  pu_port :: "int option option"
  pu_rest :: string

record web_env =
  we_urlparse :: "string \<Rightarrow> parsed_url"
  we_urlunparse :: "parsed_url \<Rightarrow> string"
  we_ipv4_mapped :: "string \<Rightarrow> string option"
  we_is_global :: "string \<Rightarrow> bool"
  we_is_multicast :: "string \<Rightarrow> bool"

type_synonym name_server = "string \<Rightarrow> string list option"

datatype webhook_error = UnsafeWebhookURLError | PortValueError | HTTPError

definition is_disallowed :: "web_env \<Rightarrow> string \<Rightarrow> bool" where
  "is_disallowed WE ip =
     (let ip = (case we_ipv4_mapped WE ip of None \<Rightarrow> ip | Some v4 \<Rightarrow> v4)
      in \<not> we_is_global WE ip \<or> we_is_multicast WE ip)"

definition resolve_validated_ips :: "web_env \<Rightarrow> name_server \<Rightarrow> string \<Rightarrow> webhook_error + string list" where
  "resolve_validated_ips WE dns hostname =
     bindE (someE UnsafeWebhookURLError (dns hostname)) (\<lambda>ips.
     bindE (requireE (list_all (\<lambda>ip. \<not> is_disallowed WE ip) ips) UnsafeWebhookURLError) (\<lambda>_. Inr ips))"

definition url_hostname :: "web_env \<Rightarrow> string \<Rightarrow> webhook_error + string" where
  "url_hostname WE url =
     (case pu_hostname (we_urlparse WE url) of
        None \<Rightarrow> Inl UnsafeWebhookURLError
      | Some h \<Rightarrow> bindE (requireE (h \<noteq> '''') UnsafeWebhookURLError) (\<lambda>_. Inr h))"

definition assert_webhook_url_is_safe :: "web_env \<Rightarrow> name_server \<Rightarrow> string \<Rightarrow> webhook_error + unit" where
  "assert_webhook_url_is_safe WE dns url =
     bindE (url_hostname WE url) (\<lambda>hostname. bindE (resolve_validated_ips WE dns hostname) (\<lambda>_. Inr ()))"

record pinned_target =
  pt_url :: string
  pt_host_header :: string
  pt_sni_hostname :: string

definition before_last :: "char \<Rightarrow> string \<Rightarrow> string" where
  "before_last c s = rev (drop 1 (dropWhile (\<lambda>x. x \<noteq> c) (rev s)))"

text \<open>An answer without addresses makes \<open>validated_ips[0]\<close> raise; \<open>getaddrinfo\<close> gives at least one.\<close>

definition pinned_netloc :: "string \<Rightarrow> string \<Rightarrow> int \<Rightarrow> string" where
  "pinned_netloc netloc ip port =
     (if CHR ''@'' \<in> set netloc then before_last CHR ''@'' netloc @ ''@'' else '''') @
     (if CHR '':'' \<in> set ip then ''['' @ ip @ '']:'' @ show_int port else ip @ '':'' @ show_int port)"

definition resolve_pinned_webhook_target ::
  "web_env \<Rightarrow> name_server \<Rightarrow> string \<Rightarrow> webhook_error + pinned_target" where
  "resolve_pinned_webhook_target WE dns url =
     (let parsed = we_urlparse WE url in
      bindE (url_hostname WE url) (\<lambda>hostname.
      bindE (resolve_validated_ips WE dns hostname) (\<lambda>ips.
      bindE (someE PortValueError (pu_port parsed)) (\<lambda>given.
      let port = (case given of None \<Rightarrow> 0 | Some p \<Rightarrow> p);
          port = (if port \<noteq> 0 then port else if pu_scheme parsed = ''https'' then 443 else 80);
          netloc = pinned_netloc (pu_netloc parsed) (hd ips) port
      in Inr \<lparr>pt_url = we_urlunparse WE (parsed\<lparr>pu_netloc := netloc\<rparr>),
              pt_host_header = (case given of None \<Rightarrow> hostname | Some p \<Rightarrow> hostname @ '':'' @ show_int p),
              pt_sni_hostname = hostname\<rparr>))))"

section \<open>Sending\<close>

definition max_hits_per_webhook :: nat where
  "max_hits_per_webhook = 10"

definition max_hits_per_file :: nat where
  "max_hits_per_file = 500"

definition webhook_payload :: "alert \<Rightarrow> search_hit list \<Rightarrow> message" where
  "webhook_payload a hits =
     [(''alert_id'', JInt (al_id a)), (''alert_name'', JStr (al_name a)), (''query'', JStr (al_query a)),
      (''matched_count'', JInt (int (length hits))),
      (''hits'', JList (map (\<lambda>h. JObj
         [(''source_id'', JInt (sh_source_id h)), (''file_path'', JStr (sh_file_path h)),
          (''line_number'', JInt (sh_line_number h)), (''snippet_html'', JStr (sh_snippet_html h))])
         (take max_hits_per_webhook hits)))]"

text \<open>
  What was posted, if anything, and the answer: \<open>post\<close> tells whether the receiver took it. \<open>Inl\<close> is an
  exception \<open>send_webhook\<close> does not catch.
\<close>

definition send_webhook ::
  "web_env \<Rightarrow> name_server \<Rightarrow> (pinned_target \<Rightarrow> message \<Rightarrow> bool) \<Rightarrow> alert \<Rightarrow> search_hit list \<Rightarrow>
   (pinned_target \<times> message) option \<times> (webhook_error + bool)" where
  "send_webhook WE dns post a hits =
     (case resolve_pinned_webhook_target WE dns (al_webhook_url a) of
        Inl UnsafeWebhookURLError \<Rightarrow> (None, Inr False)
      | Inl e \<Rightarrow> (None, Inl e)
      | Inr target \<Rightarrow>
          (let payload = webhook_payload a hits in (Some (target, payload), Inr (post target payload))))"

section \<open>What an alert finds\<close>

definition owner_may_alert :: "db \<Rightarrow> user option \<Rightarrow> api_error + bool" where
  "owner_may_alert d owner =
     (case owner of
        None \<Rightarrow> Inr False
      | Some u \<Rightarrow>
          if \<not> u_active u then Inr False
          else bindE (user_role d u) (\<lambda>r.
            Inr (ro_is_super_admin r \<or> ManageAlerts \<in> set (ro_global_capabilities r))))"

definition resolve_alert_source_ids :: "db \<Rightarrow> user \<Rightarrow> alert \<Rightarrow> int list outcome" where
  "resolve_alert_source_ids d owner a =
     bindO (visible_source_ids d owner View) (\<lambda>visible.
     let candidate_ids =
           (case al_source_id a of
              Some i \<Rightarrow> (case visible of Some v \<Rightarrow> if i \<in> set v then [i] else [] | None \<Rightarrow> [i])
            | None \<Rightarrow> (case visible of Some v \<Rightarrow> v | None \<Rightarrow> map s_id (filter s_enabled (sources d))))
     in Some (Inr (if candidate_ids = [] then []
                   else map s_id (filter (\<lambda>s. s_id s \<in> set candidate_ids \<and> s_search_indexing_enabled s) (sources d)))))"

definition changed_files_since :: "db \<Rightarrow> int list \<Rightarrow> int option \<Rightarrow> (int \<times> string) list" where
  "changed_files_since d source_ids since =
     remdups (map (\<lambda>s. (si_source_id s, si_file_path s))
       (filter (\<lambda>s. si_source_id s \<in> set source_ids \<and> (case since of None \<Rightarrow> True | Some t \<Rightarrow> si_indexed_at s > t))
          (index_states d)))"

definition reported_through :: "db \<Rightarrow> alert \<Rightarrow> int \<times> string \<Rightarrow> int" where
  "reported_through d a key =
     (case find (\<lambda>f. af_alert_id f = al_id a \<and> (af_source_id f, af_file_path f) = key) (alert_file_states d) of
        None \<Rightarrow> 0 | Some f \<Rightarrow> af_reported_through_line f)"

definition after_line :: "db \<Rightarrow> alert \<Rightarrow> int \<times> string \<Rightarrow> int" where
  "after_line d a key =
     (let n = reported_through d a key in if last_indexed_line d (fst key) (snd key) < n then 0 else n)"

definition file_hits :: "search_env \<Rightarrow> db \<Rightarrow> alert \<Rightarrow> int \<times> string \<Rightarrow> search_hit list" where
  "file_hits SX d a key =
     search_file_content_after SX d (al_query a) (fst key) (snd key) (after_line d a key) max_hits_per_file"

text \<open>The hits of the changed files in order, and the line each is now reported through.\<close>

definition new_hits_for_source_ids ::
  "search_env \<Rightarrow> db \<Rightarrow> alert \<Rightarrow> int list \<Rightarrow> search_hit list \<times> ((int \<times> string) \<times> int) list" where
  "new_hits_for_source_ids SX d a source_ids =
     (let changed = sort (changed_files_since d source_ids (al_last_checked_at a))
      in (concat (map (file_hits SX d a) changed), map (\<lambda>key. (key, last_indexed_line d (fst key) (snd key))) changed))"

definition is_mark :: "int \<Rightarrow> int \<times> string \<Rightarrow> alert_file_state \<Rightarrow> bool" where
  "is_mark alert_id key f \<longleftrightarrow> af_alert_id f = alert_id \<and> (af_source_id f, af_file_path f) = key"

definition record_watermark :: "int \<Rightarrow> (int \<times> string) \<times> int \<Rightarrow> db \<Rightarrow> db" where
  "record_watermark alert_id m d =
     (let (key, line) = m in
      if list_ex (is_mark alert_id key) (alert_file_states d)
      then d\<lparr>alert_file_states := map (\<lambda>f. if is_mark alert_id key f then f\<lparr>af_reported_through_line := line\<rparr> else f)
               (alert_file_states d)\<rparr>
      else d\<lparr>alert_file_states := alert_file_states d @
               [\<lparr>af_alert_id = alert_id, af_source_id = fst key, af_file_path = snd key, af_reported_through_line = line\<rparr>]\<rparr>)"

definition record_watermarks :: "int \<Rightarrow> ((int \<times> string) \<times> int) list \<Rightarrow> db \<Rightarrow> db" where
  "record_watermarks alert_id marks d = fold (record_watermark alert_id) marks d"

text \<open>The sources an alert may look at now: none when its owner may not alert.\<close>

definition alert_scope :: "db \<Rightarrow> alert \<Rightarrow> int list outcome" where
  "alert_scope d a =
     (let owner = get_user d (al_user_id a) in
      bindO (Some (owner_may_alert d owner)) (\<lambda>may.
      case owner of Some u \<Rightarrow> if may then resolve_alert_source_ids d u a else Some (Inr []) | None \<Rightarrow> Some (Inr [])))"

definition check_alert :: "search_env \<Rightarrow> db \<Rightarrow> alert \<Rightarrow> search_hit list outcome" where
  "check_alert SX d a = bindO (alert_scope d a) (\<lambda>ids. Some (Inr (fst (new_hits_for_source_ids SX d a ids))))"

section \<open>Evaluating the alerts\<close>

record alert_world =
  aw_dns :: name_server
  aw_post :: "pinned_target \<Rightarrow> message \<Rightarrow> bool"
  aw_now :: int

text \<open>
  One alert: the hits it reported, what was posted, and the database. An exception rolls back; \<open>None\<close>
  is a permission check that does not return.
\<close>

definition evaluate_alert ::
  "search_env \<Rightarrow> web_env \<Rightarrow> alert_world \<Rightarrow> alert \<Rightarrow> db \<Rightarrow>
   (search_hit list \<times> (pinned_target \<times> message) option \<times> db) option" where
  "evaluate_alert SX WE AW a d =
     (case alert_scope d a of
        None \<Rightarrow> None
      | Some (Inl e) \<Rightarrow> Some ([], None, d)
      | Some (Inr source_ids) \<Rightarrow>
          (let (hits, watermarks) = new_hits_for_source_ids SX d a source_ids;
               (posted, answer) = (if hits = [] then (None, Inr True) else send_webhook WE (aw_dns AW) (aw_post AW) a hits)
           in case answer of
                Inl e \<Rightarrow> Some (hits, posted, d)
              | Inr _ \<Rightarrow>
                  if source_ids = [] then Some (hits, posted, d)
                  else
                    (let d1 = record_watermarks (al_id a) watermarks d
                     in Some (hits, posted,
                          d1\<lparr>alerts := tbl_put al_id (a\<lparr>al_last_checked_at := Some (aw_now AW)\<rparr>) (alerts d1)\<rparr>))))"

fun evaluate_all ::
  "search_env \<Rightarrow> web_env \<Rightarrow> (int \<Rightarrow> alert_world) \<Rightarrow> alert list \<Rightarrow> db \<Rightarrow>
   ((int \<times> search_hit list \<times> (pinned_target \<times> message) option) list \<times> db) option" where
  "evaluate_all SX WE AWs [] d = Some ([], d)"
| "evaluate_all SX WE AWs (a # as) d =
     Option.bind (evaluate_alert SX WE (AWs (al_id a)) a d) (\<lambda>(hits, posted, d1).
     map_option (\<lambda>(log, d2). ((al_id a, hits, posted) # log, d2)) (evaluate_all SX WE AWs as d1))"

definition evaluate_alerts ::
  "search_env \<Rightarrow> web_env \<Rightarrow> (int \<Rightarrow> alert_world) \<Rightarrow> db \<Rightarrow>
   ((int \<times> search_hit list \<times> (pinned_target \<times> message) option) list \<times> db) option" where
  "evaluate_alerts SX WE AWs d = evaluate_all SX WE AWs (filter al_enabled (alerts d)) d"

text \<open>\<open>run_indexing_sweep\<close>: the passes, then the alerts.\<close>

definition run_indexing_sweep ::
  "search_env \<Rightarrow> web_env \<Rightarrow> (int \<Rightarrow> world) \<Rightarrow> (int \<Rightarrow> alert_world) \<Rightarrow> db \<Rightarrow>
   ((int \<times> search_hit list \<times> (pinned_target \<times> message) option) list \<times> db) option" where
  "run_indexing_sweep SX WE Ws AWs d = Option.bind (run_indexing SX Ws d) (evaluate_alerts SX WE AWs)"

section \<open>What is recorded and what is found\<close>

lemma reported_through_mark:
  "reported_through d a key = (case find (is_mark (al_id a) key) (alert_file_states d) of None \<Rightarrow> 0 | Some f \<Rightarrow> af_reported_through_line f)"
  by (simp add: reported_through_def is_mark_def [abs_def])

lemma is_mark_update [simp]: "is_mark i key (f\<lparr>af_reported_through_line := n\<rparr>) = is_mark i key f"
  by (simp add: is_mark_def)

lemma is_mark_unique: "is_mark i key f \<Longrightarrow> is_mark i key' f \<Longrightarrow> key = key'"
  by (simp add: is_mark_def)

lemma find_map_marked:
  "find (is_mark i key) (map (\<lambda>f. if is_mark i key' f then f\<lparr>af_reported_through_line := n\<rparr> else f) fs) =
     (if key = key' then map_option (\<lambda>f. f\<lparr>af_reported_through_line := n\<rparr>) (find (is_mark i key) fs) else find (is_mark i key) fs)"
  by (induction fs) (auto dest: is_mark_unique)

lemma reported_record:
  "reported_through (record_watermark (al_id a) (key', n) d) a key = (if key = key' then n else reported_through d a key)"
proof (cases "list_ex (is_mark (al_id a) key') (alert_file_states d)")
  case True
  then obtain f where "find (is_mark (al_id a) key') (alert_file_states d) = Some f"
    by (cases "find (is_mark (al_id a) key') (alert_file_states d)") (auto simp: find_None_iff list_ex_iff)
  with True show ?thesis
    by (auto simp: reported_through_mark record_watermark_def find_map_marked split: option.split)
next
  case False
  then have none: "find (is_mark (al_id a) key') (alert_file_states d) = None"
    by (auto simp: find_None_iff list_ex_iff)
  let ?f = "\<lparr>af_alert_id = al_id a, af_source_id = fst key', af_file_path = snd key', af_reported_through_line = n\<rparr>"
  have "is_mark (al_id a) key ?f \<longleftrightarrow> key = key'" by (auto simp: is_mark_def)
  with False none show ?thesis
    by (auto simp: reported_through_mark record_watermark_def find_append split: option.split)
qed

lemma reported_records:
  "distinct (map fst marks) \<Longrightarrow> (key, n) \<in> set marks \<Longrightarrow> reported_through (record_watermarks (al_id a) marks d) a key = n"
proof (induction marks rule: rev_induct)
  case (snoc m marks)
  then show ?case by (cases m) (auto simp: record_watermarks_def reported_record image_iff)
qed simp

lemma reported_records_other_file:
  "key \<notin> fst ` set marks \<Longrightarrow> reported_through (record_watermarks (al_id a) marks d) a key = reported_through d a key"
proof (induction marks rule: rev_induct)
  case (snoc m marks)
  then show ?case by (cases m) (auto simp: record_watermarks_def reported_record)
qed (simp add: record_watermarks_def)

text \<open>What one alert records leaves what another one reported.\<close>

lemma reported_record_other_alert:
  assumes "i \<noteq> al_id a"
  shows "reported_through (record_watermark i m d) a key = reported_through d a key"
proof -
  obtain key' n where m: "m = (key', n)" by fastforce
  have "is_mark (al_id a) key f \<Longrightarrow> \<not> is_mark i key' f" for f using assms by (simp add: is_mark_def)
  then have "find (is_mark (al_id a) key) (map (\<lambda>f. if is_mark i key' f then f\<lparr>af_reported_through_line := n\<rparr> else f) fs) =
      find (is_mark (al_id a) key) fs" for fs
    by (induction fs) auto
  with assms show ?thesis
    by (auto simp: m reported_through_mark record_watermark_def find_append is_mark_def split: option.split)
qed

lemma reported_records_other_alert:
  "i \<noteq> al_id a \<Longrightarrow> reported_through (record_watermarks i marks d) a key = reported_through d a key"
  by (induction marks rule: rev_induct) (simp_all add: record_watermarks_def reported_record_other_alert)

lemma record_watermarks_fields [simp]:
  "alerts (record_watermarks i marks d) = alerts d" "fts_rows (record_watermarks i marks d) = fts_rows d"
proof -
  have "alerts (record_watermarks i marks d) = alerts d \<and> fts_rows (record_watermarks i marks d) = fts_rows d"
    unfolding record_watermarks_def
    by (induction marks arbitrary: d) (auto simp: record_watermark_def split: prod.split)
  then show "alerts (record_watermarks i marks d) = alerts d" "fts_rows (record_watermarks i marks d) = fts_rows d" by blast+
qed

lemma fold_max_ge: "(m :: int) \<le> fold (\<lambda>r m. max (fts_line_number r) m) rows m"
  by (rule tbl_max_fold)

lemma last_indexed_line_ge:
  "r \<in> set (fts_rows d) \<Longrightarrow> is_row_of i p r \<Longrightarrow> fts_line_number r \<le> last_indexed_line d i p"
  unfolding last_indexed_line_def by (rule tbl_max_fold_mem) simp

text \<open>A hit of a file is a line of it past the line reported before.\<close>

lemma file_hits_member:
  assumes "h \<in> set (file_hits SX d a key)"
  obtains r where "r \<in> set (fts_rows d)" "is_row_of (fst key) (snd key) r" "after_line d a key < fts_line_number r"
    "(sh_source_id h, sh_file_path h) = key" "sh_line_number h = fts_line_number r"
proof -
  let ?q = "''snippet:'' @ quoted (al_query a)"
  let ?P = "\<lambda>r. is_row_of (fst key) (snd key) r \<and> fts_line_number r > after_line d a key"
  from assms obtain r x y where "(r, x, y) \<in> set (matches_where SX ?q ?P d)" "h = hit_of r x ContentMatch"
    by (auto simp: file_hits_def search_file_content_after_def dest!: in_set_takeD)
  with matches_where_member [OF this(1)] show ?thesis
    by (intro that [of r]) (auto simp: hit_of_def is_row_of_def)
qed

lemma file_hits_after: "h \<in> set (file_hits SX d a key) \<Longrightarrow> after_line d a key < sh_line_number h"
  by (metis file_hits_member)

lemma new_hits_member:
  assumes "new_hits_for_source_ids SX d a ids = (hits, marks)" "h \<in> set hits"
  shows "h \<in> set (file_hits SX d a (sh_source_id h, sh_file_path h))"
    "(sh_source_id h, sh_file_path h) \<in> set (changed_files_since d ids (al_last_checked_at a))"
    "sh_source_id h \<in> set ids"
proof -
  from assms obtain key where key: "key \<in> set (changed_files_since d ids (al_last_checked_at a))" "h \<in> set (file_hits SX d a key)"
    by (auto simp: new_hits_for_source_ids_def Let_def)
  from file_hits_member [OF key(2)] have "(sh_source_id h, sh_file_path h) = key" by metis
  with key show "h \<in> set (file_hits SX d a (sh_source_id h, sh_file_path h))"
    "(sh_source_id h, sh_file_path h) \<in> set (changed_files_since d ids (al_last_checked_at a))" by auto
  then show "sh_source_id h \<in> set ids" by (auto simp: changed_files_since_def)
qed

lemma distinct_changed: "distinct (changed_files_since d ids since)"
  by (simp add: changed_files_since_def)

lemma new_marks:
  assumes "new_hits_for_source_ids SX d a ids = (hits, marks)"
  shows "distinct (map fst marks)"
    "key \<in> set (changed_files_since d ids (al_last_checked_at a)) \<Longrightarrow> (key, last_indexed_line d (fst key) (snd key)) \<in> set marks"
  using assms distinct_changed by (auto simp: new_hits_for_source_ids_def Let_def comp_def)

text \<open>An evaluation that reported hits.\<close>

lemma evaluate_alert_hits:
  assumes "evaluate_alert SX WE AW a d = Some (hits, posted, d')"
  obtains (nothing) "hits = []" "posted = None"
  | (found) ids marks where "alert_scope d a = Some (Inr ids)" "new_hits_for_source_ids SX d a ids = (hits, marks)"
      "posted = fst (send_webhook WE (aw_dns AW) (aw_post AW) a hits)"
      "posted \<noteq> None \<Longrightarrow> alert_file_states d' = alert_file_states (record_watermarks (al_id a) marks d)"
proof (cases "hits = []")
  case True
  with assms have "posted = None"
    by (auto simp: evaluate_alert_def Let_def split: option.splits sum.splits prod.splits if_splits)
  with True show ?thesis by (rule nothing)
next
  case False
  have "\<exists>ids. alert_scope d a = Some (Inr ids)"
  proof (cases "alert_scope d a")
    case (Some x)
    with assms False show ?thesis by (cases x) (auto simp: evaluate_alert_def)
  qed (use assms in \<open>simp add: evaluate_alert_def\<close>)
  then obtain ids where ids: "alert_scope d a = Some (Inr ids)" by blast
  obtain hits' marks where n: "new_hits_for_source_ids SX d a ids = (hits', marks)" by fastforce
  obtain posted' answer where s: "send_webhook WE (aw_dns AW) (aw_post AW) a hits' = (posted', answer)" by fastforce
  from assms ids n s False have h: "hits' = hits" "posted' = posted"
    by (auto simp: evaluate_alert_def Let_def split: sum.splits if_splits)
  have "ids \<noteq> []" using n False h(1) by (auto simp: new_hits_for_source_ids_def changed_files_since_def)
  moreover have "posted = None" if "answer = Inl e" for e
    using s that h(2) by (auto simp: send_webhook_def Let_def split: sum.splits webhook_error.splits)
  ultimately have "posted \<noteq> None \<Longrightarrow> alert_file_states d' = alert_file_states (record_watermarks (al_id a) marks d)"
    using assms ids n s False h by (cases answer) (auto simp: evaluate_alert_def Let_def split: if_splits)
  with ids n s h show ?thesis by (intro found) auto
qed

lemma scope_viewable:
  assumes "alert_scope d a = Some (Inr ids)" "i \<in> set ids"
  shows "\<exists>u r. get_user d (al_user_id a) = Some u \<and> u_active u \<and> user_role d u = Inr r \<and>
     (ro_is_super_admin r \<or> ManageAlerts \<in> set (ro_global_capabilities r)) \<and> can_view d u i \<and>
     (\<exists>s \<in> set (sources d). s_id s = i \<and> s_search_indexing_enabled s) \<and> (al_source_id a = None \<or> al_source_id a = Some i)"
proof -
  from assms obtain u where u: "get_user d (al_user_id a) = Some u"
    by (auto simp: alert_scope_def bindO_def Let_def split: option.splits sum.splits)
  with assms have may: "owner_may_alert d (Some u) = Inr True"
    by (auto simp: alert_scope_def bindO_def Let_def split: sum.splits if_splits)
  then obtain r where r: "u_active u" "user_role d u = Inr r" "ro_is_super_admin r \<or> ManageAlerts \<in> set (ro_global_capabilities r)"
    by (auto simp: owner_may_alert_def bindE_Inr_iff split: if_splits)
  from assms(1) u may have "resolve_alert_source_ids d u a = Some (Inr ids)" by (simp add: alert_scope_def)
  then obtain v where v: "visible_source_ids d u View = Some (Inr v)"
    and cand: "ids = (let candidate_ids =
           (case al_source_id a of
              Some i \<Rightarrow> (case v of Some v \<Rightarrow> if i \<in> set v then [i] else [] | None \<Rightarrow> [i])
            | None \<Rightarrow> (case v of Some v \<Rightarrow> v | None \<Rightarrow> map s_id (filter s_enabled (sources d))))
     in if candidate_ids = [] then []
        else map s_id (filter (\<lambda>s. s_id s \<in> set candidate_ids \<and> s_search_indexing_enabled s) (sources d)))"
    unfolding resolve_alert_source_ids_def bindO_Inr_iff by (auto simp: Let_def)
  have "v = None \<or> (\<exists>w. v = Some w \<and> i \<in> set w)"
    using assms(2) unfolding cand by (auto simp: Let_def split: option.splits if_splits)
  from visible_member [OF v this] have "can_view d u i" .
  moreover have "\<exists>s \<in> set (sources d). s_id s = i \<and> s_search_indexing_enabled s"
    using assms(2) unfolding cand by (auto simp: Let_def split: if_splits)
  moreover have "al_source_id a = None \<or> al_source_id a = Some i"
    using assms(2) unfolding cand by (auto simp: Let_def split: option.splits if_splits)
  ultimately show ?thesis using u r by blast
qed

section \<open>Properties\<close>

text \<open>
  C29: An alert exports only what its owner may see at that moment: a hit it reports is a line of an
  opted-in source that the owner, an active account that still holds the right to alert, may view, and
  of the source the alert is limited to.
\<close>

theorem alerts_report_only_what_the_owner_may_view:
  assumes "evaluate_alert SX WE AW a d = Some (hits, posted, d')" "h \<in> set hits"
  shows "\<exists>u r. get_user d (al_user_id a) = Some u \<and> u_active u \<and> user_role d u = Inr r \<and>
     (ro_is_super_admin r \<or> ManageAlerts \<in> set (ro_global_capabilities r)) \<and> can_view d u (sh_source_id h) \<and>
     (\<exists>s \<in> set (sources d). s_id s = sh_source_id h \<and> s_search_indexing_enabled s) \<and>
     (al_source_id a = None \<or> al_source_id a = Some (sh_source_id h))"
  using assms(1)
proof (cases rule: evaluate_alert_hits)
  case nothing
  with assms(2) show ?thesis by simp
next
  case (found ids marks)
  from scope_viewable [OF found(1) new_hits_member(3) [OF found(2) assms(2)]] show ?thesis .
qed

text \<open>
  No new line is missed: a matching line of a file that was indexed since the last evaluation, past
  the line reported before, is among the hits, unless more than 500 new lines of the file match.
\<close>

theorem alert_reports_every_new_line:
  assumes "evaluate_alert SX WE AW a d = Some (hits, posted, d')" "alert_scope d a = Some (Inr ids)"
    and "st \<in> set (index_states d)" "si_source_id st \<in> set ids" "\<forall>t. al_last_checked_at a = Some t \<longrightarrow> t < si_indexed_at st"
    and "r \<in> set (fts_rows d)" "is_row_of (si_source_id st) (si_file_path st) r"
    and "sx_match SX (''snippet:'' @ quoted (al_query a)) r \<noteq> None"
    and "after_line d a (si_source_id st, si_file_path st) < fts_line_number r"
    and "length (matches_where SX (''snippet:'' @ quoted (al_query a))
           (\<lambda>r. is_row_of (si_source_id st) (si_file_path st) r \<and>
                after_line d a (si_source_id st, si_file_path st) < fts_line_number r) d) \<le> max_hits_per_file"
  shows "\<exists>h \<in> set hits. sh_source_id h = si_source_id st \<and> sh_file_path h = si_file_path st \<and>
     sh_line_number h = fts_line_number r"
proof -
  let ?key = "(si_source_id st, si_file_path st)"
  let ?ms = "matches_where SX (''snippet:'' @ quoted (al_query a))
    (\<lambda>r. is_row_of (si_source_id st) (si_file_path st) r \<and> after_line d a ?key < fts_line_number r) d"
  obtain hits' marks where n: "new_hits_for_source_ids SX d a ids = (hits', marks)" by fastforce
  have "hits' = hits"
    using assms(1,2) n by (auto simp: evaluate_alert_def Let_def split: prod.splits sum.splits if_splits)
  obtain x y where "sx_match SX (''snippet:'' @ quoted (al_query a)) r = Some (x, y)" using assms(8) by auto
  then have "(r, x, y) \<in> set ?ms"
    using assms(6,7,9) by (force simp: matches_where_def List.map_filter_def image_iff)
  then have "hit_of r x ContentMatch \<in> set (file_hits SX d a ?key)"
    using assms(10) by (force simp: file_hits_def search_file_content_after_def)
  moreover have "?key \<in> set (changed_files_since d ids (al_last_checked_at a))"
    using assms(3-5) by (force simp: changed_files_since_def split: option.splits)
  ultimately have "hit_of r x ContentMatch \<in> set hits"
    using n \<open>hits' = hits\<close> by (auto simp: new_hits_for_source_ids_def Let_def)
  with assms(7) show ?thesis by (intro bexI [of _ "hit_of r x ContentMatch"]) (auto simp: hit_of_def is_row_of_def)
qed

text \<open>
  C31: A webhook reaches only an address that was checked: what is posted goes to the literal address of
  one answer of the name server, of which every address is public, at the port the URL gives (or, without
  one, that of its scheme), and no second resolution takes place; the receiver's name stays the one the
  certificate is checked against.
\<close>

theorem webhook_connects_only_to_checked_addresses:
  assumes "send_webhook WE dns post a hits = (Some (target, payload), answer)"
    and "\<And>h ips. dns h = Some ips \<Longrightarrow> ips \<noteq> []"
  shows "\<exists>hostname ips ip given. pu_hostname (we_urlparse WE (al_webhook_url a)) = Some hostname \<and> dns hostname = Some ips \<and>
     ip \<in> set ips \<and> (\<forall>x \<in> set ips. \<not> is_disallowed WE x) \<and> pt_sni_hostname target = hostname \<and>
     pu_port (we_urlparse WE (al_webhook_url a)) = Some given \<and>
     pt_url target = we_urlunparse WE ((we_urlparse WE (al_webhook_url a))
       \<lparr>pu_netloc := pinned_netloc (pu_netloc (we_urlparse WE (al_webhook_url a))) ip
          (if given = None \<or> given = Some 0
           then if pu_scheme (we_urlparse WE (al_webhook_url a)) = ''https'' then 443 else 80
           else the given)\<rparr>) \<and>
     payload = webhook_payload a hits"
proof -
  from assms(1) have t: "resolve_pinned_webhook_target WE dns (al_webhook_url a) = Inr target" "payload = webhook_payload a hits"
    by (auto simp: send_webhook_def Let_def split: sum.splits webhook_error.splits)
  from t(1) obtain hostname ips given where
    h: "url_hostname WE (al_webhook_url a) = Inr hostname" "resolve_validated_ips WE dns hostname = Inr ips"
    and port: "pu_port (we_urlparse WE (al_webhook_url a)) = Some given"
    and target: "target = (let port = (case given of None \<Rightarrow> 0 | Some p \<Rightarrow> p);
          port = (if port \<noteq> 0 then port else if pu_scheme (we_urlparse WE (al_webhook_url a)) = ''https'' then 443 else 80);
          netloc = pinned_netloc (pu_netloc (we_urlparse WE (al_webhook_url a))) (hd ips) port
      in \<lparr>pt_url = we_urlunparse WE ((we_urlparse WE (al_webhook_url a))\<lparr>pu_netloc := netloc\<rparr>),
              pt_host_header = (case given of None \<Rightarrow> hostname | Some p \<Rightarrow> hostname @ '':'' @ show_int p),
              pt_sni_hostname = hostname\<rparr>)"
    by (auto simp: resolve_pinned_webhook_target_def bindE_Inr_iff Let_def)
  from h have "pu_hostname (we_urlparse WE (al_webhook_url a)) = Some hostname" "dns hostname = Some ips"
    "\<forall>x \<in> set ips. \<not> is_disallowed WE x"
    by (auto simp: url_hostname_def resolve_validated_ips_def bindE_Inr_iff list_all_iff split: option.splits)
  moreover from this(2) assms(2) have "hd ips \<in> set ips" by simp
  ultimately show ?thesis unfolding target Let_def using t(2) port
    by (intro exI [of _ hostname] exI [of _ ips] exI [of _ "hd ips"] exI [of _ given]) (auto split: option.splits)
qed

section \<open>Witnesses\<close>

definition sample_web :: web_env where
  "sample_web = \<lparr>we_urlparse = (\<lambda>url. \<lparr>pu_scheme = ''https'', pu_netloc = ''hooks'', pu_hostname = Some ''hooks'',
       pu_port = Some None, pu_rest = ''/x''\<rparr>),
     we_urlunparse = (\<lambda>p. pu_scheme p @ ''://'' @ pu_netloc p @ pu_rest p), we_ipv4_mapped = (\<lambda>_. None),
     we_is_global = (\<lambda>ip. ip = ''9.9.9.9''), we_is_multicast = (\<lambda>_. False)\<rparr>"

definition sample_dns :: name_server where
  "sample_dns h = Some [''9.9.9.9'']"

definition sample_world :: alert_world where
  "sample_world = \<lparr>aw_dns = sample_dns, aw_post = (\<lambda>_ _. True), aw_now = 9\<rparr>"

definition sample_alert :: alert where
  "sample_alert = \<lparr>al_id = 1, al_user_id = 7, al_name = ''n'', al_query = ''up'', al_source_id = None,
     al_webhook_url = ''https://hooks/x'', al_enabled = True, al_last_checked_at = None, al_created_at = 0\<rparr>"

definition alert_db :: db where
  "alert_db = search_db\<lparr>roles := [operator_role\<lparr>ro_global_capabilities := [ManageAlerts]\<rparr>], alerts := [sample_alert],
     index_states := [\<lparr>si_id = 1, si_source_id = 10, si_file_path = ''a'', si_size = 3, si_indexed_at = 5\<rparr>]\<rparr>"

text \<open>The same file, grown by a line and indexed again.\<close>

definition grown_db :: "db \<Rightarrow> db" where
  "grown_db d = d\<lparr>fts_rows := fts_rows d @ [\<lparr>fts_source_id = 10, fts_file_path = ''a'', fts_line_number = 4, fts_snippet = ''up''\<rparr>],
     index_states := [\<lparr>si_id = 1, si_source_id = 10, si_file_path = ''a'', si_size = 6, si_indexed_at = 12\<rparr>]\<rparr>"

abbreviation sample_hit :: "int \<Rightarrow> string \<Rightarrow> search_hit" where
  "sample_hit n s \<equiv> \<lparr>sh_source_id = 10, sh_file_path = ''a'', sh_line_number = n, sh_snippet_html = ''<mark>'' @ s, sh_matched_field = ContentMatch\<rparr>"

abbreviation "first_round \<equiv> evaluate_alert (sample_search ''a'' two_lines) sample_web sample_world sample_alert alert_db"

lemma sample_round:
  obtains t d' where "first_round = Some ([sample_hit 1 ''up'', sample_hit 3 ''down''], Some (t, webhook_payload sample_alert [sample_hit 1 ''up'', sample_hit 3 ''down'']), d')"
    "alert_file_states d' = [\<lparr>af_alert_id = 1, af_source_id = 10, af_file_path = ''a'', af_reported_through_line = 3\<rparr>]"
proof -
  have "map_option (\<lambda>(hits, posted, d). (hits, map_option snd posted, alert_file_states d)) first_round =
      Some ([sample_hit 1 ''up'', sample_hit 3 ''down''], Some (webhook_payload sample_alert [sample_hit 1 ''up'', sample_hit 3 ''down'']),
        [\<lparr>af_alert_id = 1, af_source_id = 10, af_file_path = ''a'', af_reported_through_line = 3\<rparr>])" by code_simp
  with that show ?thesis by auto
qed

theorem alerts_report_only_what_the_owner_may_view_witness:
  "get_user alert_db 7 = Some operator \<and> u_active operator \<and> can_view alert_db operator 10"
proof -
  have g: "get_user alert_db 7 = Some operator" "al_user_id sample_alert = 7" by code_simp+
  obtain t d' where "first_round = Some ([sample_hit 1 ''up'', sample_hit 3 ''down''], Some (t, webhook_payload sample_alert [sample_hit 1 ''up'', sample_hit 3 ''down'']), d')"
    by (rule sample_round)
  from alerts_report_only_what_the_owner_may_view [OF this, of "sample_hit 1 ''up''"] g show ?thesis by auto
qed

theorem alert_reports_every_new_line_witness:
  "\<exists>hits posted d'. first_round = Some (hits, posted, d') \<and> (\<exists>h \<in> set hits. sh_line_number h = 3)"
proof -
  let ?st = "\<lparr>si_id = 1, si_source_id = 10, si_file_path = ''a'', si_size = 3, si_indexed_at = 5\<rparr>"
  let ?r = "\<lparr>fts_source_id = 10, fts_file_path = ''a'', fts_line_number = 3, fts_snippet = ''down''\<rparr>"
  obtain t d' where d': "first_round = Some ([sample_hit 1 ''up'', sample_hit 3 ''down''], Some (t, webhook_payload sample_alert [sample_hit 1 ''up'', sample_hit 3 ''down'']), d')"
    by (rule sample_round)
  have "alert_scope alert_db sample_alert = Some (Inr [10])" by code_simp
  from alert_reports_every_new_line [OF d' this, of ?st ?r]
  have "\<exists>h \<in> set [sample_hit 1 ''up'', sample_hit 3 ''down'']. sh_source_id h = si_source_id ?st \<and>
      sh_file_path h = si_file_path ?st \<and> sh_line_number h = fts_line_number ?r"
  proof
    show "?st \<in> set (index_states alert_db)" by code_simp
    show "\<forall>t. al_last_checked_at sample_alert = Some t \<longrightarrow> t < si_indexed_at ?st" by (simp add: sample_alert_def)
    show "?r \<in> set (fts_rows alert_db)" by code_simp
    show "sx_match (sample_search ''a'' two_lines) (''snippet:'' @ quoted (al_query sample_alert)) ?r \<noteq> None" by (simp add: sample_search_def)
    show "after_line alert_db sample_alert (si_source_id ?st, si_file_path ?st) < fts_line_number ?r" by code_simp
    show "length (matches_where (sample_search ''a'' two_lines) (''snippet:'' @ quoted (al_query sample_alert))
           (\<lambda>r. is_row_of (si_source_id ?st) (si_file_path ?st) r \<and>
                after_line alert_db sample_alert (si_source_id ?st, si_file_path ?st) < fts_line_number r) alert_db) \<le> max_hits_per_file"
      by code_simp
  qed (simp_all add: is_row_of_def)
  with d' show ?thesis by auto
qed

theorem webhook_connects_only_to_checked_addresses_witness:
  "\<exists>target. fst (send_webhook sample_web sample_dns (\<lambda>_ _. True) sample_alert []) = Some (target, webhook_payload sample_alert []) \<and>
     pt_sni_hostname target = ''hooks'' \<and> pt_url target = ''https://9.9.9.9:443/x''"
proof -
  let ?t = "\<lparr>pt_url = ''https://9.9.9.9:443/x'', pt_host_header = ''hooks'', pt_sni_hostname = ''hooks''\<rparr>"
  have s: "send_webhook sample_web sample_dns (\<lambda>_ _. True) sample_alert [] = (Some (?t, webhook_payload sample_alert []), Inr True)"
    by code_simp
  have "pt_sni_hostname ?t = ''hooks''"
    using webhook_connects_only_to_checked_addresses [OF s] by (auto simp: sample_dns_def sample_web_def)
  with s show ?thesis by simp
qed

end
