(* ===== verification/AlertsApi.thy ===== *)
theory AlertsApi
  imports Alerts OrgApi
begin

text \<open>
  \<open>app/api/alerts.py\<close>: the endpoints by which users keep their alerts, and, as one machine with the
  evaluation and the deletions of the indexer, the life of an alert and of its progress per file.
\<close>

section \<open>Guards\<close>

text \<open>The validator of the body; a failure is answered with a 422.\<close>

definition webhook_url_is_http :: "web_env \<Rightarrow> name_server \<Rightarrow> string \<Rightarrow> api_error + unit" where
  "webhook_url_is_http WE dns v =
     bindE (requireE (prefix ''http://'' v \<or> prefix ''https://'' v) (HTTPException 422 ''webhook_url must be an http:// or https:// URL'')) (\<lambda>_.
     case assert_webhook_url_is_safe WE dns v of
       Inl e \<Rightarrow> Inl (HTTPException 422 ''unsafe webhook_url'')
     | Inr _ \<Rightarrow> Inr ())"

definition require_visible_source :: "db \<Rightarrow> user \<Rightarrow> int option \<Rightarrow> unit outcome" where
  "require_visible_source d u source_id =
     (case source_id of
        None \<Rightarrow> Some (Inr ())
      | Some i \<Rightarrow>
          bindO (visible_source_ids d u View) (\<lambda>visible.
          Some (requireE (case visible of None \<Rightarrow> True | Some v \<Rightarrow> i \<in> set v) (forbidden ''Not permitted for this source''))))"

definition get_owned_alert :: "db \<Rightarrow> user \<Rightarrow> int \<Rightarrow> api_error + alert" where
  "get_owned_alert d u alert_id =
     bindE (someE (not_found ''Alert not found'') (tbl_get al_id alert_id (alerts d))) (\<lambda>a.
     bindE (requireE (al_user_id a = u_id u) (not_found ''Alert not found'')) (\<lambda>_. Inr a))"

definition webhook_host :: "web_env \<Rightarrow> string \<Rightarrow> json" where
  "webhook_host WE url = (case pu_hostname (we_urlparse WE url) of None \<Rightarrow> JNull | Some h \<Rightarrow> JStr h)"

definition opt_int :: "int option \<Rightarrow> json" where
  "opt_int v = (case v of None \<Rightarrow> JNull | Some i \<Rightarrow> JInt i)"

section \<open>Endpoints\<close>

definition list_alerts :: "db \<Rightarrow> user \<Rightarrow> alert list" where
  "list_alerts d u = filter (\<lambda>a. al_user_id a = u_id u) (alerts d)"

record alert_create =
  ac_name :: string
  ac_query :: string
  ac_source_id :: "int option"
  ac_webhook_url :: string
  ac_enabled :: bool

definition create_alert ::
  "env \<Rightarrow> web_env \<Rightarrow> name_server \<Rightarrow> user \<Rightarrow> alert_create \<Rightarrow> db \<Rightarrow> db outcome" where
  "create_alert E WE dns u p d =
     bindO (Some (require_global_capability d u ManageAlerts)) (\<lambda>_.
     bindO (Some (webhook_url_is_http WE dns (ac_webhook_url p))) (\<lambda>_.
     bindO (require_visible_source d u (ac_source_id p)) (\<lambda>_.
     let a = \<lparr>al_id = tbl_max al_id (alerts d) + 1, al_user_id = u_id u, al_name = ac_name p, al_query = ac_query p,
              al_source_id = ac_source_id p, al_webhook_url = ac_webhook_url p, al_enabled = ac_enabled p,
              al_last_checked_at = None, al_created_at = e_now E\<rparr>;
         d1 = d\<lparr>alerts := alerts d @ [a]\<rparr>
     in Some (Inr (record_audit_event E d1 d1 (Some (u_id u)) ''alert.create'' (Some ''alert'') (Some (al_id a))
               (Some [(''name'', JStr (al_name a)), (''source_id'', opt_int (al_source_id a)),
                      (''webhook_host'', webhook_host WE (al_webhook_url a))]))))))"

text \<open>The fields the body sets; a set field may be \<open>null\<close>, which only \<open>source_id\<close> can store.\<close>

record alert_update =
  up_name :: "string option option"
  up_query :: "string option option"
  up_source_id :: "int option option"
  up_webhook_url :: "string option option"
  up_enabled :: "bool option option"

definition set_column :: "'a option option \<Rightarrow> 'a \<Rightarrow> api_error + 'a" where
  "set_column v old = (case v of None \<Rightarrow> Inr old | Some None \<Rightarrow> Inl IntegrityError | Some (Some x) \<Rightarrow> Inr x)"

definition changed_fields :: "alert_update \<Rightarrow> string list" where
  "changed_fields p =
     (if up_enabled p = None then [] else [''enabled'']) @ (if up_name p = None then [] else [''name'']) @
     (if up_query p = None then [] else [''query'']) @ (if up_source_id p = None then [] else [''source_id'']) @
     (if up_webhook_url p = None then [] else [''webhook_url''])"

definition apply_alert_update :: "alert_update \<Rightarrow> alert \<Rightarrow> api_error + alert" where
  "apply_alert_update p a =
     bindE (set_column (up_name p) (al_name a)) (\<lambda>name.
     bindE (set_column (up_query p) (al_query a)) (\<lambda>query.
     bindE (set_column (up_webhook_url p) (al_webhook_url a)) (\<lambda>url.
     bindE (set_column (up_enabled p) (al_enabled a)) (\<lambda>on.
     Inr (a\<lparr>al_name := name, al_query := query, al_webhook_url := url, al_enabled := on,
            al_source_id := (case up_source_id p of None \<Rightarrow> al_source_id a | Some v \<Rightarrow> v)\<rparr>)))))"

definition update_alert ::
  "env \<Rightarrow> web_env \<Rightarrow> name_server \<Rightarrow> user \<Rightarrow> int \<Rightarrow> alert_update \<Rightarrow> db \<Rightarrow> db outcome" where
  "update_alert E WE dns u alert_id p d =
     bindO (Some (require_global_capability d u ManageAlerts)) (\<lambda>_.
     bindO (Some (case up_webhook_url p of Some (Some url) \<Rightarrow> webhook_url_is_http WE dns url | _ \<Rightarrow> Inr ())) (\<lambda>_.
     bindO (Some (get_owned_alert d u alert_id)) (\<lambda>a.
     bindO (case up_source_id p of None \<Rightarrow> Some (Inr ()) | Some v \<Rightarrow> require_visible_source d u v) (\<lambda>_.
     bindO (Some (apply_alert_update p a)) (\<lambda>a1.
     let d1 = d\<lparr>alerts := tbl_put al_id a1 (alerts d)\<rparr>;
         metadata = (''fields'', JList (map JStr (changed_fields p))) #
           (if up_webhook_url p = None then [] else [(''webhook_host'', webhook_host WE (al_webhook_url a1))])
     in Some (Inr (record_audit_event E d1 d1 (Some (u_id u)) ''alert.update'' (Some ''alert'') (Some alert_id)
               (Some metadata))))))))"

definition delete_alert :: "env \<Rightarrow> user \<Rightarrow> int \<Rightarrow> db \<Rightarrow> db outcome" where
  "delete_alert E u alert_id d =
     bindO (Some (get_owned_alert d u alert_id)) (\<lambda>a.
     let d1 = d\<lparr>alert_file_states := filter (\<lambda>f. af_alert_id f \<noteq> al_id a) (alert_file_states d),
                alerts := tbl_del al_id alert_id (alerts d)\<rparr>
     in Some (Inr (record_audit_event E d d1 (Some (u_id u)) ''alert.delete'' (Some ''alert'') (Some (al_id a))
               (Some [(''name'', JStr (al_name a))]))))"

definition test_alert_webhook ::
  "web_env \<Rightarrow> name_server \<Rightarrow> (pinned_target \<Rightarrow> message \<Rightarrow> bool) \<Rightarrow> user \<Rightarrow> int \<Rightarrow> db \<Rightarrow>
   api_error + ((pinned_target \<times> message) option \<times> (webhook_error + bool))" where
  "test_alert_webhook WE dns post u alert_id d =
     bindE (require_global_capability d u ManageAlerts) (\<lambda>_.
     bindE (get_owned_alert d u alert_id) (\<lambda>a.
     let source_id = (case al_source_id a of None \<Rightarrow> 0 | Some i \<Rightarrow> i)
     in Inr (send_webhook WE dns post a
          [\<lparr>sh_source_id = source_id, sh_file_path = ''test.log'', sh_line_number = 1,
            sh_snippet_html = ''This is a test notification for alert &quot;'' @ al_name a @ ''&quot;.'',
            sh_matched_field = ContentMatch\<rparr>])))"

section \<open>The life of an alert\<close>

datatype alert_op =
    CreateAlert user alert_create
  | UpdateAlert user int alert_update
  | DeleteAlert user int
  | Evaluate int alert_world
  | ForgetSource int
  | ForgetFile int search_index_state

fun alert_op_actor :: "alert_op \<Rightarrow> user option" where
  "alert_op_actor (CreateAlert u p) = Some u"
| "alert_op_actor (UpdateAlert u i p) = Some u"
| "alert_op_actor (DeleteAlert u i) = Some u"
| "alert_op_actor _ = None"

fun exec_alert ::
  "env \<Rightarrow> search_env \<Rightarrow> web_env \<Rightarrow> name_server \<Rightarrow> alert_op \<Rightarrow> db \<Rightarrow> api_error option + db" where
  "exec_alert E SX WE dns (CreateAlert u p) d = result_of (create_alert E WE dns u p d)"
| "exec_alert E SX WE dns (UpdateAlert u i p) d = result_of (update_alert E WE dns u i p d)"
| "exec_alert E SX WE dns (DeleteAlert u i) d = result_of (delete_alert E u i d)"
| "exec_alert E SX WE dns (Evaluate i AW) d =
     (case tbl_get al_id i (alerts d) of
        None \<Rightarrow> Inl None
      | Some a \<Rightarrow>
          (case evaluate_alert SX WE AW a d of None \<Rightarrow> Inl None | Some (hits, posted, d1) \<Rightarrow> Inr d1))"
| "exec_alert E SX WE dns (ForgetSource i) d = Inr (delete_source_index i d)"
| "exec_alert E SX WE dns (ForgetFile i st) d = Inr (forget_file i st d)"

text \<open>Ids are unique, and progress is only kept for alerts that exist.\<close>

definition alert_inv :: "db \<Rightarrow> bool" where
  "alert_inv d \<longleftrightarrow> distinct (map al_id (alerts d)) \<and>
     (\<forall>f \<in> set (alert_file_states d). af_alert_id f \<in> al_id ` set (alerts d))"

lemma create_alert_Inr:
  assumes "create_alert E WE dns u p d = Some (Inr d')"
  obtains a where "alerts d' = alerts d @ [a]" "al_id a = tbl_max al_id (alerts d) + 1" "al_user_id a = u_id u"
    "al_last_checked_at a = None" "alert_file_states d' = alert_file_states d" "al_source_id a = ac_source_id p"
    "require_visible_source d u (ac_source_id p) = Some (Inr ())" "sources d' = sources d"
  using assms by (auto simp: create_alert_def bindO_Inr_iff Let_def record_audit_event_def)

lemma record_audit_alerts [simp]:
  "alerts (record_audit_event E seen d u a tt ti m) = alerts d"
  "alert_file_states (record_audit_event E seen d u a tt ti m) = alert_file_states d"
  by (simp_all add: record_audit_event_def)

lemma owned: "get_owned_alert d u i = Inr a \<longleftrightarrow> tbl_get al_id i (alerts d) = Some a \<and> al_user_id a = u_id u"
  by (auto simp: get_owned_alert_def bindE_Inr_iff)

lemma apply_alert_update_Inr:
  "apply_alert_update p a = Inr a1 \<Longrightarrow> al_id a1 = al_id a \<and> al_user_id a1 = al_user_id a \<and>
     al_source_id a1 = (case up_source_id p of None \<Rightarrow> al_source_id a | Some v \<Rightarrow> v)"
  by (auto simp: apply_alert_update_def bindE_Inr_iff)

lemma update_alert_Inr:
  assumes "update_alert E WE dns u i p d = Some (Inr d')"
  obtains a a1 where "tbl_get al_id i (alerts d) = Some a" "al_user_id a = u_id u" "al_id a1 = i" "al_user_id a1 = u_id u"
    "alerts d' = tbl_put al_id a1 (alerts d)" "alert_file_states d' = alert_file_states d"
    "al_source_id a1 = al_source_id a \<or> require_visible_source d u (al_source_id a1) = Some (Inr ())"
proof -
  from assms obtain a a1 where a: "get_owned_alert d u i = Inr a" "apply_alert_update p a = Inr a1"
    and vis: "(case up_source_id p of None \<Rightarrow> Some (Inr ()) | Some v \<Rightarrow> require_visible_source d u v) = Some (Inr ())"
    and d': "alerts d' = tbl_put al_id a1 (alerts d)" "alert_file_states d' = alert_file_states d"
    by (auto simp: update_alert_def bindO_Inr_iff Let_def)
  from a(1) have "tbl_get al_id i (alerts d) = Some a" "al_user_id a = u_id u" "al_id a = i"
    by (auto simp: owned dest: tbl_get_Some)
  with apply_alert_update_Inr [OF a(2)] vis d' show ?thesis
    by (intro that [of a a1]) (auto split: option.splits)
qed

lemma delete_alert_Inr:
  assumes "delete_alert E u i d = Some (Inr d')"
  obtains a where "tbl_get al_id i (alerts d) = Some a" "al_user_id a = u_id u" "al_id a = i"
    "alerts d' = tbl_del al_id i (alerts d)" "alert_file_states d' = filter (\<lambda>f. af_alert_id f \<noteq> i) (alert_file_states d)"
proof -
  from assms obtain a where a: "get_owned_alert d u i = Inr a" and d': "alerts d' = tbl_del al_id i (alerts d)"
    "alert_file_states d' = filter (\<lambda>f. af_alert_id f \<noteq> al_id a) (alert_file_states d)"
    by (auto simp: delete_alert_def bindO_Inr_iff Let_def)
  from a have "tbl_get al_id i (alerts d) = Some a" "al_user_id a = u_id u" "al_id a = i"
    by (auto simp: owned dest: tbl_get_Some)
  with d' show ?thesis by (intro that [of a]) simp_all
qed

lemma record_watermarks_ids:
  "f \<in> set (alert_file_states (record_watermarks i marks d)) \<Longrightarrow>
   af_alert_id f = i \<or> af_alert_id f \<in> af_alert_id ` set (alert_file_states d)"
proof (induction marks arbitrary: f rule: rev_induct)
  case (snoc m marks)
  obtain key n where m: "m = (key, n)" by fastforce
  let ?d1 = "record_watermarks i marks d"
  have "af_alert_id f = i \<or> af_alert_id f \<in> af_alert_id ` set (alert_file_states ?d1)"
    using snoc.prems by (auto simp: m record_watermarks_def record_watermark_def split: if_splits)
  then show ?case
  proof
    assume "af_alert_id f \<in> af_alert_id ` set (alert_file_states ?d1)"
    then obtain g where g: "g \<in> set (alert_file_states ?d1)" "af_alert_id g = af_alert_id f" by auto
    from snoc.IH [OF g(1)] g(2) show ?case by simp
  qed simp
qed (simp add: record_watermarks_def)

lemma evaluate_alert_result:
  assumes "evaluate_alert SX WE AW a d = Some (hits, posted, d')"
  shows "d' = d \<or> (\<exists>ids h marks. alerts d' = tbl_put al_id (a\<lparr>al_last_checked_at := Some (aw_now AW)\<rparr>) (alerts d) \<and>
     new_hits_for_source_ids SX d a ids = (h, marks) \<and> fts_rows d' = fts_rows d \<and>
     alert_file_states d' = alert_file_states (record_watermarks (al_id a) marks d))"
proof (cases "alert_scope d a")
  case (Some x)
  show ?thesis
  proof (cases x)
    case (Inr ids)
    obtain hits' marks where n: "new_hits_for_source_ids SX d a ids = (hits', marks)" by fastforce
    obtain posted' answer where s: "(if hits' = [] then (None, Inr True) else send_webhook WE (aw_dns AW) (aw_post AW) a hits') = (posted', answer)"
      by fastforce
    let ?d = "record_watermarks (al_id a) marks d"
    from s assms Some Inr n
    have "d' = d \<or> d' = ?d\<lparr>alerts := tbl_put al_id (a\<lparr>al_last_checked_at := Some (aw_now AW)\<rparr>) (alerts ?d)\<rparr>"
      by (cases answer) (auto simp: evaluate_alert_def Let_def split: if_splits)
    then show ?thesis using n by (elim disjE) (simp, intro disjI2 exI [of _ ids] exI [of _ hits'] exI [of _ marks], simp)
  qed (use assms Some in \<open>simp add: evaluate_alert_def\<close>)
qed (use assms in \<open>simp add: evaluate_alert_def\<close>)

lemma forget_alert_states:
  "alerts (delete_source_index i d) = alerts d"
  "set (alert_file_states (delete_source_index i d)) \<subseteq> set (alert_file_states d)"
  "alerts (forget_file i st d) = alerts d"
  "set (alert_file_states (forget_file i st d)) \<subseteq> set (alert_file_states d)"
  by (auto simp: delete_source_index_def forget_file_def delete_alert_file_states_def delete_fts_rows_def Let_def)

lemma alert_inv_sub:
  assumes "alert_inv d" "al_id ` set (alerts d) \<subseteq> al_id ` set (alerts d')" "distinct (map al_id (alerts d'))"
    and "\<And>f. f \<in> set (alert_file_states d') \<Longrightarrow> af_alert_id f \<in> af_alert_id ` set (alert_file_states d) \<or> af_alert_id f \<in> al_id ` set (alerts d')"
  shows "alert_inv d'"
  unfolding alert_inv_def
proof (intro conjI ballI)
  fix f assume "f \<in> set (alert_file_states d')"
  from assms(4) [OF this] show "af_alert_id f \<in> al_id ` set (alerts d')"
  proof
    assume "af_alert_id f \<in> af_alert_id ` set (alert_file_states d)"
    then obtain g where g: "g \<in> set (alert_file_states d)" "af_alert_id g = af_alert_id f" by auto
    have "af_alert_id g \<in> al_id ` set (alerts d)" using assms(1) g(1) unfolding alert_inv_def by metis
    then show ?thesis unfolding g(2) by (rule subsetD [OF assms(2)])
  qed
qed (rule assms(3))

lemma exec_alert_inv:
  assumes "alert_inv d" "exec_alert E SX WE dns op d = Inr d'"
  shows "alert_inv d'"
proof (cases op)
  case (CreateAlert u p)
  with assms(2) have "create_alert E WE dns u p d = Some (Inr d')"
    by (auto simp: result_of_def split: option.splits sum.splits)
  then obtain a where a: "alerts d' = alerts d @ [a]" "al_id a = tbl_max al_id (alerts d) + 1" "alert_file_states d' = alert_file_states d"
    by (rule create_alert_Inr)
  have new: "al_id a \<notin> al_id ` set (alerts d)" using a(2) tbl_max_ge [of _ "alerts d" al_id] by force
  show ?thesis
  proof (rule alert_inv_sub [OF assms(1)])
    show "distinct (map al_id (alerts d'))" using assms(1) new by (simp add: a(1) alert_inv_def)
    show "al_id ` set (alerts d) \<subseteq> al_id ` set (alerts d')" unfolding a(1) set_append image_Un by (rule Un_upper1)
  qed (simp add: a(3))
next
  case (UpdateAlert u i p)
  with assms(2) have "update_alert E WE dns u i p d = Some (Inr d')"
    by (auto simp: result_of_def split: option.splits sum.splits)
  then obtain a a1 where a: "alerts d' = tbl_put al_id a1 (alerts d)" "alert_file_states d' = alert_file_states d"
    by (rule update_alert_Inr)
  have "map al_id (alerts d') = map al_id (alerts d)" by (simp add: a)
  moreover from this have "al_id ` set (alerts d') = al_id ` set (alerts d)" by (metis set_map)
  ultimately show ?thesis using assms(1) a(2) by (simp add: alert_inv_def)
next
  case (DeleteAlert u i)
  with assms(2) have "delete_alert E u i d = Some (Inr d')"
    by (auto simp: result_of_def split: option.splits sum.splits)
  then obtain a where "alerts d' = tbl_del al_id i (alerts d)" "alert_file_states d' = filter (\<lambda>f. af_alert_id f \<noteq> i) (alert_file_states d)"
    by (rule delete_alert_Inr)
  then show ?thesis using assms(1) by (auto simp: alert_inv_def tbl_del_def distinct_map_filter image_iff)
next
  case (Evaluate i AW)
  with assms(2) obtain a hits posted where a: "tbl_get al_id i (alerts d) = Some a" "evaluate_alert SX WE AW a d = Some (hits, posted, d')"
    by (auto split: option.splits)
  from evaluate_alert_result [OF a(2)] show ?thesis
  proof (elim disjE exE conjE)
    fix ids h marks
    assume d': "alerts d' = tbl_put al_id (a\<lparr>al_last_checked_at := Some (aw_now AW)\<rparr>) (alerts d)"
      "alert_file_states d' = alert_file_states (record_watermarks (al_id a) marks d)"
    have ids: "map al_id (alerts d') = map al_id (alerts d)" by (simp add: d')
    then have img: "al_id ` set (alerts d') = al_id ` set (alerts d)" by (metis set_map)
    have a_in: "al_id a \<in> al_id ` set (alerts d')" using tbl_get_Some [OF a(1)] by (auto simp: img)
    show ?thesis
    proof (rule alert_inv_sub [OF assms(1)])
      show "distinct (map al_id (alerts d'))" using assms(1) by (simp add: ids alert_inv_def)
      show "af_alert_id f \<in> af_alert_id ` set (alert_file_states d) \<or> af_alert_id f \<in> al_id ` set (alerts d')"
        if "f \<in> set (alert_file_states d')" for f
        using record_watermarks_ids that a_in unfolding d'(2) by metis
    qed (simp add: img)
  qed (use assms(1) in simp)
next
  case (ForgetSource i)
  with assms forget_alert_states(1,2) [of i d] show ?thesis
    by (intro alert_inv_sub [OF assms(1)]) (auto simp: alert_inv_def)
next
  case (ForgetFile i st)
  with assms forget_alert_states(3,4) [of i st d] show ?thesis
    by (intro alert_inv_sub [OF assms(1)]) (auto simp: alert_inv_def)
qed

section \<open>What happens between two evaluations\<close>

text \<open>The operations that forget what an alert reported of a file: those that delete the alert, or drop the
  file from the index.\<close>

fun drops_progress :: "int \<Rightarrow> int \<times> string \<Rightarrow> alert_op \<Rightarrow> bool" where
  "drops_progress alert_id key (DeleteAlert u i) = (i = alert_id)"
| "drops_progress alert_id key (ForgetSource i) = (i = fst key)"
| "drops_progress alert_id key (ForgetFile i st) = ((i, si_file_path st) = key)"
| "drops_progress alert_id key _ = False"

text \<open>
  Any number of steps: alert requests and evaluations, of this alert and of others, that do not drop
  the progress; and any other change, of the index for example, that leaves the rows of this alert for
  this file and does not shorten the file in the index.
\<close>

inductive meanwhile :: "int \<Rightarrow> int \<times> string \<Rightarrow> db \<Rightarrow> db \<Rightarrow> bool" for alert_id key where
  Nothing_yet: "meanwhile alert_id key d d"
| Alert_step: "meanwhile alert_id key d d1 \<Longrightarrow> exec_alert E SX WE dns op d1 = Inr d2 \<Longrightarrow> \<not> drops_progress alert_id key op \<Longrightarrow>
    meanwhile alert_id key d d2"
| Other_step: "meanwhile alert_id key d d1 \<Longrightarrow>
    filter (is_mark alert_id key) (alert_file_states d2) = filter (is_mark alert_id key) (alert_file_states d1) \<Longrightarrow>
    last_indexed_line d1 (fst key) (snd key) \<le> last_indexed_line d2 (fst key) (snd key) \<Longrightarrow>
    meanwhile alert_id key d d2"

lemma find_by_filter: "find P xs = (case filter P xs of [] \<Rightarrow> None | x # _ \<Rightarrow> Some x)"
  by (induction xs) auto

lemma reported_by_marks:
  "filter (is_mark (al_id a) key) (alert_file_states d2) = filter (is_mark (al_id a) key) (alert_file_states d1) \<Longrightarrow>
   reported_through d2 a key = reported_through d1 a key"
  by (simp add: reported_through_mark find_by_filter)

lemma last_indexed_same_rows:
  "fts_rows d2 = fts_rows d1 \<Longrightarrow> last_indexed_line d2 i p = last_indexed_line d1 i p"
  by (simp add: last_indexed_line_def)

lemma forget_keeps:
  "i \<noteq> fst key \<Longrightarrow> filter (is_mark n key) (alert_file_states (delete_source_index i d)) = filter (is_mark n key) (alert_file_states d) \<and>
     last_indexed_line (delete_source_index i d) (fst key) (snd key) = last_indexed_line d (fst key) (snd key)"
  "(i, si_file_path st) \<noteq> key \<Longrightarrow> filter (is_mark n key) (alert_file_states (forget_file i st d)) = filter (is_mark n key) (alert_file_states d) \<and>
     last_indexed_line (forget_file i st d) (fst key) (snd key) = last_indexed_line d (fst key) (snd key)"
  unfolding last_indexed_line_def
  by (auto simp: delete_source_index_def forget_file_def delete_alert_file_states_def delete_fts_rows_def Let_def is_mark_def is_row_of_def
      intro!: filter_cong arg_cong [where f = "\<lambda>rs. fold (\<lambda>r m. max (fts_line_number r) m) rs 0"])

lemma evaluation_keeps:
  assumes "evaluate_alert SX WE AW b d1 = Some (hits, posted, d2)" "n \<le> reported_through d1 a key"
    "reported_through d1 a key \<le> last_indexed_line d1 (fst key) (snd key)"
  shows "n \<le> reported_through d2 a key \<and> reported_through d2 a key \<le> last_indexed_line d2 (fst key) (snd key)"
  using evaluate_alert_result [OF assms(1)]
proof (elim disjE exE conjE)
  fix ids h marks
  assume m: "new_hits_for_source_ids SX d1 b ids = (h, marks)" and f: "fts_rows d2 = fts_rows d1"
    and st: "alert_file_states d2 = alert_file_states (record_watermarks (al_id b) marks d1)"
  let ?last = "last_indexed_line d1 (fst key) (snd key)"
  have "reported_through d2 a key = reported_through (record_watermarks (al_id b) marks d1) a key"
    by (simp add: reported_through_def st)
  moreover have "\<dots> \<in> {reported_through d1 a key, ?last}"
  proof (cases "al_id b = al_id a \<and> key \<in> fst ` set marks")
    case True
    then obtain l where l: "(key, l) \<in> set marks" by auto
    then have "l = ?last" using m by (auto simp: new_hits_for_source_ids_def Let_def)
    with True reported_records [OF new_marks(1) [OF m] l] show ?thesis by simp
  next
    case False
    then show ?thesis using reported_records_other_file reported_records_other_alert by (metis insertI1)
  qed
  ultimately show ?thesis using assms(2,3) last_indexed_same_rows [OF f] by auto
qed (use assms(2,3) in simp)

lemma meanwhile_keeps:
  assumes "meanwhile (al_id a) key d d2" "n \<le> reported_through d a key" "reported_through d a key \<le> last_indexed_line d (fst key) (snd key)"
  shows "n \<le> reported_through d2 a key \<and> reported_through d2 a key \<le> last_indexed_line d2 (fst key) (snd key)"
  using assms
proof (induction rule: meanwhile.induct)
  case (Alert_step d d1 E SX WE dns op d2)
  have IH: "n \<le> reported_through d1 a key \<and> reported_through d1 a key \<le> last_indexed_line d1 (fst key) (snd key)"
    by (rule Alert_step.IH [OF Alert_step.prems])
  have same: ?case if "alert_file_states d2 = alert_file_states d1" "fts_rows d2 = fts_rows d1"
    using IH last_indexed_same_rows [OF that(2)] that(1) by (simp add: reported_through_def)
  have kept: ?case if "filter (is_mark (al_id a) key) (alert_file_states d2) = filter (is_mark (al_id a) key) (alert_file_states d1) \<and>
      last_indexed_line d2 (fst key) (snd key) = last_indexed_line d1 (fst key) (snd key)"
    using IH that reported_by_marks [of a key d2 d1] by simp
  show ?case
  proof (cases op)
    case (CreateAlert u p)
    with Alert_step.hyps show ?thesis
      by (intro same) (auto simp: result_of_def create_alert_def bindO_Inr_iff Let_def record_audit_event_def split: option.splits sum.splits)
  next
    case (UpdateAlert u i p)
    with Alert_step.hyps show ?thesis
      by (intro same) (auto simp: result_of_def update_alert_def bindO_Inr_iff Let_def record_audit_event_def split: option.splits sum.splits)
  next
    case (DeleteAlert u i)
    with Alert_step.hyps have "delete_alert E u i d1 = Some (Inr d2)" "i \<noteq> al_id a"
      by (auto simp: result_of_def split: option.splits sum.splits)
    moreover from this(1) have "alert_file_states d2 = filter (\<lambda>f. af_alert_id f \<noteq> i) (alert_file_states d1)"
      by (rule delete_alert_Inr)
    moreover have "fts_rows d2 = fts_rows d1"
      using calculation(1) by (auto simp: delete_alert_def bindO_Inr_iff Let_def record_audit_event_def)
    ultimately show ?thesis using last_indexed_same_rows [of d2 d1]
      by (intro kept) (auto simp: is_mark_def intro!: filter_cong)
  next
    case (Evaluate i AW)
    with Alert_step.hyps obtain b hits posted where "evaluate_alert SX WE AW b d1 = Some (hits, posted, d2)"
      by (auto split: option.splits)
    from evaluation_keeps [OF this] IH show ?thesis by blast
  next
    case (ForgetSource i)
    with Alert_step.hyps have "d2 = delete_source_index i d1" "i \<noteq> fst key" by auto
    then show ?thesis by (intro kept) (simp add: forget_keeps(1))
  next
    case (ForgetFile i st)
    with Alert_step.hyps have "d2 = forget_file i st d1" "(i, si_file_path st) \<noteq> key" by auto
    then show ?thesis by (intro kept) (simp add: forget_keeps(2))
  qed
next
  case (Other_step d d1 d2)
  then show ?case using reported_by_marks [of a key d2 d1] by fastforce
qed simp

interpretation alt: guarded_machine "exec_alert E SX WE dns" alert_inv for E SX WE dns
  by unfold_locales (rule exec_alert_inv)

lemma visible_source_viewable:
  assumes "require_visible_source d u s = Some (Inr ())"
  shows "s = None \<or> (\<exists>i. s = Some i \<and> can_view d u i)"
proof (cases s)
  case (Some i)
  with assms obtain v where v: "visible_source_ids d u View = Some (Inr v)" "case v of None \<Rightarrow> True | Some w \<Rightarrow> i \<in> set w"
    by (auto simp: require_visible_source_def bindO_Inr_iff)
  have "v = None \<or> (\<exists>w. v = Some w \<and> i \<in> set w)" using v(2) by (auto split: option.splits)
  from visible_member [OF v(1) this] Some show ?thesis by simp
qed simp

section \<open>Properties\<close>

text \<open>
  C32: A new alert starts from nothing: ids of deleted alerts are given out again, and yet, whatever
  alert requests, evaluations and clean-ups of the index came before, no progress of an earlier alert
  silences the first matches of a new one. (The deletion of a source is none of these operations: it
  leaves the progress that an alert it deletes has on other sources.)
\<close>

theorem a_new_alert_starts_from_nothing:
  assumes "alert_inv d0" "d = alt.run_ops E SX WE dns ops d0" "create_alert E WE dns u p d = Some (Inr d')"
  shows "\<exists>a. alerts d' = alerts d @ [a] \<and> al_last_checked_at a = None \<and> (\<forall>key. reported_through d' a key = 0)"
proof -
  have inv: "alert_inv d" unfolding assms(2) by (rule alt.run_inv [OF assms(1)])
  from assms(3) obtain a where a: "alerts d' = alerts d @ [a]" "al_id a = tbl_max al_id (alerts d) + 1"
    "al_last_checked_at a = None" "alert_file_states d' = alert_file_states d" by (rule create_alert_Inr)
  have "al_id a \<notin> al_id ` set (alerts d)" using a(2) tbl_max_ge [of _ "alerts d" al_id] by force
  then have "\<forall>f \<in> set (alert_file_states d'). af_alert_id f \<noteq> al_id a"
    using inv unfolding alert_inv_def a(4) by metis
  then have "find (is_mark (al_id a) key) (alert_file_states d') = None" for key
    by (auto simp: find_None_iff is_mark_def)
  with a(1,3) show ?thesis by (intro exI [of _ a]) (simp add: reported_through_mark)
qed

text \<open>
  C30: No line is reported twice: when an alert posted its hits, then, whatever alerts are made, changed,
  deleted and evaluated meanwhile and however the index grows, a hit it reports later in the same file is
  on a line after every line of that file it reported before; as long as the alert itself is not deleted,
  and the file is neither dropped from the index nor gets shorter in it.
\<close>

theorem alert_never_reports_a_line_twice:
  assumes "evaluate_alert SX WE AW a d = Some (hits, Some posted, d')"
    and "h \<in> set hits" "meanwhile (al_id a) (sh_source_id h, sh_file_path h) d' d2" "al_id a2 = al_id a"
    and "evaluate_alert SX2 WE2 AW2 a2 d2 = Some (hits2, posted2, d3)"
    and "h2 \<in> set hits2" "sh_source_id h2 = sh_source_id h" "sh_file_path h2 = sh_file_path h"
  shows "sh_line_number h < sh_line_number h2"
proof -
  let ?key = "(sh_source_id h, sh_file_path h)"
  let ?n = "last_indexed_line d (sh_source_id h) (sh_file_path h)"
  from assms(1) obtain ids marks where
    f: "new_hits_for_source_ids SX d a ids = (hits, marks)" "alert_file_states d' = alert_file_states (record_watermarks (al_id a) marks d)"
  proof (cases rule: evaluate_alert_hits)
    case (found ids marks)
    have "alert_file_states d' = alert_file_states (record_watermarks (al_id a) marks d)" by (rule found(4)) simp
    with found(2) that show ?thesis by blast
  qed simp
  have rows: "fts_rows d' = fts_rows d" using evaluate_alert_result [OF assms(1)] by auto
  note m = new_hits_member [OF f(1) assms(2)]
  obtain r where "r \<in> set (fts_rows d)" "is_row_of (sh_source_id h) (sh_file_path h) r" "sh_line_number h = fts_line_number r"
    using file_hits_member [OF m(1)] by auto
  then have le: "sh_line_number h \<le> ?n" using last_indexed_line_ge by metis
  have "(?key, ?n) \<in> set marks" using new_marks(2) [OF f(1) m(2)] by simp
  from reported_records [OF new_marks(1) [OF f(1)] this] have "reported_through d' a ?key = ?n"
    by (simp add: reported_through_def f(2))
  with meanwhile_keeps [OF assms(3), of ?n] last_indexed_same_rows [OF rows]
  have "?n \<le> reported_through d2 a ?key" "reported_through d2 a ?key \<le> last_indexed_line d2 (fst ?key) (snd ?key)" by simp_all
  then have after: "?n \<le> after_line d2 a2 ?key" by (simp add: after_line_def reported_through_def assms(4) Let_def)
  from assms(5,6) obtain ids2 marks2 where f2: "new_hits_for_source_ids SX2 d2 a2 ids2 = (hits2, marks2)"
    by (cases rule: evaluate_alert_hits) auto
  from file_hits_after [OF new_hits_member(1) [OF f2 assms(6)]] have "after_line d2 a2 ?key < sh_line_number h2"
    by (simp only: assms(7,8))
  with le after show ?thesis by simp
qed

text \<open>
  Only its owner changes an alert: a request adds, changes or removes only alerts of the account
  that makes it, and the source a new or changed one is limited to is one this account may view, or the
  one it was limited to before.
\<close>

theorem only_the_owner_changes_an_alert:
  assumes "exec_alert E SX WE dns op d = Inr d'" "alert_op_actor op = Some u" "distinct (map al_id (alerts d))"
    and "a \<in> set (alerts d) - set (alerts d') \<or> a \<in> set (alerts d') - set (alerts d)"
  shows "al_user_id a = u_id u \<and>
    (a \<in> set (alerts d) \<or> al_source_id a = None \<or> (\<exists>i. al_source_id a = Some i \<and> can_view d u i) \<or>
     (\<exists>old \<in> set (alerts d). al_id old = al_id a \<and> al_source_id old = al_source_id a))"
proof (cases op)
  case (CreateAlert v p)
  with assms(1,2) have "create_alert E WE dns u p d = Some (Inr d')"
    by (auto simp: result_of_def split: option.splits sum.splits)
  then obtain b where b: "alerts d' = alerts d @ [b]" "al_user_id b = u_id u" "al_source_id b = ac_source_id p"
    "require_visible_source d u (ac_source_id p) = Some (Inr ())" by (rule create_alert_Inr)
  with assms(4) visible_source_viewable [OF b(4)] show ?thesis by auto
next
  case (UpdateAlert v i p)
  with assms(1,2) have "update_alert E WE dns u i p d = Some (Inr d')"
    by (auto simp: result_of_def split: option.splits sum.splits)
  then obtain b b1 where b: "tbl_get al_id i (alerts d) = Some b" "al_user_id b = u_id u" "al_id b1 = i" "al_user_id b1 = u_id u"
    "alerts d' = tbl_put al_id b1 (alerts d)"
    "al_source_id b1 = al_source_id b \<or> require_visible_source d u (al_source_id b1) = Some (Inr ())"
    by (rule update_alert_Inr)
  have bin: "b \<in> set (alerts d)" "al_id b = i" using tbl_get_Some [OF b(1)] by auto
  have "a = b \<or> a = b1"
  proof -
    consider "a \<in> set (alerts d)" "a \<notin> set (alerts d')" | "a \<in> set (alerts d')" "a \<notin> set (alerts d)" using assms(4) by blast
    then show ?thesis
    proof cases
      case 1
      then have "al_id a = i" using b(3) by (force simp: b(5) tbl_put_def)
      with 1(1) bin assms(3) show ?thesis by (metis distinct_map inj_onD)
    next
      case 2
      then show ?thesis by (auto simp: b(5) tbl_put_def split: if_splits)
    qed
  qed
  then show ?thesis
  proof
    assume "a = b1"
    with b bin visible_source_viewable [of d u "al_source_id b1"] show ?thesis by metis
  qed (use b bin in simp)
next
  case (DeleteAlert v i)
  with assms(1,2) have "delete_alert E u i d = Some (Inr d')"
    by (auto simp: result_of_def split: option.splits sum.splits)
  then obtain b where b: "tbl_get al_id i (alerts d) = Some b" "al_user_id b = u_id u" "al_id b = i"
    "alerts d' = tbl_del al_id i (alerts d)" by (rule delete_alert_Inr)
  with assms(4) have a: "a \<in> set (alerts d)" "al_id a = i" by (auto simp: tbl_del_def)
  have "a = b" using a tbl_get_Some [OF b(1)] assms(3) by (metis distinct_map inj_onD)
  with a b show ?thesis by simp
qed (use assms(2) in simp_all)

section \<open>Witnesses\<close>

definition new_alert :: alert_create where
  "new_alert = \<lparr>ac_name = ''n'', ac_query = ''up'', ac_source_id = Some 10, ac_webhook_url = ''https://hooks/x'', ac_enabled = True\<rparr>"

definition two_owner_db :: db where
  "two_owner_db = alert_db\<lparr>alerts := [sample_alert, sample_alert\<lparr>al_id := 2\<rparr>],
     alert_file_states := [\<lparr>af_alert_id = 2, af_source_id = 10, af_file_path = ''a'', af_reported_through_line = 3\<rparr>]\<rparr>"

text \<open>Alert 1 of user 7 never ran; the other, of the same user, reported up to line 3 of a file.\<close>

lemma two_owner_inv: "alert_inv two_owner_db"
  by (simp add: alert_inv_def two_owner_db_def sample_alert_def)

lemma operator_creates:
  obtains d' where "create_alert length_env sample_web sample_dns operator new_alert two_owner_db = Some (Inr d')"
proof -
  have "require_global_capability two_owner_db operator ManageAlerts = Inr ()"
    "webhook_url_is_http sample_web sample_dns (ac_webhook_url new_alert) = Inr ()"
    "require_visible_source two_owner_db operator (ac_source_id new_alert) = Some (Inr ())" by code_simp+
  then show ?thesis by (intro that) (simp add: create_alert_def bindO_def Let_def)
qed

text \<open>The second alert is deleted, and the new one gets its id and nothing of its progress.\<close>

lemma a_new_alert_starts_from_nothing_witness:
  "\<exists>d d' a. d = alt.run_ops length_env (sample_search ''a'' two_lines) sample_web sample_dns [DeleteAlert operator 2] two_owner_db \<and>
     create_alert length_env sample_web sample_dns operator (new_alert\<lparr>ac_source_id := None\<rparr>) d = Some (Inr d') \<and> alerts d' = alerts d @ [a] \<and>
     al_id a = 2 \<and> reported_through two_owner_db a (10, ''a'') = 3 \<and> reported_through d' a (10, ''a'') = 0"
proof -
  let ?new = "new_alert\<lparr>ac_source_id := None\<rparr>"
  have "get_owned_alert two_owner_db operator 2 = Inr (sample_alert\<lparr>al_id := 2\<rparr>)" by code_simp
  then have "\<exists>d. delete_alert length_env operator 2 two_owner_db = Some (Inr d) \<and> roles d = roles two_owner_db \<and>
      alerts d = tbl_del al_id 2 (alerts two_owner_db)"
    by (simp add: delete_alert_def bindO_def Let_def record_audit_event_def)
  then obtain d where del: "delete_alert length_env operator 2 two_owner_db = Some (Inr d)" "roles d = roles two_owner_db"
    "alerts d = tbl_del al_id 2 (alerts two_owner_db)" by blast
  have alerts: "alerts d = [sample_alert]" by (simp add: del(3) two_owner_db_def tbl_del_def sample_alert_def)
  have run: "d = alt.run_ops length_env (sample_search ''a'' two_lines) sample_web sample_dns [DeleteAlert operator 2] two_owner_db"
    by (simp add: result_of_def del(1))
  have "require_global_capability two_owner_db operator ManageAlerts = Inr ()" by code_simp
  then have "require_global_capability d operator ManageAlerts = Inr ()"
    by (simp add: require_global_capability_def user_role_def del(2))
  moreover have "webhook_url_is_http sample_web sample_dns (ac_webhook_url ?new) = Inr ()" by code_simp
  ultimately obtain d' where d': "create_alert length_env sample_web sample_dns operator ?new d = Some (Inr d')"
    by (simp add: create_alert_def bindO_def Let_def require_visible_source_def)
  obtain a where a: "alerts d' = alerts d @ [a]" "al_id a = tbl_max al_id (alerts d) + 1"
    using d' by (rule create_alert_Inr)
  have "al_id a = 2" by (simp add: a(2) alerts tbl_max_def sample_alert_def)
  moreover have "reported_through two_owner_db a (10, ''a'') = 3"
    by (simp add: reported_through_def two_owner_db_def calculation)
  moreover have "reported_through d' a (10, ''a'') = 0"
    using a_new_alert_starts_from_nothing [OF two_owner_inv run d'] a(1) by auto
  ultimately show ?thesis using run d' a(1) by blast
qed

text \<open>Between two evaluations of an alert the other one is evaluated and the file grows by a line.\<close>

definition two_alerts_db :: db where
  "two_alerts_db = alert_db\<lparr>alerts := [sample_alert, sample_alert\<lparr>al_id := 2\<rparr>]\<rparr>"

definition after_round :: db where
  "after_round = (case evaluate_alert (sample_search ''a'' two_lines) sample_web sample_world sample_alert two_alerts_db of
     Some (hits, posted, d) \<Rightarrow> d | None \<Rightarrow> two_alerts_db)"

definition after_other :: db where
  "after_other = (case exec_alert length_env (sample_search ''a'' two_lines) sample_web sample_dns (Evaluate 2 sample_world) after_round of
     Inr d \<Rightarrow> d | Inl e \<Rightarrow> after_round)"

theorem alert_never_reports_a_line_twice_witness:
  "\<exists>posted posted2 d3. evaluate_alert (sample_search ''a'' two_lines) sample_web sample_world sample_alert two_alerts_db =
       Some ([sample_hit 1 ''up'', sample_hit 3 ''down''], Some posted, after_round) \<and>
     meanwhile 1 (10, ''a'') after_round (grown_db after_other) \<and>
     evaluate_alert (sample_search ''a'' two_lines) sample_web sample_world (sample_alert\<lparr>al_last_checked_at := Some 9\<rparr>) (grown_db after_other) =
       Some ([sample_hit 4 ''up''], posted2, d3) \<and> (3 :: int) < 4"
proof -
  let ?SX = "sample_search ''a'' two_lines" and ?a2 = "sample_alert\<lparr>al_last_checked_at := Some 9\<rparr>"
  have "map_option (\<lambda>(hits, posted, d). (hits, posted \<noteq> None)) (evaluate_alert ?SX sample_web sample_world sample_alert two_alerts_db) =
      Some ([sample_hit 1 ''up'', sample_hit 3 ''down''], True)" by code_simp
  then obtain posted d' where "evaluate_alert ?SX sample_web sample_world sample_alert two_alerts_db =
      Some ([sample_hit 1 ''up'', sample_hit 3 ''down''], Some posted, d')" by auto
  then have e: "evaluate_alert ?SX sample_web sample_world sample_alert two_alerts_db =
      Some ([sample_hit 1 ''up'', sample_hit 3 ''down''], Some posted, after_round)" by (simp add: after_round_def)
  have "isl (exec_alert length_env ?SX sample_web sample_dns (Evaluate 2 sample_world) after_round) = False" by code_simp
  then have x: "exec_alert length_env ?SX sample_web sample_dns (Evaluate 2 sample_world) after_round = Inr after_other"
    unfolding after_other_def by (cases "exec_alert length_env ?SX sample_web sample_dns (Evaluate 2 sample_world) after_round") simp_all
  have m: "meanwhile 1 (10, ''a'') after_round (grown_db after_other)"
  proof (rule Other_step [OF Alert_step [OF Nothing_yet x]])
    show "last_indexed_line after_other (fst (10, ''a'')) (snd (10, ''a'')) \<le> last_indexed_line (grown_db after_other) (fst (10, ''a'')) (snd (10, ''a''))"
      by code_simp
  qed (simp_all add: grown_db_def)
  have "map_option fst (evaluate_alert ?SX sample_web sample_world ?a2 (grown_db after_other)) = Some [sample_hit 4 ''up'']" by code_simp
  then obtain posted2 d3 where e2: "evaluate_alert ?SX sample_web sample_world ?a2 (grown_db after_other) = Some ([sample_hit 4 ''up''], posted2, d3)"
    by auto
  have "sh_line_number (sample_hit 3 ''down'') < sh_line_number (sample_hit 4 ''up'')"
    by (rule alert_never_reports_a_line_twice [OF e _ _ _ e2]) (use m in \<open>simp_all add: sample_alert_def\<close>)
  then have "(3 :: int) < 4" by simp
  with e m e2 show ?thesis by blast
qed

lemma only_the_owner_changes_an_alert_witness:
  "\<exists>d'. exec_alert length_env (sample_search ''a'' two_lines) sample_web sample_dns (DeleteAlert operator 1) two_owner_db = Inr d' \<and>
     sample_alert \<in> set (alerts two_owner_db) - set (alerts d') \<and> al_user_id sample_alert = u_id operator"
proof -
  have "get_owned_alert two_owner_db operator 1 = Inr sample_alert" by code_simp
  then have "\<exists>d'. delete_alert length_env operator 1 two_owner_db = Some (Inr d') \<and> alerts d' = tbl_del al_id 1 (alerts two_owner_db)"
    by (simp add: delete_alert_def bindO_def Let_def)
  then obtain d' where d': "delete_alert length_env operator 1 two_owner_db = Some (Inr d')"
    "alerts d' = tbl_del al_id 1 (alerts two_owner_db)" by blast
  have x: "exec_alert length_env (sample_search ''a'' two_lines) sample_web sample_dns (DeleteAlert operator 1) two_owner_db = Inr d'"
    by (simp add: d'(1) result_of_def)
  have gone: "sample_alert \<in> set (alerts two_owner_db) - set (alerts d')"
    by (simp add: d'(2) two_owner_db_def tbl_del_def sample_alert_def)
  have "distinct (map al_id (alerts two_owner_db))" using two_owner_inv by (simp add: alert_inv_def)
  from only_the_owner_changes_an_alert [OF x _ this disjI1 [OF gone]] x gone show ?thesis by auto
qed

end
