(* ===== verification/RulesApi.thy ===== *)
theory RulesApi
  imports SearchIndex OrgApi
begin

text \<open>
  \<open>app/api/rules.py\<close>, \<open>app/severity_patterns.py\<close> and \<open>app/api/severity_patterns.py\<close>: the endpoints
  that edit the rule chain of a source and the patterns that colour lines in the viewer. RE2 and the
  \<open>re\<close> module, which say whether a pattern compiles, are parameters.
\<close>

section \<open>Rules\<close>

definition require_editable_rules :: "source \<Rightarrow> api_error + unit" where
  "require_editable_rules s = requireE (\<not> s_is_system s) (forbidden ''System source rules are not editable'')"

definition parse_pattern_or_400 ::
  "re2_engine \<Rightarrow> (string \<Rightarrow> bool) \<Rightarrow> string \<Rightarrow> bool \<Rightarrow> api_error + (string \<times> pattern_kind)" where
  "parse_pattern_or_400 re2 re_ok raw linear_time =
     (case parse_pattern re2 re_ok raw linear_time of
        Inl p \<Rightarrow> Inl (HTTPException 400 (''invalid regex '' @ p))
      | Inr r \<Rightarrow> Inr r)"

definition ordered_rules :: "db \<Rightarrow> int \<Rightarrow> rule list" where
  "ordered_rules d source_id = sort_key r_order (rules_for d source_id)"

definition list_rules :: "db \<Rightarrow> user \<Rightarrow> int \<Rightarrow> rule list outcome" where
  "list_rules d u source_id = bindO (require_capability d u source_id View) (\<lambda>s. Some (Inr (ordered_rules d (s_id s))))"

record rule_create =
  rc_type :: rule_type
  rc_pattern :: string
  rc_notes :: "string option"

text \<open>The dependency of every handler that changes rules, and its first line.\<close>

definition editable_source :: "db \<Rightarrow> user \<Rightarrow> int \<Rightarrow> source outcome" where
  "editable_source d u source_id =
     bindO (require_capability d u source_id ManageRules) (\<lambda>s.
     bindO (Some (require_editable_rules s)) (\<lambda>_. Some (Inr s)))"

definition create_rule ::
  "env \<Rightarrow> re2_engine \<Rightarrow> (string \<Rightarrow> bool) \<Rightarrow> user \<Rightarrow> int \<Rightarrow> rule_create \<Rightarrow> db \<Rightarrow> db outcome" where
  "create_rule E re2 re_ok u source_id p d =
     bindO (editable_source d u source_id) (\<lambda>s.
     bindO (Some (parse_pattern_or_400 re2 re_ok (rc_pattern p) True)) (\<lambda>(pattern, kind).
     let existing = ordered_rules d (s_id s);
         next_order = (if existing = [] then 0 else r_order (last existing) + 1);
         r = \<lparr>r_id = tbl_max r_id (rules d) + 1, r_source_id = s_id s, r_order = next_order, r_type = rc_type p,
              r_pattern = pattern, r_kind = kind, r_notes = rc_notes p\<rparr>;
         d1 = d\<lparr>rules := rules d @ [r]\<rparr>
     in Some (Inr (record_audit_event E d1 d1 (Some (u_id u)) ''rule.create'' (Some ''rule'') (Some (r_id r))
               (Some [(''source_id'', JInt (s_id s)), (''pattern'', JStr pattern)])))))"

text \<open>A rule of another source is not found.\<close>

definition rule_of_source :: "db \<Rightarrow> source \<Rightarrow> int \<Rightarrow> api_error + rule" where
  "rule_of_source d s rule_id =
     bindE (someE (not_found ''Rule not found'') (tbl_get r_id rule_id (rules d))) (\<lambda>r.
     bindE (requireE (r_source_id r = s_id s) (not_found ''Rule not found'')) (\<lambda>_. Inr r))"

record rule_update =
  ru_type :: "rule_type option"
  ru_pattern :: "string option"
  ru_notes :: "string option option"

definition update_rule ::
  "env \<Rightarrow> re2_engine \<Rightarrow> (string \<Rightarrow> bool) \<Rightarrow> user \<Rightarrow> int \<Rightarrow> int \<Rightarrow> rule_update \<Rightarrow> db \<Rightarrow> db outcome" where
  "update_rule E re2 re_ok u source_id rule_id p d =
     bindO (editable_source d u source_id) (\<lambda>s.
     bindO (Some (rule_of_source d s rule_id)) (\<lambda>r.
     bindO (case ru_pattern p of
              None \<Rightarrow> Some (Inr (r_pattern r, r_kind r))
            | Some raw \<Rightarrow> Some (parse_pattern_or_400 re2 re_ok raw True)) (\<lambda>(pattern, kind).
     let r1 = r\<lparr>r_type := (case ru_type p of None \<Rightarrow> r_type r | Some t \<Rightarrow> t), r_pattern := pattern, r_kind := kind,
                r_notes := (case ru_notes p of None \<Rightarrow> r_notes r | Some n \<Rightarrow> n)\<rparr>;
         d1 = d\<lparr>rules := tbl_put r_id r1 (rules d)\<rparr>
     in Some (Inr (record_audit_event E d1 d1 (Some (u_id u)) ''rule.update'' (Some ''rule'') (Some rule_id)
               (Some [(''source_id'', JInt (s_id s))]))))))"

definition delete_rule :: "env \<Rightarrow> user \<Rightarrow> int \<Rightarrow> int \<Rightarrow> db \<Rightarrow> db outcome" where
  "delete_rule E u source_id rule_id d =
     bindO (editable_source d u source_id) (\<lambda>s.
     bindO (Some (rule_of_source d s rule_id)) (\<lambda>r.
     let d1 = d\<lparr>rules := tbl_del r_id rule_id (rules d)\<rparr>
     in Some (Inr (record_audit_event E d d1 (Some (u_id u)) ''rule.delete'' (Some ''rule'') (Some rule_id)
               (Some [(''source_id'', JInt (s_id s))])))))"

text \<open>\<open>set_order\<close> is the loop over \<open>enumerate(payload.rule_ids)\<close>; of an id given twice the last place counts.\<close>

definition set_order :: "int list \<Rightarrow> rule list \<Rightarrow> rule list" where
  "set_order rule_ids rs =
     fold (\<lambda>(index, rule_id). map (\<lambda>r. if r_id r = rule_id then r\<lparr>r_order := int index\<rparr> else r))
       (List.enumerate 0 rule_ids) rs"

definition reorder_rules :: "env \<Rightarrow> user \<Rightarrow> int \<Rightarrow> int list \<Rightarrow> db \<Rightarrow> db outcome" where
  "reorder_rules E u source_id rule_ids d =
     bindO (editable_source d u source_id) (\<lambda>s.
     bindO (Some (requireE (set rule_ids = r_id ` set (ordered_rules d (s_id s)))
              (HTTPException 400 ''rule_ids must be exactly the current rule ids of the source''))) (\<lambda>_.
     let d1 = d\<lparr>rules := set_order rule_ids (rules d)\<rparr>
     in Some (Inr (record_audit_event E d1 d1 (Some (u_id u)) ''rule.reorder'' (Some ''source'') (Some (s_id s)) None))))"

section \<open>A chain pasted as text\<close>

definition parse_raw_line :: "string \<Rightarrow> (rule_type \<times> string) option" where
  "parse_raw_line line =
     (let stripped = strip line in
      if stripped = '''' \<or> prefix ''#'' stripped then None
      else if prefix ''!'' stripped then Some (Exclude, strip (drop 1 stripped))
      else Some (Include, stripped))"

text \<open>The lines that are left, the first of them with its number; the first bad one ends it.\<close>

fun parse_raw_lines ::
  "re2_engine \<Rightarrow> (string \<Rightarrow> bool) \<Rightarrow> nat \<Rightarrow> string list \<Rightarrow> api_error + (rule_type \<times> string \<times> pattern_kind) list" where
  "parse_raw_lines re2 re_ok line_number [] = Inr []"
| "parse_raw_lines re2 re_ok line_number (line # rest) =
     (case parse_raw_line line of
        None \<Rightarrow> parse_raw_lines re2 re_ok (line_number + 1) rest
      | Some (t, raw) \<Rightarrow>
          (case parse_pattern re2 re_ok raw True of
             Inl p \<Rightarrow> Inl (HTTPException 400 (''line '' @ show_nat line_number @ '': invalid regex '' @ p))
           | Inr (pattern, kind) \<Rightarrow>
               bindE (parse_raw_lines re2 re_ok (line_number + 1) rest) (\<lambda>ps. Inr ((t, pattern, kind) # ps))))"

definition raw_rule :: "int \<Rightarrow> int \<Rightarrow> nat \<times> rule_type \<times> string \<times> pattern_kind \<Rightarrow> rule" where
  "raw_rule first_id source_id x =
     (case x of (n, t, pattern, kind) \<Rightarrow>
        \<lparr>r_id = first_id + int n, r_source_id = source_id, r_order = int n, r_type = t, r_pattern = pattern,
         r_kind = kind, r_notes = None\<rparr>)"

definition replace_rules_raw ::
  "env \<Rightarrow> re2_engine \<Rightarrow> (string \<Rightarrow> bool) \<Rightarrow> user \<Rightarrow> int \<Rightarrow> string \<Rightarrow> db \<Rightarrow> db outcome" where
  "replace_rules_raw E re2 re_ok u source_id body d =
     bindO (editable_source d u source_id) (\<lambda>s.
     bindO (Some (parse_raw_lines re2 re_ok 1 (split_lines [] body))) (\<lambda>parsed.
     let kept = filter (\<lambda>r. r_source_id r \<noteq> s_id s) (rules d);
         created = map (raw_rule (tbl_max r_id kept + 1) (s_id s)) (List.enumerate 0 parsed);
         d1 = d\<lparr>rules := kept @ created\<rparr>
     in Some (Inr (record_audit_event E d1 d1 (Some (u_id u)) ''rule.replace_raw'' (Some ''source'') (Some (s_id s))
               (Some [(''rule_count'', JInt (int (length created)))])))))"

section \<open>Severity patterns\<close>

definition effective_patterns :: "db \<Rightarrow> int \<Rightarrow> severity_pattern list" where
  "effective_patterns d source_id =
     (let own = filter (\<lambda>p. sp_source_id p = Some source_id) (severity_patterns d)
      in if own \<noteq> [] then own else filter (\<lambda>p. sp_source_id p = None) (severity_patterns d))"

text \<open>Level, words, \<open>highlight_line\<close> and \<open>include_in_navigation\<close>; every default is a regex of whole words.\<close>

definition whole_words :: "string \<Rightarrow> string" where
  "whole_words w = [CHR 0x5C, CHR ''b''] @ w @ [CHR 0x5C, CHR ''b'']"

definition default_global_patterns :: "(severity_level \<times> string \<times> bool \<times> bool) list" where
  "default_global_patterns =
     [(LevelError, ''re:'' @ whole_words ''(error|fatal|critical|panic)'', True, True),
      (LevelError, ''re:'' @ whole_words ''(exception|traceback)'', True, True),
      (LevelWarning, ''re:'' @ whole_words ''(warn|warning)'', False, True),
      (LevelInfo, ''re:'' @ whole_words ''info'', False, False),
      (LevelDebug, ''re:'' @ whole_words ''(debug|trace)'', False, False)]"

definition default_pattern :: "int \<Rightarrow> severity_level \<times> string \<times> bool \<times> bool \<Rightarrow> severity_pattern" where
  "default_pattern i spec =
     (case spec of (level, raw, highlight, navigate) \<Rightarrow>
        let regex = prefix ''re:'' raw
        in \<lparr>sp_id = i, sp_source_id = None, sp_level = level, sp_pattern = (if regex then drop 3 raw else raw),
            sp_kind = (if regex then Regex else Glob), sp_enabled = True, sp_highlight_line = highlight,
            sp_include_in_navigation = navigate\<rparr>)"

definition seed_default_global_patterns :: "db \<Rightarrow> db" where
  "seed_default_global_patterns d =
     (if find (\<lambda>p. sp_source_id p = None) (severity_patterns d) \<noteq> None then d
      else d\<lparr>severity_patterns := severity_patterns d @
             map (\<lambda>(n, spec). default_pattern (tbl_max sp_id (severity_patterns d) + 1 + int n) spec)
               (List.enumerate 0 default_global_patterns)\<rparr>)"

record pattern_create =
  pc_level :: severity_level
  pc_pattern :: string
  pc_enabled :: bool
  pc_highlight_line :: bool
  pc_include_in_navigation :: bool

record pattern_update =
  pp_level :: "severity_level option"
  pp_pattern :: "string option"
  pp_enabled :: "bool option"
  pp_highlight_line :: "bool option"
  pp_include_in_navigation :: "bool option"

definition given :: "'a option \<Rightarrow> 'a \<Rightarrow> 'a" where
  "given v old = (case v of None \<Rightarrow> old | Some x \<Rightarrow> x)"

definition apply_update ::
  "re2_engine \<Rightarrow> (string \<Rightarrow> bool) \<Rightarrow> pattern_update \<Rightarrow> severity_pattern \<Rightarrow> api_error + severity_pattern" where
  "apply_update re2 re_ok p x =
     bindE (case pp_pattern p of
              None \<Rightarrow> Inr (sp_pattern x, sp_kind x)
            | Some raw \<Rightarrow> parse_pattern_or_400 re2 re_ok raw False) (\<lambda>(pattern, kind).
     Inr (x\<lparr>sp_level := given (pp_level p) (sp_level x), sp_pattern := pattern, sp_kind := kind,
            sp_enabled := given (pp_enabled p) (sp_enabled x),
            sp_highlight_line := given (pp_highlight_line p) (sp_highlight_line x),
            sp_include_in_navigation := given (pp_include_in_navigation p) (sp_include_in_navigation x)\<rparr>))"

text \<open>
  The global and the per-source endpoints have the same bodies but for the scope: \<open>None\<close> is the global
  set, which needs the capability to manage settings, \<open>Some\<close> a source, which needs \<open>manage_rules\<close> on it.
\<close>

definition pattern_scope :: "db \<Rightarrow> user \<Rightarrow> int option \<Rightarrow> capability \<Rightarrow> unit outcome" where
  "pattern_scope d u scope cap =
     (case scope of
        None \<Rightarrow> Some (require_global_capability d u ManageSystemSettings)
      | Some i \<Rightarrow> bindO (require_capability d u i cap) (\<lambda>_. Some (Inr ())))"

definition scope_metadata :: "int option \<Rightarrow> (string \<times> json) list" where
  "scope_metadata scope =
     (case scope of
        None \<Rightarrow> [(''scope'', JStr ''global'')]
      | Some i \<Rightarrow> [(''scope'', JStr ''source''), (''source_id'', JInt i)])"

definition pattern_of_scope :: "db \<Rightarrow> int option \<Rightarrow> int \<Rightarrow> api_error + severity_pattern" where
  "pattern_of_scope d scope pattern_id =
     bindE (someE (not_found ''Pattern not found'') (tbl_get sp_id pattern_id (severity_patterns d))) (\<lambda>x.
     bindE (requireE (sp_source_id x = scope) (not_found ''Pattern not found'')) (\<lambda>_. Inr x))"

definition list_patterns :: "db \<Rightarrow> user \<Rightarrow> int option \<Rightarrow> severity_pattern list outcome" where
  "list_patterns d u scope =
     bindO (pattern_scope d u scope ManageRules) (\<lambda>_.
     Some (Inr (filter (\<lambda>p. sp_source_id p = scope) (severity_patterns d))))"

definition get_effective_patterns :: "db \<Rightarrow> user \<Rightarrow> int \<Rightarrow> severity_pattern list outcome" where
  "get_effective_patterns d u source_id =
     bindO (pattern_scope d u (Some source_id) View) (\<lambda>_. Some (Inr (effective_patterns d source_id)))"

definition create_pattern ::
  "env \<Rightarrow> re2_engine \<Rightarrow> (string \<Rightarrow> bool) \<Rightarrow> user \<Rightarrow> int option \<Rightarrow> pattern_create \<Rightarrow> db \<Rightarrow> db outcome" where
  "create_pattern E re2 re_ok u scope p d =
     bindO (pattern_scope d u scope ManageRules) (\<lambda>_.
     bindO (Some (parse_pattern_or_400 re2 re_ok (pc_pattern p) False)) (\<lambda>(pattern, kind).
     let x = \<lparr>sp_id = tbl_max sp_id (severity_patterns d) + 1, sp_source_id = scope, sp_level = pc_level p,
              sp_pattern = pattern, sp_kind = kind, sp_enabled = pc_enabled p,
              sp_highlight_line = pc_highlight_line p, sp_include_in_navigation = pc_include_in_navigation p\<rparr>;
         d1 = d\<lparr>severity_patterns := severity_patterns d @ [x]\<rparr>
     in Some (Inr (record_audit_event E d1 d1 (Some (u_id u)) ''severity_pattern.create'' (Some ''severity_pattern'')
               (Some (sp_id x)) (Some (scope_metadata scope @ [(''level'', JStr (level_value (pc_level p)))]))))))"

definition update_pattern ::
  "env \<Rightarrow> re2_engine \<Rightarrow> (string \<Rightarrow> bool) \<Rightarrow> user \<Rightarrow> int option \<Rightarrow> int \<Rightarrow> pattern_update \<Rightarrow> db \<Rightarrow> db outcome" where
  "update_pattern E re2 re_ok u scope pattern_id p d =
     bindO (pattern_scope d u scope ManageRules) (\<lambda>_.
     bindO (Some (pattern_of_scope d scope pattern_id)) (\<lambda>x.
     bindO (Some (apply_update re2 re_ok p x)) (\<lambda>x1.
     let d1 = d\<lparr>severity_patterns := tbl_put sp_id x1 (severity_patterns d)\<rparr>
     in Some (Inr (record_audit_event E d1 d1 (Some (u_id u)) ''severity_pattern.update'' (Some ''severity_pattern'')
               (Some pattern_id) (Some (scope_metadata scope)))))))"

definition delete_pattern :: "env \<Rightarrow> user \<Rightarrow> int option \<Rightarrow> int \<Rightarrow> db \<Rightarrow> db outcome" where
  "delete_pattern E u scope pattern_id d =
     bindO (pattern_scope d u scope ManageRules) (\<lambda>_.
     bindO (Some (pattern_of_scope d scope pattern_id)) (\<lambda>x.
     let d1 = d\<lparr>severity_patterns := tbl_del sp_id pattern_id (severity_patterns d)\<rparr>
     in Some (Inr (record_audit_event E d d1 (Some (u_id u)) ''severity_pattern.delete'' (Some ''severity_pattern'')
               (Some pattern_id) (Some (scope_metadata scope))))))"

section \<open>The machine\<close>

datatype rule_op =
    CreateRule rule_create
  | UpdateRule int rule_update
  | DeleteRule int
  | ReorderRules "int list"
  | ReplaceRulesRaw string
  | CreatePattern "int option" pattern_create
  | UpdatePattern "int option" int pattern_update
  | DeletePattern "int option" int

text \<open>A request comes from an account; those on rules name a source in the path.\<close>

fun exec_rule ::
  "env \<Rightarrow> re2_engine \<Rightarrow> (string \<Rightarrow> bool) \<Rightarrow> user \<times> int \<times> rule_op \<Rightarrow> db \<Rightarrow> api_error option + db" where
  "exec_rule E re2 re_ok (u, i, CreateRule p) d = result_of (create_rule E re2 re_ok u i p d)"
| "exec_rule E re2 re_ok (u, i, UpdateRule r p) d = result_of (update_rule E re2 re_ok u i r p d)"
| "exec_rule E re2 re_ok (u, i, DeleteRule r) d = result_of (delete_rule E u i r d)"
| "exec_rule E re2 re_ok (u, i, ReorderRules ids) d = result_of (reorder_rules E u i ids d)"
| "exec_rule E re2 re_ok (u, i, ReplaceRulesRaw body) d = result_of (replace_rules_raw E re2 re_ok u i body d)"
| "exec_rule E re2 re_ok (u, i, CreatePattern scope p) d = result_of (create_pattern E re2 re_ok u scope p d)"
| "exec_rule E re2 re_ok (u, i, UpdatePattern scope x p) d = result_of (update_pattern E re2 re_ok u scope x p d)"
| "exec_rule E re2 re_ok (u, i, DeletePattern scope x) d = result_of (delete_pattern E u scope x d)"

text \<open>
  What the table of rules keeps: unique ids, in every source one rule per place in the order, and no
  regex the engine cannot run.
\<close>

definition rules_inv :: "re2_engine \<Rightarrow> db \<Rightarrow> bool" where
  "rules_inv re2 d \<longleftrightarrow>
     distinct (map r_id (rules d)) \<and>
     distinct (map (\<lambda>r. (r_source_id r, r_order r)) (rules d)) \<and>
     list_all (\<lambda>r. r_kind r = Regex \<longrightarrow> re2 (r_pattern r) False \<noteq> None) (rules d)"

section \<open>One operation on the table\<close>

lemma distinct_mapI:
  "distinct xs \<Longrightarrow> (\<And>x y. x \<in> set xs \<Longrightarrow> y \<in> set xs \<Longrightarrow> f x = f y \<Longrightarrow> x = y) \<Longrightarrow> distinct (map f xs)"
  by (auto simp: distinct_map inj_on_def)

lemma rules_invI:
  assumes "distinct (map r_id rs)" "distinct (map (\<lambda>r. (r_source_id r, r_order r)) rs)"
    and "\<And>r. r \<in> set rs \<Longrightarrow> r_kind r = Regex \<Longrightarrow> re2 (r_pattern r) False \<noteq> None" "rules d = rs"
  shows "rules_inv re2 d"
  using assms by (simp add: rules_inv_def list_all_iff)

lemma rules_invD:
  assumes "rules_inv re2 d"
  shows "distinct (map r_id (rules d))" "distinct (map (\<lambda>r. (r_source_id r, r_order r)) (rules d))"
    "\<And>r. r \<in> set (rules d) \<Longrightarrow> r_kind r = Regex \<Longrightarrow> re2 (r_pattern r) False \<noteq> None"
  using assms by (simp_all add: rules_inv_def list_all_iff)

lemma parsed_regex_runs: "parse_pattern re2 re_ok raw True = Inr (p, Regex) \<Longrightarrow> re2 p False \<noteq> None"
  by (auto simp: parse_pattern_def Let_def split: if_splits)

lemma parse_or_400_Inr [simp]:
  "parse_pattern_or_400 re2 re_ok raw b = Inr r \<longleftrightarrow> parse_pattern re2 re_ok raw b = Inr r"
  by (simp add: parse_pattern_or_400_def split: sum.splits)

lemma ordered_set [simp]: "set (ordered_rules d i) = {r \<in> set (rules d). r_source_id r = i}"
  by (auto simp: ordered_rules_def rules_for_def)

lemma last_of_order:
  assumes "r \<in> set (rules d)" "r_source_id r = i"
  shows "ordered_rules d i \<noteq> [] \<and> r_order r \<le> r_order (last (ordered_rules d i))"
proof -
  let ?os = "ordered_rules d i"
  have r: "r \<in> set ?os" using assms by simp
  then have ne: "?os \<noteq> []" by (metis empty_iff list.set(1))
  then obtain xs x where xs: "?os = xs @ [x]" by (cases ?os rule: rev_cases) auto
  have "sorted (map r_order ?os)" by (simp add: ordered_rules_def)
  then have "\<forall>y \<in> set xs. r_order y \<le> r_order x" by (simp add: xs sorted_append)
  with r ne show ?thesis by (auto simp: xs)
qed

lemma editable_source_Inr:
  "editable_source d u i = Some (Inr s) \<Longrightarrow>
     require_capability d u i ManageRules = Some (Inr s) \<and> \<not> s_is_system s \<and> s_id s = i"
  by (auto simp: editable_source_def bindO_Inr_iff require_editable_rules_def require_capability_def dest: tbl_get_Some split: if_splits)

lemma create_rule_Inr:
  assumes "create_rule E re2 re_ok u i p d = Some (Inr d')"
  obtains s r where "editable_source d u i = Some (Inr s)" "rules d' = rules d @ [r]" "r_id r = tbl_max r_id (rules d) + 1"
    "r_source_id r = i" "\<forall>x \<in> set (rules d). r_source_id x = i \<longrightarrow> r_order x < r_order r"
    "r_kind r = Regex \<longrightarrow> re2 (r_pattern r) False \<noteq> None"
proof -
  from assms obtain s pattern kind where s: "editable_source d u i = Some (Inr s)"
    and p: "parse_pattern re2 re_ok (rc_pattern p) True = Inr (pattern, kind)"
    and d': "rules d' = rules d @ [\<lparr>r_id = tbl_max r_id (rules d) + 1, r_source_id = s_id s,
       r_order = (if ordered_rules d (s_id s) = [] then 0 else r_order (last (ordered_rules d (s_id s))) + 1),
       r_type = rc_type p, r_pattern = pattern, r_kind = kind, r_notes = rc_notes p\<rparr>]" (is "_ = _ @ [?r]")
    by (auto simp: create_rule_def bindO_Inr_iff Let_def)
  have i: "s_id s = i" using editable_source_Inr [OF s] by simp
  have "\<forall>x \<in> set (rules d). r_source_id x = i \<longrightarrow> r_order x < r_order ?r"
  proof (intro ballI impI)
    fix x assume "x \<in> set (rules d)" "r_source_id x = i"
    from last_of_order [OF this] show "r_order x < r_order ?r" by (simp add: i)
  qed
  moreover have "r_kind ?r = Regex \<longrightarrow> re2 (r_pattern ?r) False \<noteq> None"
    using p by (auto dest: parsed_regex_runs)
  ultimately show ?thesis using s d' by (intro that [of s ?r]) (simp_all add: i)
qed

lemma rule_of_source_Inr:
  "rule_of_source d s i = Inr r \<Longrightarrow> r \<in> set (rules d) \<and> r_id r = i \<and> r_source_id r = s_id s"
  by (auto simp: rule_of_source_def bindE_Inr_iff dest: tbl_get_Some)

lemma update_rule_Inr:
  assumes "update_rule E re2 re_ok u i rid p d = Some (Inr d')"
  obtains s r r1 where "editable_source d u i = Some (Inr s)" "r \<in> set (rules d)" "r_source_id r = i" "r_id r = rid"
    "rules d' = tbl_put r_id r1 (rules d)" "r_id r1 = rid" "r_source_id r1 = i" "r_order r1 = r_order r"
    "r_kind r1 = Regex \<longrightarrow> re2 (r_pattern r1) False \<noteq> None \<or> r_pattern r1 = r_pattern r \<and> r_kind r = Regex"
proof -
  from assms obtain s r pattern kind where s: "editable_source d u i = Some (Inr s)" and r: "rule_of_source d s rid = Inr r"
    and p: "(case ru_pattern p of None \<Rightarrow> Some (Inr (r_pattern r, r_kind r))
         | Some raw \<Rightarrow> Some (parse_pattern_or_400 re2 re_ok raw True)) = Some (Inr (pattern, kind))"
    and d': "rules d' = tbl_put r_id (r\<lparr>r_type := (case ru_type p of None \<Rightarrow> r_type r | Some t \<Rightarrow> t), r_pattern := pattern,
        r_kind := kind, r_notes := (case ru_notes p of None \<Rightarrow> r_notes r | Some n \<Rightarrow> n)\<rparr>) (rules d)" (is "_ = tbl_put _ ?r1 _")
    by (auto simp: update_rule_def bindO_Inr_iff Let_def)
  have i: "s_id s = i" using editable_source_Inr [OF s] by simp
  have "kind = Regex \<longrightarrow> re2 pattern False \<noteq> None \<or> pattern = r_pattern r \<and> r_kind r = Regex"
    using p by (auto dest: parsed_regex_runs split: option.splits)
  with s r rule_of_source_Inr [OF r] d' show ?thesis by (intro that [of s r ?r1]) (simp_all add: i)
qed

lemma delete_rule_Inr:
  assumes "delete_rule E u i rid d = Some (Inr d')"
  obtains s r where "editable_source d u i = Some (Inr s)" "rules d' = tbl_del r_id rid (rules d)" "r \<in> set (rules d)"
    "r_id r = rid" "r_source_id r = i"
proof -
  from assms obtain s r where s: "editable_source d u i = Some (Inr s)" and r: "rule_of_source d s rid = Inr r"
    and d': "rules d' = tbl_del r_id rid (rules d)"
    by (auto simp: delete_rule_def bindO_Inr_iff Let_def)
  with rule_of_source_Inr [OF r] editable_source_Inr [OF s] show ?thesis by (intro that [of s r]) simp_all
qed

lemma reorder_rules_Inr:
  assumes "reorder_rules E u i ids d = Some (Inr d')"
  obtains s where "editable_source d u i = Some (Inr s)" "set ids = r_id ` {r \<in> set (rules d). r_source_id r = i}"
    "rules d' = set_order ids (rules d)"
proof -
  from assms obtain s where s: "editable_source d u i = Some (Inr s)"
    and "set ids = r_id ` set (ordered_rules d (s_id s))" "rules d' = set_order ids (rules d)"
    by (auto simp: reorder_rules_def bindO_Inr_iff Let_def)
  with editable_source_Inr [OF s] show ?thesis by (intro that [of s]) simp_all
qed

lemma replace_rules_raw_Inr:
  assumes "replace_rules_raw E re2 re_ok u i body d = Some (Inr d')"
  obtains s ps where "editable_source d u i = Some (Inr s)" "parse_raw_lines re2 re_ok 1 (split_lines [] body) = Inr ps"
    "rules d' = filter (\<lambda>r. r_source_id r \<noteq> i) (rules d) @
       map (raw_rule (tbl_max r_id (filter (\<lambda>r. r_source_id r \<noteq> i) (rules d)) + 1) i) (List.enumerate 0 ps)"
proof -
  from assms obtain s ps where s: "editable_source d u i = Some (Inr s)"
    and "parse_raw_lines re2 re_ok 1 (split_lines [] body) = Inr ps"
    and "rules d' = filter (\<lambda>r. r_source_id r \<noteq> s_id s) (rules d) @
       map (raw_rule (tbl_max r_id (filter (\<lambda>r. r_source_id r \<noteq> s_id s) (rules d)) + 1) (s_id s)) (List.enumerate 0 ps)"
    by (auto simp: replace_rules_raw_def bindO_Inr_iff Let_def)
  with editable_source_Inr [OF s] show ?thesis by (intro that [of s ps]) simp_all
qed

section \<open>Reordering\<close>

lemma set_order_snoc:
  "set_order (ids @ [i]) rs = map (\<lambda>r. if r_id r = i then r\<lparr>r_order := int (length ids)\<rparr> else r) (set_order ids rs)"
  by (simp add: set_order_def enumerate_append_eq)

lemma set_order_map:
  "\<exists>f. (\<forall>i \<in> set ids. f i < length ids \<and> ids ! f i = i) \<and>
     set_order ids rs = map (\<lambda>r. if r_id r \<in> set ids then r\<lparr>r_order := int (f (r_id r))\<rparr> else r) rs"
proof (induction ids rule: rev_induct)
  case Nil
  then show ?case by (simp add: set_order_def)
next
  case (snoc i ids)
  then obtain f where f: "\<forall>i \<in> set ids. f i < length ids \<and> ids ! f i = i"
    "set_order ids rs = map (\<lambda>r. if r_id r \<in> set ids then r\<lparr>r_order := int (f (r_id r))\<rparr> else r) rs" by blast
  let ?f = "f(i := length ids)"
  have "\<forall>j \<in> set (ids @ [i]). ?f j < length (ids @ [i]) \<and> (ids @ [i]) ! ?f j = j"
    using f(1) by (auto simp: nth_append less_Suc_eq)
  moreover have "set_order (ids @ [i]) rs =
      map (\<lambda>r. if r_id r \<in> set (ids @ [i]) then r\<lparr>r_order := int (?f (r_id r))\<rparr> else r) rs"
    by (simp add: set_order_snoc f(2))
  ultimately show ?case by blast
qed

lemma set_order_inv:
  assumes "rules_inv re2 d" "set ids = r_id ` {r \<in> set (rules d). r_source_id r = i}" "rules d' = set_order ids (rules d)"
  shows "rules_inv re2 d'"
proof -
  note inv = rules_invD [OF assms(1)]
  obtain f where f: "\<forall>i \<in> set ids. f i < length ids \<and> ids ! f i = i"
    "rules d' = map (\<lambda>r. if r_id r \<in> set ids then r\<lparr>r_order := int (f (r_id r))\<rparr> else r) (rules d)"
    (is "_ = map ?g _") using set_order_map [of ids "rules d"] unfolding assms(3) [symmetric] by blast
  have keep: "r_id (?g r) = r_id r" "r_source_id (?g r) = r_source_id r" "r_pattern (?g r) = r_pattern r" "r_kind (?g r) = r_kind r" for r
    by simp_all
  have in_ids: "r_id r \<in> set ids \<longleftrightarrow> r_source_id r = i" if "r \<in> set (rules d)" for r
    using that same_id [OF inv(1)] unfolding assms(2) by auto
  have order: "r_order (?g r) = (if r_source_id r = i then int (f (r_id r)) else r_order r)" if "r \<in> set (rules d)" for r
    using in_ids [OF that] by simp
  have uniq: "x = y" if xy: "x \<in> set (rules d)" "y \<in> set (rules d)" "r_source_id x = r_source_id y"
    "r_order (?g x) = r_order (?g y)" for x y
  proof (cases "r_source_id x = i")
    case True
    with xy order have "f (r_id x) = f (r_id y)" by (metis of_nat_eq_iff)
    then have "r_id x = r_id y" using f(1) in_ids xy(1-3) True by metis
    with same_id [OF inv(1)] xy(1,2) show ?thesis by blast
  next
    case False
    with xy order same_id [OF inv(2) xy(1,2)] show ?thesis by simp
  qed
  have "distinct (map (\<lambda>r. (r_source_id (?g r), r_order (?g r))) (rules d))"
  proof (rule distinct_mapI)
    show "distinct (rules d)" using inv(1) by (simp add: distinct_map)
    fix x y assume xy: "x \<in> set (rules d)" "y \<in> set (rules d)"
      and "(r_source_id (?g x), r_order (?g x)) = (r_source_id (?g y), r_order (?g y))"
    then have "r_source_id x = r_source_id y" "r_order (?g x) = r_order (?g y)" unfolding keep prod.inject by blast+
    with xy show "x = y" by (rule uniq)
  qed
  then have "distinct (map (\<lambda>r. (r_source_id r, r_order r)) (rules d'))" by (simp add: f(2) comp_def)
  moreover have "distinct (map r_id (rules d'))" using inv(1) by (simp add: f(2) comp_def keep)
  ultimately show ?thesis using inv(3) by (intro rules_invI [of "rules d'"]) (auto simp: f(2))
qed

section \<open>Every operation keeps the invariant\<close>

lemma create_rule_inv:
  assumes "rules_inv re2 d" "create_rule E re2 re_ok u i p d = Some (Inr d')"
  shows "rules_inv re2 d'"
proof -
  note inv = rules_invD [OF assms(1)]
  from assms(2) obtain s r where r: "rules d' = rules d @ [r]" "r_id r = tbl_max r_id (rules d) + 1"
    "r_source_id r = i" "\<forall>x \<in> set (rules d). r_source_id x = i \<longrightarrow> r_order x < r_order r"
    "r_kind r = Regex \<longrightarrow> re2 (r_pattern r) False \<noteq> None" by (rule create_rule_Inr)
  have "r_id r \<notin> r_id ` set (rules d)" using r(2) tbl_max_ge [of _ "rules d" r_id] by force
  moreover have "(r_source_id r, r_order r) \<notin> (\<lambda>r. (r_source_id r, r_order r)) ` set (rules d)"
    using r(3,4) by fastforce
  ultimately show ?thesis using inv r(5) by (intro rules_invI [OF _ _ _ r(1)]) auto
qed

lemma map_put_same:
  assumes "distinct (map key rs)" "r \<in> set rs" "key r1 = key r" "g r1 = g r"
  shows "map g (tbl_put key r1 rs) = map g rs"
proof -
  have "(if key x = key r1 then r1 else x) = x \<or> x = r" if "x \<in> set rs" for x
    using same_id [OF assms(1) that assms(2)] assms(3) by auto
  then have "g (if key x = key r1 then r1 else x) = g x" if "x \<in> set rs" for x using that assms(3,4) by fastforce
  then show ?thesis by (simp add: tbl_put_def)
qed

lemma update_rule_inv:
  assumes "rules_inv re2 d" "update_rule E re2 re_ok u i rid p d = Some (Inr d')"
  shows "rules_inv re2 d'"
proof -
  note inv = rules_invD [OF assms(1)]
  from assms(2) obtain s r r1 where r: "r \<in> set (rules d)" "r_source_id r = i" "r_id r = rid"
    "rules d' = tbl_put r_id r1 (rules d)" "r_id r1 = rid" "r_source_id r1 = i" "r_order r1 = r_order r"
    "r_kind r1 = Regex \<longrightarrow> re2 (r_pattern r1) False \<noteq> None \<or> r_pattern r1 = r_pattern r \<and> r_kind r = Regex"
    by (rule update_rule_Inr)
  show ?thesis
  proof (rule rules_invI [OF _ _ _ r(4)])
    show "distinct (map r_id (tbl_put r_id r1 (rules d)))" using inv(1) by simp
    show "distinct (map (\<lambda>r. (r_source_id r, r_order r)) (tbl_put r_id r1 (rules d)))"
      using inv(2) map_put_same [OF inv(1) r(1), of r1 "\<lambda>r. (r_source_id r, r_order r)"] r by simp
    fix x assume "x \<in> set (tbl_put r_id r1 (rules d))" "r_kind x = Regex"
    then show "re2 (r_pattern x) False \<noteq> None"
      using inv(3) r(1,8) by (auto simp: tbl_put_def split: if_splits)
  qed
qed

lemma delete_rule_inv:
  assumes "rules_inv re2 d" "delete_rule E u i rid d = Some (Inr d')"
  shows "rules_inv re2 d'"
proof -
  note inv = rules_invD [OF assms(1)]
  from assms(2) obtain s r where d': "rules d' = tbl_del r_id rid (rules d)" by (rule delete_rule_Inr)
  show ?thesis
    using inv by (intro rules_invI [OF _ _ _ d']) (auto simp: tbl_del_def distinct_map_filter)
qed

lemma parse_raw_lines_regex:
  "parse_raw_lines re2 re_ok n lines = Inr ps \<Longrightarrow> (t, p, Regex) \<in> set ps \<Longrightarrow> re2 p False \<noteq> None"
proof (induction re2 re_ok n lines arbitrary: ps rule: parse_raw_lines.induct)
  case (2 re2 re_ok n line rest)
  from 2(3,4) 2(1) 2(2) parsed_regex_runs show ?case
    by (fastforce simp: bindE_Inr_iff split: option.splits sum.splits prod.splits)
qed simp

lemma raw_rule_simps [simp]:
  "r_id (raw_rule f i (n, x)) = f + int n" "r_source_id (raw_rule f i (n, x)) = i" "r_order (raw_rule f i (n, x)) = int n"
  "r_type (raw_rule f i (n, x)) = fst x" "r_pattern (raw_rule f i (n, x)) = fst (snd x)" "r_kind (raw_rule f i (n, x)) = snd (snd x)"
  by (simp_all add: raw_rule_def split: prod.splits)

lemma raw_rules_map:
  assumes "\<And>n x. g (raw_rule f i (n, x)) = h n"
  shows "map g (map (raw_rule f i) (List.enumerate m ps)) = map h [m..<m + length ps]"
proof -
  have "map g (map (raw_rule f i) (List.enumerate m ps)) = map (\<lambda>p. h (fst p)) (List.enumerate m ps)"
    using assms by (auto intro: prod.exhaust)
  also have "\<dots> = map h (map fst (List.enumerate m ps))" by (simp add: comp_def del: map_fst_enumerate)
  finally show ?thesis by simp
qed

lemma replace_rules_raw_inv:
  assumes "rules_inv re2 d" "replace_rules_raw E re2 re_ok u i body d = Some (Inr d')"
  shows "rules_inv re2 d'"
proof -
  note inv = rules_invD [OF assms(1)]
  let ?kept = "filter (\<lambda>r. r_source_id r \<noteq> i) (rules d)"
  from assms(2) obtain s ps where ps: "parse_raw_lines re2 re_ok 1 (split_lines [] body) = Inr ps"
    and d': "rules d' = ?kept @ map (raw_rule (tbl_max r_id ?kept + 1) i) (List.enumerate 0 ps)" (is "_ = _ @ ?new")
    by (rule replace_rules_raw_Inr)
  have ids: "map r_id ?new = map (\<lambda>n. tbl_max r_id ?kept + 1 + int n) [0..<length ps]"
    using raw_rules_map [of r_id "tbl_max r_id ?kept + 1" i _ 0 ps] by simp
  have orders: "map (\<lambda>r. (r_source_id r, r_order r)) ?new = map (\<lambda>n. (i, int n)) [0..<length ps]"
    using raw_rules_map [of "\<lambda>r. (r_source_id r, r_order r)" "tbl_max r_id ?kept + 1" i _ 0 ps] by simp
  show ?thesis
  proof (rule rules_invI [OF _ _ _ d'])
    have "distinct (map r_id ?new)" unfolding ids by (simp add: distinct_map inj_on_def)
    moreover have "r_id ` set ?kept \<inter> set (map r_id ?new) = {}"
      unfolding ids using tbl_max_ge [of _ ?kept r_id] by fastforce
    ultimately show "distinct (map r_id (?kept @ ?new))" using inv(1) by (simp add: distinct_map_filter)
    have "distinct (map (\<lambda>r. (r_source_id r, r_order r)) ?new)" unfolding orders by (simp add: distinct_map inj_on_def)
    moreover have "(\<lambda>r. (r_source_id r, r_order r)) ` set ?kept \<inter> set (map (\<lambda>r. (r_source_id r, r_order r)) ?new) = {}"
      unfolding orders by auto
    ultimately show "distinct (map (\<lambda>r. (r_source_id r, r_order r)) (?kept @ ?new))"
      using inv(2) by (simp add: distinct_map_filter)
    fix r assume r: "r \<in> set (?kept @ ?new)" "r_kind r = Regex"
    show "re2 (r_pattern r) False \<noteq> None"
    proof (cases "r \<in> set ?kept")
      case False
      with r(1) obtain n t p k where "(n, t, p, k) \<in> set (List.enumerate 0 ps)" "r = raw_rule (tbl_max r_id ?kept + 1) i (n, t, p, k)"
        by auto
      then have "(t, p, k) \<in> set ps" by (metis image_eqI list.set_map map_snd_enumerate snd_conv)
      moreover have "k = Regex" "r_pattern r = p" using r(2) \<open>r = _\<close> by simp_all
      ultimately have "(t, p, Regex) \<in> set ps" "r_pattern r = p" by simp_all
      with parse_raw_lines_regex [OF ps] show ?thesis by simp
    qed (use inv(3) r(2) in auto)
  qed
qed

lemma patterns_keep_rules:
  "create_pattern E re2 re_ok u scope c d = Some (Inr d') \<Longrightarrow> rules d' = rules d"
  "update_pattern E re2 re_ok u scope x p d = Some (Inr d') \<Longrightarrow> rules d' = rules d"
  "delete_pattern E u scope x d = Some (Inr d') \<Longrightarrow> rules d' = rules d"
  by (auto simp: create_pattern_def update_pattern_def delete_pattern_def bindO_Inr_iff Let_def)

lemma exec_rule_inv:
  assumes "rules_inv re2 d" "exec_rule E re2 re_ok x d = Inr d'"
  shows "rules_inv re2 d'"
proof -
  obtain u i op where x: "x = (u, i, op)" by (cases x)
  show ?thesis
  proof (cases op)
    case (ReorderRules ids)
    with assms(2) x have "reorder_rules E u i ids d = Some (Inr d')" by simp
    then obtain s where "set ids = r_id ` {r \<in> set (rules d). r_source_id r = i}" "rules d' = set_order ids (rules d)"
      by (rule reorder_rules_Inr)
    with assms(1) show ?thesis by (rule set_order_inv)
  next
    case (CreatePattern scope p)
    with assms x patterns_keep_rules(1) [of E re2 re_ok u scope p d d'] show ?thesis by (simp add: rules_inv_def)
  next
    case (UpdatePattern scope y p)
    with assms x patterns_keep_rules(2) [of E re2 re_ok u scope y p d d'] show ?thesis by (simp add: rules_inv_def)
  next
    case (DeletePattern scope y)
    with assms x patterns_keep_rules(3) [of E u scope y d d'] show ?thesis by (simp add: rules_inv_def)
  next
    case (CreateRule p)
    with assms(2) x have "create_rule E re2 re_ok u i p d = Some (Inr d')" by simp
    with assms(1) show ?thesis by (rule create_rule_inv)
  next
    case (UpdateRule r p)
    with assms(2) x have "update_rule E re2 re_ok u i r p d = Some (Inr d')" by simp
    with assms(1) show ?thesis by (rule update_rule_inv)
  next
    case (DeleteRule r)
    with assms(2) x have "delete_rule E u i r d = Some (Inr d')" by simp
    with assms(1) show ?thesis by (rule delete_rule_inv)
  next
    case (ReplaceRulesRaw body)
    with assms(2) x have "replace_rules_raw E re2 re_ok u i body d = Some (Inr d')" by simp
    with assms(1) show ?thesis by (rule replace_rules_raw_inv)
  qed
qed

interpretation rch: guarded_machine "exec_rule E re2 re_ok" "rules_inv re2" for E re2 re_ok
  by unfold_locales (rule exec_rule_inv)

section \<open>What a pasted text decides\<close>

text \<open>A line that is a rule, and one that matches a path.\<close>

definition line_hits :: "re2_engine \<Rightarrow> bool \<Rightarrow> string \<Rightarrow> string \<Rightarrow> bool" where
  "line_hits re2 ic path line =
     (case parse_raw_line line of
        None \<Rightarrow> False
      | Some (t, raw) \<Rightarrow>
          if prefix ''re:'' raw then (case re2 (drop 3 raw) ic of None \<Rightarrow> t = Exclude | Some search \<Rightarrow> search path)
          else glob_match ic raw path)"

definition line_shows :: "string \<Rightarrow> bool" where
  "line_shows line = (case parse_raw_line line of None \<Rightarrow> False | Some (t, raw) \<Rightarrow> t = Include)"

lemma sort_key_sorted: "sorted (map f xs) \<Longrightarrow> sort_key f xs = xs" for f :: "'r \<Rightarrow> int"
  by (induction xs) (auto simp: insort_is_Cons)

lemma fold_last_iff:
  "fold (\<lambda>l v. if hits l then shows l else v) ls False \<longleftrightarrow>
     (\<exists>xs l ys. ls = xs @ l # ys \<and> hits l \<and> shows l \<and> list_all (\<lambda>y. \<not> hits y) ys)"
proof -
  have "find hits (rev ls) = Some l" if "ls = xs @ l # ys" "hits l" "list_all (\<lambda>y. \<not> hits y) ys" for xs l ys
  proof -
    have "find hits (rev ys) = None" using that(3) by (simp add: find_None_iff list_all_iff)
    with that(1,2) show ?thesis by (simp add: find_append)
  qed
  moreover have "\<exists>xs ys. ls = xs @ l # ys \<and> hits l \<and> list_all (\<lambda>y. \<not> hits y) ys" if "find hits (rev ls) = Some l" for l
    using find_decompose [OF that] by (simp add: list_all_iff)
  ultimately show ?thesis unfolding fold_last_match by (fastforce split: option.splits)
qed

lemma parsed_rule_matches:
  assumes "parse_raw_line line = Some (t, raw)" "parse_pattern re2 re_ok raw True = Inr (pattern, kind)"
  shows "rule_matches re2 ic path (raw_rule f i (n, t, pattern, kind)) = line_hits re2 ic path line"
    and "(r_type (raw_rule f i (n, t, pattern, kind)) = Include) = line_shows line"
  using assms
  by (auto simp: rule_matches_def line_hits_def line_shows_def parse_pattern_def Let_def split: if_splits option.splits)

lemma parse_raw_lines_fold:
  "parse_raw_lines re2 re_ok n lines = Inr ps \<Longrightarrow>
   fold (\<lambda>r v. if rule_matches re2 ic path r then r_type r = Include else v) (map (raw_rule f i) (List.enumerate m ps)) v =
   fold (\<lambda>l v. if line_hits re2 ic path l then line_shows l else v) lines v"
proof (induction re2 re_ok n lines arbitrary: ps m v rule: parse_raw_lines.induct)
  case (2 re2 re_ok n line rest)
  show ?case
  proof (cases "parse_raw_line line")
    case None
    with 2(1) 2(3) show ?thesis by (simp add: line_hits_def)
  next
    case (Some x)
    obtain t raw where x: "x = (t, raw)" by (cases x)
    with Some 2(3) obtain pattern kind qs where q: "parse_pattern re2 re_ok raw True = Inr (pattern, kind)"
      "parse_raw_lines re2 re_ok (n + 1) rest = Inr qs" "ps = (t, pattern, kind) # qs"
      by (auto simp: bindE_Inr_iff split: sum.splits)
    note hit = parsed_rule_matches [OF Some [unfolded x] q(1)]
    from 2(2) [OF Some x [symmetric] q(1) refl q(2), of "Suc m"] show ?thesis
      by (simp only: q(3) enumerate_simps list.map fold.simps hit comp_def)
  qed
qed simp

lemma pasted_rules:
  assumes "replace_rules_raw E re2 re_ok u i body d = Some (Inr d')"
  obtains f ps where "parse_raw_lines re2 re_ok 1 (split_lines [] body) = Inr ps"
    "ordered_rules d' i = map (raw_rule f i) (List.enumerate 0 ps)"
    "sort_key r_order (rules_for d' i) = map (raw_rule f i) (List.enumerate 0 ps)"
proof -
  let ?kept = "filter (\<lambda>r. r_source_id r \<noteq> i) (rules d)"
  from assms obtain s ps where ps: "parse_raw_lines re2 re_ok 1 (split_lines [] body) = Inr ps"
    and d': "rules d' = ?kept @ map (raw_rule (tbl_max r_id ?kept + 1) i) (List.enumerate 0 ps)" (is "_ = _ @ ?new")
    by (rule replace_rules_raw_Inr)
  have "filter (\<lambda>r. r_source_id r = i) ?new = ?new" by (auto simp: filter_id_conv raw_rule_def)
  then have new: "rules_for d' i = ?new" by (simp add: rules_for_def d')
  have "sorted (map r_order ?new)"
    using raw_rules_map [of r_order "tbl_max r_id ?kept + 1" i int 0 ps] by (simp add: sorted_iff_nth_mono)
  then have "sort_key r_order ?new = ?new" by (rule sort_key_sorted)
  with ps new show ?thesis by (intro that) (simp_all add: ordered_rules_def)
qed

section \<open>Writing a chain as text\<close>

definition raw_line :: "rule \<Rightarrow> string" where
  "raw_line r = (if r_type r = Exclude then ''!'' else '''') @ (if r_kind r = Regex then ''re:'' else '''') @ r_pattern r"

definition raw_text :: "rule list \<Rightarrow> string" where
  "raw_text rs = concat (map (\<lambda>r. raw_line r @ [CHR 0x0A]) rs)"

text \<open>What a line can say: no line break, no space around it, and a mark at its start only as a mark.\<close>

definition writable :: "rule \<Rightarrow> bool" where
  "writable r \<longleftrightarrow>
     (let raw = (if r_kind r = Regex then ''re:'' else '''') @ r_pattern r in
      raw \<noteq> '''' \<and> strip raw = raw \<and> list_all (\<lambda>c. \<not> is_linebreak c) raw \<and>
      (r_type r = Include \<longrightarrow> \<not> prefix ''#'' raw \<and> \<not> prefix ''!'' raw) \<and>
      (r_kind r = Glob \<longrightarrow> \<not> prefix ''re:'' raw))"

lemma split_lines_newline:
  "list_all (\<lambda>c. \<not> is_linebreak c) line \<Longrightarrow> line \<noteq> [] \<or> cur \<noteq> [] \<Longrightarrow>
   split_lines cur (line @ CHR 0x0A # rest) = (rev cur @ line) # split_lines [] rest"
proof (induction line arbitrary: cur)
  case Nil
  then show ?case by (cases rest) (simp_all add: is_linebreak_def)
next
  case (Cons c line)
  then have c: "\<not> is_linebreak c" by simp
  then have "c \<noteq> CHR 0x0D" by (auto simp: is_linebreak_def)
  moreover obtain c' cs where next_char: "line @ CHR 0x0A # rest = c' # cs" by (cases line) auto
  ultimately have "split_lines cur ((c # line) @ CHR 0x0A # rest) = split_lines (c # cur) (line @ CHR 0x0A # rest)"
    using c by simp
  with Cons.IH [of "c # cur"] Cons.prems show ?case by simp
qed

lemma split_raw_text: "list_all writable rs \<Longrightarrow> split_lines [] (raw_text rs) = map raw_line rs"
proof (induction rs)
  case (Cons r rs)
  have "\<not> is_linebreak CHR ''!''" by code_simp
  then have "list_all (\<lambda>c. \<not> is_linebreak c) (raw_line r)" "raw_line r \<noteq> []"
    using Cons.prems by (auto simp: writable_def raw_line_def Let_def)
  with Cons split_lines_newline [of "raw_line r" "[]" "raw_text rs"] show ?case by (simp add: raw_text_def)
qed (simp add: raw_text_def)

lemma strip_keeps_last: "strip s = s \<Longrightarrow> s \<noteq> [] \<Longrightarrow> \<not> is_space (last s)"
proof
  assume s: "strip s = s" "s \<noteq> []" and "is_space (last s)"
  then obtain t c where t: "s = t @ [c]" "is_space c" by (cases s rule: rev_cases) auto
  have "length (strip s) \<le> length (rstrip s)" by (simp add: strip_def lstrip_def length_dropWhile_le)
  moreover have "length (rstrip s) < length s"
    using t length_dropWhile_le [of is_space "rev t"] by (simp add: rstrip_def less_Suc_eq_le)
  ultimately show False using s(1) by simp
qed

lemma strip_bang: "strip s = s \<Longrightarrow> s \<noteq> [] \<Longrightarrow> strip (CHR ''!'' # s) = CHR ''!'' # s"
  using strip_keeps_last [of s] by (intro strip_id) (auto simp: is_space_def)

lemma parse_written_line:
  assumes "writable r"
  shows "parse_raw_line (raw_line r) = Some (r_type r, (if r_kind r = Regex then ''re:'' else '''') @ r_pattern r)"
    (is "_ = Some (_, ?raw)")
proof -
  have raw: "?raw \<noteq> ''''" "strip ?raw = ?raw" "r_type r = Include \<Longrightarrow> \<not> prefix ''#'' ?raw \<and> \<not> prefix ''!'' ?raw"
    using assms by (simp_all add: writable_def Let_def)
  show ?thesis
  proof (cases "r_type r")
    case Include
    with raw show ?thesis by (simp add: parse_raw_line_def raw_line_def Let_def)
  next
    case Exclude
    then have "raw_line r = CHR ''!'' # ?raw" by (simp add: raw_line_def)
    with strip_bang [OF raw(2,1)] raw(2) Exclude show ?thesis by (simp add: parse_raw_line_def Let_def)
  qed
qed

lemma parse_written_pattern:
  assumes "writable r" "r_kind r = Regex \<longrightarrow> re2 (r_pattern r) False \<noteq> None"
  shows "parse_pattern re2 re_ok ((if r_kind r = Regex then ''re:'' else '''') @ r_pattern r) True = Inr (r_pattern r, r_kind r)"
  using assms by (cases "r_kind r") (simp_all add: parse_pattern_def writable_def Let_def)

lemma parse_written_lines:
  assumes "list_all writable rs" "list_all (\<lambda>r. r_kind r = Regex \<longrightarrow> re2 (r_pattern r) False \<noteq> None) rs"
  shows "parse_raw_lines re2 re_ok n (map raw_line rs) = Inr (map (\<lambda>r. (r_type r, r_pattern r, r_kind r)) rs)"
  using assms
proof (induction rs arbitrary: n)
  case (Cons r rs)
  then have r: "writable r" "r_kind r = Regex \<longrightarrow> re2 (r_pattern r) False \<noteq> None" by simp_all
  have p: "parse_pattern re2 re_ok ((if r_kind r = Regex then ''re:'' else '''') @ r_pattern r) True = Inr (r_pattern r, r_kind r)"
    using r by (rule parse_written_pattern)
  from Cons show ?case
    by (simp only: list.map parse_raw_lines.simps parse_written_line [OF r(1)] p
          option.case prod.case sum.case bindE_simps list.pred_inject)
qed simp

section \<open>Where an operation reaches\<close>

lemma filter_map_other:
  "(\<And>x. x \<in> set rs \<Longrightarrow> f x = x \<or> \<not> P x \<and> \<not> P (f x)) \<Longrightarrow> filter P (map f rs) = filter P rs"
proof (induction rs)
  case (Cons x rs)
  then have "filter P (map f rs) = filter P rs" by simp
  moreover have "f x = x \<or> \<not> P x \<and> \<not> P (f x)" using Cons.prems by simp
  ultimately show ?case by (elim disjE conjE) simp_all
qed simp

lemma put_elsewhere:
  assumes "rules_inv re2 d" "r \<in> set (rules d)" "r_source_id r = i" "r_id r1 = r_id r" "r_source_id r1 = i" "j \<noteq> i"
  shows "filter (\<lambda>r. r_source_id r = j) (tbl_put r_id r1 (rules d)) = filter (\<lambda>r. r_source_id r = j) (rules d)"
  unfolding tbl_put_def
proof (rule filter_map_other)
  fix x assume x: "x \<in> set (rules d)"
  show "(if r_id x = r_id r1 then r1 else x) = x \<or> r_source_id x \<noteq> j \<and> r_source_id (if r_id x = r_id r1 then r1 else x) \<noteq> j"
  proof (cases "r_id x = r_id r")
    case True
    with same_id [OF rules_invD(1) [OF assms(1)] x assms(2)] have "x = r" by simp
    with assms(3-6) show ?thesis by simp
  qed (use assms(4) in simp)
qed

lemma del_elsewhere:
  assumes "rules_inv re2 d" "r \<in> set (rules d)" "r_source_id r = i" "j \<noteq> i"
  shows "filter (\<lambda>x. r_source_id x = j) (tbl_del r_id (r_id r) (rules d)) = filter (\<lambda>x. r_source_id x = j) (rules d)"
proof -
  have "r_id x \<noteq> r_id r" if "x \<in> set (rules d)" "r_source_id x = j" for x
    using same_id [OF rules_invD(1) [OF assms(1)] that(1) assms(2)] that(2) assms(3,4) by auto
  then show ?thesis by (auto simp: tbl_del_def intro!: filter_cong)
qed

lemma order_elsewhere:
  assumes "rules_inv re2 d" "set ids = r_id ` {r \<in> set (rules d). r_source_id r = i}" "j \<noteq> i"
  shows "filter (\<lambda>r. r_source_id r = j) (set_order ids (rules d)) = filter (\<lambda>r. r_source_id r = j) (rules d)"
proof -
  obtain f where f: "set_order ids (rules d) = map (\<lambda>r. if r_id r \<in> set ids then r\<lparr>r_order := int (f (r_id r))\<rparr> else r) (rules d)"
    using set_order_map [of ids "rules d"] by blast
  have "r_source_id r = i" if "r \<in> set (rules d)" "r_id r \<in> set ids" for r
    using that same_id [OF rules_invD(1) [OF assms(1)]] unfolding assms(2) by auto
  then show ?thesis unfolding f using assms(3) by (intro filter_map_other) auto
qed

text \<open>The rules are untouched, or the request was let through to one source.\<close>

lemma exec_rule_scope:
  assumes "exec_rule E re2 re_ok (u, i, op) d = Inr d'" "rules_inv re2 d"
  shows "rules d' = rules d \<or> (\<exists>s. editable_source d u i = Some (Inr s) \<and> (j \<noteq> i \<longrightarrow> rules_for d' j = rules_for d j))"
proof (cases op)
  case (CreateRule p)
  with assms(1) have "create_rule E re2 re_ok u i p d = Some (Inr d')" by simp
  then obtain s r where "editable_source d u i = Some (Inr s)" "rules d' = rules d @ [r]" "r_source_id r = i"
    by (rule create_rule_Inr)
  then show ?thesis by (simp add: rules_for_def)
next
  case (UpdateRule rid p)
  with assms(1) have "update_rule E re2 re_ok u i rid p d = Some (Inr d')" by simp
  then obtain s r r1 where "editable_source d u i = Some (Inr s)" "r \<in> set (rules d)" "r_source_id r = i" "r_id r = rid"
    "rules d' = tbl_put r_id r1 (rules d)" "r_id r1 = rid" "r_source_id r1 = i" by (rule update_rule_Inr)
  with put_elsewhere [OF assms(2), of r i r1 j] show ?thesis by (simp add: rules_for_def)
next
  case (DeleteRule rid)
  with assms(1) have "delete_rule E u i rid d = Some (Inr d')" by simp
  then obtain s r where "editable_source d u i = Some (Inr s)" "rules d' = tbl_del r_id rid (rules d)" "r \<in> set (rules d)"
    "r_id r = rid" "r_source_id r = i" by (rule delete_rule_Inr)
  with del_elsewhere [OF assms(2), of r i j] show ?thesis by (simp add: rules_for_def)
next
  case (ReorderRules ids)
  with assms(1) have "reorder_rules E u i ids d = Some (Inr d')" by simp
  then obtain s where s: "editable_source d u i = Some (Inr s)" "set ids = r_id ` {r \<in> set (rules d). r_source_id r = i}"
    "rules d' = set_order ids (rules d)" by (rule reorder_rules_Inr)
  with order_elsewhere [OF assms(2) s(2), of j] show ?thesis by (simp add: rules_for_def)
next
  case (ReplaceRulesRaw body)
  with assms(1) have "replace_rules_raw E re2 re_ok u i body d = Some (Inr d')" by simp
  then obtain s ps f where s: "editable_source d u i = Some (Inr s)"
    "rules d' = filter (\<lambda>r. r_source_id r \<noteq> i) (rules d) @ map (raw_rule f i) (List.enumerate 0 ps)"
    by (metis replace_rules_raw_Inr)
  have "filter (\<lambda>r. r_source_id r = j) (map (raw_rule f i) (List.enumerate 0 ps)) = []" if "j \<noteq> i"
    using that by (auto simp: filter_empty_conv raw_rule_def)
  moreover have "filter (\<lambda>r. r_source_id r = j \<and> r_source_id r \<noteq> i) (rules d) = filter (\<lambda>r. r_source_id r = j) (rules d)" if "j \<noteq> i"
    using that by (intro filter_cong) auto
  ultimately have "rules_for d' j = rules_for d j" if "j \<noteq> i"
    using that by (simp add: rules_for_def s(2) conj_commute)
  with s(1) show ?thesis by blast
next
  case (CreatePattern scope p)
  with assms(1) patterns_keep_rules(1) [of E re2 re_ok u scope p d d'] show ?thesis by simp
next
  case (UpdatePattern scope y p)
  with assms(1) patterns_keep_rules(2) [of E re2 re_ok u scope y p d d'] show ?thesis by simp
next
  case (DeletePattern scope y)
  with assms(1) patterns_keep_rules(3) [of E u scope y d d'] show ?thesis by simp
qed

lemma ordered_distinct:
  assumes "distinct (map (\<lambda>r. (r_source_id r, r_order r)) (rules d))"
  shows "distinct (map r_order (ordered_rules d i))"
proof -
  have "distinct (map r_order (rules_for d i))"
    using assms unfolding rules_for_def by (auto simp: distinct_map inj_on_def)
  then show ?thesis unfolding ordered_rules_def by (simp add: distinct_map)
qed

lemma reordered_rules:
  assumes "rules_inv re2 d" "set ids = r_id ` {r \<in> set (rules d). r_source_id r = i}" "rules d' = set_order ids (rules d)"
  shows "r \<in> set (ordered_rules d' i) \<Longrightarrow> ids ! nat (r_order r) = r_id r"
    and "distinct ids \<Longrightarrow> r_order ` set (ordered_rules d' i) = int ` {0..<length ids}"
proof -
  obtain f where f: "\<forall>i \<in> set ids. f i < length ids \<and> ids ! f i = i"
    "rules d' = map (\<lambda>r. if r_id r \<in> set ids then r\<lparr>r_order := int (f (r_id r))\<rparr> else r) (rules d)"
    using set_order_map [of ids "rules d"] unfolding assms(3) [symmetric] by blast
  have in_ids: "r_id r \<in> set ids" if "r \<in> set (rules d)" "r_source_id r = i" for r
    unfolding assms(2) using that by blast
  have L: "set (ordered_rules d' i) = (\<lambda>r. r\<lparr>r_order := int (f (r_id r))\<rparr>) ` {r \<in> set (rules d). r_source_id r = i}"
    using in_ids by (auto simp: f(2))
  show "ids ! nat (r_order r) = r_id r" if "r \<in> set (ordered_rules d' i)"
    using that in_ids f(1) unfolding L by auto
  assume "distinct ids"
  have "f ` set ids = {0..<length ids}"
  proof
    show "f ` set ids \<subseteq> {0..<length ids}" using f(1) by auto
    show "{0..<length ids} \<subseteq> f ` set ids"
    proof
      fix n assume n: "n \<in> {0..<length ids}"
      then have "f (ids ! n) < length ids" "ids ! f (ids ! n) = ids ! n" using f(1) by simp_all
      with n \<open>distinct ids\<close> have "f (ids ! n) = n" by (simp add: nth_eq_iff_index_eq)
      with n show "n \<in> f ` set ids" by (metis atLeastLessThan_iff imageI nth_mem)
    qed
  qed
  moreover have "r_order ` set (ordered_rules d' i) = int ` f ` set ids"
    unfolding L assms(2) by (simp add: image_image)
  ultimately show "r_order ` set (ordered_rules d' i) = int ` {0..<length ids}" by simp
qed

section \<open>Properties\<close>

text \<open>
  A stored chain always has one reading: after any sequence of requests rule ids are unique, no two
  rules of a source have the same place in the order, and every stored regex is one the engine runs.
\<close>

theorem rule_chains_stay_well_formed:
  assumes "rules_inv re2 d"
  shows "rules_inv re2 (rch.run_ops E re2 re_ok ops d)"
  by (rule rch.run_inv [OF assms])

text \<open>
  A request on the rules of a source changes no other source's rules, and those of the named one
  only for an account that may manage its rules, and never those of a built-in source.
\<close>

theorem rule_requests_stay_in_their_source:
  assumes "exec_rule E re2 re_ok (u, i, op) d = Inr d'" "rules_inv re2 d"
  shows "(j \<noteq> i \<longrightarrow> rules_for d' j = rules_for d j) \<and>
    (rules_for d' i = rules_for d i \<or> (\<exists>s. require_capability d u i ManageRules = Some (Inr s) \<and> \<not> s_is_system s))"
  using exec_rule_scope [OF assms, of j]
proof
  assume "rules d' = rules d"
  then show ?thesis by (simp add: rules_for_def)
qed (use editable_source_Inr in blast)

text \<open>
  C36: A pasted text decides as it reads: after it replaced the chain of a source, a file is shown
  exactly when the last line of the text that matches its path is one that includes.
\<close>

theorem pasted_text_decides_as_written:
  assumes "replace_rules_raw E re2 re_ok u i body d = Some (Inr d')"
  shows "is_visible re2 ic path (rules_for d' i) \<longleftrightarrow>
    (\<exists>before line after. split_lines [] body = before @ line # after \<and> line_hits re2 ic path line \<and> line_shows line \<and>
       list_all (\<lambda>l. \<not> line_hits re2 ic path l) after)"
proof -
  from assms obtain f ps where ps: "parse_raw_lines re2 re_ok 1 (split_lines [] body) = Inr ps"
    "sort_key r_order (rules_for d' i) = map (raw_rule f i) (List.enumerate 0 ps)" by (rule pasted_rules)
  show ?thesis
    unfolding is_visible_def ps(2) parse_raw_lines_fold [OF ps(1)] by (rule fold_last_iff)
qed

text \<open>
  Writing the chain of a source as text and pasting it gives back the same chain, when every rule
  of it can be written as a line.
\<close>

theorem pasting_the_written_chain_keeps_it:
  assumes "rules_inv re2 d" "list_all writable (ordered_rules d i)"
    and "replace_rules_raw E re2 re_ok u i (raw_text (ordered_rules d i)) d = Some (Inr d')"
  shows "map (\<lambda>r. (r_type r, r_pattern r, r_kind r)) (ordered_rules d' i) =
         map (\<lambda>r. (r_type r, r_pattern r, r_kind r)) (ordered_rules d i)"
proof -
  from assms(3) obtain f ps where ps: "parse_raw_lines re2 re_ok 1 (split_lines [] (raw_text (ordered_rules d i))) = Inr ps"
    "ordered_rules d' i = map (raw_rule f i) (List.enumerate 0 ps)" by (rule pasted_rules)
  have "list_all (\<lambda>r. r_kind r = Regex \<longrightarrow> re2 (r_pattern r) False \<noteq> None) (ordered_rules d i)"
    using assms(1) by (simp add: rules_inv_def list_all_iff)
  with assms(2) have "parse_raw_lines re2 re_ok 1 (map raw_line (ordered_rules d i)) =
      Inr (map (\<lambda>r. (r_type r, r_pattern r, r_kind r)) (ordered_rules d i))" by (rule parse_written_lines)
  with ps(1)
  have ps': "ps = map (\<lambda>r. (r_type r, r_pattern r, r_kind r)) (ordered_rules d i)"
    by (simp add: split_raw_text [OF assms(2)])
  have "map (\<lambda>r. (r_type r, r_pattern r, r_kind r)) (map (raw_rule f i) (List.enumerate 0 ps)) = map snd (List.enumerate 0 ps)"
    unfolding map_map by (rule map_cong) (auto simp: raw_rule_def)
  then show ?thesis by (simp add: ps(2) ps')
qed

text \<open>
  A reorder gives the order that was asked for: when every id is named once, the chain of the source
  is then in the order of the ids.
\<close>

theorem reorder_gives_the_asked_order:
  assumes "rules_inv re2 d" "distinct ids" "reorder_rules E u i ids d = Some (Inr d')"
  shows "map r_id (ordered_rules d' i) = ids"
proof -
  from assms(3) obtain s where r: "set ids = r_id ` {r \<in> set (rules d). r_source_id r = i}" "rules d' = set_order ids (rules d)"
    by (rule reorder_rules_Inr)
  let ?L = "ordered_rules d' i"
  note L = reordered_rules [OF assms(1) r]
  have "map r_order ?L = map int [0..<length ids]"
  proof (rule sorted_distinct_set_unique)
    show "sorted (map r_order ?L)" by (simp add: ordered_rules_def)
    show "distinct (map r_order ?L)"
      using rules_invD(2) [OF set_order_inv [OF assms(1) r]] by (rule ordered_distinct)
    show "set (map r_order ?L) = set (map int [0..<length ids])" using L(2) [OF assms(2)] by simp
  qed (simp_all add: sorted_iff_nth_mono distinct_map)
  then have "map (\<lambda>r. ids ! nat (r_order r)) ?L = map (\<lambda>n. ids ! nat n) (map int [0..<length ids])"
    by (metis (no_types, lifting) comp_def map_eq_conv map_map)
  moreover have "map (\<lambda>r. ids ! nat (r_order r)) ?L = map r_id ?L"
    using L(1) by (intro map_cong) auto
  moreover have "map (\<lambda>n. ids ! nat n) (map int [0..<length ids]) = ids" by (simp add: comp_def map_nth)
  ultimately show ?thesis by simp
qed

section \<open>Witnesses\<close>

text \<open>Source 10 shows everything but a folder; a rule of source 11 comes between its two.\<close>

definition rules_db :: db where
  "rules_db = sample_db\<lparr>role_grants := [\<lparr>g_id = 1, g_role_id = 5, g_scope_type = ScopeFolder, g_scope_id = 1, g_capabilities = [View, ManageRules]\<rparr>],
     rules := [(glob_rule 1 Include ''**'')\<lparr>r_source_id := 10\<rparr>, (glob_rule 2 Exclude ''x/**'')\<lparr>r_source_id := 11\<rparr>,
               (glob_rule 3 Exclude ''secret/**'')\<lparr>r_source_id := 10\<rparr>]\<rparr>"

abbreviation "no_re2 \<equiv> (\<lambda>_ _. None) :: re2_engine"

lemma rules_db_inv: "rules_inv no_re2 rules_db"
  by (simp add: rules_inv_def rules_db_def glob_rule_def)

lemma rules_db_editable: "editable_source rules_db operator 10 = Some (Inr sample_source)"
  by code_simp

lemma sample_source_id: "s_id sample_source = 10"
  by code_simp

lemma sample_reorder:
  obtains d' where "reorder_rules length_env operator 10 [3, 1] rules_db = Some (Inr d')"
proof -
  have "set [3, 1] = r_id ` set (ordered_rules rules_db 10)" by code_simp
  then show ?thesis
    by (intro that) (simp add: reorder_rules_def rules_db_editable sample_source_id Let_def del: ordered_set list.set)
qed

lemma sample_paste:
  assumes "parse_raw_lines no_re2 (\<lambda>_. True) 1 (split_lines [] body) = Inr ps"
  obtains d' where "replace_rules_raw length_env no_re2 (\<lambda>_. True) operator 10 body rules_db = Some (Inr d')"
  using assms by (intro that) (simp add: replace_rules_raw_def rules_db_editable sample_source_id Let_def)

theorem rule_chains_stay_well_formed_witness:
  "rules_inv no_re2 (rch.run_ops length_env no_re2 (\<lambda>_. True)
     [(operator, 10, DeleteRule 1), (operator, 10, CreateRule \<lparr>rc_type = Include, rc_pattern = ''**/*.log'', rc_notes = None\<rparr>)] rules_db)"
  by (rule rule_chains_stay_well_formed [OF rules_db_inv])

theorem rule_requests_stay_in_their_source_witness:
  "\<exists>d'. exec_rule length_env no_re2 (\<lambda>_. True) (operator, 10, ReorderRules [3, 1]) rules_db = Inr d' \<and> rules_for d' 11 = rules_for rules_db 11"
proof -
  obtain d' where "reorder_rules length_env operator 10 [3, 1] rules_db = Some (Inr d')" by (rule sample_reorder)
  then have x: "exec_rule length_env no_re2 (\<lambda>_. True) (operator, 10, ReorderRules [3, 1]) rules_db = Inr d'" by simp
  from rule_requests_stay_in_their_source [OF x rules_db_inv, of 11] x show ?thesis by simp
qed

theorem pasted_text_decides_as_written_witness:
  "\<exists>d'. replace_rules_raw length_env no_re2 (\<lambda>_. True) operator 10 ''**'' rules_db = Some (Inr d') \<and>
     is_visible no_re2 False ''a'' (rules_for d' 10)"
proof -
  have "parse_raw_lines no_re2 (\<lambda>_. True) 1 (split_lines [] ''**'') = Inr [(Include, ''**'', Glob)]" by code_simp
  then obtain d' where d': "replace_rules_raw length_env no_re2 (\<lambda>_. True) operator 10 ''**'' rules_db = Some (Inr d')"
    by (rule sample_paste)
  have "split_lines [] ''**'' = [] @ ''**'' # [] \<and> line_hits no_re2 False ''a'' ''**'' \<and> line_shows ''**'' \<and>
      list_all (\<lambda>l. \<not> line_hits no_re2 False ''a'' l) []" by code_simp
  with pasted_text_decides_as_written [OF d', of False "''a''"] d' show ?thesis by blast
qed

theorem pasting_the_written_chain_keeps_it_witness:
  "\<exists>d'. replace_rules_raw length_env no_re2 (\<lambda>_. True) operator 10 (raw_text (ordered_rules rules_db 10)) rules_db = Some (Inr d') \<and>
     map (\<lambda>r. (r_type r, r_pattern r, r_kind r)) (ordered_rules d' 10) = [(Include, ''**'', Glob), (Exclude, ''secret/**'', Glob)]"
proof -
  have "raw_text (ordered_rules rules_db 10) = ''**'' @ CHR 0x0A # ''!secret/**'' @ [CHR 0x0A]" by code_simp
  moreover have "parse_raw_lines no_re2 (\<lambda>_. True) 1 (split_lines [] (''**'' @ CHR 0x0A # ''!secret/**'' @ [CHR 0x0A])) =
      Inr [(Include, ''**'', Glob), (Exclude, ''secret/**'', Glob)]" by code_simp
  ultimately have "parse_raw_lines no_re2 (\<lambda>_. True) 1 (split_lines [] (raw_text (ordered_rules rules_db 10))) =
      Inr [(Include, ''**'', Glob), (Exclude, ''secret/**'', Glob)]" by metis
  then obtain d' where d': "replace_rules_raw length_env no_re2 (\<lambda>_. True) operator 10 (raw_text (ordered_rules rules_db 10)) rules_db = Some (Inr d')"
    by (rule sample_paste)
  have w: "list_all writable (ordered_rules rules_db 10)" by code_simp
  have "map (\<lambda>r. (r_type r, r_pattern r, r_kind r)) (ordered_rules rules_db 10) = [(Include, ''**'', Glob), (Exclude, ''secret/**'', Glob)]"
    by code_simp
  with pasting_the_written_chain_keeps_it [OF rules_db_inv w d'] d' show ?thesis by auto
qed

theorem reorder_gives_the_asked_order_witness:
  "\<exists>d'. reorder_rules length_env operator 10 [3, 1] rules_db = Some (Inr d') \<and> map r_id (ordered_rules d' 10) = [3, 1]"
proof -
  obtain d' where d': "reorder_rules length_env operator 10 [3, 1] rules_db = Some (Inr d')" by (rule sample_reorder)
  have "distinct [3, 1 :: int]" by simp
  from reorder_gives_the_asked_order [OF rules_db_inv this d'] have "map r_id (ordered_rules d' 10) = [3, 1]" .
  with d' show ?thesis by (intro exI [of _ d'] conjI)
qed

end
