(* ===== verification/SourcesApi.thy ===== *)
theory SourcesApi
  imports AlertsApi RulesApi
begin

text \<open>
  \<open>app/api/sources.py\<close> without its folder picker: the validation of a source, the endpoints that list,
  create, change and delete sources, and what is cleaned up with them. The PEM parser, the encryption of
  a credential, SHA-256 and the registry of connected agents are parameters.
\<close>

section \<open>Validation\<close>

record source_env =
  se_env :: env
  se_files :: file_env
  se_load_pem :: "string \<Rightarrow> nat option"
  se_encrypt :: "message \<Rightarrow> string"
  se_sha256_hex :: "string \<Rightarrow> string"
  se_connected :: "int \<Rightarrow> bool"

text \<open>A refused request, a setting that cannot be read (a 500), or an error of a connector.\<close>

datatype source_failure = Refused api_error | SettingFailed setting_error | ConnectorFailed source_error

abbreviation (input) bad_request :: "string \<Rightarrow> source_failure" where
  "bad_request msg \<equiv> Refused (HTTPException 400 msg)"

definition max_ca_pem :: nat where
  "max_ca_pem = 64 * 1024"

definition require_not_system :: "source \<Rightarrow> source_failure + unit" where
  "require_not_system s = requireE (\<not> s_is_system s) (Refused (forbidden ''System sources cannot be modified''))"

definition is_letter :: "char \<Rightarrow> bool" where
  "is_letter c = (let n = of_char c :: nat in (65 \<le> n \<and> n \<le> 90) \<or> (97 \<le> n \<and> n \<le> 122))"

text \<open>\<open>_DRIVE_PATH\<close> and \<open>_ADMIN_SHARE\<close>; the \<open>$\<close> also matches before one final newline.\<close>

definition drive_path :: "string \<Rightarrow> bool" where
  "drive_path p =
     (2 \<le> length p \<and> is_letter (hd p) \<and> p ! 1 = CHR '':'' \<and>
      (drop 2 p = '''' \<or> drop 2 p = [CHR 0x0A] \<or> is_slash (p ! 2)))"

definition admin_share :: "string \<Rightarrow> bool" where
  "admin_share share =
     (let s = lower (if share \<noteq> [] \<and> last share = CHR 0x0A then butlast share else share)
      in s = ''admin$'' \<or> s = ''ipc$'' \<or> (length s = 2 \<and> is_letter (hd s) \<and> s ! 1 = CHR ''$''))"

definition two_slashes :: "string \<Rightarrow> bool" where
  "two_slashes p = (prefix [CHR 0x5C, CHR 0x5C] p \<or> prefix ''//'' p)"

definition validate_base_path :: "source_env \<Rightarrow> protocol \<Rightarrow> string \<Rightarrow> source_failure + string" where
  "validate_base_path SE p base_path =
     (let path = strip base_path in
      bindE (requireE (list_all (\<lambda>c. 32 \<le> (of_char c :: nat)) path) (bad_request ''Base path contains control characters'')) (\<lambda>_.
      bindE
        (case p of
           Smb \<Rightarrow>
             bindE (requireE (path \<noteq> '''') (bad_request ''SMB Base path is the share name'')) (\<lambda>_.
             bindE (requireE (\<not> drive_path path) (bad_request ''SMB Base path is a share name, not a drive path'')) (\<lambda>_.
             bindE (requireE (\<not> two_slashes path) (bad_request ''SMB Base path is the share name only'')) (\<lambda>_.
             requireE (\<not> admin_share (takeWhile (\<lambda>c. \<not> is_slash c) path)) (bad_request ''administrative share''))))
         | Winrm \<Rightarrow>
             requireE (drive_path path \<or> prefix [CHR 0x5C, CHR 0x5C] path)
               (bad_request ''WinRM Base path must be an absolute Windows path'')
         | Local \<Rightarrow>
             requireE (base_path_allowed (fe_local (se_files SE)) path)
               (bad_request ''Local-disk sources must point under a directory the server operator has allowed'')
         | _ \<Rightarrow> Inr ()) (\<lambda>_.
      Inr (normalize_root_path p path))))"

fun check_roots ::
  "source_env \<Rightarrow> protocol \<Rightarrow> string list \<Rightarrow> source_root list \<Rightarrow> source_failure + source_root list" where
  "check_roots SE p seen [] = Inr []"
| "check_roots SE p seen (root # roots) =
     (let label = strip (root_label root) in
      bindE (requireE (valid_label label) (bad_request ''Folder label must be 1-64 letters, digits, spaces, dots, dashes or underscores'')) (\<lambda>_.
      bindE (requireE (lower label \<notin> set seen) (bad_request ''Folder label is used twice'')) (\<lambda>_.
      bindE (validate_base_path SE p (root_path root)) (\<lambda>path.
      bindE (check_roots SE p (lower label # seen) roots) (\<lambda>out.
      Inr (\<lparr>root_label = label, root_path = path\<rparr> # out))))))"

definition validate_roots ::
  "source_env \<Rightarrow> protocol \<Rightarrow> source_root list \<Rightarrow> int \<Rightarrow> source_failure + source_root list option" where
  "validate_roots SE p roots limit =
     (if length roots \<le> 1 then Inr None
      else
        bindE (requireE (p \<noteq> Agent) (bad_request ''A push-agent source serves a single folder'')) (\<lambda>_.
        bindE (requireE (int (length roots) \<le> limit) (bad_request (roots_limit_message limit))) (\<lambda>_.
        bindE (check_roots SE p [] roots) (\<lambda>out. Inr (Some out)))))"

definition validate_ca_pem :: "source_env \<Rightarrow> protocol \<Rightarrow> string option \<Rightarrow> source_failure + string option" where
  "validate_ca_pem SE p pem =
     (case pem of
        None \<Rightarrow> Inr None
      | Some raw \<Rightarrow>
          if strip raw = '''' then Inr None
          else
            bindE (requireE (p = Winrm) (bad_request ''A CA certificate is only used by WinRM sources over HTTPS'')) (\<lambda>_.
            bindE (someE (bad_request ''CA certificate is not valid PEM'') (se_load_pem SE (strip raw))) (\<lambda>n.
            bindE (requireE (n \<noteq> 0) (bad_request ''CA certificate contains no certificate'')) (\<lambda>_.
            Inr (Some (strip raw @ [CHR 0x0A]))))))"

text \<open>The values of \<open>Literal["https", "http"]\<close> that a request can carry.\<close>

datatype winrm_scheme = Https | Http

fun scheme_value :: "winrm_scheme \<Rightarrow> string" where
  "scheme_value Https = ''https''"
| "scheme_value Http = ''http''"

definition validate_winrm_scheme :: "protocol \<Rightarrow> winrm_scheme option \<Rightarrow> source_failure + string option" where
  "validate_winrm_scheme p scheme =
     bindE (requireE (scheme = None \<or> p = Winrm) (bad_request ''winrm_scheme only applies to WinRM sources'')) (\<lambda>_.
     Inr (map_option scheme_value scheme))"

text \<open>\<open>endpoint\<close> of \<open>app/collectors/winrm.py\<close>; a port of 0 counts as none.\<close>

definition winrm_endpoint :: "string option \<Rightarrow> int option \<Rightarrow> string \<times> int" where
  "winrm_endpoint scheme port =
     (let given = (\<lambda>dflt. case port of None \<Rightarrow> dflt | Some p \<Rightarrow> if p = 0 then dflt else p) in
      if scheme = Some ''https'' then (''https'', given 5986)
      else if scheme = Some ''http'' then (''http'', given 5985)
      else (if given 5986 = 5986 then ''https'' else ''http'', given 5986))"

definition validate_scope :: "db \<Rightarrow> int option \<Rightarrow> int option \<Rightarrow> source_failure + unit" where
  "validate_scope d customer_id folder_id =
     (case folder_id of
        Some i \<Rightarrow>
          bindE (someE (Refused (not_found ''Folder not found'')) (get_folder d i)) (\<lambda>f.
          requireE (customer_id = None \<or> customer_id = Some (f_customer_id f)) (bad_request ''folder_id must belong to customer_id''))
      | None \<Rightarrow>
          (case customer_id of
             None \<Rightarrow> Inr ()
           | Some c \<Rightarrow> bindE (someE (Refused (not_found ''Customer not found'')) (get_customer d c)) (\<lambda>_. Inr ())))"

section \<open>Creating\<close>

record source_create =
  cr_name :: string
  cr_customer_id :: "int option"
  cr_folder_id :: "int option"
  cr_protocol :: protocol
  cr_host :: string
  cr_port :: "int option"
  cr_base_path :: string
  cr_roots :: "source_root list option"
  cr_winrm_scheme :: "winrm_scheme option"
  cr_tls_ca_pem :: "string option"
  cr_enabled :: bool
  cr_credential :: "message option"
  cr_search_indexing_enabled :: bool

definition require_manage :: "db \<Rightarrow> user \<Rightarrow> source_failure + unit" where
  "require_manage d u = map_error Refused (require_global_capability d u CreateSource)"

text \<open>The \<open>max_length\<close> of the certificate in the body, refused with a 422.\<close>

definition ca_fits :: "string option \<Rightarrow> source_failure + unit" where
  "ca_fits pem =
     requireE (case pem of None \<Rightarrow> True | Some p \<Rightarrow> length p \<le> max_ca_pem) (Refused (HTTPException 422 ''tls_ca_pem''))"

definition root_json :: "source_root \<Rightarrow> json" where
  "root_json root = JObj [(''label'', JStr (root_label root)), (''path'', JStr (root_path root))]"

text \<open>The base path of a new source: that of the first root, where roots are given.\<close>

definition new_base_path ::
  "source_env \<Rightarrow> source_create \<Rightarrow> source_root list option \<Rightarrow> source_failure + string" where
  "new_base_path SE p roots =
     (case roots of
        Some (root # _) \<Rightarrow> Inr (root_path root)
      | _ \<Rightarrow>
          (case cr_roots p of
             Some (root # _) \<Rightarrow> validate_base_path SE (cr_protocol p) (root_path root)
           | _ \<Rightarrow> if cr_protocol p = Agent then Inr (cr_base_path p)
                  else validate_base_path SE (cr_protocol p) (cr_base_path p)))"

text \<open>
  \<open>create_source\<close> up to its commit, with the new row; the answer is \<open>to_public\<close> of that row, below.
\<close>

definition create_source :: "source_env \<Rightarrow> user \<Rightarrow> source_create \<Rightarrow> db \<Rightarrow> source_failure + (source \<times> db)" where
  "create_source SE u p d =
     bindE (require_manage d u) (\<lambda>_.
     bindE (ca_fits (cr_tls_ca_pem p)) (\<lambda>_.
     bindE (validate_scope d (cr_customer_id p) (cr_folder_id p)) (\<lambda>_.
     bindE (map_error SettingFailed (max_roots d)) (\<lambda>limit.
     bindE (validate_roots SE (cr_protocol p) (given (cr_roots p) []) limit) (\<lambda>roots.
     bindE (new_base_path SE p roots) (\<lambda>base_path.
     bindE (validate_winrm_scheme (cr_protocol p) (cr_winrm_scheme p)) (\<lambda>asked.
     bindE (validate_ca_pem SE (cr_protocol p) (cr_tls_ca_pem p)) (\<lambda>ca.
     let scheme = (case asked of
                     Some s \<Rightarrow> Some s
                   | None \<Rightarrow> if cr_protocol p = Winrm then Some (fst (winrm_endpoint None (cr_port p))) else None);
         credential = (case cr_credential p of Some c \<Rightarrow> if c = [] then None else Some (se_encrypt SE c) | None \<Rightarrow> None);
         s = \<lparr>s_id = source_seq d + 1, s_name = cr_name p, s_customer_id = cr_customer_id p, s_folder_id = cr_folder_id p,
              s_protocol = cr_protocol p, s_host = cr_host p, s_port = cr_port p, s_credential_ref = credential,
              s_base_path = base_path, s_roots = roots, s_winrm_scheme = scheme, s_tls_ca_pem = ca,
              s_enabled = cr_enabled p, s_schedule_cron = None, s_is_system = False, s_agent_token_hash = None,
              s_agent_last_seen_at = None, s_agent_os = None,
              s_search_indexing_enabled = cr_search_indexing_enabled p\<rparr>;
         d1 = d\<lparr>sources := sources d @ [s], source_seq := source_seq d + 1\<rparr>;
         metadata = [(''name'', JStr (s_name s)), (''protocol'', JStr (protocol_value (s_protocol s))),
                     (''host'', JStr (s_host s)), (''base_path'', JStr (s_base_path s))] @
                    (case roots of None \<Rightarrow> [] | Some rs \<Rightarrow> [(''roots'', JList (map root_json rs))])
     in Inr (s, record_audit_event (se_env SE) d1 d1 (Some (u_id u)) ''source.create'' (Some ''source'') (Some (s_id s))
                  (Some metadata))))))))))"

section \<open>Changing\<close>

text \<open>\<open>None\<close> is a field that is not set or, where that makes no difference, set to \<open>null\<close>.\<close>

record source_update =
  ub_name :: "string option"
  ub_customer_id :: "int option option"
  ub_folder_id :: "int option option"
  ub_host :: "string option"
  ub_port :: "int option option"
  ub_base_path :: "string option"
  ub_roots :: "source_root list option"
  ub_winrm_scheme :: "winrm_scheme option option"
  ub_tls_ca_pem :: "string option option"
  ub_enabled :: "bool option"
  ub_credential :: "message option"
  ub_search_indexing_enabled :: "bool option"

definition location :: "source \<Rightarrow> string \<times> int option \<times> string \<times> source_root list option" where
  "location s = (s_host s, s_port s, s_base_path s, s_roots s)"

definition set_scope :: "source_update \<Rightarrow> db \<Rightarrow> source \<Rightarrow> source_failure + source" where
  "set_scope p d s =
     (let new_customer_id = given (ub_customer_id p) (s_customer_id s);
          new_folder_id = given (ub_folder_id p) (s_folder_id s)
      in if ub_customer_id p = None \<and> ub_folder_id p = None then Inr s
         else bindE (validate_scope d new_customer_id new_folder_id) (\<lambda>_.
              Inr (s\<lparr>s_customer_id := new_customer_id, s_folder_id := new_folder_id\<rparr>)))"

text \<open>The saved credential stays with the host and port it was saved for.\<close>

definition set_address :: "source_update \<Rightarrow> source \<Rightarrow> source_failure + source" where
  "set_address p s =
     (let new_host = given (ub_host p) (s_host s);
          new_port = given (ub_port p) (s_port s)
      in bindE (requireE (\<not> ((new_host, new_port) \<noteq> (s_host s, s_port s) \<and> s_credential_ref s \<noteq> None \<and> ub_credential p = None))
                 (bad_request ''Enter the credential again to use a different host or port'')) (\<lambda>_.
         Inr (s\<lparr>s_host := new_host, s_port := new_port\<rparr>)))"

definition set_roots :: "source_env \<Rightarrow> source_update \<Rightarrow> db \<Rightarrow> source \<Rightarrow> source_failure + source" where
  "set_roots SE p d s =
     (case ub_roots p of
        None \<Rightarrow> Inr s
      | Some wanted \<Rightarrow>
          bindE (map_error SettingFailed (max_roots d)) (\<lambda>configured.
          bindE (validate_roots SE (s_protocol s) wanted (max configured (int (length (roots_of s))))) (\<lambda>roots.
          case roots of
            Some (root # _) \<Rightarrow> Inr (s\<lparr>s_roots := roots, s_base_path := root_path root\<rparr>)
          | _ \<Rightarrow>
              (case wanted of
                 [] \<Rightarrow> Inr (s\<lparr>s_roots := roots\<rparr>)
               | root # _ \<Rightarrow>
                   bindE (validate_base_path SE (s_protocol s) (root_path root)) (\<lambda>path.
                   Inr (s\<lparr>s_roots := roots, s_base_path := path\<rparr>))))))"

definition set_base_path :: "source_env \<Rightarrow> source_update \<Rightarrow> source \<Rightarrow> source_failure + source" where
  "set_base_path SE p s =
     (case ub_base_path p of
        None \<Rightarrow> Inr s
      | Some path \<Rightarrow>
          if is_multi_root s \<or> same_path (s_protocol s) path (s_base_path s) then Inr s
          else if s_protocol s = Agent then Inr (s\<lparr>s_base_path := path\<rparr>)
          else bindE (validate_base_path SE (s_protocol s) path) (\<lambda>ok. Inr (s\<lparr>s_base_path := ok\<rparr>)))"

definition set_tls :: "source_env \<Rightarrow> source_update \<Rightarrow> source \<Rightarrow> source_failure + source" where
  "set_tls SE p s =
     bindE (case ub_winrm_scheme p of
              None \<Rightarrow> Inr s
            | Some v \<Rightarrow> bindE (validate_winrm_scheme (s_protocol s) v) (\<lambda>scheme. Inr (s\<lparr>s_winrm_scheme := scheme\<rparr>))) (\<lambda>s1.
     case ub_tls_ca_pem p of
       None \<Rightarrow> Inr s1
     | Some pem \<Rightarrow> bindE (validate_ca_pem SE (s_protocol s1) pem) (\<lambda>ca. Inr (s1\<lparr>s_tls_ca_pem := ca\<rparr>)))"

definition changed_source :: "source_env \<Rightarrow> source_update \<Rightarrow> db \<Rightarrow> source \<Rightarrow> source_failure + source" where
  "changed_source SE p d s =
     bindE (set_scope p d s) (\<lambda>s1.
     bindE (set_address p (s1\<lparr>s_name := given (ub_name p) (s_name s1)\<rparr>)) (\<lambda>s2.
     bindE (set_roots SE p d s2) (\<lambda>s3.
     bindE (set_base_path SE p s3) (\<lambda>s4.
     bindE (set_tls SE p s4) (\<lambda>s5.
     Inr (s5\<lparr>s_enabled := given (ub_enabled p) (s_enabled s5),
             s_credential_ref := (case ub_credential p of None \<Rightarrow> s_credential_ref s5 | Some c \<Rightarrow> Some (se_encrypt SE c)),
             s_search_indexing_enabled := given (ub_search_indexing_enabled p) (s_search_indexing_enabled s5)\<rparr>))))))"

definition opt_str :: "string option \<Rightarrow> json" where
  "opt_str v = (case v of None \<Rightarrow> JNull | Some s \<Rightarrow> JStr s)"

text \<open>The audited fields in the order of the dict \<open>before\<close>, and those that differ.\<close>

definition audited_fields :: "source \<Rightarrow> (string \<times> json) list" where
  "audited_fields s =
     [(''name'', JStr (s_name s)), (''enabled'', JBool (s_enabled s)), (''winrm_scheme'', opt_str (s_winrm_scheme s)),
      (''host'', JStr (s_host s)), (''port'', opt_int (s_port s)), (''base_path'', JStr (s_base_path s)),
      (''roots'', case s_roots s of None \<Rightarrow> JNull | Some rs \<Rightarrow> JList (map root_json rs))]"

definition source_changes :: "source_update \<Rightarrow> source \<Rightarrow> source \<Rightarrow> (string \<times> json) list" where
  "source_changes p before after =
     List.map_filter (\<lambda>((k, old), (_, new)). if old = new then None else Some (k, JObj [(''from'', old), (''to'', new)]))
       (zip (audited_fields before) (audited_fields after)) @
     (if ub_credential p = None then [] else [(''credential'', JStr ''replaced'')]) @
     (if ub_tls_ca_pem p \<noteq> None \<and> s_tls_ca_pem after \<noteq> s_tls_ca_pem before
      then [(''tls_ca_pem'', JStr (if s_tls_ca_pem after = None then ''removed'' else ''replaced''))] else [])"

definition update_source ::
  "source_env \<Rightarrow> user \<Rightarrow> int \<Rightarrow> source_update \<Rightarrow> db \<Rightarrow> source_failure + (source \<times> db)" where
  "update_source SE u source_id p d =
     bindE (require_manage d u) (\<lambda>_.
     bindE (ca_fits (given (ub_tls_ca_pem p) None)) (\<lambda>_.
     bindE (someE (Refused (not_found ''Source not found'')) (get_source d source_id)) (\<lambda>s.
     bindE (require_not_system s) (\<lambda>_.
     bindE (changed_source SE p d s) (\<lambda>s1.
     let d1 = d\<lparr>sources := tbl_put s_id s1 (sources d)\<rparr>;
         d2 = (if location s1 \<noteq> location s \<or> \<not> (s_enabled s1 \<and> s_search_indexing_enabled s1)
               then delete_source_index source_id d1 else d1);
         changes = source_changes p s s1
     in Inr (s1, record_audit_event (se_env SE) d2 d2 (Some (u_id u)) ''source.update'' (Some ''source'') (Some source_id)
                   (if changes = [] then None else Some [(''changes'', JObj changes)])))))))"

section \<open>Deleting, and the token of an agent\<close>

definition delete_source :: "source_env \<Rightarrow> user \<Rightarrow> int \<Rightarrow> db \<Rightarrow> source_failure + db" where
  "delete_source SE u source_id d =
     bindE (require_manage d u) (\<lambda>_.
     bindE (someE (Refused (not_found ''Source not found'')) (get_source d source_id)) (\<lambda>s.
     bindE (require_not_system s) (\<lambda>_.
     let d1 = delete_source_index source_id (delete_scope_grants ScopeSource source_id d);
         d2 = d1\<lparr>alerts := filter (\<lambda>a. al_source_id a \<noteq> Some source_id) (alerts d1),
                 severity_patterns := filter (\<lambda>x. sp_source_id x \<noteq> Some source_id) (severity_patterns d1),
                 rules := filter (\<lambda>r. r_source_id r \<noteq> source_id) (rules d1),
                 sources := tbl_del s_id source_id (sources d1)\<rparr>
     in Inr (record_audit_event (se_env SE) d d2 (Some (u_id u)) ''source.delete'' (Some ''source'') (Some source_id) None))))"

definition regenerate_agent_token :: "source_env \<Rightarrow> string \<Rightarrow> user \<Rightarrow> int \<Rightarrow> db \<Rightarrow> source_failure + (string \<times> db)" where
  "regenerate_agent_token SE token u source_id d =
     bindE (require_manage d u) (\<lambda>_.
     bindE (someE (Refused (not_found ''Source not found'')) (get_source d source_id)) (\<lambda>s.
     bindE (requireE (s_protocol s = Agent) (bad_request ''Only agent-protocol sources have an enrollment token'')) (\<lambda>_.
     let d1 = d\<lparr>sources := tbl_put s_id (s\<lparr>s_agent_token_hash := Some (se_sha256_hex SE token)\<rparr>) (sources d)\<rparr>
     in Inr (token, record_audit_event (se_env SE) d1 d1 (Some (u_id u)) ''source.agent_token_regenerate''
               (Some ''source'') (Some (s_id s)) None))))"

section \<open>What a source looks like to a user\<close>

record source_public =
  pb_id :: int
  pb_name :: string
  pb_customer_id :: "int option"
  pb_customer_name :: "string option"
  pb_folder_id :: "int option"
  pb_folder_name :: "string option"
  pb_folder_path :: "(int \<times> string) list"
  pb_protocol :: protocol
  pb_host :: string
  pb_port :: "int option"
  pb_base_path :: string
  pb_roots :: "source_root list"
  pb_winrm_scheme :: "string option"
  pb_winrm_effective_scheme :: "string option"
  pb_tls_ca_pem :: "string option"
  pb_enabled :: bool
  pb_is_system :: bool
  pb_rule_count :: nat
  pb_has_credential :: bool
  pb_has_agent_token :: bool
  pb_agent_connected :: bool
  pb_agent_last_seen_at :: "int option"
  pb_agent_os :: "string option"
  pb_search_indexing_enabled :: bool
  pb_my_capabilities :: "capability list"

fun allowed_capabilities :: "db \<Rightarrow> user \<Rightarrow> source \<Rightarrow> capability list \<Rightarrow> capability list outcome" where
  "allowed_capabilities d u s [] = Some (Inr [])"
| "allowed_capabilities d u s (c # cs) =
     bindO (resolve_capability d u s c) (\<lambda>b.
     bindO (allowed_capabilities d u s cs) (\<lambda>rest. Some (Inr (if b then c # rest else rest))))"

definition to_public :: "source_env \<Rightarrow> db \<Rightarrow> user \<Rightarrow> folder_visibility_context \<Rightarrow> source \<Rightarrow> source_public outcome" where
  "to_public SE d u ctx s =
     Option.bind (source_folder_path ctx s) (\<lambda>path.
     bindO (allowed_capabilities d u s [View, Download, ManageRules, RunNow]) (\<lambda>caps.
     Some (Inr
       \<lparr>pb_id = s_id s, pb_name = s_name s, pb_customer_id = s_customer_id s,
        pb_customer_name = map_option c_name (Option.bind (s_customer_id s) (get_customer d)),
        pb_folder_id = s_folder_id s,
        pb_folder_name = map_option f_name (Option.bind (s_folder_id s) (get_folder d)),
        pb_folder_path = map (\<lambda>f. (f_id f, f_name f)) path,
        pb_protocol = s_protocol s, pb_host = s_host s, pb_port = s_port s, pb_base_path = s_base_path s,
        pb_roots = roots_of s, pb_winrm_scheme = s_winrm_scheme s,
        pb_winrm_effective_scheme =
          (if s_protocol s = Winrm then Some (fst (winrm_endpoint (s_winrm_scheme s) (s_port s))) else None),
        pb_tls_ca_pem = s_tls_ca_pem s, pb_enabled = s_enabled s, pb_is_system = s_is_system s,
        pb_rule_count = length (rules_for d (s_id s)), pb_has_credential = s_credential_ref s \<noteq> None,
        pb_has_agent_token = s_agent_token_hash s \<noteq> None,
        pb_agent_connected = (s_protocol s = Agent \<and> se_connected SE (s_id s)),
        pb_agent_last_seen_at = s_agent_last_seen_at s, pb_agent_os = s_agent_os s,
        pb_search_indexing_enabled = s_search_indexing_enabled s, pb_my_capabilities = caps\<rparr>)))"

fun all_to_public ::
  "source_env \<Rightarrow> db \<Rightarrow> user \<Rightarrow> folder_visibility_context \<Rightarrow> source list \<Rightarrow> source_public list outcome" where
  "all_to_public SE d u ctx [] = Some (Inr [])"
| "all_to_public SE d u ctx (s # ss) =
     bindO (to_public SE d u ctx s) (\<lambda>x. bindO (all_to_public SE d u ctx ss) (\<lambda>xs. Some (Inr (x # xs))))"

definition in_scope :: "int list option \<Rightarrow> int \<Rightarrow> bool" where
  "in_scope ids i = (case ids of None \<Rightarrow> True | Some v \<Rightarrow> i \<in> set v)"

definition list_sources :: "source_env \<Rightarrow> db \<Rightarrow> user \<Rightarrow> source_public list outcome" where
  "list_sources SE d u =
     bindO (visible_source_ids d u View) (\<lambda>ids.
     if ids = Some [] then Some (Inr [])
     else
       let found = (case ids of
                      None \<Rightarrow> sort_key s_id (sources d)
                    | Some v \<Rightarrow> filter (\<lambda>s. s_id s \<in> set v) (sources d))
       in bindO (Some (build_folder_visibility_context d u)) (\<lambda>ctx. all_to_public SE d u ctx found))"

text \<open>The loop of \<open>list_recent_sources\<close> over the events, newest first.\<close>

fun recent_ids :: "int list option \<Rightarrow> int \<Rightarrow> int list \<Rightarrow> int option list \<Rightarrow> int list" where
  "recent_ids ids limit found [] = found"
| "recent_ids ids limit found (target # events) =
     (case target of
        None \<Rightarrow> recent_ids ids limit found events
      | Some i \<Rightarrow>
          if i \<in> set found \<or> \<not> in_scope ids i then recent_ids ids limit found events
          else if int (length found) + 1 \<ge> limit then found @ [i]
          else recent_ids ids limit (found @ [i]) events)"

definition opened_sources :: "db \<Rightarrow> user \<Rightarrow> int \<Rightarrow> int option list" where
  "opened_sources d u limit =
     take (nat (max (limit * 20) 100))
       (map a_target_id
         (sort_key (\<lambda>a. - a_timestamp a)
           (filter (\<lambda>a. a_user_id a = Some (u_id u) \<and> a_action a = ''source.open'') (audit_rows d))))"

definition list_recent_sources :: "source_env \<Rightarrow> db \<Rightarrow> user \<Rightarrow> int \<Rightarrow> source_public list outcome" where
  "list_recent_sources SE d u limit =
     bindO (visible_source_ids d u View) (\<lambda>ids.
     if ids = Some [] then Some (Inr [])
     else
       let ordered = recent_ids ids limit [] (opened_sources d u limit)
       in if ordered = [] then Some (Inr [])
          else bindO (Some (build_folder_visibility_context d u)) (\<lambda>ctx.
               all_to_public SE d u ctx (List.map_filter (get_source d) ordered)))"

definition get_source_endpoint :: "source_env \<Rightarrow> db \<Rightarrow> user \<Rightarrow> int \<Rightarrow> source_public outcome" where
  "get_source_endpoint SE d u source_id =
     bindO (require_capability d u source_id View) (\<lambda>s.
     bindO (Some (build_folder_visibility_context d u)) (\<lambda>ctx. to_public SE d u ctx s))"

section \<open>The machine\<close>

datatype source_op =
    CreateSource_op source_create
  | UpdateSource_op int source_update
  | DeleteSource_op int
  | RegenerateToken int string

fun exec_source :: "source_env \<Rightarrow> user \<times> source_op \<Rightarrow> db \<Rightarrow> source_failure + db" where
  "exec_source SE (u, CreateSource_op p) d = bindE (create_source SE u p d) (\<lambda>(s, d'). Inr d')"
| "exec_source SE (u, UpdateSource_op i p) d = bindE (update_source SE u i p d) (\<lambda>(s, d'). Inr d')"
| "exec_source SE (u, DeleteSource_op i) d = delete_source SE u i d"
| "exec_source SE (u, RegenerateToken i token) d = bindE (regenerate_agent_token SE token u i d) (\<lambda>(t, d'). Inr d')"

text \<open>A source is well formed: two or more well-labelled roots or none, mirrored by the base path, and a place
  in the tree that exists and belongs to its customer.\<close>

definition roots_ok :: "source \<Rightarrow> bool" where
  "roots_ok s \<longleftrightarrow>
     (case s_roots s of
        None \<Rightarrow> True
      | Some rs \<Rightarrow> 2 \<le> length rs \<and> int (length rs) \<le> hard_max_roots \<and> s_protocol s \<noteq> Agent \<and>
                   list_all (\<lambda>r. valid_label (root_label r)) rs \<and>
                   distinct (map (\<lambda>r. lower (root_label r)) rs) \<and> s_base_path s = root_path (hd rs))"

definition scope_ok :: "db \<Rightarrow> source \<Rightarrow> bool" where
  "scope_ok d s \<longleftrightarrow>
     (case s_folder_id s of
        None \<Rightarrow> (case s_customer_id s of None \<Rightarrow> True | Some c \<Rightarrow> get_customer d c \<noteq> None)
      | Some i \<Rightarrow> (\<exists>f. get_folder d i = Some f \<and> (s_customer_id s = None \<or> s_customer_id s = Some (f_customer_id f))))"

text \<open>Some row names the source.\<close>

definition names_source :: "int \<Rightarrow> db \<Rightarrow> bool" where
  "names_source i d \<longleftrightarrow>
     list_ex (\<lambda>r. r_source_id r = i) (rules d) \<or> list_ex (\<lambda>x. sp_source_id x = Some i) (severity_patterns d) \<or>
     list_ex (\<lambda>st. si_source_id st = i) (index_states d) \<or> list_ex (\<lambda>r. fts_source_id r = i) (fts_rows d) \<or>
     list_ex (\<lambda>a. al_source_id a = Some i) (alerts d) \<or> list_ex (\<lambda>f. af_source_id f = i) (alert_file_states d) \<or>
     list_ex (\<lambda>g. g_scope_type g = ScopeSource \<and> g_scope_id g = i) (role_grants d)"

definition sources_inv :: "db \<Rightarrow> bool" where
  "sources_inv d \<longleftrightarrow>
     distinct (map s_id (sources d)) \<and> 0 \<le> source_seq d \<and>
     (\<forall>s \<in> set (sources d). s_id s \<le> source_seq d \<and> roots_ok s \<and> scope_ok d s) \<and>
     (\<forall>i. names_source i d \<longrightarrow> get_source d i \<noteq> None)"

section \<open>What an operation does\<close>

lemma check_roots_ok:
  "check_roots SE p seen roots = Inr out \<Longrightarrow>
     length out = length roots \<and> list_all (\<lambda>r. valid_label (root_label r)) out \<and>
     distinct (map (\<lambda>r. lower (root_label r)) out) \<and> set (map (\<lambda>r. lower (root_label r)) out) \<inter> set seen = {}"
proof (induction SE p seen roots arbitrary: out rule: check_roots.induct)
  case (2 SE p seen root roots)
  let ?label = "strip (root_label root)"
  from 2(2) obtain path rest where r: "valid_label ?label" "lower ?label \<notin> set seen"
    "validate_base_path SE p (root_path root) = Inr path" "check_roots SE p (lower ?label # seen) roots = Inr rest"
    "out = \<lparr>root_label = ?label, root_path = path\<rparr> # rest"
    by (auto simp: bindE_Inr_iff Let_def)
  from 2(1) [OF refl r(4)] have "length rest = length roots \<and> list_all (\<lambda>r. valid_label (root_label r)) rest \<and>
     distinct (map (\<lambda>r. lower (root_label r)) rest) \<and> set (map (\<lambda>r. lower (root_label r)) rest) \<inter> set (lower ?label # seen) = {}"
    by simp
  with r(1,2,5) show ?case by auto
qed simp

lemma validate_roots_ok:
  assumes "validate_roots SE p roots limit = Inr (Some out)"
  shows "2 \<le> length out" "list_all (\<lambda>r. valid_label (root_label r)) out" "distinct (map (\<lambda>r. lower (root_label r)) out)"
    "int (length out) \<le> limit" "p \<noteq> Agent"
proof -
  from assms have r: "check_roots SE p [] roots = Inr out" "\<not> length roots \<le> 1" "int (length roots) \<le> limit" "p \<noteq> Agent"
    by (auto simp: validate_roots_def bindE_Inr_iff split: if_splits)
  with check_roots_ok [OF r(1)] show "2 \<le> length out" "list_all (\<lambda>r. valid_label (root_label r)) out"
    "distinct (map (\<lambda>r. lower (root_label r)) out)" "int (length out) \<le> limit" "p \<noteq> Agent" by auto
qed

text \<open>The tables whose rows name sources, and those the place of a source refers to.\<close>

definition same_refs :: "db \<Rightarrow> db \<Rightarrow> bool" where
  "same_refs d d' \<longleftrightarrow>
     rules d' = rules d \<and> severity_patterns d' = severity_patterns d \<and> index_states d' = index_states d \<and>
     fts_rows d' = fts_rows d \<and> alerts d' = alerts d \<and> alert_file_states d' = alert_file_states d \<and>
     role_grants d' = role_grants d"

lemma record_audit_index [simp]:
  "severity_patterns (record_audit_event E seen d u a tt ti m) = severity_patterns d"
  "index_states (record_audit_event E seen d u a tt ti m) = index_states d"
  "fts_rows (record_audit_event E seen d u a tt ti m) = fts_rows d"
  by (simp_all add: record_audit_event_def)

lemma create_source_Inr:
  assumes "create_source SE u p d = Inr (s, d')"
  obtains limit where "validate_scope d (cr_customer_id p) (cr_folder_id p) = Inr ()" "max_roots d = Inr limit"
    "validate_roots SE (cr_protocol p) (given (cr_roots p) []) limit = Inr (s_roots s)"
    "new_base_path SE p (s_roots s) = Inr (s_base_path s)" "s_customer_id s = cr_customer_id p" "s_folder_id s = cr_folder_id p"
    "s_id s = source_seq d + 1" "sources d' = sources d @ [s]" "source_seq d' = source_seq d + 1"
    "same_refs d d'" "folders d' = folders d" "customers d' = customers d" "s_protocol s = cr_protocol p"
  using assms
  by (clarsimp simp: create_source_def bindE_Inr_iff Let_def same_refs_def)

lemma set_scope_Inr:
  assumes "set_scope p d s = Inr s'"
  shows "s_id s' = s_id s" "s_is_system s' = s_is_system s" "s_roots s' = s_roots s" "s_base_path s' = s_base_path s"
    "s_host s' = s_host s" "s_port s' = s_port s" "s_credential_ref s' = s_credential_ref s"
    "s_customer_id s' = s_customer_id s \<and> s_folder_id s' = s_folder_id s \<or> validate_scope d (s_customer_id s') (s_folder_id s') = Inr ()"
  using assms by (auto simp: set_scope_def bindE_Inr_iff Let_def split: if_splits)

lemma set_address_Inr:
  assumes "set_address p s = Inr s'"
  shows "s_id s' = s_id s" "s_is_system s' = s_is_system s" "s_roots s' = s_roots s" "s_base_path s' = s_base_path s"
    "s_customer_id s' = s_customer_id s" "s_folder_id s' = s_folder_id s" "s_credential_ref s' = s_credential_ref s"
    "s_credential_ref s \<noteq> None \<Longrightarrow> ub_credential p = None \<Longrightarrow> s_host s' = s_host s \<and> s_port s' = s_port s"
  using assms by (auto simp: set_address_def bindE_Inr_iff Let_def)

lemma step_protocol:
  "set_scope p d s = Inr s' \<Longrightarrow> s_protocol s' = s_protocol s"
  "set_address p s = Inr s' \<Longrightarrow> s_protocol s' = s_protocol s"
  "set_base_path SE p s = Inr s' \<Longrightarrow> s_protocol s' = s_protocol s"
  "set_tls SE p s = Inr s' \<Longrightarrow> s_protocol s' = s_protocol s"
  by (auto simp: set_scope_def set_address_def set_base_path_def set_tls_def Let_def bindE_Inr_iff
      split: if_splits option.splits)

lemma max_roots_le: "max_roots d = Inr n \<Longrightarrow> n \<le> hard_max_roots"
  by (auto simp: max_roots_def bindE_Inr_iff hard_max_roots_def)

lemma roots_ok_cong:
  "s_roots s' = s_roots s \<Longrightarrow> s_base_path s' = s_base_path s \<Longrightarrow> s_protocol s' = s_protocol s \<Longrightarrow> roots_ok s' = roots_ok s"
  by (simp add: roots_ok_def split: option.split)

lemma set_roots_cases:
  assumes "set_roots SE p d s = Inr s'"
  obtains "s' = s" | base where "s' = s\<lparr>s_roots := None, s_base_path := base\<rparr>"
    | out limit wanted where "validate_roots SE (s_protocol s) wanted limit = Inr (Some out)" "out \<noteq> []"
        "s' = s\<lparr>s_roots := Some out, s_base_path := root_path (hd out)\<rparr>"
        "limit \<le> max hard_max_roots (int (length (roots_of s)))"
proof (cases "ub_roots p")
  case (Some wanted)
  with assms obtain limit roots where r: "validate_roots SE (s_protocol s) wanted limit = Inr roots"
    and limit: "limit \<le> max hard_max_roots (int (length (roots_of s)))"
    and s': "(case roots of Some (root # _) \<Rightarrow> Inr (s\<lparr>s_roots := roots, s_base_path := root_path root\<rparr>)
        | _ \<Rightarrow> (case wanted of [] \<Rightarrow> Inr (s\<lparr>s_roots := roots\<rparr>)
             | root # _ \<Rightarrow> bindE (validate_base_path SE (s_protocol s) (root_path root)) (\<lambda>path.
                 Inr (s\<lparr>s_roots := roots, s_base_path := path\<rparr>)))) = Inr s'"
    by (auto simp: set_roots_def bindE_Inr_iff dest: max_roots_le)
  show ?thesis
  proof (cases roots)
    case None
    then have "\<exists>base. s' = s\<lparr>s_roots := None, s_base_path := base\<rparr>"
    proof (cases wanted)
      case Nil
      with s' None have "s' = s\<lparr>s_roots := None, s_base_path := s_base_path s\<rparr>" by (cases s) auto
      then show ?thesis ..
    next
      case (Cons root rest)
      with s' None show ?thesis by (auto simp: bindE_Inr_iff)
    qed
    with that(2) show ?thesis by blast
  next
    case (Some out)
    with validate_roots_ok(1) [OF r [unfolded Some]] obtain root rest where out: "out = root # rest" by (cases out) auto
    with s' Some have "s' = s\<lparr>s_roots := Some out, s_base_path := root_path (hd out)\<rparr>" by simp
    with that(3) [OF r [unfolded Some]] out limit show ?thesis by simp
  qed
next
  case None
  with assms have "s' = s" by (simp add: set_roots_def)
  then show ?thesis by (rule that(1))
qed

lemma set_roots_protocol: "set_roots SE p d s = Inr s' \<Longrightarrow> s_protocol s' = s_protocol s"
  by (elim set_roots_cases) auto

lemma set_roots_Inr:
  assumes "set_roots SE p d s = Inr s'"
  shows "s_id s' = s_id s" "s_is_system s' = s_is_system s" "s_customer_id s' = s_customer_id s" "s_folder_id s' = s_folder_id s"
    "s_host s' = s_host s" "s_port s' = s_port s" "s_credential_ref s' = s_credential_ref s" "roots_ok s \<Longrightarrow> roots_ok s'"
proof -
  from assms show "s_id s' = s_id s" "s_is_system s' = s_is_system s" "s_customer_id s' = s_customer_id s"
    "s_folder_id s' = s_folder_id s" "s_host s' = s_host s" "s_port s' = s_port s" "s_credential_ref s' = s_credential_ref s"
    by (auto elim!: set_roots_cases)
  assume "roots_ok s"
  then have few: "int (length (roots_of s)) \<le> hard_max_roots"
    by (auto simp: roots_ok_def roots_of_def Let_def hard_max_roots_def split: option.splits)
  show "roots_ok s'"
    using assms
  proof (cases rule: set_roots_cases)
    case 1
    with \<open>roots_ok s\<close> show ?thesis by simp
  next
    case (2 base)
    then show ?thesis by (simp add: roots_ok_def)
  next
    case (3 out limit wanted)
    note ok = validate_roots_ok [OF 3(1)]
    have "int (length out) \<le> hard_max_roots" using ok(4) 3(4) few by simp
    with ok 3(3) show ?thesis by (simp add: roots_ok_def)
  qed
qed

lemma set_base_path_Inr:
  assumes "set_base_path SE p s = Inr s'"
  shows "s_id s' = s_id s" "s_is_system s' = s_is_system s" "s_customer_id s' = s_customer_id s" "s_folder_id s' = s_folder_id s"
    "s_host s' = s_host s" "s_port s' = s_port s" "s_credential_ref s' = s_credential_ref s" "roots_ok s \<Longrightarrow> roots_ok s'"
proof -
  show "s_id s' = s_id s" "s_is_system s' = s_is_system s" "s_customer_id s' = s_customer_id s" "s_folder_id s' = s_folder_id s"
    "s_host s' = s_host s" "s_port s' = s_port s" "s_credential_ref s' = s_credential_ref s"
    using assms by (auto simp: set_base_path_def bindE_Inr_iff split: option.splits if_splits)
  assume ok: "roots_ok s"
  show "roots_ok s'"
  proof (cases "is_multi_root s")
    case True
    with assms have "s' = s" by (simp add: set_base_path_def split: option.splits)
    with ok show ?thesis by simp
  next
    case False
    with ok have "s_roots s = None" by (auto simp: roots_ok_def is_multi_root_def roots_of_def Let_def split: option.splits if_splits)
    moreover have "s_roots s' = s_roots s"
      using assms by (auto simp: set_base_path_def bindE_Inr_iff split: option.splits if_splits)
    ultimately show ?thesis by (simp add: roots_ok_def)
  qed
qed

lemma set_tls_Inr:
  assumes "set_tls SE p s = Inr s'"
  shows "s_id s' = s_id s" "s_is_system s' = s_is_system s" "s_customer_id s' = s_customer_id s" "s_folder_id s' = s_folder_id s"
    "s_host s' = s_host s" "s_port s' = s_port s" "s_credential_ref s' = s_credential_ref s"
    "s_roots s' = s_roots s" "s_base_path s' = s_base_path s"
  using assms by (auto simp: set_tls_def bindE_Inr_iff split: option.splits)

lemma changed_source_Inr:
  assumes "changed_source SE p d s = Inr s'"
  shows "s_id s' = s_id s" "s_is_system s' = s_is_system s" "roots_ok s \<Longrightarrow> roots_ok s'"
    "s_customer_id s' = s_customer_id s \<and> s_folder_id s' = s_folder_id s \<or> validate_scope d (s_customer_id s') (s_folder_id s') = Inr ()"
    "s_credential_ref s \<noteq> None \<Longrightarrow> ub_credential p = None \<Longrightarrow>
       s_host s' = s_host s \<and> s_port s' = s_port s \<and> s_credential_ref s' = s_credential_ref s"
proof -
  from assms obtain s1 s2 s3 s4 s5 where s1: "set_scope p d s = Inr s1"
    and s2: "set_address p (s1\<lparr>s_name := given (ub_name p) (s_name s1)\<rparr>) = Inr s2" and s3: "set_roots SE p d s2 = Inr s3"
    and s4: "set_base_path SE p s3 = Inr s4" and s5: "set_tls SE p s4 = Inr s5"
    and s': "s' = s5\<lparr>s_enabled := given (ub_enabled p) (s_enabled s5),
             s_credential_ref := (case ub_credential p of None \<Rightarrow> s_credential_ref s5 | Some c \<Rightarrow> Some (se_encrypt SE c)),
             s_search_indexing_enabled := given (ub_search_indexing_enabled p) (s_search_indexing_enabled s5)\<rparr>"
    by (auto simp: changed_source_def bindE_Inr_iff)
  note steps = set_scope_Inr [OF s1] set_address_Inr [OF s2] set_roots_Inr [OF s3] set_base_path_Inr [OF s4] set_tls_Inr [OF s5]
  show "s_id s' = s_id s" "s_is_system s' = s_is_system s" by (simp_all add: s' steps)
  show "s_customer_id s' = s_customer_id s \<and> s_folder_id s' = s_folder_id s \<or> validate_scope d (s_customer_id s') (s_folder_id s') = Inr ()"
    using set_scope_Inr(8) [OF s1] by (simp add: s' steps)
  show "s_host s' = s_host s \<and> s_port s' = s_port s \<and> s_credential_ref s' = s_credential_ref s"
    if "s_credential_ref s \<noteq> None" "ub_credential p = None"
    using that set_address_Inr(8) [OF s2] by (simp add: s' steps)
  assume "roots_ok s"
  note kept = step_protocol(1) [OF s1] step_protocol(2) [OF s2] set_roots_protocol [OF s3] step_protocol(3) [OF s4] step_protocol(4) [OF s5]
  from \<open>roots_ok s\<close> have "roots_ok s2" using roots_ok_cong [of s2 s] kept by (simp add: steps)
  then have "roots_ok s4" by (intro set_base_path_Inr(8) [OF s4] set_roots_Inr(8) [OF s3])
  then show "roots_ok s'" using roots_ok_cong [of s' s4] kept by (simp add: s' steps)
qed

definition fewer_refs :: "db \<Rightarrow> db \<Rightarrow> bool" where
  "fewer_refs d d' \<longleftrightarrow>
     set (rules d') \<subseteq> set (rules d) \<and> set (severity_patterns d') \<subseteq> set (severity_patterns d) \<and>
     set (index_states d') \<subseteq> set (index_states d) \<and> set (fts_rows d') \<subseteq> set (fts_rows d) \<and>
     set (alerts d') \<subseteq> set (alerts d) \<and> set (alert_file_states d') \<subseteq> set (alert_file_states d) \<and>
     set (role_grants d') \<subseteq> set (role_grants d)"

lemma names_fewer: "fewer_refs d d' \<Longrightarrow> names_source i d' \<Longrightarrow> names_source i d"
  unfolding fewer_refs_def names_source_def list_ex_iff by (elim conjE disjE) blast+

lemma same_refs_fewer: "same_refs d d' \<Longrightarrow> fewer_refs d d'"
  by (simp add: same_refs_def fewer_refs_def)

lemma delete_index_refs:
  "fewer_refs d (delete_source_index i d)" "rules (delete_source_index i d) = rules d"
  "severity_patterns (delete_source_index i d) = severity_patterns d" "role_grants (delete_source_index i d) = role_grants d"
  "alerts (delete_source_index i d) = alerts d" "sources (delete_source_index i d) = sources d"
  "source_seq (delete_source_index i d) = source_seq d"
  "folders (delete_source_index i d) = folders d" "customers (delete_source_index i d) = customers d"
  "roles (delete_source_index i d) = roles d"
  "index_states (delete_source_index i d) = filter (\<lambda>st. si_source_id st \<noteq> i) (index_states d)"
  "fts_rows (delete_source_index i d) = filter (\<lambda>r. fts_source_id r \<noteq> i) (fts_rows d)"
  "alert_file_states (delete_source_index i d) = filter (\<lambda>f. af_source_id f \<noteq> i) (alert_file_states d)"
  by (auto simp: fewer_refs_def delete_source_index_def delete_alert_file_states_def)

lemma update_source_Inr:
  assumes "update_source SE u i p d = Inr (s1, d')"
  obtains s where "get_source d i = Some s" "\<not> s_is_system s" "changed_source SE p d s = Inr s1"
    "sources d' = tbl_put s_id s1 (sources d)" "source_seq d' = source_seq d" "fewer_refs d d'"
    "folders d' = folders d" "customers d' = customers d"
    "location s1 \<noteq> location s \<or> \<not> (s_enabled s1 \<and> s_search_indexing_enabled s1) \<longrightarrow>
       (\<forall>st \<in> set (index_states d'). si_source_id st \<noteq> i) \<and> (\<forall>r \<in> set (fts_rows d'). fts_source_id r \<noteq> i) \<and>
       (\<forall>f \<in> set (alert_file_states d'). af_source_id f \<noteq> i)"
proof -
  from assms obtain s where s: "get_source d i = Some s" "\<not> s_is_system s" "changed_source SE p d s = Inr s1"
    and d': "d' = record_audit_event (se_env SE)
        (if location s1 \<noteq> location s \<or> \<not> (s_enabled s1 \<and> s_search_indexing_enabled s1)
         then delete_source_index i (d\<lparr>sources := tbl_put s_id s1 (sources d)\<rparr>) else d\<lparr>sources := tbl_put s_id s1 (sources d)\<rparr>)
        (if location s1 \<noteq> location s \<or> \<not> (s_enabled s1 \<and> s_search_indexing_enabled s1)
         then delete_source_index i (d\<lparr>sources := tbl_put s_id s1 (sources d)\<rparr>) else d\<lparr>sources := tbl_put s_id s1 (sources d)\<rparr>)
        (Some (u_id u)) ''source.update'' (Some ''source'') (Some i)
        (if source_changes p s s1 = [] then None else Some [(''changes'', JObj (source_changes p s s1))])"
    (is "d' = record_audit_event _ ?d2 _ _ _ _ _ _")
    by (auto simp: update_source_def bindE_Inr_iff Let_def require_not_system_def)
  have "fewer_refs d ?d2" "sources ?d2 = tbl_put s_id s1 (sources d)" "source_seq ?d2 = source_seq d"
    "folders ?d2 = folders d" "customers ?d2 = customers d"
    by (auto simp: delete_index_refs fewer_refs_def)
  with s show ?thesis
    by (intro that [of s]) (simp_all add: d' fewer_refs_def delete_index_refs)
qed

lemma delete_source_Inr:
  assumes "delete_source SE u i d = Inr d'"
  obtains s where "get_source d i = Some s" "\<not> s_is_system s" "sources d' = tbl_del s_id i (sources d)" "source_seq d' = source_seq d"
    "fewer_refs d d'" "\<not> names_source i d'" "folders d' = folders d" "customers d' = customers d"
    "alerts d' = filter (\<lambda>a. al_source_id a \<noteq> Some i) (alerts d)"
    "alert_file_states d' = filter (\<lambda>f. af_source_id f \<noteq> i) (alert_file_states d)" "roles d' = roles d"
proof -
  let ?d1 = "delete_source_index i (delete_scope_grants ScopeSource i d)"
  let ?d2 = "?d1\<lparr>alerts := filter (\<lambda>a. al_source_id a \<noteq> Some i) (alerts ?d1),
                 severity_patterns := filter (\<lambda>x. sp_source_id x \<noteq> Some i) (severity_patterns ?d1),
                 rules := filter (\<lambda>r. r_source_id r \<noteq> i) (rules ?d1),
                 sources := tbl_del s_id i (sources ?d1)\<rparr>"
  from assms obtain s where s: "get_source d i = Some s" "\<not> s_is_system s"
    and d': "d' = record_audit_event (se_env SE) d ?d2 (Some (u_id u)) ''source.delete'' (Some ''source'') (Some i) None"
    by (auto simp: delete_source_def bindE_Inr_iff Let_def require_not_system_def)
  have "fewer_refs d d'" "\<not> names_source i d'"
    by (auto simp: d' fewer_refs_def names_source_def list_ex_iff delete_index_refs delete_scope_grants_def)
  with s show ?thesis by (intro that [of s]) (simp_all add: d' delete_index_refs delete_scope_grants_def)
qed

lemma regenerate_token_Inr:
  assumes "regenerate_agent_token SE token u i d = Inr (t, d')"
  obtains s where "get_source d i = Some s"
    "sources d' = tbl_put s_id (s\<lparr>s_agent_token_hash := Some (se_sha256_hex SE token)\<rparr>) (sources d)"
    "source_seq d' = source_seq d" "same_refs d d'" "folders d' = folders d" "customers d' = customers d" "s_protocol s = Agent"
  using assms by (auto simp: regenerate_agent_token_def bindE_Inr_iff Let_def same_refs_def)

section \<open>Every operation keeps the invariant\<close>

lemma scope_ok_cong: "folders d' = folders d \<Longrightarrow> customers d' = customers d \<Longrightarrow> scope_ok d' s = scope_ok d s"
  by (simp add: scope_ok_def split: option.split)

lemma scope_ok_same: "s_customer_id s' = s_customer_id s \<Longrightarrow> s_folder_id s' = s_folder_id s \<Longrightarrow> scope_ok d s' = scope_ok d s"
  by (simp add: scope_ok_def split: option.split)

lemma validate_scope_ok: "validate_scope d (s_customer_id s) (s_folder_id s) = Inr () \<Longrightarrow> scope_ok d s"
  by (auto simp: validate_scope_def scope_ok_def bindE_Inr_iff split: option.splits)

lemma sources_inv_step:
  assumes "sources_inv d" "fewer_refs d d'" "folders d' = folders d" "customers d' = customers d"
    and "distinct (map s_id (sources d'))" "source_seq d \<le> source_seq d'"
    and "\<forall>s \<in> set (sources d'). s_id s \<le> source_seq d' \<and> roots_ok s \<and> scope_ok d s"
    and "\<forall>i. get_source d i \<noteq> None \<longrightarrow> get_source d' i = None \<longrightarrow> \<not> names_source i d'"
  shows "sources_inv d'"
proof -
  have "get_source d' i \<noteq> None" if "names_source i d'" for i
    using names_fewer [OF assms(2) that] assms(1,8) that unfolding sources_inv_def by blast
  moreover have "0 \<le> source_seq d'" using assms(1,6) by (simp add: sources_inv_def)
  moreover have "scope_ok d' = scope_ok d" using scope_ok_cong [OF assms(3,4)] by blast
  ultimately show ?thesis unfolding sources_inv_def using assms(5,7) by simp
qed

lemma put_source_inv:
  assumes "sources_inv d" "get_source d i = Some s" "s_id s1 = i" "roots_ok s1" "scope_ok d s1"
    and "sources d' = tbl_put s_id s1 (sources d)" "source_seq d' = source_seq d" "fewer_refs d d'"
    and "folders d' = folders d" "customers d' = customers d"
  shows "sources_inv d'"
proof (rule sources_inv_step [OF assms(1,8-10)])
  have inv: "distinct (map s_id (sources d))" "\<forall>s \<in> set (sources d). s_id s \<le> source_seq d \<and> roots_ok s \<and> scope_ok d s"
    using assms(1) by (simp_all add: sources_inv_def)
  show "distinct (map s_id (sources d'))" using inv(1) by (simp add: assms(6))
  have "i \<le> source_seq d" using tbl_get_Some [OF assms(2)] inv(2) by auto
  show "\<forall>s \<in> set (sources d'). s_id s \<le> source_seq d' \<and> roots_ok s \<and> scope_ok d s"
  proof
    fix x assume "x \<in> set (sources d')"
    then have "x = s1 \<or> x \<in> set (sources d)" by (auto simp: assms(6) tbl_put_def split: if_splits)
    with inv(2) assms(3-5,7) \<open>i \<le> source_seq d\<close> show "s_id x \<le> source_seq d' \<and> roots_ok x \<and> scope_ok d x" by auto
  qed
  show "\<forall>j. get_source d j \<noteq> None \<longrightarrow> get_source d' j = None \<longrightarrow> \<not> names_source j d'"
    by (auto simp: assms(6) table_simps)
qed (simp add: assms(7))

lemma exec_source_inv:
  assumes "sources_inv d" "exec_source SE x d = Inr d'"
  shows "sources_inv d'"
proof -
  have inv: "distinct (map s_id (sources d))" "\<forall>s \<in> set (sources d). s_id s \<le> source_seq d \<and> roots_ok s \<and> scope_ok d s"
    using assms(1) by (simp_all add: sources_inv_def)
  obtain u op where x: "x = (u, op)" by (cases x)
  show ?thesis
  proof (cases op)
    case (CreateSource_op p)
    with assms(2) x obtain s where "create_source SE u p d = Inr (s, d')" by (auto simp: bindE_Inr_iff)
    then obtain limit where s: "validate_scope d (cr_customer_id p) (cr_folder_id p) = Inr ()"
      "validate_roots SE (cr_protocol p) (given (cr_roots p) []) limit = Inr (s_roots s)"
      "new_base_path SE p (s_roots s) = Inr (s_base_path s)" "s_customer_id s = cr_customer_id p" "s_folder_id s = cr_folder_id p"
      "s_id s = source_seq d + 1" "sources d' = sources d @ [s]" "source_seq d' = source_seq d + 1"
      "same_refs d d'" "folders d' = folders d" "customers d' = customers d"
      "max_roots d = Inr limit" "s_protocol s = cr_protocol p" by (rule create_source_Inr)
    have "scope_ok d s" using s(1) by (intro validate_scope_ok) (simp add: s(4,5))
    moreover have "roots_ok s"
    proof (cases "s_roots s")
      case (Some out)
      note out = validate_roots_ok [OF s(2) [unfolded Some]]
      then obtain root rest where "out = root # rest" by (cases out) auto
      moreover have "int (length out) \<le> hard_max_roots" using out(4) max_roots_le [OF s(12)] by simp
      ultimately show ?thesis using s(3,13) Some out by (simp add: roots_ok_def new_base_path_def)
    qed (simp add: roots_ok_def)
    moreover have "source_seq d + 1 \<notin> s_id ` set (sources d)" using inv(2) by force
    ultimately show ?thesis
      using inv by (intro sources_inv_step [OF assms(1) same_refs_fewer [OF s(9)] s(10,11)])
        (auto simp: s(6-8) table_simps split: option.splits)
  next
    case (UpdateSource_op i p)
    with assms(2) x obtain s1 where "update_source SE u i p d = Inr (s1, d')" by (auto simp: bindE_Inr_iff)
    then obtain s where s: "get_source d i = Some s" "changed_source SE p d s = Inr s1"
      "sources d' = tbl_put s_id s1 (sources d)" "source_seq d' = source_seq d" "fewer_refs d d'"
      "folders d' = folders d" "customers d' = customers d" by (rule update_source_Inr)
    note c = changed_source_Inr [OF s(2)]
    have old: "s_id s = i" "roots_ok s" "scope_ok d s" using tbl_get_Some [OF s(1)] inv(2) by auto
    have "scope_ok d s1"
      using c(4)
    proof
      assume "s_customer_id s1 = s_customer_id s \<and> s_folder_id s1 = s_folder_id s"
      with old(3) show ?thesis using scope_ok_same [of s1 s d] by simp
    qed (rule validate_scope_ok)
    with c(1,3) old s show ?thesis by (intro put_source_inv [OF assms(1) s(1)]) simp_all
  next
    case (DeleteSource_op i)
    with assms(2) x have "delete_source SE u i d = Inr d'" by simp
    then obtain s where s: "sources d' = tbl_del s_id i (sources d)" "source_seq d' = source_seq d" "fewer_refs d d'"
      "\<not> names_source i d'" "folders d' = folders d" "customers d' = customers d" by (rule delete_source_Inr)
    show ?thesis
    proof (rule sources_inv_step [OF assms(1) s(3,5,6)])
      show "distinct (map s_id (sources d'))" using inv(1) by (simp add: s(1) tbl_del_def distinct_map_filter)
      show "\<forall>s \<in> set (sources d'). s_id s \<le> source_seq d' \<and> roots_ok s \<and> scope_ok d s"
        using inv(2) by (simp add: s(1,2) tbl_del_def)
      show "\<forall>j. get_source d j \<noteq> None \<longrightarrow> get_source d' j = None \<longrightarrow> \<not> names_source j d'"
        using s(4) by (auto simp: s(1) table_simps)
    qed (simp add: s(2))
  next
    case (RegenerateToken i token)
    with assms(2) x obtain t where "regenerate_agent_token SE token u i d = Inr (t, d')" by (auto simp: bindE_Inr_iff)
    then obtain s where s: "get_source d i = Some s"
      "sources d' = tbl_put s_id (s\<lparr>s_agent_token_hash := Some (se_sha256_hex SE token)\<rparr>) (sources d)"
      "source_seq d' = source_seq d" "same_refs d d'" "folders d' = folders d" "customers d' = customers d"
      by (rule regenerate_token_Inr)
    have "s_id s = i" "roots_ok s" "scope_ok d s" using tbl_get_Some [OF s(1)] inv(2) by auto
    let ?s1 = "s\<lparr>s_agent_token_hash := Some (se_sha256_hex SE token)\<rparr>"
    have "roots_ok ?s1" using roots_ok_cong [of ?s1 s] \<open>roots_ok s\<close> by simp
    moreover have "scope_ok d ?s1" using scope_ok_same [of ?s1 s d] \<open>scope_ok d s\<close> by simp
    moreover have "s_id ?s1 = i" using \<open>s_id s = i\<close> by simp
    ultimately show ?thesis
      by (intro put_source_inv [OF assms(1) s(1) _ _ _ s(2,3) same_refs_fewer [OF s(4)] s(5,6)])
  qed
qed

interpretation srcs: guarded_machine "exec_source SE" sources_inv for SE
  by unfold_locales (rule exec_source_inv)

section \<open>The saved credential\<close>

fun brings_credential :: "int \<Rightarrow> source_op \<Rightarrow> bool" where
  "brings_credential i (UpdateSource_op j p) = (j = i \<and> ub_credential p \<noteq> None)"
| "brings_credential i _ = False"

definition same_address :: "source \<Rightarrow> source \<Rightarrow> bool" where
  "same_address s s' \<longleftrightarrow> s_host s' = s_host s \<and> s_port s' = s_port s \<and> s_credential_ref s' = s_credential_ref s"

lemma put_from: "x \<in> set (tbl_put key r rows) \<Longrightarrow> x = r \<or> x \<in> set rows \<and> key x \<noteq> key r"
  by (auto simp: tbl_put_def split: if_splits)

lemma credential_step:
  assumes "exec_source SE (u, op) d = Inr d'" "\<not> brings_credential i op" "i \<le> source_seq d"
    and "s' \<in> set (sources d')" "s_id s' = i"
  shows "\<exists>s \<in> set (sources d). s_id s = i \<and> (s_credential_ref s \<noteq> None \<longrightarrow> same_address s s')"
proof (cases op)
  case (CreateSource_op p)
  with assms(1) obtain s where "create_source SE u p d = Inr (s, d')" by (auto simp: bindE_Inr_iff)
  then obtain limit where "s_id s = source_seq d + 1" "sources d' = sources d @ [s]" by (rule create_source_Inr)
  with assms(3-5) show ?thesis by (intro bexI [of _ s']) (auto simp: same_address_def)
next
  case (UpdateSource_op j p)
  with assms(1) obtain s1 where "update_source SE u j p d = Inr (s1, d')" by (auto simp: bindE_Inr_iff)
  then obtain s where s: "get_source d j = Some s" "changed_source SE p d s = Inr s1" "sources d' = tbl_put s_id s1 (sources d)"
    by (rule update_source_Inr)
  note c = changed_source_Inr(1,5) [OF s(2)]
  have old: "s_id s = j" "s \<in> set (sources d)" using tbl_get_Some [OF s(1)] by auto
  from put_from [of s' s_id s1] assms(4) s(3) consider "s' = s1" | "s' \<in> set (sources d)" by auto
  then show ?thesis
  proof cases
    case 1
    with assms(5) c(1) old have "j = i" by simp
    with assms(2) UpdateSource_op have "ub_credential p = None" by simp
    with c(2) 1 old \<open>j = i\<close> show ?thesis by (intro bexI [of _ s]) (auto simp: same_address_def)
  next
    case 2
    with assms(5) show ?thesis by (intro bexI [of _ s']) (auto simp: same_address_def)
  qed
next
  case (DeleteSource_op j)
  with assms(1) have "delete_source SE u j d = Inr d'" by simp
  then obtain s where "sources d' = tbl_del s_id j (sources d)" by (rule delete_source_Inr)
  with assms(4,5) show ?thesis by (intro bexI [of _ s']) (auto simp: same_address_def tbl_del_def)
next
  case (RegenerateToken j token)
  with assms(1) obtain t where "regenerate_agent_token SE token u j d = Inr (t, d')" by (auto simp: bindE_Inr_iff)
  then obtain s where s: "get_source d j = Some s"
    "sources d' = tbl_put s_id (s\<lparr>s_agent_token_hash := Some (se_sha256_hex SE token)\<rparr>) (sources d)" by (rule regenerate_token_Inr)
  have old: "s_id s = j" "s \<in> set (sources d)" using tbl_get_Some [OF s(1)] by auto
  from put_from [of s' s_id] assms(4) s(2) consider "s' = s\<lparr>s_agent_token_hash := Some (se_sha256_hex SE token)\<rparr>" | "s' \<in> set (sources d)"
    by auto
  then show ?thesis
  proof cases
    case 1
    with assms(5) old show ?thesis by (intro bexI [of _ s]) (auto simp: same_address_def)
  next
    case 2
    with assms(5) show ?thesis by (intro bexI [of _ s']) (auto simp: same_address_def)
  qed
qed

lemma exec_source_seq: "exec_source SE x d = Inr d' \<Longrightarrow> source_seq d \<le> source_seq d'"
proof -
  obtain u op where x: "x = (u, op)" by (cases x)
  assume "exec_source SE x d = Inr d'"
  then show ?thesis
    unfolding x by (cases op)
      (auto simp: bindE_Inr_iff elim!: create_source_Inr update_source_Inr delete_source_Inr regenerate_token_Inr)
qed

lemma credential_run:
  assumes "list_all (\<lambda>(u, op). \<not> brings_credential i op) ops" "i \<le> source_seq d"
    and "\<forall>s \<in> set (sources d). s_id s = i \<longrightarrow> s_credential_ref s \<noteq> None \<and> same_address s0 s"
  shows "\<forall>s \<in> set (sources (srcs.run_ops SE ops d)). s_id s = i \<longrightarrow> same_address s0 s"
  using assms
proof (induction ops arbitrary: d)
  case Nil
  then show ?case by simp
next
  case (Cons x ops)
  obtain u op where x: "x = (u, op)" by (cases x)
  show ?case
  proof (cases "exec_source SE x d")
    case (Inl e)
    with Cons.IH [of d] Cons.prems show ?thesis by simp
  next
    case (Inr d')
    have "s_credential_ref s' \<noteq> None \<and> same_address s0 s'" if s': "s' \<in> set (sources d')" "s_id s' = i" for s'
    proof -
      have "\<not> brings_credential i op" using Cons.prems(1) x by simp
      from credential_step [OF Inr [unfolded x] this Cons.prems(2) s'] obtain s where
        s: "s \<in> set (sources d)" "s_id s = i" "s_credential_ref s \<noteq> None \<longrightarrow> same_address s s'" by blast
      with Cons.prems(3) have "s_credential_ref s \<noteq> None" "same_address s0 s" by blast+
      with s(3) show ?thesis by (simp add: same_address_def)
    qed
    with Cons.IH [of d'] Cons.prems(1,2) exec_source_seq [OF Inr] Inr show ?thesis by simp
  qed
qed

section \<open>Properties\<close>

text \<open>
  C35: Sources stay well formed: after any sequence of requests source ids are unique and none lies above
  the counter; a source with several folders is not one of an agent, has at least two and at most the
  hard limit of them, with valid labels that differ in more than case, and points at the first of them;
  the folder and the customer of a source exist and belong together; and no rule, pattern, grant, alert
  or index row names a source that is gone.
\<close>

theorem sources_stay_well_formed:
  assumes "sources_inv d"
  shows "sources_inv (srcs.run_ops SE ops d)"
  by (rule srcs.run_inv [OF assms])

text \<open>
  C34: Nothing of a deleted source comes back under a new one: whatever was created, changed and deleted
  before, a new source gets an id no row of any table names, so it starts without rules, grants, index
  and alerts.
\<close>

theorem a_new_source_is_named_nowhere:
  assumes "sources_inv d0" "d = srcs.run_ops SE ops d0" "create_source SE u p d = Inr (s, d')"
  shows "get_source d (s_id s) = None \<and> \<not> names_source (s_id s) d' \<and> rules_for d' (s_id s) = []"
proof -
  have inv: "sources_inv d" unfolding assms(2) by (rule srcs.run_inv [OF assms(1)])
  from assms(3) obtain limit where s: "s_id s = source_seq d + 1" "same_refs d d'" by (rule create_source_Inr)
  have new: "get_source d (s_id s) = None"
    using inv s(1) by (auto simp: tbl_get_None sources_inv_def)
  moreover have "\<forall>i. names_source i d \<longrightarrow> get_source d i \<noteq> None" using inv by (simp add: sources_inv_def)
  ultimately have "\<not> names_source (s_id s) d" by blast
  then have "\<not> names_source (s_id s) d'" using names_fewer [OF same_refs_fewer [OF s(2)]] by blast
  moreover from this have "rules_for d' (s_id s) = []"
    by (auto simp: names_source_def rules_for_def list_ex_iff filter_empty_conv)
  ultimately show ?thesis using new by simp
qed

text \<open>
  C33: A saved credential is only ever sent to where it was saved for: however many requests change a
  source afterwards, as long as none brings a credential for it, it keeps the host, the port and the
  credential it had.
\<close>

theorem saved_credential_stays_with_its_host:
  assumes "sources_inv d" "s \<in> set (sources d)" "s_credential_ref s \<noteq> None"
    and "list_all (\<lambda>(u, op). \<not> brings_credential (s_id s) op) ops"
    and "s' \<in> set (sources (srcs.run_ops SE ops d))" "s_id s' = s_id s"
  shows "s_host s' = s_host s \<and> s_port s' = s_port s \<and> s_credential_ref s' = s_credential_ref s"
proof -
  have "distinct (map s_id (sources d))" "s_id s \<le> source_seq d" using assms(1,2) by (simp_all add: sources_inv_def)
  moreover from this(1) have "\<forall>x \<in> set (sources d). s_id x = s_id s \<longrightarrow> s_credential_ref x \<noteq> None \<and> same_address s x"
    using assms(2,3) same_id [of s_id "sources d" _ s] by (auto simp: same_address_def)
  ultimately have "\<forall>x \<in> set (sources (srcs.run_ops SE ops d)). s_id x = s_id s \<longrightarrow> same_address s x"
    by (intro credential_run [OF assms(4)])
  with assms(5,6) have "same_address s s'" by blast
  then show ?thesis by (simp add: same_address_def)
qed

text \<open>
  What is no longer to be kept is dropped at once: a request that disables a source, opts it out of
  search or points it elsewhere leaves no line, state or alert progress of it in the index.
\<close>

theorem closed_or_moved_sources_leave_the_index:
  assumes "update_source SE u i p d = Inr (s1, d')" "get_source d i = Some s"
    and "\<not> s_enabled s1 \<or> \<not> s_search_indexing_enabled s1 \<or> s_host s1 \<noteq> s_host s \<or> s_port s1 \<noteq> s_port s \<or>
         s_base_path s1 \<noteq> s_base_path s \<or> s_roots s1 \<noteq> s_roots s"
  shows "filter (\<lambda>st. si_source_id st = i) (index_states d') = [] \<and> filter (\<lambda>r. fts_source_id r = i) (fts_rows d') = [] \<and>
    filter (\<lambda>f. af_source_id f = i) (alert_file_states d') = []"
proof -
  from assms(1) obtain s0 where s0: "get_source d i = Some s0"
    "location s1 \<noteq> location s0 \<or> \<not> (s_enabled s1 \<and> s_search_indexing_enabled s1) \<longrightarrow>
       (\<forall>st \<in> set (index_states d'). si_source_id st \<noteq> i) \<and> (\<forall>r \<in> set (fts_rows d'). fts_source_id r \<noteq> i) \<and>
       (\<forall>f \<in> set (alert_file_states d'). af_source_id f \<noteq> i)" by (rule update_source_Inr)
  have "location s1 \<noteq> location s0 \<or> \<not> (s_enabled s1 \<and> s_search_indexing_enabled s1)"
    using assms(2,3) s0(1) by (auto simp: location_def)
  from s0(2) [rule_format, OF this] show ?thesis by (simp add: filter_empty_conv)
qed

text \<open>
  Deleting a source can silence a later alert: an alert limited to the source is deleted with it, but
  not the progress it made on a source it was limited to before, so an alert that gets its id starts
  from that progress.
\<close>

theorem deleting_a_source_silences_a_later_alert:
  assumes "delete_source SE u i d = Inr d1" "a \<in> set (alerts d)" "al_source_id a = Some i"
    and "f \<in> set (alert_file_states d)" "af_alert_id f = al_id a" "af_source_id f \<noteq> i"
    and "distinct (map (\<lambda>f. (af_alert_id f, af_source_id f, af_file_path f)) (alert_file_states d))"
    and "create_alert E WE dns v p d1 = Some (Inr d2)" "tbl_max al_id (alerts d1) + 1 = al_id a"
  shows "\<exists>b. alerts d2 = alerts d1 @ [b] \<and> a \<notin> set (alerts d1) \<and>
     reported_through d2 b (af_source_id f, af_file_path f) = af_reported_through_line f"
proof -
  from assms(1) obtain s where d1: "alerts d1 = filter (\<lambda>a. al_source_id a \<noteq> Some i) (alerts d)"
    "alert_file_states d1 = filter (\<lambda>f. af_source_id f \<noteq> i) (alert_file_states d)" by (rule delete_source_Inr)
  from assms(8) obtain b where b: "alerts d2 = alerts d1 @ [b]" "al_id b = tbl_max al_id (alerts d1) + 1"
    "alert_file_states d2 = alert_file_states d1" by (rule create_alert_Inr)
  have fin: "f \<in> set (alert_file_states d2)" using assms(4,6) by (simp add: b(3) d1(2))
  have mark: "is_mark (al_id b) (af_source_id f, af_file_path f) f" using assms(5,9) b(2) by (simp add: is_mark_def)
  then obtain g where g: "find (is_mark (al_id b) (af_source_id f, af_file_path f)) (alert_file_states d2) = Some g"
    using fin by (metis find_None_iff not_None_eq)
  then have "g \<in> set (alert_file_states d)" "is_mark (al_id b) (af_source_id f, af_file_path f) g"
    using found [OF g] by (auto simp: b(3) d1(2))
  with same_id [OF assms(7) _ assms(4), of g] mark have "g = f" by (auto simp: is_mark_def)
  with g have "reported_through d2 b (af_source_id f, af_file_path f) = af_reported_through_line f"
    by (simp add: reported_through_mark)
  moreover have "a \<notin> set (alerts d1)" using assms(3) by (simp add: d1(1))
  ultimately show ?thesis using b(1) by blast
qed

section \<open>Witnesses\<close>

definition sample_se :: source_env where
  "sample_se = \<lparr>se_env = length_env, se_files = one_file_env ''a'' ''x'', se_load_pem = (\<lambda>_. None),
     se_encrypt = (\<lambda>_. ''sealed''), se_sha256_hex = (\<lambda>s. s), se_connected = (\<lambda>_. False)\<rparr>"

text \<open>
  The operator may manage sources and alerts. Source 10 has a credential; alert 1 is limited to it, and
  made progress on source 11 before.
\<close>

definition sources_db :: db where
  "sources_db = sample_db\<lparr>sources := [sample_source\<lparr>s_credential_ref := Some ''key''\<rparr>, sample_source\<lparr>s_id := 11\<rparr>],
     source_seq := 11,
     roles := [operator_role\<lparr>ro_global_capabilities := [CreateSource, ManageAlerts]\<rparr>],
     alerts := [sample_alert\<lparr>al_source_id := Some 10\<rparr>],
     alert_file_states := [\<lparr>af_alert_id = 1, af_source_id = 11, af_file_path = ''a'', af_reported_through_line = 3\<rparr>]\<rparr>"

definition no_change :: source_update where
  "no_change = \<lparr>ub_name = None, ub_customer_id = None, ub_folder_id = None, ub_host = None, ub_port = None,
     ub_base_path = None, ub_roots = None, ub_winrm_scheme = None, ub_tls_ca_pem = None, ub_enabled = None,
     ub_credential = None, ub_search_indexing_enabled = None\<rparr>"

definition new_ssh :: source_create where
  "new_ssh = \<lparr>cr_name = ''n'', cr_customer_id = Some 1, cr_folder_id = None, cr_protocol = Ssh, cr_host = ''h'', cr_port = None,
     cr_base_path = ''/var/log'', cr_roots = None, cr_winrm_scheme = None, cr_tls_ca_pem = None, cr_enabled = True,
     cr_credential = None, cr_search_indexing_enabled = False\<rparr>"

lemma sources_db_manage: "require_manage sources_db operator = Inr ()"
  by code_simp

lemma sources_db_source: "get_source sources_db 10 = Some (sample_source\<lparr>s_credential_ref := Some ''key''\<rparr>)"
  by code_simp

lemma sources_db_inv: "sources_inv sources_db"
proof -
  have "get_source sources_db 10 \<noteq> None" "get_source sources_db 11 \<noteq> None" by code_simp+
  moreover have "names_source i sources_db \<Longrightarrow> i = 10 \<or> i = 11" for i
    by (auto simp: names_source_def sources_db_def sample_db_def empty_db_def sample_alert_def)
  moreover have "\<forall>s \<in> set (sources sources_db). s_id s \<le> source_seq sources_db \<and> roots_ok s \<and> scope_ok sources_db s"
    by (simp add: sources_db_def sample_source_def roots_ok_def scope_ok_def sample_db_def inner_folder_def outer_folder_def tbl_get_def)
  moreover have "distinct (map s_id (sources sources_db)) \<and> 0 \<le> source_seq sources_db" by code_simp
  ultimately show ?thesis unfolding sources_inv_def by blast
qed

lemma refused_move:
  "update_source sample_se operator 10 (no_change\<lparr>ub_host := Some ''evil''\<rparr>) sources_db =
     Inl (bad_request ''Enter the credential again to use a different host or port'')"
proof -
  have "changed_source sample_se (no_change\<lparr>ub_host := Some ''evil''\<rparr>) sources_db (sample_source\<lparr>s_credential_ref := Some ''key''\<rparr>) =
      Inl (bad_request ''Enter the credential again to use a different host or port'')" by code_simp
  then show ?thesis
    by (simp add: update_source_def sources_db_manage sources_db_source ca_fits_def given_def no_change_def require_not_system_def sample_source_def)
qed

theorem sources_stay_well_formed_witness:
  "sources_inv (srcs.run_ops sample_se [(operator, DeleteSource_op 10), (operator, CreateSource_op new_ssh)] sources_db)"
  by (rule sources_stay_well_formed [OF sources_db_inv])

lemma sample_created:
  obtains s d' where "create_source sample_se operator new_ssh sources_db = Inr (s, d')"
proof -
  have "validate_scope sources_db (cr_customer_id new_ssh) (cr_folder_id new_ssh) = Inr ()" "max_roots sources_db = Inr 20"
    "validate_roots sample_se (cr_protocol new_ssh) (given (cr_roots new_ssh) []) 20 = Inr None"
    "new_base_path sample_se new_ssh None = Inr ''/var/log''" "ca_fits (cr_tls_ca_pem new_ssh) = Inr ()"
    "validate_winrm_scheme (cr_protocol new_ssh) (cr_winrm_scheme new_ssh) = Inr None"
    "validate_ca_pem sample_se (cr_protocol new_ssh) (cr_tls_ca_pem new_ssh) = Inr None" by code_simp+
  then show ?thesis by (intro that) (simp add: create_source_def sources_db_manage map_error_def Let_def)
qed

theorem a_new_source_is_named_nowhere_witness:
  "\<exists>s d'. create_source sample_se operator new_ssh sources_db = Inr (s, d') \<and> \<not> names_source (s_id s) d'"
proof -
  obtain s d' where c: "create_source sample_se operator new_ssh sources_db = Inr (s, d')" by (rule sample_created)
  have "sources_db = srcs.run_ops sample_se [(operator, UpdateSource_op 10 (no_change\<lparr>ub_host := Some ''evil''\<rparr>))] sources_db"
    by (simp add: refused_move)
  from a_new_source_is_named_nowhere [OF sources_db_inv this c] c show ?thesis by blast
qed

theorem saved_credential_stays_with_its_host_witness:
  "let s = sample_source\<lparr>s_credential_ref := Some ''key''\<rparr>;
       d = srcs.run_ops sample_se [(operator, UpdateSource_op 10 (no_change\<lparr>ub_host := Some ''evil''\<rparr>))] sources_db
   in s \<in> set (sources d) \<and> s_host s = ''h''"
proof -
  let ?s = "sample_source\<lparr>s_credential_ref := Some ''key''\<rparr>"
  let ?ops = "[(operator, UpdateSource_op 10 (no_change\<lparr>ub_host := Some ''evil''\<rparr>))]"
  have s: "?s \<in> set (sources sources_db)" "s_credential_ref ?s \<noteq> None" "s_host ?s = ''h''"
    by (simp_all add: sources_db_def sample_source_def)
  have ops: "list_all (\<lambda>(u, op). \<not> brings_credential (s_id ?s) op) ?ops" by (simp add: no_change_def)
  have run: "?s \<in> set (sources (srcs.run_ops sample_se ?ops sources_db))" using s(1) by (simp add: refused_move)
  from saved_credential_stays_with_its_host [OF sources_db_inv s(1,2) ops run refl] run s(3) show ?thesis
    by (simp add: Let_def)
qed

theorem closed_or_moved_sources_leave_the_index_witness:
  "\<exists>s1 d'. update_source sample_se operator 10 (no_change\<lparr>ub_enabled := Some False\<rparr>) sources_db = Inr (s1, d') \<and>
     filter (\<lambda>r. fts_source_id r = 10) (fts_rows d') = []"
proof -
  have c: "changed_source sample_se (no_change\<lparr>ub_enabled := Some False\<rparr>) sources_db (sample_source\<lparr>s_credential_ref := Some ''key''\<rparr>) =
      Inr (sample_source\<lparr>s_credential_ref := Some ''key'', s_enabled := False\<rparr>)" by code_simp
  then obtain d' where u: "update_source sample_se operator 10 (no_change\<lparr>ub_enabled := Some False\<rparr>) sources_db =
      Inr (sample_source\<lparr>s_credential_ref := Some ''key'', s_enabled := False\<rparr>, d')"
    by (simp add: update_source_def sources_db_manage sources_db_source ca_fits_def given_def no_change_def require_not_system_def
          sample_source_def Let_def)
  have "\<not> s_enabled (sample_source\<lparr>s_credential_ref := Some ''key'', s_enabled := False\<rparr>)" by simp
  from closed_or_moved_sources_leave_the_index [OF u sources_db_source disjI1 [OF this]] u show ?thesis by blast
qed

theorem deleting_a_source_silences_a_later_alert_witness:
  "\<exists>d1 d2 b. delete_source sample_se operator 10 sources_db = Inr d1 \<and> alerts d1 = [] \<and>
     create_alert length_env sample_web sample_dns operator (new_alert\<lparr>ac_source_id := None\<rparr>) d1 = Some (Inr d2) \<and>
     alerts d2 = [b] \<and> reported_through d2 b (11, ''a'') = 3"
proof -
  obtain d1 where del: "delete_source sample_se operator 10 sources_db = Inr d1"
    by (simp add: delete_source_def sources_db_manage sources_db_source require_not_system_def sample_source_def Let_def)
  then obtain s where "alerts d1 = filter (\<lambda>a. al_source_id a \<noteq> Some 10) (alerts sources_db)" "roles d1 = roles sources_db"
    by (rule delete_source_Inr)
  with del have d1: "delete_source sample_se operator 10 sources_db = Inr d1" "alerts d1 = []" "roles d1 = roles sources_db"
    by (simp_all add: sources_db_def sample_alert_def)
  have "require_global_capability d1 operator ManageAlerts = require_global_capability sources_db operator ManageAlerts"
    by (simp add: require_global_capability_def user_role_def d1(3))
  moreover have "require_global_capability sources_db operator ManageAlerts = Inr ()"
    "webhook_url_is_http sample_web sample_dns (ac_webhook_url new_alert) = Inr ()" by code_simp+
  ultimately obtain d2 where d2: "create_alert length_env sample_web sample_dns operator (new_alert\<lparr>ac_source_id := None\<rparr>) d1 = Some (Inr d2)"
    by (simp add: create_alert_def require_visible_source_def Let_def)
  let ?a = "sample_alert\<lparr>al_source_id := Some 10\<rparr>"
  let ?f = "\<lparr>af_alert_id = 1, af_source_id = 11, af_file_path = ''a'', af_reported_through_line = 3\<rparr>"
  have h: "?a \<in> set (alerts sources_db)" "al_source_id ?a = Some 10" "?f \<in> set (alert_file_states sources_db)"
    "af_alert_id ?f = al_id ?a" "af_source_id ?f \<noteq> 10"
    "distinct (map (\<lambda>f. (af_alert_id f, af_source_id f, af_file_path f)) (alert_file_states sources_db))"
    by (simp_all add: sources_db_def sample_alert_def)
  show ?thesis
  proof (cases "tbl_max al_id (alerts d1) + 1 = al_id ?a")
    case True
    from deleting_a_source_silences_a_later_alert [OF d1(1) h d2 True] d1 d2 show ?thesis by auto
  qed (simp add: d1(2) tbl_max_def sample_alert_def)
qed

end
