(* ===== verification/SettingsApi.thy ===== *)
theory SettingsApi
  imports SourcesApi
begin

text \<open>
  \<open>app/api/system_settings.py\<close> and \<open>get_all_bool\<close> of \<open>app/system_settings.py\<close>: the settings as one
  document that is read and changed. The promise: whatever is stored can be read back, in its bounds.
\<close>

section \<open>The document\<close>

record system_settings_public =
  ss_search_view_enabled :: bool
  ss_audit_view_enabled :: bool
  ss_audit_retention_days :: int
  ss_source_max_roots :: int
  ss_connections_view_switchable :: bool
  ss_connections_view_default :: string

text \<open>The fields of a body: not given, \<open>null\<close>, or a value; the values of the view are a \<open>Literal\<close>.\<close>

datatype connections_view = ListView | TreeView

fun view_value :: "connections_view \<Rightarrow> string" where
  "view_value ListView = ''list''"
| "view_value TreeView = ''tree''"

record system_settings_update =
  su_search_view_enabled :: "bool option option"
  su_audit_view_enabled :: "bool option option"
  su_audit_retention_days :: "int option option"
  su_source_max_roots :: "int option option"
  su_connections_view_switchable :: "bool option option"
  su_connections_view_default :: "connections_view option option"

text \<open>The bounds of the body, refused with a 422.\<close>

definition settings_fit :: "system_settings_update \<Rightarrow> bool" where
  "settings_fit p =
     ((case su_audit_retention_days p of Some (Some n) \<Rightarrow> 0 \<le> n | _ \<Rightarrow> True) \<and>
      (case su_source_max_roots p of Some (Some n) \<Rightarrow> 1 \<le> n \<and> n \<le> hard_max_roots | _ \<Rightarrow> True))"

fun get_bools :: "db \<Rightarrow> string list \<Rightarrow> setting_error + (string \<times> bool) list" where
  "get_bools d [] = Inr []"
| "get_bools d (key # keys) = bindE (get_bool d key) (\<lambda>b. bindE (get_bools d keys) (\<lambda>bs. Inr ((key, b) # bs)))"

definition get_all_bool :: "db \<Rightarrow> setting_error + (string \<times> bool) list" where
  "get_all_bool d = get_bools d (map fst bool_defaults)"

definition read_all :: "db \<Rightarrow> setting_error + system_settings_public" where
  "read_all d =
     bindE (get_all_bool d) (\<lambda>flags.
     bindE (get_int d ''audit_retention_days'') (\<lambda>days.
     bindE (max_roots d) (\<lambda>roots.
     bindE (get_choice d ''connections_view_default'') (\<lambda>view.
     bindE (someE KeyError (map_of flags ''search_view_enabled'')) (\<lambda>search.
     bindE (someE KeyError (map_of flags ''audit_view_enabled'')) (\<lambda>audit.
     bindE (someE KeyError (map_of flags ''connections_view_switchable'')) (\<lambda>switchable.
     Inr \<lparr>ss_search_view_enabled = search, ss_audit_view_enabled = audit, ss_audit_retention_days = days,
          ss_source_max_roots = roots, ss_connections_view_switchable = switchable,
          ss_connections_view_default = view\<rparr>)))))))"

definition get_system_settings :: "db \<Rightarrow> user \<Rightarrow> setting_error + system_settings_public" where
  "get_system_settings d u = read_all d"

section \<open>Changing it\<close>

definition set_value :: "string \<Rightarrow> ('a \<Rightarrow> json) \<Rightarrow> 'a option option \<Rightarrow> (string \<times> json) list" where
  "set_value key as_json v = (case v of Some (Some x) \<Rightarrow> [(key, as_json x)] | _ \<Rightarrow> [])"

text \<open>The fields that are given and not \<open>null\<close>, in the order of the model.\<close>

definition changed_settings :: "system_settings_update \<Rightarrow> (string \<times> json) list" where
  "changed_settings p =
     set_value ''search_view_enabled'' JBool (su_search_view_enabled p) @
     set_value ''audit_view_enabled'' JBool (su_audit_view_enabled p) @
     set_value ''audit_retention_days'' JInt (su_audit_retention_days p) @
     set_value ''source_max_roots'' JInt (su_source_max_roots p) @
     set_value ''connections_view_switchable'' JBool (su_connections_view_switchable p) @
     set_value ''connections_view_default'' (\<lambda>v. JStr (view_value v)) (su_connections_view_default p)"

text \<open>The value of a key goes to the setter of its type; the body has no other.\<close>

definition set_setting :: "db \<Rightarrow> string \<Rightarrow> json \<Rightarrow> setting_error + db" where
  "set_setting d key v =
     (case v of JInt n \<Rightarrow> set_int d key n | JBool b \<Rightarrow> set_bool d key b | JStr s \<Rightarrow> set_choice d key s | _ \<Rightarrow> Inl ValueError)"

fun set_settings :: "(string \<times> json) list \<Rightarrow> string list \<Rightarrow> db \<Rightarrow> setting_error + db" where
  "set_settings changed [] d = Inr d"
| "set_settings changed (key # keys) d =
     bindE (case map_of changed key of Some v \<Rightarrow> set_setting d key v | None \<Rightarrow> Inr d) (set_settings changed keys)"

definition setting_keys :: "string list" where
  "setting_keys = map fst int_defaults @ map fst bool_defaults @ map fst choice_defaults"

definition update_system_settings ::
  "env \<Rightarrow> user \<Rightarrow> system_settings_update \<Rightarrow> db \<Rightarrow> source_failure + (system_settings_public \<times> db)" where
  "update_system_settings E u p d =
     bindE (map_error Refused (require_global_capability d u ManageSystemSettings)) (\<lambda>_.
     bindE (requireE (settings_fit p) (Refused (HTTPException 422 ''out of bounds''))) (\<lambda>_.
     bindE (map_error SettingFailed (set_settings (changed_settings p) setting_keys d)) (\<lambda>d1.
     let d2 = record_audit_event E d d1 (Some (u_id u)) ''system_settings.update'' (Some ''system_settings'') None
                (Some (changed_settings p))
     in bindE (map_error SettingFailed (read_all d2)) (\<lambda>out. Inr (out, d2)))))"

definition exec_setting :: "env \<Rightarrow> user \<times> system_settings_update \<Rightarrow> db \<Rightarrow> source_failure + db" where
  "exec_setting E = (\<lambda>(u, p) d. bindE (update_system_settings E u p d) (\<lambda>(_, d'). Inr d'))"

section \<open>What is stored\<close>

fun setting_text :: "json \<Rightarrow> string" where
  "setting_text (JInt n) = show_int n"
| "setting_text (JBool b) = (if b then ''true'' else ''false'')"
| "setting_text (JStr s) = s"
| "setting_text _ = ''''"

lemma set_setting_put: "set_setting d key v = Inr d' \<Longrightarrow> d' = put_setting key (setting_text v) d"
  by (cases v) (auto simp: set_setting_def set_int_def set_bool_def set_choice_def bindE_Inr_iff)

lemma put_setting_more [simp]: "put_setting key v (d\<lparr>settings := ss\<rparr>) = d\<lparr>settings := AList.update key v ss\<rparr>"
  by (simp add: put_setting_def)

lemma set_settings_get:
  assumes "set_settings changed keys d = Inr d'" "distinct keys"
  shows "map_of (settings d') k =
    (if k \<in> set keys then (case map_of changed k of Some v \<Rightarrow> Some (setting_text v) | None \<Rightarrow> map_of (settings d) k)
     else map_of (settings d) k)"
  using assms
proof (induction changed keys d rule: set_settings.induct)
  case (2 changed key keys d)
  then obtain d1 where d1: "(case map_of changed key of Some v \<Rightarrow> set_setting d key v | None \<Rightarrow> Inr d) = Inr d1"
    "set_settings changed keys d1 = Inr d'" by (auto simp: bindE_Inr_iff)
  have "map_of (settings d1) = (case map_of changed key of Some v \<Rightarrow> (map_of (settings d))(key \<mapsto> setting_text v) | None \<Rightarrow> map_of (settings d))"
    using d1(1) by (auto dest!: set_setting_put simp: put_setting_def update_conv' split: option.splits)
  with 2(1) [OF d1(2)] 2(3) show ?case by (auto split: option.splits)
qed simp

lemma setting_keys_simps:
  "distinct setting_keys"
  "set setting_keys = {''audit_retention_days'', ''source_max_roots'', ''search_view_enabled'', ''audit_view_enabled'',
     ''connections_view_switchable'', ''connections_view_default''}"
  by (auto simp: setting_keys_def int_defaults_def bool_defaults_def choice_defaults_def)

lemma record_audit_settings [simp]: "settings (record_audit_event E seen d u a tt ti m) = settings d"
  by (simp add: record_audit_event_def)

lemma read_all_audit [simp]: "read_all (record_audit_event E seen d u a tt ti m) = read_all d"
  by (simp add: read_all_def get_all_bool_def bool_defaults_def get_bool_def get_int_def get_choice_def stored_or_def max_roots_def)

text \<open>The document with the given fields.\<close>

definition with_given :: "system_settings_update \<Rightarrow> system_settings_public \<Rightarrow> system_settings_public" where
  "with_given p s =
     \<lparr>ss_search_view_enabled = (case su_search_view_enabled p of Some (Some b) \<Rightarrow> b | _ \<Rightarrow> ss_search_view_enabled s),
       ss_audit_view_enabled = (case su_audit_view_enabled p of Some (Some b) \<Rightarrow> b | _ \<Rightarrow> ss_audit_view_enabled s),
       ss_audit_retention_days = (case su_audit_retention_days p of Some (Some n) \<Rightarrow> n | _ \<Rightarrow> ss_audit_retention_days s),
       ss_source_max_roots = (case su_source_max_roots p of Some (Some n) \<Rightarrow> n | _ \<Rightarrow> ss_source_max_roots s),
       ss_connections_view_switchable =
         (case su_connections_view_switchable p of Some (Some b) \<Rightarrow> b | _ \<Rightarrow> ss_connections_view_switchable s),
       ss_connections_view_default =
         (case su_connections_view_default p of Some (Some v) \<Rightarrow> view_value v | _ \<Rightarrow> ss_connections_view_default s)\<rparr>"

lemma map_of_set_value:
  "map_of (set_value key f v @ rest) k =
     (if k = key \<and> (\<exists>x. v = Some (Some x)) then Option.bind v (map_option f) else map_of rest k)"
  by (auto simp: set_value_def split: option.splits)

lemma map_of_set_value_last:
  "map_of (set_value key f v) k = (if k = key then Option.bind v (map_option f) else None)"
  by (auto simp: set_value_def split: option.splits)

lemma map_of_changed:
  "map_of (changed_settings p) ''search_view_enabled'' = Option.bind (su_search_view_enabled p) (map_option JBool)"
  "map_of (changed_settings p) ''audit_view_enabled'' = Option.bind (su_audit_view_enabled p) (map_option JBool)"
  "map_of (changed_settings p) ''audit_retention_days'' = Option.bind (su_audit_retention_days p) (map_option JInt)"
  "map_of (changed_settings p) ''source_max_roots'' = Option.bind (su_source_max_roots p) (map_option JInt)"
  "map_of (changed_settings p) ''connections_view_switchable'' = Option.bind (su_connections_view_switchable p) (map_option JBool)"
  "map_of (changed_settings p) ''connections_view_default'' =
     Option.bind (su_connections_view_default p) (map_option (\<lambda>v. JStr (view_value v)))"
  by (simp_all only: changed_settings_def map_of_set_value map_of_set_value_last) (auto split: option.splits bind_splits)

lemma update_system_settings_Inr:
  assumes "update_system_settings E u p d = Inr (out, d')"
  shows "settings_fit p" "read_all d' = Inr out"
    "map_of (settings d') k = (if k \<in> set setting_keys then
       (case map_of (changed_settings p) k of Some v \<Rightarrow> Some (setting_text v) | None \<Rightarrow> map_of (settings d) k)
     else map_of (settings d) k)"
proof -
  from assms obtain d1 where d1: "settings_fit p" "set_settings (changed_settings p) setting_keys d = Inr d1"
    "read_all d' = Inr out" "settings d' = settings d1"
    by (auto simp: update_system_settings_def bindE_Inr_iff map_error_Inr Let_def)
  show "settings_fit p" "read_all d' = Inr out" by (rule d1)+
  from set_settings_get [OF d1(2) setting_keys_simps(1)] show "map_of (settings d') k = (if k \<in> set setting_keys then
       (case map_of (changed_settings p) k of Some v \<Rightarrow> Some (setting_text v) | None \<Rightarrow> map_of (settings d) k)
     else map_of (settings d) k)" by (simp add: d1(4))
qed

lemma view_value_in: "view_value v \<in> {''list'', ''tree''}"
  by (cases v) simp_all

text \<open>
  A change of the settings is exact: what is answered, and read from then on, are the fields that were
  given, with every other field as it was.
\<close>

theorem settings_change_is_exact:
  assumes "read_all d = Inr before" "update_system_settings E u p d = Inr (out, d')"
  shows "out = with_given p before \<and> read_all d' = Inr out"
proof -
  note fit = update_system_settings_Inr(1) [OF assms(2)] and out = update_system_settings_Inr(2) [OF assms(2)]
    and get = update_system_settings_Inr(3) [OF assms(2)]
  from assms(1) obtain n where b: "get_bool d ''search_view_enabled'' = Inr (ss_search_view_enabled before)"
    "get_bool d ''audit_view_enabled'' = Inr (ss_audit_view_enabled before)"
    "get_bool d ''connections_view_switchable'' = Inr (ss_connections_view_switchable before)"
    "get_int d ''audit_retention_days'' = Inr (ss_audit_retention_days before)"
    "get_int d ''source_max_roots'' = Inr n" "ss_source_max_roots before = max 1 (min n hard_max_roots)"
    "get_choice d ''connections_view_default'' = Inr (ss_connections_view_default before)"
    by (auto simp: read_all_def get_all_bool_def bool_defaults_def bindE_Inr_iff max_roots_def)
  let ?after = "with_given p before"
  have "get_bool d' ''search_view_enabled'' = Inr (ss_search_view_enabled ?after)"
    using b(1) by (simp add: get_bool_def stored_or_def get setting_keys_simps map_of_changed with_given_def split: option.split)
  moreover have "get_bool d' ''audit_view_enabled'' = Inr (ss_audit_view_enabled ?after)"
    using b(2) by (simp add: get_bool_def stored_or_def get setting_keys_simps map_of_changed with_given_def split: option.split)
  moreover have "get_bool d' ''connections_view_switchable'' = Inr (ss_connections_view_switchable ?after)"
    using b(3) by (simp add: get_bool_def stored_or_def get setting_keys_simps map_of_changed with_given_def split: option.split)
  moreover have "get_int d' ''audit_retention_days'' = Inr (ss_audit_retention_days ?after)"
    using b(4) by (simp add: get_int_def stored_or_def get setting_keys_simps map_of_changed py_int_show with_given_def split: option.split)
  moreover have "max_roots d' = Inr (ss_source_max_roots ?after)"
    using b(5,6) fit
    by (simp add: max_roots_def get_int_def stored_or_def get setting_keys_simps map_of_changed py_int_show with_given_def settings_fit_def
        split: option.split option.split_asm)
  moreover have "get_choice d' ''connections_view_default'' = Inr (ss_connections_view_default ?after)"
    using b(7) view_value_in
    by (simp add: get_choice_def choice_defaults_def get setting_keys_simps map_of_changed with_given_def split: option.split)
  ultimately have "read_all d' = Inr ?after" by (simp add: read_all_def get_all_bool_def bool_defaults_def)
  with out show ?thesis by simp
qed

text \<open>What the table of settings keeps: the numbers can be read and are in their bounds.\<close>

definition settings_ok :: "db \<Rightarrow> bool" where
  "settings_ok d \<longleftrightarrow>
     (case get_int d ''audit_retention_days'' of Inr n \<Rightarrow> 0 \<le> n | Inl _ \<Rightarrow> False) \<and>
     (case get_int d ''source_max_roots'' of Inr n \<Rightarrow> 1 \<le> n \<and> n \<le> hard_max_roots | Inl _ \<Rightarrow> False)"

lemma settings_ok_reads:
  assumes "settings_ok d"
  shows "\<exists>s. read_all d = Inr s \<and> 0 \<le> ss_audit_retention_days s \<and> 1 \<le> ss_source_max_roots s \<and>
    ss_source_max_roots s \<le> hard_max_roots \<and> ss_connections_view_default s \<in> {''list'', ''tree''}"
  using assms
  by (auto simp: settings_ok_def read_all_def get_all_bool_def bool_defaults_def get_bool_def stored_or_def max_roots_def get_choice_def
      choice_defaults_def split: sum.splits option.splits)

lemma exec_setting_inv: "settings_ok d \<Longrightarrow> exec_setting E x d = Inr d' \<Longrightarrow> settings_ok d'"
proof -
  assume ok: "settings_ok d" and "exec_setting E x d = Inr d'"
  then obtain u p out where up: "update_system_settings E u p d = Inr (out, d')"
    by (cases x) (auto simp: exec_setting_def bindE_Inr_iff)
  note get = update_system_settings_Inr(3) [OF up]
  show ?thesis using ok update_system_settings_Inr(1) [OF up]
    by (auto simp: settings_ok_def settings_fit_def get_int_def stored_or_def get setting_keys_simps map_of_changed py_int_show
        split: option.splits)
qed

interpretation stg: guarded_machine "exec_setting E" settings_ok for E
  by unfold_locales (rule exec_setting_inv)

text \<open>
  Settings keep their types: after any requests every setting can be read back from the text it is
  stored as, the retention is not negative, the number of folders is within its cap and the view is one
  of the two there are.
\<close>

theorem settings_keep_their_types:
  assumes "settings_ok d"
  shows "\<exists>s. read_all (stg.run_ops E ops d) = Inr s \<and> 0 \<le> ss_audit_retention_days s \<and> 1 \<le> ss_source_max_roots s \<and>
    ss_source_max_roots s \<le> hard_max_roots \<and> ss_connections_view_default s \<in> {''list'', ''tree''}"
  by (rule settings_ok_reads [OF stg.run_inv [OF assms]])

section \<open>Witnesses\<close>

definition settings_db :: db where
  "settings_db = sources_db\<lparr>roles := [operator_role\<lparr>ro_global_capabilities := [ManageSystemSettings]\<rparr>]\<rparr>"

definition new_settings :: system_settings_update where
  "new_settings = \<lparr>su_search_view_enabled = Some (Some False), su_audit_view_enabled = Some None, su_audit_retention_days = Some (Some 0),
     su_source_max_roots = None, su_connections_view_switchable = None, su_connections_view_default = Some (Some TreeView)\<rparr>"

lemma settings_db_facts:
  "settings_ok settings_db" "require_global_capability settings_db operator ManageSystemSettings = Inr ()" "settings_fit new_settings"
  by code_simp+

lemma settings_db_change:
  obtains out d' where "update_system_settings length_env operator new_settings settings_db = Inr (out, d')"
proof -
  have "set_settings (changed_settings new_settings) setting_keys settings_db =
      Inr (put_setting ''connections_view_default'' ''tree'' (put_setting ''search_view_enabled'' ''false''
        (put_setting ''audit_retention_days'' ''0'' settings_db)))"
    by (simp add: setting_keys_def int_defaults_def bool_defaults_def choice_defaults_def changed_settings_def new_settings_def set_value_def
        set_setting_def set_int_def set_bool_def set_choice_def show_int_def) code_simp
  moreover have "settings_ok (put_setting ''connections_view_default'' ''tree'' (put_setting ''search_view_enabled'' ''false''
        (put_setting ''audit_retention_days'' ''0'' settings_db)))" by code_simp
  then obtain s where "read_all (put_setting ''connections_view_default'' ''tree'' (put_setting ''search_view_enabled'' ''false''
        (put_setting ''audit_retention_days'' ''0'' settings_db))) = Inr s" using settings_ok_reads by blast
  ultimately show ?thesis using settings_db_facts by (intro that) (simp add: update_system_settings_def map_error_def Let_def)
qed

theorem settings_change_is_exact_witness:
  "\<exists>out d'. update_system_settings length_env operator new_settings settings_db = Inr (out, d') \<and>
     out = \<lparr>ss_search_view_enabled = False, ss_audit_view_enabled = True, ss_audit_retention_days = 0, ss_source_max_roots = 20,
            ss_connections_view_switchable = True, ss_connections_view_default = ''tree''\<rparr>"
proof -
  obtain out d' where u: "update_system_settings length_env operator new_settings settings_db = Inr (out, d')"
    by (rule settings_db_change)
  have "read_all settings_db = Inr \<lparr>ss_search_view_enabled = True, ss_audit_view_enabled = True, ss_audit_retention_days = 365,
      ss_source_max_roots = 20, ss_connections_view_switchable = True, ss_connections_view_default = ''list''\<rparr>" by code_simp
  from settings_change_is_exact [OF this u] u show ?thesis by (simp add: with_given_def new_settings_def)
qed

theorem settings_keep_their_types_witness:
  "\<exists>s. read_all (stg.run_ops length_env [(operator, new_settings)] settings_db) = Inr s \<and> ss_source_max_roots s \<le> 100"
  using settings_keep_their_types [OF settings_db_facts(1), of length_env "[(operator, new_settings)]"]
  by (auto simp: hard_max_roots_def)

end
