(* ===== verification/SourcePicker.thy ===== *)
theory SourcePicker
  imports SourcesApi
begin

text \<open>
  The rest of \<open>app/api/sources.py\<close>: the connection check and the folder picker, with the path a share is
  reached under (\<open>_unc_path\<close> of \<open>app/collectors/smb.py\<close>). The connectors, the listings of drives and shares
  and the texts of an exception are parameters.
\<close>

section \<open>Checking a connection\<close>

record picker_env =
  pe_source :: source_env
  pe_public_message :: "source_error \<Rightarrow> string"
  pe_str :: "source_error \<Rightarrow> string"
  pe_drives :: "source \<Rightarrow> source_error + string list"
  pe_shares :: "source \<Rightarrow> source_error + string list"

definition can_manage_sources :: "db \<Rightarrow> user \<Rightarrow> api_error + bool" where
  "can_manage_sources d u =
     bindE (user_role d u) (\<lambda>r. Inr (ro_is_super_admin r \<or> CreateSource \<in> set (ro_global_capabilities r)))"

text \<open>The label is \<open>None\<close> for the base path of a source with a single folder.\<close>

definition check_failure_message ::
  "picker_env \<Rightarrow> db \<Rightarrow> user \<Rightarrow> source \<Rightarrow> string option \<times> string \<Rightarrow> source_error \<Rightarrow> api_error + string" where
  "check_failure_message PE d u s root exc =
     (let (label, path) = root;
          plain = ''base path: '' @ (if path = '''' then ''/'' else path);
          place = (case label of None \<Rightarrow> plain | Some l \<Rightarrow> if l = '''' then plain else ''folder '' @ l @ '': '' @ path);
          message = pe_public_message PE exc @ '' ('' @ place @ '')'' @
            (if s_protocol s = Ssh \<and> exc = SourceNotFoundError
             then ''. If this account has a ChrootDirectory, Base path is relative to the chroot (usually /).'' else '''')
      in bindE (can_manage_sources d u) (\<lambda>manager.
         Inr (if manager then message @ '' - '' @ pe_str PE exc else message)))"

definition checked_roots :: "source \<Rightarrow> (string option \<times> string) list" where
  "checked_roots s =
     (if roots_of s \<noteq> [] then map (\<lambda>r. (Some (root_label r), root_path r)) (roots_of s) else [(None, s_base_path s)])"

fun check_failures ::
  "picker_env \<Rightarrow> db \<Rightarrow> user \<Rightarrow> source \<Rightarrow> connector \<Rightarrow> (string option \<times> string) list \<Rightarrow> api_error + string list" where
  "check_failures PE d u s c [] = Inr []"
| "check_failures PE d u s c (root # roots) =
     (case connector_list (fe_re2 (se_files (pe_source PE))) (co_list c) (with_base_path s (snd root)) [] '''' of
        Inr _ \<Rightarrow> check_failures PE d u s c roots
      | Inl exc \<Rightarrow>
          bindE (check_failure_message PE d u s root exc) (\<lambda>m.
          bindE (check_failures PE d u s c roots) (\<lambda>ms. Inr (m # ms))))"

definition check_connection :: "picker_env \<Rightarrow> db \<Rightarrow> user \<Rightarrow> int \<Rightarrow> (bool \<times> string) outcome" where
  "check_connection PE d u source_id =
     bindO (require_capability d u source_id View) (\<lambda>s.
     case connectors (se_files (pe_source PE)) (s_protocol s) of
       None \<Rightarrow> Some (Inr (False, ''protocol '' @ protocol_value (s_protocol s) @ '' not supported''))
     | Some c \<Rightarrow>
         bindO (Some (check_failures PE d u s c (checked_roots s))) (\<lambda>failures.
         Some (Inr
           (if failures \<noteq> [] then (False, join_str ''; '' failures)
            else if length (checked_roots s) > 1
            then (True, ''Connected ('' @ show_nat (length (checked_roots s)) @ '' folders)'')
            else (True, ''Connected'')))))"

section \<open>Where a share is\<close>

definition trim_slashes :: "string \<Rightarrow> string" where
  "trim_slashes s = dropWhile is_slash (rev (dropWhile is_slash (rev s)))"

definition unc_path :: "source \<Rightarrow> string \<Rightarrow> string" where
  "unc_path s relative_path =
     (let tail_parts = filter (\<lambda>p. p \<noteq> '''') [trim_slashes (s_base_path s), replace_char CHR ''/'' CHR 0x5C relative_path];
          tail = join_on CHR 0x5C tail_parts;
          server = [CHR 0x5C, CHR 0x5C] @ s_host s
      in if tail \<noteq> '''' then server @ [CHR 0x5C] @ tail else server)"

section \<open>Paths of the picker\<close>

text \<open>\<open>posixpath.dirname\<close>.\<close>

definition posix_dirname :: "string \<Rightarrow> string" where
  "posix_dirname p =
     (let head = rev (dropWhile (\<lambda>c. c \<noteq> CHR ''/'') (rev p))
      in if list_all (\<lambda>c. c = CHR ''/'') head then head else rev (dropWhile (\<lambda>c. c = CHR ''/'') (rev head)))"

text \<open>\<open>ntpath.splitroot\<close> and \<open>ntpath.dirname\<close>.\<close>

definition find_from :: "char \<Rightarrow> nat \<Rightarrow> string \<Rightarrow> nat option" where
  "find_from c start s =
     (let rest = dropWhile (\<lambda>x. x \<noteq> c) (drop start s) in if rest = '''' then None else Some (length s - length rest))"

definition nt_splitroot :: "string \<Rightarrow> string \<times> string \<times> string" where
  "nt_splitroot p =
     (let normp = replace_char CHR ''/'' CHR 0x5C p; sep = CHR 0x5C in
      if prefix [sep, sep] normp then
        (let start = (if lower (take 8 normp) = [sep, sep, CHR ''?'', sep] @ ''unc'' @ [sep] then 8 else 2)
         in case find_from sep start normp of
              None \<Rightarrow> (p, '''', '''')
            | Some index \<Rightarrow>
                (case find_from sep (index + 1) normp of
                   None \<Rightarrow> (p, '''', '''')
                 | Some index2 \<Rightarrow> (take index2 p, take 1 (drop index2 p), drop (index2 + 1) p)))
      else if prefix [sep] normp then ('''', take 1 p, drop 1 p)
      else if take 1 (drop 1 normp) = '':'' then
        (if take 1 (drop 2 normp) = [sep] then (take 2 p, take 1 (drop 2 p), drop 3 p) else (take 2 p, '''', drop 2 p))
      else ('''', '''', p))"

definition nt_dirname :: "string \<Rightarrow> string" where
  "nt_dirname p =
     (let (drive, root, rest) = nt_splitroot p;
          head = rev (dropWhile (\<lambda>c. \<not> is_slash c) (rev rest))
      in drive @ root @ rev (dropWhile is_slash (rev head)))"

definition drive_letter :: "string \<Rightarrow> bool" where
  "drive_letter p = (length p = 2 \<and> is_letter (hd p) \<and> p ! 1 = CHR '':'')"

datatype pick_kind = PickFolders | PickShares | PickDrives

text \<open>
  What a request for a path shows: the path as answered, the one above it, and the folder to list, or
  \<open>None\<close> for the top level of drives or shares.
\<close>

definition pick_place :: "protocol \<Rightarrow> string \<Rightarrow> source_failure + (string \<times> string option \<times> pick_kind \<times> string option)" where
  "pick_place p raw =
     (if p = Ssh then
        (let norm = (if raw = '''' then ''/'' else posix_normpath raw);
             path = (if prefix ''/'' norm then norm else ''/'' @ norm)
         in Inr (path, if path = ''/'' then None else Some (posix_dirname path), PickFolders, Some path))
      else
        (let path = rev (dropWhile (\<lambda>c. c = CHR 0x5C) (rev (replace_char CHR ''/'' CHR 0x5C (strip raw)))) in
         if p = Winrm then
           (if path = '''' then Inr ('''', None, PickDrives, None)
            else
              bindE (requireE (drive_path path \<or> prefix [CHR 0x5C, CHR 0x5C] path) (bad_request ''Pick a drive first'')) (\<lambda>_.
              let listed = (if drive_letter path then path @ [CHR 0x5C] else path);
                  parent = (if drive_letter path then '''' else nt_dirname path)
              in Inr (listed, Some (if drive_letter parent then parent @ [CHR 0x5C] else parent), PickFolders, Some listed)))
         else if path = '''' then Inr ('''', None, PickShares, None)
         else Inr (path, Some (if CHR 0x5C \<in> set path then before_last CHR 0x5C path else ''''), PickFolders, Some path)))"

text \<open>The path of an entry of the listing, and of a drive or share.\<close>

definition entry_path :: "protocol \<Rightarrow> pick_kind \<Rightarrow> string \<Rightarrow> string \<Rightarrow> string" where
  "entry_path p kind path name =
     (case kind of
        PickDrives \<Rightarrow> rev (dropWhile (\<lambda>c. c = CHR 0x5C) (rev name)) @ [CHR 0x5C]
      | PickShares \<Rightarrow> name
      | PickFolders \<Rightarrow>
          if p = Ssh then posix_join path name
          else rev (dropWhile (\<lambda>c. c = CHR 0x5C) (rev path)) @ [CHR 0x5C] @ name)"

section \<open>The picker\<close>

record folder_pick_request =
  fq_source_id :: "int option"
  fq_protocol :: "protocol option"
  fq_host :: "string option"
  fq_port :: "int option option"
  fq_credential :: "message option"
  fq_winrm_scheme :: "winrm_scheme option option"
  fq_tls_ca_pem :: "string option option"
  fq_path :: string

definition picker_protocols :: "protocol list" where
  "picker_protocols = [Ssh, Smb, Winrm]"

definition picker_max_entries :: nat where
  "picker_max_entries = 1000"

text \<open>The saved credential goes with the saved address only. A source that is not saved has no id.\<close>

definition picker_credential ::
  "source_env \<Rightarrow> folder_pick_request \<Rightarrow> source option \<Rightarrow> string \<Rightarrow> int option \<Rightarrow> source_failure + string" where
  "picker_credential SE q saved host port =
     (case fq_credential q of
        Some c \<Rightarrow> Inr (se_encrypt SE c)
      | None \<Rightarrow>
          (case Option.bind saved (\<lambda>s. map_option (Pair s) (s_credential_ref s)) of
             Some (s, ref) \<Rightarrow>
               bindE (requireE ((host, port) = (s_host s, s_port s))
                        (bad_request ''Enter the credential again to use a different host or port'')) (\<lambda>_. Inr ref)
           | None \<Rightarrow> Inl (bad_request ''Enter the credential first'')))"

definition picker_source :: "source_env \<Rightarrow> db \<Rightarrow> folder_pick_request \<Rightarrow> source_failure + (int option \<times> source)" where
  "picker_source SE d q =
     bindE (case fq_source_id q of
              None \<Rightarrow> Inr None
            | Some i \<Rightarrow>
                bindE (someE (Refused (not_found ''Source not found'')) (get_source d i)) (\<lambda>s.
                bindE (require_not_system s) (\<lambda>_. Inr (Some s)))) (\<lambda>saved.
     let wanted = (case saved of Some s \<Rightarrow> Some (s_protocol s) | None \<Rightarrow> fq_protocol q) in
     bindE (someE (bad_request ''Browsing for a folder works with SSH, SMB and WinRM sources'')
             (Option.bind wanted (\<lambda>p. if p \<in> set picker_protocols then Some p else None))) (\<lambda>p.
     let saved_host = (case saved of Some s \<Rightarrow> s_host s | None \<Rightarrow> '''');
         host = strip (case fq_host q of Some h \<Rightarrow> if h = '''' then saved_host else h | None \<Rightarrow> saved_host) in
     bindE (requireE (host \<noteq> '''') (bad_request ''Enter the host first'')) (\<lambda>_.
     let port = (case fq_port q of Some v \<Rightarrow> v | None \<Rightarrow> Option.bind saved s_port) in
     bindE (picker_credential SE q saved host port) (\<lambda>credential.
     let scheme = (case fq_winrm_scheme q of Some v \<Rightarrow> map_option scheme_value v | None \<Rightarrow> Option.bind saved s_winrm_scheme) in
     bindE (case fq_tls_ca_pem q of
              Some pem \<Rightarrow> validate_ca_pem SE p pem
            | None \<Rightarrow> Inr (Option.bind saved s_tls_ca_pem)) (\<lambda>ca.
     Inr (map_option s_id saved,
          \<lparr>s_id = (case saved of Some s \<Rightarrow> s_id s | None \<Rightarrow> 0), s_name = (case saved of Some s \<Rightarrow> s_name s | None \<Rightarrow> ''picker''),
           s_customer_id = None, s_folder_id = None, s_protocol = p, s_host = host, s_port = port,
           s_credential_ref = Some credential, s_base_path = '''', s_roots = None,
           s_winrm_scheme = (if p = Winrm then scheme else None), s_tls_ca_pem = (if p = Winrm then ca else None),
           s_enabled = True, s_schedule_cron = None, s_is_system = False, s_agent_token_hash = None,
           s_agent_last_seen_at = None, s_agent_os = None, s_search_indexing_enabled = False\<rparr>))))))"

definition list_folders_at :: "source_env \<Rightarrow> source \<Rightarrow> string \<Rightarrow> source_failure + string list" where
  "list_folders_at SE s path =
     bindE (someE (SettingFailed KeyError) (connectors (se_files SE) (s_protocol s))) (\<lambda>c.
     bindE (map_error ConnectorFailed
              (connector_list (fe_re2 (se_files SE)) (co_list c) (with_base_path s path) allow_all '''')) (\<lambda>entries.
     Inr (sort_key lower (map de_name (filter de_is_dir entries)))))"

definition pick ::
  "picker_env \<Rightarrow> source \<Rightarrow> string \<Rightarrow> source_failure + (string \<times> string option \<times> pick_kind \<times> (string \<times> string) list)" where
  "pick PE s raw =
     bindE (pick_place (s_protocol s) raw) (\<lambda>(path, parent, kind, folder).
     bindE (case kind of
              PickFolders \<Rightarrow> list_folders_at (pe_source PE) s (case folder of None \<Rightarrow> '''' | Some f \<Rightarrow> f)
            | PickDrives \<Rightarrow> map_error ConnectorFailed (pe_drives PE s)
            | PickShares \<Rightarrow> map_error ConnectorFailed (pe_shares PE s)) (\<lambda>names.
     Inr (path, parent, kind, map (\<lambda>n. (n, entry_path (s_protocol s) kind path n)) names)))"

record folder_pick_result =
  fp_protocol :: protocol
  fp_path :: string
  fp_parent :: "string option"
  fp_kind :: pick_kind
  fp_entries :: "(string \<times> string) list"
  fp_truncated :: bool

definition pick_folder ::
  "picker_env \<Rightarrow> user \<Rightarrow> folder_pick_request \<Rightarrow> db \<Rightarrow> source_failure + (folder_pick_result \<times> db)" where
  "pick_folder PE u q d =
     bindE (require_manage d u) (\<lambda>_.
     bindE (ca_fits (given (fq_tls_ca_pem q) None)) (\<lambda>_.
     bindE (picker_source (pe_source PE) d q) (\<lambda>(source_id, s).
     bindE (pick PE s (fq_path q)) (\<lambda>(path, parent, kind, entries).
     let d1 = record_audit_event (se_env (pe_source PE)) d d (Some (u_id u)) ''source.pick_folder''
                (map_option (\<lambda>_. ''source'') source_id) source_id
                (Some [(''protocol'', JStr (protocol_value (s_protocol s))), (''host'', JStr (s_host s)), (''path'', JStr path)])
     in Inr (\<lparr>fp_protocol = s_protocol s, fp_path = path, fp_parent = parent, fp_kind = kind,
              fp_entries = take picker_max_entries entries, fp_truncated = (length entries > picker_max_entries)\<rparr>, d1)))))"

section \<open>Picked paths\<close>

lemma norm_comps_clean:
  "(\<And>c. c \<in> set cs \<Longrightarrow> c \<noteq> '''' \<and> c \<noteq> ''.'' \<and> c \<noteq> ''..'') \<Longrightarrow> norm_comps True acc cs = rev acc @ cs"
  by (induction cs arbitrary: acc) auto

lemma norm_comps_result:
  "(\<And>c. c \<in> set acc \<Longrightarrow> c \<noteq> '''' \<and> c \<noteq> ''.'' \<and> c \<noteq> ''..'') \<Longrightarrow> x \<in> set (norm_comps True acc cs) \<Longrightarrow>
   x \<noteq> '''' \<and> x \<noteq> ''.'' \<and> x \<noteq> ''..'' \<and> (x \<in> set acc \<or> x \<in> set cs)"
proof (induction True acc cs rule: norm_comps.induct)
  case (2 acc c cs)
  show ?case
  proof (cases "c = '''' \<or> c = ''.''")
    case True
    with 2 show ?thesis by auto
  next
    case False
    show ?thesis
    proof (cases "c = ''..''")
      case dots: True
      have "acc = [] \<or> hd acc \<noteq> ''..''" using 2(4) by (cases acc) auto
      then have "x \<in> set (norm_comps True (tl acc) cs)" using 2(5) False dots by auto
      moreover have "\<And>c. c \<in> set (tl acc) \<Longrightarrow> c \<noteq> '''' \<and> c \<noteq> ''.'' \<and> c \<noteq> ''..''"
        using 2(4) by (cases acc) auto
      ultimately show ?thesis using 2(3) False dots \<open>acc = [] \<or> _\<close> by (cases acc) auto
    next
      case other: False
      then have "x \<in> set (norm_comps True (c # acc) cs)" using 2(5) False by simp
      moreover have "\<And>y. y \<in> set (c # acc) \<Longrightarrow> y \<noteq> '''' \<and> y \<noteq> ''.'' \<and> y \<noteq> ''..''"
        using 2(4) False other by auto
      ultimately show ?thesis using 2(2) False other by auto
    qed
  qed
qed simp

text \<open>An absolute path in its normal form: one slash or two, and clean names between slashes.\<close>

definition clean_name :: "string \<Rightarrow> bool" where
  "clean_name c \<longleftrightarrow> c \<noteq> '''' \<and> c \<noteq> ''.'' \<and> c \<noteq> ''..'' \<and> CHR ''/'' \<notin> set c"

definition absolute :: "string \<Rightarrow> string list \<Rightarrow> string" where
  "absolute slashes cs = slashes @ join_on CHR ''/'' cs"

lemma split_slashes:
  "cs \<noteq> [] \<Longrightarrow> list_all clean_name cs \<Longrightarrow> split_on CHR ''/'' (join_on CHR ''/'' cs) = cs"
  by (rule split_join) (auto simp: list_all_iff clean_name_def)

lemma join_first: "join_on c ((x # s) # rest) = x # (if rest = [] then s else s @ c # join_on c rest)"
  by (cases rest) simp_all

lemma join_ends:
  assumes "cs \<noteq> []" "list_all clean_name cs"
  obtains x s where "join_on CHR ''/'' cs = x # s" "x \<noteq> CHR ''/''" "last (x # s) \<noteq> CHR ''/''"
proof -
  obtain c rest where cs: "cs = c # rest" using assms(1) by (cases cs) auto
  with assms(2) obtain x s where c: "c = x # s" "x \<noteq> CHR ''/''" by (cases c) (auto simp: clean_name_def)
  obtain front n where n: "cs = front @ [n]" using assms(1) by (cases cs rule: rev_cases) auto
  have "n \<noteq> ''''" "CHR ''/'' \<notin> set n" using assms(2) by (simp_all add: n clean_name_def)
  then have "last n \<noteq> CHR ''/''" by (metis last_in_set)
  moreover have "join_on CHR ''/'' cs = (if front = [] then n else join_on CHR ''/'' front @ CHR ''/'' # n)"
    by (simp add: n join_on_append)
  ultimately have "last (join_on CHR ''/'' cs) \<noteq> CHR ''/''" using \<open>n \<noteq> ''''\<close> by (simp split: if_splits)
  with c cs that show ?thesis by (simp add: join_first)
qed

lemma normpath_absolute:
  assumes "slashes = ''/'' \<or> slashes = ''//''" "list_all clean_name cs"
  shows "posix_normpath (absolute slashes cs) = absolute slashes cs"
proof -
  let ?j = "join_on CHR ''/'' cs"
  have clean: "norm_comps True [] cs = cs"
    using assms(2) norm_comps_clean [of cs "[]"] by (simp add: list_all_iff clean_name_def)
  have j: "norm_comps True [] (split_on CHR ''/'' ?j) = cs"
  proof (cases "cs = []")
    case False
    with split_slashes [OF False assms(2)] clean show ?thesis by simp
  qed simp
  have "\<not> prefix ''/'' ?j"
  proof (cases "cs = []")
    case False
    from join_ends [OF this assms(2)] obtain x s where "?j = x # s" "x \<noteq> CHR ''/''" by metis
    then show ?thesis by simp
  qed simp
  with assms(1) j show ?thesis
    by (elim disjE) (simp_all add: posix_normpath_def absolute_def Let_def)
qed

lemma normpath_form:
  assumes "prefix ''/'' raw"
  obtains slashes cs where "slashes = ''/'' \<or> slashes = ''//''" "list_all clean_name cs" "posix_normpath raw = absolute slashes cs"
proof -
  let ?cs = "norm_comps True [] (split_on CHR ''/'' raw)"
  let ?sl = "if prefix ''//'' raw \<and> \<not> prefix ''///'' raw then ''//'' else ''/''"
  have "list_all clean_name ?cs"
    using norm_comps_result [of "[]" _ "split_on CHR ''/'' raw"] split_on_pieces [of _ "CHR ''/''" raw]
    by (auto simp: list_all_iff clean_name_def)
  moreover have "posix_normpath raw = absolute ?sl ?cs"
    using assms by (auto simp: posix_normpath_def absolute_def Let_def)
  ultimately show ?thesis by (intro that [of ?sl ?cs]) auto
qed

lemma join_absolute:
  assumes "slashes = ''/'' \<or> slashes = ''//''" "list_all clean_name cs" "clean_name n"
  shows "posix_join (absolute slashes cs) n = absolute slashes (cs @ [n])"
proof -
  have n: "\<not> prefix ''/'' n" using assms(3) by (cases n) (auto simp: clean_name_def)
  show ?thesis
  proof (cases "cs = []")
    case True
    with assms(1) n show ?thesis by (auto simp: posix_join_def absolute_def suffix_def)
  next
    case False
    from join_ends [OF this assms(2)] obtain x s where xs: "join_on CHR ''/'' cs = x # s" "last (x # s) \<noteq> CHR ''/''" by metis
    then have "\<not> suffix ''/'' (slashes @ x # s)" by (metis last_appendR last_snoc list.distinct(1) suffix_def)
    with n xs assms(1) False show ?thesis by (auto simp: posix_join_def absolute_def join_on_append)
  qed
qed

lemma dirname_absolute:
  assumes "slashes = ''/'' \<or> slashes = ''//''" "list_all clean_name cs" "clean_name n"
  shows "posix_dirname (absolute slashes (cs @ [n])) = absolute slashes cs"
proof -
  have drop_n: "dropWhile (\<lambda>c. c \<noteq> CHR ''/'') (rev n @ CHR ''/'' # rest) = CHR ''/'' # rest" for rest
    using assms(3) by (subst dropWhile_append2) (auto simp: clean_name_def)
  show ?thesis
  proof (cases "cs = []")
    case True
    with assms(1) drop_n show ?thesis by (auto simp: posix_dirname_def absolute_def Let_def)
  next
    case False
    from join_ends [OF this assms(2)] obtain x s where xs: "join_on CHR ''/'' cs = x # s" "x \<noteq> CHR ''/''" "last (x # s) \<noteq> CHR ''/''"
      by metis
    have "rev (absolute slashes (cs @ [n])) = rev n @ CHR ''/'' # rev (slashes @ x # s)"
      using False by (simp add: absolute_def join_on_append xs(1))
    then have head: "rev (dropWhile (\<lambda>c. c \<noteq> CHR ''/'') (rev (absolute slashes (cs @ [n])))) = slashes @ x # s @ ''/''"
      by (simp only: drop_n) simp
    obtain y t where yt: "x # s = t @ [y]" "y \<noteq> CHR ''/''" using xs(3) by (cases "x # s" rule: rev_cases) auto
    have "dropWhile (\<lambda>c. c = CHR ''/'') (rev (slashes @ (x # s) @ ''/'')) = rev (slashes @ x # s)"
      unfolding yt(1) using yt(2) by simp
    with head xs(2) show ?thesis by (simp add: posix_dirname_def Let_def absolute_def xs(1))
  qed
qed

lemma strip_hd: "strip s = s \<Longrightarrow> s \<noteq> [] \<Longrightarrow> \<not> is_space (hd s)"
  by (metis hd_dropWhile lstrip_def strip_def)

lemma ssh_place:
  assumes "slashes = ''/'' \<or> slashes = ''//''" "list_all clean_name cs"
  shows "pick_place Ssh (absolute slashes cs) =
    Inr (absolute slashes cs, if absolute slashes cs = ''/'' then None else Some (posix_dirname (absolute slashes cs)),
         PickFolders, Some (absolute slashes cs))"
proof -
  have "absolute slashes cs \<noteq> ''''" "prefix ''/'' (absolute slashes cs)" using assms(1) by (auto simp: absolute_def)
  with normpath_absolute [OF assms] show ?thesis by (simp add: pick_place_def Let_def)
qed

text \<open>What is left of a Windows path once the backslashes at its end are cut, and an entry below it.\<close>

definition nt_clean :: "string \<Rightarrow> bool" where
  "nt_clean path \<longleftrightarrow> path \<noteq> '''' \<and> CHR ''/'' \<notin> set path \<and> last path \<noteq> CHR 0x5C \<and> strip path = path"

definition nt_name :: "string \<Rightarrow> bool" where
  "nt_name n \<longleftrightarrow> n \<noteq> '''' \<and> list_all (\<lambda>c. \<not> is_slash c) n \<and> \<not> is_space (last n)"

lemma trimmed_id: "path \<noteq> '''' \<Longrightarrow> last path \<noteq> CHR 0x5C \<Longrightarrow> rev (dropWhile (\<lambda>c. c = CHR 0x5C) (rev path)) = path"
  by (cases path rule: rev_cases) auto

lemma replace_id: "a \<notin> set s \<Longrightarrow> replace_char a b s = s"
  unfolding replace_char_def by (rule map_idI) auto

lemma nt_trim: "nt_clean path \<Longrightarrow> rev (dropWhile (\<lambda>c. c = CHR 0x5C) (rev (replace_char CHR ''/'' CHR 0x5C (strip path)))) = path"
  by (simp add: nt_clean_def replace_id trimmed_id)

lemma nt_below: "nt_clean path \<Longrightarrow> nt_name n \<Longrightarrow> nt_clean (path @ CHR 0x5C # n)"
proof -
  assume path: "nt_clean path" and n: "nt_name n"
  have "last n \<noteq> CHR 0x5C" using n by (auto simp: nt_name_def list_all_iff is_slash_def)
  moreover have "\<not> is_space (hd path)" using path by (intro strip_hd) (simp_all add: nt_clean_def)
  then have "strip (path @ CHR 0x5C # n) = path @ CHR 0x5C # n"
    using path n by (intro strip_id) (simp_all add: nt_clean_def nt_name_def)
  ultimately show ?thesis using path n by (auto simp: nt_clean_def nt_name_def list_all_iff is_slash_def)
qed

lemma smb_place:
  "nt_clean path \<Longrightarrow> pick_place Smb path =
     Inr (path, Some (if CHR 0x5C \<in> set path then before_last CHR 0x5C path else ''''), PickFolders, Some path)"
  using nt_trim [of path] by (simp add: pick_place_def Let_def nt_clean_def)

lemma before_last_below: "c \<notin> set n \<Longrightarrow> before_last c (path @ c # n) = path"
proof -
  assume "c \<notin> set n"
  then have "dropWhile (\<lambda>x. x \<noteq> c) (rev n @ c # rev path) = c # rev path" by (subst dropWhile_append2) auto
  then show ?thesis by (simp add: before_last_def)
qed

lemma winrm_place:
  "nt_clean path \<Longrightarrow> drive_path path \<Longrightarrow> pick_place Winrm path =
     (let listed = (if drive_letter path then path @ [CHR 0x5C] else path);
          parent = (if drive_letter path then '''' else nt_dirname path)
      in Inr (listed, Some (if drive_letter parent then parent @ [CHR 0x5C] else parent), PickFolders, Some listed))"
  using nt_trim [of path] by (simp add: pick_place_def Let_def nt_clean_def)

text \<open>A clean drive path is a letter and a colon, with a rest after a backslash or none.\<close>

lemma drive_path_form:
  assumes "nt_clean path" "drive_path path"
  obtains x rest where "is_letter x" "path = x # CHR '':'' # rest" "rest = '''' \<or> (\<exists>r. rest = CHR 0x5C # r \<and> r \<noteq> '''')"
proof -
  from assms(2) obtain x y rest where p: "path = x # y # rest"
    by (cases path; cases "tl path") (auto simp: drive_path_def)
  with assms(2) have x: "is_letter x" "y = CHR '':''" "rest = '''' \<or> rest = [CHR 0x0A] \<or> is_slash ((x # y # rest) ! 2)"
    by (auto simp: drive_path_def)
  have "rest = '''' \<or> (\<exists>r. rest = CHR 0x5C # r \<and> r \<noteq> '''')"
  proof (cases rest)
    case (Cons c r)
    have "\<not> is_space (last path)" using assms(1) strip_keeps_last by (auto simp: nt_clean_def)
    moreover have "is_space CHR 0x0A" by code_simp
    ultimately have "rest \<noteq> [CHR 0x0A]" by (auto simp: p)
    with x(3) Cons have "is_slash c" by auto
    moreover have "c \<noteq> CHR ''/''" "last path \<noteq> CHR 0x5C" using assms(1) Cons by (auto simp: nt_clean_def p)
    ultimately have "c = CHR 0x5C" "r \<noteq> ''''" using Cons by (auto simp: is_slash_def p split: if_splits)
    with Cons show ?thesis by simp
  qed simp
  with p x(1,2) that show ?thesis by blast
qed

lemma nt_dirname_below:
  assumes "nt_clean path" "drive_path path" "nt_name n"
  shows "nt_dirname (path @ CHR 0x5C # n) = (if drive_letter path then path @ [CHR 0x5C] else path)"
proof -
  from assms(1,2) obtain x rest where x: "is_letter x" "path = x # CHR '':'' # rest" "rest = '''' \<or> (\<exists>r. rest = CHR 0x5C # r \<and> r \<noteq> '''')"
    by (rule drive_path_form)
  have no_slash: "CHR ''/'' \<notin> set (path @ CHR 0x5C # n)"
    using nt_below [OF assms(1,3)] by (simp add: nt_clean_def)
  have letter: "x \<noteq> CHR 0x5C" using x(1) by (auto simp: is_letter_def)
  have n: "dropWhile (\<lambda>c. \<not> is_slash c) (rev n @ t) = dropWhile (\<lambda>c. \<not> is_slash c) t" for t
    using assms(3) by (intro dropWhile_append2) (auto simp: nt_name_def list_all_iff)
  show ?thesis
  proof (cases "rest = ''''")
    case True
    with x letter no_slash n [of "[]"] show ?thesis
      by (simp add: nt_dirname_def nt_splitroot_def replace_id Let_def drive_letter_def del: dropWhile_eq_Nil_conv)
  next
    case False
    with x(3) obtain r where r: "rest = CHR 0x5C # r" "r \<noteq> ''''" by blast
    have "last r \<in> set path" "last path = last r" using r(2) by (simp_all add: x(2) r(1))
    then have "\<not> is_slash (last r)" using assms(1) by (auto simp: nt_clean_def is_slash_def)
    then have "rev (dropWhile is_slash (rev r)) = r" using r(2) by (cases r rule: rev_cases) auto
    with x(1,2) r letter no_slash n [of "CHR 0x5C # rev r"] show ?thesis
      by (simp add: nt_dirname_def nt_splitroot_def replace_id Let_def drive_letter_def is_slash_def)
  qed
qed

lemma trimmed_facts:
  "set (rev (dropWhile (\<lambda>c. c = CHR 0x5C) (rev s))) \<subseteq> set s"
  "rev (dropWhile (\<lambda>c. c = CHR 0x5C) (rev s)) \<noteq> [] \<Longrightarrow> last (rev (dropWhile (\<lambda>c. c = CHR 0x5C) (rev s))) \<noteq> CHR 0x5C"
proof -
  show "set (rev (dropWhile (\<lambda>c. c = CHR 0x5C) (rev s))) \<subseteq> set s"
    using set_dropWhileD [of _ "\<lambda>c. c = CHR 0x5C" "rev s"] by auto
  assume "rev (dropWhile (\<lambda>c. c = CHR 0x5C) (rev s)) \<noteq> []"
  then have "dropWhile (\<lambda>c. c = CHR 0x5C) (rev s) \<noteq> []" by simp
  then show "last (rev (dropWhile (\<lambda>c. c = CHR 0x5C) (rev s))) \<noteq> CHR 0x5C"
    using hd_dropWhile [of "\<lambda>c. c = CHR 0x5C" "rev s"] by (simp only: last_rev) simp
qed

lemma drive_letter_strip: "drive_letter p \<Longrightarrow> strip p = p"
proof -
  assume "drive_letter p"
  then obtain x where x: "p = [x, CHR '':'']" "is_letter x"
    by (cases p; cases "tl p") (auto simp: drive_letter_def)
  then have "\<not> is_space x" by (auto simp: is_letter_def is_space_def Let_def)
  moreover have "\<not> is_space CHR '':''" by code_simp
  ultimately show ?thesis by (intro strip_id) (simp_all add: x(1))
qed

text \<open>The answered path of a drive, with its backslash, is read back as the same drive.\<close>

lemma winrm_again:
  assumes "nt_clean base" "drive_path base"
  shows "\<exists>above. pick_place Winrm (if drive_letter base then base @ [CHR 0x5C] else base) =
    Inr (if drive_letter base then base @ [CHR 0x5C] else base, above, PickFolders,
         Some (if drive_letter base then base @ [CHR 0x5C] else base))"
proof (cases "drive_letter base")
  case True
  have hd: "\<not> is_space (hd base)" "base \<noteq> ''''" using assms(1) strip_hd [of base] by (simp_all add: nt_clean_def)
  moreover have "\<not> is_space CHR 0x5C" by code_simp
  ultimately have "strip (base @ [CHR 0x5C]) = base @ [CHR 0x5C]" by (intro strip_id) simp_all
  then have "pick_place Winrm (base @ [CHR 0x5C]) = pick_place Winrm base"
    using assms(1) by (simp add: pick_place_def nt_clean_def replace_id)
  with True winrm_place [OF assms] show ?thesis by (simp add: Let_def)
next
  case False
  with winrm_place [OF assms] show ?thesis by (simp add: Let_def)
qed

section \<open>Properties\<close>

definition plain_name :: "protocol \<Rightarrow> string \<Rightarrow> bool" where
  "plain_name p n = (if p = Ssh then clean_name n else nt_name n)"

lemma pick_Inr:
  assumes "pick PE s raw = Inr (path, parent, PickFolders, entries)"
  obtains folder where "pick_place (s_protocol s) raw = Inr (path, parent, PickFolders, folder)"
    "\<forall>n e. (n, e) \<in> set entries \<longrightarrow> e = entry_path (s_protocol s) PickFolders path n"
proof -
  from assms obtain folder where "pick_place (s_protocol s) raw = Inr (path, parent, PickFolders, folder)"
    "\<exists>names. entries = map (\<lambda>n. (n, entry_path (s_protocol s) PickFolders path n)) names"
    by (auto simp: pick_def bindE_Inr_iff)
  then show ?thesis by (intro that) auto
qed

lemma ssh_returns:
  assumes "pick_place Ssh raw = Inr (path, parent, PickFolders, folder)" "raw = '''' \<or> prefix ''/'' raw"
    and "clean_name n" "e = entry_path Ssh PickFolders path n"
  shows "\<exists>up above. pick_place Ssh e = Inr (e, Some up, PickFolders, Some e) \<and>
    pick_place Ssh up = Inr (path, above, PickFolders, Some path)"
proof -
  from assms(2) have "prefix ''/'' (if raw = '''' then ''/'' else raw)" by auto
  then obtain slashes cs where f: "slashes = ''/'' \<or> slashes = ''//''" "list_all clean_name cs"
    "posix_normpath (if raw = '''' then ''/'' else raw) = absolute slashes cs" by (rule normpath_form)
  have "posix_normpath ''/'' = ''/''" by code_simp
  with f(1,3) assms(1) have path: "path = absolute slashes cs"
    by (auto simp: pick_place_def Let_def absolute_def split: if_splits)
  have "e = absolute slashes (cs @ [n])"
    using assms(4) join_absolute [OF f(1,2) assms(3)] by (simp add: entry_path_def path)
  moreover have "absolute slashes (cs @ [n]) \<noteq> ''/''"
  proof -
    have "cs @ [n] \<noteq> []" "list_all clean_name (cs @ [n])" using f(2) assms(3) by simp_all
    then obtain x s where "join_on CHR ''/'' (cs @ [n]) = x # s" "x \<noteq> CHR ''/''" by (rule join_ends)
    with f(1) show ?thesis by (elim disjE) (simp_all add: absolute_def)
  qed
  ultimately show ?thesis
    using ssh_place [OF f(1), of "cs @ [n]"] ssh_place [OF f(1,2)] f(2) assms(3) dirname_absolute [OF f(1,2) assms(3)]
    by (auto simp: path)
qed

lemma smb_returns:
  assumes "pick_place Smb raw = Inr (path, parent, PickFolders, folder)" "strip path = path"
    and "nt_name n" "e = entry_path Smb PickFolders path n"
  shows "\<exists>up above. pick_place Smb e = Inr (e, Some up, PickFolders, Some e) \<and>
    pick_place Smb up = Inr (path, above, PickFolders, Some path)"
proof -
  have path: "path = rev (dropWhile (\<lambda>c. c = CHR 0x5C) (rev (replace_char CHR ''/'' CHR 0x5C (strip raw))))" "path \<noteq> ''''"
    using assms(1) by (auto simp: pick_place_def Let_def split: if_splits)
  have "CHR ''/'' \<notin> set path" "last path \<noteq> CHR 0x5C"
    using trimmed_facts [of "replace_char CHR ''/'' CHR 0x5C (strip raw)"] path by (auto simp: replace_char_def)
  with path(2) assms(2) have clean: "nt_clean path" by (simp add: nt_clean_def)
  then have "e = path @ CHR 0x5C # n" using assms(4) by (simp add: entry_path_def trimmed_id nt_clean_def)
  moreover have "CHR 0x5C \<notin> set n" using assms(3) by (auto simp: nt_name_def list_all_iff is_slash_def)
  ultimately show ?thesis
    using smb_place [OF nt_below [OF clean assms(3)]] smb_place [OF clean] by (simp add: before_last_below)
qed

lemma drive_below:
  assumes "nt_clean path" "drive_path path" "n \<noteq> ''''"
  shows "drive_path (path @ CHR 0x5C # n)" "\<not> drive_letter (path @ CHR 0x5C # n)"
proof -
  from assms(1,2) obtain x rest where x: "is_letter x" "path = x # CHR '':'' # rest" "rest = '''' \<or> (\<exists>r. rest = CHR 0x5C # r \<and> r \<noteq> '''')"
    by (rule drive_path_form)
  then show "drive_path (path @ CHR 0x5C # n)" by (auto simp: drive_path_def is_slash_def)
  show "\<not> drive_letter (path @ CHR 0x5C # n)" using x(2) by (simp add: drive_letter_def)
qed

lemma winrm_returns:
  assumes "pick_place Winrm raw = Inr (path, parent, PickFolders, folder)" "strip path = path" "drive_path path"
    and n: "nt_name n" and "e = entry_path Winrm PickFolders path n"
  shows "\<exists>up above. pick_place Winrm e = Inr (e, Some up, PickFolders, Some e) \<and>
    pick_place Winrm up = Inr (path, above, PickFolders, Some path)"
proof -
  let ?base = "rev (dropWhile (\<lambda>c. c = CHR 0x5C) (rev (replace_char CHR ''/'' CHR 0x5C (strip raw))))"
  have path: "path = (if drive_letter ?base then ?base @ [CHR 0x5C] else ?base)" "?base \<noteq> ''''"
    using assms(1) by (auto simp: pick_place_def Let_def bindE_Inr_iff split: if_splits)
  have "CHR ''/'' \<notin> set ?base" "last ?base \<noteq> CHR 0x5C"
    using trimmed_facts [of "replace_char CHR ''/'' CHR 0x5C (strip raw)"] path(2) by (auto simp: replace_char_def)
  moreover have "strip ?base = ?base"
    using assms(2) path drive_letter_strip [of ?base] by (auto split: if_splits)
  ultimately have clean: "nt_clean ?base" using path(2) by (simp add: nt_clean_def)
  have drive: "drive_path ?base" using assms(3) path(1) by (auto simp: drive_path_def drive_letter_def split: if_splits)
  have e: "e = ?base @ CHR 0x5C # n"
    using assms(5) path clean by (auto simp: entry_path_def trimmed_id nt_clean_def)
  have below: "drive_path e" "\<not> drive_letter e"
    using drive_below [OF clean drive, of n] n e by (simp_all add: nt_name_def)
  have up: "nt_dirname e = path" using nt_dirname_below [OF clean drive n] path(1) e by simp
  have "pick_place Winrm e = Inr (e, Some path, PickFolders, Some e)"
    using winrm_place [OF nt_below [OF clean n]] below up e path(1) by (auto simp: Let_def drive_letter_def)
  moreover have "\<exists>above. pick_place Winrm path = Inr (path, above, PickFolders, Some path)"
    using winrm_again [OF clean drive] path(1) by simp
  ultimately show ?thesis by auto
qed

text \<open>The characters of an administrative share.\<close>

lemma share_char:
  "is_letter (lower_char c) \<or> lower_char c = CHR ''$'' \<Longrightarrow> 32 \<le> (of_char c :: nat) \<and> c \<noteq> CHR '':'' \<and> \<not> is_slash c \<and> \<not> is_space c"
proof -
  assume c: "is_letter (lower_char c) \<or> lower_char c = CHR ''$''"
  have "(of_char (lower_char c) :: nat) = 36 \<or> 65 \<le> (of_char (lower_char c) :: nat) \<and> (of_char (lower_char c) :: nat) \<le> 90 \<or>
      97 \<le> (of_char (lower_char c) :: nat) \<and> (of_char (lower_char c) :: nat) \<le> 122"
    using c by (elim disjE) (simp_all add: is_letter_def Let_def)
  then have n: "33 \<le> (of_char c :: nat)" "(of_char c :: nat) \<noteq> 47" "(of_char c :: nat) \<noteq> 92" "(of_char c :: nat) < 128"
    "(of_char c :: nat) \<noteq> 58"
    by (auto simp: lower_code Let_def split: if_splits)
  then have "c \<noteq> CHR ''/''" "c \<noteq> CHR 0x5C" "c \<noteq> CHR '':''" by auto
  moreover have "\<not> is_space c" using n by (auto simp: is_space_def Let_def)
  ultimately show ?thesis using n by (simp add: is_slash_def)
qed

lemma admin_share_chars:
  assumes "admin_share share" "strip share = share"
  shows "share \<noteq> '''' \<and> list_all (\<lambda>c. 32 \<le> (of_char c :: nat) \<and> c \<noteq> CHR '':'' \<and> \<not> is_slash c \<and> \<not> is_space c) share"
proof -
  have ne: "share \<noteq> ''''" using assms(1) by (auto simp: admin_share_def lower_def)
  have "is_space CHR 0x0A" by code_simp
  with strip_keeps_last [OF assms(2) ne] have "last share \<noteq> CHR 0x0A" by auto
  then consider "lower share = ''admin$''" | "lower share = ''ipc$''"
    | "length (lower share) = 2" "is_letter (hd (lower share))" "lower share ! 1 = CHR ''$''"
    using assms(1) ne by (auto simp: admin_share_def Let_def)
  then have "list_all (\<lambda>c. is_letter c \<or> c = CHR ''$'') (lower share)"
  proof cases
    case 3
    then show ?thesis by (cases "lower share"; cases "tl (lower share)") auto
  qed (simp_all add: is_letter_def)
  then have "list_all (\<lambda>c. is_letter (lower_char c) \<or> lower_char c = CHR ''$'') share" by (simp add: lower_def list_all_iff)
  then have "list_all (\<lambda>c. 32 \<le> (of_char c :: nat) \<and> c \<noteq> CHR '':'' \<and> \<not> is_slash c \<and> \<not> is_space c) share"
    using share_char by (simp add: list_all_iff)
  with ne show ?thesis by blast
qed

text \<open>
  The guard against administrative shares is passed with one slash: \<open>C$\<close> is refused as a base path,
  \<open>/C$\<close> is stored, and the path it is opened under is that of \<open>C$\<close>.
\<close>

theorem single_slash_reaches_an_admin_share:
  assumes "admin_share share" "strip share = share"
  shows "validate_base_path SE Smb share = Inl (bad_request ''administrative share'') \<and>
    validate_base_path SE Smb (CHR ''/'' # share) = Inr (CHR ''/'' # share) \<and>
    unc_path (with_base_path s (CHR ''/'' # share)) '''' = unc_path (with_base_path s share) '''' \<and>
    unc_path (with_base_path s share) '''' = [CHR 0x5C, CHR 0x5C] @ s_host s @ CHR 0x5C # share"
proof -
  from admin_share_chars [OF assms] have ne: "share \<noteq> ''''"
    and chars: "list_all (\<lambda>c. 32 \<le> (of_char c :: nat)) share" "list_all (\<lambda>c. \<not> is_slash c) share" "\<not> is_space (last share)"
    by (auto simp: list_all_iff)
  from ne have whole: "takeWhile (\<lambda>c. \<not> is_slash c) share = share" using chars(2) by (simp add: list_all_iff)
  obtain front x where x: "share = front @ [x]" using ne by (cases share rule: rev_cases) auto
  have slash: "is_slash CHR ''/''" "\<not> is_slash x" "\<not> is_space CHR ''/''" using chars(2) by (auto simp: is_slash_def x is_space_def)
  obtain y others where y: "share = y # others" using ne by (cases share) auto
  have first: "\<not> is_slash y" using chars(2) by (simp add: y)
  have stripped: "strip (CHR ''/'' # share) = CHR ''/'' # share" using ne chars(3) slash(3) by (intro strip_id) simp_all
  have "\<not> is_letter CHR ''/''" "\<not> label_char CHR ''/''" by code_simp+
  then have not_drive: "\<not> drive_path (CHR ''/'' # share)" "\<not> drive_only (CHR ''/'' # share)"
    by (auto simp: drive_path_def drive_only_def)
  have "\<not> drive_path share"
  proof
    assume "drive_path share"
    then have "CHR '':'' \<in> set share" using nth_mem [of 1 share] by (simp add: drive_path_def)
    with admin_share_chars [OF assms] show False unfolding list_all_iff by blast
  qed
  note not_drive = not_drive this
  have single: "\<not> two_slashes share" "\<not> two_slashes (CHR ''/'' # share)" using first by (auto simp: two_slashes_def y is_slash_def)
  have "validate_base_path SE Smb share = Inl (bad_request ''administrative share'')"
    using assms chars(1) ne not_drive(3) single(1) by (simp add: validate_base_path_def requireE_def whole)
  moreover have "\<not> admin_share ''''" by code_simp
  then have "validate_base_path SE Smb (CHR ''/'' # share) = Inr (normalize_root_path Smb (CHR ''/'' # share))"
    using chars(1) stripped not_drive(1) single(2) slash(1) by (simp add: validate_base_path_def requireE_def)
  moreover have "normalize_root_path Smb (CHR ''/'' # share) = CHR ''/'' # share"
    using stripped not_drive(2) slash(2) by (simp add: normalize_root_path_def x)
  moreover have trim: "dropWhile is_slash (rev (CHR ''/'' # share)) = rev (CHR ''/'' # share)" "dropWhile is_slash (rev share) = rev share"
    "dropWhile is_slash share = share" using slash(2) first by (simp add: x, simp add: x, simp add: y)
  have "trim_slashes share = share" "trim_slashes (CHR ''/'' # share) = share"
    unfolding trim_slashes_def trim using slash(1) trim(3) by simp_all
  ultimately show ?thesis using ne by (simp add: unc_path_def with_base_path_def Let_def replace_char_def)
qed

text \<open>
  Browsing never carries a saved credential elsewhere: without a credential in the request, the source
  the picker connects to has the host, the port, the protocol and the credential of a saved source that
  is not a system source.
\<close>

theorem picker_sends_the_saved_credential_only_to_its_host:
  assumes "picker_source SE d q = Inr (source_id, s)" "fq_credential q = None"
  shows "\<exists>saved \<in> set (sources d). source_id = Some (s_id saved) \<and> s_host s = s_host saved \<and> s_port s = s_port saved \<and>
    s_protocol s = s_protocol saved \<and> s_credential_ref s = s_credential_ref saved \<and> s_credential_ref s \<noteq> None \<and>
    \<not> s_is_system saved"
proof (cases "fq_source_id q")
  case None
  with assms show ?thesis
    by (simp add: picker_source_def picker_credential_def bindE_Inr_iff Let_def)
next
  case (Some i)
  with assms obtain saved where saved: "get_source d i = Some saved" "\<not> s_is_system saved"
    "source_id = Some (s_id saved)" "s_protocol s = s_protocol saved" "s_host s = s_host saved" "s_port s = s_port saved"
    "s_credential_ref s = s_credential_ref saved" "s_credential_ref saved \<noteq> None"
    by (auto simp: picker_source_def picker_credential_def bindE_Inr_iff someE_Inr_iff requireE_Inr_iff require_not_system_def Let_def
        split: option.splits if_splits)
  then show ?thesis using tbl_get_Some [OF saved(1)] by (intro bexI [of _ saved]) auto
qed

text \<open>
  Only those who may manage sources read the raw text of a connector's error: for anyone else, the
  answer of the connection check does not depend on it.
\<close>

theorem only_managers_see_raw_errors:
  assumes "can_manage_sources d u = Inr False"
  shows "check_connection (PE\<lparr>pe_str := f\<rparr>) d u i = check_connection PE d u i"
proof -
  have m: "check_failure_message (PE\<lparr>pe_str := f\<rparr>) d u s root exc = check_failure_message PE d u s root exc" for s root exc
    using assms by (simp add: check_failure_message_def Let_def split: prod.split)
  have "check_failures (PE\<lparr>pe_str := f\<rparr>) d u s c roots = check_failures PE d u s c roots" for s c roots
    by (induction roots) (simp_all add: m split: sum.split)
  then have "check_failures (PE\<lparr>pe_str := f\<rparr>) d u = check_failures PE d u" by (intro ext)
  then show ?thesis by (simp add: check_connection_def cong: option.case_cong)
qed

text \<open>
  The picker finds its way back: entering a folder it listed shows that folder, and going up from
  there shows the listing again, over SSH, SMB and on the drives of WinRM, for names without slashes.
\<close>

theorem going_up_from_a_picked_folder_returns:
  assumes "pick PE s raw = Inr (path, parent, PickFolders, entries)" "(n, e) \<in> set entries" "plain_name (s_protocol s) n"
    and "s_protocol s = Ssh \<and> (raw = '''' \<or> prefix ''/'' raw) \<or> s_protocol s = Smb \<and> strip path = path \<or>
         s_protocol s = Winrm \<and> strip path = path \<and> drive_path path"
  shows "\<exists>up above. pick_place (s_protocol s) e = Inr (e, Some up, PickFolders, Some e) \<and>
    pick_place (s_protocol s) up = Inr (path, above, PickFolders, Some path)"
proof -
  from assms(1) obtain folder where place: "pick_place (s_protocol s) raw = Inr (path, parent, PickFolders, folder)"
    and entry: "\<forall>n e. (n, e) \<in> set entries \<longrightarrow> e = entry_path (s_protocol s) PickFolders path n" by (rule pick_Inr)
  note e = entry [rule_format, OF assms(2)]
  from assms(4) consider "s_protocol s = Ssh" "raw = '''' \<or> prefix ''/'' raw" | "s_protocol s = Smb" "strip path = path"
    | "s_protocol s = Winrm" "strip path = path" "drive_path path" by blast
  then show ?thesis
  proof cases
    case 1
    with place e assms(3) ssh_returns [of raw path parent folder n e] show ?thesis by (simp add: plain_name_def)
  next
    case 2
    with place e assms(3) smb_returns [of raw path parent folder n e] show ?thesis by (simp add: plain_name_def)
  next
    case 3
    with place e assms(3) winrm_returns [of raw path parent folder n e] show ?thesis by (simp add: plain_name_def)
  qed
qed


section \<open>Witnesses\<close>

definition sample_pe :: picker_env where
  "sample_pe = \<lparr>pe_source = sample_se, pe_public_message = (\<lambda>_. ''Failed''), pe_str = (\<lambda>_. ''raw''),
     pe_drives = (\<lambda>_. Inr []), pe_shares = (\<lambda>_. Inr [])\<rparr>"

definition pick_saved :: folder_pick_request where
  "pick_saved = \<lparr>fq_source_id = Some 10, fq_protocol = None, fq_host = None, fq_port = None, fq_credential = None,
     fq_winrm_scheme = None, fq_tls_ca_pem = None, fq_path = ''''\<rparr>"

theorem single_slash_reaches_an_admin_share_witness:
  "validate_base_path sample_se Smb ''C$'' = Inl (bad_request ''administrative share'') \<and>
   validate_base_path sample_se Smb ''/C$'' = Inr ''/C$'' \<and>
   unc_path (with_base_path sample_source ''/C$'') '''' = [CHR 0x5C, CHR 0x5C] @ ''h'' @ CHR 0x5C # ''C$''"
proof -
  have "admin_share ''C$''" "strip ''C$'' = ''C$''" by code_simp+
  from single_slash_reaches_an_admin_share [OF this, of sample_se sample_source] show ?thesis by (simp add: sample_source_def)
qed

theorem picker_sends_the_saved_credential_only_to_its_host_witness:
  "\<exists>s. picker_source sample_se sources_db pick_saved = Inr (Some 10, s) \<and> s_host s = ''h'' \<and> s_credential_ref s = Some ''key''"
proof -
  have "picker_source sample_se sources_db pick_saved \<noteq> Inl e" for e
    by (simp add: picker_source_def picker_credential_def sources_db_source pick_saved_def require_not_system_def sample_source_def
        Let_def picker_protocols_def validate_ca_pem_def bindE_Inl_iff requireE_Inl_iff strip_def rstrip_def lstrip_def is_space_def)
  then obtain i s where p: "picker_source sample_se sources_db pick_saved = Inr (i, s)"
    by (metis sumE prod.collapse)
  have "fq_credential pick_saved = None" by (simp add: pick_saved_def)
  from picker_sends_the_saved_credential_only_to_its_host [OF p this] p sources_db_source show ?thesis
    by (auto simp: sources_db_def sample_source_def)
qed

theorem only_managers_see_raw_errors_witness:
  "check_connection (sample_pe\<lparr>pe_str := (\<lambda>_. ''secret'')\<rparr>) (sources_db\<lparr>roles := [operator_role]\<rparr>) operator 10 =
   check_connection sample_pe (sources_db\<lparr>roles := [operator_role]\<rparr>) operator 10"
proof -
  have "can_manage_sources (sources_db\<lparr>roles := [operator_role]\<rparr>) operator = Inr False" by code_simp
  then show ?thesis by (rule only_managers_see_raw_errors)
qed

definition folders_pe :: picker_env where
  "folders_pe = sample_pe\<lparr>pe_source := sample_se\<lparr>se_files := (one_file_env ''a'' ''x'')
     \<lparr>fe_connectors := (\<lambda>_. Some
        \<lparr>co_list = (\<lambda>_ _ _. Inr [\<lparr>de_name = ''apps'', de_path = ''apps'', de_is_dir = True, de_size = 0\<rparr>]),
         co_fetch = (\<lambda>_ _. (Inr (), None)), co_copy = (\<lambda>_ _. Inr '''')\<rparr>)\<rparr>\<rparr>\<rparr>"

theorem going_up_from_a_picked_folder_returns_witness:
  "\<exists>up above. pick_place Ssh ''/var/apps'' = Inr (''/var/apps'', Some up, PickFolders, Some ''/var/apps'') \<and>
    pick_place Ssh up = Inr (''/var'', above, PickFolders, Some ''/var'')"
proof -
  have p: "pick folders_pe sample_source ''/var'' = Inr (''/var'', Some ''/'', PickFolders, [(''apps'', ''/var/apps'')])" by code_simp
  have h: "(''apps'', ''/var/apps'') \<in> set [(''apps'', ''/var/apps'')]" "plain_name (s_protocol sample_source) ''apps''"
    "s_protocol sample_source = Ssh \<and> (''/var'' = '''' \<or> prefix ''/'' ''/var'') \<or>
     s_protocol sample_source = Smb \<and> strip ''/var'' = ''/var'' \<or>
     s_protocol sample_source = Winrm \<and> strip ''/var'' = ''/var'' \<and> drive_path ''/var''"
    by code_simp+
  from going_up_from_a_picked_folder_returns [OF p h] show ?thesis by (simp add: sample_source_def)
qed

end
