(* ===== verification/ConfigParse.thy ===== *)
theory ConfigParse
  imports SourcePicker
begin

text \<open>
  The reading half of \<open>app/config_transfer.py\<close>: a YAML file as a list of customers, folders and sources,
  or of the problems that stop the import. The YAML library, the environment of the server and the text
  of a list or mapping are parameters.
\<close>

section \<open>Values\<close>

text \<open>
  What \<open>yaml.safe_load\<close> gives, as far as the code tells values apart: \<open>YOther\<close> is a scalar of another type
  (a float, a date) by its text; a key that is no string stands by its text.
\<close>

datatype yaml =
    YNull
  | YBool bool
  | YInt int
  | YStr string
  | YOther string
  | YList "yaml list"
  | YMap "(string \<times> yaml) list"

record config_env =
  ce_source :: source_env
  ce_load :: "string \<Rightarrow> string \<times> string + yaml"
  ce_dump :: "yaml \<Rightarrow> string"
  ce_environ :: "string \<Rightarrow> string option"
  ce_repr :: "yaml \<Rightarrow> string"
  ce_re_ok :: "string \<Rightarrow> bool"
  ce_decrypt :: "string \<Rightarrow> message"

definition ce_re2 :: "config_env \<Rightarrow> re2_engine" where
  "ce_re2 CE = fe_re2 (se_files (ce_source CE))"

fun yaml_text :: "config_env \<Rightarrow> yaml \<Rightarrow> string" where
  "yaml_text CE YNull = ''None''"
| "yaml_text CE (YBool b) = (if b then ''True'' else ''False'')"
| "yaml_text CE (YInt n) = show_int n"
| "yaml_text CE (YStr s) = s"
| "yaml_text CE (YOther t) = t"
| "yaml_text CE v = ce_repr CE v"

text \<open>\<open>dict.get\<close>, without and with a default.\<close>

definition yget :: "(string \<times> yaml) list \<Rightarrow> string \<Rightarrow> yaml" where
  "yget m key = (case map_of m key of None \<Rightarrow> YNull | Some v \<Rightarrow> v)"

definition yget_or :: "(string \<times> yaml) list \<Rightarrow> string \<Rightarrow> yaml \<Rightarrow> yaml" where
  "yget_or m key dflt = (case map_of m key of None \<Rightarrow> dflt | Some v \<Rightarrow> v)"

section \<open>What is read\<close>

record problem =
  pr_where :: string
  pr_message :: string

record rule_spec =
  rs_type :: rule_type
  rs_pattern :: string
  rs_kind :: pattern_kind
  rs_notes :: "string option"

record source_spec =
  sp_where :: string
  sp_key :: string
  sp_customer :: "string option"
  sp_folders :: "string list"
  sp_name :: string
  sp_protocol :: protocol
  sp_host :: string
  sp_port :: "int option"
  sp_base_path :: string
  sp_roots :: "source_root list option"
  sp_enabled :: bool
  sp_search_indexing_enabled :: bool
  sp_credential :: "message option"
  sp_rules :: "rule_spec list option"
  sp_winrm_scheme :: "string option"
  sp_tls_ca_pem :: "string option"

record parsed =
  pa_customers :: "string list"
  pa_folders :: "(string \<times> string list) list"
  pa_sources :: "source_spec list"
  pa_problems :: "problem list"

definition nothing :: parsed where
  "nothing = \<lparr>pa_customers = [], pa_folders = [], pa_sources = [], pa_problems = []\<rparr>"

text \<open>What one step appends, and then another.\<close>

definition and_then :: "parsed \<Rightarrow> parsed \<Rightarrow> parsed" where
  "and_then p q =
     \<lparr>pa_customers = pa_customers p @ pa_customers q, pa_folders = pa_folders p @ pa_folders q,
      pa_sources = pa_sources p @ pa_sources q, pa_problems = pa_problems p @ pa_problems q\<rparr>"

definition problem_at :: "string \<Rightarrow> string \<Rightarrow> parsed" where
  "problem_at place msg = nothing\<lparr>pa_problems := [\<lparr>pr_where = place, pr_message = msg\<rparr>]\<rparr>"

definition schema_version :: int where
  "schema_version = 1"

definition max_bytes :: nat where
  "max_bytes = 1000000"

definition max_sources :: nat where
  "max_sources = 5000"

definition credential_protocols :: "protocol list" where
  "credential_protocols = [Ssh, Smb, Winrm]"

definition source_keys :: "string list" where
  "source_keys = [''name'', ''protocol'', ''host'', ''port'', ''base_path'', ''roots'', ''enabled'', ''search_indexing_enabled'',
     ''credential'', ''rules'', ''winrm_scheme'', ''tls_ca_pem'']"

definition container_keys :: "string list" where
  "container_keys = [''name'', ''folders'', ''sources'']"

definition source_key :: "string option \<Rightarrow> string list \<Rightarrow> string \<Rightarrow> string" where
  "source_key customer path name =
     join_str '' / '' ((case customer of None \<Rightarrow> ''(no customer)'' | Some c \<Rightarrow> if c = '''' then ''(no customer)'' else c) # path @ [name])"

section \<open>Parts of a file\<close>

definition unknown_keys :: "string list \<Rightarrow> (string \<times> yaml) list \<Rightarrow> string \<Rightarrow> parsed" where
  "unknown_keys known m place =
     (let unknown = filter (\<lambda>k. k \<notin> set known) (map fst m)
      in if unknown = [] then nothing else problem_at place (''Unknown keys: '' @ join_str '', '' (sort unknown)))"

definition as_list :: "yaml \<Rightarrow> string \<Rightarrow> parsed \<times> yaml list" where
  "as_list v place =
     (case v of YNull \<Rightarrow> (nothing, []) | YList xs \<Rightarrow> (nothing, xs) | _ \<Rightarrow> (problem_at place ''Expected a list'', []))"

definition given_name :: "(string \<times> yaml) list \<Rightarrow> string option" where
  "given_name m = (case yget m ''name'' of YStr s \<Rightarrow> if strip s = '''' then None else Some (strip s) | _ \<Rightarrow> None)"

definition container_name :: "yaml \<Rightarrow> string \<Rightarrow> parsed \<times> string option" where
  "container_name node place =
     (case node of
        YMap m \<Rightarrow>
          (case given_name m of
             None \<Rightarrow> (and_then (unknown_keys container_keys m place) (problem_at place ''name is required''), None)
           | Some n \<Rightarrow> (unknown_keys container_keys m place, Some n))
      | _ \<Rightarrow> (problem_at place ''Expected a mapping with a name'', None))"

definition env_prefix :: string where
  "env_prefix = ''PERCHTAIL_IMPORT_''"

definition word_char :: "char \<Rightarrow> bool" where
  "word_char c = (is_letter c \<or> is_digit c \<or> c = CHR ''_'')"

text \<open>\<open>_ENV_REF\<close>: the name of the variable.\<close>

definition env_ref :: "string \<Rightarrow> string option" where
  "env_ref s =
     (let inner = drop 6 (butlast s) in
      if prefix ''${env:'' s \<and> last s = CHR ''}'' \<and> prefix env_prefix inner \<and>
         drop (length env_prefix) inner \<noteq> '''' \<and> list_all word_char (drop (length env_prefix) inner)
      then Some inner else None)"

fun resolve_values :: "config_env \<Rightarrow> string \<Rightarrow> (string \<times> yaml) list \<Rightarrow> parsed + message" where
  "resolve_values CE place [] = Inr []"
| "resolve_values CE place ((key, raw) # rest) =
     (case raw of
        YStr s \<Rightarrow>
          bindE
            (case env_ref (strip s) of
               Some name \<Rightarrow> someE (problem_at (place @ ''.'' @ key) (name @ '' is not set on the server'')) (ce_environ CE name)
             | None \<Rightarrow>
                 bindE (requireE (\<not> prefix ''${'' (strip s))
                   (problem_at (place @ ''.'' @ key) ''Only ${env:PERCHTAIL_IMPORT_...} references are read from the environment''))
                 (\<lambda>_. Inr s)) (\<lambda>v.
          bindE (resolve_values CE place rest) (\<lambda>vs. Inr ((key, JStr v) # vs)))
      | _ \<Rightarrow> Inl (problem_at (place @ ''.'' @ key) ''must be a string''))"

definition has_value :: "message \<Rightarrow> string \<Rightarrow> bool" where
  "has_value c key = (case map_of c key of Some (JStr s) \<Rightarrow> s \<noteq> '''' | _ \<Rightarrow> False)"

definition credential_keys :: "string list" where
  "credential_keys = [''username'', ''password'', ''private_key'']"

definition parse_credential :: "config_env \<Rightarrow> yaml \<Rightarrow> protocol \<Rightarrow> string \<Rightarrow> parsed \<times> message option" where
  "parse_credential CE v p place =
     (if v = YNull then (nothing, None)
      else if p \<notin> set credential_protocols then (problem_at place (protocol_value p @ '' sources take no credential''), None)
      else
        (case v of
           YMap m \<Rightarrow>
             if \<not> set (map fst m) \<subseteq> set credential_keys
             then (problem_at place ''credential takes username plus password or private_key'', None)
             else
               (case resolve_values CE place m of
                  Inl p \<Rightarrow> (p, None)
                | Inr c \<Rightarrow>
                    if has_value c ''username'' \<and> (has_value c ''password'' \<or> has_value c ''private_key'') then (nothing, Some c)
                    else (problem_at place ''credential needs a username and a password or private_key'', None))
         | _ \<Rightarrow> (problem_at place ''credential takes username plus password or private_key'', None)))"

definition quoted_pattern :: "string \<Rightarrow> bool" where
  "quoted_pattern raw = (2 \<le> length raw \<and> hd raw = last raw \<and> hd raw \<in> {CHR 0x22, CHR 0x27})"

definition rule_type_of :: "string \<Rightarrow> rule_type option" where
  "rule_type_of s = (if s = ''include'' then Some Include else if s = ''exclude'' then Some Exclude else None)"

text \<open>The word, the pattern and the notes of an item, and whether it is one plain string.\<close>

definition rule_parts :: "config_env \<Rightarrow> yaml \<Rightarrow> string \<Rightarrow> parsed + (string \<times> string \<times> string option \<times> bool)" where
  "rule_parts CE item place =
     (case item of
        YStr s \<Rightarrow>
          let (w, raw) = partition_on CHR '' '' (strip s) in Inr (w, raw, None, True)
      | YMap m \<Rightarrow>
          if \<not> set (map fst m) \<subseteq> {''type'', ''pattern'', ''notes''}
          then Inl (problem_at place ''Expected include <pattern> or exclude <pattern>'')
          else
            (let w = yaml_text CE (yget_or m ''type'' (YStr '''')); raw = yaml_text CE (yget_or m ''pattern'' (YStr ''''))
             in case yget m ''notes'' of
                  YNull \<Rightarrow> Inr (w, raw, None, False)
                | YStr n \<Rightarrow> Inr (w, raw, Some n, False)
                | _ \<Rightarrow> Inl (problem_at place ''notes must be text''))
      | _ \<Rightarrow> Inl (problem_at place ''Expected include <pattern> or exclude <pattern>''))"

definition parse_rule :: "config_env \<Rightarrow> yaml \<Rightarrow> string \<Rightarrow> parsed + rule_spec" where
  "parse_rule CE item place =
     bindE (rule_parts CE item place) (\<lambda>(w, raw0, notes, plain).
     bindE (someE (problem_at place ''A rule starts with include or exclude'') (rule_type_of w)) (\<lambda>t.
     let raw = strip raw0 in
     bindE (requireE (raw \<noteq> '''') (problem_at place ''The rule has no pattern'')) (\<lambda>_.
     bindE (requireE (\<not> (plain \<and> quoted_pattern raw))
              (problem_at place ''The pattern is in quotes, which would become part of it'')) (\<lambda>_.
     case parse_pattern (ce_re2 CE) (ce_re_ok CE) raw True of
       Inl p \<Rightarrow> Inl (problem_at place (''invalid regex '' @ p))
     | Inr (pattern, kind) \<Rightarrow> Inr \<lparr>rs_type = t, rs_pattern = pattern, rs_kind = kind, rs_notes = notes\<rparr>))))"

fun parse_rule_items :: "config_env \<Rightarrow> yaml list \<Rightarrow> string \<Rightarrow> nat \<Rightarrow> parsed \<times> rule_spec list" where
  "parse_rule_items CE [] place i = (nothing, [])"
| "parse_rule_items CE (item # items) place i =
     (let (ps, rs) = parse_rule_items CE items place (i + 1) in
      case parse_rule CE item (place @ ''['' @ show_nat i @ '']'') of
        Inl p \<Rightarrow> (and_then p ps, rs)
      | Inr r \<Rightarrow> (ps, r # rs))"

definition parse_rules :: "config_env \<Rightarrow> yaml \<Rightarrow> string \<Rightarrow> parsed \<times> rule_spec list option" where
  "parse_rules CE v place =
     (case v of
        YNull \<Rightarrow> (nothing, None)
      | YList items \<Rightarrow> (let (ps, rs) = parse_rule_items CE items place 0 in (ps, Some rs))
      | _ \<Rightarrow> (problem_at place ''rules must be a list'', None))"

section \<open>A source\<close>

definition protocol_of :: "yaml \<Rightarrow> protocol option" where
  "protocol_of v = find (\<lambda>p. v = YStr (protocol_value p)) [Ssh, Smb, Winrm, Local, Agent]"

definition failure_detail :: "source_failure \<Rightarrow> string" where
  "failure_detail e = (case e of Refused (HTTPException _ msg) \<Rightarrow> msg | _ \<Rightarrow> '''')"

fun all_maps :: "yaml list \<Rightarrow> (string \<times> yaml) list list option" where
  "all_maps [] = Some []"
| "all_maps (YMap m # vs) = map_option (\<lambda>ms. m # ms) (all_maps vs)"
| "all_maps (_ # vs) = None"

definition root_model :: "config_env \<Rightarrow> (string \<times> yaml) list \<Rightarrow> source_root" where
  "root_model CE m =
     \<lparr>root_label = yaml_text CE (yget_or m ''label'' (YStr '''')), root_path = yaml_text CE (yget_or m ''path'' (YStr ''''))\<rparr>"

text \<open>The roots and the base path, or the problem that ends the source.\<close>

definition parse_paths ::
  "config_env \<Rightarrow> protocol \<Rightarrow> (string \<times> yaml) list \<Rightarrow> string \<Rightarrow> parsed + (source_root list option \<times> string)" where
  "parse_paths CE p m place =
     (let refused = (\<lambda>e. problem_at (place @ ''.base_path'') (failure_detail e)) in
      if yget m ''roots'' \<noteq> YNull then
        bindE (someE (problem_at (place @ ''.roots'') ''roots must be a list of label/path'')
                (case yget m ''roots'' of YList vs \<Rightarrow> all_maps vs | _ \<Rightarrow> None)) (\<lambda>ms.
        let models = map (root_model CE) ms in
        bindE (map_error refused (validate_roots (ce_source CE) p models hard_max_roots)) (\<lambda>roots.
        case roots of
          Some (r # _) \<Rightarrow> Inr (roots, root_path r)
        | _ \<Rightarrow>
            (case models of
               [] \<Rightarrow> Inl (problem_at (place @ ''.roots'') ''roots is empty'')
             | r # _ \<Rightarrow> bindE (map_error refused (validate_base_path (ce_source CE) p (root_path r))) (\<lambda>path. Inr (roots, path)))))
      else
        (case yget m ''base_path'' of
           YStr raw \<Rightarrow>
             if p = Agent then Inr (None, raw)
             else bindE (map_error refused (validate_base_path (ce_source CE) p raw)) (\<lambda>path. Inr (None, path))
         | _ \<Rightarrow> Inl (problem_at (place @ ''.base_path'') ''base_path (or roots) is required'')))"

definition parse_port :: "(string \<times> yaml) list \<Rightarrow> string \<Rightarrow> parsed + int option" where
  "parse_port m place =
     (case yget m ''port'' of
        YNull \<Rightarrow> Inr None
      | YInt n \<Rightarrow> if 0 < n \<and> n < 65536 then Inr (Some n)
                  else Inl (problem_at (place @ ''.port'') ''port must be a number from 1 to 65535'')
      | _ \<Rightarrow> Inl (problem_at (place @ ''.port'') ''port must be a number from 1 to 65535''))"

definition parse_flag :: "(string \<times> yaml) list \<Rightarrow> string \<Rightarrow> string \<Rightarrow> bool \<Rightarrow> parsed + bool" where
  "parse_flag m place flag dflt =
     (case yget_or m flag (YBool dflt) of
        YBool b \<Rightarrow> Inr b
      | _ \<Rightarrow> Inl (problem_at (place @ ''.'' @ flag) (flag @ '' must be true or false'')))"

definition parse_tls ::
  "config_env \<Rightarrow> protocol \<Rightarrow> int option \<Rightarrow> (string \<times> yaml) list \<Rightarrow> string \<Rightarrow> parsed + (string option \<times> string option)" where
  "parse_tls CE p port m place =
     bindE (case yget m ''winrm_scheme'' of
              YNull \<Rightarrow> Inr None
            | v \<Rightarrow> if v = YStr ''https'' then Inr (Some Https) else if v = YStr ''http'' then Inr (Some Http)
                   else Inl (problem_at (place @ ''.winrm_scheme'') ''winrm_scheme must be https or http'')) (\<lambda>asked.
     bindE (case yget m ''tls_ca_pem'' of
              YNull \<Rightarrow> Inr None
            | YStr pem \<Rightarrow> Inr (Some pem)
            | _ \<Rightarrow> Inl (problem_at (place @ ''.tls_ca_pem'') ''tls_ca_pem must be PEM text'')) (\<lambda>raw_ca.
     let refused = (\<lambda>e. problem_at (place @ ''.winrm_scheme'') (failure_detail e)) in
     bindE (map_error refused (validate_winrm_scheme p asked)) (\<lambda>scheme.
     bindE (map_error refused (validate_ca_pem (ce_source CE) p raw_ca)) (\<lambda>ca.
     Inr (if p = Winrm \<and> scheme = None
          then Some (if port = None \<or> port = Some 0 \<or> port = Some 5986 then ''https'' else ''http'') else scheme, ca)))))"

definition source_spec_of ::
  "config_env \<Rightarrow> (string \<times> yaml) list \<Rightarrow> string option \<Rightarrow> string list \<Rightarrow> string \<Rightarrow> parsed + (parsed \<times> source_spec)" where
  "source_spec_of CE m customer path place =
     bindE (someE (problem_at place ''name is required'') (given_name m)) (\<lambda>name.
     bindE (someE (problem_at (place @ ''.protocol'') ''protocol must be one of ssh, smb, winrm, local, agent'')
             (protocol_of (yget m ''protocol''))) (\<lambda>p.
     bindE (case yget m ''host'' of
              YStr h \<Rightarrow> if strip h = '''' then Inl (problem_at (place @ ''.host'') ''host is required'') else Inr (strip h)
            | _ \<Rightarrow> Inl (problem_at (place @ ''.host'') ''host is required'')) (\<lambda>host.
     bindE (parse_port m place) (\<lambda>port.
     bindE (parse_flag m place ''enabled'' True) (\<lambda>enabled.
     bindE (parse_flag m place ''search_indexing_enabled'' False) (\<lambda>indexed.
     bindE (parse_paths CE p m place) (\<lambda>(roots, base_path).
     bindE (parse_tls CE p port m place) (\<lambda>(scheme, ca).
     let (cps, credential) = parse_credential CE (yget m ''credential'') p (place @ ''.credential'');
         (rps, rs) = parse_rules CE (yget m ''rules'') (place @ ''.rules'')
     in Inr (and_then cps rps,
             \<lparr>sp_where = place, sp_key = source_key customer path name, sp_customer = customer, sp_folders = path, sp_name = name,
              sp_protocol = p, sp_host = host, sp_port = port, sp_base_path = base_path, sp_roots = roots, sp_enabled = enabled,
              sp_search_indexing_enabled = indexed, sp_credential = credential, sp_rules = rs, sp_winrm_scheme = scheme,
              sp_tls_ca_pem = ca\<rparr>)))))))))"

definition parse_source :: "config_env \<Rightarrow> yaml \<Rightarrow> string option \<Rightarrow> string list \<Rightarrow> string \<Rightarrow> parsed" where
  "parse_source CE node customer path place =
     (case node of
        YMap m \<Rightarrow>
          and_then (unknown_keys source_keys m place)
            (case source_spec_of CE m customer path place of
               Inl p \<Rightarrow> p
             | Inr (p, spec) \<Rightarrow> and_then p (nothing\<lparr>pa_sources := [spec]\<rparr>))
      | _ \<Rightarrow> problem_at place ''Expected a mapping'')"

fun parse_sources :: "config_env \<Rightarrow> yaml list \<Rightarrow> string option \<Rightarrow> string list \<Rightarrow> string \<Rightarrow> nat \<Rightarrow> parsed" where
  "parse_sources CE [] customer path place j = nothing"
| "parse_sources CE (node # nodes) customer path place j =
     and_then (parse_source CE node customer path (place @ ''['' @ show_nat j @ '']''))
       (parse_sources CE nodes customer path place (j + 1))"

section \<open>The tree\<close>

definition yaml_get :: "yaml \<Rightarrow> string \<Rightarrow> yaml" where
  "yaml_get node key = (case node of YMap m \<Rightarrow> yget m key | _ \<Rightarrow> YNull)"

lemma map_of_size: "map_of m k = Some v \<Longrightarrow> size v < Suc (size_list (size_prod (\<lambda>_. 0) size) m)"
  by (induction m) (auto split: if_splits)

lemma folders_size: "size_list size (snd (as_list (yaml_get node key) place)) \<le> size node"
proof (cases node)
  case (YMap m)
  show ?thesis
  proof (cases "map_of m key")
    case (Some v)
    then have "size v < size node" using map_of_size [of m key v] YMap by simp
    then show ?thesis using Some YMap by (cases v) (auto simp: yaml_get_def yget_def as_list_def)
  qed (simp add: YMap yaml_get_def yget_def as_list_def)
qed (simp_all add: yaml_get_def as_list_def)

function walk :: "config_env \<Rightarrow> yaml \<Rightarrow> string \<Rightarrow> string list \<Rightarrow> string \<Rightarrow> parsed"
  and walk_folders :: "config_env \<Rightarrow> yaml list \<Rightarrow> string \<Rightarrow> string list \<Rightarrow> string \<Rightarrow> nat \<Rightarrow> string list \<Rightarrow> parsed" where
  "walk CE node customer path place =
     (let own = as_list (yaml_get node ''sources'') (place @ ''.sources'');
          below = as_list (yaml_get node ''folders'') (place @ ''.folders'')
      in and_then (fst own) (and_then (parse_sources CE (snd own) (Some customer) path (place @ ''.sources'') 0)
           (and_then (fst below) (walk_folders CE (snd below) customer path (place @ ''.folders'') 0 []))))"
| "walk_folders CE [] customer path place k seen = nothing"
| "walk_folders CE (f # fs) customer path place k seen =
     (let here = place @ ''['' @ show_nat k @ '']'' in
      and_then (fst (container_name f here))
        (case snd (container_name f here) of
           None \<Rightarrow> walk_folders CE fs customer path place (k + 1) seen
         | Some name \<Rightarrow>
             if name \<in> set seen
             then and_then (problem_at here (''Folder '' @ name @ '' is listed twice here''))
                    (walk_folders CE fs customer path place (k + 1) seen)
             else and_then (nothing\<lparr>pa_folders := [(customer, path @ [name])]\<rparr>)
                    (and_then (walk CE f customer (path @ [name]) here)
                      (walk_folders CE fs customer path place (k + 1) (name # seen)))))"
  by pat_completeness auto
termination
  by (relation "measure (\<lambda>x. case x of Inl (CE, node, customer, path, place) \<Rightarrow> 2 * size node + 1
        | Inr (CE, fs, customer, path, place, k, seen) \<Rightarrow> 2 * size_list size fs)")
    (use folders_size in \<open>auto simp: less_Suc_eq_le\<close>)

fun parse_customers :: "config_env \<Rightarrow> yaml list \<Rightarrow> nat \<Rightarrow> string list \<Rightarrow> parsed" where
  "parse_customers CE [] i seen = nothing"
| "parse_customers CE (node # nodes) i seen =
     (let here = ''customers['' @ show_nat i @ '']'' in
      and_then (fst (container_name node here))
        (case snd (container_name node here) of
           None \<Rightarrow> parse_customers CE nodes (i + 1) seen
         | Some name \<Rightarrow>
             if name \<in> set seen
             then and_then (problem_at here (''Customer '' @ name @ '' is listed twice'')) (parse_customers CE nodes (i + 1) seen)
             else and_then (nothing\<lparr>pa_customers := [name]\<rparr>)
                    (and_then (walk CE node name [] here) (parse_customers CE nodes (i + 1) (name # seen)))))"

text \<open>A source whose key an earlier one has.\<close>

fun same_keys :: "(string \<times> string) list \<Rightarrow> source_spec list \<Rightarrow> parsed" where
  "same_keys keys [] = nothing"
| "same_keys keys (spec # specs) =
     (case map_of keys (sp_key spec) of
        Some place \<Rightarrow>
          and_then (problem_at (sp_where spec) (''Same source as '' @ place @ '' ('' @ sp_key spec @ '')'')) (same_keys keys specs)
      | None \<Rightarrow> same_keys ((sp_key spec, sp_where spec) # keys) specs)"

definition utf8_length :: "string \<Rightarrow> nat" where
  "utf8_length s = sum_list (map (\<lambda>c. if of_char c < (128 :: nat) then 1 else 2) s)"

definition version_ok :: "yaml \<Rightarrow> bool" where
  "version_ok v = (v = YInt schema_version \<or> v = YBool True \<or> v = YOther ''1.0'')"

definition parse_doc :: "config_env \<Rightarrow> (string \<times> yaml) list \<Rightarrow> parsed" where
  "parse_doc CE doc =
     (let cs = as_list (yget doc ''customers'') ''customers'';
          ss = as_list (yget doc ''sources'') ''sources'';
          read = and_then (unknown_keys [''version'', ''customers'', ''sources''] doc ''file'')
                  (and_then (if version_ok (yget doc ''version'') then nothing else problem_at ''version'' ''version must be 1'')
                   (and_then (fst cs) (and_then (parse_customers CE (snd cs) 0 [])
                     (and_then (fst ss) (parse_sources CE (snd ss) None [] ''sources'' 0)))))
      in and_then read
           (and_then (same_keys [] (pa_sources read))
             (if length (pa_sources read) > max_sources then problem_at ''file'' ''At most 5000 sources per import'' else nothing)))"

definition parse :: "config_env \<Rightarrow> string \<Rightarrow> parsed" where
  "parse CE body =
     (if utf8_length body > max_bytes then problem_at ''file'' ''The file is larger than 1000000 bytes''
      else
        (case ce_load CE body of
           Inl (place, msg) \<Rightarrow> problem_at place (''Not valid YAML: '' @ msg)
         | Inr (YMap doc) \<Rightarrow> parse_doc CE doc
         | Inr _ \<Rightarrow> problem_at ''file'' ''Expected a mapping with version and customers''))"

section \<open>A file that was read without problems\<close>

text \<open>Every folder of a file stands below a customer and a folder of the file.\<close>

fun folders_closed :: "string list \<Rightarrow> (string \<times> string list) list \<Rightarrow> (string \<times> string list) list \<Rightarrow> bool" where
  "folders_closed cs seen [] = True"
| "folders_closed cs seen ((c, path) # places) =
     (c \<in> set cs \<and> path \<noteq> [] \<and> (length path > 1 \<longrightarrow> (c, butlast path) \<in> set seen) \<and> folders_closed cs ((c, path) # seen) places)"

text \<open>Its folders stand below its customers, its sources belong to its customers, its credentials are not empty.\<close>

definition well_parsed :: "parsed \<Rightarrow> bool" where
  "well_parsed p \<longleftrightarrow> folders_closed (pa_customers p) [] (pa_folders p) \<and>
     (\<forall>spec \<in> set (pa_sources p). sp_credential spec \<noteq> Some [] \<and>
        (\<forall>c. sp_customer spec = Some c \<longrightarrow> c \<in> set (pa_customers p) \<and> c \<noteq> ''''))"

lemma and_then_simps [simp]:
  "pa_customers (and_then p q) = pa_customers p @ pa_customers q" "pa_folders (and_then p q) = pa_folders p @ pa_folders q"
  "pa_sources (and_then p q) = pa_sources p @ pa_sources q" "pa_problems (and_then p q) = pa_problems p @ pa_problems q"
  "pa_customers nothing = []" "pa_folders nothing = []" "pa_sources nothing = []" "pa_problems nothing = []"
  "pa_customers (problem_at w m) = []" "pa_folders (problem_at w m) = []" "pa_sources (problem_at w m) = []"
  "pa_problems (problem_at w m) \<noteq> []"
  by (simp_all add: and_then_def nothing_def problem_at_def)

lemma small_parts [simp]:
  "pa_customers (unknown_keys ks m w) = []" "pa_folders (unknown_keys ks m w) = []" "pa_sources (unknown_keys ks m w) = []"
  "pa_customers (fst (as_list v w)) = []" "pa_folders (fst (as_list v w)) = []" "pa_sources (fst (as_list v w)) = []"
  "pa_customers (fst (container_name v w)) = []" "pa_folders (fst (container_name v w)) = []" "pa_sources (fst (container_name v w)) = []"
  by (simp_all add: unknown_keys_def as_list_def container_name_def Let_def split: yaml.split option.split)

definition of_customer :: "string option \<Rightarrow> parsed \<Rightarrow> bool" where
  "of_customer customer p \<longleftrightarrow> pa_customers p = [] \<and>
     (\<forall>spec \<in> set (pa_sources p). sp_credential spec \<noteq> Some [] \<and> sp_customer spec = customer)"

lemma of_customer_and_then [simp]: "of_customer c (and_then p q) \<longleftrightarrow> of_customer c p \<and> of_customer c q"
  by (auto simp: of_customer_def)

lemma of_customer_nothing [simp]: "of_customer c nothing"
  by (simp add: of_customer_def)

lemma parse_credential_parts:
  "snd (parse_credential CE v p w) \<noteq> Some []" "pa_sources (fst (parse_credential CE v p w)) = []"
  "pa_folders (fst (parse_credential CE v p w)) = []" "pa_customers (fst (parse_credential CE v p w)) = []"
proof -
  have "resolve_values CE w m = Inl q \<Longrightarrow> pa_sources q = [] \<and> pa_folders q = [] \<and> pa_customers q = []" for m q
    by (induction CE w m rule: resolve_values.induct) (auto split: yaml.splits option.splits simp: bindE_Inl_iff someE_Inl_iff requireE_Inl_iff)
  then show "snd (parse_credential CE v p w) \<noteq> Some []" "pa_sources (fst (parse_credential CE v p w)) = []"
    "pa_folders (fst (parse_credential CE v p w)) = []" "pa_customers (fst (parse_credential CE v p w)) = []"
    by (auto simp: parse_credential_def has_value_def split: yaml.split sum.split)
qed

definition bare :: "parsed \<Rightarrow> bool" where
  "bare p \<longleftrightarrow> pa_customers p = [] \<and> pa_folders p = [] \<and> pa_sources p = []"

lemma bare_simps [simp]:
  "bare nothing" "bare (problem_at w m)" "bare (and_then p q) \<longleftrightarrow> bare p \<and> bare q" "bare (unknown_keys ks km w)"
  "bare (fst (parse_credential CE v pr w))"
  by (auto simp: bare_def parse_credential_parts)

definition bare_error :: "parsed + 'a \<Rightarrow> bool" where
  "bare_error r = (case r of Inl p \<Rightarrow> bare p | Inr _ \<Rightarrow> True)"

lemma bare_error_simps [simp]:
  "bare_error (Inr x)" "bare_error (Inl (problem_at w m))" "bare_error (requireE b (problem_at w m))"
  "bare_error (someE (problem_at w m) v)" "bare_error (map_error (\<lambda>e. problem_at w (g e)) r)"
  by (simp_all add: bare_error_def requireE_def someE_def map_error_def split: option.split sum.split)

lemma bare_bind [intro!]: "bare_error r \<Longrightarrow> (\<And>x. bare_error (f x)) \<Longrightarrow> bare_error (bindE r f)"
  by (cases r) (auto simp: bare_error_def)

lemma bare_errorD: "bare_error r \<Longrightarrow> r = Inl p \<Longrightarrow> bare p"
  by (simp add: bare_error_def)

lemma parse_rule_bare: "bare_error (parse_rule CE item w)"
proof -
  have "bare_error (rule_parts CE item w)"
    by (auto simp: rule_parts_def Let_def split: yaml.split prod.split)
  then show ?thesis by (auto simp: parse_rule_def Let_def split: sum.split prod.split)
qed

lemma parse_rules_bare [simp]: "bare (fst (parse_rules CE v w))"
proof -
  have "bare (fst (parse_rule_items CE items w i))" for items i
    using bare_errorD [OF parse_rule_bare]
    by (induction CE items w i rule: parse_rule_items.induct) (auto simp: case_prod_beta Let_def split: sum.split)
  then show ?thesis by (auto simp: parse_rules_def case_prod_beta Let_def split: yaml.split)
qed

lemma parts_bare:
  "bare_error (parse_paths CE pr m w)" "bare_error (parse_tls CE pr port m w)" "bare_error (parse_flag m w f b)"
  "bare_error (parse_port m w)"
proof -
  show "bare_error (parse_paths CE pr m w)"
    by (auto simp: parse_paths_def Let_def split: yaml.split option.split list.split)
  show "bare_error (parse_tls CE pr port m w)"
    by (auto simp: parse_tls_def Let_def split: yaml.split)
  show "bare_error (parse_flag m w f b)" "bare_error (parse_port m w)"
    by (auto simp: parse_flag_def parse_port_def split: yaml.split)
qed

lemma source_spec_parts:
  "bare_error (source_spec_of CE m customer path w)"
  "source_spec_of CE m customer path w = Inr (p, spec) \<Longrightarrow> bare p \<and> sp_customer spec = customer \<and> sp_credential spec \<noteq> Some []"
proof -
  show "bare_error (source_spec_of CE m customer path w)"
    using parts_bare by (auto simp: source_spec_of_def Let_def split: prod.split yaml.split)
  show "source_spec_of CE m customer path w = Inr (p, spec) \<Longrightarrow> bare p \<and> sp_customer spec = customer \<and> sp_credential spec \<noteq> Some []"
    using parse_credential_parts(1) by (auto simp: source_spec_of_def bindE_Inr_iff Let_def case_prod_beta)
qed

lemma parse_source_parts [simp]: "of_customer customer (parse_source CE node customer path w)" "pa_folders (parse_source CE node customer path w) = []"
  using source_spec_parts [of CE _ customer path w] bare_errorD [OF source_spec_parts(1)]
  by (auto simp: parse_source_def of_customer_def bare_def split: yaml.split sum.split)

lemma parse_sources_parts [simp]:
  "of_customer customer (parse_sources CE nodes customer path w j)" "pa_folders (parse_sources CE nodes customer path w j) = []"
  by (induction CE nodes customer path w j rule: parse_sources.induct) simp_all

lemma small_of_customer [simp]:
  "of_customer c (fst (as_list v w))" "of_customer c (fst (container_name v w))" "of_customer c (problem_at w m)"
  "of_customer c (unknown_keys ks km w)"
  by (simp_all add: of_customer_def)

lemma folders_closed_append:
  "folders_closed cs seen (xs @ ys) \<longleftrightarrow> folders_closed cs seen xs \<and> folders_closed cs (rev xs @ seen) ys"
  by (induction cs seen xs rule: folders_closed.induct) auto

lemma folders_closed_mono: "folders_closed cs seen xs \<Longrightarrow> set seen \<subseteq> set seen' \<Longrightarrow> set cs \<subseteq> set cs' \<Longrightarrow> folders_closed cs' seen' xs"
proof (induction cs seen xs arbitrary: seen' rule: folders_closed.induct)
  case (2 cs seen c path places)
  have "set ((c, path) # seen) \<subseteq> set ((c, path) # seen')" using 2(3) by auto
  with 2 show ?case by auto
qed simp

lemma walk_parts:
  "customer \<in> set cs \<Longrightarrow> path = [] \<or> (customer, path) \<in> set known \<Longrightarrow>
     folders_closed cs known (pa_folders (walk CE node customer path place)) \<and> of_customer (Some customer) (walk CE node customer path place)"
  "customer \<in> set cs \<Longrightarrow> path = [] \<or> (customer, path) \<in> set known \<Longrightarrow>
     folders_closed cs known (pa_folders (walk_folders CE fs customer path place k seen)) \<and>
     of_customer (Some customer) (walk_folders CE fs customer path place k seen)"
proof (induction CE node customer path place and CE fs customer path place k seen arbitrary: known and known
    rule: walk_walk_folders.induct)
  case (1 CE node customer path place)
  then show ?case by (simp add: Let_def)
next
  case (2 CE customer path place k seen)
  then show ?case by simp
next
  case (3 CE f fs customer path place k seen)
  let ?here = "place @ ''['' @ show_nat k @ '']''"
  show ?case
  proof (cases "snd (container_name f ?here)")
    case None
    with 3(1) [OF refl None 3(5,6)] show ?thesis by (simp add: Let_def)
  next
    case (Some name)
    show ?thesis
    proof (cases "name \<in> set seen")
      case True
      with Some 3(2) [OF refl Some True 3(5,6)] show ?thesis by (simp add: Let_def)
    next
      case False
      let ?known = "(customer, path @ [name]) # known"
      have "folders_closed cs ?known (pa_folders (walk CE f customer (path @ [name]) ?here)) \<and>
          of_customer (Some customer) (walk CE f customer (path @ [name]) ?here)"
        using 3(3) [OF refl Some False 3(5), of ?known] by simp
      moreover have "folders_closed cs (rev (pa_folders (walk CE f customer (path @ [name]) ?here)) @ ?known)
            (pa_folders (walk_folders CE fs customer path place (k + 1) (name # seen))) \<and>
          of_customer (Some customer) (walk_folders CE fs customer path place (k + 1) (name # seen))"
        using 3(4) [OF refl Some False 3(5), of "rev (pa_folders (walk CE f customer (path @ [name]) ?here)) @ ?known"] 3(6) by auto
      moreover have "of_customer (Some customer) (nothing\<lparr>pa_folders := [(customer, path @ [name])]\<rparr>)"
        by (simp add: of_customer_def nothing_def)
      ultimately show ?thesis using 3(5,6) Some False
        by (auto simp: Let_def folders_closed_append)
    qed
  qed
qed

definition belongs :: "string list \<Rightarrow> source_spec \<Rightarrow> bool" where
  "belongs cs spec \<longleftrightarrow> sp_credential spec \<noteq> Some [] \<and> (\<forall>c. sp_customer spec = Some c \<longrightarrow> c \<in> set cs \<and> c \<noteq> '''')"

lemma container_name_not_empty: "snd (container_name v w) = Some n \<Longrightarrow> n \<noteq> ''''"
  by (auto simp: container_name_def given_name_def split: yaml.splits option.splits if_splits)

declare walk.simps [simp del]

lemma parse_customers_parts:
  "folders_closed (pa_customers (parse_customers CE nodes i seen)) known (pa_folders (parse_customers CE nodes i seen)) \<and>
   (\<forall>spec \<in> set (pa_sources (parse_customers CE nodes i seen)). belongs (pa_customers (parse_customers CE nodes i seen)) spec)"
proof (induction CE nodes i seen arbitrary: known rule: parse_customers.induct)
  case (2 CE node nodes i seen)
  let ?here = "''customers['' @ show_nat i @ '']''"
  show ?case
  proof (cases "snd (container_name node ?here)")
    case None
    with 2(1) [OF refl None] show ?thesis by (simp add: Let_def)
  next
    case (Some name)
    show ?thesis
    proof (cases "name \<in> set seen")
      case True
      with Some 2(2) [OF refl Some True] show ?thesis by (simp add: Let_def)
    next
      case False
      let ?w = "walk CE node name [] ?here" and ?p = "parse_customers CE nodes (i + 1) (name # seen)"
      have w: "folders_closed [name] known (pa_folders ?w)" "of_customer (Some name) ?w"
        using walk_parts(1) [of name "[name]" "[]" known] by simp_all
      have p: "folders_closed (pa_customers ?p) (rev (pa_folders ?w) @ known) (pa_folders ?p)" "\<forall>spec \<in> set (pa_sources ?p). belongs (pa_customers ?p) spec"
        using 2(3) [OF refl Some False] by auto
      have "folders_closed (name # pa_customers ?p) known (pa_folders ?w)"
        "folders_closed (name # pa_customers ?p) (rev (pa_folders ?w) @ known) (pa_folders ?p)"
        using folders_closed_mono [OF w(1), of known "name # pa_customers ?p"]
          folders_closed_mono [OF p(1), of "rev (pa_folders ?w) @ known" "name # pa_customers ?p"] by auto
      moreover have "pa_customers ?w = []" "\<forall>spec \<in> set (pa_sources ?w). belongs (name # pa_customers ?p) spec"
        using w(2) container_name_not_empty [OF Some] by (auto simp: of_customer_def belongs_def)
      moreover have "\<forall>spec \<in> set (pa_sources ?p). belongs (name # pa_customers ?p) spec"
        using p(2) by (auto simp: belongs_def)
      ultimately show ?thesis using Some False by (auto simp: Let_def folders_closed_append nothing_def)
    qed
  qed
qed simp

lemma same_keys_bare: "bare (same_keys keys specs)"
  by (induction keys specs rule: same_keys.induct) (auto split: option.split)

lemma parse_well_parsed: "well_parsed (parse CE body)"
proof -
  have "well_parsed (parse_doc CE doc)" for doc
  proof -
    let ?p = "parse_customers CE (snd (as_list (yget doc ''customers'') ''customers'')) 0 []"
      and ?s = "parse_sources CE (snd (as_list (yget doc ''sources'') ''sources'')) None [] ''sources'' 0"
    have "bare (same_keys [] specs)" for specs by (rule same_keys_bare)
    then have parts: "pa_customers (parse_doc CE doc) = pa_customers ?p" "pa_folders (parse_doc CE doc) = pa_folders ?p"
      "pa_sources (parse_doc CE doc) = pa_sources ?p @ pa_sources ?s"
      using parse_sources_parts(1) [of None CE] by (simp_all add: parse_doc_def Let_def bare_def of_customer_def)
    have "\<forall>spec \<in> set (pa_sources ?s). belongs (pa_customers ?p) spec"
      using parse_sources_parts(1) [of None CE] by (auto simp: of_customer_def belongs_def)
    with parse_customers_parts [of CE _ 0 "[]" "[]"] show ?thesis unfolding well_parsed_def parts by (auto simp: belongs_def)
  qed
  moreover have "well_parsed (problem_at w m)" for w m by (simp add: well_parsed_def)
  ultimately show ?thesis by (simp add: parse_def split: sum.split yaml.split)
qed

end
