(* ===== verification/ConfigImport.thy ===== *)
theory ConfigImport
  imports ConfigParse
begin

text \<open>
  The applying half of \<open>app/config_transfer.py\<close> and the import of \<open>app/api/config_transfer.py\<close>: what a file
  changes, as a plan or applied. The texts of the plan's changes are left as values.
\<close>

section \<open>The plan\<close>

datatype plan_action = PlanCreate | PlanUpdate | PlanUnchanged

datatype plan_kind = CustomerItem | FolderItem | SourceItem

datatype plan_change =
    NewAddress protocol string "int option"
  | NewRules nat
  | NoRules
  | AgentTokenNext
  | FieldChanged string json json
  | CertificateReplaced
  | CertificateRemoved
  | MovedFolder
  | RulesReplaced nat nat
  | CredentialReplaced
  | CredentialSet

record plan_item =
  pi_action :: plan_action
  pi_kind :: plan_kind
  pi_key :: string
  pi_changes :: "plan_change list"
  pi_needs_credential :: bool
  pi_protocol :: "string option"

definition plain_item :: "plan_action \<Rightarrow> plan_kind \<Rightarrow> string \<Rightarrow> plan_item" where
  "plain_item action kind key =
     \<lparr>pi_action = action, pi_kind = kind, pi_key = key, pi_changes = [], pi_needs_credential = False, pi_protocol = None\<rparr>"

definition via_import :: "string \<times> json" where
  "via_import = (''via'', JStr ''import'')"

section \<open>Customers and folders\<close>

type_synonym customer_ids = "(string \<times> int option) list"
type_synonym folder_ids = "((string \<times> string list) \<times> int option) list"

definition id_of :: "('k \<times> int option) list \<Rightarrow> 'k \<Rightarrow> int option" where
  "id_of ids k = (case map_of ids k of None \<Rightarrow> None | Some i \<Rightarrow> i)"

definition import_customer :: "config_env \<Rightarrow> bool \<Rightarrow> int option \<Rightarrow> string \<Rightarrow> db \<Rightarrow> int option \<times> plan_item \<times> db" where
  "import_customer CE applied user_id name d =
     (case find (\<lambda>c. c_name c = name) (customers d) of
        Some c \<Rightarrow> (Some (c_id c), plain_item PlanUnchanged CustomerItem name, d)
      | None \<Rightarrow>
          if \<not> applied then (None, plain_item PlanCreate CustomerItem name, d)
          else
            (let c = \<lparr>c_id = customer_seq d + 1, c_name = name\<rparr>;
                 d1 = d\<lparr>customers := customers d @ [c], customer_seq := customer_seq d + 1\<rparr>
             in (Some (c_id c), plain_item PlanCreate CustomerItem name,
                 record_audit_event (se_env (ce_source CE)) d1 d1 user_id ''customer.create'' (Some ''customer'') (Some (c_id c))
                   (Some [(''name'', JStr name), via_import]))))"

fun import_customers ::
  "config_env \<Rightarrow> bool \<Rightarrow> int option \<Rightarrow> customer_ids \<Rightarrow> string list \<Rightarrow> db \<Rightarrow> customer_ids \<times> plan_item list \<times> db" where
  "import_customers CE applied user_id ids [] d = (ids, [], d)"
| "import_customers CE applied user_id ids (name # names) d =
     (let (i, item, d1) = import_customer CE applied user_id name d;
          (ids', items, d2) = import_customers CE applied user_id ((name, i) # ids) names d1
      in (ids', item # items, d2))"

definition import_folder ::
  "config_env \<Rightarrow> bool \<Rightarrow> int option \<Rightarrow> customer_ids \<Rightarrow> folder_ids \<Rightarrow> string \<times> string list \<Rightarrow> db \<Rightarrow> int option \<times> plan_item \<times> db" where
  "import_folder CE applied user_id cids fids place d =
     (let (customer, path) = place;
          parent_id = (if length path > 1 then id_of fids (customer, butlast path) else None);
          customer_id = id_of cids customer;
          existing = (if customer_id \<noteq> None \<and> (length path = 1 \<or> parent_id \<noteq> None)
                      then find (\<lambda>f. Some (f_customer_id f) = customer_id \<and> f_parent f = parent_id \<and> f_name f = last path) (folders d)
                      else None);
          key = join_str '' / '' (customer # path)
      in case existing of
           Some f \<Rightarrow> (Some (f_id f), plain_item PlanUnchanged FolderItem key, d)
         | None \<Rightarrow>
             if \<not> applied then (None, plain_item PlanCreate FolderItem key, d)
             else
               (let f = \<lparr>f_id = folder_seq d + 1, f_name = last path,
                         f_customer_id = (case customer_id of Some i \<Rightarrow> i | None \<Rightarrow> 0), f_parent = parent_id\<rparr>;
                    d1 = d\<lparr>folders := folders d @ [f], folder_seq := folder_seq d + 1\<rparr>
                in (Some (f_id f), plain_item PlanCreate FolderItem key,
                    record_audit_event (se_env (ce_source CE)) d1 d1 user_id ''folder.create'' (Some ''folder'') (Some (f_id f))
                      (Some [(''name'', JStr (f_name f)), via_import]))))"

fun import_folders ::
  "config_env \<Rightarrow> bool \<Rightarrow> int option \<Rightarrow> customer_ids \<Rightarrow> folder_ids \<Rightarrow> (string \<times> string list) list \<Rightarrow> db \<Rightarrow>
     folder_ids \<times> plan_item list \<times> db" where
  "import_folders CE applied user_id cids fids [] d = (fids, [], d)"
| "import_folders CE applied user_id cids fids (place # places) d =
     (let (i, item, d1) = import_folder CE applied user_id cids fids place d;
          (fids', items, d2) = import_folders CE applied user_id cids ((place, i) # fids) places d1
      in (fids', item # items, d2))"

section \<open>Sources\<close>

definition rule_of_spec :: "int \<Rightarrow> int \<Rightarrow> nat \<times> rule_spec \<Rightarrow> rule" where
  "rule_of_spec first_id source_id x =
     (case x of (n, r) \<Rightarrow>
        \<lparr>r_id = first_id + int n, r_source_id = source_id, r_order = int n, r_type = rs_type r, r_pattern = rs_pattern r,
         r_kind = rs_kind r, r_notes = rs_notes r\<rparr>)"

definition replace_rules :: "int \<Rightarrow> rule_spec list \<Rightarrow> db \<Rightarrow> db" where
  "replace_rules source_id specs d =
     (let kept = filter (\<lambda>r. r_source_id r \<noteq> source_id) (rules d)
      in d\<lparr>rules := kept @ map (rule_of_spec (tbl_max r_id kept + 1) source_id) (List.enumerate 0 specs)\<rparr>)"

text \<open>Empty notes count as none.\<close>

definition notes_or_none :: "string option \<Rightarrow> string option" where
  "notes_or_none n = (if n = Some '''' then None else n)"

definition rules_tuple :: "rule list \<Rightarrow> (rule_type \<times> string \<times> pattern_kind \<times> string option) list" where
  "rules_tuple rs = map (\<lambda>r. (r_type r, r_pattern r, r_kind r, notes_or_none (r_notes r))) rs"

definition specs_tuple :: "rule_spec list \<Rightarrow> (rule_type \<times> string \<times> pattern_kind \<times> string option) list" where
  "specs_tuple rs = map (\<lambda>r. (rs_type r, rs_pattern r, rs_kind r, notes_or_none (rs_notes r))) rs"

definition lacks_credential :: "source_spec \<Rightarrow> message option \<Rightarrow> bool" where
  "lacks_credential spec credential = (sp_protocol spec \<in> set credential_protocols \<and> credential = None)"

definition import_new_source ::
  "config_env \<Rightarrow> bool \<Rightarrow> int option \<Rightarrow> source_spec \<Rightarrow> int option \<Rightarrow> int option \<Rightarrow> message option \<Rightarrow> db \<Rightarrow> plan_item \<times> db" where
  "import_new_source CE applied user_id spec customer_id folder_id credential d =
     (let specs = (case sp_rules spec of None \<Rightarrow> [] | Some rs \<Rightarrow> rs);
          item = \<lparr>pi_action = PlanCreate, pi_kind = SourceItem, pi_key = sp_key spec,
                  pi_changes = [NewAddress (sp_protocol spec) (sp_host spec) (if sp_port spec = Some 0 then None else sp_port spec),
                    if specs = [] then NoRules else NewRules (length specs)] @ (if sp_protocol spec = Agent then [AgentTokenNext] else []),
                  pi_needs_credential = lacks_credential spec credential, pi_protocol = Some (protocol_value (sp_protocol spec))\<rparr>
      in if \<not> applied then (item, d)
         else
           (let s = \<lparr>s_id = source_seq d + 1, s_name = sp_name spec, s_customer_id = customer_id, s_folder_id = folder_id,
                     s_protocol = sp_protocol spec, s_host = sp_host spec, s_port = sp_port spec,
                     s_credential_ref = (case credential of None \<Rightarrow> None | Some c \<Rightarrow> if c = [] then None else Some (se_encrypt (ce_source CE) c)),
                     s_base_path = sp_base_path spec, s_roots = sp_roots spec, s_winrm_scheme = sp_winrm_scheme spec,
                     s_tls_ca_pem = sp_tls_ca_pem spec, s_enabled = sp_enabled spec, s_schedule_cron = None, s_is_system = False,
                     s_agent_token_hash = None, s_agent_last_seen_at = None, s_agent_os = None,
                     s_search_indexing_enabled = sp_search_indexing_enabled spec\<rparr>;
                d1 = replace_rules (s_id s) specs (d\<lparr>sources := sources d @ [s], source_seq := source_seq d + 1\<rparr>)
            in (item, record_audit_event (se_env (ce_source CE)) d1 d1 user_id ''source.create'' (Some ''source'') (Some (s_id s))
                  (Some [(''name'', JStr (s_name s)), (''protocol'', JStr (protocol_value (s_protocol s))), (''host'', JStr (s_host s)),
                         (''base_path'', JStr (s_base_path s)), via_import]))))"

text \<open>The columns the file decides, and those that differ between the row and the file.\<close>

definition imported_fields :: "source \<Rightarrow> (string \<times> json) list" where
  "imported_fields s =
     [(''folder_id'', opt_int (s_folder_id s)), (''host'', JStr (s_host s)), (''port'', opt_int (s_port s)),
      (''base_path'', JStr (s_base_path s)), (''roots'', case s_roots s of None \<Rightarrow> JNull | Some rs \<Rightarrow> JList (map root_json rs)),
      (''enabled'', JBool (s_enabled s)), (''search_indexing_enabled'', JBool (s_search_indexing_enabled s)),
      (''winrm_scheme'', opt_str (s_winrm_scheme s)), (''tls_ca_pem'', opt_str (s_tls_ca_pem s))]"

definition wanted_source :: "source_spec \<Rightarrow> int option \<Rightarrow> source \<Rightarrow> source" where
  "wanted_source spec folder_id s =
     s\<lparr>s_folder_id := folder_id, s_host := sp_host spec, s_port := sp_port spec, s_base_path := sp_base_path spec,
       s_roots := sp_roots spec, s_enabled := sp_enabled spec, s_search_indexing_enabled := sp_search_indexing_enabled spec,
       s_winrm_scheme := sp_winrm_scheme spec, s_tls_ca_pem := sp_tls_ca_pem spec\<rparr>"

definition field_changes :: "source \<Rightarrow> source \<Rightarrow> (string \<times> json \<times> json) list" where
  "field_changes s s1 =
     map (\<lambda>((k, old), (_, new)). (k, old, new))
       (filter (\<lambda>((_, old), (_, new)). old \<noteq> new) (zip (imported_fields s) (imported_fields s1)))"

definition change_labels ::
  "source_spec \<Rightarrow> source \<Rightarrow> (string \<times> json \<times> json) list \<Rightarrow> nat \<Rightarrow> bool \<Rightarrow> bool \<Rightarrow> plan_change list" where
  "change_labels spec s changes n_rules rules_change credential_change =
     (let changed = (\<lambda>k. k \<in> fst ` set changes) in
      map (\<lambda>(k, old, new). FieldChanged k old new) (filter (\<lambda>(k, _). k \<noteq> ''folder_id'' \<and> k \<noteq> ''tls_ca_pem'') changes) @
      (if changed ''tls_ca_pem'' then [if sp_tls_ca_pem spec = None then CertificateRemoved else CertificateReplaced] else []) @
      (if changed ''folder_id'' then [MovedFolder] else []) @
      (if rules_change then [RulesReplaced n_rules (case sp_rules spec of None \<Rightarrow> 0 | Some rs \<Rightarrow> length rs)] else []) @
      (if credential_change then [if s_credential_ref s = None then CredentialSet else CredentialReplaced] else []))"

definition audited_changes ::
  "source_spec \<Rightarrow> (string \<times> json \<times> json) list \<Rightarrow> bool \<Rightarrow> bool \<Rightarrow> (string \<times> json) list" where
  "audited_changes spec changes rules_change credential_change =
     map (\<lambda>(k, old, new).
       (k, if k = ''tls_ca_pem'' then JStr (if sp_tls_ca_pem spec = None then ''removed'' else ''replaced'')
           else JObj [(''from'', old), (''to'', new)])) changes @
     (if rules_change then [(''rules'', JStr ''replaced'')] else []) @
     (if credential_change then [(''credential'', JStr ''replaced'')] else [])"

definition new_credential :: "config_env \<Rightarrow> source \<Rightarrow> message option \<Rightarrow> bool" where
  "new_credential CE s credential =
     (case credential of
        None \<Rightarrow> False
      | Some c \<Rightarrow> (case s_credential_ref s of None \<Rightarrow> True | Some ref \<Rightarrow> set (ce_decrypt CE ref) \<noteq> set c))"

definition new_rules :: "source_spec \<Rightarrow> db \<Rightarrow> source \<Rightarrow> bool" where
  "new_rules spec d s =
     (case sp_rules spec of None \<Rightarrow> False | Some rs \<Rightarrow> rules_tuple (sort_key r_order (rules_for d (s_id s))) \<noteq> specs_tuple rs)"

definition updated_source :: "config_env \<Rightarrow> source_spec \<Rightarrow> int option \<Rightarrow> message option \<Rightarrow> source \<Rightarrow> source" where
  "updated_source CE spec folder_id credential s =
     (let s1 = wanted_source spec folder_id s in
      case credential of
        Some c \<Rightarrow> if new_credential CE s credential then s1\<lparr>s_credential_ref := Some (se_encrypt (ce_source CE) c)\<rparr> else s1
      | None \<Rightarrow> s1)"

definition with_rules :: "source_spec \<Rightarrow> source \<Rightarrow> db \<Rightarrow> db \<Rightarrow> db" where
  "with_rules spec s d d1 =
     (case sp_rules spec of Some rs \<Rightarrow> if new_rules spec d s then replace_rules (s_id s) rs d1 else d1 | None \<Rightarrow> d1)"

definition write_source ::
  "config_env \<Rightarrow> int option \<Rightarrow> source_spec \<Rightarrow> int option \<Rightarrow> message option \<Rightarrow> source \<Rightarrow> db \<Rightarrow> db" where
  "write_source CE user_id spec folder_id credential s d =
     (let changes = field_changes s (wanted_source spec folder_id s);
          s2 = updated_source CE spec folder_id credential s;
          d2 = with_rules spec s d (d\<lparr>sources := tbl_put s_id s2 (sources d)\<rparr>);
          moved = list_ex (\<lambda>(k, _). k \<in> {''host'', ''port'', ''base_path'', ''roots''}) changes;
          d3 = (if moved \<or> \<not> (s_enabled s2 \<and> s_search_indexing_enabled s2) then delete_source_index (s_id s) d2 else d2)
      in record_audit_event (se_env (ce_source CE)) d3 d3 user_id ''source.update'' (Some ''source'') (Some (s_id s))
           (Some [(''changes'', JObj (audited_changes spec changes (new_rules spec d s) (new_credential CE s credential))), via_import]))"

definition import_existing_source ::
  "config_env \<Rightarrow> bool \<Rightarrow> int option \<Rightarrow> source_spec \<Rightarrow> int option \<Rightarrow> message option \<Rightarrow> source \<Rightarrow> db \<Rightarrow> problem + (plan_item \<times> db)" where
  "import_existing_source CE applied user_id spec folder_id credential s d =
     bindE (requireE (s_protocol s = sp_protocol spec)
              \<lparr>pr_where = sp_where spec, pr_message = ''the protocol of a source can't be changed''\<rparr>) (\<lambda>_.
     bindE (requireE (\<not> ((sp_host spec, sp_port spec) \<noteq> (s_host s, s_port s) \<and> s_credential_ref s \<noteq> None \<and> credential = None))
              \<lparr>pr_where = sp_where spec @ (if sp_host spec \<noteq> s_host s then ''.host'' else ''.port''),
               pr_message = ''Enter the credential again to use a different host or port''\<rparr>) (\<lambda>_.
     let s1 = wanted_source spec folder_id s;
         changes = field_changes s s1;
         rules_change = new_rules spec d s;
         credential_change = new_credential CE s credential;
         labels = change_labels spec s changes (length (rules_for d (s_id s))) rules_change credential_change;
         item = \<lparr>pi_action = (if labels = [] then PlanUnchanged else PlanUpdate), pi_kind = SourceItem, pi_key = sp_key spec,
                 pi_changes = labels, pi_needs_credential = lacks_credential spec credential \<and> s_credential_ref s = None,
                 pi_protocol = Some (protocol_value (sp_protocol spec))\<rparr>
     in if labels = [] \<or> \<not> applied then Inr (item, d)
        else Inr (item, write_source CE user_id spec folder_id credential s d)))"

definition typed_credential :: "(string \<times> message) list \<Rightarrow> source_spec \<Rightarrow> message option" where
  "typed_credential credentials spec =
     (case map_of credentials (sp_key spec) of Some c \<Rightarrow> if c = [] then sp_credential spec else Some c | None \<Rightarrow> sp_credential spec)"

definition spec_customer :: "customer_ids \<Rightarrow> source_spec \<Rightarrow> int option" where
  "spec_customer cids spec = (case sp_customer spec of None \<Rightarrow> None | Some c \<Rightarrow> if c = '''' then None else id_of cids c)"

definition spec_folder :: "folder_ids \<Rightarrow> source_spec \<Rightarrow> int option" where
  "spec_folder fids spec =
     (case sp_customer spec of None \<Rightarrow> None | Some c \<Rightarrow> if sp_folders spec = [] then None else id_of fids (c, sp_folders spec))"

text \<open>The sources of a customer, or of none, that have the name.\<close>

definition named_sources :: "int option \<Rightarrow> string \<Rightarrow> db \<Rightarrow> source list" where
  "named_sources customer_id name d =
     filter (\<lambda>s. s_customer_id s = customer_id \<and> s_name s = name \<and> \<not> s_is_system s) (sources d)"

definition import_source ::
  "config_env \<Rightarrow> bool \<Rightarrow> int option \<Rightarrow> int \<Rightarrow> customer_ids \<Rightarrow> folder_ids \<Rightarrow> (string \<times> message) list \<Rightarrow> source_spec \<Rightarrow> db \<Rightarrow>
     problem + (plan_item \<times> db)" where
  "import_source CE applied user_id limit cids fids credentials spec d =
     (let customer_id = spec_customer cids spec;
          folder_id = spec_folder fids spec;
          existing = (if sp_customer spec \<noteq> None \<and> customer_id = None then [] else named_sources customer_id (sp_name spec) d);
          allowed = max limit (case existing of [] \<Rightarrow> 0 | s # _ \<Rightarrow> int (length (roots_of s)));
          credential = typed_credential credentials spec
      in bindE (requireE (length existing \<le> 1)
                  \<lparr>pr_where = sp_where spec, pr_message = show_nat (length existing) @ '' sources are already named '' @ sp_name spec @ '' here''\<rparr>) (\<lambda>_.
         bindE (requireE (\<not> (case sp_roots spec of None \<Rightarrow> False | Some rs \<Rightarrow> int (length rs) > allowed))
                  \<lparr>pr_where = sp_where spec @ ''.roots'', pr_message = roots_limit_message allowed\<rparr>) (\<lambda>_.
         case existing of
           s # _ \<Rightarrow> import_existing_source CE applied user_id spec folder_id credential s d
         | [] \<Rightarrow> Inr (import_new_source CE applied user_id spec customer_id folder_id credential d))))"

fun import_sources ::
  "config_env \<Rightarrow> bool \<Rightarrow> int option \<Rightarrow> int \<Rightarrow> customer_ids \<Rightarrow> folder_ids \<Rightarrow> (string \<times> message) list \<Rightarrow> source_spec list \<Rightarrow> db \<Rightarrow>
     plan_item list \<times> problem list \<times> db" where
  "import_sources CE applied user_id limit cids fids credentials [] d = ([], [], d)"
| "import_sources CE applied user_id limit cids fids credentials (spec # specs) d =
     (case import_source CE applied user_id limit cids fids credentials spec d of
        Inl p \<Rightarrow>
          (let (items, problems, d2) = import_sources CE applied user_id limit cids fids credentials specs d in (items, p # problems, d2))
      | Inr (item, d1) \<Rightarrow>
          (let (items, problems, d2) = import_sources CE applied user_id limit cids fids credentials specs d1 in (item # items, problems, d2)))"

section \<open>The import\<close>

definition run_import ::
  "config_env \<Rightarrow> parsed \<Rightarrow> (string \<times> message) list \<Rightarrow> bool \<Rightarrow> int option \<Rightarrow> db \<Rightarrow> setting_error + (plan_item list \<times> problem list \<times> db)" where
  "run_import CE parsed credentials applied user_id d =
     (if pa_problems parsed \<noteq> [] then Inr ([], pa_problems parsed, d)
      else
        bindE (max_roots d) (\<lambda>limit.
        let (cids, citems, d1) = import_customers CE applied user_id [] (pa_customers parsed) d;
            (fids, fitems, d2) = import_folders CE applied user_id cids [] (pa_folders parsed) d1;
            (sitems, problems, d3) = import_sources CE applied user_id limit cids fids credentials (pa_sources parsed) d2
        in Inr (citems @ fitems @ sitems, problems, d3)))"

definition kept_credentials :: "(string \<times> (string \<times> string) list) list \<Rightarrow> (string \<times> message) list" where
  "kept_credentials typed =
     filter (\<lambda>(k, c). has_value c ''username'')
       (map (\<lambda>(k, c). (k, map (\<lambda>(f, v). (f, JStr v)) (filter (\<lambda>(f, v). v \<noteq> '''') c))) typed)"

definition count_items :: "plan_action \<Rightarrow> plan_item list \<Rightarrow> json" where
  "count_items action items = JInt (int (length (filter (\<lambda>i. pi_action i = action) items)))"

record import_result =
  ir_applied :: bool
  ir_items :: "plan_item list"
  ir_problems :: "problem list"

definition import_config ::
  "config_env \<Rightarrow> user \<Rightarrow> string \<Rightarrow> bool \<Rightarrow> (string \<times> (string \<times> string) list) list \<Rightarrow> db \<Rightarrow> source_failure + (import_result \<times> db)" where
  "import_config CE u body dry_run typed d =
     bindE (map_error Refused (require_super_admin_user d u)) (\<lambda>_.
     bindE (requireE (length body \<le> max_bytes) (Refused (HTTPException 422 ''yaml is too long''))) (\<lambda>_.
     bindE (requireE (list_all (\<lambda>(k, c). set (map fst c) \<subseteq> set credential_keys) typed)
              (bad_request ''Credential takes username plus password or private_key'')) (\<lambda>_.
     let parsed = parse CE body in
     bindE (map_error SettingFailed (run_import CE parsed (kept_credentials typed) (\<not> dry_run) (Some (u_id u)) d)) (\<lambda>(items, problems, d1).
     Inr (\<lparr>ir_applied = (\<not> dry_run \<and> problems = []), ir_items = items, ir_problems = problems\<rparr>,
          if dry_run \<or> problems \<noteq> [] then d
          else record_audit_event (se_env (ce_source CE)) d1 d1 (Some (u_id u)) ''config.import'' None None
                 (Some [(''sources'', JInt (int (length (pa_sources parsed)))), (''create'', count_items PlanCreate items),
                        (''update'', count_items PlanUpdate items), (''unchanged'', count_items PlanUnchanged items)]))))))"

section \<open>Customers and folders found again\<close>

lemma find_prefix: "prefix xs ys \<Longrightarrow> find P xs = Some x \<Longrightarrow> find P ys = Some x"
  by (auto simp: prefix_def find_append)

lemma find_snoc_new: "find P xs = None \<Longrightarrow> P x \<Longrightarrow> find P (xs @ [x]) = Some x"
  by (simp add: find_append)

definition rest_same :: "db \<Rightarrow> db \<Rightarrow> bool" where
  "rest_same d d1 \<longleftrightarrow> sources d1 = sources d \<and> source_seq d1 = source_seq d \<and> rules d1 = rules d \<and> settings d1 = settings d \<and> roles d1 = roles d"

lemma import_customer_applied:
  assumes "import_customer CE True u name d = (i, item, d1)"
  obtains c where "find (\<lambda>c. c_name c = name) (customers d1) = Some c" "i = Some (c_id c)" "prefix (customers d) (customers d1)"
    "rest_same d d1" "folders d1 = folders d" "folder_seq d1 = folder_seq d"
    "customers d1 = customers d \<and> customer_seq d1 = customer_seq d \<or>
     customers d1 = customers d @ [c] \<and> c_id c = customer_seq d + 1 \<and> customer_seq d1 = c_id c"
proof (cases "find (\<lambda>c. c_name c = name) (customers d)")
  case None
  let ?c = "\<lparr>c_id = customer_seq d + 1, c_name = name\<rparr>"
  from None assms show ?thesis by (intro that [of ?c]) (auto simp: import_customer_def Let_def rest_same_def find_append)
next
  case (Some c)
  with assms that show ?thesis by (auto simp: import_customer_def rest_same_def)
qed

lemma import_customer_again:
  assumes "find (\<lambda>c. c_name c = name) (customers d) = Some c"
  shows "import_customer CE applied u name d = (Some (c_id c), plain_item PlanUnchanged CustomerItem name, d)"
  using assms by (simp add: import_customer_def)

definition customers_ok :: "db \<Rightarrow> bool" where
  "customers_ok d \<longleftrightarrow> distinct (map c_id (customers d)) \<and> (\<forall>c \<in> set (customers d). c_id c \<le> customer_seq d)"

lemma customers_ok_append:
  assumes "customers_ok d"
    and "customers d1 = customers d \<and> customer_seq d1 = customer_seq d \<or>
     customers d1 = customers d @ [c] \<and> c_id c = customer_seq d + 1 \<and> customer_seq d1 = c_id c"
  shows "customers_ok d1"
  using assms by (force simp: customers_ok_def)

definition names_customers :: "customer_ids \<Rightarrow> db \<Rightarrow> bool" where
  "names_customers ids d \<longleftrightarrow> (\<forall>n i. id_of ids n = Some i \<longrightarrow> (\<exists>c \<in> set (customers d). c_name c = n \<and> c_id c = i))"

lemma id_of_Cons: "id_of ((k, i) # ids) n = (if n = k then i else id_of ids n)"
  by (simp add: id_of_def)

lemma rest_same_trans: "rest_same d d1 \<Longrightarrow> rest_same d1 d2 \<Longrightarrow> rest_same d d2"
  by (simp add: rest_same_def)

lemma import_customers_again:
  assumes "import_customers CE True u ids names d = (ids', items, d1)"
  shows "prefix (customers d) (customers d1) \<and> rest_same d d1 \<and> folders d1 = folders d \<and> folder_seq d1 = folder_seq d \<and>
    (customers_ok d \<longrightarrow> customers_ok d1) \<and> (names_customers ids d \<longrightarrow> names_customers ids' d1) \<and>
    (\<forall>n. n \<in> set names \<or> id_of ids n \<noteq> None \<longrightarrow> id_of ids' n \<noteq> None) \<and>
    (\<forall>d' applied u'. prefix (customers d1) (customers d') \<longrightarrow>
       import_customers CE applied u' ids names d' = (ids', map (plain_item PlanUnchanged CustomerItem) names, d'))"
  using assms
proof (induction names arbitrary: ids d ids' items)
  case Nil
  then show ?case by (simp add: rest_same_def)
next
  case (Cons name names)
  obtain i item d0 where step: "import_customer CE True u name d = (i, item, d0)" by (cases "import_customer CE True u name d")
  obtain items0 where others: "import_customers CE True u ((name, i) # ids) names d0 = (ids', items0, d1)"
    using Cons.prems step by (auto split: prod.splits)
  note IH = Cons.IH [OF others]
  from step obtain c where c: "find (\<lambda>c. c_name c = name) (customers d0) = Some c" "i = Some (c_id c)" "prefix (customers d) (customers d0)"
    "rest_same d d0" "folders d0 = folders d" "folder_seq d0 = folder_seq d"
    "customers d0 = customers d \<and> customer_seq d0 = customer_seq d \<or>
     customers d0 = customers d @ [c] \<and> c_id c = customer_seq d + 1 \<and> customer_seq d0 = c_id c" by (rule import_customer_applied)
  have ok: "customers_ok d \<longrightarrow> customers_ok d0" using customers_ok_append [OF _ c(7)] by blast
  have cin: "c \<in> set (customers d0)" "c_name c = name" using c(1) by (auto simp: find_Some_iff)
  have named: "names_customers ids d \<longrightarrow> names_customers ((name, i) # ids) d0"
    using cin c(2) set_mono_prefix [OF c(3)] unfolding names_customers_def id_of_Cons
    by (metis option.inject subsetD)
  have again: "import_customers CE applied u' ids (name # names) d' =
      (ids', map (plain_item PlanUnchanged CustomerItem) (name # names), d')" if "prefix (customers d1) (customers d')" for d' applied u'
  proof -
    have "prefix (customers d0) (customers d')" using IH that by (blast intro: prefix_order.trans)
    from find_prefix [OF this c(1)] have "import_customer CE applied u' name d' = (i, plain_item PlanUnchanged CustomerItem name, d')"
      by (simp add: import_customer_again c(2))
    with IH that show ?thesis by simp
  qed
  from IH have known: "\<forall>n. n \<in> set names \<or> id_of ((name, i) # ids) n \<noteq> None \<longrightarrow> id_of ids' n \<noteq> None" by blast
  have "n \<in> set (name # names) \<or> id_of ids n \<noteq> None \<Longrightarrow> id_of ids' n \<noteq> None" for n
    using known [rule_format, of n] c(2) unfolding id_of_Cons by (cases "n = name") simp_all
  moreover have "prefix (customers d) (customers d1)" using c(3) IH by (blast intro: prefix_order.trans)
  moreover have "rest_same d d1" using c(4) IH rest_same_trans by blast
  ultimately show ?case using IH ok named again c(5,6) by simp
qed

definition folders_ok :: "db \<Rightarrow> bool" where
  "folders_ok d \<longleftrightarrow> distinct (map f_id (folders d)) \<and> (\<forall>f \<in> set (folders d). f_id f \<le> folder_seq d)"

lemma import_folder_applied:
  assumes "import_folder CE True u cids fids (c, path) d = (i, item, d1)"
    and "id_of cids c \<noteq> None" "path \<noteq> []" "length path > 1 \<longrightarrow> id_of fids (c, butlast path) \<noteq> None"
  obtains f :: folder where "i = Some (f_id f)" "prefix (folders d) (folders d1)" "rest_same d d1" "customers d1 = customers d"
    "\<forall>d' applied u'. prefix (folders d1) (folders d') \<longrightarrow>
       import_folder CE applied u' cids fids (c, path) d' = (i, plain_item PlanUnchanged FolderItem (join_str '' / '' (c # path)), d')"
proof -
  let ?parent = "if length path > 1 then id_of fids (c, butlast path) else None"
  let ?P = "\<lambda>f. Some (f_customer_id f) = id_of cids c \<and> f_parent f = ?parent \<and> f_name f = last path"
  from assms(3) have one: "length path = 1 \<or> length path > 1" by (cases path) auto
  then have looked: "id_of cids c \<noteq> None \<and> (length path = 1 \<or> ?parent \<noteq> None)" using assms(2,4) by auto
  obtain f where f: "find ?P (folders d1) = Some f" "i = Some (f_id f)" "prefix (folders d) (folders d1)" "rest_same d d1"
    "customers d1 = customers d"
  proof (cases "find ?P (folders d)")
    case (Some f)
    with assms(1) looked that show ?thesis by (auto simp: import_folder_def Let_def rest_same_def)
  next
    case None
    let ?f = "\<lparr>f_id = folder_seq d + 1, f_name = last path, f_customer_id = (case id_of cids c of Some i \<Rightarrow> i | None \<Rightarrow> 0), f_parent = ?parent\<rparr>"
    have "?P ?f" using assms(2) by auto
    from find_snoc_new [OF None this] None assms(1) looked that [of ?f] show ?thesis
      by (auto simp: import_folder_def Let_def rest_same_def)
  qed
  have "import_folder CE applied u' cids fids (c, path) d' = (i, plain_item PlanUnchanged FolderItem (join_str '' / '' (c # path)), d')"
    if "prefix (folders d1) (folders d')" for d' applied u'
    using find_prefix [OF that f(1)] looked f(2) by (simp add: import_folder_def Let_def)
  then show ?thesis using f by (intro that [of f]) auto
qed

lemma import_folders_again:
  assumes "import_folders CE True u cids fids places d = (fids', items, d1)" "folders_closed cs seen places"
    and "\<forall>c \<in> set cs. id_of cids c \<noteq> None" "\<forall>p \<in> set seen. id_of fids p \<noteq> None"
  shows "prefix (folders d) (folders d1) \<and> rest_same d d1 \<and> customers d1 = customers d \<and>
    (\<forall>p. p \<in> set places \<or> id_of fids p \<noteq> None \<longrightarrow> id_of fids' p \<noteq> None) \<and>
    (\<forall>d' applied u'. prefix (folders d1) (folders d') \<longrightarrow>
       import_folders CE applied u' cids fids places d' =
         (fids', map (\<lambda>(c, path). plain_item PlanUnchanged FolderItem (join_str '' / '' (c # path))) places, d'))"
  using assms
proof (induction places arbitrary: fids d fids' items seen)
  case Nil
  then show ?case by (simp add: rest_same_def)
next
  case (Cons place places)
  obtain c path where place: "place = (c, path)" by (cases place)
  obtain i item d0 where step: "import_folder CE True u cids fids (c, path) d = (i, item, d0)"
    by (cases "import_folder CE True u cids fids (c, path) d")
  obtain items0 where others: "import_folders CE True u cids ((place, i) # fids) places d0 = (fids', items0, d1)"
    using Cons.prems(1) step place by (auto split: prod.splits)
  have here: "id_of cids c \<noteq> None" "path \<noteq> []" "length path > 1 \<longrightarrow> id_of fids (c, butlast path) \<noteq> None"
    and below: "folders_closed cs (place # seen) places"
    using Cons.prems(2,3,4) place by auto
  from step here obtain f :: folder where f: "i = Some (f_id f)" "prefix (folders d) (folders d0)" "rest_same d d0"
    "customers d0 = customers d" "\<forall>d' applied u'. prefix (folders d0) (folders d') \<longrightarrow>
       import_folder CE applied u' cids fids (c, path) d' = (i, plain_item PlanUnchanged FolderItem (join_str '' / '' (c # path)), d')"
    by (rule import_folder_applied)
  have seen: "\<forall>p \<in> set (place # seen). id_of ((place, i) # fids) p \<noteq> None"
    using Cons.prems(4) f(1) by (simp add: id_of_Cons)
  note IH = Cons.IH [OF others below Cons.prems(3) seen]
  have again: "import_folders CE applied u' cids fids (place # places) d' =
      (fids', map (\<lambda>(c, path). plain_item PlanUnchanged FolderItem (join_str '' / '' (c # path))) (place # places), d')"
    if "prefix (folders d1) (folders d')" for d' applied u'
  proof -
    have "prefix (folders d0) (folders d')" using IH that by (blast intro: prefix_order.trans)
    with f(5) IH that show ?thesis by (simp add: place)
  qed
  from IH have known: "\<forall>p. p \<in> set places \<or> id_of ((place, i) # fids) p \<noteq> None \<longrightarrow> id_of fids' p \<noteq> None" by blast
  have "p \<in> set (place # places) \<or> id_of fids p \<noteq> None \<Longrightarrow> id_of fids' p \<noteq> None" for p
    using known [rule_format, of p] f(1) unfolding id_of_Cons by (cases "p = place") simp_all
  moreover have "prefix (folders d) (folders d1)" using f(2) IH by (blast intro: prefix_order.trans)
  moreover have "rest_same d d1" using f(3) IH rest_same_trans by blast
  ultimately show ?case using IH again f(4) by simp
qed

section \<open>Sources found again\<close>

lemma imported_fields_eq:
  "imported_fields s = imported_fields s1 \<longleftrightarrow>
     s_folder_id s = s_folder_id s1 \<and> s_host s = s_host s1 \<and> s_port s = s_port s1 \<and> s_base_path s = s_base_path s1 \<and>
     s_roots s = s_roots s1 \<and> s_enabled s = s_enabled s1 \<and> s_search_indexing_enabled s = s_search_indexing_enabled s1 \<and>
     s_winrm_scheme s = s_winrm_scheme s1 \<and> s_tls_ca_pem s = s_tls_ca_pem s1"
proof -
  have "inj root_json"
    by (rule injI) (auto simp: root_json_def)
  then have "map root_json rs = map root_json rs' \<longleftrightarrow> rs = rs'" for rs rs' by (metis inj_map_eq_map)
  moreover have "opt_int i = opt_int j \<longleftrightarrow> i = j" for i j by (auto simp: opt_int_def split: option.splits)
  moreover have "opt_str i = opt_str j \<longleftrightarrow> i = j" for i j by (auto simp: opt_str_def split: option.splits)
  ultimately show ?thesis by (auto simp: imported_fields_def split: option.splits)
qed

lemma zip_no_diff:
  "map fst xs = map fst ys \<Longrightarrow> filter (\<lambda>((_, old), (_, new)). old \<noteq> new) (zip xs ys) = [] \<longleftrightarrow> xs = ys"
proof (induction xs arbitrary: ys)
  case (Cons x xs)
  then show ?case by (cases ys; cases x) auto
qed simp

lemma no_field_changes: "field_changes s (wanted_source spec i s) = [] \<longleftrightarrow> wanted_source spec i s = s"
proof -
  have "map fst (imported_fields s) = map fst (imported_fields (wanted_source spec i s))" by (simp add: imported_fields_def)
  from zip_no_diff [OF this] have "field_changes s (wanted_source spec i s) = [] \<longleftrightarrow> imported_fields s = imported_fields (wanted_source spec i s)"
    by (simp add: field_changes_def)
  also have "\<dots> \<longleftrightarrow> wanted_source spec i s = s"
    unfolding imported_fields_eq by (cases s) (auto simp: wanted_source_def)
  finally show ?thesis .
qed

lemma no_labels:
  "change_labels spec s changes n rc cc = [] \<longleftrightarrow> changes = [] \<and> \<not> rc \<and> \<not> cc"
proof -
  have "filter (\<lambda>(k, _). k \<noteq> ''folder_id'' \<and> k \<noteq> ''tls_ca_pem'') changes = [] \<Longrightarrow> ''tls_ca_pem'' \<notin> fst ` set changes \<Longrightarrow>
      ''folder_id'' \<notin> fst ` set changes \<Longrightarrow> changes = []"
    by (cases changes) (auto simp: filter_empty_conv)
  then show ?thesis by (auto simp: change_labels_def Let_def)
qed

text \<open>What the database says of a source the file names, when nothing is left to change.\<close>

definition settled :: "config_env \<Rightarrow> customer_ids \<Rightarrow> folder_ids \<Rightarrow> (string \<times> message) list \<Rightarrow> source_spec \<Rightarrow> db \<Rightarrow> bool" where
  "settled CE cids fids credentials spec d \<longleftrightarrow>
     (\<exists>s. named_sources (spec_customer cids spec) (sp_name spec) d = [s] \<and> wanted_source spec (spec_folder fids spec) s = s \<and>
        s_protocol s = sp_protocol spec \<and> \<not> new_rules spec d s \<and> \<not> new_credential CE s (typed_credential credentials spec))"

lemma settled_unchanged:
  assumes "settled CE cids fids credentials spec d" "1 \<le> limit" "sp_customer spec \<noteq> None \<longrightarrow> spec_customer cids spec \<noteq> None"
  shows "\<exists>item. import_source CE applied u limit cids fids credentials spec d = Inr (item, d) \<and> pi_action item = PlanUnchanged"
proof -
  from assms(1) obtain s where s: "named_sources (spec_customer cids spec) (sp_name spec) d = [s]"
    "wanted_source spec (spec_folder fids spec) s = s" "s_protocol s = sp_protocol spec" "\<not> new_rules spec d s"
    "\<not> new_credential CE s (typed_credential credentials spec)" by (auto simp: settled_def)
  from s(2) have same: "sp_host spec = s_host s" "sp_port spec = s_port s" "sp_roots spec = s_roots s"
    by (cases s; simp add: wanted_source_def)+
  have fits: "\<not> (case sp_roots spec of None \<Rightarrow> False | Some rs \<Rightarrow> max limit (int (length (roots_of s))) < int (length rs))"
    using assms(2) by (auto simp: same(3) roots_of_def split: option.split)
  have found: "(if sp_customer spec \<noteq> None \<and> spec_customer cids spec = None then []
      else named_sources (spec_customer cids spec) (sp_name spec) d) = [s]" using s(1) assms(3) by auto
  show ?thesis
    unfolding import_source_def Let_def found using fits s(4,5) no_field_changes [THEN iffD2, OF s(2)]
    by (simp add: import_existing_source_def Let_def requireE_def same s(3) no_labels cong: option.case_cong)
qed

text \<open>The rules of a source after its list was replaced.\<close>

lemma replace_rules_other: "j \<noteq> i \<Longrightarrow> rules_for (replace_rules i specs d) j = rules_for d j"
  by (auto simp: replace_rules_def rules_for_def Let_def filter_empty_conv rule_of_spec_def split: prod.splits
      intro!: filter_cong)

lemma replaced_tuple: "rules_tuple (sort_key r_order (rules_for (replace_rules i specs d) i)) = specs_tuple specs"
proof -
  let ?new = "map (rule_of_spec (tbl_max r_id (filter (\<lambda>r. r_source_id r \<noteq> i) (rules d)) + 1) i) (List.enumerate 0 specs)"
  have "list_all (\<lambda>r. r_source_id r = i) ?new" by (auto simp: list_all_iff rule_of_spec_def split: prod.splits)
  then have new: "rules_for (replace_rules i specs d) i = ?new"
    by (simp add: replace_rules_def rules_for_def Let_def filter_id_conv list_all_iff)
  have "map r_order ?new = map int [0..<length specs]"
  proof -
    have "map r_order ?new = map int (map fst (List.enumerate 0 specs))" unfolding map_map
      by (rule map_cong) (simp_all add: rule_of_spec_def case_prod_beta)
    then show ?thesis by (simp only: map_fst_enumerate) simp
  qed
  then have "sorted (map r_order ?new)" by (simp add: sorted_map sorted_wrt_upt)
  then have sorted: "sort_key r_order ?new = ?new" by (rule sort_key_id_if_sorted)
  have "rules_tuple ?new = specs_tuple (map snd (List.enumerate 0 specs))"
    unfolding rules_tuple_def specs_tuple_def map_map by (rule map_cong) (simp_all add: rule_of_spec_def case_prod_beta)
  then have "rules_tuple ?new = specs_tuple specs" by simp
  then show ?thesis unfolding new sorted .
qed

lemma replace_rules_fields [simp]:
  "sources (replace_rules i specs d) = sources d" "source_seq (replace_rules i specs d) = source_seq d"
  "customers (replace_rules i specs d) = customers d" "folders (replace_rules i specs d) = folders d"
  "settings (replace_rules i specs d) = settings d" "roles (replace_rules i specs d) = roles d"
  by (simp_all add: replace_rules_def Let_def)

lemma rules_for_cong: "rules d = rules d' \<Longrightarrow> rules_for d i = rules_for d' i"
  by (simp add: rules_for_def)

definition sources_keyed :: "db \<Rightarrow> bool" where
  "sources_keyed d \<longleftrightarrow> distinct (map s_id (sources d)) \<and> (\<forall>s \<in> set (sources d). s_id s \<le> source_seq d)"

text \<open>The sources another spec names, and their rules, are the same before and after.\<close>

definition others_same :: "int option \<Rightarrow> string \<Rightarrow> db \<Rightarrow> db \<Rightarrow> bool" where
  "others_same cid nm d d1 \<longleftrightarrow>
     (\<forall>cid' nm'. (cid', nm') \<noteq> (cid, nm) \<longrightarrow> named_sources cid' nm' d1 = named_sources cid' nm' d \<and>
        (\<forall>t \<in> set (named_sources cid' nm' d). rules_for d1 (s_id t) = rules_for d (s_id t)))"

lemma named_put:
  assumes "sources_keyed d" "s \<in> set (sources d)" "s_id s2 = s_id s" "s_name s2 = s_name s" "s_customer_id s2 = s_customer_id s"
    "s_is_system s2 = s_is_system s" "sources d1 = tbl_put s_id s2 (sources d)"
  shows "named_sources cid nm d1 = map (\<lambda>x. if s_id x = s_id s then s2 else x) (named_sources cid nm d)"
proof -
  have "x = s" if "x \<in> set (sources d)" "s_id x = s_id s" for x
    using assms(1) same_id [of s_id "sources d" x s] that assms(2) by (simp add: sources_keyed_def)
  then show ?thesis
    using assms(3-6) unfolding named_sources_def assms(7) tbl_put_def filter_map
    by (intro map_cong filter_cong) (auto simp: assms(3))
qed

lemma put_others:
  assumes "sources_keyed d" "named_sources cid nm d = [s]" "s_id s2 = s_id s" "s_name s2 = s_name s" "s_customer_id s2 = s_customer_id s"
    "s_is_system s2 = s_is_system s" "sources d1 = tbl_put s_id s2 (sources d)" "\<forall>j. j \<noteq> s_id s \<longrightarrow> rules_for d1 j = rules_for d j"
  shows "named_sources cid nm d1 = [s2]" "others_same cid nm d d1"
proof -
  from assms(2) have s: "s \<in> set (sources d)" "s_customer_id s = cid" "s_name s = nm"
    by (auto simp: named_sources_def filter_eq_Cons_iff)
  note named = named_put [OF assms(1) s(1) assms(3-7)]
  show "named_sources cid nm d1 = [s2]" using named [of cid nm] assms(2) by simp
  have "s_id t \<noteq> s_id s" if "t \<in> set (named_sources cid' nm' d)" "(cid', nm') \<noteq> (cid, nm)" for t cid' nm'
    using that assms(1) s same_id [of s_id "sources d" t s] by (auto simp: named_sources_def sources_keyed_def)
  then show "others_same cid nm d d1"
    using assms(8) unfolding others_same_def named by (auto intro!: map_idI)
qed

lemma put_keyed:
  assumes "sources_keyed d" "s_id s2 = s_id s" "s \<in> set (sources d)" "sources d1 = tbl_put s_id s2 (sources d)" "source_seq d1 = source_seq d"
  shows "sources_keyed d1"
  using assms by (auto simp: sources_keyed_def tbl_put_ids) (auto simp: tbl_put_def split: if_splits)

lemma delete_index_rest [simp]:
  "sources (delete_source_index i d) = sources d" "source_seq (delete_source_index i d) = source_seq d"
  "rules (delete_source_index i d) = rules d" "settings (delete_source_index i d) = settings d"
  "customers (delete_source_index i d) = customers d" "folders (delete_source_index i d) = folders d"
  "roles (delete_source_index i d) = roles d"
  by (simp_all add: delete_source_index_def delete_alert_file_states_def)

lemma audit_rest [simp]:
  "settings (record_audit_event E seen d u a tt ti m) = settings d"
  "rules_for (record_audit_event E seen d u a tt ti m) i = rules_for d i"
  "rules_for (delete_source_index j d) i = rules_for d i"
  by (simp_all add: record_audit_event_def rules_for_def delete_source_index_def delete_alert_file_states_def)

text \<open>One source: the file's values are in the database, and everything else is as it was.\<close>

definition kept_rest :: "db \<Rightarrow> db \<Rightarrow> bool" where
  "kept_rest d d1 \<longleftrightarrow> customers d1 = customers d \<and> folders d1 = folders d \<and> settings d1 = settings d \<and> roles d1 = roles d"

definition decrypts :: "config_env \<Rightarrow> bool" where
  "decrypts CE \<longleftrightarrow> (\<forall>c. set (ce_decrypt CE (se_encrypt (ce_source CE) c)) = set c)"

lemma wanted_again: "wanted_source spec i (wanted_source spec i s) = wanted_source spec i s"
  by (simp add: wanted_source_def)

lemma existing_applied:
  assumes "import_existing_source CE True u spec fid credential s d = Inr (item, d1)" "sources_keyed d" "decrypts CE"
    and "named_sources cid (sp_name spec) d = [s]"
  shows "kept_rest d d1 \<and> sources_keyed d1 \<and> others_same cid (sp_name spec) d d1 \<and>
    (\<exists>s2. named_sources cid (sp_name spec) d1 = [s2] \<and> wanted_source spec fid s2 = s2 \<and> s_protocol s2 = sp_protocol spec \<and>
       \<not> new_rules spec d1 s2 \<and> \<not> new_credential CE s2 credential)"
proof -
  have s: "s \<in> set (sources d)" using assms(4) by (auto simp: named_sources_def filter_eq_Cons_iff)
  from assms(1) have p: "s_protocol s = sp_protocol spec" by (auto simp: import_existing_source_def bindE_Inr_iff)
  let ?changes = "field_changes s (wanted_source spec fid s)"
  show ?thesis
  proof (cases "change_labels spec s ?changes (length (rules_for d (s_id s))) (new_rules spec d s) (new_credential CE s credential) = []")
    case True
    with assms(1) have "d1 = d" by (auto simp: import_existing_source_def bindE_Inr_iff Let_def)
    moreover from True have "wanted_source spec fid s = s" "\<not> new_rules spec d s" "\<not> new_credential CE s credential"
      unfolding no_labels by (simp_all add: no_field_changes)
    ultimately show ?thesis using assms(2,4) p by (auto simp: kept_rest_def others_same_def)
  next
    case False
    let ?s2 = "updated_source CE spec fid credential s"
    let ?d0 = "d\<lparr>sources := tbl_put s_id ?s2 (sources d)\<rparr>"
    let ?d2 = "with_rules spec s d ?d0"
    have ids: "s_id ?s2 = s_id s" "s_name ?s2 = s_name s" "s_customer_id ?s2 = s_customer_id s" "s_is_system ?s2 = s_is_system s"
      "s_protocol ?s2 = s_protocol s" and wanted: "wanted_source spec fid ?s2 = ?s2"
      by (simp_all add: updated_source_def wanted_source_def Let_def split: option.split)
    have d1: "d1 = write_source CE u spec fid credential s d"
      using assms(1) False by (auto simp: import_existing_source_def bindE_Inr_iff Let_def)
    have kept: "kept_rest d ?d2" "sources ?d2 = tbl_put s_id ?s2 (sources d)" "source_seq ?d2 = source_seq d"
      by (simp_all add: with_rules_def kept_rest_def split: option.split)
    have other: "rules_for ?d2 j = rules_for d j" if "j \<noteq> s_id s" for j
      using that by (simp add: with_rules_def replace_rules_other rules_for_cong [of ?d0 d] split: option.split)
    have rules: "\<not> new_rules spec ?d2 ?s2"
      by (auto simp: new_rules_def with_rules_def ids(1) replaced_tuple rules_for_cong [of ?d0 d] split: option.split)
    have "sources d1 = tbl_put s_id ?s2 (sources d)" "source_seq d1 = source_seq d" "kept_rest d d1"
      using kept by (simp_all add: d1 write_source_def Let_def kept_rest_def)
    moreover have same: "rules_for d1 j = rules_for ?d2 j" for j by (simp add: d1 write_source_def Let_def)
    then have "\<forall>j. j \<noteq> s_id s \<longrightarrow> rules_for d1 j = rules_for d j" using other by simp
    moreover have "\<not> new_rules spec d1 ?s2" using rules by (simp add: new_rules_def same cong: option.case_cong)
    moreover have "\<not> new_credential CE ?s2 credential"
      using assms(3) by (auto simp: updated_source_def Let_def new_credential_def decrypts_def wanted_source_def split: option.splits)
    ultimately show ?thesis
      using put_others [OF assms(2,4) ids(1-4)] put_keyed [OF assms(2) ids(1) s] wanted p ids(5) by metis
  qed
qed

lemma new_row:
  assumes "import_new_source CE True u spec cid fid credential d = (item, d1)"
  obtains s where "sources d1 = sources d @ [s]" "source_seq d1 = source_seq d + 1" "kept_rest d d1"
    "\<forall>j. rules_for d1 j = rules_for (replace_rules (s_id s) (case sp_rules spec of None \<Rightarrow> [] | Some rs \<Rightarrow> rs) d) j"
    "s_id s = source_seq d + 1" "s_name s = sp_name spec" "s_customer_id s = cid" "\<not> s_is_system s" "s_protocol s = sp_protocol spec"
    "wanted_source spec fid s = s"
    "s_credential_ref s = (case credential of None \<Rightarrow> None | Some c \<Rightarrow> if c = [] then None else Some (se_encrypt (ce_source CE) c))"
  using assms
  by (auto simp: import_new_source_def Let_def kept_rest_def wanted_source_def replace_rules_def rules_for_def)

lemma new_applied:
  assumes "import_new_source CE True u spec cid fid credential d = (item, d1)" "sources_keyed d" "decrypts CE"
    and "named_sources cid (sp_name spec) d = []" "credential \<noteq> Some []"
  shows "kept_rest d d1 \<and> sources_keyed d1 \<and> others_same cid (sp_name spec) d d1 \<and>
    (\<exists>s2. named_sources cid (sp_name spec) d1 = [s2] \<and> wanted_source spec fid s2 = s2 \<and> s_protocol s2 = sp_protocol spec \<and>
       \<not> new_rules spec d1 s2 \<and> \<not> new_credential CE s2 credential)"
proof -
  let ?specs = "case sp_rules spec of None \<Rightarrow> [] | Some rs \<Rightarrow> rs"
  from new_row [OF assms(1)] obtain s where s: "sources d1 = sources d @ [s]" "source_seq d1 = source_seq d + 1" "kept_rest d d1"
    "\<forall>j. rules_for d1 j = rules_for (replace_rules (s_id s) ?specs d) j"
    "s_id s = source_seq d + 1" "s_name s = sp_name spec" "s_customer_id s = cid" "\<not> s_is_system s" "s_protocol s = sp_protocol spec"
    "wanted_source spec fid s = s"
    "s_credential_ref s = (case credential of None \<Rightarrow> None | Some c \<Rightarrow> if c = [] then None else Some (se_encrypt (ce_source CE) c))" .
  have "\<not> new_rules spec d1 s"
    using s(4) replaced_tuple [of "s_id s" ?specs d] by (auto simp: new_rules_def split: option.split)
  moreover have "\<not> new_credential CE s credential"
    using assms(3,5) by (auto simp: new_credential_def s(11) decrypts_def split: option.split)
  moreover have "named_sources cid (sp_name spec) d1 = [s]" using assms(4) s(1,6-8) by (simp add: named_sources_def)
  moreover have "sources_keyed d1" using assms(2) s(1,2,5) by (force simp: sources_keyed_def)
  moreover have "others_same cid (sp_name spec) d d1"
  proof -
    have "s_id t \<noteq> s_id s" if "t \<in> set (named_sources cid' nm' d)" for t cid' nm'
      using that assms(2) s(5) by (auto simp: named_sources_def sources_keyed_def)
    then show ?thesis using s(1,4,6,7) by (auto simp: others_same_def named_sources_def replace_rules_other)
  qed
  ultimately show ?thesis using s(3,9,10) by blast
qed

lemma spec_applied:
  assumes "import_source CE True u limit cids fids credentials spec d = Inr (item, d1)" "sources_keyed d" "decrypts CE"
    and "sp_customer spec \<noteq> None \<longrightarrow> spec_customer cids spec \<noteq> None" "typed_credential credentials spec \<noteq> Some []"
  shows "kept_rest d d1 \<and> sources_keyed d1 \<and> settled CE cids fids credentials spec d1 \<and>
    others_same (spec_customer cids spec) (sp_name spec) d d1"
proof -
  let ?found = "named_sources (spec_customer cids spec) (sp_name spec) d"
  have existing: "(if sp_customer spec \<noteq> None \<and> spec_customer cids spec = None then [] else ?found) = ?found" using assms(4) by auto
  show ?thesis
  proof (cases ?found)
    case Nil
    then have "import_new_source CE True u spec (spec_customer cids spec) (spec_folder fids spec) (typed_credential credentials spec) d = (item, d1)"
      using assms(1) unfolding import_source_def Let_def existing by (auto simp: bindE_Inr_iff)
    from new_applied [OF this assms(2,3) Nil assms(5)] show ?thesis by (auto simp: settled_def)
  next
    case (Cons s others)
    then have "import_existing_source CE True u spec (spec_folder fids spec) (typed_credential credentials spec) s d = Inr (item, d1)" "others = []"
      using assms(1) unfolding import_source_def Let_def existing by (auto simp: bindE_Inr_iff)
    from existing_applied [OF this(1) assms(2,3)] Cons this(2) show ?thesis by (auto simp: settled_def)
  qed
qed

lemma sources_applied:
  assumes "import_sources CE True u limit cids fids credentials specs d = (items, [], d1)" "sources_keyed d" "decrypts CE"
    and "\<forall>spec \<in> set specs. (sp_customer spec \<noteq> None \<longrightarrow> spec_customer cids spec \<noteq> None) \<and> typed_credential credentials spec \<noteq> Some []"
    and "distinct (map (\<lambda>spec. (spec_customer cids spec, sp_name spec)) specs)"
  shows "kept_rest d d1 \<and> sources_keyed d1 \<and> (\<forall>spec \<in> set specs. settled CE cids fids credentials spec d1) \<and>
    (\<forall>cid nm. (cid, nm) \<notin> set (map (\<lambda>spec. (spec_customer cids spec, sp_name spec)) specs) \<longrightarrow>
       named_sources cid nm d1 = named_sources cid nm d \<and> (\<forall>t \<in> set (named_sources cid nm d). rules_for d1 (s_id t) = rules_for d (s_id t)))"
  using assms
proof (induction specs arbitrary: d items)
  case Nil
  then show ?case by (simp add: kept_rest_def)
next
  case (Cons spec specs)
  obtain item d0 where step: "import_source CE True u limit cids fids credentials spec d = Inr (item, d0)"
    using Cons.prems(1) by (auto split: sum.splits prod.splits)
  obtain items0 where others: "import_sources CE True u limit cids fids credentials specs d0 = (items0, [], d1)"
    using Cons.prems(1) step by (auto split: prod.splits)
  from spec_applied [OF step Cons.prems(2,3)] Cons.prems(4)
  have here: "kept_rest d d0" "sources_keyed d0" "settled CE cids fids credentials spec d0"
    "others_same (spec_customer cids spec) (sp_name spec) d d0" by simp_all
  from Cons.IH [OF others here(2) Cons.prems(3)] Cons.prems(4,5)
  have IH: "kept_rest d0 d1" "sources_keyed d1" "\<forall>spec \<in> set specs. settled CE cids fids credentials spec d1"
    "\<And>cid nm. (cid, nm) \<notin> set (map (\<lambda>spec. (spec_customer cids spec, sp_name spec)) specs) \<Longrightarrow>
       named_sources cid nm d1 = named_sources cid nm d0 \<and> (\<forall>t \<in> set (named_sources cid nm d0). rules_for d1 (s_id t) = rules_for d0 (s_id t))"
    by simp_all
  have fresh: "(spec_customer cids spec, sp_name spec) \<notin> set (map (\<lambda>spec. (spec_customer cids spec, sp_name spec)) specs)"
    using Cons.prems(5) by simp
  have "settled CE cids fids credentials spec d1"
  proof -
    from here(3) obtain s where "named_sources (spec_customer cids spec) (sp_name spec) d0 = [s]"
      "wanted_source spec (spec_folder fids spec) s = s" "s_protocol s = sp_protocol spec" "\<not> new_rules spec d0 s"
      "\<not> new_credential CE s (typed_credential credentials spec)" by (auto simp: settled_def)
    with IH(4) [OF fresh] show ?thesis by (auto simp: settled_def new_rules_def cong: option.case_cong)
  qed
  moreover have "kept_rest d d1" using here(1) IH(1) by (simp add: kept_rest_def)
  moreover have "named_sources cid nm d1 = named_sources cid nm d \<and> (\<forall>t \<in> set (named_sources cid nm d). rules_for d1 (s_id t) = rules_for d (s_id t))"
    if "(cid, nm) \<notin> set (map (\<lambda>spec. (spec_customer cids spec, sp_name spec)) (spec # specs))" for cid nm
    using that IH(4) [of cid nm] here(4) by (auto simp: others_same_def)
  ultimately show ?case using IH(2,3) by simp
qed

lemma sources_again:
  assumes "\<forall>spec \<in> set specs. settled CE cids fids credentials spec d" "1 \<le> limit"
    and "\<forall>spec \<in> set specs. sp_customer spec \<noteq> None \<longrightarrow> spec_customer cids spec \<noteq> None"
  shows "\<exists>items. import_sources CE applied u limit cids fids credentials specs d = (items, [], d) \<and> list_all (\<lambda>i. pi_action i = PlanUnchanged) items"
  using assms
proof (induction specs)
  case (Cons spec specs)
  from settled_unchanged [of CE cids fids credentials spec d limit applied u] Cons.prems
  obtain item where "import_source CE applied u limit cids fids credentials spec d = Inr (item, d)" "pi_action item = PlanUnchanged" by auto
  with Cons show ?case by auto
qed simp

section \<open>The whole import\<close>

lemma customer_ids_inj:
  assumes "names_customers cids d" "customers_ok d" "id_of cids c = Some i" "id_of cids c' = Some i"
  shows "c = c'"
proof -
  from assms(1,3,4) obtain x y where "x \<in> set (customers d)" "c_name x = c" "c_id x = i" "y \<in> set (customers d)" "c_name y = c'" "c_id y = i"
    unfolding names_customers_def by blast
  moreover from this assms(2) have "x = y" using same_id [of c_id "customers d" x y] by (simp add: customers_ok_def)
  ultimately show ?thesis by simp
qed

lemma max_roots_facts:
  "settings d1 = settings d \<Longrightarrow> max_roots d1 = max_roots d" "max_roots d = Inr limit \<Longrightarrow> 1 \<le> limit"
  by (auto simp: max_roots_def get_int_def stored_or_def bindE_Inr_iff)

definition one_name_each :: "parsed \<Rightarrow> bool" where
  "one_name_each p = distinct (map (\<lambda>spec. (sp_customer spec, sp_name spec)) (pa_sources p))"

lemma spec_customers:
  assumes "well_parsed p" "one_name_each p" "names_customers cids d" "customers_ok d" "\<forall>c \<in> set (pa_customers p). id_of cids c \<noteq> None"
  shows "\<forall>spec \<in> set (pa_sources p). (sp_customer spec \<noteq> None \<longrightarrow> spec_customer cids spec \<noteq> None) \<and> typed_credential credentials spec \<noteq> Some []"
    "distinct (map (\<lambda>spec. (spec_customer cids spec, sp_name spec)) (pa_sources p))"
proof -
  show known: "\<forall>spec \<in> set (pa_sources p). (sp_customer spec \<noteq> None \<longrightarrow> spec_customer cids spec \<noteq> None) \<and> typed_credential credentials spec \<noteq> Some []"
  proof (intro ballI conjI impI)
    fix spec assume spec: "spec \<in> set (pa_sources p)"
    with assms(1) have "sp_credential spec \<noteq> Some []" by (simp add: well_parsed_def)
    then show "typed_credential credentials spec \<noteq> Some []" by (simp add: typed_credential_def split: option.split)
    assume "sp_customer spec \<noteq> None"
    with spec assms(1) obtain c where "sp_customer spec = Some c" "c \<in> set (pa_customers p)" "c \<noteq> ''''" by (auto simp: well_parsed_def)
    with assms(5) show "spec_customer cids spec \<noteq> None" by (simp add: spec_customer_def)
  qed
  have same: "sp_customer s = sp_customer t"
    if "s \<in> set (pa_sources p)" "t \<in> set (pa_sources p)" "spec_customer cids s = spec_customer cids t" for s t
  proof (cases "sp_customer s")
    case None
    with that known show ?thesis by (cases "sp_customer t") (auto simp: spec_customer_def)
  next
    case (Some c)
    with that(1) known have "spec_customer cids s \<noteq> None" by blast
    with that(3) obtain c' where c': "sp_customer t = Some c'" by (cases "sp_customer t") (simp_all add: spec_customer_def)
    have "c \<noteq> ''''" "c' \<noteq> ''''" using assms(1) that(1,2) Some c' by (auto simp: well_parsed_def)
    with that(3) Some c' \<open>spec_customer cids s \<noteq> None\<close> have "id_of cids c = id_of cids c'" "id_of cids c \<noteq> None"
      by (simp_all add: spec_customer_def)
    with customer_ids_inj [OF assms(3,4), of c _ c'] Some c' show ?thesis by auto
  qed
  from assms(2) have one: "distinct (pa_sources p)" "inj_on (\<lambda>spec. (sp_customer spec, sp_name spec)) (set (pa_sources p))"
    unfolding one_name_each_def distinct_map by blast+
  have "inj_on (\<lambda>spec. (spec_customer cids spec, sp_name spec)) (set (pa_sources p))"
  proof (rule inj_onI)
    fix s t assume st: "s \<in> set (pa_sources p)" "t \<in> set (pa_sources p)"
      "(spec_customer cids s, sp_name s) = (spec_customer cids t, sp_name t)"
    then have "(sp_customer s, sp_name s) = (sp_customer t, sp_name t)" using same [OF st(1,2)] by simp
    with inj_onD [OF one(2) _ st(1,2)] show "s = t" by blast
  qed
  with one(1) show "distinct (map (\<lambda>spec. (spec_customer cids spec, sp_name spec)) (pa_sources p))"
    unfolding distinct_map by blast
qed

text \<open>What an import that found no problem did, in its three phases.\<close>

lemma run_import_phases:
  assumes "run_import CE p credentials True u d = Inr (items, [], d3)"
  obtains limit cids citems d1 fids fitems d2 sitems where "pa_problems p = []" "max_roots d = Inr limit"
    "import_customers CE True u [] (pa_customers p) d = (cids, citems, d1)"
    "import_folders CE True u cids [] (pa_folders p) d1 = (fids, fitems, d2)"
    "import_sources CE True u limit cids fids credentials (pa_sources p) d2 = (sitems, [], d3)"
    "items = citems @ fitems @ sitems"
proof -
  have none: "pa_problems p = []" using assms by (cases "pa_problems p = []") (simp_all add: run_import_def)
  with assms obtain limit where limit: "max_roots d = Inr limit" by (cases "max_roots d") (simp_all add: run_import_def)
  obtain cids citems d1 where c: "import_customers CE True u [] (pa_customers p) d = (cids, citems, d1)" by (rule prod_cases3)
  obtain fids fitems d2 where f: "import_folders CE True u cids [] (pa_folders p) d1 = (fids, fitems, d2)" by (rule prod_cases3)
  obtain sitems problems d4 where g: "import_sources CE True u limit cids fids credentials (pa_sources p) d2 = (sitems, problems, d4)"
    by (rule prod_cases3)
  have "items = citems @ fitems @ sitems \<and> problems = [] \<and> d4 = d3" using assms by (simp add: run_import_def none limit c f g)
  with that [OF none limit c f, of sitems] g show ?thesis by blast
qed

definition same_config :: "db \<Rightarrow> db \<Rightarrow> bool" where
  "same_config d d1 \<longleftrightarrow> customers d1 = customers d \<and> folders d1 = folders d \<and> sources d1 = sources d \<and> rules d1 = rules d"

lemma import_source_same:
  assumes "same_config d d1" "import_source CE applied u limit cids fids credentials spec d = Inr (item, d)"
    and "settled CE cids fids credentials spec d" "1 \<le> limit" "sp_customer spec \<noteq> None \<longrightarrow> spec_customer cids spec \<noteq> None"
  shows "import_source CE applied u limit cids fids credentials spec d1 = Inr (item, d1)"
proof -
  have same: "named_sources cid nm d1 = named_sources cid nm d" "rules_for d1 i = rules_for d i" "new_rules spec d1 s = new_rules spec d s" for cid nm i s
    using assms(1) by (simp_all add: named_sources_def rules_for_def new_rules_def same_config_def cong: option.case_cong)
  from assms(3) obtain s where s: "named_sources (spec_customer cids spec) (sp_name spec) d = [s]"
    "wanted_source spec (spec_folder fids spec) s = s" "\<not> new_rules spec d s" "\<not> new_credential CE s (typed_credential credentials spec)"
    by (auto simp: settled_def)
  have found: "(if sp_customer spec \<noteq> None \<and> spec_customer cids spec = None then []
      else named_sources (spec_customer cids spec) (sp_name spec) d) = [s]" using s(1) assms(5) by auto
  show ?thesis
    using assms(2) s(3,4) no_field_changes [THEN iffD2, OF s(2)]
    unfolding import_source_def Let_def same found
    by (auto simp: import_existing_source_def bindE_Inr_iff Let_def same no_labels)
qed

lemma sources_again_same:
  assumes "import_sources CE applied u limit cids fids credentials specs d = (items, [], d)"
    and "\<forall>spec \<in> set specs. settled CE cids fids credentials spec d" "1 \<le> limit"
    and "\<forall>spec \<in> set specs. sp_customer spec \<noteq> None \<longrightarrow> spec_customer cids spec \<noteq> None" "same_config d d1"
  shows "import_sources CE applied u limit cids fids credentials specs d1 = (items, [], d1)"
  using assms
proof (induction specs arbitrary: items)
  case (Cons spec specs)
  from settled_unchanged [of CE cids fids credentials spec d limit applied u] Cons.prems
  obtain item where item: "import_source CE applied u limit cids fids credentials spec d = Inr (item, d)" by auto
  with import_source_same [OF Cons.prems(5) item] Cons show ?case by (auto split: prod.splits)
qed simp

lemma run_again:
  assumes "run_import CE p credentials True u d = Inr (items, [], d3)" "well_parsed p" "one_name_each p"
    and "customers_ok d" "sources_keyed d" "decrypts CE"
  shows "roles d3 = roles d"
    "\<exists>items'. (\<forall>d'. same_config d3 d' \<and> settings d' = settings d3 \<longrightarrow> run_import CE p credentials applied u' d' = Inr (items', [], d')) \<and>
       list_all (\<lambda>i. pi_action i = PlanUnchanged) items'"
proof -
  from assms(1) obtain limit cids citems d1 fids fitems d2 sitems where ph: "pa_problems p = []" "max_roots d = Inr limit"
    "import_customers CE True u [] (pa_customers p) d = (cids, citems, d1)"
    "import_folders CE True u cids [] (pa_folders p) d1 = (fids, fitems, d2)"
    "import_sources CE True u limit cids fids credentials (pa_sources p) d2 = (sitems, [], d3)" by (rule run_import_phases)
  have "names_customers [] d" by (simp add: names_customers_def id_of_def)
  note C = import_customers_again [OF ph(3)] this assms(4)
  have c: "rest_same d d1" "folders d1 = folders d" "customers_ok d1" "names_customers cids d1" "\<forall>n \<in> set (pa_customers p). id_of cids n \<noteq> None"
    using C by blast+
  have again: "import_customers CE applied u' [] (pa_customers p) d' = (cids, map (plain_item PlanUnchanged CustomerItem) (pa_customers p), d')"
    if "prefix (customers d1) (customers d')" for d' using C(1) that by blast
  have closed: "folders_closed (pa_customers p) [] (pa_folders p)" using assms(2) by (simp add: well_parsed_def)
  have "\<forall>p \<in> set []. id_of [] p \<noteq> None" by simp
  note F = import_folders_again [OF ph(4) closed c(5) this]
  have f: "rest_same d1 d2" "customers d2 = customers d1" using F by blast+
  have f_again: "import_folders CE applied u' cids [] (pa_folders p) d' =
         (fids, map (\<lambda>(c, path). plain_item PlanUnchanged FolderItem (join_str '' / '' (c # path))) (pa_folders p), d')"
    if "prefix (folders d2) (folders d')" for d' using F that by blast
  note specs = spec_customers [OF assms(2,3) c(4,3,5)]
  have keyed: "sources_keyed d2" using assms(5) c(1) f(1) by (simp add: sources_keyed_def rest_same_def)
  from sources_applied [OF ph(5) keyed assms(6) specs]
  have s: "kept_rest d2 d3" "\<forall>spec \<in> set (pa_sources p). settled CE cids fids credentials spec d3" by blast+
  show "roles d3 = roles d" using c(1) f(1) s(1) by (simp add: rest_same_def kept_rest_def)
  have "settings d3 = settings d" using c(1) f(1) s(1) by (simp add: rest_same_def kept_rest_def)
  then have limit: "max_roots d3 = Inr limit" "1 \<le> limit"
    using max_roots_facts(1) [of d3 d] max_roots_facts(2) [OF ph(2)] ph(2) by simp_all
  have known: "\<forall>spec \<in> set (pa_sources p). sp_customer spec \<noteq> None \<longrightarrow> spec_customer cids spec \<noteq> None" using specs(1) by blast
  from sources_again [OF s(2) limit(2) known] obtain sitems' where sitems':
    "import_sources CE applied u' limit cids fids credentials (pa_sources p) d3 = (sitems', [], d3)"
    "list_all (\<lambda>i. pi_action i = PlanUnchanged) sitems'" by blast
  let ?items = "map (plain_item PlanUnchanged CustomerItem) (pa_customers p) @
    map (\<lambda>(c, path). plain_item PlanUnchanged FolderItem (join_str '' / '' (c # path))) (pa_folders p) @ sitems'"
  have "run_import CE p credentials applied u' d' = Inr (?items, [], d')" if same: "same_config d3 d'" "settings d' = settings d3" for d'
  proof -
    have "import_customers CE applied u' [] (pa_customers p) d' = (cids, map (plain_item PlanUnchanged CustomerItem) (pa_customers p), d')"
      using s(1) f(2) same(1) by (intro again) (simp add: kept_rest_def same_config_def)
    moreover have "import_folders CE applied u' cids [] (pa_folders p) d' =
        (fids, map (\<lambda>(c, path). plain_item PlanUnchanged FolderItem (join_str '' / '' (c # path))) (pa_folders p), d')"
      using s(1) same(1) by (intro f_again) (simp add: kept_rest_def same_config_def)
    moreover have "import_sources CE applied u' limit cids fids credentials (pa_sources p) d' = (sitems', [], d')"
      by (rule sources_again_same [OF sitems'(1) s(2) limit(2) known same(1)])
    moreover have "max_roots d' = Inr limit" using limit(1) same(2) by (simp add: max_roots_def get_int_def stored_or_def)
    ultimately show ?thesis using ph(1) by (simp add: run_import_def)
  qed
  then show "\<exists>items'. (\<forall>d'. same_config d3 d' \<and> settings d' = settings d3 \<longrightarrow> run_import CE p credentials applied u' d' = Inr (items', [], d')) \<and>
       list_all (\<lambda>i. pi_action i = PlanUnchanged) items'"
    using sitems'(2) by (intro exI [of _ ?items]) (auto simp: list_all_iff plain_item_def)
qed

section \<open>Properties\<close>

lemma import_config_Inr:
  assumes "import_config CE u body dry typed d = Inr (r, d1)"
  obtains items problems d0 where "run_import CE (parse CE body) (kept_credentials typed) (\<not> dry) (Some (u_id u)) d = Inr (items, problems, d0)"
    "r = \<lparr>ir_applied = (\<not> dry \<and> problems = []), ir_items = items, ir_problems = problems\<rparr>"
    "dry \<or> problems \<noteq> [] \<Longrightarrow> d1 = d" "\<not> dry \<and> problems = [] \<Longrightarrow> same_config d0 d1 \<and> roles d1 = roles d0 \<and> settings d1 = settings d0"
    "require_super_admin_user d u = Inr ()" "length body \<le> max_bytes" "list_all (\<lambda>(k, c). set (map fst c) \<subseteq> set credential_keys) typed"
proof -
  have admin: "require_super_admin_user d u = Inr ()"
    using assms by (cases "require_super_admin_user d u") (simp_all add: import_config_def map_error_def)
  have short: "length body \<le> max_bytes"
    using assms by (cases "length body \<le> max_bytes") (simp_all add: import_config_def map_error_def admin requireE_def)
  have keys: "list_all (\<lambda>(k, c). set (map fst c) \<subseteq> set credential_keys) typed"
    using assms by (rule_tac ccontr) (simp add: import_config_def map_error_def admin requireE_def short)
  note guards = admin short keys
  have "\<exists>items problems d0. run_import CE (parse CE body) (kept_credentials typed) (\<not> dry) (Some (u_id u)) d = Inr (items, problems, d0)"
  proof (cases "run_import CE (parse CE body) (kept_credentials typed) (\<not> dry) (Some (u_id u)) d")
    case (Inl e)
    with assms guards show ?thesis by (simp add: import_config_def requireE_def map_error_def Let_def)
  qed (metis prod_cases3)
  then obtain items problems d0 where run: "run_import CE (parse CE body) (kept_credentials typed) (\<not> dry) (Some (u_id u)) d = Inr (items, problems, d0)"
    by blast
  have "r = \<lparr>ir_applied = (\<not> dry \<and> problems = []), ir_items = items, ir_problems = problems\<rparr>"
    "dry \<or> problems \<noteq> [] \<longrightarrow> d1 = d" "\<not> dry \<and> problems = [] \<longrightarrow> same_config d0 d1 \<and> roles d1 = roles d0 \<and> settings d1 = settings d0"
    using assms by (auto simp: import_config_def requireE_def map_error_def Let_def same_config_def guards run split: if_splits)
  with that run guards show ?thesis by blast
qed

text \<open>What an import leaves as it was.\<close>

definition spares :: "(source \<Rightarrow> bool) \<Rightarrow> db \<Rightarrow> db \<Rightarrow> bool" where
  "spares P d d1 \<longleftrightarrow> set (map s_id (sources d)) \<subseteq> set (map s_id (sources d1)) \<and>
     (\<forall>s \<in> set (sources d). P s \<longrightarrow> s \<in> set (sources d1) \<and> rules_for d1 (s_id s) = rules_for d (s_id s))"

lemma spares_refl: "spares P d d"
  by (simp add: spares_def)

lemma spares_trans: "spares P d d1 \<Longrightarrow> spares P d1 d2 \<Longrightarrow> spares P d d2"
  unfolding spares_def by (metis subset_trans)

definition not_named :: "source_spec list \<Rightarrow> source \<Rightarrow> bool" where
  "not_named specs s \<longleftrightarrow> s_is_system s \<or> (\<forall>spec \<in> set specs. sp_name spec \<noteq> s_name s)"

lemma import_source_spares:
  assumes "import_source CE True u limit cids fids credentials spec d = Inr (item, d1)" "sources_keyed d" "spec \<in> set specs"
  shows "spares (not_named specs) d d1 \<and> kept_rest d d1 \<and> sources_keyed d1"
proof -
  let ?found = "if sp_customer spec \<noteq> None \<and> spec_customer cids spec = None then []
    else named_sources (spec_customer cids spec) (sp_name spec) d"
  show ?thesis
  proof (cases ?found)
    case Nil
    then have "import_new_source CE True u spec (spec_customer cids spec) (spec_folder fids spec) (typed_credential credentials spec) d = (item, d1)"
      using assms(1) unfolding import_source_def Let_def Nil by (auto simp: bindE_Inr_iff)
    from new_row [OF this] obtain s where rest: "kept_rest d d1"
      and s: "sources d1 = sources d @ [s]" "source_seq d1 = source_seq d + 1" "s_id s = source_seq d + 1"
      "\<forall>j. rules_for d1 j = rules_for (replace_rules (s_id s) (case sp_rules spec of None \<Rightarrow> [] | Some rs \<Rightarrow> rs) d) j" .
    have new: "s_id t \<noteq> s_id s" if "t \<in> set (sources d)" for t using that assms(2) s(3) by (auto simp: sources_keyed_def)
    then have "spares (not_named specs) d d1" using s(1) by (auto simp: spares_def s(4) replace_rules_other)
    moreover have "sources_keyed d1" using assms(2) s(1-3) by (force simp: sources_keyed_def)
    ultimately show ?thesis using rest by blast
  next
    case (Cons s others)
    then have found: "s \<in> set (named_sources (spec_customer cids spec) (sp_name spec) d)" by (auto split: if_splits)
    from Cons assms(1) have "import_existing_source CE True u spec (spec_folder fids spec) (typed_credential credentials spec) s d = Inr (item, d1)"
      unfolding import_source_def Let_def Cons by (auto simp: bindE_Inr_iff)
    then consider "d1 = d" | "d1 = write_source CE u spec (spec_folder fids spec) (typed_credential credentials spec) s d"
      by (auto simp: import_existing_source_def bindE_Inr_iff Let_def split: if_splits)
    then show ?thesis
    proof cases
      case 1
      with assms(2) spares_refl show ?thesis by (simp add: kept_rest_def)
    next
      case 2
      let ?s2 = "updated_source CE spec (spec_folder fids spec) (typed_credential credentials spec) s"
      have s: "s \<in> set (sources d)" "s_name s = sp_name spec" "\<not> s_is_system s" "s_id ?s2 = s_id s"
        using found by (auto simp: named_sources_def updated_source_def wanted_source_def Let_def split: option.split)
      have src: "sources d1 = tbl_put s_id ?s2 (sources d)" "source_seq d1 = source_seq d" "kept_rest d d1"
        by (simp_all add: 2 write_source_def Let_def with_rules_def kept_rest_def split: option.split)
      have rules: "rules_for d1 j = rules_for d j" if "j \<noteq> s_id s" for j
        using that by (simp add: 2 write_source_def Let_def with_rules_def replace_rules_other rules_for_def [of "d\<lparr>sources := _\<rparr>"] rules_for_def [of d] split: option.split)
      have "s_id t \<noteq> s_id s" if "t \<in> set (sources d)" "not_named specs t" for t
      proof
        assume "s_id t = s_id s"
        with that(1) s(1) assms(2) same_id [of s_id "sources d" t s] have "t = s" by (simp add: sources_keyed_def)
        with that(2) s(2,3) assms(3) show False by (auto simp: not_named_def)
      qed
      then have "spares (not_named specs) d d1"
        using rules by (auto simp: spares_def src(1) s(4) simp del: set_map) (force simp: tbl_put_def s(4))
      with put_keyed [OF assms(2) s(4,1) src(1,2)] src(3) show ?thesis by blast
    qed
  qed
qed

lemma import_sources_spares:
  assumes "import_sources CE True u limit cids fids credentials specs d = (items, problems, d1)" "sources_keyed d" "set specs \<subseteq> set all_specs"
  shows "spares (not_named all_specs) d d1 \<and> kept_rest d d1"
  using assms
proof (induction specs arbitrary: d items problems)
  case Nil
  then show ?case by (simp add: spares_refl kept_rest_def)
next
  case (Cons spec specs)
  show ?case
  proof (cases "import_source CE True u limit cids fids credentials spec d")
    case (Inl p)
    with Cons.prems Cons.IH [of d] show ?thesis by (auto split: prod.splits)
  next
    case (Inr step)
    obtain item d0 where step: "import_source CE True u limit cids fids credentials spec d = Inr (item, d0)"
      using Inr by (cases step) simp
    obtain items0 problems0 where others: "import_sources CE True u limit cids fids credentials specs d0 = (items0, problems0, d1)"
      using Cons.prems(1) step by (auto split: prod.splits)
    from import_source_spares [OF step Cons.prems(2), of all_specs] Cons.prems(3)
    have here: "spares (not_named all_specs) d d0" "kept_rest d d0" "sources_keyed d0" by simp_all
    have there: "spares (not_named all_specs) d0 d1" "kept_rest d0 d1" using Cons.IH [OF others here(3)] Cons.prems(3) by simp_all
    show ?thesis using spares_trans [OF here(1) there(1)] here(2) there(2) by (simp add: kept_rest_def)
  qed
qed

lemma run_import_leaves:
  assumes "run_import CE p credentials True u d = Inr (items, [], d3)" "well_parsed p" "sources_keyed d"
  shows "set (customers d) \<subseteq> set (customers d3)" "set (folders d) \<subseteq> set (folders d3)" "spares (not_named (pa_sources p)) d d3"
proof -
  from assms(1) obtain limit cids citems d1 fids fitems d2 sitems where ph: "pa_problems p = []" "max_roots d = Inr limit"
    "import_customers CE True u [] (pa_customers p) d = (cids, citems, d1)"
    "import_folders CE True u cids [] (pa_folders p) d1 = (fids, fitems, d2)"
    "import_sources CE True u limit cids fids credentials (pa_sources p) d2 = (sitems, [], d3)" by (rule run_import_phases)
  note C = import_customers_again [OF ph(3)]
  have c: "prefix (customers d) (customers d1)" "rest_same d d1" "folders d1 = folders d" using C by blast+
  have known: "\<forall>n \<in> set (pa_customers p). id_of cids n \<noteq> None" using C by blast
  have closed: "folders_closed (pa_customers p) [] (pa_folders p)" using assms(2) by (simp add: well_parsed_def)
  have "\<forall>p \<in> set []. id_of [] p \<noteq> None" by simp
  note F = import_folders_again [OF ph(4) closed known this]
  have f: "prefix (folders d1) (folders d2)" "rest_same d1 d2" "customers d2 = customers d1" using F by blast+
  have same: "sources d2 = sources d" "rules d2 = rules d" "sources_keyed d2"
    using c(2) f(2) assms(3) by (simp_all add: rest_same_def sources_keyed_def)
  from import_sources_spares [OF ph(5) same(3) subset_refl]
  have s: "spares (not_named (pa_sources p)) d2 d3" "kept_rest d2 d3" by simp_all
  show "set (customers d) \<subseteq> set (customers d3)" using set_mono_prefix [OF c(1)] f(3) s(2) by (simp add: kept_rest_def)
  show "set (folders d) \<subseteq> set (folders d3)" using set_mono_prefix [OF f(1)] c(3) s(2) by (simp add: kept_rest_def)
  show "spares (not_named (pa_sources p)) d d3" using s(1) rules_for_cong [OF same(2)] by (simp add: spares_def same(1))
qed

text \<open>
  C8: An import is idempotent for a file in which no two sources have the same customer and name: after it
  was imported without a problem, importing it again, as a preview or applied, finds no problem, plans no
  change and leaves customers, folders, sources and rules as they are. (Two sources of one name are taken
  for one, which every import moves, \<open>ConfigPlan\<close>.) Customers and sources have unique ids below their
  counters, and decrypting gives the credential back that was encrypted.
\<close>

theorem importing_a_file_again_changes_nothing:
  assumes "import_config CE u body False typed d = Inr (r, d1)" "ir_problems r = []"
    and "one_name_each (parse CE body)" "customers_ok d" "sources_keyed d" "decrypts CE"
  shows "\<exists>r' d2. import_config CE u body dry typed d1 = Inr (r', d2) \<and> ir_problems r' = [] \<and>
    list_all (\<lambda>i. pi_action i = PlanUnchanged) (ir_items r') \<and> same_config d1 d2"
proof -
  from assms(1) obtain items problems d0 where
    run: "run_import CE (parse CE body) (kept_credentials typed) True (Some (u_id u)) d = Inr (items, problems, d0)"
    and r: "r = \<lparr>ir_applied = (problems = []), ir_items = items, ir_problems = problems\<rparr>"
    and d1: "problems = [] \<Longrightarrow> same_config d0 d1 \<and> roles d1 = roles d0 \<and> settings d1 = settings d0"
    and guards: "require_super_admin_user d u = Inr ()" "length body \<le> max_bytes" "list_all (\<lambda>(k, c). set (map fst c) \<subseteq> set credential_keys) typed"
    by (rule import_config_Inr) simp
  have none: "problems = []" using r assms(2) by simp
  note ran = run [unfolded none] parse_well_parsed assms(3-6)
  note again = run_again(1) [OF ran] run_again(2) [OF ran, of "\<not> dry" "Some (u_id u)"]
  have admin: "require_super_admin_user d1 u = Inr ()"
    using guards(1) again(1) d1 [OF none] by (simp add: require_super_admin_user_def user_role_def)
  from again(2) obtain items' where items': "run_import CE (parse CE body) (kept_credentials typed) (\<not> dry) (Some (u_id u)) d1 = Inr (items', [], d1)"
    "list_all (\<lambda>i. pi_action i = PlanUnchanged) items'" using d1 [OF none] by blast
  then show ?thesis
    using guards(2,3) by (simp add: import_config_def map_error_def requireE_def admin Let_def same_config_def)
qed

text \<open>
  C9: An import takes nothing away. Whatever the file says, every customer and folder is still there afterwards, no
  source is deleted, and a system source or one whose name the file does not use is unchanged with its rules; a
  preview, and an import with a problem, leave the database as it was.
\<close>

theorem import_leaves_the_rest_alone:
  assumes "import_config CE u body dry typed d = Inr (r, d1)" "sources_keyed d"
  shows "set (customers d) \<subseteq> set (customers d1) \<and> set (folders d) \<subseteq> set (folders d1) \<and>
    set (map s_id (sources d)) \<subseteq> set (map s_id (sources d1)) \<and>
    {s \<in> set (sources d). not_named (pa_sources (parse CE body)) s} \<subseteq>
      {s \<in> set (sources d1). rules_for d1 (s_id s) = rules_for d (s_id s)} \<and>
    (dry \<or> ir_problems r \<noteq> [] \<longrightarrow> d1 = d)"
proof -
  let ?p = "parse CE body"
  from assms(1) obtain items problems d0 where
    run: "run_import CE ?p (kept_credentials typed) (\<not> dry) (Some (u_id u)) d = Inr (items, problems, d0)"
    and r: "r = \<lparr>ir_applied = (\<not> dry \<and> problems = []), ir_items = items, ir_problems = problems\<rparr>"
    and kept: "dry \<or> problems \<noteq> [] \<Longrightarrow> d1 = d"
    and fin: "\<not> dry \<and> problems = [] \<Longrightarrow> same_config d0 d1 \<and> roles d1 = roles d0 \<and> settings d1 = settings d0"
    by (rule import_config_Inr) blast
  show ?thesis
  proof (cases "dry \<or> problems \<noteq> []")
    case True
    then have "d1 = d" by (rule kept)
    then show ?thesis by (auto simp: r)
  next
    case False
    then have applied: "run_import CE ?p (kept_credentials typed) True (Some (u_id u)) d = Inr (items, [], d0)" using run by simp
    from run_import_leaves [OF this parse_well_parsed assms(2)] fin False
    have "set (customers d) \<subseteq> set (customers d1)" "set (folders d) \<subseteq> set (folders d1)" "spares (not_named (pa_sources ?p)) d d0"
      "sources d1 = sources d0" "rules d1 = rules d0" by (auto simp: same_config_def)
    with False show ?thesis using rules_for_cong [of d1 d0] by (auto simp: r spares_def)
  qed
qed

end
