(* ===== verification/ConfigPlan.thy ===== *)
theory ConfigPlan
  imports ConfigImport "HOL-Library.Countable"
begin

text \<open>
  The plan a preview of \<open>app/config_transfer.py\<close> shows, against what applying the file then does: the same, unless a
  folder has to be created first; and a file whose sources can never all be in place.
\<close>

section \<open>A preview without new customers or folders\<close>

definition no_new_places :: "plan_item list \<Rightarrow> bool" where
  "no_new_places items \<longleftrightarrow> (\<forall>i \<in> set items. pi_kind i \<noteq> SourceItem \<longrightarrow> pi_action i = PlanUnchanged)"

lemma no_new_places_simps [simp]:
  "no_new_places []" "no_new_places (i # items) \<longleftrightarrow> (pi_kind i \<noteq> SourceItem \<longrightarrow> pi_action i = PlanUnchanged) \<and> no_new_places items"
  "no_new_places (items @ items') \<longleftrightarrow> no_new_places items \<and> no_new_places items'"
  by (auto simp: no_new_places_def)

lemma customer_known:
  assumes "import_customer CE False u name d = (i, item, d1)" "pi_action item = PlanUnchanged"
  shows "import_customer CE applied u' name d = (i, item, d)" "d1 = d" "i \<noteq> None"
    and "\<exists>c \<in> set (customers d). c_name c = name \<and> Some (c_id c) = i"
proof -
  obtain c where c: "find (\<lambda>c. c_name c = name) (customers d) = Some c"
    using assms by (cases "find (\<lambda>c. c_name c = name) (customers d)") (auto simp: import_customer_def plain_item_def Let_def split: if_splits)
  show "import_customer CE applied u' name d = (i, item, d)" "d1 = d" "i \<noteq> None" using assms c by (auto simp: import_customer_def)
  have "c \<in> set (customers d)" "c_name c = name" using c by (auto simp: find_Some_iff)
  then show "\<exists>c \<in> set (customers d). c_name c = name \<and> Some (c_id c) = i" using assms c by (auto simp: import_customer_def)
qed

lemma customers_known:
  assumes "import_customers CE False u ids names d = (ids', items, d1)" "no_new_places items"
  shows "import_customers CE applied u' ids names d = (ids', items, d) \<and> d1 = d \<and>
    (\<forall>n. n \<in> set names \<or> id_of ids n \<noteq> None \<longrightarrow> id_of ids' n \<noteq> None) \<and> (names_customers ids d \<longrightarrow> names_customers ids' d)"
  using assms
proof (induction names arbitrary: ids ids' items)
  case Nil
  then show ?case by simp
next
  case (Cons name names)
  obtain i item d0 where step: "import_customer CE False u name d = (i, item, d0)" by (rule prod_cases3)
  obtain items0 where others: "import_customers CE False u ((name, i) # ids) names d0 = (ids', items0, d1)" "items = item # items0"
    using Cons.prems(1) step by (auto split: prod.splits)
  have "pi_kind item = CustomerItem" using step by (auto simp: import_customer_def plain_item_def Let_def split: option.splits if_splits)
  with others(2) Cons.prems(2) have quiet: "pi_action item = PlanUnchanged" "no_new_places items0" by simp_all
  note here = customer_known [OF step quiet(1)]
  from Cons.IH [of "(name, i) # ids" ids' items0] others(1) here(2) quiet(2)
  have IH: "import_customers CE applied u' ((name, i) # ids) names d = (ids', items0, d)" "d1 = d"
    "\<forall>n. n \<in> set names \<or> id_of ((name, i) # ids) n \<noteq> None \<longrightarrow> id_of ids' n \<noteq> None"
    "names_customers ((name, i) # ids) d \<longrightarrow> names_customers ids' d" by simp_all
  have "n \<in> set (name # names) \<or> id_of ids n \<noteq> None \<Longrightarrow> id_of ids' n \<noteq> None" for n
    using IH(3) [rule_format, of n] here(3) unfolding id_of_Cons by (cases "n = name") simp_all
  moreover have "names_customers ids d \<longrightarrow> names_customers ((name, i) # ids) d"
    using here(4) unfolding names_customers_def id_of_Cons by (auto split: if_splits)
  ultimately show ?case using IH here(1) [of applied u'] others(2) by simp
qed

lemma folder_known:
  assumes "import_folder CE False u cids fids place d = (i, item, d1)" "pi_action item = PlanUnchanged"
  shows "import_folder CE applied u' cids fids place d = (i, item, d)" "d1 = d"
proof -
  obtain c path where place: "place = (c, path)" by (rule prod.exhaust)
  let ?parent = "if length path > 1 then id_of fids (c, butlast path) else None"
  let ?e = "if id_of cids c \<noteq> None \<and> (length path = 1 \<or> ?parent \<noteq> None)
    then find (\<lambda>f. Some (f_customer_id f) = id_of cids c \<and> f_parent f = ?parent \<and> f_name f = last path) (folders d) else None"
  have "import_folder CE applied u' cids fids place d = (i, item, d) \<and> d1 = d"
  proof (cases ?e)
    case None
    then show ?thesis using assms unfolding import_folder_def Let_def place prod.case None by (auto simp: plain_item_def)
  next
    case (Some f)
    then show ?thesis using assms unfolding import_folder_def Let_def place prod.case Some by simp
  qed
  then show "import_folder CE applied u' cids fids place d = (i, item, d)" "d1 = d" by blast+
qed

lemma folders_known:
  assumes "import_folders CE False u cids fids places d = (fids', items, d1)" "no_new_places items"
  shows "import_folders CE applied u' cids fids places d = (fids', items, d) \<and> d1 = d"
  using assms
proof (induction places arbitrary: fids fids' items)
  case Nil
  then show ?case by simp
next
  case (Cons place places)
  obtain i item d0 where step: "import_folder CE False u cids fids place d = (i, item, d0)" by (rule prod_cases3)
  obtain items0 where others: "import_folders CE False u cids ((place, i) # fids) places d0 = (fids', items0, d1)" "items = item # items0"
    using Cons.prems(1) step by (auto split: prod.splits)
  have "pi_kind item = FolderItem" using step by (auto simp: import_folder_def plain_item_def Let_def split: option.splits if_splits prod.splits)
  with others(2) Cons.prems(2) have quiet: "pi_action item = PlanUnchanged" "no_new_places items0" by simp_all
  note here = folder_known [OF step quiet(1)]
  from Cons.IH [of "(place, i) # fids" fids' items0] others(1) here(2) quiet(2)
  have "import_folders CE applied u' cids ((place, i) # fids) places d = (fids', items0, d)" "d1 = d" by simp_all
  with here(1) [of applied u'] others(2) show ?case by simp
qed

section \<open>What one source is planned to become\<close>

definition same_named :: "int option \<Rightarrow> string \<Rightarrow> db \<Rightarrow> db \<Rightarrow> bool" where
  "same_named cid nm d d1 \<longleftrightarrow> named_sources cid nm d1 = named_sources cid nm d \<and>
     (\<forall>t \<in> set (named_sources cid nm d). rules_for d1 (s_id t) = rules_for d (s_id t))"

lemma import_new_plan: "fst (import_new_source CE applied u spec cid fid c d1) = fst (import_new_source CE applied' u' spec cid fid c d)"
  by (simp add: import_new_source_def Let_def)

lemma import_existing_plan:
  assumes "rules_for d1 (s_id s) = rules_for d (s_id s)"
  shows "map_sum id fst (import_existing_source CE applied u spec fid c s d1) = map_sum id fst (import_existing_source CE applied' u' spec fid c s d)"
proof -
  have "new_rules spec d1 s = new_rules spec d s" using assms by (simp add: new_rules_def cong: option.case_cong)
  then show ?thesis using assms by (simp add: import_existing_source_def bindE_def requireE_def Let_def split: sum.split)
qed

lemma import_source_plan:
  assumes "same_named (spec_customer cids spec) (sp_name spec) d d1"
  shows "map_sum id fst (import_source CE applied u limit cids fids credentials spec d1) =
    map_sum id fst (import_source CE applied' u' limit cids fids credentials spec d)"
proof -
  let ?found = "\<lambda>d. if sp_customer spec \<noteq> None \<and> spec_customer cids spec = None then []
    else named_sources (spec_customer cids spec) (sp_name spec) d"
  have found: "?found d1 = ?found d" using assms by (simp add: same_named_def)
  show ?thesis
  proof (cases "?found d")
    case Nil
    then show ?thesis
      unfolding import_source_def Let_def found
      by (simp add: bindE_def requireE_def import_new_plan [of CE applied u spec _ _ _ d1 applied' u' d])
  next
    case (Cons s others)
    then have "s \<in> set (named_sources (spec_customer cids spec) (sp_name spec) d)" by (auto split: if_splits)
    with assms have "rules_for d1 (s_id s) = rules_for d (s_id s)" by (simp add: same_named_def)
    from import_existing_plan [OF this, of CE applied u spec _ _ applied' u'] Cons show ?thesis
      unfolding import_source_def Let_def found by (simp add: bindE_def requireE_def)
  qed
qed

lemma import_source_dry:
  assumes "import_source CE False u limit cids fids credentials spec d = Inr (item, d1)"
  shows "d1 = d"
  using assms
  by (auto simp: import_source_def import_new_source_def import_existing_source_def bindE_Inr_iff Let_def split: list.splits if_splits)

lemma import_sources_plan:
  assumes "import_sources CE True u limit cids fids credentials specs d1 = (items1, problems1, d2)"
    and "import_sources CE False u' limit cids fids credentials specs d = (items, problems, d')"
    and "\<forall>spec \<in> set specs. same_named (spec_customer cids spec) (sp_name spec) d d1"
    and "sources_keyed d1" "decrypts CE"
    and "\<forall>spec \<in> set specs. (sp_customer spec \<noteq> None \<longrightarrow> spec_customer cids spec \<noteq> None) \<and> typed_credential credentials spec \<noteq> Some []"
    and "distinct (map (\<lambda>spec. (spec_customer cids spec, sp_name spec)) specs)"
  shows "items1 = items \<and> problems1 = problems"
  using assms
proof (induction specs arbitrary: d1 items1 problems1 items problems)
  case Nil
  then show ?case by simp
next
  case (Cons spec specs)
  note plan = import_source_plan [of cids spec d d1 CE True u limit fids credentials False u']
  have view: "same_named (spec_customer cids spec) (sp_name spec) d d1" using Cons.prems(3) by simp
  show ?case
  proof (cases "import_source CE True u limit cids fids credentials spec d1")
    case (Inl q)
    with plan [OF view] have dry: "import_source CE False u' limit cids fids credentials spec d = Inl q"
      by (cases "import_source CE False u' limit cids fids credentials spec d") auto
    obtain items0 problems0 where "import_sources CE True u limit cids fids credentials specs d1 = (items0, problems0, d2)"
      "items1 = items0" "problems1 = q # problems0" using Cons.prems(1) Inl by (auto split: prod.splits)
    moreover obtain items2 problems2 where "import_sources CE False u' limit cids fids credentials specs d = (items2, problems2, d')"
      "items = items2" "problems = q # problems2" using Cons.prems(2) dry by (auto split: prod.splits)
    ultimately show ?thesis using Cons.IH [of d1 items0 problems0 items2 problems2] Cons.prems(3-7) by simp
  next
    case (Inr step)
    obtain item d3 where step: "import_source CE True u limit cids fids credentials spec d1 = Inr (item, d3)"
      using Inr by (cases step) simp
    obtain d4 where dry: "import_source CE False u' limit cids fids credentials spec d = Inr (item, d4)"
      using plan [OF view] step by (cases "import_source CE False u' limit cids fids credentials spec d") auto
    have "d4 = d" using import_source_dry [OF dry] .
    obtain items0 problems0 where applied: "import_sources CE True u limit cids fids credentials specs d3 = (items0, problems0, d2)"
      "items1 = item # items0" "problems1 = problems0" using Cons.prems(1) step by (auto split: prod.splits)
    obtain items2 problems2 where preview: "import_sources CE False u' limit cids fids credentials specs d = (items2, problems2, d')"
      "items = item # items2" "problems = problems2" using Cons.prems(2) dry \<open>d4 = d\<close> by (auto split: prod.splits)
    from spec_applied [OF step Cons.prems(4,5)] Cons.prems(6)
    have after: "sources_keyed d3" "others_same (spec_customer cids spec) (sp_name spec) d1 d3" by simp_all
    have "same_named (spec_customer cids t) (sp_name t) d d3" if "t \<in> set specs" for t
    proof -
      have "(spec_customer cids t, sp_name t) \<noteq> (spec_customer cids spec, sp_name spec)"
        using Cons.prems(7) that by (auto simp: image_iff)
      with after(2) have "same_named (spec_customer cids t) (sp_name t) d1 d3" by (simp add: others_same_def same_named_def)
      moreover have "same_named (spec_customer cids t) (sp_name t) d d1" using Cons.prems(3) that by simp
      ultimately show ?thesis by (simp add: same_named_def)
    qed
    with Cons.IH [OF applied(1) preview(1) _ after(1) Cons.prems(5)] Cons.prems(6,7) applied(2,3) preview(2,3)
    show ?thesis by simp
  qed
qed

lemma run_import_plan:
  assumes "run_import CE p credentials False u d = Inr (items, problems, d')" "no_new_places items"
    and "well_parsed p" "one_name_each p" "customers_ok d" "sources_keyed d" "decrypts CE"
  shows "\<exists>d1. run_import CE p credentials True u' d = Inr (items, problems, d1)"
proof (cases "pa_problems p = []")
  case False
  with assms(1) show ?thesis by (simp add: run_import_def)
next
  case True
  with assms(1) obtain limit where limit: "max_roots d = Inr limit" by (cases "max_roots d") (simp_all add: run_import_def)
  obtain cids citems d1 where c: "import_customers CE False u [] (pa_customers p) d = (cids, citems, d1)" by (rule prod_cases3)
  obtain fids fitems d2 where f: "import_folders CE False u cids [] (pa_folders p) d1 = (fids, fitems, d2)" by (rule prod_cases3)
  obtain sitems sproblems d3 where g: "import_sources CE False u limit cids fids credentials (pa_sources p) d2 = (sitems, sproblems, d3)"
    by (rule prod_cases3)
  have items: "items = citems @ fitems @ sitems" "problems = sproblems" using assms(1) by (simp_all add: run_import_def True limit c f g)
  with assms(2) have quiet: "no_new_places citems" "no_new_places fitems" by simp_all
  note C = customers_known [OF c quiet(1), of True u']
  have "names_customers [] d" by (simp add: names_customers_def id_of_def)
  then have known: "\<forall>n \<in> set (pa_customers p). id_of cids n \<noteq> None" "names_customers cids d" using C by blast+
  have d1: "d1 = d" using C by blast
  note F = folders_known [OF f [unfolded d1] quiet(2), of True u']
  note specs = spec_customers [OF assms(3,4) known(2) assms(5) known(1)]
  obtain sitems1 sproblems1 d4 where s: "import_sources CE True u' limit cids fids credentials (pa_sources p) d = (sitems1, sproblems1, d4)"
    by (rule prod_cases3)
  have "d2 = d" using F by blast
  then have "sitems1 = sitems \<and> sproblems1 = sproblems"
    using import_sources_plan [OF s, of u' d sitems sproblems d3] import_sources_plan [OF s g] assms(6,7) specs by (simp add: same_named_def)
  with C F s items show ?thesis by (simp add: run_import_def True limit)
qed

text \<open>
  C10: A preview tells what applying does, for a file in which no two sources have the same customer and
  name. If its preview plans no new customer and no new folder, then importing the file gives the same
  items, with the same changes, and the same problems, and it is applied exactly if the preview found no
  problem. (With a new folder, or two sources of one name, it need not: \<open>preview_misses_a_move\<close> and the
  theorem after it.) Customers and sources have unique ids below their counters, and decrypting gives
  the credential back that was encrypted.
\<close>

theorem the_preview_is_what_applying_does:
  assumes "import_config CE u body True typed d = Inr (r, d')" "no_new_places (ir_items r)"
    and "one_name_each (parse CE body)" "customers_ok d" "sources_keyed d" "decrypts CE"
  shows "\<exists>d1. import_config CE u body False typed d = Inr (r\<lparr>ir_applied := (ir_problems r = [])\<rparr>, d1)"
proof -
  from assms(1) obtain items problems d0 where
    run: "run_import CE (parse CE body) (kept_credentials typed) False (Some (u_id u)) d = Inr (items, problems, d0)"
    and r: "r = \<lparr>ir_applied = False, ir_items = items, ir_problems = problems\<rparr>"
    and guards: "require_super_admin_user d u = Inr ()" "length body \<le> max_bytes" "list_all (\<lambda>(k, c). set (map fst c) \<subseteq> set credential_keys) typed"
    by (rule import_config_Inr) auto
  have "no_new_places items" using assms(2) by (simp add: r)
  from run_import_plan [OF run this parse_well_parsed assms(3-6), of "Some (u_id u)"]
  obtain d1 where "run_import CE (parse CE body) (kept_credentials typed) True (Some (u_id u)) d = Inr (items, problems, d1)" by blast
  with guards show ?thesis by (simp add: import_config_def map_error_def requireE_def Let_def r)
qed

section \<open>Where the plan and the result differ\<close>

lemma run_import_compose:
  assumes "pa_problems p = []" "max_roots d = Inr limit"
    and "import_customers CE applied u [] (pa_customers p) d = (cids, citems, d1)"
    and "import_folders CE applied u cids [] (pa_folders p) d1 = (fids, fitems, d2)"
    and "import_sources CE applied u limit cids fids credentials (pa_sources p) d2 = (sitems, problems, d3)"
  shows "run_import CE p credentials applied u d = Inr (citems @ fitems @ sitems, problems, d3)"
  using assms by (simp add: run_import_def)

lemma import_source_create:
  assumes "sp_customer spec \<noteq> None \<longrightarrow> spec_customer cids spec \<noteq> None" "named_sources (spec_customer cids spec) (sp_name spec) d = []"
    and "sp_roots spec = None"
  shows "import_source CE applied u limit cids fids credentials spec d =
      Inr (import_new_source CE applied u spec (spec_customer cids spec) (spec_folder fids spec) (typed_credential credentials spec) d)"
  using assms by (auto simp: import_source_def Let_def requireE_def)

lemma import_source_update:
  assumes "sp_customer spec \<noteq> None \<longrightarrow> spec_customer cids spec \<noteq> None" "named_sources (spec_customer cids spec) (sp_name spec) d = [s]"
    and "sp_roots spec = None \<or> sp_roots spec = s_roots s \<and> 1 \<le> limit" "s_protocol s = sp_protocol spec"
    and "typed_credential credentials spec \<noteq> None \<or> (sp_host spec, sp_port spec) = (s_host s, s_port s)"
  obtains item d1 where "import_source CE applied u limit cids fids credentials spec d = Inr (item, d1)"
    "pi_action item = PlanUpdate \<or> pi_action item = PlanUnchanged \<and> d1 = d"
proof -
  have found: "(if sp_customer spec \<noteq> None \<and> spec_customer cids spec = None then []
      else named_sources (spec_customer cids spec) (sp_name spec) d) = [s]" using assms(1,2) by auto
  have "import_source CE applied u limit cids fids credentials spec d =
      import_existing_source CE applied u spec (spec_folder fids spec) (typed_credential credentials spec) s d"
    unfolding import_source_def Let_def found using assms(3) by (cases "s_roots s") (auto simp: requireE_def roots_of_def Let_def)
  moreover have "\<exists>item d1. import_existing_source CE applied u spec (spec_folder fids spec) (typed_credential credentials spec) s d = Inr (item, d1) \<and>
      (pi_action item = PlanUpdate \<or> pi_action item = PlanUnchanged \<and> d1 = d)"
    using assms(4,5) by (auto simp: import_existing_source_def requireE_def Let_def)
  ultimately show ?thesis using that by auto
qed

text \<open>
  C40: Two entries of a file for one customer that have the same name, as the check of the file allows in
  different folders, are taken for one source: when none of that name is stored, both have the same
  protocol and a single folder of the server, and a credential that is not empty is typed for the second
  (one typed for the first is not empty either), importing the two entries plans to create both in the
  preview; applied, one source is made, which has the values of the second.
\<close>

theorem two_sources_of_one_name_become_one:
  assumes "sp_customer b = sp_customer a" "sp_name b = sp_name a" "sp_protocol b = sp_protocol a" "sp_roots a = None" "sp_roots b = None"
    and "typed_credential credentials a \<noteq> Some []" "\<exists>c. typed_credential credentials b = Some c \<and> c \<noteq> []"
    and "sp_customer a \<noteq> None \<longrightarrow> spec_customer cids a \<noteq> None" "named_sources (spec_customer cids a) (sp_name a) d = []"
    and "sources_keyed d" "decrypts CE"
  shows "(\<exists>items. import_sources CE False u limit cids fids credentials [a, b] d = (items, [], d) \<and> map pi_action items = [PlanCreate, PlanCreate]) \<and>
    (\<exists>items d1 s. import_sources CE True u limit cids fids credentials [a, b] d = (items, [], d1) \<and>
      named_sources (spec_customer cids a) (sp_name a) d1 = [s] \<and> wanted_source b (spec_folder fids b) s = s)"
    (is "?preview \<and> ?applied")
proof -
  have same: "spec_customer cids b = spec_customer cids a" by (simp add: spec_customer_def assms(1))
  have known: "sp_customer b \<noteq> None \<longrightarrow> spec_customer cids b \<noteq> None" using assms(8) by (simp add: same assms(1))
  have none: "named_sources (spec_customer cids b) (sp_name b) d = []" using assms(9) by (simp add: same assms(2))
  note makes_a = import_source_create [OF assms(8,9,4)]
  note makes_b = import_source_create [OF known none assms(5)]
  have plans: "\<exists>item. import_new_source CE False u spec cid fid c d = (item, d) \<and> pi_action item = PlanCreate" for spec cid fid c
    by (simp add: import_new_source_def Let_def)
  obtain ia ib where "import_source CE False u limit cids fids credentials a d = Inr (ia, d)" "pi_action ia = PlanCreate"
    "import_source CE False u limit cids fids credentials b d = Inr (ib, d)" "pi_action ib = PlanCreate"
    using plans makes_a [where applied = False] makes_b [where applied = False] by metis
  then have ?preview by simp
  obtain item d0 where step: "import_source CE True u limit cids fids credentials a d = Inr (item, d0)"
    using makes_a [where applied = True] by (metis surj_pair)
  from spec_applied [OF step assms(10,11,8,6)] have a: "settled CE cids fids credentials a d0" "sources_keyed d0" by simp_all
  from a(1) obtain s where s: "named_sources (spec_customer cids b) (sp_name b) d0 = [s]" "s_protocol s = sp_protocol b"
    by (auto simp: settled_def same assms(2,3))
  from assms(7) have typed: "typed_credential credentials b \<noteq> None" "typed_credential credentials b \<noteq> Some []" by auto
  obtain item2 d1 where step2: "import_source CE True u limit cids fids credentials b d0 = Inr (item2, d1)"
    by (rule import_source_update [OF known s(1) _ s(2)]) (use typed(1) assms(5) in auto)
  from spec_applied [OF step2 a(2) assms(11) known typed(2)] have "settled CE cids fids credentials b d1" by simp
  then have ?applied using step step2 by (auto simp: settled_def same assms(2))
  with \<open>?preview\<close> show ?thesis by blast
qed

text \<open>
  A preview misses the move of a source into a folder the file adds. For a source that stands at the top level of its
  customer and a file that puts it, with nothing else changed, into a new folder, the preview says the source
  is unchanged; applied, the import moves it.
\<close>

theorem preview_misses_a_move:
  assumes "pa_problems p = []" "pa_customers p = [c]" "pa_folders p = [(c, [f])]" "pa_sources p = [spec]"
    and "sp_customer spec = Some c" "c \<noteq> ''''" "sp_folders spec = [f]" "typed_credential credentials spec \<noteq> Some []"
    and "max_roots d = Inr limit" "find (\<lambda>x. c_name x = c) (customers d) = Some cu"
    and "find (\<lambda>x. Some (f_customer_id x) = Some (c_id cu) \<and> f_parent x = None \<and> f_name x = f) (folders d) = None"
    and "settled CE [(c, Some (c_id cu))] [] credentials spec d" "sources_keyed d" "decrypts CE"
  shows "(\<exists>items. run_import CE p credentials False u d = Inr (items, [], d) \<and>
      map pi_action items = [PlanUnchanged, PlanCreate, PlanUnchanged]) \<and>
    (\<exists>items d1 s. run_import CE p credentials True u d = Inr (items, [], d1) \<and>
      map pi_action items = [PlanUnchanged, PlanCreate, PlanUpdate] \<and>
      named_sources (Some (c_id cu)) (sp_name spec) d1 = [s] \<and> s_folder_id s = Some (folder_seq d + 1))" (is "?preview \<and> ?applied")
proof -
  let ?cids = "[(c, Some (c_id cu))]" and ?item = "plain_item PlanUnchanged CustomerItem c"
  let ?place = "plain_item PlanCreate FolderItem (join_str '' / '' [c, f])"
  have cid: "spec_customer ?cids spec = Some (c_id cu)" by (simp add: spec_customer_def assms(5,6) id_of_def)
  have limit: "1 \<le> limit" by (rule max_roots_facts(2) [OF assms(9)])
  have cs: "import_customers CE applied u [] [c] d = (?cids, [?item], d)" for applied
    by (simp add: import_customer_def assms(10))
  have dry: "import_folders CE False u ?cids [] [(c, [f])] d = ([((c, [f]), None)], [?place], d)"
    using assms(11) by (simp add: import_folder_def Let_def id_of_def)
  have "settled CE ?cids [((c, [f]), None)] credentials spec d"
    using assms(12) by (simp add: settled_def spec_folder_def assms(5,7) id_of_def)
  from settled_unchanged [OF this limit, of False u] cid
  obtain item where "import_source CE False u limit ?cids [((c, [f]), None)] credentials spec d = Inr (item, d)" "pi_action item = PlanUnchanged"
    by auto
  then have "import_sources CE False u limit ?cids [((c, [f]), None)] credentials [spec] d = ([item], [], d)" by simp
  from run_import_compose [OF assms(1,9), unfolded assms(2-4), OF cs dry this] \<open>pi_action item = PlanUnchanged\<close>
  have ?preview by (simp add: plain_item_def)
  let ?fids = "[((c, [f]), Some (folder_seq d + 1))]"
  obtain d2 where new: "import_folders CE True u ?cids [] [(c, [f])] d = (?fids, [?place], d2)" "rest_same d d2"
    using assms(11) by (simp add: import_folder_def Let_def id_of_def rest_same_def)
  have keyed: "sources_keyed d2" using new(2) assms(13) by (simp add: rest_same_def sources_keyed_def)
  from assms(12) obtain s where s: "named_sources (Some (c_id cu)) (sp_name spec) d = [s]"
    "wanted_source spec None s = s" "s_protocol s = sp_protocol spec" by (auto simp: settled_def cid spec_folder_def assms(5,7) id_of_def)
  from s(2) have fields: "sp_host spec = s_host s" "sp_port spec = s_port s" "sp_roots spec = s_roots s" "s_folder_id s = None"
    by (cases s; simp add: wanted_source_def)+
  have s2: "named_sources (spec_customer ?cids spec) (sp_name spec) d2 = [s]"
    using s(1) new(2) unfolding cid by (simp add: named_sources_def rest_same_def)
  obtain item d3 where step: "import_source CE True u limit ?cids ?fids credentials spec d2 = Inr (item, d3)"
      "pi_action item = PlanUpdate \<or> pi_action item = PlanUnchanged \<and> d3 = d2"
    by (rule import_source_update [OF _ s2 _ s(3)]) (use cid fields limit in auto)
  from spec_applied [OF step(1) keyed assms(14) _ assms(8)] cid have "settled CE ?cids ?fids credentials spec d3" by simp
  then obtain s3 where s3: "named_sources (Some (c_id cu)) (sp_name spec) d3 = [s3]" "wanted_source spec (Some (folder_seq d + 1)) s3 = s3"
    by (auto simp: settled_def cid spec_folder_def assms(5,7) id_of_def)
  then have folder: "s_folder_id s3 = Some (folder_seq d + 1)" by (cases s3) (simp add: wanted_source_def)
  with fields(4) s2 s3(1) cid have "d3 \<noteq> d2" by auto
  with step(2) have "pi_action item = PlanUpdate" by blast
  have "import_sources CE True u limit ?cids ?fids credentials [spec] d2 = ([item], [], d3)" using step(1) by simp
  from run_import_compose [OF assms(1,9), unfolded assms(2-4), OF cs new(1) this] \<open>pi_action item = PlanUpdate\<close> s3(1) folder
  have ?applied by (simp add: plain_item_def)
  with \<open>?preview\<close> show ?thesis by blast
qed

section \<open>Witnesses\<close>

instance json :: countable
  by countable_datatype

text \<open>
  A file with the customer of the sample database, a folder of it and two sources, one as the database has it up to the
  folder it stands in. The cipher writes a credential's number in unary.
\<close>

definition source_node :: "string \<Rightarrow> yaml" where
  "source_node name = YMap [(''name'', YStr name), (''protocol'', YStr ''ssh''), (''host'', YStr ''h''), (''base_path'', YStr ''/var/log'')]"

definition config_file :: yaml where
  "config_file = YMap [(''version'', YInt 1), (''customers'', YList
     [YMap [(''name'', YStr ''acme''),
            (''folders'', YList [YMap [(''name'', YStr ''outer''), (''sources'', YList [source_node ''new''])]]),
            (''sources'', YList [source_node ''srv''])]])]"

definition config_sample :: config_env where
  "config_sample = \<lparr>ce_source = sample_se\<lparr>se_encrypt := (\<lambda>c. replicate (to_nat c) CHR ''x'')\<rparr>, ce_load = (\<lambda>_. Inr config_file),
     ce_dump = (\<lambda>_. ''''), ce_environ = (\<lambda>_. None), ce_repr = (\<lambda>_. ''''), ce_re_ok = (\<lambda>_. True), ce_decrypt = (\<lambda>s. from_nat (length s))\<rparr>"

definition config_db :: db where
  "config_db = sample_db\<lparr>roles := [operator_role\<lparr>ro_is_super_admin := True\<rparr>]\<rparr>"

definition ssh_spec :: "string \<Rightarrow> string \<Rightarrow> string list \<Rightarrow> source_spec" where
  "ssh_spec place name path =
     \<lparr>sp_where = place, sp_key = source_key (Some ''acme'') path name, sp_customer = Some ''acme'', sp_folders = path, sp_name = name,
      sp_protocol = Ssh, sp_host = ''h'', sp_port = None, sp_base_path = ''/var/log'', sp_roots = None, sp_enabled = True,
      sp_search_indexing_enabled = False, sp_credential = None, sp_rules = None, sp_winrm_scheme = None, sp_tls_ca_pem = None\<rparr>"

lemma config_sample_decrypts: "decrypts config_sample"
  by (simp add: decrypts_def config_sample_def)

lemma base_path_sample: "validate_base_path (sample_se\<lparr>se_encrypt := f\<rparr>) Ssh ''/var/log'' = Inr ''/var/log''"
proof -
  have "validate_base_path (sample_se\<lparr>se_encrypt := f\<rparr>) Ssh p = validate_base_path sample_se Ssh p" for p
    by (simp add: validate_base_path_def)
  moreover have "validate_base_path sample_se Ssh ''/var/log'' = Inr ''/var/log''" by code_simp
  ultimately show ?thesis by simp
qed

lemma ca_sample: "validate_ca_pem SE Ssh None = Inr None"
  by (simp add: validate_ca_pem_def)

lemma parse_node:
  assumes "strip name = name" "name \<noteq> ''''"
  shows "parse_source config_sample (source_node name) (Some ''acme'') path place = nothing\<lparr>pa_sources := [ssh_spec place name path]\<rparr>"
proof -
  have "strip ''h'' = ''h''" "validate_winrm_scheme Ssh None = Inr None" by code_simp+
  then show ?thesis
    using assms by (simp add: parse_source_def source_node_def unknown_keys_def source_keys_def source_spec_of_def given_name_def yget_def yget_or_def
        protocol_of_def parse_port_def parse_flag_def parse_paths_def parse_tls_def parse_credential_def parse_rules_def
        map_error_def base_path_sample ca_sample config_sample_def ssh_spec_def and_then_def nothing_def)
qed

lemma walk_sample:
  "walk config_sample (YMap [(''name'', YStr ''acme''),
       (''folders'', YList [YMap [(''name'', YStr ''outer''), (''sources'', YList [source_node ''new''])]]),
       (''sources'', YList [source_node ''srv''])]) ''acme'' [] ''customers[0]'' =
     \<lparr>pa_customers = [], pa_folders = [(''acme'', [''outer''])],
      pa_sources = [ssh_spec ''customers[0].sources[0]'' ''srv'' [], ssh_spec ''customers[0].folders[0].sources[0]'' ''new'' [''outer'']],
      pa_problems = []\<rparr>"
proof -
  have names: "strip ''srv'' = ''srv''" "strip ''new'' = ''new''" "strip ''outer'' = ''outer''" "show_nat 0 = ''0''" by code_simp+
  show ?thesis
    by (subst walk.simps, simp add: yaml_get_def yget_def as_list_def container_name_def given_name_def unknown_keys_def container_keys_def names parse_node,
        subst walk.simps, simp add: yaml_get_def yget_def as_list_def names parse_node and_then_def nothing_def)
qed

lemma parse_sample:
  "parse config_sample '''' = \<lparr>pa_customers = [''acme''], pa_folders = [(''acme'', [''outer''])],
     pa_sources = [ssh_spec ''customers[0].sources[0]'' ''srv'' [], ssh_spec ''customers[0].folders[0].sources[0]'' ''new'' [''outer'']],
     pa_problems = []\<rparr>"
proof -
  have names: "strip ''acme'' = ''acme''" "show_nat 0 = ''0''" by code_simp+
  have keys: "source_key (Some ''acme'') [''outer''] ''new'' \<noteq> source_key (Some ''acme'') [] ''srv''" by code_simp
  have "ce_load config_sample '''' = Inr config_file" by (simp add: config_sample_def)
  then show ?thesis
    by (simp add: parse_def utf8_length_def config_file_def parse_doc_def yget_def as_list_def unknown_keys_def version_ok_def schema_version_def
        container_name_def container_keys_def given_name_def names walk_sample max_sources_def)
       (simp add: and_then_def nothing_def ssh_spec_def keys)
qed

abbreviation (input) sample_fids :: folder_ids where
  "sample_fids \<equiv> [((''acme'', [''outer'']), Some 1)]"

abbreviation (input) srv_spec :: source_spec where
  "srv_spec \<equiv> ssh_spec ''customers[0].sources[0]'' ''srv'' []"

abbreviation (input) new_spec :: source_spec where
  "new_spec \<equiv> ssh_spec ''customers[0].folders[0].sources[0]'' ''new'' [''outer'']"

lemma config_db_facts:
  "max_roots config_db = Inr 20" "require_super_admin_user config_db operator = Inr ()" "customers_ok config_db" "sources_keyed config_db"
  "named_sources (Some 1) ''srv'' config_db = [sample_source]" "named_sources (Some 1) ''new'' config_db = []"
  "spec_customer [(''acme'', Some 1)] (ssh_spec w n p) = Some 1" "one_name_each (parse config_sample '''')"
  "typed_credential [] (ssh_spec w n p) = None" "sp_customer (ssh_spec w n p) = Some ''acme''" "sp_name (ssh_spec w n p) = n"
  "sp_roots (ssh_spec w n p) = None" "sp_host (ssh_spec w n p) = ''h''" "sp_port (ssh_spec w n p) = None" "sp_protocol (ssh_spec w n p) = Ssh"
proof -
  show "max_roots config_db = Inr 20" "require_super_admin_user config_db operator = Inr ()" by code_simp+
  show "customers_ok config_db" "sources_keyed config_db"
    by (simp_all add: customers_ok_def sources_keyed_def config_db_def sample_db_def empty_db_def sample_source_def)
  show "named_sources (Some 1) ''srv'' config_db = [sample_source]" "named_sources (Some 1) ''new'' config_db = []"
    by (simp_all add: named_sources_def config_db_def sample_db_def sample_source_def)
  show "one_name_each (parse config_sample '''')" by (simp add: one_name_each_def parse_sample ssh_spec_def)
qed (simp_all add: spec_customer_def ssh_spec_def id_of_def typed_credential_def)

lemma config_places:
  "import_customers config_sample applied u [] [''acme''] config_db =
     ([(''acme'', Some 1)], [plain_item PlanUnchanged CustomerItem ''acme''], config_db)"
  "import_folders config_sample applied u [(''acme'', Some 1)] [] [(''acme'', [''outer''])] config_db =
     (sample_fids, [plain_item PlanUnchanged FolderItem (join_str '' / '' [''acme'', ''outer''])], config_db)"
  by (simp_all add: import_customer_def import_folder_def config_db_def sample_db_def outer_folder_def inner_folder_def id_of_def)

lemma config_sources:
  obtains items d1 where "import_sources config_sample applied u 20 [(''acme'', Some 1)] sample_fids [] [srv_spec, new_spec] config_db = (items, [], d1)"
proof -
  let ?cids = "[(''acme'', Some 1)]"
  note F = config_db_facts
  obtain item d0 where a: "import_source config_sample applied u 20 ?cids sample_fids [] srv_spec config_db = Inr (item, d0)"
    by (rule import_source_update [of srv_spec ?cids config_db sample_source]) (simp_all add: F sample_source_def)
  have "named_sources (Some 1) ''new'' d0 = []"
  proof (cases applied)
    case True
    with spec_applied [of config_sample u 20 ?cids sample_fids "[]" srv_spec config_db item d0] a F(4,6) config_sample_decrypts
    show ?thesis by (simp add: F(7-) others_same_def)
  next
    case False
    with a have "import_source config_sample False u 20 ?cids sample_fids [] srv_spec config_db = Inr (item, d0)" by simp
    from import_source_dry [OF this] F(6) show ?thesis by simp
  qed
  then have "\<exists>item d1. import_source config_sample applied u 20 ?cids sample_fids [] new_spec d0 = Inr (item, d1)"
    by (simp add: import_source_create F)
  with a that show ?thesis by (auto split: prod.splits)
qed

lemma import_source_kind:
  assumes "import_source CE applied u limit cids fids credentials spec d = Inr (item, d1)"
  shows "pi_kind item = SourceItem"
  using assms
  by (auto simp: import_source_def import_new_source_def import_existing_source_def bindE_Inr_iff Let_def split: list.splits if_splits)

lemma import_sources_kinds:
  "import_sources CE applied u limit cids fids credentials specs d = (items, problems, d1) \<Longrightarrow> no_new_places items"
proof (induction specs arbitrary: d items problems)
  case (Cons spec specs)
  then show ?case using import_source_kind by (fastforce split: sum.splits prod.splits)
qed simp

lemma config_import:
  obtains r d1 where "import_config config_sample operator '''' dry [] config_db = Inr (r, d1)" "ir_problems r = []" "no_new_places (ir_items r)"
proof -
  obtain items d1 where src: "import_sources config_sample (\<not> dry) (Some (u_id operator)) 20 [(''acme'', Some 1)] sample_fids [] [srv_spec, new_spec] config_db = (items, [], d1)"
    by (rule config_sources)
  have "no_new_places items" by (rule import_sources_kinds [OF src])
  moreover have "run_import config_sample (parse config_sample '''') [] (\<not> dry) (Some (u_id operator)) config_db =
      Inr ([plain_item PlanUnchanged CustomerItem ''acme''] @ [plain_item PlanUnchanged FolderItem (join_str '' / '' [''acme'', ''outer''])] @ items, [], d1)"
    by (rule run_import_compose [OF _ config_db_facts(1), of _ _ "\<not> dry" _ "[(''acme'', Some 1)]" _ config_db sample_fids _ config_db])
       (simp_all only: parse_sample parsed.simps config_places src)
  ultimately show ?thesis
    by (intro that, simp add: import_config_def map_error_def config_db_facts(2) requireE_def Let_def kept_credentials_def)
       (simp_all add: plain_item_def)
qed

theorem importing_a_file_again_changes_nothing_witness:
  "\<exists>r d1 r' d2. import_config config_sample operator '''' False [] config_db = Inr (r, d1) \<and>
    import_config config_sample operator '''' True [] d1 = Inr (r', d2) \<and>
    list_all (\<lambda>i. pi_action i = PlanUnchanged) (ir_items r') \<and> same_config d1 d2"
proof -
  obtain r d1 where "import_config config_sample operator '''' False [] config_db = Inr (r, d1)" "ir_problems r = []" by (rule config_import)
  from importing_a_file_again_changes_nothing [OF this config_db_facts(8,3,4) config_sample_decrypts, of True] this(1)
  show ?thesis by blast
qed

theorem import_leaves_the_rest_alone_witness:
  "\<exists>r d1. import_config config_sample operator '''' False [] config_db = Inr (r, d1) \<and> 10 \<in> set (map s_id (sources d1)) \<and>
    set (folders config_db) \<subseteq> set (folders d1)"
proof -
  obtain r d1 where "import_config config_sample operator '''' False [] config_db = Inr (r, d1)" by (rule config_import)
  from import_leaves_the_rest_alone [OF this config_db_facts(4)] this show ?thesis
    by (auto simp: config_db_def sample_db_def sample_source_def)
qed

theorem the_preview_is_what_applying_does_witness:
  "\<exists>r d1 d2. import_config config_sample operator '''' True [] config_db = Inr (r, d1) \<and>
    import_config config_sample operator '''' False [] config_db = Inr (r\<lparr>ir_applied := (ir_problems r = [])\<rparr>, d2)"
proof -
  obtain r d1 where "import_config config_sample operator '''' True [] config_db = Inr (r, d1)" "no_new_places (ir_items r)"
    by (rule config_import)
  from the_preview_is_what_applying_does [OF this config_db_facts(8,3,4) config_sample_decrypts] this show ?thesis by blast
qed

theorem two_sources_of_one_name_become_one_witness:
  "let specs = [(ssh_spec ''a'' ''new'' [''x''])\<lparr>sp_host := ''h1'', sp_credential := Some [(''username'', JStr ''u'')]\<rparr>,
                (ssh_spec ''b'' ''new'' [''outer''])\<lparr>sp_host := ''h2'', sp_credential := Some [(''username'', JStr ''u'')]\<rparr>];
       cids = [(''acme'', Some 1)]
   in (\<exists>items. import_sources config_sample False None 20 cids sample_fids [] specs config_db = (items, [], config_db) \<and>
         map pi_action items = [PlanCreate, PlanCreate]) \<and>
      (\<exists>items d1 s. import_sources config_sample True None 20 cids sample_fids [] specs config_db = (items, [], d1) \<and>
         named_sources (Some 1) ''new'' d1 = [s] \<and> s_host s = ''h2'')"
proof -
  let ?a = "(ssh_spec ''a'' ''new'' [''x''])\<lparr>sp_host := ''h1'', sp_credential := Some [(''username'', JStr ''u'')]\<rparr>"
  let ?b = "(ssh_spec ''b'' ''new'' [''outer''])\<lparr>sp_host := ''h2'', sp_credential := Some [(''username'', JStr ''u'')]\<rparr>"
  have cid: "spec_customer [(''acme'', Some 1)] ?a = Some 1" by (simp add: spec_customer_def ssh_spec_def id_of_def)
  have host: "s_host s = ''h2''" if "wanted_source ?b i s = s" for i s using that by (cases s) (simp add: wanted_source_def)
  have "typed_credential [] ?a = Some [(''username'', JStr ''u'')]" "typed_credential [] ?b = Some [(''username'', JStr ''u'')]"
    by (simp_all add: typed_credential_def)
  with two_sources_of_one_name_become_one [of ?b ?a "[]" "[(''acme'', Some 1)]" config_db config_sample None 20 sample_fids]
  show ?thesis unfolding cid Let_def by (simp only: config_db_facts) (use host config_sample_decrypts config_db_facts in auto)
qed

theorem preview_misses_a_move_witness:
  "let p = \<lparr>pa_customers = [''acme''], pa_folders = [(''acme'', [''x''])], pa_sources = [ssh_spec ''a'' ''srv'' [''x'']], pa_problems = []\<rparr>;
       d = config_db\<lparr>sources := [sample_source\<lparr>s_folder_id := None\<rparr>]\<rparr>
   in \<exists>items items' d1. run_import config_sample p [] False None d = Inr (items, [], d) \<and> pi_action (last items) = PlanUnchanged \<and>
        run_import config_sample p [] True None d = Inr (items', [], d1) \<and> pi_action (last items') = PlanUpdate"
proof -
  let ?spec = "ssh_spec ''a'' ''srv'' [''x'']" and ?d = "config_db\<lparr>sources := [sample_source\<lparr>s_folder_id := None\<rparr>]\<rparr>"
  let ?p = "\<lparr>pa_customers = [''acme''], pa_folders = [(''acme'', [''x''])], pa_sources = [?spec], pa_problems = []\<rparr>"
  let ?c = "\<lparr>c_id = 1, c_name = ''acme''\<rparr>"
  have "max_roots ?d = Inr 20" by code_simp
  moreover have "find (\<lambda>x. c_name x = ''acme'') (customers ?d) = Some ?c"
    "find (\<lambda>x. Some (f_customer_id x) = Some (c_id ?c) \<and> f_parent x = None \<and> f_name x = ''x'') (folders ?d) = None"
    by (simp_all add: config_db_def sample_db_def outer_folder_def inner_folder_def)
  moreover have "settled config_sample [(''acme'', Some (c_id ?c))] [] [] ?spec ?d"
    by (simp add: settled_def config_db_facts named_sources_def)
       (simp add: sample_source_def wanted_source_def ssh_spec_def spec_folder_def id_of_def new_rules_def new_credential_def)
  moreover have "sources_keyed ?d" by (simp add: sources_keyed_def config_db_def sample_db_def sample_source_def)
  ultimately have "(\<exists>items. run_import config_sample ?p [] False None ?d = Inr (items, [], ?d) \<and>
        map pi_action items = [PlanUnchanged, PlanCreate, PlanUnchanged]) \<and>
      (\<exists>items d1 s. run_import config_sample ?p [] True None ?d = Inr (items, [], d1) \<and>
        map pi_action items = [PlanUnchanged, PlanCreate, PlanUpdate] \<and>
        named_sources (Some (c_id ?c)) (sp_name ?spec) d1 = [s] \<and> s_folder_id s = Some (folder_seq ?d + 1))"
    by (intro preview_misses_a_move [of ?p "''acme''" "''x''" ?spec "[]" ?d 20 ?c])
       (simp_all add: config_db_facts(9) config_sample_decrypts, simp_all add: ssh_spec_def)
  then obtain items items' d1 where ran: "run_import config_sample ?p [] False None ?d = Inr (items, [], ?d)"
    "map pi_action items = [PlanUnchanged, PlanCreate, PlanUnchanged]" "run_import config_sample ?p [] True None ?d = Inr (items', [], d1)"
    "map pi_action items' = [PlanUnchanged, PlanCreate, PlanUpdate]" by (elim conjE exE) (rule that)
  moreover from ran have "pi_action (last items) = PlanUnchanged" "pi_action (last items') = PlanUpdate"
    by (auto simp: map_eq_Cons_conv)
  ultimately show ?thesis unfolding Let_def by blast
qed

end
