(* ===== verification/ConfigExport.thy ===== *)
theory ConfigExport
  imports ConfigImport
begin

text \<open>
  The export of \<open>app/config_transfer.py\<close> and \<open>app/api/config_transfer.py\<close>: the configuration as a tree for the YAML
  library, and what an import reads from that tree.
\<close>

section \<open>One source\<close>

definition rule_text :: "rule \<Rightarrow> string" where
  "rule_text r = (if r_kind r = Regex then ''re:'' @ r_pattern r else r_pattern r)"

definition rule_out :: "rule \<Rightarrow> yaml" where
  "rule_out r =
     (case notes_or_none (r_notes r) of
        Some n \<Rightarrow> YMap [(''type'', YStr (rule_type_value (r_type r))), (''pattern'', YStr (rule_text r)), (''notes'', YStr n)]
      | None \<Rightarrow> YStr (rule_type_value (r_type r) @ '' '' @ rule_text r))"

text \<open>A key that is only written for some sources.\<close>

definition opt_pair :: "string \<Rightarrow> yaml option \<Rightarrow> (string \<times> yaml) list" where
  "opt_pair key v = (case v of None \<Rightarrow> [] | Some x \<Rightarrow> [(key, x)])"

definition source_out :: "db \<Rightarrow> source \<Rightarrow> yaml" where
  "source_out d s =
     YMap ([(''name'', YStr (s_name s)), (''protocol'', YStr (protocol_value (s_protocol s))), (''host'', YStr (s_host s))] @
       opt_pair ''port'' (case s_port s of None \<Rightarrow> None | Some n \<Rightarrow> if n = 0 then None else Some (YInt n)) @
       (if is_multi_root s
        then [(''roots'', YList (map (\<lambda>r. YMap [(''label'', YStr (root_label r)), (''path'', YStr (root_path r))]) (roots_of s)))]
        else [(''base_path'', YStr (s_base_path s))]) @
       opt_pair ''winrm_scheme''
         (if s_protocol s = Winrm \<and> s_winrm_scheme s \<noteq> Some '''' then map_option YStr (s_winrm_scheme s) else None) @
       opt_pair ''tls_ca_pem'' (if s_tls_ca_pem s \<noteq> Some '''' then map_option YStr (s_tls_ca_pem s) else None) @
       opt_pair ''enabled'' (if s_enabled s then None else Some (YBool False)) @
       opt_pair ''search_indexing_enabled'' (if s_search_indexing_enabled s then Some (YBool True) else None) @
       [(''rules'', YList (map rule_out (sort_key r_order (rules_for d (s_id s)))))])"

section \<open>The tree\<close>

definition exported_sources :: "db \<Rightarrow> source list" where
  "exported_sources d = filter (\<lambda>s. \<not> s_is_system s) (sources d)"

definition sources_key :: "string \<Rightarrow> db \<Rightarrow> source list \<Rightarrow> (string \<times> yaml) list" where
  "sources_key key d ss =
     (if ss = [] then [] else [(key, YList (map (source_out d) (sort_key (\<lambda>s. lower (s_name s)) ss)))])"

definition folders_key :: "yaml list \<Rightarrow> (string \<times> yaml) list" where
  "folders_key nodes = (if nodes = [] then [] else [(''folders'', YList nodes)])"

definition child_folders :: "db \<Rightarrow> int option \<Rightarrow> folder list" where
  "child_folders d parent = sort_key (\<lambda>f. lower (f_name f)) (filter (\<lambda>f. f_parent f = parent) (folders d))"

fun all_some :: "'a option list \<Rightarrow> 'a list option" where
  "all_some [] = Some []"
| "all_some (None # xs) = None"
| "all_some (Some x # xs) = map_option (\<lambda>ys. x # ys) (all_some xs)"

text \<open>The recursion of \<open>folder_out\<close>, to a depth.\<close>

fun folder_out :: "nat \<Rightarrow> db \<Rightarrow> folder \<Rightarrow> yaml option" where
  "folder_out 0 d f = None"
| "folder_out (Suc n) d f =
     (case all_some (map (folder_out n d) (child_folders d (Some (f_id f)))) of
        None \<Rightarrow> None
      | Some nodes \<Rightarrow>
          Some (YMap ((''name'', YStr (f_name f)) # folders_key nodes @
            sources_key ''sources'' d (filter (\<lambda>s. s_folder_id s = Some (f_id f)) (exported_sources d)))))"

definition customer_out :: "db \<Rightarrow> customer \<Rightarrow> yaml option" where
  "customer_out d c =
     (case all_some (map (folder_out (length (folders d)) d) (filter (\<lambda>f. f_customer_id f = c_id c) (child_folders d None))) of
        None \<Rightarrow> None
      | Some nodes \<Rightarrow>
          Some (YMap ((''name'', YStr (c_name c)) # folders_key nodes @
            sources_key ''sources'' d
              (filter (\<lambda>s. s_folder_id s = None \<and> s_customer_id s = Some (c_id c)) (exported_sources d)))))"

definition export_doc :: "db \<Rightarrow> yaml option" where
  "export_doc d =
     (case all_some (map (customer_out d) (sort_key (\<lambda>c. lower (c_name c)) (customers d))) of
        None \<Rightarrow> None
      | Some nodes \<Rightarrow>
          Some (YMap ([(''version'', YInt schema_version), (''customers'', YList nodes)] @
            sources_key ''sources'' d (filter (\<lambda>s. s_customer_id s = None) (exported_sources d)))))"

definition export_header :: string where
  "export_header =
     ''# PerchTail configuration export (see docs/bulk-import.md).'' @ [CHR 0x0A] @
     ''# Credentials are never exported: re-importing this file keeps the'' @ [CHR 0x0A] @
     ''# credential each existing source already has. For new sources, add a'' @ [CHR 0x0A] @
     ''# credential block or type it in the import screen.'' @ [CHR 0x0A]"

definition export :: "config_env \<Rightarrow> db \<Rightarrow> string option" where
  "export CE d = map_option (\<lambda>doc. export_header @ ce_dump CE doc) (export_doc d)"

text \<open>The endpoint; \<open>None\<close> stands for a recursion without end.\<close>

definition export_config :: "config_env \<Rightarrow> user \<Rightarrow> db \<Rightarrow> (string \<times> db) outcome" where
  "export_config CE u d =
     bindO (Some (require_super_admin_user d u)) (\<lambda>_.
     bindO (map_option Inr (export CE d)) (\<lambda>txt.
     Some (Inr (txt, record_audit_event (se_env (ce_source CE)) d d (Some (u_id u)) ''config.export'' None None None))))"

section \<open>The export always ends\<close>

lemma all_some_Some: "(\<And>x. x \<in> set xs \<Longrightarrow> x \<noteq> None) \<Longrightarrow> all_some xs \<noteq> None"
proof (induction xs)
  case (Cons x xs)
  then obtain y where "x = Some y" by fastforce
  with Cons show ?case by simp
qed simp

lemma chain_below:
  assumes "distinct (map f_id fs)" "f \<in> set fs" "chain fs (f_parent f) l"
  shows "chain fs (Some (f_id f)) (f # l)"
proof -
  from tbl_get_in [OF assms(2), of f_id] obtain g where g: "tbl_get f_id (f_id f) fs = Some g" by blast
  from tbl_get_Some [OF g] have "g = f" using same_id [OF assms(1) _ assms(2), of g] by simp
  with g assms(3) show ?thesis by (simp add: chain_Some)
qed

lemma folder_out_ends:
  assumes "distinct (map f_id (folders d))" "f \<in> set (folders d)" "chain (folders d) (f_parent f) l" "length (folders d) \<le> n + length l"
  shows "folder_out n d f \<noteq> None"
  using assms(2-4)
proof (induction n arbitrary: f l)
  case 0
    note c = chain_below [OF assms(1) 0(1,2)]
    have "set (f # l) \<subseteq> set (folders d)"
    proof
      fix g assume "g \<in> set (f # l)"
      from tbl_get_Some [OF chain_member [OF c this]] show "g \<in> set (folders d)" ..
    qed
    then have "card (set (map f_id (f # l))) \<le> card (set (folders d))"
      by (metis card_image_le card_mono finite_set le_trans list.set_map)
    also have "\<dots> \<le> length (folders d)" by (rule card_length)
    also have "card (set (map f_id (f # l))) = length (f # l)" using chain_distinct [OF c] by (metis distinct_card length_map)
    finally show ?case using 0(3) by simp
  next
    case (Suc n)
    have "folder_out n d g \<noteq> None" if "g \<in> set (child_folders d (Some (f_id f)))" for g
      using that Suc.IH [of g "f # l"] chain_below [OF assms(1) Suc.prems(1,2)] Suc.prems(3) by (simp add: child_folders_def)
    then have "all_some (map (folder_out n d) (child_folders d (Some (f_id f)))) \<noteq> None" by (intro all_some_Some) auto
    then show ?case by auto
qed

text \<open>
  C37: The export always returns: with unique folder ids its recursion over the folders ends, whatever their parents.
\<close>

theorem the_export_always_ends:
  assumes "distinct (map f_id (folders d))" "require_super_admin_user d u = Inr ()"
  shows "\<exists>doc d1. export_config CE u d = Some (Inr (export_header @ ce_dump CE doc, d1)) \<and> export_doc d = Some doc"
proof -
  have "customer_out d c \<noteq> None" for c
  proof -
    have "folder_out (length (folders d)) d f \<noteq> None" if "f \<in> set (filter (\<lambda>f. f_customer_id f = c_id c) (child_folders d None))" for f
      using that folder_out_ends [OF assms(1), of f "[]"] by (simp add: child_folders_def)
    then have "all_some (map (folder_out (length (folders d)) d) (filter (\<lambda>f. f_customer_id f = c_id c) (child_folders d None))) \<noteq> None"
      by (intro all_some_Some) auto
    then show ?thesis by (auto simp: customer_out_def)
  qed
  then have "all_some (map (customer_out d) (sort_key (\<lambda>c. lower (c_name c)) (customers d))) \<noteq> None" by (intro all_some_Some) auto
  then obtain doc where "export_doc d = Some doc" by (auto simp: export_doc_def)
  then show ?thesis by (simp add: export_config_def export_def assms(2))
qed

section \<open>What an import reads from an exported source\<close>

text \<open>A rule whose text the import reads back, and a source whose values pass the checks of the import unchanged.\<close>

definition rule_reads_back :: "config_env \<Rightarrow> rule \<Rightarrow> bool" where
  "rule_reads_back CE r \<longleftrightarrow>
     rule_text r \<noteq> '''' \<and> strip (rule_text r) = rule_text r \<and> \<not> (notes_or_none (r_notes r) = None \<and> quoted_pattern (rule_text r)) \<and>
     (if r_kind r = Regex then ce_re2 CE (r_pattern r) False \<noteq> None else \<not> prefix ''re:'' (r_pattern r))"

definition paths_read_back :: "config_env \<Rightarrow> source \<Rightarrow> bool" where
  "paths_read_back CE s \<longleftrightarrow>
     (case s_roots s of
        None \<Rightarrow> s_protocol s = Agent \<or> validate_base_path (ce_source CE) (s_protocol s) (s_base_path s) = Inr (s_base_path s)
      | Some rs \<Rightarrow>
          is_multi_root s \<and> validate_roots (ce_source CE) (s_protocol s) rs hard_max_roots = Inr (Some rs) \<and>
          s_base_path s = root_path (hd rs))"

definition tls_reads_back :: "config_env \<Rightarrow> source \<Rightarrow> bool" where
  "tls_reads_back CE s \<longleftrightarrow>
     (if s_protocol s = Winrm then s_winrm_scheme s \<in> {Some ''https'', Some ''http''} else s_winrm_scheme s = None) \<and>
     s_tls_ca_pem s \<noteq> Some '''' \<and> validate_ca_pem (ce_source CE) (s_protocol s) (s_tls_ca_pem s) = Inr (s_tls_ca_pem s)"

definition reads_back :: "config_env \<Rightarrow> db \<Rightarrow> source \<Rightarrow> bool" where
  "reads_back CE d s \<longleftrightarrow>
     s_name s \<noteq> '''' \<and> strip (s_name s) = s_name s \<and> s_host s \<noteq> '''' \<and> strip (s_host s) = s_host s \<and>
     (case s_port s of None \<Rightarrow> True | Some n \<Rightarrow> 0 < n \<and> n < 65536) \<and>
     paths_read_back CE s \<and> tls_reads_back CE s \<and> list_all (rule_reads_back CE) (rules_for d (s_id s))"

lemma partition_word: "list_all (\<lambda>c. c \<noteq> x) w \<Longrightarrow> partition_on x (w @ x # rest) = (w, rest)"
  by (induction w) (simp_all add: partition_on_def)

lemma strip_prefixed:
  assumes "strip t = t" "t \<noteq> []"
  shows "strip (rule_type_value k @ CHR '' '' # t) = rule_type_value k @ CHR '' '' # t"
proof (rule strip_id)
  show "\<not> is_space (hd (rule_type_value k @ CHR '' '' # t))" by (cases k) (simp_all add: is_space_def)
  show "\<not> is_space (last (rule_type_value k @ CHR '' '' # t))" using strip_keeps_last [OF assms] assms(2) by simp
qed simp

lemma parse_rule_out:
  assumes "rule_reads_back CE r"
  shows "\<exists>spec. parse_rule CE (rule_out r) place = Inr spec \<and>
    (rs_type spec, rs_pattern spec, rs_kind spec, notes_or_none (rs_notes spec)) = (r_type r, r_pattern r, r_kind r, notes_or_none (r_notes r))"
proof -
  have t: "rule_type_of (rule_type_value (r_type r)) = Some (r_type r)" by (cases "r_type r") (simp_all add: rule_type_of_def)
  have word: "list_all (\<lambda>c. c \<noteq> CHR '' '') (rule_type_value (r_type r))" by (cases "r_type r") simp_all
  have raw: "strip (rule_text r) = rule_text r" "rule_text r \<noteq> ''''" using assms by (simp_all add: rule_reads_back_def)
  have p: "parse_pattern (ce_re2 CE) (ce_re_ok CE) (rule_text r) True = Inr (r_pattern r, r_kind r)"
    using assms by (cases "r_kind r") (auto simp: rule_reads_back_def rule_text_def parse_pattern_def)
  show ?thesis
  proof (cases "notes_or_none (r_notes r)")
    case None
    then have q: "\<not> quoted_pattern (rule_text r)" using assms by (simp add: rule_reads_back_def)
    have "rule_parts CE (rule_out r) place = Inr (rule_type_value (r_type r), rule_text r, None, True)"
      using partition_word [OF word, of "rule_text r"] by (simp add: rule_out_def None rule_parts_def strip_prefixed raw)
    with q show ?thesis by (simp add: parse_rule_def raw t p requireE_def None) (simp add: notes_or_none_def)
  next
    case (Some n)
    then have "rule_parts CE (rule_out r) place = Inr (rule_type_value (r_type r), rule_text r, Some n, False)"
      by (simp add: rule_out_def rule_parts_def yget_def yget_or_def)
    moreover have "notes_or_none (Some n) = Some n" using Some by (auto simp: notes_or_none_def split: if_splits)
    ultimately show ?thesis by (simp add: parse_rule_def raw t p requireE_def Some)
  qed
qed

lemma parse_rules_out:
  assumes "list_all (rule_reads_back CE) rs"
  shows "\<exists>specs. parse_rule_items CE (map rule_out rs) place i = (nothing, specs) \<and> specs_tuple specs = rules_tuple rs"
  using assms
proof (induction rs arbitrary: i)
  case (Cons r rs)
  then obtain specs where specs: "parse_rule_items CE (map rule_out rs) place (i + 1) = (nothing, specs)" "specs_tuple specs = rules_tuple rs"
    by fastforce
  from Cons.prems parse_rule_out [of CE r "place @ ''['' @ show_nat i @ '']''"] obtain spec where
    "parse_rule CE (rule_out r) (place @ ''['' @ show_nat i @ '']'') = Inr spec"
    "(rs_type spec, rs_pattern spec, rs_kind spec, notes_or_none (rs_notes spec)) = (r_type r, r_pattern r, r_kind r, notes_or_none (r_notes r))"
    by auto
  with specs show ?case by (simp add: specs_tuple_def rules_tuple_def)
qed (simp add: specs_tuple_def rules_tuple_def)

lemma parse_paths_out:
  assumes "paths_read_back CE s" "yget m ''roots'' = (if is_multi_root s
      then YList (map (\<lambda>r. YMap [(''label'', YStr (root_label r)), (''path'', YStr (root_path r))]) (roots_of s)) else YNull)"
    and "\<not> is_multi_root s \<longrightarrow> yget m ''base_path'' = YStr (s_base_path s)"
  shows "parse_paths CE (s_protocol s) m place = Inr (s_roots s, s_base_path s)"
proof (cases "s_roots s")
  case None
  then have one: "\<not> is_multi_root s" by (simp add: is_multi_root_def roots_of_def)
  then have "yget m ''roots'' = YNull" "yget m ''base_path'' = YStr (s_base_path s)" using assms(2,3) by simp_all
  then show ?thesis using assms(1) None by (auto simp: parse_paths_def paths_read_back_def map_error_def)
next
  case (Some rs)
  have maps: "all_maps (map (\<lambda>r. YMap [(''label'', YStr (root_label r)), (''path'', YStr (root_path r))]) rs) =
      Some (map (\<lambda>r. [(''label'', YStr (root_label r)), (''path'', YStr (root_path r))]) rs)" for rs :: "source_root list"
    by (induction rs) simp_all
  have model: "root_model CE [(''label'', YStr (root_label r)), (''path'', YStr (root_path r))] = r" for r :: source_root
    by (simp add: root_model_def yget_or_def)
  have "is_multi_root s" using assms(1) Some by (simp add: paths_read_back_def)
  then have rs: "roots_of s = rs" "rs \<noteq> []" using Some by (auto simp: is_multi_root_def roots_of_def Let_def split: if_splits)
  have "yget m ''roots'' = YList (map (\<lambda>r. YMap [(''label'', YStr (root_label r)), (''path'', YStr (root_path r))]) rs)"
    using assms(2) \<open>is_multi_root s\<close> rs(1) by simp
  then show ?thesis using assms(1) Some rs(2)
    by (cases rs) (simp_all add: parse_paths_def paths_read_back_def map_error_def maps [of "_ # _", simplified] maps model o_def)
qed

lemma parse_tls_out:
  assumes "tls_reads_back CE s" "yget m ''winrm_scheme'' = (case s_winrm_scheme s of None \<Rightarrow> YNull | Some v \<Rightarrow> YStr v)"
    and "yget m ''tls_ca_pem'' = (case s_tls_ca_pem s of None \<Rightarrow> YNull | Some v \<Rightarrow> YStr v)"
  shows "parse_tls CE (s_protocol s) port m place = Inr (s_winrm_scheme s, s_tls_ca_pem s)"
  using assms
  by (cases "s_protocol s = Winrm"; cases "s_tls_ca_pem s")
     (auto simp: tls_reads_back_def parse_tls_def validate_winrm_scheme_def requireE_def map_error_def)

lemma fst_opt_pair: "fst ` set (opt_pair key v) = (if v = None then {} else {key})"
  by (auto simp: opt_pair_def split: option.split)

lemma map_of_opt_pair: "map_of (opt_pair key v) k = (if k = key then v else None)"
  by (simp add: opt_pair_def split: option.split)

text \<open>The key-value pairs of an exported source, by key.\<close>

definition out_pairs :: "db \<Rightarrow> source \<Rightarrow> (string \<times> yaml) list" where
  "out_pairs d s = (case source_out d s of YMap m \<Rightarrow> m | _ \<Rightarrow> [])"

lemma out_pairs:
  assumes "reads_back CE d s"
  shows "source_out d s = YMap (out_pairs d s)" "set (map fst (out_pairs d s)) \<subseteq> set source_keys"
    "yget (out_pairs d s) ''name'' = YStr (s_name s)" "yget (out_pairs d s) ''protocol'' = YStr (protocol_value (s_protocol s))"
    "yget (out_pairs d s) ''host'' = YStr (s_host s)" "yget (out_pairs d s) ''port'' = (case s_port s of None \<Rightarrow> YNull | Some n \<Rightarrow> YInt n)"
    "yget (out_pairs d s) ''roots'' = (if is_multi_root s
      then YList (map (\<lambda>r. YMap [(''label'', YStr (root_label r)), (''path'', YStr (root_path r))]) (roots_of s)) else YNull)"
    "\<not> is_multi_root s \<Longrightarrow> yget (out_pairs d s) ''base_path'' = YStr (s_base_path s)"
    "yget (out_pairs d s) ''winrm_scheme'' = (case s_winrm_scheme s of None \<Rightarrow> YNull | Some v \<Rightarrow> YStr v)"
    "yget (out_pairs d s) ''tls_ca_pem'' = (case s_tls_ca_pem s of None \<Rightarrow> YNull | Some v \<Rightarrow> YStr v)"
    "yget_or (out_pairs d s) ''enabled'' (YBool True) = YBool (s_enabled s)"
    "yget_or (out_pairs d s) ''search_indexing_enabled'' (YBool False) = YBool (s_search_indexing_enabled s)"
    "yget (out_pairs d s) ''credential'' = YNull"
    "yget (out_pairs d s) ''rules'' = YList (map rule_out (sort_key r_order (rules_for d (s_id s))))"
proof -
  have m: "source_out d s = YMap (out_pairs d s)" by (simp add: out_pairs_def source_out_def)
  note look = yget_def yget_or_def out_pairs_def source_out_def map_of_opt_pair map_add_def
  show "source_out d s = YMap (out_pairs d s)" by (rule m)
  show "set (map fst (out_pairs d s)) \<subseteq> set source_keys"
    by (simp add: out_pairs_def source_out_def source_keys_def fst_opt_pair)
  show "yget (out_pairs d s) ''name'' = YStr (s_name s)" "yget (out_pairs d s) ''protocol'' = YStr (protocol_value (s_protocol s))"
    "yget (out_pairs d s) ''host'' = YStr (s_host s)" "yget (out_pairs d s) ''credential'' = YNull"
    "yget (out_pairs d s) ''rules'' = YList (map rule_out (sort_key r_order (rules_for d (s_id s))))"
    "yget_or (out_pairs d s) ''enabled'' (YBool True) = YBool (s_enabled s)"
    "yget_or (out_pairs d s) ''search_indexing_enabled'' (YBool False) = YBool (s_search_indexing_enabled s)"
    "yget (out_pairs d s) ''roots'' = (if is_multi_root s
      then YList (map (\<lambda>r. YMap [(''label'', YStr (root_label r)), (''path'', YStr (root_path r))]) (roots_of s)) else YNull)"
    "\<not> is_multi_root s \<Longrightarrow> yget (out_pairs d s) ''base_path'' = YStr (s_base_path s)"
    by (simp_all add: look)
  show "yget (out_pairs d s) ''port'' = (case s_port s of None \<Rightarrow> YNull | Some n \<Rightarrow> YInt n)"
    using assms by (simp add: look reads_back_def split: option.splits)
  show "yget (out_pairs d s) ''winrm_scheme'' = (case s_winrm_scheme s of None \<Rightarrow> YNull | Some v \<Rightarrow> YStr v)"
    using assms by (auto simp: look reads_back_def tls_reads_back_def split: if_splits)
  show "yget (out_pairs d s) ''tls_ca_pem'' = (case s_tls_ca_pem s of None \<Rightarrow> YNull | Some v \<Rightarrow> YStr v)"
    using assms by (simp add: look reads_back_def tls_reads_back_def split: option.splits)
qed

section \<open>What the requests save is read back\<close>

text \<open>
  The values the checks of the other requests leave: base paths and folders of \<open>validate_base_path\<close> and
  \<open>validate_roots\<close>, the scheme and the certificate of their checks, rules of \<open>parse_pattern\<close>.
\<close>

definition saved_by_api :: "config_env \<Rightarrow> db \<Rightarrow> source \<Rightarrow> bool" where
  "saved_by_api CE d s \<longleftrightarrow>
     (case s_roots s of
        None \<Rightarrow> s_protocol s = Agent \<or> (\<exists>raw. validate_base_path (ce_source CE) (s_protocol s) raw = Inr (s_base_path s))
      | Some rs \<Rightarrow>
          (\<exists>raw limit. limit \<le> hard_max_roots \<and> validate_roots (ce_source CE) (s_protocol s) raw limit = Inr (Some rs)) \<and>
          s_base_path s = root_path (hd rs)) \<and>
     (\<exists>asked. validate_winrm_scheme (s_protocol s) asked = Inr (s_winrm_scheme s)) \<and>
     (\<exists>raw. validate_ca_pem (ce_source CE) (s_protocol s) raw = Inr (s_tls_ca_pem s)) \<and>
     (\<forall>r \<in> set (rules_for d (s_id s)). \<exists>raw. parse_pattern (ce_re2 CE) (ce_re_ok CE) raw True = Inr (r_pattern r, r_kind r))"

text \<open>
  What those checks let pass and the file changes or refuses: a name or a host that is empty or has space
  around it, a port out of range, a path that its own check would change again (the space that stood
  before a final slash), a WinRM source without a saved scheme (the file gives it one), and a rule that is
  empty, has space around it, or is in quotes and has no notes.
\<close>

definition plain_paths :: "config_env \<Rightarrow> source \<Rightarrow> bool" where
  "plain_paths CE s \<longleftrightarrow>
     s_protocol s = Agent \<or>
     list_all (\<lambda>p. validate_base_path (ce_source CE) (s_protocol s) p = Inr p)
       (case s_roots s of None \<Rightarrow> [s_base_path s] | Some rs \<Rightarrow> map root_path rs)"

definition plain_rule :: "rule \<Rightarrow> bool" where
  "plain_rule r \<longleftrightarrow>
     rule_text r \<noteq> '''' \<and> strip (rule_text r) = rule_text r \<and> (quoted_pattern (rule_text r) \<longrightarrow> notes_or_none (r_notes r) \<noteq> None)"

definition plain_values :: "config_env \<Rightarrow> db \<Rightarrow> source \<Rightarrow> bool" where
  "plain_values CE d s \<longleftrightarrow>
     s_name s \<noteq> '''' \<and> strip (s_name s) = s_name s \<and> s_host s \<noteq> '''' \<and> strip (s_host s) = s_host s \<and>
     (case s_port s of None \<Rightarrow> True | Some n \<Rightarrow> 0 < n \<and> n < 65536) \<and>
     plain_paths CE s \<and> (s_protocol s = Winrm \<longrightarrow> s_winrm_scheme s \<noteq> None) \<and>
     list_all plain_rule (rules_for d (s_id s))"

lemma strip_newline: "strip (t @ [CHR 0x0A]) = strip t"
  by (simp add: strip_def rstrip_def is_space_def)

lemma strip_twice [simp]: "strip (strip t) = strip t"
proof (cases "strip t = []")
  case False
  let ?r = "rev (dropWhile is_space (rev t))"
  have st: "strip t = dropWhile is_space ?r" by (simp add: strip_def lstrip_def rstrip_def)
  have "\<not> is_space (hd (strip t))" using False unfolding st by (rule hd_dropWhile)
  moreover have "\<not> is_space (last (strip t))"
  proof -
    have "dropWhile is_space (rev t) \<noteq> []" using False unfolding st by (metis dropWhile.simps(1) rev.simps(1))
    then have "\<not> is_space (last ?r)" by (simp add: last_rev hd_dropWhile)
    moreover have "last (dropWhile is_space ?r) = last ?r"
    proof -
      have "?r = takeWhile is_space ?r @ dropWhile is_space ?r" by simp
      then show ?thesis using False unfolding st by (metis last_appendR)
    qed
    ultimately show ?thesis by (simp add: st)
  qed
  ultimately show ?thesis by (rule strip_id [OF False])
next
  case True
  moreover have "strip [] = []" by (simp add: strip_def lstrip_def rstrip_def)
  ultimately show ?thesis by simp
qed

lemma saved_certificate:
  assumes "validate_ca_pem SE p raw = Inr v"
  shows "validate_ca_pem SE p v = Inr v" "v \<noteq> Some ''''"
proof -
  have "v = None \<or> (\<exists>t n. v = Some (strip t @ [CHR 0x0A]) \<and> strip t \<noteq> '''' \<and> p = Winrm \<and> se_load_pem SE (strip t) = Some n \<and> n \<noteq> 0)"
    using assms by (auto simp: validate_ca_pem_def bindE_Inr_iff split: option.splits if_splits)
  then show "validate_ca_pem SE p v = Inr v" "v \<noteq> Some ''''"
    by (auto simp: validate_ca_pem_def strip_newline requireE_def)
qed

lemma saved_roots:
  assumes "check_roots SE p seen raw = Inr rs" "list_all (\<lambda>q. validate_base_path SE p q = Inr q) (map root_path rs)"
  shows "check_roots SE p seen rs = Inr rs"
  using assms
proof (induction SE p seen raw arbitrary: rs rule: check_roots.induct)
  case (2 SE p seen root roots)
  let ?label = "strip (root_label root)"
  from 2(2) obtain path rest where r: "valid_label ?label" "lower ?label \<notin> set seen"
    "check_roots SE p (lower ?label # seen) roots = Inr rest" "rs = \<lparr>root_label = ?label, root_path = path\<rparr> # rest"
    by (auto simp: bindE_Inr_iff Let_def)
  with 2(1) [OF refl r(3)] 2(3) show ?case by (simp add: requireE_def Let_def)
qed simp

lemma saved_reads_back:
  assumes "saved_by_api CE d s" "plain_values CE d s"
  shows "reads_back CE d s"
proof -
  have paths: "paths_read_back CE s"
  proof (cases "s_roots s")
    case None
    with assms show ?thesis by (auto simp: saved_by_api_def plain_values_def plain_paths_def paths_read_back_def)
  next
    case (Some rs)
    with assms(1) obtain raw limit where r: "validate_roots (ce_source CE) (s_protocol s) raw limit = Inr (Some rs)"
      "limit \<le> hard_max_roots" and base: "s_base_path s = root_path (hd rs)" by (auto simp: saved_by_api_def)
    note ok = validate_roots_ok [OF r(1)]
    have c: "check_roots (ce_source CE) (s_protocol s) [] raw = Inr rs"
      using r(1) by (auto simp: validate_roots_def bindE_Inr_iff split: if_splits)
    have "list_all (\<lambda>q. validate_base_path (ce_source CE) (s_protocol s) q = Inr q) (map root_path rs)"
      using assms(2) ok(5) Some by (simp add: plain_values_def plain_paths_def)
    from saved_roots [OF c this] have "validate_roots (ce_source CE) (s_protocol s) rs hard_max_roots = Inr (Some rs)"
      using ok r(2) by (simp add: validate_roots_def requireE_def)
    moreover have "is_multi_root s" using ok(1) Some by (auto simp: is_multi_root_def roots_of_def)
    ultimately show ?thesis using Some base by (simp add: paths_read_back_def)
  qed
  have tls: "tls_reads_back CE s"
  proof -
    from assms(1) obtain asked raw where a: "validate_winrm_scheme (s_protocol s) asked = Inr (s_winrm_scheme s)"
      and ca: "validate_ca_pem (ce_source CE) (s_protocol s) raw = Inr (s_tls_ca_pem s)" by (auto simp: saved_by_api_def)
    have "if s_protocol s = Winrm then s_winrm_scheme s \<in> {Some ''https'', Some ''http''} else s_winrm_scheme s = None"
      using a assms(2) by (cases asked; cases "the asked") (auto simp: validate_winrm_scheme_def bindE_Inr_iff plain_values_def)
    with saved_certificate [OF ca] show ?thesis by (simp add: tls_reads_back_def)
  qed
  have "rule_reads_back CE r" if r: "r \<in> set (rules_for d (s_id s))" for r
  proof -
    from assms(1) r obtain raw where "parse_pattern (ce_re2 CE) (ce_re_ok CE) raw True = Inr (r_pattern r, r_kind r)"
      by (auto simp: saved_by_api_def)
    then have "if r_kind r = Regex then ce_re2 CE (r_pattern r) False \<noteq> None else \<not> prefix ''re:'' (r_pattern r)"
      by (auto simp: parse_pattern_def Let_def split: if_splits)
    moreover have "plain_rule r" using assms(2) r by (auto simp: plain_values_def list_all_iff)
    ultimately show ?thesis by (auto simp: rule_reads_back_def plain_rule_def)
  qed
  with paths tls assms(2) show ?thesis by (simp add: reads_back_def plain_values_def list_all_iff)
qed

text \<open>
  C11: What is exported is imported unchanged. Take a source whose values the checks of the other requests
  let pass and a file can hold as they are (\<open>saved_by_api\<close>, \<open>plain_values\<close>), the only one of its name under its
  customer. Its exported entry, read as an entry of that customer and folder, gives one spec without a
  problem, and importing that spec over the source changes nothing: in the preview or applied it is an
  unchanged source, and the database stays as it is.
\<close>

theorem reimporting_an_exported_source_changes_nothing:
  assumes saved: "saved_by_api CE d s" "plain_values CE d s"
    and "1 \<le> limit" "named_sources (s_customer_id s) (s_name s) d = [s]"
    and "case customer of None \<Rightarrow> s_customer_id s = None | Some c \<Rightarrow> c \<noteq> '''' \<and> s_customer_id s \<noteq> None \<and> id_of cids c = s_customer_id s"
    and "s_folder_id s = (case customer of None \<Rightarrow> None | Some c \<Rightarrow> if path = [] then None else id_of fids (c, path))"
  shows "\<exists>spec item. parse_source CE (source_out d s) customer path place = nothing\<lparr>pa_sources := [spec]\<rparr> \<and> sp_name spec = s_name s \<and>
    import_source CE applied u limit cids fids [] spec d = Inr (item, d) \<and> pi_action item = PlanUnchanged"
proof -
  note reads = saved_reads_back [OF saved]
  note m = out_pairs [OF reads]
  have ok: "strip (s_name s) = s_name s" "s_name s \<noteq> ''''" "strip (s_host s) = s_host s" "s_host s \<noteq> ''''" "paths_read_back CE s"
    "tls_reads_back CE s" "case s_port s of None \<Rightarrow> True | Some n \<Rightarrow> 0 < n \<and> n < 65536"
    and rules: "list_all (rule_reads_back CE) (sort_key r_order (rules_for d (s_id s)))"
    using reads by (simp_all add: reads_back_def list_all_iff)
  obtain specs where specs: "parse_rule_items CE (map rule_out (sort_key r_order (rules_for d (s_id s)))) (place @ ''.rules'') 0 = (nothing, specs)"
    "specs_tuple specs = rules_tuple (sort_key r_order (rules_for d (s_id s)))" using parse_rules_out [OF rules] by blast
  have port: "parse_port (out_pairs d s) place = Inr (s_port s)" using ok(7) by (cases "s_port s") (simp_all add: parse_port_def m)
  have paths: "parse_paths CE (s_protocol s) (out_pairs d s) place = Inr (s_roots s, s_base_path s)"
    by (rule parse_paths_out [OF ok(5) m(7)]) (use m(8) in blast)
  note tls = parse_tls_out [OF ok(6) m(9,10)]
  have prot: "protocol_of (YStr (protocol_value p)) = Some p" for p by (cases p) (simp_all add: protocol_of_def)
  let ?spec = "\<lparr>sp_where = place, sp_key = source_key customer path (s_name s), sp_customer = customer, sp_folders = path, sp_name = s_name s,
              sp_protocol = s_protocol s, sp_host = s_host s, sp_port = s_port s, sp_base_path = s_base_path s, sp_roots = s_roots s,
              sp_enabled = s_enabled s, sp_search_indexing_enabled = s_search_indexing_enabled s, sp_credential = None, sp_rules = Some specs,
              sp_winrm_scheme = s_winrm_scheme s, sp_tls_ca_pem = s_tls_ca_pem s\<rparr>"
  have spec: "source_spec_of CE (out_pairs d s) customer path place = Inr (and_then nothing nothing, ?spec)"
    by (simp add: source_spec_of_def given_name_def m ok prot port parse_flag_def paths tls parse_credential_def parse_rules_def specs)
  have "filter (\<lambda>k. k \<notin> set source_keys) (map fst (out_pairs d s)) = []" using m(2) by (auto simp: filter_empty_conv)
  then have "unknown_keys source_keys (out_pairs d s) place = nothing" unfolding unknown_keys_def Let_def by simp
  then have read: "parse_source CE (source_out d s) customer path place = nothing\<lparr>pa_sources := [?spec]\<rparr>"
    by (simp add: parse_source_def m(1) spec and_then_def nothing_def)
  have place: "spec_customer cids ?spec = s_customer_id s" "spec_folder fids ?spec = s_folder_id s"
    using assms(5,6) by (auto simp: spec_customer_def spec_folder_def split: option.splits)
  have "wanted_source ?spec (s_folder_id s) s = s" by (cases s) (simp add: wanted_source_def)
  then have "settled CE cids fids [] ?spec d" using assms(4) specs(2)
    by (simp add: settled_def place new_rules_def new_credential_def typed_credential_def)
  from settled_unchanged [OF this assms(3), of applied u] assms(5) place(1) obtain item where
    "import_source CE applied u limit cids fids [] ?spec d = Inr (item, d)" "pi_action item = PlanUnchanged"
    by (auto split: option.splits)
  with read show ?thesis by (intro exI [of _ ?spec] exI [of _ item]) simp
qed

text \<open>
  A rule whose pattern stands in quotes, which the rule editor accepts, is exported in a form that the import
  refuses, unless it has notes.
\<close>

theorem an_exported_rule_in_quotes_is_refused:
  assumes "quoted_pattern (r_pattern r)" "r_kind r = Glob" "r_notes r = None"
  shows "parse_pattern (ce_re2 CE) (ce_re_ok CE) (r_pattern r) True = Inr (r_pattern r, Glob) \<and>
    parse_rule CE (rule_out r) place = Inl (problem_at place ''The pattern is in quotes, which would become part of it'')"
proof -
  from assms(1) have p: "r_pattern r \<noteq> ''''" "hd (r_pattern r) = last (r_pattern r)" "hd (r_pattern r) \<in> {CHR 0x22, CHR 0x27}"
    by (auto simp: quoted_pattern_def)
  then have strip: "strip (r_pattern r) = r_pattern r" by (intro strip_id) (auto simp: is_space_def)
  have word: "list_all (\<lambda>c. c \<noteq> CHR '' '') (rule_type_value (r_type r))" by (cases "r_type r") simp_all
  have t: "rule_type_of (rule_type_value (r_type r)) = Some (r_type r)" by (cases "r_type r") (simp_all add: rule_type_of_def)
  have "rule_parts CE (rule_out r) place = Inr (rule_type_value (r_type r), r_pattern r, None, True)"
    using partition_word [OF word, of "r_pattern r"] strip_prefixed [OF strip p(1)]
    by (simp add: rule_out_def notes_or_none_def assms(2,3) rule_text_def rule_parts_def)
  moreover have "\<not> prefix ''re:'' (r_pattern r)" using p by (cases "r_pattern r") auto
  ultimately show ?thesis using assms(1) p(1) by (simp add: parse_rule_def t strip requireE_def parse_pattern_def)
qed

section \<open>Witnesses\<close>

definition export_sample :: config_env where
  "export_sample = \<lparr>ce_source = sample_se, ce_load = (\<lambda>_. Inr YNull), ce_dump = (\<lambda>_. ''''), ce_environ = (\<lambda>_. None), ce_repr = (\<lambda>_. ''''),
     ce_re_ok = (\<lambda>_. True), ce_decrypt = (\<lambda>_. [])\<rparr>"

definition sample_rule :: rule where
  "sample_rule = \<lparr>r_id = 1, r_source_id = 10, r_order = 0, r_type = Include, r_pattern = ''*.log'', r_kind = Glob, r_notes = None\<rparr>"

definition export_db :: db where
  "export_db = sample_db\<lparr>roles := [operator_role\<lparr>ro_is_super_admin := True\<rparr>], rules := [sample_rule]\<rparr>"

theorem the_export_always_ends_witness:
  "\<exists>doc d1. export_config export_sample operator export_db = Some (Inr (export_header @ ce_dump export_sample doc, d1)) \<and> export_doc export_db = Some doc"
proof (rule the_export_always_ends)
  show "distinct (map f_id (folders export_db))" by (simp add: export_db_def sample_db_def outer_folder_def inner_folder_def)
  show "require_super_admin_user export_db operator = Inr ()" by code_simp
qed

theorem reimporting_an_exported_source_changes_nothing_witness:
  "\<exists>spec item. parse_source export_sample (source_out export_db sample_source) (Some ''acme'') [''outer'', ''inner''] ''x'' = nothing\<lparr>pa_sources := [spec]\<rparr> \<and>
    sp_name spec = ''srv'' \<and>
    import_source export_sample True None 20 [(''acme'', Some 1)] [((''acme'', [''outer'', ''inner'']), Some 2)] [] spec export_db = Inr (item, export_db) \<and>
    pi_action item = PlanUnchanged"
proof -
  have "validate_base_path (ce_source export_sample) (s_protocol sample_source) ''/var/log'' = Inr (s_base_path sample_source)"
    "validate_winrm_scheme (s_protocol sample_source) None = Inr (s_winrm_scheme sample_source)"
    "validate_ca_pem (ce_source export_sample) (s_protocol sample_source) None = Inr (s_tls_ca_pem sample_source)"
    "s_roots sample_source = None" "rules_for export_db (s_id sample_source) = [sample_rule]"
    "parse_pattern (ce_re2 export_sample) (ce_re_ok export_sample) ''*.log'' True = Inr (r_pattern sample_rule, r_kind sample_rule)"
    by code_simp+
  then have r: "saved_by_api export_sample export_db sample_source" by (auto simp: saved_by_api_def)
  have p: "plain_values export_sample export_db sample_source" by code_simp
  have n: "named_sources (s_customer_id sample_source) (s_name sample_source) export_db = [sample_source]"
    by (simp add: named_sources_def export_db_def sample_db_def sample_source_def)
  have "s_name sample_source = ''srv''" by (simp add: sample_source_def)
  with reimporting_an_exported_source_changes_nothing [OF r p _ n, where limit = 20 and customer = "Some ''acme''" and cids = "[(''acme'', Some 1)]" and
      path = "[''outer'', ''inner'']" and fids = "[((''acme'', [''outer'', ''inner'']), Some 2)]" and place = "''x''" and applied = True and u = None]
  show ?thesis by (simp add: sample_source_def id_of_def)
qed

theorem an_exported_rule_in_quotes_is_refused_witness:
  "parse_rule export_sample (rule_out (sample_rule\<lparr>r_pattern := [CHR 0x22, CHR ''a'', CHR 0x22]\<rparr>)) ''x'' =
     Inl (problem_at ''x'' ''The pattern is in quotes, which would become part of it'')"
  by (rule an_exported_rule_in_quotes_is_refused [THEN conjunct2]) (simp_all add: quoted_pattern_def sample_rule_def)

text \<open>A source with a folder and no customer, which \<open>_validate_scope\<close> allows, stands twice in the export.\<close>

lemma a_source_without_customer_is_exported_twice:
  "validate_scope (export_db\<lparr>sources := [sample_source\<lparr>s_customer_id := None\<rparr>]\<rparr>) None (Some 2) = Inr ()"
  "(case export_doc (export_db\<lparr>sources := [sample_source\<lparr>s_customer_id := None\<rparr>]\<rparr>) of
      Some (YMap m) \<Rightarrow> (case parse_doc export_sample m of p \<Rightarrow>
        pa_problems p = [] \<and> map (\<lambda>x. (sp_customer x, sp_folders x, sp_name x)) (pa_sources p) =
          [(Some ''acme'', [''outer'', ''inner''], ''srv''), (None, [], ''srv'')])
    | _ \<Rightarrow> False)"
  by code_simp+

end
