(* ===== verification/AuditApi.thy ===== *)
theory AuditApi
  imports AuditIntegrity Search "HOL-Library.Multiset"
begin

text \<open>
  \<open>app/api/audit.py\<close>: the audit log in pages, its filters, and the verification of the chain on request. The
  lock around a verification is the sequence of requests of the model.
\<close>

section \<open>Listing\<close>

definition max_limit :: int where
  "max_limit = 200"

definition require_view_log :: "db \<Rightarrow> user \<Rightarrow> api_error + unit" where
  "require_view_log d u = require_global_capability d u ViewAuditLog"

text \<open>The query parameters; an absent list is the empty one, which the code treats alike.\<close>

record audit_query =
  aq_limit :: int
  aq_offset :: int
  aq_actions :: "string list"
  aq_target_types :: "string list"
  aq_user_id :: "int option"
  aq_since :: "int option"
  aq_until :: "int option"

definition action_condition :: "string \<Rightarrow> audit_log \<Rightarrow> bool" where
  "action_condition action r =
     (if suffix ''.*'' action
      then like_match (like_tokens CHR ''/'' (concat (map (\<lambda>c. if c = CHR ''/'' \<or> c = CHR ''%'' \<or> c = CHR ''_'' then [CHR ''/'', c] else [c])
             (butlast action)) @ ''%'')) (a_action r)
      else a_action r = action)"

definition conditions :: "audit_query \<Rightarrow> audit_log \<Rightarrow> bool" where
  "conditions q r =
     ((aq_actions q = [] \<or> list_ex (\<lambda>a. action_condition a r) (aq_actions q)) \<and>
      (aq_target_types q = [] \<or> (case a_target_type r of None \<Rightarrow> False | Some t \<Rightarrow> t \<in> set (aq_target_types q))) \<and>
      (case aq_user_id q of None \<Rightarrow> True | Some i \<Rightarrow> a_user_id r = Some i) \<and>
      (case aq_since q of None \<Rightarrow> True | Some t \<Rightarrow> t \<le> a_timestamp r) \<and>
      (case aq_until q of None \<Rightarrow> True | Some t \<Rightarrow> a_timestamp r \<le> t))"

text \<open>Newest first, and of one instant the highest id first.\<close>

definition rows_query :: "audit_query \<Rightarrow> db \<Rightarrow> audit_log list" where
  "rows_query q d = sort_key (\<lambda>r. - a_timestamp r) (sort_key (\<lambda>r. - a_id r) (filter (conditions q) (audit_rows d)))"

record audit_entry_public =
  ep_id :: int
  ep_user_id :: "int option"
  ep_username :: "string option"
  ep_action :: string
  ep_target_type :: "string option"
  ep_target_id :: "int option"
  ep_timestamp :: int
  ep_metadata :: "(string \<times> json) list option"
  ep_target_name :: "string option"
  ep_target_context :: "string option"
  ep_target_name_is_current :: bool
  ep_target_exists :: bool

definition as_text :: "json option \<Rightarrow> string option" where
  "as_text v = (case v of Some (JStr s) \<Rightarrow> Some s | _ \<Rightarrow> None)"

text \<open>One row of the page. The rows that \<open>prefetch_targets\<close> loads are those \<open>describe_target\<close> finds.\<close>

definition entry_public :: "db \<Rightarrow> audit_log \<Rightarrow> audit_entry_public" where
  "entry_public d r =
     (let current = (if a_target_id r = None then [] else describe_target d (a_target_type r) (a_target_id r));
          recorded = (case a_metadata r of None \<Rightarrow> [] | Some m \<Rightarrow> m);
          use_current = (dict_get ''target_name'' recorded = None \<and> dict_get ''target_name'' current \<noteq> None);
          names = (if use_current then current else recorded)
      in \<lparr>ep_id = a_id r, ep_user_id = a_user_id r,
          ep_username = (case a_user_id r of None \<Rightarrow> None | Some i \<Rightarrow> map_option u_username (get_user d i)),
          ep_action = a_action r, ep_target_type = a_target_type r, ep_target_id = a_target_id r, ep_timestamp = a_timestamp r,
          ep_metadata = a_metadata r, ep_target_name = as_text (dict_get ''target_name'' names),
          ep_target_context = as_text (dict_get ''target_context'' names), ep_target_name_is_current = use_current,
          ep_target_exists = (dict_get ''target_name'' current \<noteq> None)\<rparr>)"

definition list_audit_log :: "db \<Rightarrow> user \<Rightarrow> audit_query \<Rightarrow> api_error + (audit_entry_public list \<times> nat)" where
  "list_audit_log d u q =
     bindE (require_view_log d u) (\<lambda>_.
     bindE (requireE (1 \<le> aq_limit q \<and> aq_limit q \<le> max_limit \<and> 0 \<le> aq_offset q) (HTTPException 422 ''limit or offset out of range'')) (\<lambda>_.
     let rows = rows_query q d
     in Inr (map (entry_public d) (take (nat (aq_limit q)) (drop (nat (aq_offset q)) rows)), length rows)))"

definition get_audit_log_filters :: "db \<Rightarrow> user \<Rightarrow> api_error + (string list \<times> string list)" where
  "get_audit_log_filters d u =
     bindE (require_view_log d u) (\<lambda>_.
     Inr (sort (remdups (map a_action (audit_rows d))), sort (remdups (List.map_filter a_target_type (audit_rows d)))))"

section \<open>The integrity of the chain\<close>

record integrity_status =
  is_status :: string
  is_last_checked_at :: "int option"
  is_broken_row_id :: "int option"
  is_race_break_count :: int
  is_known_break_count :: int
  is_known_breaks_recorded_at :: "int option"

definition read_integrity_status :: "db \<Rightarrow> integrity_status" where
  "read_integrity_status d =
     (case chain_state d of
        None \<Rightarrow> \<lparr>is_status = ''unknown'', is_last_checked_at = None, is_broken_row_id = None, is_race_break_count = 0,
                 is_known_break_count = 0, is_known_breaks_recorded_at = None\<rparr>
      | Some s \<Rightarrow> \<lparr>is_status = cs_status s, is_last_checked_at = cs_last_checked_at s, is_broken_row_id = cs_broken_row_id s,
                   is_race_break_count = cs_race_break_count s, is_known_break_count = cs_known_break_count s,
                   is_known_breaks_recorded_at = cs_known_breaks_recorded_at s\<rparr>)"

definition get_audit_integrity_status :: "db \<Rightarrow> user \<Rightarrow> api_error + integrity_status" where
  "get_audit_integrity_status d u = bindE (require_view_log d u) (\<lambda>_. Inr (read_integrity_status d))"

definition cooldown_us :: int where
  "cooldown_us = 30 * 1000000"

datatype audit_failure = AuditRefused api_error | AuditCheckFailed walk_error

definition cooling_down :: "env \<Rightarrow> db \<Rightarrow> bool" where
  "cooling_down E d =
     (case chain_state d of
        None \<Rightarrow> False
      | Some s \<Rightarrow> (case cs_last_checked_at s of None \<Rightarrow> False | Some t \<Rightarrow> e_now E - t < cooldown_us))"

definition run_audit_integrity_verification :: "env \<Rightarrow> user \<Rightarrow> db \<Rightarrow> audit_failure + (integrity_status \<times> db)" where
  "run_audit_integrity_verification E u d =
     bindE (map_error AuditRefused (require_view_log d u)) (\<lambda>_.
     if cooling_down E d then Inr (read_integrity_status d, d)
     else bindE (map_error AuditCheckFailed (verify_chain E d)) (\<lambda>(_, d1). Inr (read_integrity_status d1, d1)))"

definition record_audit_known_breaks :: "env \<Rightarrow> user \<Rightarrow> db \<Rightarrow> audit_failure + (integrity_status \<times> db)" where
  "record_audit_known_breaks E u d =
     bindE (map_error AuditRefused (require_super_admin_user d u)) (\<lambda>_.
     (case record_known_breaks E d (Some (u_id u)) of
        Inl NoRaceBreaksError \<Rightarrow> Inl (AuditRefused (HTTPException 409 ''No breaks match the race, so there is nothing to record.''))
      | Inl (WalkError e) \<Rightarrow> Inl (AuditCheckFailed e)
      | Inr (_, d1) \<Rightarrow> Inr (read_integrity_status d1, d1)))"

section \<open>Pages\<close>

lemma concat_pages:
  "concat (map (\<lambda>k. take n (drop (k * n) xs)) [0..<m]) = take (m * n) xs"
proof (induction m)
  case (Suc m)
  have "take (m * n) xs @ take n (drop (m * n) xs) = take (m * n + n) xs" by (simp add: take_add)
  with Suc show ?case by (simp add: add.commute)
qed simp

text \<open>A stable sort orders by its key, and keeps the order there was among equal keys.\<close>

lemma insort_key_refines:
  assumes "sorted_wrt (\<lambda>a b. f a < f b \<or> f a = f b \<and> R a b) zs" "\<forall>z \<in> set zs. R y z"
  shows "sorted_wrt (\<lambda>a b. f a < f b \<or> f a = f b \<and> R a b) (insort_key f y zs)"
  using assms by (induction zs) (auto simp: set_insort_key)

lemma sort_key_refines:
  "sorted_wrt R ys \<Longrightarrow> sorted_wrt (\<lambda>a b. f a < f b \<or> f a = f b \<and> R a b) (sort_key f ys)"
  by (induction ys) (simp_all add: insort_key_refines)

lemma rows_query_order:
  "sorted_wrt (\<lambda>a b. a_timestamp b < a_timestamp a \<or> a_timestamp a = a_timestamp b \<and> a_id b \<le> a_id a) (rows_query q d)"
proof -
  have "sorted_wrt (\<lambda>a b. a_id b \<le> a_id a) (sort_key (\<lambda>r. - a_id r) (filter (conditions q) (audit_rows d)))"
    using sorted_sort_key [of "\<lambda>r. - a_id r" "filter (conditions q) (audit_rows d)"] by (simp add: sorted_map)
  from sort_key_refines [OF this, of "\<lambda>r. - a_timestamp r"] show ?thesis
    by (simp add: rows_query_def)
qed

lemma list_audit_log_Inr:
  assumes "require_view_log d u = Inr ()" "1 \<le> n" "n \<le> 200"
  shows "list_audit_log d u (q\<lparr>aq_limit := int n, aq_offset := int k\<rparr>) =
    Inr (map (entry_public d) (take n (drop k (rows_query q d))), length (rows_query q d))"
proof -
  have "conditions (q\<lparr>aq_limit := int n, aq_offset := int k\<rparr>) = conditions q" by (rule ext) (simp add: conditions_def cong: option.case_cong)
  then have "rows_query (q\<lparr>aq_limit := int n, aq_offset := int k\<rparr>) d = rows_query q d" by (simp add: rows_query_def)
  then show ?thesis using assms by (simp add: list_audit_log_def requireE_def max_limit_def Let_def)
qed

text \<open>
  C38: Paging loses and repeats nothing. The pages of any size, read one after the other, are the newest-first list of
  exactly the entries that meet the filter, each as often as it is in the log, and every page gives their number.
\<close>

theorem pages_show_every_entry_once:
  assumes "require_view_log d u = Inr ()" "1 \<le> n" "n \<le> 200" "length (filter (conditions q) (audit_rows d)) \<le> m * n"
  shows "\<exists>pages. length pages = m \<and>
    (\<forall>k < m. list_audit_log d u (q\<lparr>aq_limit := int n, aq_offset := int (k * n)\<rparr>) =
       Inr (pages ! k, length (filter (conditions q) (audit_rows d)))) \<and>
    mset (concat pages) = mset (map (entry_public d) (filter (conditions q) (audit_rows d))) \<and>
    sorted_wrt (\<lambda>a b. ep_timestamp b < ep_timestamp a \<or> ep_timestamp a = ep_timestamp b \<and> ep_id b \<le> ep_id a) (concat pages)"
proof -
  let ?pages = "map (\<lambda>k. map (entry_public d) (take n (drop (k * n) (rows_query q d)))) [0..<m]"
  have rows: "mset (rows_query q d) = mset (filter (conditions q) (audit_rows d))" by (simp add: rows_query_def)
  then have len: "length (rows_query q d) = length (filter (conditions q) (audit_rows d))" by (metis size_mset)
  have all: "concat ?pages = map (entry_public d) (rows_query q d)"
  proof -
    have "concat ?pages = map (entry_public d) (concat (map (\<lambda>k. take n (drop (k * n) (rows_query q d))) [0..<m]))"
      by (simp add: map_concat o_def)
    with assms(4) len show ?thesis by (simp add: concat_pages)
  qed
  have "list_audit_log d u (q\<lparr>aq_limit := int n, aq_offset := int (k * n)\<rparr>) = Inr (?pages ! k, length (filter (conditions q) (audit_rows d)))"
    if "k < m" for k using list_audit_log_Inr [OF assms(1-3), where q = q and k = "k * n"] that len by simp
  moreover have "mset (concat ?pages) = mset (map (entry_public d) (filter (conditions q) (audit_rows d)))"
    unfolding all by (simp add: rows)
  moreover have "sorted_wrt (\<lambda>a b. ep_timestamp b < ep_timestamp a \<or> ep_timestamp a = ep_timestamp b \<and> ep_id b \<le> ep_id a) (concat ?pages)"
    unfolding all sorted_wrt_map using rows_query_order by (simp add: entry_public_def Let_def)
  ultimately show ?thesis by (intro exI [of _ ?pages]) simp
qed

section \<open>The filter for a namespace\<close>

lemma like_literal: "like_match (map Lit s @ [Any]) t \<longleftrightarrow> prefix (map ascii_lower s) (map ascii_lower t)"
proof (induction s arbitrary: t)
  case Nil
  show ?case by (induction t) simp_all
next
  case (Cons c s)
  then show ?case by (cases t) auto
qed

lemma like_escaped:
  "like_tokens CHR ''/'' (concat (map (\<lambda>c. if c = CHR ''/'' \<or> c = CHR ''%'' \<or> c = CHR ''_'' then [CHR ''/'', c] else [c]) s) @ ''%'') =
     map Lit s @ [Any]"
proof (induction s)
  case (Cons c s)
  obtain x xs where rest: "concat (map (\<lambda>c. if c = CHR ''/'' \<or> c = CHR ''%'' \<or> c = CHR ''_'' then [CHR ''/'', c] else [c]) s) @ ''%'' = x # xs"
    by (cases "concat (map (\<lambda>c. if c = CHR ''/'' \<or> c = CHR ''%'' \<or> c = CHR ''_'' then [CHR ''/'', c] else [c]) s)") auto
  with Cons show ?case by simp
qed simp

text \<open>
  The filter for a namespace, such as \<open>role_grant.*\<close>, selects exactly the actions that start with the namespace and its dot,
  letter case aside: an underscore or a percent sign in it stands for itself.
\<close>

theorem namespace_filter_is_a_prefix:
  "action_condition (ns @ ''.*'') r \<longleftrightarrow> prefix (map ascii_lower (ns @ ''.'')) (map ascii_lower (a_action r))"
proof -
  have "suffix ''.*'' (ns @ ''.*'')" "butlast (ns @ ''.*'') = ns @ ''.''" by (simp_all add: suffix_def butlast_append)
  then show ?thesis unfolding action_condition_def by (simp only: if_True like_escaped like_literal)
qed

section \<open>Names\<close>

text \<open>
  An entry keeps the name of what it was about: whatever has been renamed or deleted since, the page shows the name the target
  had when the entry was written, and says that it is not a current name.
\<close>

theorem entries_keep_the_name_they_recorded:
  assumes "dict_get ''target_name'' (describe_target seen target_type target_id) = Some (JStr n)"
    and "case metadata of None \<Rightarrow> True | Some m \<Rightarrow> dict_get ''target_name'' m = None"
    and "audit_rows d1 = audit_rows (record_audit_event E seen d user_id action target_type target_id metadata)"
  shows "ep_target_name (entry_public later (last (audit_rows d1))) = Some n \<and>
    \<not> ep_target_name_is_current (entry_public later (last (audit_rows d1)))"
proof -
  let ?r = "chain_new_entry E d (new_audit_entry E seen d user_id action target_type target_id metadata)"
  have "last (audit_rows d1) = ?r" by (simp add: assms(3) record_audit_event_def)
  moreover have "a_metadata ?r = labelled seen target_type target_id metadata"
    by (simp add: chain_new_entry_def new_audit_entry_def Let_def)
  moreover have "\<exists>m. labelled seen target_type target_id metadata = Some m \<and> dict_get ''target_name'' m = Some (JStr n)"
    using assms(1,2) by (cases metadata)
      (auto simp: labelled_def Let_def audit_labels_def dict_get_def dict_merge_get map_of_append map_add_def split: option.splits)
  ultimately show ?thesis by (auto simp: entry_public_def Let_def as_text_def)
qed

section \<open>Verifying on request\<close>

text \<open>
  A request to verify never changes the log, and outside the half minute after a check its answer is the truth about the log as it is: \<open>ok\<close> exactly
  if every entry is linked to the one before it by its hash; within it, it is the answer of the last check.
\<close>

theorem verify_now_tells_the_truth_outside_the_cooldown:
  assumes "run_audit_integrity_verification E u d = Inr (st, d1)" "recorded_known_breaks (audit_rows d) = Inr ([], [])"
  shows "audit_rows d1 = audit_rows d \<and> require_global_capability d u ViewAuditLog = Inr () \<and>
    (if cooling_down E d then st = read_integrity_status d \<and> d1 = d
     else is_last_checked_at st = Some (e_now E) \<and>
       (is_status st = ''ok'' \<longleftrightarrow> linked_from E (anchor_hash d) (by_id (audit_rows d))))"
proof -
  have view: "require_view_log d u = Inr ()"
    using assms(1) by (cases "require_view_log d u") (simp_all add: run_audit_integrity_verification_def map_error_def)
  then have may: "require_global_capability d u ViewAuditLog = Inr ()" by (simp add: require_view_log_def)
  show ?thesis
  proof (cases "cooling_down E d")
    case True
    with assms(1) may show ?thesis by (auto simp: run_audit_integrity_verification_def view map_error_def)
  next
    case False
    with assms(1) obtain v where v: "verify_chain E d = Inr (v, d1)" "st = read_integrity_status d1"
      by (auto simp: run_audit_integrity_verification_def view map_error_def bindE_Inr_iff split: sum.splits prod.splits)
    have "audit_rows d1 = audit_rows d" "is_last_checked_at st = Some (e_now E)" "v_ok v \<longleftrightarrow> is_status st = ''ok''"
    proof -
      obtain w where "walk_chain E d = Inr w" using v(1) by (auto simp: verify_chain_def bindE_Inr_iff)
      moreover obtain status b where "walk_status w = (status, b)" by (rule prod.exhaust)
      ultimately show "audit_rows d1 = audit_rows d" "is_last_checked_at st = Some (e_now E)" "v_ok v \<longleftrightarrow> is_status st = ''ok''"
        using v by (auto simp: verify_chain_def Let_def read_integrity_status_def)
    qed
    with may False verify_linear [OF v(1) assms(2)] show ?thesis by simp
  qed
qed

section \<open>Witnesses\<close>

definition viewer_db :: db where
  "viewer_db = (log_of two_rows)\<lparr>roles := [operator_role\<lparr>ro_global_capabilities := [ViewAuditLog]\<rparr>]\<rparr>"

definition every_entry :: audit_query where
  "every_entry = \<lparr>aq_limit = 50, aq_offset = 0, aq_actions = [], aq_target_types = [], aq_user_id = None, aq_since = None, aq_until = None\<rparr>"

theorem pages_show_every_entry_once_witness:
  "\<exists>pages. length pages = 2 \<and>
    list_audit_log viewer_db operator (every_entry\<lparr>aq_limit := 1, aq_offset := 1\<rparr>) = Inr (pages ! 1, 2) \<and>
    mset (concat pages) = mset (map (entry_public viewer_db) two_rows)"
proof -
  have view: "require_view_log viewer_db operator = Inr ()" by code_simp
  have all: "filter (conditions every_entry) (audit_rows viewer_db) = two_rows" by code_simp
  have "length two_rows = 2" by (simp add: two_rows_def)
  with pages_show_every_entry_once [OF view, of 1 every_entry 2] all obtain pages where
    "length pages = 2" "\<forall>k < 2. list_audit_log viewer_db operator (every_entry\<lparr>aq_limit := int 1, aq_offset := int (k * 1)\<rparr>) = Inr (pages ! k, 2)"
    "mset (concat pages) = mset (map (entry_public viewer_db) two_rows)" by auto
  moreover from this(2) have "list_audit_log viewer_db operator (every_entry\<lparr>aq_limit := 1, aq_offset := 1\<rparr>) = Inr (pages ! 1, 2)"
    by (auto dest: spec [of _ 1])
  ultimately show ?thesis by blast
qed

theorem entries_keep_the_name_they_recorded_witness:
  "ep_target_name (entry_public empty_db (last (audit_rows (record_audit_event length_env sample_db sample_db (Some 7)
     ''source.delete'' (Some ''source'') (Some 10) None)))) = Some ''srv''"
proof -
  have "dict_get ''target_name'' (describe_target sample_db (Some ''source'') (Some 10)) = Some (JStr ''srv'')" by code_simp
  from entries_keep_the_name_they_recorded [OF this _ refl, where metadata = None and d = sample_db and E = length_env and user_id = "Some 7"
      and action = "''source.delete''" and later = empty_db] show ?thesis by simp
qed

definition one_row_db :: db where
  "one_row_db = viewer_db\<lparr>audit_rows := [hd two_rows]\<rparr>"

theorem verify_now_tells_the_truth_outside_the_cooldown_witness:
  "\<exists>st d1. run_audit_integrity_verification length_env operator one_row_db = Inr (st, d1) \<and> audit_rows d1 = [hd two_rows] \<and>
     is_status st = ''ok'' \<and> linked_from length_env (anchor_hash one_row_db) (by_id [hd two_rows])"
proof -
  let ?x = "verify_chain length_env one_row_db"
  have "\<not> isl ?x" by code_simp
  note v = Inr_pair [OF this]
  have facts: "recorded_known_breaks (audit_rows one_row_db) = Inr ([], [])" "\<not> cooling_down length_env one_row_db"
    "linked_from length_env (anchor_hash one_row_db) (by_id (audit_rows one_row_db))" "require_view_log one_row_db operator = Inr ()"
    by code_simp+
  have r: "run_audit_integrity_verification length_env operator one_row_db = Inr (read_integrity_status (snd (projr ?x)), snd (projr ?x))"
    by (subst run_audit_integrity_verification_def, subst v) (simp add: facts(2,4) map_error_def split_beta)
  have "audit_rows one_row_db = [hd two_rows]" by (simp add: one_row_db_def)
  with verify_now_tells_the_truth_outside_the_cooldown [OF r facts(1)] r facts(2,3) show ?thesis by auto
qed

end
