(* ===== verification/Startup.thy ===== *)
theory Startup
  imports RulesApi RolesApi SsoApi
begin

text \<open>
  \<open>app/bootstrap.py\<close>, and of \<open>app/main.py\<close> the check of the request's origin and the part of \<open>lifespan\<close> that
  reads and writes the database: what every start of the server does before it takes requests.
\<close>

section \<open>Seeds\<close>

record startup_env =
  st_env :: env
  st_auth :: auth_env
  st_oidc :: oidc_env
  st_credential_key :: string
  st_salt_exists :: bool
  st_allow_regenerate :: bool
  st_log_dir :: string
  st_admin_username :: string
  st_temporary_password :: string
  st_password_salt :: string

datatype startup_error = InsecureCredentialKey | CredentialSaltMissing | SeedFailed api_error | ProviderConfigUnreadable

definition system_source_name :: string where
  "system_source_name = ''PerchTail application logs''"

definition super_admin_role_name :: string where
  "super_admin_role_name = ''Super Admin''"

definition has_salt_dependent_data :: "db \<Rightarrow> bool" where
  "has_salt_dependent_data d =
     (list_ex (\<lambda>s. s_credential_ref s \<noteq> None) (sources d) \<or> sso_configs d \<noteq> [] \<or>
      list_ex (\<lambda>u. u_mfa_secret_encrypted u \<noteq> None) (users d) \<or> list_ex (\<lambda>r. a_row_hash r \<noteq> None) (audit_rows d))"

definition assert_credential_salt_present :: "startup_env \<Rightarrow> db \<Rightarrow> startup_error + unit" where
  "assert_credential_salt_present SE d =
     requireE (st_salt_exists SE \<or> \<not> has_salt_dependent_data d \<or> st_allow_regenerate SE) CredentialSaltMissing"

definition seed_system_log_source :: "startup_env \<Rightarrow> db \<Rightarrow> source \<times> db" where
  "seed_system_log_source SE d =
     (case find s_is_system (sources d) of
        Some s \<Rightarrow> (s, d)
      | None \<Rightarrow>
          (let s = \<lparr>s_id = source_seq d + 1, s_name = system_source_name, s_customer_id = None, s_folder_id = None, s_protocol = Local,
                    s_host = ''localhost'', s_port = None, s_credential_ref = None, s_base_path = st_log_dir SE, s_roots = None,
                    s_winrm_scheme = None, s_tls_ca_pem = None, s_enabled = True, s_schedule_cron = None, s_is_system = True,
                    s_agent_token_hash = None, s_agent_last_seen_at = None, s_agent_os = None, s_search_indexing_enabled = False\<rparr>;
               r = \<lparr>r_id = tbl_max r_id (rules d) + 1, r_source_id = s_id s, r_order = 0, r_type = Include, r_pattern = ''**/*'',
                    r_kind = Glob, r_notes = None\<rparr>
           in (s, d\<lparr>sources := sources d @ [s], source_seq := source_seq d + 1, rules := rules d @ [r]\<rparr>)))"

text \<open>
  The first account. The role is committed before the account is made, so an error or a stop of the process
  between the two leaves the role.
\<close>

definition seed_initial_super_admin :: "startup_env \<Rightarrow> db \<Rightarrow> (startup_error + user option) \<times> db" where
  "seed_initial_super_admin SE d =
     (if users d \<noteq> [] then (Inr None, d)
      else
        (case create_role (st_env SE) d None super_admin_role_name True True [] of
           Inl e \<Rightarrow> (Inl (SeedFailed e), d)
         | Inr (r, d1) \<Rightarrow>
             (case create_local_user (st_env SE) (st_auth SE) (st_password_salt SE) None (st_admin_username SE)
                     (st_temporary_password SE) (ro_id r) d1 of
                Inl e \<Rightarrow> (Inl (SeedFailed e), d1)
              | Inr (u, d2) \<Rightarrow> (Inr (Some u), d2))))"

definition seed_no_access_role :: "startup_env \<Rightarrow> db \<Rightarrow> (startup_error + role) \<times> db" where
  "seed_no_access_role SE d =
     (case find (\<lambda>r. ro_name r = no_access_role_name) (roles d) of
        Some r \<Rightarrow> (Inr r, d)
      | None \<Rightarrow>
          (case create_role (st_env SE) d None no_access_role_name True False [] of
             Inl e \<Rightarrow> (Inl (SeedFailed e), d)
           | Inr (r, d1) \<Rightarrow> (Inr r, d1)))"

definition unbound :: "user \<Rightarrow> bool" where
  "unbound u = (u_auth_provider u = AuthOidc \<and> u_external_issuer u = None)"

definition issuer_candidates :: "db \<Rightarrow> sso_provider_config list" where
  "issuer_candidates d =
     (let configs = filter (\<lambda>c. sc_protocol c = SsoOidc) (sso_configs d); enabled = filter sc_enabled configs
      in if enabled \<noteq> [] then enabled else configs)"

definition backfill_sso_user_issuers :: "startup_env \<Rightarrow> db \<Rightarrow> (startup_error + nat) \<times> db" where
  "backfill_sso_user_issuers SE d =
     (let accounts = filter unbound (users d) in
      if accounts = [] then (Inr 0, d)
      else
        (case issuer_candidates d of
           [c] \<Rightarrow>
             (case Option.bind (oe_open (st_oidc SE) (sc_config c)) (str_field ''issuer'') of
                None \<Rightarrow> (Inl ProviderConfigUnreadable, d)
              | Some issuer \<Rightarrow>
                  (Inr (length accounts),
                   d\<lparr>users := map (\<lambda>u. if unbound u then u\<lparr>u_external_issuer := Some issuer\<rparr> else u) (users d)\<rparr>))
         | _ \<Rightarrow> (Inr 0, d)))"

section \<open>Starting\<close>

text \<open>A step of the start that commits; an error ends the start with what was committed before.\<close>

definition and_next :: "(startup_error + 'a) \<times> db \<Rightarrow> (db \<Rightarrow> startup_error option \<times> db) \<Rightarrow> startup_error option \<times> db" where
  "and_next step k = (case step of (Inl e, d) \<Rightarrow> (Some e, d) | (Inr _, d) \<Rightarrow> k d)"

definition startup :: "startup_env \<Rightarrow> db \<Rightarrow> startup_error option \<times> db" where
  "startup SE d =
     (if st_credential_key SE = ''changeme'' then (Some InsecureCredentialKey, d)
      else
        and_next (assert_credential_salt_present SE d, d) (\<lambda>d.
        let d1 = snd (backfill_chain_if_needed (st_env SE) d);
            d2 = snd (seed_system_log_source SE d1)
        in and_next (seed_initial_super_admin SE d2) (\<lambda>d3.
           and_next (seed_no_access_role SE d3) (\<lambda>d4.
           and_next (backfill_sso_user_issuers SE (seed_default_global_patterns d4)) (\<lambda>d5. (None, d5))))))"

section \<open>The origin of a request\<close>

text \<open>\<open>urlsplit\<close> is a parameter: the scheme and the netloc of a URL.\<close>

definition is_same_origin :: "(string \<Rightarrow> string \<times> string) \<Rightarrow> string \<Rightarrow> string \<Rightarrow> bool" where
  "is_same_origin urlsplit candidate expected_netloc =
     (let (scheme, netloc) = urlsplit candidate in
      if scheme = '''' \<or> netloc = '''' then False else netloc = expected_netloc)"

definition origin_checked_methods :: "string list" where
  "origin_checked_methods = [''POST'', ''PUT'', ''PATCH'', ''DELETE'']"

definition present :: "string option \<Rightarrow> bool" where
  "present v = (v \<noteq> None \<and> v \<noteq> Some '''')"

text \<open>Whether the request is blocked, by its method, the two headers and its own host.\<close>

definition origin_blocked :: "(string \<Rightarrow> string \<times> string) \<Rightarrow> string \<Rightarrow> string option \<Rightarrow> string option \<Rightarrow> string \<Rightarrow> bool" where
  "origin_blocked urlsplit meth origin referer netloc =
     (meth \<in> set origin_checked_methods \<and>
      (case (if present origin then origin else referer) of
         None \<Rightarrow> False
       | Some candidate \<Rightarrow> \<not> is_same_origin urlsplit candidate netloc))"

section \<open>What a start does\<close>

lemma and_next_None: "and_next step k = (None, d') \<longleftrightarrow> (\<exists>x d. step = (Inr x, d) \<and> k d = (None, d'))"
  by (auto simp: and_next_def split: prod.splits sum.splits)

definition all_hashed :: "db \<Rightarrow> bool" where
  "all_hashed d = (\<forall>r \<in> set (audit_rows d). a_row_hash r \<noteq> None)"

lemma put_elems: "x \<in> set (tbl_put key p rows) \<Longrightarrow> x = p \<or> x \<in> set rows \<and> key x \<noteq> key p"
  by (auto simp: tbl_put_def)

lemma fold_put_elems:
  "x \<in> set (fold (tbl_put key) ps rows) \<Longrightarrow> x \<in> set ps \<or> x \<in> set rows \<and> key x \<notin> key ` set ps"
proof (induction ps arbitrary: rows)
  case (Cons p ps)
  from Cons.IH [of "tbl_put key p rows"] Cons.prems have "x \<in> set ps \<or> x \<in> set (tbl_put key p rows) \<and> key x \<notin> key ` set ps" by simp
  with put_elems [of x key p rows] show ?case by auto
qed simp

lemma backfill_loop_hashes: "x \<in> set (backfill_loop E prev rs) \<Longrightarrow> a_row_hash x \<noteq> None"
  by (induction rs arbitrary: prev) (auto simp: Let_def)

lemma backfill_loop_keys: "a_id ` set (backfill_loop E prev rs) = a_id ` set rs"
  by (induction rs arbitrary: prev) (simp_all add: Let_def)

lemma backfilled_rows: "all_hashed (snd (backfill_chain_if_needed E d))"
proof -
  let ?missing = "filter (\<lambda>r. a_row_hash r = None) (by_id (audit_rows d))"
  let ?ps = "backfill_loop E (current_chain_tip d) ?missing"
  have ids: "set (by_id (audit_rows d)) = set (audit_rows d)" by (simp add: by_id_def)
  have "a_row_hash x \<noteq> None" if "x \<in> set (fold (tbl_put a_id) ?ps (audit_rows d))" for x
    using fold_put_elems [OF that]
  proof
    assume "x \<in> set ?ps"
    then show ?thesis by (rule backfill_loop_hashes)
  next
    assume "x \<in> set (audit_rows d) \<and> a_id x \<notin> a_id ` set ?ps"
    then have "x \<in> set (by_id (audit_rows d))" "x \<notin> set ?missing" unfolding backfill_loop_keys using ids by blast+
    then show ?thesis by simp
  qed
  note filled = this
  show ?thesis
  proof (cases "?missing = []")
    case True
    then have "backfill_chain_if_needed E d = (0, d)" by (simp add: backfill_chain_if_needed_def)
    moreover have "\<forall>r \<in> set (by_id (audit_rows d)). a_row_hash r \<noteq> None" using True by (simp add: filter_empty_conv)
    ultimately show ?thesis by (simp add: all_hashed_def ids)
  next
    case False
    then have "audit_rows (snd (backfill_chain_if_needed E d)) = fold (tbl_put a_id) ?ps (audit_rows d)"
      by (simp add: backfill_chain_if_needed_def Let_def)
    with filled show ?thesis by (simp only: all_hashed_def) blast
  qed
qed

lemma recorded_hash [simp]: "all_hashed (record_audit_event E seen d u a tt ti m) \<longleftrightarrow> all_hashed d"
  by (auto simp: all_hashed_def record_audit_event_def chain_new_entry_def Let_def)

lemma hashed_fields [simp]:
  "all_hashed (d\<lparr>roles := x1\<rparr>) \<longleftrightarrow> all_hashed d" "all_hashed (d\<lparr>role_seq := x2\<rparr>) \<longleftrightarrow> all_hashed d"
  "all_hashed (d\<lparr>users := x3\<rparr>) \<longleftrightarrow> all_hashed d" "all_hashed (d\<lparr>severity_patterns := x4\<rparr>) \<longleftrightarrow> all_hashed d"
  by (simp_all add: all_hashed_def)

text \<open>What a start leaves of a database, step by step.\<close>

lemma backfill_rest [simp]:
  "users (snd (backfill_chain_if_needed E d)) = users d" "roles (snd (backfill_chain_if_needed E d)) = roles d"
  "sources (snd (backfill_chain_if_needed E d)) = sources d" "role_grants (snd (backfill_chain_if_needed E d)) = role_grants d" "sso_configs (snd (backfill_chain_if_needed E d)) = sso_configs d"
  by (simp_all add: backfill_chain_if_needed_def Let_def)

lemma system_source_seeded:
  assumes "d2 = snd (seed_system_log_source SE d)"
  shows "users d2 = users d \<and> roles d2 = roles d \<and> role_grants d2 = role_grants d \<and> sso_configs d2 = sso_configs d \<and> all_hashed d2 = all_hashed d \<and>
    find s_is_system (sources d2) \<noteq> None \<and> (find s_is_system (sources d) \<noteq> None \<longrightarrow> d2 = d)"
  by (cases "find s_is_system (sources d)")
     (simp_all add: assms seed_system_log_source_def Let_def find_append all_hashed_def)

lemma created_role:
  assumes "create_role E d a n b s caps = Inr (r, d1)"
  shows "sources d1 = sources d \<and> sso_configs d1 = sso_configs d \<and> users d1 = users d \<and> all_hashed d1 = all_hashed d \<and>
    role_grants d1 = role_grants d \<and> roles d1 = roles d @ [r] \<and> r = \<lparr>ro_id = role_seq d + 1, ro_name = n, ro_is_builtin = b, ro_is_super_admin = s, ro_global_capabilities = caps\<rparr>"
  using assms by (auto simp: create_role_def Let_def bindE_Inr_iff requireE_def split: if_splits)

lemma created_user:
  assumes "create_local_user E A salt a n pw i d = Inr (u, d1)"
  shows "sources d1 = sources d \<and> sso_configs d1 = sso_configs d \<and> roles d1 = roles d \<and> role_grants d1 = role_grants d \<and> all_hashed d1 = all_hashed d \<and>
    users d1 = users d @ [u] \<and> u_username u = n \<and> u_password_hash u = Some (hash_password A salt pw) \<and> u_role_id u = i \<and> u_active u \<and>
    u_auth_provider u = AuthLocal \<and> u_must_change_password u \<and> \<not> u_mfa_enabled u"
  using assms by (auto simp: create_local_user_def Let_def bindE_Inr_iff)

lemma admin_seeded:
  assumes "seed_initial_super_admin SE d = (Inr x, d1)"
  shows "sources d1 = sources d \<and> sso_configs d1 = sso_configs d \<and> all_hashed d1 = all_hashed d \<and> users d1 \<noteq> [] \<and> (users d \<noteq> [] \<longrightarrow> d1 = d)"
proof (cases "users d = []")
  case False
  with assms show ?thesis by (simp add: seed_initial_super_admin_def)
next
  case True
  with assms obtain r d0 u where "create_role (st_env SE) d None super_admin_role_name True True [] = Inr (r, d0)"
    "create_local_user (st_env SE) (st_auth SE) (st_password_salt SE) None (st_admin_username SE) (st_temporary_password SE) (ro_id r) d0 = Inr (u, d1)"
    by (auto simp: seed_initial_super_admin_def split: sum.splits prod.splits)
  from created_role [OF this(1)] created_user [OF this(2)] True show ?thesis by simp
qed

lemma no_access_seeded:
  assumes "seed_no_access_role SE d = (Inr r, d1)"
  shows "sources d1 = sources d \<and> sso_configs d1 = sso_configs d \<and> users d1 = users d \<and> all_hashed d1 = all_hashed d \<and>
    role_grants d1 = role_grants d \<and> find (\<lambda>r. ro_name r = no_access_role_name) (roles d1) \<noteq> None \<and>
    (roles d1 = roles d \<or> (\<exists>r. roles d1 = roles d @ [r] \<and> ro_global_capabilities r = [] \<and> \<not> ro_is_super_admin r))"
proof (cases "find (\<lambda>r. ro_name r = no_access_role_name) (roles d)")
  case (Some x)
  with assms show ?thesis by (simp add: seed_no_access_role_def)
next
  case None
  with assms have "create_role (st_env SE) d None no_access_role_name True False [] = Inr (r, d1)"
    by (auto simp: seed_no_access_role_def split: sum.splits prod.splits)
  from created_role [OF this] None show ?thesis by (simp add: find_append)
qed

lemma patterns_seeded:
  "users (seed_default_global_patterns d) = users d" "roles (seed_default_global_patterns d) = roles d"
  "sources (seed_default_global_patterns d) = sources d" "role_grants (seed_default_global_patterns d) = role_grants d" "sso_configs (seed_default_global_patterns d) = sso_configs d"
  "all_hashed (seed_default_global_patterns d) = all_hashed d"
  "find (\<lambda>p. sp_source_id p = None) (severity_patterns (seed_default_global_patterns d)) \<noteq> None"
  by (simp_all add: seed_default_global_patterns_def find_append default_global_patterns_def default_pattern_def Let_def enumerate_eq_zip
      split: option.split)

lemma issuers_backfilled:
  assumes "backfill_sso_user_issuers SE d = (Inr n, d1)"
  shows "sources d1 = sources d \<and> sso_configs d1 = sso_configs d \<and> roles d1 = roles d \<and> role_grants d1 = role_grants d \<and> all_hashed d1 = all_hashed d \<and>
    severity_patterns d1 = severity_patterns d \<and>
    (\<exists>f. users d1 = map (\<lambda>u. if unbound u then u\<lparr>u_external_issuer := f\<rparr> else u) (users d)) \<and>
    (\<exists>m. backfill_sso_user_issuers SE' d1 = (Inr m, d1))"
proof -
  have same: "map (\<lambda>u. if unbound u then u\<lparr>u_external_issuer := None\<rparr> else u) us = us" for us :: "user list"
    by (intro map_idI) (auto simp: unbound_def)
  have quiet: "backfill_sso_user_issuers SE d = (Inr 0, d)" if "filter unbound (users d) = [] \<or> length (issuer_candidates d) \<noteq> 1" for SE d
    using that by (cases "issuer_candidates d" rule: remdups_adj.cases) (auto simp: backfill_sso_user_issuers_def Let_def)
  show ?thesis
  proof (cases "filter unbound (users d) = [] \<or> length (issuer_candidates d) \<noteq> 1")
    case True
    from quiet [OF this] assms have "d1 = d" by simp
    with quiet [OF True] same show ?thesis by (intro conjI exI [of _ None] exI [of _ 0]) simp_all
  next
    case False
    then obtain c where c: "issuer_candidates d = [c]" "filter unbound (users d) \<noteq> []" by (cases "issuer_candidates d") auto
    with assms obtain issuer where d1: "d1 = d\<lparr>users := map (\<lambda>u. if unbound u then u\<lparr>u_external_issuer := Some issuer\<rparr> else u) (users d)\<rparr>"
      by (auto simp: backfill_sso_user_issuers_def Let_def split: option.splits)
    then have "filter unbound (users d1) = []" by (auto simp: filter_empty_conv unbound_def)
    from quiet [OF disjI1 [OF this]] d1 show ?thesis by auto
  qed
qed

lemma startup_steps:
  assumes "startup SE d = (None, d')"
  obtains d2 x3 d3 x4 d4 x5 where "st_credential_key SE \<noteq> ''changeme''" "assert_credential_salt_present SE d = Inr ()"
    "d2 = snd (seed_system_log_source SE (snd (backfill_chain_if_needed (st_env SE) d)))"
    "seed_initial_super_admin SE d2 = (Inr x3, d3)" "seed_no_access_role SE d3 = (Inr x4, d4)"
    "backfill_sso_user_issuers SE (seed_default_global_patterns d4) = (Inr x5, d')"
  using assms that by (auto simp: startup_def and_next_None Let_def split: if_splits)

section \<open>Properties\<close>

text \<open>
  C39: A start is idempotent: once the server has started, every later start with a usable key and salt
  succeeds and changes nothing in the database.
\<close>

theorem a_second_start_changes_nothing:
  assumes "startup SE d = (None, d1)" "st_credential_key SE' \<noteq> ''changeme''" "st_salt_exists SE'"
  shows "startup SE' d1 = (None, d1)"
proof -
  from assms(1) obtain d2 x3 d3 x4 d4 x5 where s: "d2 = snd (seed_system_log_source SE (snd (backfill_chain_if_needed (st_env SE) d)))"
    "seed_initial_super_admin SE d2 = (Inr x3, d3)" "seed_no_access_role SE d3 = (Inr x4, d4)"
    "backfill_sso_user_issuers SE (seed_default_global_patterns d4) = (Inr x5, d1)" by (rule startup_steps)
  note facts = system_source_seeded [OF s(1)] admin_seeded [OF s(2)] no_access_seeded [OF s(3)] patterns_seeded [of d4] issuers_backfilled [OF s(4), of SE']
  have hashed: "all_hashed d1" using facts backfilled_rows by simp
  then have "list_all (\<lambda>r. a_row_hash r \<noteq> None) (audit_rows d1)" by (simp add: all_hashed_def list_all_iff)
  from backfill_hashed [OF this] have 1: "snd (backfill_chain_if_needed (st_env SE') d1) = d1" by simp
  have sys: "find s_is_system (sources d1) \<noteq> None" using facts by simp
  have 2: "snd (seed_system_log_source SE' d1) = d1" using sys by (auto simp: seed_system_log_source_def)
  have "users d1 \<noteq> []" using facts by auto
  then have 3: "seed_initial_super_admin SE' d1 = (Inr None, d1)" by (simp add: seed_initial_super_admin_def)
  have "find (\<lambda>r. ro_name r = no_access_role_name) (roles d1) \<noteq> None" using facts by simp
  then obtain r where 4: "seed_no_access_role SE' d1 = (Inr r, d1)" by (auto simp: seed_no_access_role_def)
  have "find (\<lambda>p. sp_source_id p = None) (severity_patterns d1) \<noteq> None" using facts by simp
  then have 5: "seed_default_global_patterns d1 = d1" by (simp add: seed_default_global_patterns_def)
  obtain m where 6: "backfill_sso_user_issuers SE' d1 = (Inr m, d1)" using facts by blast
  show ?thesis using assms(2,3) by (simp add: startup_def and_next_def assert_credential_salt_present_def 1 2 3 4 5 6)
qed

text \<open>
  The first start of an empty installation makes exactly one account: a local, active super admin whose password is the one that was
  logged and has to be changed, and a role without any capability for accounts that single sign-on makes.
\<close>

theorem the_first_start_makes_one_super_admin:
  assumes "startup SE empty_db = (None, d1)" "au_argon_verify (st_auth SE) (au_argon_hash (st_auth SE) (st_password_salt SE) (st_temporary_password SE)) (st_temporary_password SE)"
  shows "\<exists>u. users d1 = [u] \<and> is_active_super d1 u \<and> u_username u = st_admin_username SE \<and> u_auth_provider u = AuthLocal \<and>
    verify_password (st_auth SE) u (st_temporary_password SE) \<and> u_must_change_password u \<and>
    (\<forall>r \<in> set (roles d1). ro_id r \<noteq> u_role_id u \<longrightarrow> ro_global_capabilities r = [] \<and> \<not> ro_is_super_admin r)"
proof -
  from assms(1) obtain d2 x3 d3 x4 d4 x5 where s: "d2 = snd (seed_system_log_source SE (snd (backfill_chain_if_needed (st_env SE) empty_db)))"
    "seed_initial_super_admin SE d2 = (Inr x3, d3)" "seed_no_access_role SE d3 = (Inr x4, d4)"
    "backfill_sso_user_issuers SE (seed_default_global_patterns d4) = (Inr x5, d1)" by (rule startup_steps)
  have d2: "users d2 = []" "roles d2 = []" using system_source_seeded [OF s(1)] by (simp_all add: empty_db_def)
  with s(2) obtain r d0 u where c: "create_role (st_env SE) d2 None super_admin_role_name True True [] = Inr (r, d0)"
    "create_local_user (st_env SE) (st_auth SE) (st_password_salt SE) None (st_admin_username SE) (st_temporary_password SE) (ro_id r) d0 = Inr (u, d3)"
    by (auto simp: seed_initial_super_admin_def split: sum.splits prod.splits)
  note made = created_role [OF c(1)] created_user [OF c(2)]
  have u: "users d3 = [u]" "roles d3 = [r]" "ro_is_super_admin r" "u_role_id u = ro_id r" "u_active u" using made d2 by simp_all
  have "\<not> unbound u" using made by (simp add: unbound_def)
  then have users: "users d1 = [u]"
    using issuers_backfilled [OF s(4)] no_access_seeded [OF s(3)] u(1) by (auto simp: patterns_seeded)
  have roles: "roles d1 = [r] \<or> (\<exists>r'. roles d1 = [r, r'] \<and> ro_global_capabilities r' = [] \<and> \<not> ro_is_super_admin r')"
    using issuers_backfilled [OF s(4)] no_access_seeded [OF s(3)] u(2) by (auto simp: patterns_seeded)
  then have "get_role d1 (u_role_id u) = Some r" by (auto simp: tbl_get_def u(4))
  then have "is_active_super d1 u" using u(3,5) by (simp add: is_active_super_def)
  moreover have "verify_password (st_auth SE) u (st_temporary_password SE)" using made assms(2) by (simp add: verify_password_def hash_password_def)
  ultimately show ?thesis using users roles made u(4) by (intro exI [of _ u]) auto
qed

text \<open>
  Where there are accounts, a start gives nobody more rights: it makes no account and no role but an empty one, and changes of an account
  only the missing issuer of one that single sign-on made.
\<close>

theorem a_start_grants_nobody_anything:
  assumes "startup SE d = (e, d1)" "users d \<noteq> []"
  shows "(\<exists>f. users d1 = map (\<lambda>u. if unbound u then u\<lparr>u_external_issuer := f\<rparr> else u) (users d)) \<and>
    (roles d1 = roles d \<or> (\<exists>r. roles d1 = roles d @ [r] \<and> ro_global_capabilities r = [] \<and> \<not> ro_is_super_admin r)) \<and>
    role_grants d1 = role_grants d"
proof -
  let ?d2 = "snd (seed_system_log_source SE (snd (backfill_chain_if_needed (st_env SE) d)))"
  have same: "map (\<lambda>u. if unbound u then u\<lparr>u_external_issuer := None\<rparr> else u) us = us" for us :: "user list"
    by (intro map_idI) (auto simp: unbound_def)
  note seeded = system_source_seeded [OF refl, of SE "snd (backfill_chain_if_needed (st_env SE) d)"]
  have admin: "seed_initial_super_admin SE ?d2 = (Inr None, ?d2)" using seeded assms(2) by (simp add: seed_initial_super_admin_def)
  obtain x4 d4 where n: "seed_no_access_role SE ?d2 = (x4, d4)" by (rule prod.exhaust)
  obtain x5 d5 where b: "backfill_sso_user_issuers SE (seed_default_global_patterns d4) = (x5, d5)" by (rule prod.exhaust)
  have failed: "d4 = ?d2" if "x4 = Inl y" for y
    using n that by (auto simp: seed_no_access_role_def split: option.splits sum.splits prod.splits)
  have unread: "d5 = seed_default_global_patterns d4" if "x5 = Inl y" for y
    using b that by (auto simp: backfill_sso_user_issuers_def Let_def split: list.splits option.splits if_splits)
  have d1: "d1 \<in> {d, ?d2, d4, d5}"
    using assms(1) by (auto simp: startup_def and_next_def Let_def admin n b split: if_splits sum.splits prod.splits)
  have four: "users d4 = users d \<and> role_grants d4 = role_grants d \<and>
      (roles d4 = roles d \<or> (\<exists>r. roles d4 = roles d @ [r] \<and> ro_global_capabilities r = [] \<and> \<not> ro_is_super_admin r))"
    using seeded failed no_access_seeded [of SE ?d2] n by (cases x4) auto
  let ?ok = "\<lambda>x. (\<exists>f. users x = map (\<lambda>u. if unbound u then u\<lparr>u_external_issuer := f\<rparr> else u) (users d)) \<and>
    (roles x = roles d \<or> (\<exists>r. roles x = roles d @ [r] \<and> ro_global_capabilities r = [] \<and> \<not> ro_is_super_admin r)) \<and> role_grants x = role_grants d"
  have keeps: "?ok x" if "users x = users d" "role_grants x = role_grants d"
    "roles x = roles d \<or> (\<exists>r. roles x = roles d @ [r] \<and> ro_global_capabilities r = [] \<and> \<not> ro_is_super_admin r)" for x
    using that by (intro conjI exI [of _ None]) (simp_all only: same)
  have "?ok d5"
  proof (cases x5)
    case (Inl y)
    with four show ?thesis by (intro keeps) (simp_all add: patterns_seeded unread)
  next
    case (Inr y)
    with issuers_backfilled [of SE "seed_default_global_patterns d4" y d5] b four show ?thesis by (simp add: patterns_seeded)
  qed
  moreover have "?ok d" "?ok ?d2" "?ok d4" using four seeded by (intro keeps; simp)+
  ultimately show ?thesis using d1 by blast
qed

text \<open>
  A first start that stops after it made the super admin's role and before it made the account is never made good: every later start
  ends with an integrity error, and the installation stays without accounts.
\<close>

theorem an_interrupted_first_start_never_recovers:
  assumes "users d = []" "list_ex (\<lambda>r. ro_name r = super_admin_role_name) (roles d)"
    and "st_credential_key SE \<noteq> ''changeme''" "assert_credential_salt_present SE d = Inr ()"
  shows "\<exists>d1. startup SE d = (Some (SeedFailed IntegrityError), d1) \<and> users d1 = [] \<and> roles d1 = roles d"
proof -
  let ?d2 = "snd (seed_system_log_source SE (snd (backfill_chain_if_needed (st_env SE) d)))"
  have same: "users ?d2 = []" "roles ?d2 = roles d" using system_source_seeded [OF refl, of SE "snd (backfill_chain_if_needed (st_env SE) d)"] assms(1) by simp_all
  have "create_role (st_env SE) ?d2 None super_admin_role_name True True [] = Inl IntegrityError"
    using assms(2) by (auto simp: create_role_def Let_def requireE_def same(2) list_ex_iff)
  then have "seed_initial_super_admin SE ?d2 = (Inl (SeedFailed IntegrityError), ?d2)" by (simp add: seed_initial_super_admin_def same(1))
  then show ?thesis using assms(3,4) same by (simp add: startup_def and_next_def Let_def)
qed

section \<open>Witnesses\<close>

definition first_start :: startup_env where
  "first_start = \<lparr>st_env = length_env, st_auth = plain_auth, st_oidc = sample_idp, st_credential_key = ''k'', st_salt_exists = True,
     st_allow_regenerate = False, st_log_dir = ''/data/logs'', st_admin_username = ''admin'', st_temporary_password = ''pw'', st_password_salt = ''s''\<rparr>"

lemma first_start_starts: obtains d1 where "startup first_start empty_db = (None, d1)"
proof -
  have b: "backfill_chain_if_needed length_env empty_db = (0, empty_db)" by code_simp
  obtain d2 where d2: "snd (seed_system_log_source first_start empty_db) = d2" by simp
  have e: "users d2 = []" "roles d2 = []" using system_source_seeded [OF d2 [symmetric]] by (simp_all add: empty_db_def)
  obtain r d3 where c: "create_role length_env d2 None super_admin_role_name True True [] = Inr (r, d3)"
    by (simp add: create_role_def e requireE_def Let_def)
  note made = created_role [OF c]
  obtain u d4 where c2: "create_local_user length_env plain_auth ''s'' None ''admin'' ''pw'' (ro_id r) d3 = Inr (u, d4)"
    using made e by (simp add: create_local_user_def requireE_def Let_def)
  note made2 = created_user [OF c2]
  have admin: "seed_initial_super_admin first_start d2 = (Inr (Some u), d4)"
    by (simp add: seed_initial_super_admin_def e c c2 first_start_def)
  have "roles d4 = [r]" "ro_name r = super_admin_role_name" using made made2 e by simp_all
  then have "create_role length_env d4 None no_access_role_name True False [] \<noteq> Inl e" for e
    by (simp add: create_role_def requireE_def super_admin_role_name_def no_access_role_name_def Let_def)
  moreover have "find (\<lambda>r. ro_name r = no_access_role_name) (roles d4) = None"
    using \<open>roles d4 = [r]\<close> \<open>ro_name r = _\<close> by (simp add: super_admin_role_name_def no_access_role_name_def)
  ultimately obtain r2 d5 where n: "seed_no_access_role first_start d4 = (Inr r2, d5)"
    by (cases "create_role length_env d4 None no_access_role_name True False []") (auto simp: seed_no_access_role_def first_start_def)
  have "users (seed_default_global_patterns d5) = [u]" "\<not> unbound u"
    using no_access_seeded [OF n] made made2 e by (simp_all add: patterns_seeded unbound_def)
  then have "backfill_sso_user_issuers first_start (seed_default_global_patterns d5) = (Inr 0, seed_default_global_patterns d5)"
    by (simp add: backfill_sso_user_issuers_def)
  moreover have "assert_credential_salt_present first_start empty_db = Inr ()" "st_credential_key first_start \<noteq> ''changeme''"
    "st_env first_start = length_env" by (simp_all add: assert_credential_salt_present_def first_start_def)
  ultimately have "startup first_start empty_db = (None, seed_default_global_patterns d5)"
    by (simp add: startup_def and_next_def b d2 admin n Let_def)
  then show ?thesis by (rule that)
qed

theorem a_second_start_changes_nothing_witness:
  "\<exists>d1. startup first_start empty_db = (None, d1) \<and> startup first_start d1 = (None, d1)"
proof -
  obtain d1 where s: "startup first_start empty_db = (None, d1)" by (rule first_start_starts)
  have "st_credential_key first_start \<noteq> ''changeme''" "st_salt_exists first_start" by (simp_all add: first_start_def)
  from a_second_start_changes_nothing [OF s this] s show ?thesis by blast
qed

theorem the_first_start_makes_one_super_admin_witness:
  "\<exists>d1 u. startup first_start empty_db = (None, d1) \<and> users d1 = [u] \<and> is_active_super d1 u \<and> u_username u = ''admin''"
proof -
  obtain d1 where s: "startup first_start empty_db = (None, d1)" by (rule first_start_starts)
  have v: "au_argon_verify (st_auth first_start) (au_argon_hash (st_auth first_start) (st_password_salt first_start)
      (st_temporary_password first_start)) (st_temporary_password first_start)" by (simp add: first_start_def plain_auth_def partition_on_def)
  have "st_admin_username first_start = ''admin''" by (simp add: first_start_def)
  with the_first_start_makes_one_super_admin [OF s v] s show ?thesis by auto
qed

theorem a_start_grants_nobody_anything_witness:
  "role_grants (snd (startup first_start sample_db)) = role_grants sample_db"
proof -
  have "startup first_start sample_db = (fst (startup first_start sample_db), snd (startup first_start sample_db))" "users sample_db \<noteq> []"
    by (simp_all add: sample_db_def)
  from a_start_grants_nobody_anything [OF this] show ?thesis by blast
qed

theorem an_interrupted_first_start_never_recovers_witness:
  "\<exists>d1. startup first_start (empty_db\<lparr>roles := [\<lparr>ro_id = 1, ro_name = super_admin_role_name, ro_is_builtin = True, ro_is_super_admin = True,
       ro_global_capabilities = []\<rparr>]\<rparr>) = (Some (SeedFailed IntegrityError), d1) \<and> users d1 = []"
proof -
  let ?d = "empty_db\<lparr>roles := [\<lparr>ro_id = 1, ro_name = super_admin_role_name, ro_is_builtin = True, ro_is_super_admin = True,
       ro_global_capabilities = []\<rparr>]\<rparr>"
  have "users ?d = []" "list_ex (\<lambda>r. ro_name r = super_admin_role_name) (roles ?d)" "st_credential_key first_start \<noteq> ''changeme''"
    "assert_credential_salt_present first_start ?d = Inr ()"
    by (simp_all add: empty_db_def first_start_def assert_credential_salt_present_def)
  from an_interrupted_first_start_never_recovers [OF this] show ?thesis by blast
qed

end
