(* ===== verification/Spec2Isabelle.thy ===== *)
theory Spec2Isabelle
  imports Rules AuditPurge SourceRoots RolesApi SsoApi AgentRegistry FileAccess SettingsApi
    ConfigPlan ConfigExport AuditApi Startup
begin

text \<open>
  PerchTail (\<open>src/backend/app\<close>) is a web server that lets an organisation's people read log files on
  many machines: a \<^emph>\<open>source\<close> is a folder on a host, reached by a connector; \<^emph>\<open>rules\<close> decide which of its
  files may be seen at all; \<^emph>\<open>roles\<close> and \<^emph>\<open>grants\<close> on customers, folders and sources decide who may see
  them; every act is written to an audit log whose rows form a hash chain. This development models the
  decisions and the state of that server in HOL and proves what each part promises.

  \<^bold>\<open>The parts and their theories.\<close>

  \<^item> \<open>Prelude\<close>: Python strings on character lists, results that may be an error (\<open>bindE\<close>), tables as
    lists of rows, dicts as association lists, and the interfaces \<open>keyed_table\<close> (what handlers rely on
    when they read, write and delete a row) and \<open>guarded_machine\<close> (operations that either refuse or
    keep an invariant, their runs and the states they reach).
  \<^item> \<open>Json\<close> (\<open>json_values.py\<close> and the encoder of the standard library), \<open>Models\<close> (\<open>models.py\<close>,
    \<open>auth/models.py\<close>): JSON values with the canonical encoding and its injectivity; the tables as
    records and the database as a record of row lists.
  \<^item> \<open>LastMatch\<close>, \<open>Glob\<close>, \<open>Rules\<close> (\<open>rules.py\<close>): the interface "the last matching entry decides", the
    glob compiler with a matcher for the regular expressions it emits, the rule chain, the pruning of
    folders and the path checks. Shown: the verdict is that of the last matching rule, a visible file
    has visible ancestors, an exclude of a folder hides all below, spellings of one Windows file have
    one verdict, accepted paths are canonical.
  \<^item> \<open>AuditLabels\<close>, \<open>AuditChain\<close>, \<open>AuditIntegrity\<close>, \<open>AuditPurge\<close> (\<open>audit.py\<close>, \<open>audit_labels.py\<close>,
    \<open>audit_hash_chain.py\<close>, \<open>audit_integrity.py\<close>, \<open>audit_purge.py\<close>): recording an event, the chain, its
    verification, the recorded race breaks and the retention sweep. Shown: the verification says ok
    exactly for an intact chain, two verified logs with one anchor and one tip record the same (both for
    logs without recorded breaks), recording, purging, backfilling and recording breaks keep or restore a
    verified log.
  \<^item> \<open>Settings\<close>, \<open>SettingsApi\<close>, \<open>SourceRoots\<close> (\<open>system_settings.py\<close>, \<open>api/system_settings.py\<close>,
    \<open>source_roots.py\<close>): typed settings and the document they form; a source with several folders. Shown:
    settings keep their types and bounds, a change is exact, an entry of a source with several folders
    opens where it was listed.
  \<^item> \<open>Rbac\<close>, \<open>OrgApi\<close>, \<open>UsersApi\<close>, \<open>RolesApi\<close> (\<open>auth/rbac.py\<close>, \<open>api/customers.py\<close>, \<open>api/folders.py\<close>,
    \<open>api/users.py\<close>, \<open>api/roles.py\<close>): capability resolution and the endpoints as guarded machines over
    the database. Shown: the most specific grant decides, list and guard agree, permission checks
    return after any requests, nobody creates or edits beyond their authority, an active super-admin
    remains, built-in roles stay.
  \<^item> \<open>Sessions\<close>, \<open>Throttle\<close>, \<open>AuthEvents\<close>, \<open>Mfa\<close>, \<open>Login\<close> (\<open>auth/sessions.py\<close>,
    \<open>auth/providers/local.py\<close>, \<open>login_throttle.py\<close>, \<open>auth_events.py\<close>, \<open>auth/mfa.py\<close>, \<open>api/auth.py\<close>):
    sessions stored by token hash, the lockout, the folded audit events, the second factor, and the
    endpoints composed of them. Shown: guesses at a name are bounded until the next right one, a login needs every factor, a factor is
    used once, every failure is accounted for, a returned token signs in, a password change ends
    every other session.
  \<^item> \<open>Sso\<close>, \<open>SsoApi\<close> (\<open>auth/providers/oidc.py\<close>, the SSO endpoints of \<open>api/auth.py\<close>, \<open>api/sso.py\<close>): signing in
    through an OpenID Connect provider, the mapping of its groups to roles (again the last match
    decides), and the administration of both. Shown: only the account the enabled provider vouches for
    is signed in, mappings and the trusted provider change within the actor's authority, at most one
    provider is enabled; and that deleting a mapping can raise a group.
  \<^item> \<open>AgentRegistry\<close> (\<open>agent_registry.py\<close>): the live connections of push agents as a machine of
    event-loop steps. Shown: no command waits on a connection that is gone, a chunked transfer that
    completes is exact.
  \<^item> \<open>Scratch\<close>, \<open>Archives\<close>, \<open>LocalFiles\<close>, \<open>FileAccess\<close> (\<open>scratch.py\<close>, \<open>archives.py\<close>,
    \<open>collectors/base.py\<close>, \<open>collectors/local.py\<close>, \<open>api/archive.py\<close>): the store of fetched files, archives
    as folders, files on the server's disk, and browse, open, close, download and the folder ZIP. Shown:
    the store implements a reference count per key, decompression is bounded and exact, the bytes the
    rules hide never influence an answer nor the bytes it sends, a failed request leaves nothing, local files stay inside the
    allowed directories, a listed archive file opens, a ZIP holds exactly the visible files.
  \<^item> \<open>SearchIndex\<close>, \<open>Search\<close>, \<open>Alerts\<close>, \<open>AlertsApi\<close> (\<open>search_index.py\<close>, \<open>api/search.py\<close>,
    \<open>webhook_safety.py\<close>, \<open>alerts.py\<close>, \<open>api/alerts.py\<close>): the indexer with the commits of others in
    between, the search with its scope and snippets, the evaluation of alerts and the webhook call, and
    the life of an alert. Shown: the index holds no hidden file and no line it lost track of, a search
    and an alert give only what the user may view at that moment, no new line is missed or reported
    twice, a snippet has no markup but its highlighting, a webhook reaches only checked addresses, an
    alert is changed by its owner alone and a new one inherits no progress from requests about alerts.
  \<^item> \<open>RulesApi\<close>, \<open>SourcesApi\<close>, \<open>SourcePicker\<close> (\<open>api/rules.py\<close>, \<open>severity_patterns.py\<close>,
    \<open>api/severity_patterns.py\<close>, \<open>api/sources.py\<close>): the administration of rule chains, severity patterns and
    sources, the connection check and the folder picker. Shown: every stored pattern compiles and a chain
    has one verdict, pasted text decides as it is written, requests stay inside their source, a saved
    credential stays with its host, a new source is named nowhere, closed or moved sources leave the
    index; and that one slash passes the check against administrative shares.

  \<^item> \<open>ConfigParse\<close>, \<open>ConfigImport\<close>, \<open>ConfigPlan\<close>, \<open>ConfigExport\<close> (\<open>config_transfer.py\<close>,
    \<open>api/config_transfer.py\<close>): reading a YAML file into customers, folders, sources and problems, the plan and
    its application in one transaction, the preview, and the export. Shown: an import takes nothing away; for a
    file with at most one source of a name under a customer it is idempotent, and its preview is what
    applying does as long as no folder has to be made; an exported source whose values a file can hold
    changes nothing when read back; the export ends; and where that fails: two sources of one name in different
    folders become one, the move into a new folder is not previewed, a rule in quotes is not read back.
  \<^item> \<open>AuditApi\<close>, \<open>Startup\<close> (\<open>api/audit.py\<close>, \<open>bootstrap.py\<close>, the start in \<open>main.py\<close>): the pages of the log, the
    verification on request, and what a start of the server checks and seeds. Shown: paging loses and
    repeats nothing, an entry keeps the name it recorded, an answer outside the cool-down is the truth; a start
    is idempotent and grants nobody anything, the first one makes one super admin; and that a first
    start that stops halfway is never made good.

  \<^bold>\<open>Conventions.\<close> A function that may raise is a function into a sum type, \<open>Inl\<close> the exception; a handler
  that raises returns no database, since nothing is committed. Where something outlives a failed request
  (the throttle, the scratch store, an audited failure) the state is returned beside the result. Times are
  integers in microseconds, given as arguments, as are the random values an operation draws. Lookups are by
  id in row order. Cryptographic functions, RE2, TOTP, the archive libraries, the file system and the remote
  connectors are parameters; each theorem names what it needs of them.

  \<^bold>\<open>Bounds and fuel.\<close> The recursion of the export over the folders has a depth, the number of folders, which
  \<open>the_export_always_ends\<close> shows to be enough; no other definition takes fuel. Loops over data are structural; the walks up the folder tree
  (\<open>folder_grant\<close>, \<open>parent_walk\<close>, \<open>folder_chain\<close> and the like) and the walk of a folder ZIP are partial
  functions into \<open>option\<close> where \<open>None\<close> is not returning: \<open>permission_checks_always_answer\<close> and
  \<open>org_requests_return\<close> prove that the former return on every database the requests reach,
  \<open>zip_entries_return\<close> that the latter returns when the folders have a height, and
  \<open>symlink_loop_zip_never_returns\<close> that a link to a folder above defeats it.

  \<^bold>\<open>Not modelled.\<close> Characters above code point 255; concurrency inside one step (locks and transactions are
  the atomicity of a step); log lines and response headers; log rotation; the monitoring endpoint; the
  connectors that talk to protocol libraries; the scheduler, migrations, the web client and the Go agent.
\<close>

end
